(* ===== verification/Rust_Std.thy ===== *)
theory Rust_Std
  imports Main "HOL-Library.Word" "HOL-Library.Char_ord" "HOL-Library.List_Lexorder"
    "HOL-Library.Sublist"
begin

text \<open>
  Prelude: the part of Rust's standard library that the modelled crates call.

  A Rust \<open>String\<close> or \<open>&str\<close> is a HOL \<^typ>\<open>string\<close> holding its ASCII characters, one per
  byte, so \<open>len()\<close> is \<^const>\<open>length\<close>, a byte index is a list index and \<open>Ord for str\<close> is the
  lexicographic order of \<open>List_Lexorder\<close>. Characters outside ASCII (and with them the Unicode
  white space that \<open>trim\<close> also removes) are out of scope. Fixed-width integers are words; the
  saturating operations are defined here and read back through \<^const>\<open>unat\<close>.
  The collection \<open>rust_std\<close> holds the rewrite rules the component proofs share.
\<close>

named_theorems rust_std "rewrite rules for the modelled standard library functions"

type_synonym u8 = "8 word"
type_synonym u16 = "16 word"
type_synonym u32 = "32 word"
type_synonym u64 = "64 word"

section \<open>Characters\<close>

text \<open>\<open>char::is_whitespace\<close> on ASCII: tab, line feed, vertical tab, form feed, return, space.\<close>

definition is_ws :: "char \<Rightarrow> bool" where
  "is_ws c \<longleftrightarrow> c = CHR '' '' \<or> c = CHR 0x09 \<or> c = CHR 0x0A \<or> c = CHR 0x0B
      \<or> c = CHR 0x0C \<or> c = CHR 0x0D"

definition is_ascii_upper :: "char \<Rightarrow> bool" where
  "is_ascii_upper c \<longleftrightarrow> 65 \<le> (of_char c :: nat) \<and> (of_char c :: nat) \<le> 90"

definition is_ascii_lower :: "char \<Rightarrow> bool" where
  "is_ascii_lower c \<longleftrightarrow> 97 \<le> (of_char c :: nat) \<and> (of_char c :: nat) \<le> 122"

definition is_ascii_alphabetic :: "char \<Rightarrow> bool" where
  "is_ascii_alphabetic c \<longleftrightarrow> is_ascii_upper c \<or> is_ascii_lower c"

definition is_ascii_digit :: "char \<Rightarrow> bool" where
  "is_ascii_digit c \<longleftrightarrow> 48 \<le> (of_char c :: nat) \<and> (of_char c :: nat) \<le> 57"

definition is_ascii_alphanumeric :: "char \<Rightarrow> bool" where
  "is_ascii_alphanumeric c \<longleftrightarrow> is_ascii_alphabetic c \<or> is_ascii_digit c"

definition ascii_lower :: "char \<Rightarrow> char" where
  "ascii_lower c = (if is_ascii_upper c then char_of (of_char c + 32 :: nat) else c)"

text \<open>\<open>str::to_ascii_lowercase\<close>; on ASCII strings also \<open>str::to_lowercase\<close>.\<close>

definition lowercase :: "string \<Rightarrow> string" where
  "lowercase s = map ascii_lower s"

lemma of_char_ascii_lower:
  "(of_char (ascii_lower c) :: nat) = (if is_ascii_upper c then of_char c + 32 else of_char c)"
  by (auto simp: ascii_lower_def is_ascii_upper_def)

lemma ascii_lower_idem [simp]: "ascii_lower (ascii_lower c) = ascii_lower c"
proof (cases "is_ascii_upper c")
  case True
  then have "\<not> is_ascii_upper (ascii_lower c)"
    by (auto simp: is_ascii_upper_def of_char_ascii_lower)
  then show ?thesis by (simp add: ascii_lower_def [of "ascii_lower c"])
next
  case False
  then show ?thesis by (simp add: ascii_lower_def)
qed

lemma ascii_lower_noupper: "\<not> is_ascii_upper c \<Longrightarrow> ascii_lower c = c"
  by (simp add: ascii_lower_def)

text \<open>Lower-casing only moves letters onto letters, so it neither makes nor removes any other
  character.\<close>

lemma ascii_lower_eq_iff:
  assumes "\<not> is_ascii_upper d" "\<not> is_ascii_lower d"
  shows "ascii_lower c = d \<longleftrightarrow> c = d"
proof
  assume h: "ascii_lower c = d"
  have "\<not> is_ascii_upper c"
  proof
    assume u: "is_ascii_upper c"
    then have "(of_char d :: nat) = of_char c + 32" using h of_char_ascii_lower [of c] by simp
    with u assms(2) show False by (auto simp: is_ascii_upper_def is_ascii_lower_def)
  qed
  then show "c = d" using h by (simp add: ascii_lower_noupper)
next
  assume "c = d"
  with assms(1) show "ascii_lower c = d" by (simp add: ascii_lower_noupper)
qed

lemma is_ws_ascii_lower [simp]: "is_ws (ascii_lower c) = is_ws c"
  by (simp add: is_ws_def ascii_lower_eq_iff is_ascii_upper_def is_ascii_lower_def)

lemma ascii_lower_ws [simp]: "is_ws c \<Longrightarrow> ascii_lower c = c"
  by (rule ascii_lower_noupper) (auto simp: is_ws_def is_ascii_upper_def)

lemma length_lowercase [simp]: "length (lowercase s) = length s"
  by (simp add: lowercase_def)

lemma lowercase_idem [simp]: "lowercase (lowercase s) = lowercase s"
  by (simp add: lowercase_def comp_def)

lemma lowercase_append [simp]: "lowercase (s @ t) = lowercase s @ lowercase t"
  by (simp add: lowercase_def)

lemma lowercase_Nil [simp]: "lowercase [] = []"
  by (simp add: lowercase_def)

lemma lowercase_eq_Nil [simp]: "lowercase s = [] \<longleftrightarrow> s = []"
  by (simp add: lowercase_def)

section \<open>Trimming and splitting\<close>

definition trim_start :: "string \<Rightarrow> string" where
  "trim_start s = dropWhile is_ws s"

definition trim_end :: "string \<Rightarrow> string" where
  "trim_end s = rev (dropWhile is_ws (rev s))"

definition trim :: "string \<Rightarrow> string" where
  "trim s = trim_end (trim_start s)"

text \<open>\<open>str::trim_end_matches(c)\<close> removes every trailing \<open>c\<close>, \<open>trim_matches\<close> both ends.\<close>

definition trim_end_matches :: "(char \<Rightarrow> bool) \<Rightarrow> string \<Rightarrow> string" where
  "trim_end_matches p s = rev (dropWhile p (rev s))"

definition trim_matches :: "(char \<Rightarrow> bool) \<Rightarrow> string \<Rightarrow> string" where
  "trim_matches p s = trim_end_matches p (dropWhile p s)"

text \<open>\<open>str::split_whitespace\<close>: the maximal runs of non-white-space characters.
  \<open>cur\<close> is the run being read.\<close>

fun words_from :: "string \<Rightarrow> string \<Rightarrow> string list" where
  "words_from cur [] = (if cur = [] then [] else [cur])"
| "words_from cur (c # cs) =
     (if is_ws c then (if cur = [] then words_from [] cs else cur # words_from [] cs)
      else words_from (cur @ [c]) cs)"

definition split_whitespace :: "string \<Rightarrow> string list" where
  "split_whitespace s = words_from [] s"

text \<open>\<open>str::split(c)\<close>: always at least one piece.\<close>

fun split_on :: "char \<Rightarrow> string \<Rightarrow> string list" where
  "split_on d [] = [[]]"
| "split_on d (c # cs) =
     (if c = d then [] # split_on d cs
      else (case split_on d cs of [] \<Rightarrow> [[c]] | w # ws \<Rightarrow> (c # w) # ws))"

lemma split_on_ne [simp]: "split_on d s \<noteq> []"
  by (induction s) (auto split: list.splits)

lemma split_on_word: "d \<notin> set w \<Longrightarrow> split_on d w = [w]"
  by (induction w) auto

lemma split_on_append: "d \<notin> set w \<Longrightarrow> split_on d (w @ d # s) = w # split_on d s"
  by (induction w) auto

text \<open>\<open>str::lines\<close> and \<open>BufRead::lines\<close>: split at line feeds, no empty last line, and one return before
  each line feed stripped; a return at the very end stays.\<close>

definition strip_cr :: "string \<Rightarrow> string" where
  "strip_cr s = (if s \<noteq> [] \<and> last s = CHR 0x0D then butlast s else s)"

definition str_lines :: "string \<Rightarrow> string list" where
  "str_lines s =
     (let ps = split_on (CHR 0x0A) s
      in map strip_cr (butlast ps) @ (if last ps = [] then [] else [last ps]))"

text \<open>\<open>[..].join(sep)\<close>.\<close>

fun join_with :: "string \<Rightarrow> string list \<Rightarrow> string" where
  "join_with sep [] = []"
| "join_with sep [w] = w"
| "join_with sep (w # ws) = w @ sep @ join_with sep ws"

text \<open>\<open>str::replace(pat, rep)\<close>: left to right, without overlaps; an empty pattern matches between
  any two characters.\<close>

function replace_from :: "string \<Rightarrow> string \<Rightarrow> string \<Rightarrow> string" where
  "replace_from pat rep s =
     (case s of [] \<Rightarrow> []
      | c # cs \<Rightarrow> if prefix pat s \<and> pat \<noteq> [] then rep @ replace_from pat rep (drop (length pat) s)
                  else c # replace_from pat rep cs)"
  by pat_completeness auto
termination
  by (relation "measure (\<lambda>(pat, rep, s). length s)") auto

declare replace_from.simps [simp del]

definition str_replace :: "string \<Rightarrow> string \<Rightarrow> string \<Rightarrow> string" where
  "str_replace pat rep s =
     (if pat = [] then rep @ concat (map (\<lambda>c. c # rep) s) else replace_from pat rep s)"

text \<open>\<open>starts_with\<close>, \<open>ends_with\<close> and \<open>contains\<close> are \<^const>\<open>prefix\<close>, \<^const>\<open>suffix\<close> and
  \<^const>\<open>sublist\<close>.\<close>

definition strip_prefix :: "string \<Rightarrow> string \<Rightarrow> string option" where
  "strip_prefix p s = (if prefix p s then Some (drop (length p) s) else None)"

fun strip_list_prefix :: "'a list \<Rightarrow> 'a list \<Rightarrow> 'a list option" where
  "strip_list_prefix [] ys = Some ys"
| "strip_list_prefix (x # xs) [] = None"
| "strip_list_prefix (x # xs) (y # ys) = (if x = y then strip_list_prefix xs ys else None)"

text \<open>\<open>str::split_once(c)\<close>.\<close>

fun split_once :: "char \<Rightarrow> string \<Rightarrow> (string \<times> string) option" where
  "split_once d [] = None"
| "split_once d (c # cs) =
     (if c = d then Some ([], cs)
      else map_option (\<lambda>(a, b). (c # a, b)) (split_once d cs))"

text \<open>The byte at index \<open>i\<close>, as \<open>as_bytes().get(i)\<close>.\<close>

definition byte_at :: "string \<Rightarrow> nat \<Rightarrow> char option" where
  "byte_at s i = (if i < length s then Some (s ! i) else None)"

section \<open>Words of a string\<close>

text \<open>A word: non-empty and without white space.\<close>

definition is_word :: "string \<Rightarrow> bool" where
  "is_word w \<longleftrightarrow> w \<noteq> [] \<and> (\<forall>c \<in> set w. \<not> is_ws c)"

lemma is_word_ne: "is_word w \<Longrightarrow> w \<noteq> []"
  by (simp add: is_word_def)

lemma is_ws_space [simp]: "is_ws (CHR '' '')"
  by (simp add: is_ws_def)

lemma words_from_is_word:
  "\<forall>c \<in> set cur. \<not> is_ws c \<Longrightarrow> \<forall>w \<in> set (words_from cur s). is_word w"
proof (induction cur s rule: words_from.induct)
  case (1 cur)
  then show ?case by (simp add: is_word_def)
next
  case (2 cur c cs)
  then show ?case by (cases "is_ws c"; cases "cur = []") (simp_all add: is_word_def)
qed

lemma split_whitespace_is_word: "w \<in> set (split_whitespace s) \<Longrightarrow> is_word w"
  using words_from_is_word [of "[]" s] by (simp add: split_whitespace_def)

lemma words_from_run:
  "\<forall>c \<in> set w. \<not> is_ws c \<Longrightarrow> words_from cur (w @ s) = words_from (cur @ w) s"
  by (induction w arbitrary: cur) auto

lemma words_from_word_space:
  assumes "is_word w"
  shows "words_from [] (w @ CHR '' '' # s) = w # words_from [] s"
  using assms by (simp add: words_from_run is_word_def)

lemma split_whitespace_word: "is_word w \<Longrightarrow> split_whitespace w = [w]"
  using words_from_run [of w "[]" "[]"] by (simp add: split_whitespace_def is_word_def)

lemma split_whitespace_Nil [simp]: "split_whitespace [] = []"
  by (simp add: split_whitespace_def)

text \<open>Joining words with single spaces and splitting again gives the words back.\<close>

lemma split_whitespace_join:
  "\<forall>w \<in> set ws. is_word w \<Longrightarrow> split_whitespace (join_with '' '' ws) = ws"
proof (induction "'' '' :: string" ws rule: join_with.induct)
  case 1
  then show ?case by simp
next
  case (2 w)
  then show ?case by (simp add: split_whitespace_word)
next
  case (3 w v vs)
  then have "split_whitespace (join_with '' '' (v # vs)) = v # vs" by simp
  with 3 show ?case by (simp add: split_whitespace_def words_from_word_space)
qed

lemma words_from_lowercase:
  "words_from (lowercase cur) (lowercase s) = map lowercase (words_from cur s)"
proof (induction cur s rule: words_from.induct)
  case (2 cur c cs)
  then show ?case
    by (cases "is_ws c") (simp_all add: lowercase_def)
qed (simp add: lowercase_def)

lemma split_whitespace_lowercase:
  "split_whitespace (lowercase s) = map lowercase (split_whitespace s)"
  using words_from_lowercase [of "[]" s] by (simp add: split_whitespace_def)

lemma is_word_lowercase [simp]: "is_word (lowercase w) = is_word w"
  by (auto simp: is_word_def lowercase_def)

text \<open>Outer white space never matters to the words of a string.\<close>

lemma words_from_trim_start: "words_from [] (dropWhile is_ws s) = words_from [] s"
  by (induction s) auto

lemma words_from_ws: "\<forall>c \<in> set s. is_ws c \<Longrightarrow> words_from cur s = (if cur = [] then [] else [cur])"
  by (induction s arbitrary: cur) auto

lemma words_from_append_ws:
  "\<forall>c \<in> set t. is_ws c \<Longrightarrow> words_from cur (s @ t) = words_from cur s"
  by (induction cur s rule: words_from.induct) (auto simp: words_from_ws)

lemma trim_end_split: "\<exists>t. s = trim_end s @ t \<and> (\<forall>c \<in> set t. is_ws c)"
proof -
  have "s = rev (dropWhile is_ws (rev s)) @ rev (takeWhile is_ws (rev s))"
    by (simp flip: rev_append)
  moreover have "\<forall>c \<in> set (rev (takeWhile is_ws (rev s))). is_ws c"
    by (auto dest: set_takeWhileD)
  ultimately show ?thesis unfolding trim_end_def by blast
qed

lemma split_whitespace_trim [simp]: "split_whitespace (trim s) = split_whitespace s"
proof -
  obtain t where "trim_start s = trim_end (trim_start s) @ t" "\<forall>c \<in> set t. is_ws c"
    using trim_end_split by blast
  then have "words_from [] (trim_end (trim_start s)) = words_from [] (trim_start s)"
    by (metis words_from_append_ws)
  then show ?thesis
    by (simp add: split_whitespace_def trim_def trim_start_def words_from_trim_start)
qed

lemma lowercase_trim: "lowercase (trim s) = trim (lowercase s)"
proof -
  have dw: "map ascii_lower (dropWhile is_ws xs) = dropWhile is_ws (map ascii_lower xs)" for xs
    by (induction xs) auto
  show ?thesis
    by (simp add: lowercase_def trim_def trim_end_def trim_start_def dw flip: rev_map)
qed

text \<open>A word list is a prefix of another iff its joined text is a prefix at a word boundary.\<close>

lemma join_with_append:
  "xs \<noteq> [] \<Longrightarrow> ys \<noteq> [] \<Longrightarrow> join_with sep (xs @ ys) = join_with sep xs @ sep @ join_with sep ys"
proof (induction xs rule: induct_list012)
  case (3 x y zs)
  then show ?case by simp
next
  case (2 x)
  then show ?case by (cases ys) simp_all
qed simp

lemma join_with_inj:
  assumes "\<forall>w \<in> set xs. is_word w" "\<forall>w \<in> set ys. is_word w"
    "join_with '' '' xs = join_with '' '' ys"
  shows "xs = ys"
  using assms by (metis split_whitespace_join)

lemma split_whitespace_append_space:
  assumes "\<forall>w \<in> set xs. is_word w" "xs \<noteq> []"
  shows "split_whitespace (join_with '' '' xs @ '' '' @ s) = xs @ split_whitespace s"
  using assms
proof (induction xs rule: induct_list012)
  case (2 x)
  then show ?case by (simp add: split_whitespace_def words_from_word_space)
next
  case (3 x y zs)
  then show ?case by (simp add: split_whitespace_def words_from_word_space)
qed simp

text \<open>The word-boundary test the policy code writes as \<open>hay == rule || hay.starts_with(rule) &&
  hay.as_bytes().get(rule.len()) == Some(b' ')\<close> is the prefix order on word lists.\<close>

definition word_boundary_prefix :: "string \<Rightarrow> string \<Rightarrow> bool" where
  "word_boundary_prefix rule hay \<longleftrightarrow>
     hay = rule \<or> (prefix rule hay \<and> byte_at hay (length rule) = Some (CHR '' ''))"

lemma word_boundary_split:
  "word_boundary_prefix rule hay \<longleftrightarrow> hay = rule \<or> (\<exists>s. hay = rule @ '' '' @ s)"
proof -
  have "prefix rule hay \<and> byte_at hay (length rule) = Some (CHR '' '') \<longleftrightarrow>
      (\<exists>s. hay = rule @ '' '' @ s)"
  proof
    assume h: "prefix rule hay \<and> byte_at hay (length rule) = Some (CHR '' '')"
    then obtain t where t: "hay = rule @ t" by (auto simp: prefix_def)
    with h show "\<exists>s. hay = rule @ '' '' @ s"
      by (cases t) (auto simp: byte_at_def split: if_splits)
  qed (auto simp: byte_at_def)
  then show ?thesis by (simp add: word_boundary_prefix_def)
qed

lemma word_boundary_words:
  assumes P: "\<forall>w \<in> set ps. is_word w" "ps \<noteq> []" and C: "\<forall>w \<in> set cs. is_word w"
  shows "word_boundary_prefix (join_with '' '' ps) (join_with '' '' cs) \<longleftrightarrow> prefix ps cs"
proof
  assume "word_boundary_prefix (join_with '' '' ps) (join_with '' '' cs)"
  then show "prefix ps cs"
  proof (unfold word_boundary_split, elim disjE exE)
    assume "join_with '' '' cs = join_with '' '' ps"
    with P C have "cs = ps" by (intro join_with_inj) auto
    then show ?thesis by simp
  next
    fix s assume "join_with '' '' cs = join_with '' '' ps @ '' '' @ s"
    then have "cs = ps @ split_whitespace s"
      using C P split_whitespace_join split_whitespace_append_space by metis
    then show ?thesis by simp
  qed
next
  assume "prefix ps cs"
  then obtain rs where "cs = ps @ rs" by (auto simp: prefix_def)
  with P(2) show "word_boundary_prefix (join_with '' '' ps) (join_with '' '' cs)"
    by (cases "rs = []") (auto simp: word_boundary_split join_with_append)
qed

section \<open>Numbers\<close>

text \<open>Decimal text, read and written.\<close>

definition digit_value :: "char \<Rightarrow> nat" where
  "digit_value c = of_char c - 48"

definition decimal_value :: "string \<Rightarrow> nat" where
  "decimal_value s = fold (\<lambda>c n. 10 * n + digit_value c) s 0"

definition parse_digits :: "string \<Rightarrow> nat option" where
  "parse_digits s = (if s \<noteq> [] \<and> list_all is_ascii_digit s then Some (decimal_value s) else None)"

text \<open>\<open>Display\<close> of an unsigned integer.\<close>

fun show_nat :: "nat \<Rightarrow> string" where
  "show_nat n = (if n < 10 then [char_of (48 + n)] else show_nat (n div 10) @ [char_of (48 + n mod 10)])"

declare show_nat.simps [simp del]

lemma decimal_value_snoc: "decimal_value (s @ [c]) = 10 * decimal_value s + digit_value c"
  by (simp add: decimal_value_def)

lemma digit_char: "n < 10 \<Longrightarrow> digit_value (char_of (48 + n)) = n \<and> is_ascii_digit (char_of (48 + n))"
  by (simp add: digit_value_def is_ascii_digit_def)

lemma show_nat_digits: "list_all is_ascii_digit (show_nat n)"
proof (induction n rule: show_nat.induct)
  case (1 n)
  then show ?case by (subst show_nat.simps) (simp add: digit_char)
qed

lemma show_nat_ne [simp]: "show_nat n \<noteq> []"
  by (subst show_nat.simps) simp

lemma decimal_value_show [simp]: "decimal_value (show_nat n) = n"
proof (induction n rule: show_nat.induct)
  case (1 n)
  show ?case
  proof (cases "n < 10")
    case True
    then show ?thesis
      by (subst show_nat.simps) (simp add: decimal_value_snoc [of "[]", simplified] digit_char decimal_value_def)
  next
    case False
    then show ?thesis using 1 by (subst show_nat.simps) (simp add: decimal_value_snoc digit_char)
  qed
qed

lemma parse_digits_show [simp]: "parse_digits (show_nat n) = Some n"
  by (simp add: parse_digits_def show_nat_digits)

text \<open>\<open>iter().filter_map(f)\<close>.\<close>

lemma in_set_map_filter: "y \<in> set (List.map_filter f xs) \<longleftrightarrow> (\<exists>x \<in> set xs. f x = Some y)"
  by (force simp: List.map_filter_def)

end
