(* ===== verification/Bash_Arity.thy ===== *)
theory Bash_Arity
  imports Rust_Std
begin

text \<open>
  \<open>crates/execpolicy/src/bash_arity.rs\<close>: the arity dictionary and the arity-aware matching of
  allow rules. The table is transcribed section by section; \<open>classify\<close> and
  \<open>allow_rule_matches\<close> follow the functions of the same names. The lemmas show that flags never
  count, that the sort in \<open>new\<close> does not change any look-up, and that a rule matches only when
  its words are the leading words of the command (with or without the flags).
\<close>

section \<open>The table\<close>

definition git_arity :: "(string \<times> nat) list" where
  "git_arity =
   [(''git add'', 2), (''git am'', 2), (''git apply'', 2), (''git bisect'', 2),
    (''git blame'', 2), (''git branch'', 2), (''git cat-file'', 2), (''git checkout'', 2),
    (''git cherry-pick'', 2), (''git clean'', 2), (''git clone'', 2), (''git commit'', 2),
    (''git config'', 2), (''git describe'', 2), (''git diff'', 2), (''git fetch'', 2),
    (''git format-patch'', 2), (''git grep'', 2), (''git init'', 2), (''git log'', 2),
    (''git ls-files'', 2), (''git merge'', 2), (''git mv'', 2), (''git notes'', 2),
    (''git pull'', 2), (''git push'', 2), (''git rebase'', 2), (''git reflog'', 2),
    (''git remote'', 2), (''git reset'', 2), (''git restore'', 2), (''git revert'', 2),
    (''git rm'', 2), (''git show'', 2), (''git stash'', 2), (''git status'', 2),
    (''git submodule'', 2), (''git switch'', 2), (''git tag'', 2), (''git worktree'', 2)]"

definition npm_arity :: "(string \<times> nat) list" where
  "npm_arity =
   [(''npm audit'', 2), (''npm build'', 2), (''npm cache'', 2), (''npm ci'', 2),
    (''npm dedupe'', 2), (''npm fund'', 2), (''npm help'', 2), (''npm info'', 2),
    (''npm init'', 2), (''npm install'', 2), (''npm link'', 2), (''npm list'', 2),
    (''npm ls'', 2), (''npm outdated'', 2), (''npm pack'', 2), (''npm prune'', 2),
    (''npm publish'', 2), (''npm rebuild'', 2), (''npm run'', 3), (''npm start'', 2),
    (''npm stop'', 2), (''npm test'', 2), (''npm uninstall'', 2), (''npm update'', 2),
    (''npm version'', 2), (''npm view'', 2)]"

definition yarn_arity :: "(string \<times> nat) list" where
  "yarn_arity =
   [(''yarn add'', 2), (''yarn audit'', 2), (''yarn build'', 2), (''yarn install'', 2),
    (''yarn run'', 3), (''yarn start'', 2), (''yarn test'', 2), (''yarn upgrade'', 2),
    (''yarn workspace'', 3)]"

definition pnpm_arity :: "(string \<times> nat) list" where
  "pnpm_arity =
   [(''pnpm add'', 2), (''pnpm build'', 2), (''pnpm install'', 2), (''pnpm run'', 3),
    (''pnpm start'', 2), (''pnpm test'', 2), (''pnpm update'', 2)]"

definition cargo_arity :: "(string \<times> nat) list" where
  "cargo_arity =
   [(''cargo add'', 2), (''cargo bench'', 2), (''cargo build'', 2), (''cargo check'', 2),
    (''cargo clean'', 2), (''cargo clippy'', 2), (''cargo doc'', 2), (''cargo fix'', 2),
    (''cargo fmt'', 2), (''cargo generate'', 2), (''cargo install'', 2), (''cargo metadata'', 2),
    (''cargo package'', 2), (''cargo publish'', 2), (''cargo remove'', 2), (''cargo run'', 2),
    (''cargo search'', 2), (''cargo test'', 2), (''cargo tree'', 2), (''cargo uninstall'', 2),
    (''cargo update'', 2), (''cargo yank'', 2)]"

definition docker_arity :: "(string \<times> nat) list" where
  "docker_arity =
   [(''docker build'', 2), (''docker compose'', 3), (''docker container'', 3), (''docker cp'', 2),
    (''docker exec'', 2), (''docker image'', 3), (''docker images'', 2), (''docker inspect'', 2),
    (''docker kill'', 2), (''docker logs'', 2), (''docker network'', 3), (''docker ps'', 2),
    (''docker pull'', 2), (''docker push'', 2), (''docker rm'', 2), (''docker rmi'', 2),
    (''docker run'', 2), (''docker start'', 2), (''docker stop'', 2), (''docker system'', 3),
    (''docker tag'', 2), (''docker volume'', 3)]"

definition kubectl_arity :: "(string \<times> nat) list" where
  "kubectl_arity =
   [(''kubectl apply'', 2), (''kubectl create'', 3), (''kubectl delete'', 3),
    (''kubectl describe'', 3), (''kubectl exec'', 2), (''kubectl explain'', 2),
    (''kubectl get'', 3), (''kubectl label'', 2), (''kubectl logs'', 2), (''kubectl patch'', 2),
    (''kubectl port-forward'', 2), (''kubectl rollout'', 3), (''kubectl scale'', 2),
    (''kubectl set'', 2), (''kubectl top'', 3)]"

definition go_arity :: "(string \<times> nat) list" where
  "go_arity =
   [(''go build'', 2), (''go clean'', 2), (''go env'', 2), (''go fmt'', 2), (''go generate'', 2),
    (''go get'', 2), (''go install'', 2), (''go list'', 2), (''go mod'', 3), (''go run'', 2),
    (''go test'', 2), (''go vet'', 2), (''go work'', 3)]"

definition python_arity :: "(string \<times> nat) list" where
  "python_arity =
   [(''pip install'', 2), (''pip uninstall'', 2), (''pip list'', 2), (''pip show'', 2),
    (''pip freeze'', 2), (''pip3 install'', 2), (''pip3 uninstall'', 2), (''pip3 list'', 2),
    (''pip3 show'', 2), (''python -m'', 3), (''python3 -m'', 3)]"

definition make_arity :: "(string \<times> nat) list" where
  "make_arity =
   [(''make'', 1), (''cmake'', 1)]"

definition gh_arity :: "(string \<times> nat) list" where
  "gh_arity =
   [(''gh pr'', 3), (''gh issue'', 3), (''gh repo'', 3), (''gh release'', 3),
    (''gh workflow'', 3), (''gh run'', 3), (''gh secret'', 3)]"

definition rustup_arity :: "(string \<times> nat) list" where
  "rustup_arity =
   [(''rustup default'', 2), (''rustup install'', 2), (''rustup show'', 2),
    (''rustup target'', 3), (''rustup toolchain'', 3), (''rustup update'', 2)]"

definition deno_arity :: "(string \<times> nat) list" where
  "deno_arity =
   [(''deno run'', 2), (''deno test'', 2), (''deno fmt'', 2), (''deno lint'', 2),
    (''bun add'', 2), (''bun build'', 2), (''bun install'', 2), (''bun run'', 3),
    (''bun test'', 2), (''npx'', 2)]"

definition aws_arity :: "(string \<times> nat) list" where
  "aws_arity =
   [(''aws s3'', 3), (''aws ec2'', 3), (''aws iam'', 3), (''aws lambda'', 3),
    (''aws cloudformation'', 3), (''aws ecs'', 3), (''aws eks'', 3), (''aws rds'', 3),
    (''aws sts'', 3), (''aws configure'', 2)]"

definition terraform_arity :: "(string \<times> nat) list" where
  "terraform_arity =
   [(''terraform init'', 2), (''terraform plan'', 2), (''terraform apply'', 2),
    (''terraform destroy'', 2), (''terraform validate'', 2), (''terraform output'', 2),
    (''terraform state'', 3), (''terraform workspace'', 3)]"

definition helm_arity :: "(string \<times> nat) list" where
  "helm_arity =
   [(''helm install'', 2), (''helm upgrade'', 2), (''helm uninstall'', 2), (''helm list'', 2),
    (''helm repo'', 3), (''helm status'', 2), (''helm template'', 2)]"

definition BASH_ARITY_TABLE :: "(string \<times> nat) list" where
  "BASH_ARITY_TABLE =
     git_arity @ npm_arity @ yarn_arity @ pnpm_arity @ cargo_arity @ docker_arity @ kubectl_arity
     @ go_arity @ python_arity @ make_arity @ gh_arity @ rustup_arity
     @ deno_arity @ aws_arity @ terraform_arity @ helm_arity"
section \<open>The dictionary\<close>

record bash_arity_dict =
  entries :: "(string \<times> nat) list"

text \<open>\<open>sort_by_key\<close> is stable, as is \<^const>\<open>sort_key\<close>; the key is the reversed length.\<close>

definition dict_new :: bash_arity_dict where
  "dict_new = \<lparr>entries = sort_key (\<lambda>e. - int (length (fst e))) BASH_ARITY_TABLE\<rparr>"

definition dict_len :: "bash_arity_dict \<Rightarrow> nat" where
  "dict_len d = length (entries d)"

definition dict_is_empty :: "bash_arity_dict \<Rightarrow> bool" where
  "dict_is_empty d \<longleftrightarrow> entries d = []"

text \<open>The positional tokens: no leading dash, lower case.\<close>

definition is_flag :: "string \<Rightarrow> bool" where
  "is_flag t \<longleftrightarrow> prefix ''-'' t"

definition positional :: "string list \<Rightarrow> string list" where
  "positional tokens = map lowercase (filter (\<lambda>t. \<not> is_flag t) tokens)"

text \<open>The loop \<open>for depth in (1..=max_depth).rev()\<close>, from \<open>depth\<close> downwards.\<close>

fun classify_depth :: "(string \<times> nat) list \<Rightarrow> string list \<Rightarrow> nat \<Rightarrow> string option" where
  "classify_depth es pos 0 = None"
| "classify_depth es pos (Suc d) =
     (case find (\<lambda>(key, _). key = join_with '' '' (take (Suc d) pos)) es of
        Some (_, arity) \<Rightarrow> Some (join_with '' '' (take (min arity (length pos)) pos))
      | None \<Rightarrow> classify_depth es pos d)"

definition classify :: "bash_arity_dict \<Rightarrow> string list \<Rightarrow> string" where
  "classify d tokens =
     (if tokens = [] then []
      else let pos = positional tokens in
        if pos = [] then []
        else case classify_depth (entries d) pos (min (length pos) 3) of
               Some r \<Rightarrow> r
             | None \<Rightarrow> hd pos)"

definition allow_rule_matches :: "bash_arity_dict \<Rightarrow> string \<Rightarrow> string \<Rightarrow> bool" where
  "allow_rule_matches d pattern command =
     (let pattern_lower = lowercase (trim pattern);
          canonical = classify d (split_whitespace command)
      in if canonical = pattern_lower then True
         else let command_lower = lowercase (trim command);
                  pattern_norm = join_with '' '' (split_whitespace pattern_lower);
                  command_norm = join_with '' '' (split_whitespace command_lower)
              in command_norm = pattern_norm
                 \<or> (prefix pattern_norm command_norm
                    \<and> byte_at command_norm (length pattern_norm) = Some (CHR '' '')))"

section \<open>Look-ups\<close>

lemma find_key: "find (\<lambda>(key, _). key = c) es = map_option (\<lambda>n. (c, n)) (map_of es c)"
  by (induction es) auto

lemmas arity_tables = BASH_ARITY_TABLE_def git_arity_def npm_arity_def yarn_arity_def pnpm_arity_def
  cargo_arity_def docker_arity_def kubectl_arity_def go_arity_def python_arity_def make_arity_def
  gh_arity_def rustup_arity_def deno_arity_def aws_arity_def terraform_arity_def helm_arity_def

lemma arity_range_all: "list_all (\<lambda>e. 1 \<le> snd e \<and> snd e \<le> 3) BASH_ARITY_TABLE"
  by (simp add: arity_tables)

lemma arity_range: "e \<in> set BASH_ARITY_TABLE \<Longrightarrow> 1 \<le> snd e \<and> snd e \<le> 3"
  using arity_range_all by (simp only: list_all_iff)

text \<open>The sort is stable and its key is a function of the entry's string, so entries with one
  string keep their order and every look-up gives what the unsorted table gives.\<close>

lemma map_of_filter_key: "map_of es c = map_option snd (find (\<lambda>e. fst e = c) es)"
  by (induction es) auto

lemma find_SomeD: "find P xs = Some x \<Longrightarrow> x \<in> set xs"
  by (induction xs) (auto split: if_splits)

lemma find_filter: "find P xs = (case filter P xs of [] \<Rightarrow> None | x # _ \<Rightarrow> Some x)"
  by (induction xs) auto

lemma filter_sort_key_class:
  assumes "\<And>x y. P x \<Longrightarrow> P y \<Longrightarrow> f x = f y"
  shows "filter P (sort_key f xs) = filter P xs"
proof (cases "\<exists>x \<in> set xs. P x")
  case True
  then obtain x where x: "P x" by blast
  have P: "filter P ys = filter P (filter (\<lambda>y. f y = f x) ys)" for ys
    unfolding filter_filter by (rule filter_cong [OF refl]) (use assms [OF _ x] in blast)
  have "filter P (sort_key f xs) = filter P (filter (\<lambda>y. f y = f x) (sort_key f xs))" by (rule P)
  also have "\<dots> = filter P (filter (\<lambda>y. f y = f x) xs)" by (simp only: sort_key_stable)
  also have "\<dots> = filter P xs" by (rule P [symmetric])
  finally show ?thesis .
next
  case False
  then have "filter P (sort_key f xs) = []" "filter P xs = []"
    by (auto simp: filter_empty_conv)
  then show ?thesis by simp
qed

lemma map_of_dict_new: "map_of (entries dict_new) = map_of BASH_ARITY_TABLE"
proof
  fix c
  have "filter (\<lambda>e. fst e = c) (entries dict_new) = filter (\<lambda>e. fst e = c) BASH_ARITY_TABLE"
    unfolding dict_new_def bash_arity_dict.simps by (rule filter_sort_key_class) simp
  then show "map_of (entries dict_new) c = map_of BASH_ARITY_TABLE c"
    by (simp only: map_of_filter_key find_filter)
qed

lemma set_dict_new: "set (entries dict_new) = set BASH_ARITY_TABLE"
  by (simp add: dict_new_def)

lemma classify_depth_cong_on:
  "(\<And>k. map_of es (join_with '' '' (take (Suc k) pos)) = map_of es' (join_with '' '' (take (Suc k) pos)))
    \<Longrightarrow> classify_depth es pos d = classify_depth es' pos d"
  by (induction d) (simp_all add: find_key comp_def cong: option.case_cong)

lemma classify_depth_cong:
  "map_of es = map_of es' \<Longrightarrow> classify_depth es pos d = classify_depth es' pos d"
  by (rule classify_depth_cong_on) simp

lemma classify_cong:
  "map_of (entries d) = map_of (entries d') \<Longrightarrow> classify d tokens = classify d' tokens"
  unfolding classify_def by (simp only: classify_depth_cong [of "entries d" "entries d'"])

lemma classify_dict_new: "classify dict_new = classify \<lparr>entries = BASH_ARITY_TABLE\<rparr>"
  by (rule ext) (rule classify_cong, simp add: map_of_dict_new)

text \<open>For evaluation: matching against the unsorted table.\<close>

lemma allow_rule_matches_dict_new:
  "allow_rule_matches dict_new pattern command
    = allow_rule_matches \<lparr>entries = BASH_ARITY_TABLE\<rparr> pattern command"
  by (simp only: allow_rule_matches_def classify_dict_new)

section \<open>Flags do not count\<close>

lemma positional_append: "positional (xs @ ys) = positional xs @ positional ys"
  by (simp add: positional_def)

lemma positional_flag: "is_flag f \<Longrightarrow> positional (f # ys) = positional ys"
  by (simp add: positional_def)

lemma classify_positional: "classify d tokens =
    (let pos = positional tokens in
     if pos = [] then []
     else case classify_depth (entries d) pos (min (length pos) 3) of Some r \<Rightarrow> r | None \<Rightarrow> hd pos)"
  by (simp add: classify_def positional_def Let_def)

lemma classify_depth_take:
  assumes "classify_depth es pos d = Some r"
  shows "\<exists>e \<in> set es. r = join_with '' '' (take (min (snd e) (length pos)) pos)"
  using assms
proof (induction d)
  case (Suc d)
  show ?case
  proof (cases "find (\<lambda>(key, _). key = join_with '' '' (take (Suc d) pos)) es")
    case None
    with Suc show ?thesis by simp
  next
    case (Some e)
    with Suc.prems have "r = join_with '' '' (take (min (snd e) (length pos)) pos)"
      by (simp add: split_beta)
    moreover from Some have "e \<in> set es" by (rule find_SomeD)
    ultimately show ?thesis by blast
  qed
qed simp

text \<open>What \<open>classify\<close> returns: the first one, two or three positional words.\<close>

lemma classify_dict_new_take:
  assumes "positional tokens \<noteq> []"
  shows "\<exists>n. 1 \<le> n \<and> n \<le> 3 \<and> n \<le> length (positional tokens) \<and>
    classify dict_new tokens = join_with '' '' (take n (positional tokens))"
proof (cases "classify_depth (entries dict_new) (positional tokens) (min (length (positional tokens)) 3)")
  case None
  with assms show ?thesis
    by (intro exI [of _ 1]) (cases "positional tokens"; simp add: classify_positional)
next
  case (Some r)
  then obtain e where e: "e \<in> set (entries dict_new)"
    "r = join_with '' '' (take (min (snd e) (length (positional tokens))) (positional tokens))"
    using classify_depth_take by blast
  then have "1 \<le> snd e" "snd e \<le> 3" using arity_range by (auto simp: set_dict_new)
  with Some e assms show ?thesis
    by (intro exI [of _ "min (snd e) (length (positional tokens))"])
      (auto simp: classify_positional Let_def Suc_le_eq)
qed

lemma positional_is_word: "w \<in> set (positional (split_whitespace s)) \<Longrightarrow> is_word w"
  by (auto simp: positional_def intro: split_whitespace_is_word)

section \<open>What an allow rule matches\<close>

lemma allow_rule_matches_alt:
  "allow_rule_matches d pattern command \<longleftrightarrow>
     classify d (split_whitespace command) = lowercase (trim pattern)
     \<or> word_boundary_prefix (join_with '' '' (map lowercase (split_whitespace pattern)))
          (join_with '' '' (map lowercase (split_whitespace command)))"
  by (simp add: allow_rule_matches_def word_boundary_prefix_def Let_def
      split_whitespace_lowercase [symmetric] lowercase_trim)

lemma allow_rule_matches_words:
  assumes "split_whitespace pattern \<noteq> []"
  shows "allow_rule_matches d pattern command \<longleftrightarrow>
     classify d (split_whitespace command) = lowercase (trim pattern)
     \<or> prefix (map lowercase (split_whitespace pattern)) (map lowercase (split_whitespace command))"
  unfolding allow_rule_matches_alt using assms
  by (subst word_boundary_words) (auto intro: split_whitespace_is_word)

text \<open>
  An allow rule matches only a command whose leading words are the rule's words, read either
  with or without the flags: no rule sweeps in a command with another sub-command.
\<close>

theorem allow_rule_sound:
  assumes "allow_rule_matches dict_new pattern command" "split_whitespace pattern \<noteq> []"
  shows "prefix (map lowercase (split_whitespace pattern)) (map lowercase (split_whitespace command))
    \<or> prefix (map lowercase (split_whitespace pattern)) (positional (split_whitespace command))"
proof (cases "classify dict_new (split_whitespace command) = lowercase (trim pattern)")
  case True
  have "classify dict_new (split_whitespace command) \<noteq> []"
    using True assms(2) by (metis lowercase_eq_Nil split_whitespace_Nil split_whitespace_trim)
  then have "positional (split_whitespace command) \<noteq> []" by (auto simp: classify_positional)
  then obtain n where n: "classify dict_new (split_whitespace command)
      = join_with '' '' (take n (positional (split_whitespace command)))"
    using classify_dict_new_take by blast
  have "split_whitespace (lowercase (trim pattern)) = take n (positional (split_whitespace command))"
    unfolding True [symmetric] n
    by (rule split_whitespace_join) (auto dest: in_set_takeD positional_is_word)
  then have "map lowercase (split_whitespace pattern) = take n (positional (split_whitespace command))"
    by (simp add: split_whitespace_lowercase)
  then show ?thesis by (simp add: take_is_prefix)
next
  case False
  with assms show ?thesis by (simp add: allow_rule_matches_words)
qed

theorem allow_rule_sound_witness:
  "allow_rule_matches dict_new ''git status'' ''git --no-pager status''
   \<and> (prefix (map lowercase (split_whitespace ''git status''))
        (map lowercase (split_whitespace ''git --no-pager status''))
     \<or> prefix (map lowercase (split_whitespace ''git status''))
        (positional (split_whitespace ''git --no-pager status'')))"
proof -
  have m: "allow_rule_matches dict_new ''git status'' ''git --no-pager status''"
    unfolding allow_rule_matches_dict_new by code_simp
  moreover have "split_whitespace ''git status'' \<noteq> []" by code_simp
  ultimately show ?thesis using allow_rule_sound by blast
qed

text \<open>
  Inserting flags anywhere in a command never changes its canonical prefix, for any table.
\<close>

theorem classify_ignores_flags:
  "classify d tokens = classify d (filter (\<lambda>t. \<not> is_flag t) tokens)"
proof -
  have "positional (filter (\<lambda>t. \<not> is_flag t) tokens) = positional tokens"
    by (simp add: positional_def)
  then show ?thesis by (simp add: classify_positional)
qed

section \<open>Entries that can never fire\<close>

definition has_flag_word :: "string \<Rightarrow> bool" where
  "has_flag_word key \<longleftrightarrow> list_ex is_flag (split_whitespace key)"

lemma is_flag_lowercase: "is_flag (lowercase t) = is_flag t"
proof (cases t)
  case (Cons c cs)
  have "ascii_lower c = CHR ''-'' \<longleftrightarrow> c = CHR ''-''"
    by (rule ascii_lower_eq_iff) (simp_all add: is_ascii_upper_def is_ascii_lower_def)
  then show ?thesis using Cons by (auto simp: is_flag_def lowercase_def)
qed (simp add: is_flag_def)

lemma positional_no_flag: "w \<in> set (positional ts) \<Longrightarrow> \<not> is_flag w"
  by (auto simp: positional_def is_flag_lowercase)

lemma map_of_filter_keys: "map_of (filter (\<lambda>e. P (fst e)) es) k = (if P k then map_of es k else None)"
  by (induction es) auto

lemma candidate_no_flag_word:
  "\<not> has_flag_word (join_with '' '' (take k (positional (split_whitespace command))))"
proof -
  let ?ws = "take k (positional (split_whitespace command))"
  have "split_whitespace (join_with '' '' ?ws) = ?ws"
    by (rule split_whitespace_join) (auto dest: in_set_takeD positional_is_word)
  then show ?thesis
    by (auto simp: has_flag_word_def list_ex_iff dest: in_set_takeD positional_no_flag)
qed

text \<open>
  Table keys that contain a flag word never take part in the classification of a command line:
  dropping them from the table changes nothing. The keys \<open>python -m\<close> and \<open>python3 -m\<close> are such
  keys, so their arity 3 is never used.
\<close>

theorem flag_keys_are_dead:
  "classify dict_new (split_whitespace command)
     = classify \<lparr>entries = filter (\<lambda>e. \<not> has_flag_word (fst e)) BASH_ARITY_TABLE\<rparr>
         (split_whitespace command)
   \<and> has_flag_word ''python -m'' \<and> map_of BASH_ARITY_TABLE ''python -m'' = Some 3
   \<and> has_flag_word ''python3 -m'' \<and> map_of BASH_ARITY_TABLE ''python3 -m'' = Some 3"
proof -
  have "classify_depth (entries dict_new) (positional (split_whitespace command)) n
      = classify_depth (filter (\<lambda>e. \<not> has_flag_word (fst e)) BASH_ARITY_TABLE)
          (positional (split_whitespace command)) n" for n
    by (rule classify_depth_cong_on)
      (simp add: map_of_dict_new map_of_filter_keys [of "\<lambda>k. \<not> has_flag_word k"]
        candidate_no_flag_word)
  then have "classify dict_new (split_whitespace command)
      = classify \<lparr>entries = filter (\<lambda>e. \<not> has_flag_word (fst e)) BASH_ARITY_TABLE\<rparr>
          (split_whitespace command)"
    by (simp add: classify_positional Let_def)
  moreover have "has_flag_word ''python -m''" "has_flag_word ''python3 -m''"
    by code_simp+
  moreover have "map_of BASH_ARITY_TABLE ''python -m'' = Some 3"
    "map_of BASH_ARITY_TABLE ''python3 -m'' = Some 3"
    by code_simp+
  ultimately show ?thesis by blast
qed

end
