(* ===== verification/Workspace_Path.thy ===== *)
theory Workspace_Path
  imports Rust_Std
begin

text \<open>
  The lexical path normalisation of \<open>crates/execpolicy/src/lib.rs\<close>
  (\<open>normalize_workspace_relative_path\<close> and its helpers), used for the path patterns of typed rules
  and for the values saved with them. The lemmas show that a normalised path never leaves the
  workspace, when it matches itself again, and that two inputs with the same components agree.
\<close>

section \<open>Definitions\<close>

text \<open>\<open>None\<close> as root is a relative path.\<close>

record path_for_matching =
  path_root :: "string option"
  path_components :: "string list"

definition is_windows_absolute_path :: "string \<Rightarrow> bool" where
  "is_windows_absolute_path v \<longleftrightarrow>
     length v \<ge> 3 \<and> is_ascii_alphabetic (v ! 0) \<and> v ! 1 = CHR '':'' \<and> v ! 2 = CHR ''/''"

definition has_windows_drive_prefix :: "string \<Rightarrow> bool" where
  "has_windows_drive_prefix v \<longleftrightarrow> length v \<ge> 2 \<and> is_ascii_alphabetic (v ! 0) \<and> v ! 1 = CHR '':''"

text \<open>The loop over the components: \<open>None\<close> at the first \<open>..\<close>.\<close>

fun normalize_components :: "string list \<Rightarrow> string list option" where
  "normalize_components [] = Some []"
| "normalize_components (c # cs) =
     (if c = [] \<or> c = ''.'' then normalize_components cs
      else if c = ''..'' then None
      else map_option (\<lambda>r. c # r) (normalize_components cs))"

definition backslash_to_slash :: "string \<Rightarrow> string" where
  "backslash_to_slash s = map (\<lambda>c. if c = CHR 0x5C then CHR ''/'' else c) s"

definition parse_path_for_matching :: "string \<Rightarrow> path_for_matching option" where
  "parse_path_for_matching value =
     (let v = lowercase (backslash_to_slash (trim value)) in
      if v = [] then None
      else case (case strip_prefix ''/'' v of
                   Some path \<Rightarrow> Some (Some ''/'', path)
                 | None \<Rightarrow> if is_windows_absolute_path v then Some (Some (take 2 v), drop 3 v)
                     else if has_windows_drive_prefix v then None
                     else Some (None, v)) of
             None \<Rightarrow> None
           | Some (root, comps) \<Rightarrow>
               (case normalize_components (split_on (CHR ''/'') comps) of
                  None \<Rightarrow> None
                | Some cs \<Rightarrow> Some \<lparr>path_root = root, path_components = cs\<rparr>))"

definition normalize_workspace_relative_path :: "string \<Rightarrow> string \<Rightarrow> string option" where
  "normalize_workspace_relative_path value workspace_root =
     (case parse_path_for_matching value of
        None \<Rightarrow> None
      | Some path \<Rightarrow>
         (case parse_path_for_matching workspace_root of
            None \<Rightarrow> None
          | Some workspace \<Rightarrow>
             (case path_root workspace of
                None \<Rightarrow> None
              | Some ws_root \<Rightarrow>
                 (case path_root path of
                    Some p_root \<Rightarrow>
                      (if p_root \<noteq> ws_root then None
                       else map_option (join_with ''/'')
                              (strip_list_prefix (path_components workspace) (path_components path)))
                  | None \<Rightarrow> Some (join_with ''/'' (path_components path))))))"

section \<open>Splitting at slashes\<close>

lemma split_on_no_sep: "w \<in> set (split_on d s) \<Longrightarrow> d \<notin> set w"
proof (induction s arbitrary: w)
  case (Cons c cs)
  then show ?case by (cases "split_on d cs") (auto split: if_splits)
qed simp

lemma split_on_join:
  "ws \<noteq> [] \<Longrightarrow> \<forall>w \<in> set ws. d \<notin> set w \<Longrightarrow> split_on d (join_with [d] ws) = ws"
proof (induction ws rule: induct_list012)
  case (2 w)
  then show ?case by (simp add: split_on_word)
next
  case (3 w v vs)
  then show ?case by (simp add: split_on_append)
qed simp

lemma lowercase_join: "lowercase sep = sep \<Longrightarrow> lowercase (join_with sep ws) = join_with sep (map lowercase ws)"
  by (induction sep ws rule: join_with.induct) simp_all

section \<open>Components\<close>

definition safe_component :: "string \<Rightarrow> bool" where
  "safe_component c \<longleftrightarrow> c \<noteq> [] \<and> c \<noteq> ''.'' \<and> c \<noteq> ''..'' \<and> CHR ''/'' \<notin> set c"

lemma normalize_components_SomeD:
  "normalize_components cs = Some r \<Longrightarrow> set r \<subseteq> set cs \<and> (\<forall>c \<in> set r. c \<noteq> [] \<and> c \<noteq> ''.'' \<and> c \<noteq> ''..'')"
  by (induction cs arbitrary: r) (fastforce split: if_splits)+

lemma normalize_components_None: "normalize_components cs = None \<longleftrightarrow> ''..'' \<in> set cs"
  by (induction cs) auto

lemma normalize_components_id: "\<forall>c \<in> set r. safe_component c \<Longrightarrow> normalize_components r = Some r"
  by (induction r) (auto simp: safe_component_def)

text \<open>The text handed to the component loop, as \<open>parse_path_for_matching\<close> computes it.\<close>

definition path_text :: "string \<Rightarrow> string" where
  "path_text value = lowercase (backslash_to_slash (trim value))"

lemma ascii_lower_backslash: "ascii_lower c = CHR 0x5C \<longleftrightarrow> c = CHR 0x5C"
  by (rule ascii_lower_eq_iff) (simp_all add: is_ascii_upper_def is_ascii_lower_def)

lemma path_text_no_backslash: "CHR 0x5C \<notin> set (path_text v)"
proof
  assume "CHR 0x5C \<in> set (path_text v)"
  then obtain c where "c \<in> set (backslash_to_slash (trim v))" "ascii_lower c = CHR 0x5C"
    by (auto simp: path_text_def lowercase_def)
  then show False by (auto simp: ascii_lower_backslash backslash_to_slash_def split: if_splits)
qed

lemma path_text_lower: "lowercase (path_text v) = path_text v"
  by (simp add: path_text_def)

lemma parse_path_cases:
  assumes "parse_path_for_matching v = Some p"
  obtains (slash) comps where "path_text v = CHR ''/'' # comps"
      "normalize_components (split_on (CHR ''/'') comps) = Some (path_components p)"
  | (drive) "is_windows_absolute_path (path_text v)"
      "normalize_components (split_on (CHR ''/'') (drop 3 (path_text v))) = Some (path_components p)"
  | (relative) "normalize_components (split_on (CHR ''/'') (path_text v)) = Some (path_components p)"
  using assms
  by (auto simp: parse_path_for_matching_def Let_def path_text_def [symmetric] strip_prefix_def
      prefix_def split: option.splits if_splits)

lemma parse_path_SomeE:
  assumes "parse_path_for_matching v = Some p"
  obtains comps where "set comps \<subseteq> set (path_text v)"
    "normalize_components (split_on (CHR ''/'') comps) = Some (path_components p)"
  using assms
proof (cases rule: parse_path_cases)
  case (slash comps)
  then show ?thesis using that [of comps] by auto
next
  case drive
  then show ?thesis using that [of "drop 3 (path_text v)"] by (auto dest: in_set_dropD)
next
  case relative
  then show ?thesis using that by blast
qed

definition clean_component :: "string \<Rightarrow> bool" where
  "clean_component c \<longleftrightarrow> safe_component c \<and> lowercase c = c \<and> CHR 0x5C \<notin> set c"

lemma split_on_set: "w \<in> set (split_on d s) \<Longrightarrow> set w \<subseteq> set s"
proof (induction s arbitrary: w)
  case (Cons c cs)
  then show ?case by (cases "split_on d cs") (force split: if_splits)+
qed simp

lemma lowercase_id_iff: "lowercase w = w \<longleftrightarrow> (\<forall>c \<in> set w. ascii_lower c = c)"
  by (simp add: lowercase_def map_idI list.map_ident_strong) (metis list.map_ident_strong map_eq_conv list.map_ident)

lemma parse_path_clean:
  assumes "parse_path_for_matching v = Some p" "c \<in> set (path_components p)"
  shows "clean_component c"
  using assms(1)
proof (cases rule: parse_path_SomeE)
  case (1 comps)
  then have sub: "set comps \<subseteq> set (path_text v)" by simp
  from normalize_components_SomeD [OF 1(2)] assms(2)
  have c: "c \<in> set (split_on (CHR ''/'') comps)" "c \<noteq> []" "c \<noteq> ''.''" "c \<noteq> ''..''" by auto
  then have "set c \<subseteq> set (path_text v)" using split_on_set sub by blast
  moreover have "CHR ''/'' \<notin> set c" using c(1) by (rule split_on_no_sep)
  moreover have "\<forall>x \<in> set (path_text v). ascii_lower x = x"
    using path_text_lower [of v] by (simp only: lowercase_id_iff)
  ultimately show ?thesis using c path_text_no_backslash [of v]
    by (auto simp: clean_component_def safe_component_def lowercase_id_iff)
qed

section \<open>Containment and round trip\<close>

lemma strip_list_prefix_Some: "strip_list_prefix xs ys = Some zs \<longleftrightarrow> ys = xs @ zs"
  by (induction xs ys rule: strip_list_prefix.induct) auto

lemma normalized_inside:
  assumes "normalize_workspace_relative_path v root = Some r"
  shows "\<exists>w p rc. parse_path_for_matching root = Some w \<and> path_root w \<noteq> None
    \<and> parse_path_for_matching v = Some p
    \<and> r = join_with ''/'' rc \<and> list_all clean_component rc
    \<and> (if path_root p = None then path_components p = rc
       else path_root p = path_root w \<and> path_components p = path_components w @ rc)"
proof -
  from assms obtain w p rc where h: "parse_path_for_matching root = Some w" "path_root w \<noteq> None"
    "parse_path_for_matching v = Some p" "r = join_with ''/'' rc"
    "if path_root p = None then path_components p = rc
       else path_root p = path_root w \<and> path_components p = path_components w @ rc"
    by (auto simp: normalize_workspace_relative_path_def strip_list_prefix_Some
        split: option.splits if_splits)
  moreover have "list_all clean_component rc"
    using h(5) parse_path_clean [OF h(3)] by (auto simp: list_all_iff split: if_splits)
  ultimately show ?thesis by blast
qed

text \<open>The names a text has between its slashes, and what a path is read as.\<close>

definition path_names :: "string \<Rightarrow> string list" where
  "path_names s = filter (\<lambda>c. c \<noteq> [] \<and> c \<noteq> ''.'') (split_on (CHR ''/'') s)"

lemma normalize_components_filter:
  "normalize_components cs = (if ''..'' \<in> set cs then None else Some (filter (\<lambda>c. c \<noteq> [] \<and> c \<noteq> ''.'') cs))"
  by (induction cs) auto

lemma windows_absolute_split:
  assumes "is_windows_absolute_path v"
  obtains a cs where "v = a # CHR '':'' # CHR ''/'' # cs" "is_ascii_alphabetic a"
proof -
  from assms have "3 \<le> length v" by (simp add: is_windows_absolute_path_def)
  then obtain a b c cs where "v = a # b # c # cs"
    by (metis Suc_le_length_iff numeral_3_eq_3)
  with assms show ?thesis using that by (auto simp: is_windows_absolute_path_def)
qed

lemma windows_absolute_drive: "is_windows_absolute_path v \<Longrightarrow> has_windows_drive_prefix v"
  by (simp add: is_windows_absolute_path_def has_windows_drive_prefix_def)

lemma letter_no_slash: "is_ascii_alphabetic a \<Longrightarrow> a \<noteq> CHR ''/''"
  by (auto simp: is_ascii_alphabetic_def is_ascii_upper_def is_ascii_lower_def)

lemma path_names_slash: "path_names (CHR ''/'' # s) = path_names s"
  by (simp add: path_names_def)

lemma strip_slash: "strip_prefix ''/'' t = (if prefix ''/'' t then Some (tl t) else None)"
  by (cases t) (auto simp: strip_prefix_def)

lemma parse_path_read:
  "parse_path_for_matching v =
     (let t = path_text v
      in if t = [] \<or> ''..'' \<in> set (split_on (CHR ''/'') t) then None
         else if prefix ''/'' t then Some \<lparr>path_root = Some ''/'', path_components = path_names t\<rparr>
         else if is_windows_absolute_path t
         then Some \<lparr>path_root = Some (take 2 t), path_components = path_names (drop 2 t)\<rparr>
         else if has_windows_drive_prefix t then None
         else Some \<lparr>path_root = None, path_components = path_names t\<rparr>)"
proof -
  have parse: "parse_path_for_matching v =
      (if path_text v = [] then None
       else case (if prefix ''/'' (path_text v) then Some (Some ''/'', tl (path_text v))
                  else if is_windows_absolute_path (path_text v)
                  then Some (Some (take 2 (path_text v)), drop 3 (path_text v))
                  else if has_windows_drive_prefix (path_text v) then None
                  else Some (None, path_text v)) of
             None \<Rightarrow> None
           | Some (root, comps) \<Rightarrow>
               if ''..'' \<in> set (split_on (CHR ''/'') comps) then None
               else Some \<lparr>path_root = root, path_components = path_names comps\<rparr>)"
    by (simp add: parse_path_for_matching_def path_text_def Let_def strip_slash normalize_components_filter
        path_names_def split: option.splits)
  consider (slash) "prefix ''/'' (path_text v)"
    | (drive) "\<not> prefix ''/'' (path_text v)" "is_windows_absolute_path (path_text v)"
    | (other) "\<not> prefix ''/'' (path_text v)" "\<not> is_windows_absolute_path (path_text v)" by blast
  then show ?thesis
  proof cases
    case slash
    then obtain s where "path_text v = CHR ''/'' # s" by (auto simp: prefix_def)
    then show ?thesis by (simp add: parse path_names_slash)
  next
    case drive
    then obtain a s where t: "path_text v = a # CHR '':'' # CHR ''/'' # s" "is_ascii_alphabetic a"
      by (elim windows_absolute_split)
    with letter_no_slash [of a] have "a \<noteq> CHR ''/''" by simp
    with drive t(1) show ?thesis
      by (cases "split_on (CHR ''/'') s") (auto simp: parse path_names_def numeral_3_eq_3 numeral_2_eq_2)
  next
    case other
    then show ?thesis by (simp add: parse Let_def)
  qed
qed

text \<open>
  C32: A path normalises exactly when neither it nor the workspace has a \<open>..\<close> anywhere, the workspace is absolute, and the
  path is relative without a drive letter, or below the workspace under the same root; the result is the names of the
  path below the workspace, in lower case, without empty names and \<open>.\<close>. So what normalises names something
  inside the workspace.
\<close>

theorem normalized_path_stays_in_workspace:
  "normalize_workspace_relative_path v root = Some r \<longleftrightarrow>
     (let t = path_text v; w = path_text root
      in ''..'' \<notin> set (split_on (CHR ''/'') t) \<and> ''..'' \<notin> set (split_on (CHR ''/'') w) \<and>
         (prefix ''/'' w \<or> is_windows_absolute_path w) \<and>
         (if prefix ''/'' t
          then prefix ''/'' w \<and> (\<exists>names. path_names t = path_names w @ names \<and> r = join_with ''/'' names)
          else if has_windows_drive_prefix t
          then is_windows_absolute_path t \<and> is_windows_absolute_path w \<and> take 2 t = take 2 w
             \<and> (\<exists>names. path_names (drop 2 t) = path_names (drop 2 w) @ names \<and> r = join_with ''/'' names)
          else t \<noteq> [] \<and> r = join_with ''/'' (path_names t)))"
proof -
  have no_drive: "\<not> has_windows_drive_prefix s" if "prefix ''/'' s" for s
    using that letter_no_slash [of "CHR ''/''"] by (auto simp: has_windows_drive_prefix_def prefix_def)
  have two: "take 2 s \<noteq> ''/''" if "is_windows_absolute_path s" for s
    by (rule windows_absolute_split [OF that]) (auto simp: numeral_2_eq_2)
  have empty: "\<not> prefix ''/'' []" "\<not> is_windows_absolute_path []" "\<not> has_windows_drive_prefix []"
    by (simp_all add: is_windows_absolute_path_def has_windows_drive_prefix_def)
  show ?thesis
    unfolding normalize_workspace_relative_path_def parse_path_read Let_def
    using no_drive [of "path_text v"] no_drive [of "path_text root"] windows_absolute_drive [of "path_text v"]
      windows_absolute_drive [of "path_text root"] two [of "path_text v"] two [of "path_text root"] empty
    by (auto simp: strip_list_prefix_Some split: if_splits)
qed

lemma join_clean_text:
  assumes "list_all clean_component rc"
  shows "CHR 0x5C \<notin> set (join_with ''/'' rc)" "lowercase (join_with ''/'' rc) = join_with ''/'' rc"
proof -
  show "CHR 0x5C \<notin> set (join_with ''/'' rc)"
    using assms by (induction "''/'' :: string" rc rule: join_with.induct) (auto simp: clean_component_def)
  have "map lowercase rc = rc"
    using assms by (simp add: list_all_iff clean_component_def map_idI)
  moreover have "lowercase ''/'' = ''/''" by code_simp
  ultimately show "lowercase (join_with ''/'' rc) = join_with ''/'' rc"
    by (simp add: lowercase_join)
qed

lemma backslash_to_slash_id: "CHR 0x5C \<notin> set s \<Longrightarrow> backslash_to_slash s = s"
  by (auto simp: backslash_to_slash_def intro!: map_idI)

lemma parse_clean_relative:
  assumes "list_all clean_component rc" "rc \<noteq> []" "trim (join_with ''/'' rc) = join_with ''/'' rc"
    "\<not> has_windows_drive_prefix (join_with ''/'' rc)"
  shows "parse_path_for_matching (join_with ''/'' rc) = Some \<lparr>path_root = None, path_components = rc\<rparr>"
proof -
  let ?r = "join_with ''/'' rc"
  have t: "lowercase (backslash_to_slash (trim ?r)) = ?r"
    by (simp add: assms(3) backslash_to_slash_id join_clean_text [OF assms(1)])
  obtain c cs where rc: "rc = c # cs" using assms(2) by (cases rc) auto
  have c: "c \<noteq> []" "CHR ''/'' \<notin> set c"
    using assms(1) by (auto simp: rc clean_component_def safe_component_def)
  then obtain x xs where "c = x # xs" "x \<noteq> CHR ''/''" by (cases c) auto
  then obtain y where "?r = x # y" by (cases cs) (auto simp: rc)
  then have sp: "strip_prefix ''/'' ?r = None" "?r \<noteq> []"
    using \<open>x \<noteq> CHR ''/''\<close> by (auto simp: strip_prefix_def)
  have "split_on (CHR ''/'') ?r = rc"
    using assms(1,2) by (intro split_on_join) (auto simp: list_all_iff clean_component_def safe_component_def)
  moreover have "normalize_components rc = Some rc"
    using assms(1) by (intro normalize_components_id) (auto simp: list_all_iff clean_component_def)
  moreover have "\<not> is_windows_absolute_path ?r" using assms(4) windows_absolute_drive by blast
  ultimately show ?thesis using sp assms(4)
    by (simp add: parse_path_for_matching_def t Let_def)
qed

text \<open>
  A saved normalised path matches itself again: normalising the result of a normalisation gives
  it back, provided it is not the workspace root itself (the empty result), does not start like a
  drive letter and has no white space at its ends.
\<close>

theorem normalized_path_round_trip:
  assumes "normalize_workspace_relative_path v root = Some r"
    and "r \<noteq> []" "trim r = r" "\<not> has_windows_drive_prefix r"
  shows "normalize_workspace_relative_path r root = Some r"
proof -
  from normalized_inside [OF assms(1)] obtain w rc
    where h: "parse_path_for_matching root = Some w" "path_root w \<noteq> None"
      "r = join_with ''/'' rc" "list_all clean_component rc" by blast
  with assms(2) have "rc \<noteq> []" by auto
  then have "parse_path_for_matching r = Some \<lparr>path_root = None, path_components = rc\<rparr>"
    using parse_clean_relative assms(3,4) h by blast
  with h show ?thesis by (auto simp: normalize_workspace_relative_path_def)
qed

theorem normalized_path_round_trip_witness:
  "normalize_workspace_relative_path ''src/main.rs'' ''/work'' = Some ''src/main.rs''"
proof (rule normalized_path_round_trip)
  show "normalize_workspace_relative_path ''/Work/src/./Main.rs'' ''/work'' = Some ''src/main.rs''"
    by code_simp
  show "trim ''src/main.rs'' = ''src/main.rs''" "\<not> has_windows_drive_prefix ''src/main.rs''"
    by code_simp+
qed simp

text \<open>
  The conditions are needed: \<open>./c:x\<close> normalises to \<open>c:x\<close>, which reads as drive-relative and is
  rejected, and the workspace root normalises to the empty path, which is rejected too.
\<close>

lemma normalized_path_not_always_stable:
  "normalize_workspace_relative_path ''./c:x'' ''/w'' = Some ''c:x''
   \<and> normalize_workspace_relative_path ''c:x'' ''/w'' = None
   \<and> normalize_workspace_relative_path ''/w'' ''/w'' = Some []
   \<and> normalize_workspace_relative_path [] ''/w'' = None"
  by code_simp

text \<open>
  A \<open>..\<close> component anywhere in the value, with either kind of slash, makes it unusable for a
  rule: nothing that could climb out of the workspace is normalised.
\<close>

theorem parent_component_rejected:
  assumes "''..'' \<in> set (split_on (CHR ''/'') (path_text v))"
  shows "normalize_workspace_relative_path v root = None"
proof (cases "parse_path_for_matching v")
  case (Some p)
  then have False
  proof (cases rule: parse_path_cases)
    case (slash comps)
    from assms slash(1) have "normalize_components (split_on (CHR ''/'') comps) = None"
      by (simp add: normalize_components_None)
    with slash show False by simp
  next
    case drive
    from drive(1) obtain a cs where t: "path_text v = a # CHR '':'' # CHR ''/'' # cs" "is_ascii_alphabetic a"
      by (rule windows_absolute_split)
    then have "a \<noteq> CHR ''/''"
      by (auto simp: is_ascii_alphabetic_def is_ascii_upper_def is_ascii_lower_def)
    with assms t have "normalize_components (split_on (CHR ''/'') cs) = None"
      by (simp add: normalize_components_None)
    with drive(2) t show False by (simp add: numeral_3_eq_3)
  next
    case relative
    from assms have "normalize_components (split_on (CHR ''/'') (path_text v)) = None"
      by (simp add: normalize_components_None)
    with relative show False by simp
  qed
  then show ?thesis ..
qed (simp add: normalize_workspace_relative_path_def)

theorem parent_component_rejected_witness:
  "normalize_workspace_relative_path ''src/../../etc'' ''/w'' = None"
  by (rule parent_component_rejected) code_simp

end
