(* ===== verification/Exec_Policy.thy ===== *)
theory Exec_Policy
  imports Bash_Arity Workspace_Path "HOL-Library.Product_Lexorder" "HOL-Library.Multiset"
begin

text \<open>
  \<open>crates/execpolicy/src/lib.rs\<close>: the approval and deny engine every tool call passes through
  (\<open>Runtime::invoke_tool\<close> calls \<open>check\<close> first). Records and datatypes are the source's; the
  prefixes \<open>rs_\<close>, \<open>ar_\<close>, \<open>ctx_\<close> and \<open>dec_\<close> only tell apart fields of equal name. \<open>check\<close> returns
  \<open>Result\<close> in the source but has no error path, so here it is a total function. Strings that
  the code formats for people are built exactly as it builds them.
\<close>

section \<open>Rulesets\<close>

datatype ruleset_layer = BuiltinDefault | Agent | User

fun layer_ord :: "ruleset_layer \<Rightarrow> nat" where
  "layer_ord BuiltinDefault = 0"
| "layer_ord Agent = 1"
| "layer_ord User = 2"

lemma layer_ord_inj: "layer_ord a = layer_ord b \<Longrightarrow> a = b"
  by (cases a; cases b) simp_all

instantiation ruleset_layer :: linorder
begin

definition "less_eq_ruleset_layer a b \<longleftrightarrow> layer_ord a \<le> layer_ord b"
definition "less_ruleset_layer a b \<longleftrightarrow> layer_ord a < layer_ord b"

instance
  by standard (auto simp: less_eq_ruleset_layer_def less_ruleset_layer_def dest: layer_ord_inj)

end

datatype permission_action = PermAllow | PermAsk | PermDeny

fun action_ord :: "permission_action \<Rightarrow> nat" where
  "action_ord PermAllow = 0"
| "action_ord PermAsk = 1"
| "action_ord PermDeny = 2"

lemma action_ord_inj: "action_ord a = action_ord b \<Longrightarrow> a = b"
  by (cases a; cases b) simp_all

instantiation permission_action :: linorder
begin

definition "less_eq_permission_action a b \<longleftrightarrow> action_ord a \<le> action_ord b"
definition "less_permission_action a b \<longleftrightarrow> action_ord a < action_ord b"

instance
  by standard (auto simp: less_eq_permission_action_def less_permission_action_def
      dest: action_ord_inj)

end

record tool_ask_rule =
  ar_tool :: string
  ar_command :: "string option"
  ar_path :: "string option"
  ar_action :: permission_action

definition ask_rule_new :: "string \<Rightarrow> tool_ask_rule" where
  "ask_rule_new tool = \<lparr>ar_tool = tool, ar_command = None, ar_path = None, ar_action = PermAsk\<rparr>"

definition ask_rule_exec_shell :: "string \<Rightarrow> tool_ask_rule" where
  "ask_rule_exec_shell command =
     \<lparr>ar_tool = ''exec_shell'', ar_command = Some command, ar_path = None, ar_action = PermAsk\<rparr>"

definition ask_rule_file_path :: "string \<Rightarrow> string \<Rightarrow> tool_ask_rule" where
  "ask_rule_file_path tool path =
     \<lparr>ar_tool = tool, ar_command = None, ar_path = Some path, ar_action = PermAsk\<rparr>"

definition rule_label :: "tool_ask_rule \<Rightarrow> string" where
  "rule_label r = join_with '' ''
     ([''tool='' @ ar_tool r]
      @ (case ar_command r of None \<Rightarrow> [] | Some c \<Rightarrow> [''command='' @ c])
      @ (case ar_path r of None \<Rightarrow> [] | Some p \<Rightarrow> [''path='' @ p]))"

record ruleset =
  rs_layer :: ruleset_layer
  rs_trusted_prefixes :: "string list"
  rs_denied_prefixes :: "string list"
  rs_ask_rules :: "tool_ask_rule list"

definition ruleset_builtin_default :: ruleset where
  "ruleset_builtin_default = \<lparr>rs_layer = BuiltinDefault, rs_trusted_prefixes = [],
     rs_denied_prefixes = [], rs_ask_rules = []\<rparr>"

definition ruleset_agent :: "string list \<Rightarrow> string list \<Rightarrow> ruleset" where
  "ruleset_agent trusted denied = \<lparr>rs_layer = Agent, rs_trusted_prefixes = trusted,
     rs_denied_prefixes = denied, rs_ask_rules = []\<rparr>"

definition ruleset_user :: "string list \<Rightarrow> string list \<Rightarrow> ruleset" where
  "ruleset_user trusted denied = \<lparr>rs_layer = User, rs_trusted_prefixes = trusted,
     rs_denied_prefixes = denied, rs_ask_rules = []\<rparr>"

definition with_ask_rules :: "ruleset \<Rightarrow> tool_ask_rule list \<Rightarrow> ruleset" where
  "with_ask_rules rs rules = rs\<lparr>rs_ask_rules := rules\<rparr>"

section \<open>Requirements, decisions, contexts\<close>

datatype ask_for_approval =
    UnlessTrusted
  | OnFailure
  | OnRequest
  | Reject (sandbox_approval: bool) (reject_rules: bool) (mcp_elicitations: bool)
  | Never

record exec_policy_amendment =
  amend_prefixes :: "string list"

datatype network_rule_action = NetworkAllow | NetworkDeny

record network_policy_amendment =
  amend_host :: string
  amend_action :: network_rule_action

datatype exec_approval_requirement =
    Skip (bypass_sandbox: bool) (skip_amendment: "exec_policy_amendment option")
  | NeedsApproval (approval_reason: string) (approval_amendment: "exec_policy_amendment option")
      (approval_network: "network_policy_amendment list")
  | Forbidden (forbidden_reason: string)

fun requirement_reason :: "exec_approval_requirement \<Rightarrow> string" where
  "requirement_reason (Skip _ _) = ''Execution allowed by policy.''"
| "requirement_reason (NeedsApproval reason _ _) = reason"
| "requirement_reason (Forbidden reason) = reason"

fun requirement_phase :: "exec_approval_requirement \<Rightarrow> string" where
  "requirement_phase (Skip _ _) = ''allowed''"
| "requirement_phase (NeedsApproval _ _ _) = ''needs_approval''"
| "requirement_phase (Forbidden _) = ''forbidden''"

record exec_policy_decision =
  dec_allow :: bool
  dec_requires_approval :: bool
  dec_requirement :: exec_approval_requirement
  dec_matched_rule :: "string option"
  dec_matched_action :: "permission_action option"

definition decision_reason :: "exec_policy_decision \<Rightarrow> string" where
  "decision_reason d = requirement_reason (dec_requirement d)"

record exec_policy_context =
  ctx_command :: string
  ctx_cwd :: string
  ctx_tool :: "string option"
  ctx_path :: "string option"
  ctx_ask_for_approval :: ask_for_approval
  ctx_sandbox_mode :: "string option"

record exec_policy_engine =
  rulesets :: "ruleset list"
  trusted_prefixes :: "string list"
  denied_prefixes :: "string list"
  approved_for_session :: "string set"
  arity_dict :: bash_arity_dict

section \<open>Command normalisation\<close>

definition normalize_command :: "string \<Rightarrow> string" where
  "normalize_command value = lowercase (join_with '' '' (split_whitespace value))"

definition first_token :: "string \<Rightarrow> string" where
  "first_token command = (case split_whitespace command of [] \<Rightarrow> [] | w # _ \<Rightarrow> w)"

definition newline :: string where
  "newline = [CHR 0x0A]"

definition command_segments :: "string \<Rightarrow> string list" where
  "command_segments command =
     (let r1 = str_replace ''&&'' newline command;
          r2 = str_replace ''||'' newline r1;
          r3 = map (\<lambda>c. if c = CHR ''|'' \<or> c = CHR '';'' then CHR 0x0A else c) r2
      in filter (\<lambda>s. s \<noteq> []) (map trim (str_lines r3)))"

definition command_is_chained :: "string \<Rightarrow> bool" where
  "command_is_chained command \<longleftrightarrow> length (command_segments command) > 1"

definition ask_rule_specificity :: "tool_ask_rule \<Rightarrow> nat" where
  "ask_rule_specificity r =
     length (ar_tool r)
     + (case ar_command r of None \<Rightarrow> 0 | Some c \<Rightarrow> length c + 1000)
     + (case ar_path r of None \<Rightarrow> 0 | Some p \<Rightarrow> length p + 1000)"

section \<open>The engine\<close>

definition engine_new :: "string list \<Rightarrow> string list \<Rightarrow> exec_policy_engine" where
  "engine_new trusted denied = \<lparr>rulesets = [], trusted_prefixes = trusted,
     denied_prefixes = denied, approved_for_session = {}, arity_dict = dict_new\<rparr>"

definition engine_with_rulesets :: "ruleset list \<Rightarrow> exec_policy_engine" where
  "engine_with_rulesets rss = \<lparr>rulesets = sort_key rs_layer rss, trusted_prefixes = [],
     denied_prefixes = [], approved_for_session = {}, arity_dict = dict_new\<rparr>"

definition add_ruleset :: "exec_policy_engine \<Rightarrow> ruleset \<Rightarrow> exec_policy_engine" where
  "add_ruleset e rs = e\<lparr>rulesets := sort_key rs_layer (rulesets e @ [rs])\<rparr>"

definition remember_session_approval :: "exec_policy_engine \<Rightarrow> string \<Rightarrow> exec_policy_engine" where
  "remember_session_approval e key =
     e\<lparr>approved_for_session := insert key (approved_for_session e)\<rparr>"

definition is_session_approved :: "exec_policy_engine \<Rightarrow> string \<Rightarrow> bool" where
  "is_session_approved e key \<longleftrightarrow> key \<in> approved_for_session e"

definition resolve_prefixes :: "exec_policy_engine \<Rightarrow> string list \<times> string list" where
  "resolve_prefixes e =
     (if rulesets e = [] then (trusted_prefixes e, denied_prefixes e)
      else (concat (map rs_trusted_prefixes (rulesets e)) @ trusted_prefixes e,
            concat (map rs_denied_prefixes (rulesets e)) @ denied_prefixes e))"

text \<open>\<open>Iterator::max_by_key\<close> keeps the last of several maximal elements.\<close>

fun max_by_key_from :: "('a \<Rightarrow> 'k::linorder) \<Rightarrow> 'a \<Rightarrow> 'a list \<Rightarrow> 'a" where
  "max_by_key_from f best [] = best"
| "max_by_key_from f best (x # xs) =
     (if f best \<le> f x then max_by_key_from f x xs else max_by_key_from f best xs)"

definition max_by_key :: "('a \<Rightarrow> 'k::linorder) \<Rightarrow> 'a list \<Rightarrow> 'a option" where
  "max_by_key f xs = (case xs of [] \<Rightarrow> None | x # ys \<Rightarrow> Some (max_by_key_from f x ys))"

text \<open>The filters of \<open>matching_ask_rule\<close>, then the selection.\<close>

definition rule_command_matches :: "exec_policy_engine \<Rightarrow> exec_policy_context \<Rightarrow> tool_ask_rule \<Rightarrow> bool" where
  "rule_command_matches e ctx r =
     (case ar_command r of
        Some command \<Rightarrow> allow_rule_matches (arity_dict e) command (ctx_command ctx)
      | None \<Rightarrow> True)"

definition rule_path_matches :: "exec_policy_context \<Rightarrow> tool_ask_rule \<Rightarrow> bool" where
  "rule_path_matches ctx r =
     (case (ar_path r, ctx_path ctx) of
        (Some pattern, Some path) \<Rightarrow>
          (case (normalize_workspace_relative_path pattern (ctx_cwd ctx),
                 normalize_workspace_relative_path path (ctx_cwd ctx)) of
             (Some pat, Some p) \<Rightarrow> pat = p
           | _ \<Rightarrow> False)
      | (Some _, None) \<Rightarrow> False
      | (None, _) \<Rightarrow> True)"

definition ctx_tool_name :: "exec_policy_context \<Rightarrow> string" where
  "ctx_tool_name ctx = (case ctx_tool ctx of None \<Rightarrow> ''exec_shell'' | Some t \<Rightarrow> t)"

definition ask_rule_applies :: "exec_policy_engine \<Rightarrow> exec_policy_context \<Rightarrow> tool_ask_rule \<Rightarrow> bool" where
  "ask_rule_applies e ctx r \<longleftrightarrow>
     ar_tool r = ctx_tool_name ctx \<and> rule_command_matches e ctx r \<and> rule_path_matches ctx r"

definition layered_ask_rules :: "exec_policy_engine \<Rightarrow> (ruleset_layer \<times> tool_ask_rule) list" where
  "layered_ask_rules e = concat (map (\<lambda>rs. map (\<lambda>r. (rs_layer rs, r)) (rs_ask_rules rs)) (rulesets e))"

definition rule_priority :: "ruleset_layer \<times> tool_ask_rule \<Rightarrow> permission_action \<times> ruleset_layer \<times> nat" where
  "rule_priority lr = (ar_action (snd lr), fst lr, ask_rule_specificity (snd lr))"

definition matching_ask_rule :: "exec_policy_engine \<Rightarrow> exec_policy_context \<Rightarrow> tool_ask_rule option" where
  "matching_ask_rule e ctx =
     map_option snd (max_by_key rule_priority
       (filter (\<lambda>lr. ask_rule_applies e ctx (snd lr)) (layered_ask_rules e)))"

section \<open>The check\<close>

definition quoted :: "string \<Rightarrow> string" where
  "quoted s = [CHR 0x27] @ s @ [CHR 0x27]"

definition deny_rule_hits :: "string \<Rightarrow> string \<Rightarrow> bool" where
  "deny_rule_hits command rule =
     (let norm_rule = normalize_command rule
      in list_ex (word_boundary_prefix norm_rule)
           (normalize_command command # map normalize_command (command_segments command)))"

definition denied_rule :: "exec_policy_engine \<Rightarrow> string \<Rightarrow> string option" where
  "denied_rule e command = find (deny_rule_hits command) (snd (resolve_prefixes e))"

definition trusted_rule :: "exec_policy_engine \<Rightarrow> string \<Rightarrow> string option" where
  "trusted_rule e command =
     (if command_is_chained command then None
      else find (\<lambda>rule. allow_rule_matches (arity_dict e) rule command) (fst (resolve_prefixes e)))"

text \<open>The loop over the segments of a chained command: the first typed deny.\<close>

fun segment_deny :: "exec_policy_engine \<Rightarrow> exec_policy_context \<Rightarrow> string list \<Rightarrow> tool_ask_rule option" where
  "segment_deny e ctx [] = None"
| "segment_deny e ctx (seg # segs) =
     (case matching_ask_rule e (ctx\<lparr>ctx_command := seg\<rparr>) of
        Some rule \<Rightarrow> if ar_action rule = PermDeny then Some rule else segment_deny e ctx segs
      | None \<Rightarrow> segment_deny e ctx segs)"

definition forbidden_decision :: "string option \<Rightarrow> permission_action option \<Rightarrow> string \<Rightarrow> exec_policy_decision" where
  "forbidden_decision rule action reason =
     \<lparr>dec_allow = False, dec_requires_approval = False, dec_requirement = Forbidden reason,
      dec_matched_rule = rule, dec_matched_action = action\<rparr>"

text \<open>The requirement of the approval mode, when no typed deny or allow rule decided, together with
  \<open>matched_ask_rule\<close>.\<close>

definition rejects_rules :: "ask_for_approval \<Rightarrow> bool" where
  "rejects_rules m = (case m of Reject _ rules _ \<Rightarrow> rules | _ \<Rightarrow> False)"

definition mode_requirement ::
  "exec_policy_context \<Rightarrow> tool_ask_rule option \<Rightarrow> bool \<Rightarrow> exec_approval_requirement \<times> string option" where
  "mode_requirement ctx ask_rule is_trusted =
     (case (if ctx_ask_for_approval ctx = Never \<or> rejects_rules (ctx_ask_for_approval ctx) then None
            else ask_rule) of
        Some rule \<Rightarrow>
          (NeedsApproval (''Typed ask rule '' @ quoted (rule_label rule) @ '' requires approval.'')
             None [], Some (rule_label rule))
      | None \<Rightarrow>
         (case ctx_ask_for_approval ctx of
            Never \<Rightarrow>
              (case ask_rule of
                 Some rule \<Rightarrow>
                   (Forbidden (''Typed ask rule '' @ quoted (rule_label rule)
                       @ '' requires approval, but approval policy is never.''),
                    Some (rule_label rule))
               | None \<Rightarrow> (Skip False None, None))
          | m \<Rightarrow>
             (if rejects_rules m then
                (Forbidden ''Policy is configured to reject rule-exceptions.'', None)
              else if m = UnlessTrusted \<and> is_trusted then (Skip False None, None)
              else if m = OnFailure then (Skip False None, None)
              else
                (NeedsApproval
                   (if is_trusted then ''Approval requested by policy mode.''
                    else ''Unmatched command prefix requires approval.'')
                   (if is_trusted then None
                    else Some \<lparr>amend_prefixes = [first_token (ctx_command ctx)]\<rparr>)
                   [\<lparr>amend_host = ctx_cwd ctx, amend_action = NetworkAllow\<rparr>],
                 None))))"

fun allow_flags :: "exec_approval_requirement \<Rightarrow> bool \<times> bool" where
  "allow_flags (Skip _ _) = (True, False)"
| "allow_flags (NeedsApproval _ _ _) = (True, True)"
| "allow_flags (Forbidden _) = (False, False)"

definition mode_decision ::
  "exec_policy_context \<Rightarrow> tool_ask_rule option \<Rightarrow> string option \<Rightarrow> exec_policy_decision" where
  "mode_decision ctx ask_rule trusted =
     (let (requirement, matched_ask_rule) = mode_requirement ctx ask_rule (trusted \<noteq> None);
          (allow, requires_approval) = allow_flags requirement
      in \<lparr>dec_allow = allow, dec_requires_approval = requires_approval,
          dec_requirement = requirement,
          dec_matched_rule = (case matched_ask_rule of None \<Rightarrow> trusted | Some r \<Rightarrow> Some r),
          dec_matched_action = map_option ar_action ask_rule\<rparr>)"

definition check :: "exec_policy_engine \<Rightarrow> exec_policy_context \<Rightarrow> exec_policy_decision" where
  "check e ctx =
     (case denied_rule e (ctx_command ctx) of
        Some rule \<Rightarrow>
          forbidden_decision (Some rule) None
            (''Command blocked by denied prefix rule '' @ quoted rule)
      | None \<Rightarrow>
        (case (if command_is_chained (ctx_command ctx)
               then segment_deny e ctx (command_segments (ctx_command ctx)) else None) of
           Some rule \<Rightarrow>
             forbidden_decision (Some (rule_label rule)) (Some PermDeny)
               (''Permission rule '' @ quoted (rule_label rule)
                 @ '' explicitly denies a chained segment of this invocation.'')
         | None \<Rightarrow>
           (let ask_rule = matching_ask_rule e ctx;
                trusted = trusted_rule e (ctx_command ctx)
            in case ask_rule of
                 Some rule \<Rightarrow>
                   (case ar_action rule of
                      PermDeny \<Rightarrow>
                        forbidden_decision (Some (rule_label rule)) (Some PermDeny)
                          (''Permission rule '' @ quoted (rule_label rule)
                            @ '' explicitly denies this invocation.'')
                    | PermAllow \<Rightarrow>
                        \<lparr>dec_allow = True, dec_requires_approval = False,
                         dec_requirement = Skip False None,
                         dec_matched_rule = Some (rule_label rule),
                         dec_matched_action = Some PermAllow\<rparr>
                    | PermAsk \<Rightarrow> mode_decision ctx ask_rule trusted)
               | None \<Rightarrow> mode_decision ctx ask_rule trusted)))"

section \<open>Selection of the ask rule\<close>

lemma max_by_key_from_in: "max_by_key_from f b xs \<in> insert b (set xs)"
  by (induction f b xs rule: max_by_key_from.induct) auto

lemma max_by_key_from_ge: "f b \<le> f (max_by_key_from f b xs) \<and> (\<forall>x \<in> set xs. f x \<le> f (max_by_key_from f b xs))"
proof (induction f b xs rule: max_by_key_from.induct)
  case (2 f b x xs)
  then show ?case by (cases "f b \<le> f x") (force intro: order_trans)+
qed simp

lemma max_by_key_in: "max_by_key f xs = Some m \<Longrightarrow> m \<in> set xs"
  using max_by_key_from_in by (fastforce simp: max_by_key_def split: list.splits)

lemma max_by_key_ge: "max_by_key f xs = Some m \<Longrightarrow> x \<in> set xs \<Longrightarrow> f x \<le> f m"
  using max_by_key_from_ge by (fastforce simp: max_by_key_def split: list.splits)

lemma max_by_key_None: "max_by_key f xs = None \<longleftrightarrow> xs = []"
  by (simp add: max_by_key_def split: list.splits)

lemma rule_priority_action: "rule_priority a \<le> rule_priority b \<Longrightarrow> ar_action (snd a) \<le> ar_action (snd b)"
  by (auto simp: rule_priority_def less_eq_prod_def)

definition ask_rules_of :: "exec_policy_engine \<Rightarrow> tool_ask_rule set" where
  "ask_rules_of e = (\<Union>rs \<in> set (rulesets e). set (rs_ask_rules rs))"

lemma layered_ask_rules_snd: "snd ` set (layered_ask_rules e) = ask_rules_of e"
  by (force simp: layered_ask_rules_def ask_rules_of_def)

lemma matching_ask_rule_SomeD:
  assumes "matching_ask_rule e ctx = Some r"
  shows "r \<in> ask_rules_of e" "ask_rule_applies e ctx r"
    "\<And>r'. r' \<in> ask_rules_of e \<Longrightarrow> ask_rule_applies e ctx r' \<Longrightarrow> ar_action r' \<le> ar_action r"
proof -
  from assms obtain lr where lr: "snd lr = r"
    "max_by_key rule_priority (filter (\<lambda>lr. ask_rule_applies e ctx (snd lr)) (layered_ask_rules e)) = Some lr"
    by (auto simp: matching_ask_rule_def)
  from max_by_key_in [OF lr(2)] show "r \<in> ask_rules_of e" "ask_rule_applies e ctx r"
    using lr(1) layered_ask_rules_snd by force+
  fix r' assume "r' \<in> ask_rules_of e" "ask_rule_applies e ctx r'"
  then obtain l where "(l, r') \<in> set (layered_ask_rules e)"
    using layered_ask_rules_snd by force
  with \<open>ask_rule_applies e ctx r'\<close> have "rule_priority (l, r') \<le> rule_priority lr"
    by (intro max_by_key_ge [OF lr(2)]) simp
  then show "ar_action r' \<le> ar_action r" using lr(1) by (auto dest: rule_priority_action)
qed

lemma matching_ask_rule_None:
  "matching_ask_rule e ctx = None \<longleftrightarrow> (\<forall>r \<in> ask_rules_of e. \<not> ask_rule_applies e ctx r)"
proof -
  have "matching_ask_rule e ctx = None \<longleftrightarrow>
      (\<forall>lr \<in> set (layered_ask_rules e). \<not> ask_rule_applies e ctx (snd lr))"
    by (simp add: matching_ask_rule_def max_by_key_None filter_empty_conv)
  also have "\<dots> \<longleftrightarrow> (\<forall>r \<in> snd ` set (layered_ask_rules e). \<not> ask_rule_applies e ctx r)"
    by blast
  finally show ?thesis by (simp add: layered_ask_rules_snd)
qed

lemma PermDeny_max: "PermDeny \<le> a \<longleftrightarrow> a = PermDeny"
  by (cases a) (simp_all add: less_eq_permission_action_def)

lemma matching_ask_rule_deny:
  assumes "r \<in> ask_rules_of e" "ar_action r = PermDeny" "ask_rule_applies e ctx r"
  shows "\<exists>r'. matching_ask_rule e ctx = Some r' \<and> ar_action r' = PermDeny"
proof (cases "matching_ask_rule e ctx")
  case None
  with assms show ?thesis by (auto simp: matching_ask_rule_None)
next
  case (Some r')
  with matching_ask_rule_SomeD(3) [OF Some] assms show ?thesis by (metis PermDeny_max)
qed

lemma segment_deny_None:
  "segment_deny e ctx segs = None \<longleftrightarrow>
     (\<forall>seg \<in> set segs. \<forall>r. matching_ask_rule e (ctx\<lparr>ctx_command := seg\<rparr>) = Some r
        \<longrightarrow> ar_action r \<noteq> PermDeny)"
  by (induction segs) (auto split: option.splits)

lemma segment_deny_action: "segment_deny e ctx segs = Some r \<Longrightarrow> ar_action r = PermDeny"
  by (induction segs) (auto split: option.splits if_splits)

section \<open>What a decision means\<close>

lemma mode_decision_flags:
  "allow_flags (dec_requirement (mode_decision ctx r t))
     = (dec_allow (mode_decision ctx r t), dec_requires_approval (mode_decision ctx r t))"
  by (simp add: mode_decision_def Let_def split: prod.splits)

lemma check_cases:
  obtains (denied) rule where "denied_rule e (ctx_command ctx) = Some rule"
      "check e ctx = forbidden_decision (Some rule) None
         (''Command blocked by denied prefix rule '' @ quoted rule)"
  | (segment) rule where "denied_rule e (ctx_command ctx) = None"
      "command_is_chained (ctx_command ctx)"
      "segment_deny e ctx (command_segments (ctx_command ctx)) = Some rule"
      "check e ctx = forbidden_decision (Some (rule_label rule)) (Some PermDeny)
         (''Permission rule '' @ quoted (rule_label rule)
           @ '' explicitly denies a chained segment of this invocation.'')"
  | (rule_deny) rule where "denied_rule e (ctx_command ctx) = None"
      "matching_ask_rule e ctx = Some rule" "ar_action rule = PermDeny"
      "check e ctx = forbidden_decision (Some (rule_label rule)) (Some PermDeny)
         (''Permission rule '' @ quoted (rule_label rule) @ '' explicitly denies this invocation.'')"
  | (rule_allow) rule where "denied_rule e (ctx_command ctx) = None"
      "command_is_chained (ctx_command ctx) \<Longrightarrow> segment_deny e ctx (command_segments (ctx_command ctx)) = None"
      "matching_ask_rule e ctx = Some rule" "ar_action rule = PermAllow"
      "check e ctx = \<lparr>dec_allow = True, dec_requires_approval = False,
         dec_requirement = Skip False None, dec_matched_rule = Some (rule_label rule),
         dec_matched_action = Some PermAllow\<rparr>"
  | (mode) "denied_rule e (ctx_command ctx) = None"
      "command_is_chained (ctx_command ctx) \<Longrightarrow> segment_deny e ctx (command_segments (ctx_command ctx)) = None"
      "\<And>r. matching_ask_rule e ctx = Some r \<Longrightarrow> ar_action r = PermAsk"
      "check e ctx = mode_decision ctx (matching_ask_rule e ctx) (trusted_rule e (ctx_command ctx))"
proof (cases "denied_rule e (ctx_command ctx)")
  case (Some rule)
  then show ?thesis by (intro denied) (simp_all add: check_def)
next
  case d: None
  show ?thesis
  proof (cases "if command_is_chained (ctx_command ctx)
      then segment_deny e ctx (command_segments (ctx_command ctx)) else None")
    case (Some rule)
    with d show ?thesis by (intro segment [of rule]) (simp_all add: check_def split: if_splits)
  next
    case s: None
    then have s': "command_is_chained (ctx_command ctx) \<Longrightarrow>
        segment_deny e ctx (command_segments (ctx_command ctx)) = None" by (simp split: if_splits)
    show ?thesis
    proof (cases "matching_ask_rule e ctx")
      case None
      with d s s' show ?thesis by (intro mode) (simp_all add: check_def)
    next
      case (Some r)
      with d s s' show ?thesis
        by (cases "ar_action r") (auto simp: check_def intro: rule_deny rule_allow mode)
    qed
  qed
qed

text \<open>
  The two flags of a decision always say what its requirement says: a skip is allowed at once,
  an approval request is allowed after approval, a prohibition is neither.
\<close>

theorem check_flags_consistent:
  "allow_flags (dec_requirement (check e ctx))
     = (dec_allow (check e ctx), dec_requires_approval (check e ctx))"
  by (cases e ctx rule: check_cases) (simp_all add: forbidden_decision_def mode_decision_flags)

section \<open>Deny rules always win\<close>

lemma normalize_command_words:
  "normalize_command s = join_with '' '' (map lowercase (split_whitespace s))"
proof -
  have "lowercase (join_with '' '' ws) = join_with '' '' (map lowercase ws)" for ws
    by (induction "'' '' :: string" ws rule: join_with.induct)
      (simp_all add: lowercase_def ascii_lower_def is_ascii_upper_def)
  then show ?thesis by (simp add: normalize_command_def)
qed

text \<open>A deny rule hits a command exactly when its words lead the command or one of its segments.\<close>

lemma deny_rule_hits_words:
  assumes "split_whitespace rule \<noteq> []"
  shows "deny_rule_hits command rule \<longleftrightarrow>
    (\<exists>seg \<in> set (command # command_segments command).
       prefix (map lowercase (split_whitespace rule)) (map lowercase (split_whitespace seg)))"
proof -
  have "word_boundary_prefix (normalize_command rule) (normalize_command seg) \<longleftrightarrow>
      prefix (map lowercase (split_whitespace rule)) (map lowercase (split_whitespace seg))" for seg
    unfolding normalize_command_words using assms
    by (subst word_boundary_words) (auto intro: split_whitespace_is_word)
  then show ?thesis by (auto simp: deny_rule_hits_def list_ex_iff)
qed

definition effective_denied :: "exec_policy_engine \<Rightarrow> string set" where
  "effective_denied e = (\<Union>rs \<in> set (rulesets e). set (rs_denied_prefixes rs)) \<union> set (denied_prefixes e)"

lemma resolve_denied_set: "set (snd (resolve_prefixes e)) = effective_denied e"
  by (auto simp: resolve_prefixes_def effective_denied_def)

definition is_forbidden :: "exec_policy_decision \<Rightarrow> bool" where
  "is_forbidden d \<longleftrightarrow> \<not> dec_allow d \<and> \<not> dec_requires_approval d
     \<and> requirement_phase (dec_requirement d) = ''forbidden''"

lemma forbidden_decision_forbidden [simp]: "is_forbidden (forbidden_decision r a w)"
  by (simp add: is_forbidden_def forbidden_decision_def)

lemma denied_rule_SomeI: "rule \<in> effective_denied e \<Longrightarrow> deny_rule_hits c rule \<Longrightarrow> denied_rule e c \<noteq> None"
  by (auto simp: denied_rule_def find_None_iff resolve_denied_set)

text \<open>
  C1: A denied prefix of any layer, or of the legacy list, forbids every command that has the prefix
  at a word boundary of the whole command or of any chained segment, whatever the trusted
  prefixes, typed rules and approval mode say.
\<close>

theorem denied_prefix_always_forbids:
  assumes "rule \<in> effective_denied e" "split_whitespace rule \<noteq> []"
    and "seg \<in> set (ctx_command ctx # command_segments (ctx_command ctx))"
    and "prefix (map lowercase (split_whitespace rule)) (map lowercase (split_whitespace seg))"
  shows "is_forbidden (check e ctx)"
proof -
  have "deny_rule_hits (ctx_command ctx) rule"
    using assms(2-4) by (auto simp: deny_rule_hits_words)
  with assms(1) have "denied_rule e (ctx_command ctx) \<noteq> None" by (rule denied_rule_SomeI)
  then show ?thesis by (cases e ctx rule: check_cases) simp_all
qed

definition shell_ctx :: "string \<Rightarrow> ask_for_approval \<Rightarrow> exec_policy_context" where
  "shell_ctx command mode = \<lparr>ctx_command = command, ctx_cwd = ''/workspace'',
     ctx_tool = Some ''exec_shell'', ctx_path = None, ctx_ask_for_approval = mode,
     ctx_sandbox_mode = Some ''workspace-write''\<rparr>"

theorem denied_prefix_always_forbids_witness:
  "is_forbidden (check (engine_new [''ls''] [''npm publish''])
     (shell_ctx ''ls && NPM  publish --tag x'' OnFailure))"
proof (rule denied_prefix_always_forbids)
  show "''npm publish'' \<in> effective_denied (engine_new [''ls''] [''npm publish''])"
    by (simp add: effective_denied_def engine_new_def)
  show "split_whitespace ''npm publish'' \<noteq> []" by code_simp
  show "''NPM  publish --tag x'' \<in> set (ctx_command (shell_ctx ''ls && NPM  publish --tag x'' OnFailure)
      # command_segments (ctx_command (shell_ctx ''ls && NPM  publish --tag x'' OnFailure)))"
    by code_simp
  show "prefix (map lowercase (split_whitespace ''npm publish''))
      (map lowercase (split_whitespace ''NPM  publish --tag x''))" by code_simp
qed

text \<open>
  C2: A typed rule with action deny forbids every invocation it applies to, also when it applies only
  to one segment of a chained command; no allow or ask rule of any layer or specificity and no
  trusted prefix can override it.
\<close>

theorem typed_deny_always_forbids:
  assumes "r \<in> ask_rules_of e" "ar_action r = PermDeny"
    and "ask_rule_applies e ctx r
      \<or> (command_is_chained (ctx_command ctx)
         \<and> (\<exists>seg \<in> set (command_segments (ctx_command ctx)).
              ask_rule_applies e (ctx\<lparr>ctx_command := seg\<rparr>) r))"
  shows "is_forbidden (check e ctx)"
  using assms(3)
proof
  assume "ask_rule_applies e ctx r"
  with assms(1,2) obtain r' where "matching_ask_rule e ctx = Some r'" "ar_action r' = PermDeny"
    using matching_ask_rule_deny by blast
  then show ?thesis by (cases e ctx rule: check_cases) auto
next
  assume h: "command_is_chained (ctx_command ctx) \<and>
    (\<exists>seg \<in> set (command_segments (ctx_command ctx)). ask_rule_applies e (ctx\<lparr>ctx_command := seg\<rparr>) r)"
  then obtain seg r' where "seg \<in> set (command_segments (ctx_command ctx))"
    "matching_ask_rule e (ctx\<lparr>ctx_command := seg\<rparr>) = Some r'" "ar_action r' = PermDeny"
    using matching_ask_rule_deny assms(1,2) by blast
  then have "segment_deny e ctx (command_segments (ctx_command ctx)) \<noteq> None"
    unfolding segment_deny_None by blast
  with h show ?thesis by (cases e ctx rule: check_cases) auto
qed

definition deny_push_rule :: tool_ask_rule where
  "deny_push_rule = (ask_rule_exec_shell ''git push'')\<lparr>ar_action := PermDeny\<rparr>"

definition allow_log_rule :: tool_ask_rule where
  "allow_log_rule = (ask_rule_exec_shell ''git log'')\<lparr>ar_action := PermAllow\<rparr>"

definition example_engine :: "tool_ask_rule list \<Rightarrow> exec_policy_engine" where
  "example_engine rules = engine_with_rulesets [with_ask_rules (ruleset_user [''git''] []) rules]"

lemma example_engine_simps:
  "rulesets (example_engine rules) = [with_ask_rules (ruleset_user [''git''] []) rules]"
  "trusted_prefixes (example_engine rules) = []" "denied_prefixes (example_engine rules) = []"
  "arity_dict (example_engine rules) = dict_new"
  by (simp_all add: example_engine_def engine_with_rulesets_def)

theorem typed_deny_always_forbids_witness:
  "is_forbidden (check (example_engine [allow_log_rule, deny_push_rule])
     (shell_ctx ''git log ; git push'' OnFailure))"
proof (rule typed_deny_always_forbids)
  let ?e = "example_engine [allow_log_rule, deny_push_rule]"
  let ?c = "shell_ctx ''git log ; git push'' OnFailure"
  show "deny_push_rule \<in> ask_rules_of ?e"
    by (simp add: ask_rules_of_def example_engine_simps with_ask_rules_def)
  show "ar_action deny_push_rule = PermDeny" by (simp add: deny_push_rule_def)
  have "''git push'' \<in> set (command_segments (ctx_command ?c))" "command_is_chained (ctx_command ?c)"
    by code_simp+
  moreover have "allow_rule_matches dict_new ''git push'' ''git push''"
    unfolding allow_rule_matches_dict_new by code_simp
  then have "ask_rule_applies ?e (?c\<lparr>ctx_command := ''git push''\<rparr>) deny_push_rule"
    by (simp add: ask_rule_applies_def rule_command_matches_def rule_path_matches_def
        ctx_tool_name_def shell_ctx_def deny_push_rule_def ask_rule_exec_shell_def example_engine_simps)
  ultimately show "ask_rule_applies ?e ?c deny_push_rule
      \<or> (command_is_chained (ctx_command ?c)
         \<and> (\<exists>seg \<in> set (command_segments (ctx_command ?c)).
              ask_rule_applies ?e (?c\<lparr>ctx_command := seg\<rparr>) deny_push_rule))" by blast
qed

section \<open>When a command runs without approval\<close>

definition runs_unasked :: "exec_policy_decision \<Rightarrow> bool" where
  "runs_unasked d \<longleftrightarrow> dec_allow d \<and> \<not> dec_requires_approval d"

lemma mode_decision_unasked:
  "runs_unasked (mode_decision ctx r t) \<longleftrightarrow>
     (r = None \<and> (ctx_ask_for_approval ctx = Never \<or> ctx_ask_for_approval ctx = OnFailure
       \<or> (ctx_ask_for_approval ctx = UnlessTrusted \<and> t \<noteq> None)))"
  by (cases "ctx_ask_for_approval ctx"; cases r; cases t)
    (auto simp: runs_unasked_def mode_decision_def mode_requirement_def rejects_rules_def Let_def)

lemma trusted_rule_SomeD:
  assumes "trusted_rule e c = Some rule"
  shows "\<not> command_is_chained c" "rule \<in> set (fst (resolve_prefixes e))"
    "allow_rule_matches (arity_dict e) rule c"
  using assms by (auto simp: trusted_rule_def find_Some_iff split: if_splits)

text \<open>
  C3: A command runs without asking only for one of four reasons: a typed allow rule applies to it;
  or no typed rule applies and the mode is \<open>Never\<close>, or \<open>OnFailure\<close>, or it is \<open>UnlessTrusted\<close> and a
  trusted prefix matches a command that is a single segment. In every case no denied prefix hits it.
\<close>

theorem unasked_only_when_permitted:
  assumes "runs_unasked (check e ctx)"
  shows "denied_rule e (ctx_command ctx) = None \<and>
    ((\<exists>r \<in> ask_rules_of e. ar_action r = PermAllow \<and> ask_rule_applies e ctx r)
     \<or> ((\<forall>r \<in> ask_rules_of e. \<not> ask_rule_applies e ctx r)
        \<and> (ctx_ask_for_approval ctx = Never \<or> ctx_ask_for_approval ctx = OnFailure
          \<or> (ctx_ask_for_approval ctx = UnlessTrusted \<and> \<not> command_is_chained (ctx_command ctx)
             \<and> (\<exists>rule \<in> set (fst (resolve_prefixes e)).
                  allow_rule_matches (arity_dict e) rule (ctx_command ctx))))))"
proof (cases e ctx rule: check_cases)
  case (rule_allow rule)
  then show ?thesis using matching_ask_rule_SomeD [OF rule_allow(3)] by blast
next
  case mode
  with assms have m: "matching_ask_rule e ctx = None"
    "ctx_ask_for_approval ctx = Never \<or> ctx_ask_for_approval ctx = OnFailure
       \<or> (ctx_ask_for_approval ctx = UnlessTrusted \<and> trusted_rule e (ctx_command ctx) \<noteq> None)"
    by (simp_all add: mode_decision_unasked)
  then have "\<forall>r \<in> ask_rules_of e. \<not> ask_rule_applies e ctx r"
    by (simp add: matching_ask_rule_None)
  with m(2) mode(1) trusted_rule_SomeD show ?thesis by blast
qed (use assms in \<open>simp_all add: runs_unasked_def forbidden_decision_def\<close>)

theorem unasked_only_when_permitted_witness:
  "runs_unasked (check (engine_new [''git status''] []) (shell_ctx ''git status -s'' UnlessTrusted))
   \<and> \<not> command_is_chained ''git status -s''"
proof -
  let ?e = "engine_new [''git status''] []" and ?c = "shell_ctx ''git status -s'' UnlessTrusted"
  have "allow_rule_matches dict_new ''git status'' ''git status -s''" "\<not> command_is_chained ''git status -s''"
    unfolding allow_rule_matches_dict_new by code_simp+
  then have "runs_unasked (check ?e ?c)"
    by (simp add: check_def denied_rule_def resolve_prefixes_def engine_new_def shell_ctx_def
        matching_ask_rule_def layered_ask_rules_def max_by_key_def mode_decision_unasked trusted_rule_def)
  then show ?thesis using unasked_only_when_permitted [of ?e ?c]
    by (auto simp: ask_rules_of_def engine_new_def shell_ctx_def)
qed

text \<open>The shell's background operator does not end a segment, so the command after it is neither
  matched against the denied prefixes nor counted as a chain.\<close>

lemma background_job_escapes_the_deny_list:
  "runs_unasked (check (engine_new [''git log''] [''rm'']) (shell_ctx ''git log & rm -rf /'' UnlessTrusted))"
proof -
  let ?e = "engine_new [''git log''] [''rm'']" and ?c = "shell_ctx ''git log & rm -rf /'' UnlessTrusted"
  have "allow_rule_matches dict_new ''git log'' ''git log & rm -rf /''"
    "\<not> command_is_chained ''git log & rm -rf /''" "\<not> deny_rule_hits ''git log & rm -rf /'' ''rm''"
    unfolding allow_rule_matches_dict_new by code_simp+
  then show ?thesis
    by (simp add: check_def denied_rule_def resolve_prefixes_def engine_new_def shell_ctx_def
        matching_ask_rule_def layered_ask_rules_def max_by_key_def mode_decision_unasked trusted_rule_def)
qed

text \<open>
  A typed rule with action allow approves the whole command, chained or not: when it is the
  selected rule and nothing denies, the command runs unasked. The test that keeps trusted prefixes
  off chained commands is not made here, so an allow rule for \<open>git log\<close> lets
  \<open>git log ; rm -rf /\<close> run unasked.
\<close>

theorem typed_allow_approves_whole_chain:
  assumes "denied_rule e (ctx_command ctx) = None"
    and "segment_deny e ctx (command_segments (ctx_command ctx)) = None"
    and "matching_ask_rule e ctx = Some r" "ar_action r = PermAllow"
  shows "runs_unasked (check e ctx)"
  using assms by (cases e ctx rule: check_cases) (auto simp: runs_unasked_def)

lemma matching_ask_rule_example:
  "matching_ask_rule (example_engine rules) ctx =
     map_option snd (max_by_key rule_priority
       (map (\<lambda>r. (User, r)) (filter (ask_rule_applies (example_engine rules) ctx) rules)))"
  by (simp add: matching_ask_rule_def layered_ask_rules_def example_engine_simps with_ask_rules_def
      ruleset_user_def filter_map comp_def)

lemma allow_log_applies:
  "ask_rule_applies (example_engine rules) (shell_ctx c m) allow_log_rule
     = allow_rule_matches \<lparr>entries = BASH_ARITY_TABLE\<rparr> ''git log'' c"
  by (simp add: ask_rule_applies_def rule_command_matches_def rule_path_matches_def
      ctx_tool_name_def shell_ctx_def allow_log_rule_def ask_rule_exec_shell_def example_engine_simps
      allow_rule_matches_dict_new)

theorem typed_allow_approves_whole_chain_witness:
  "command_is_chained ''git log ; rm -rf /''
   \<and> runs_unasked (check (example_engine [allow_log_rule])
        (shell_ctx ''git log ; rm -rf /'' UnlessTrusted))"
proof -
  let ?e = "example_engine [allow_log_rule]" and ?c = "shell_ctx ''git log ; rm -rf /'' UnlessTrusted"
  have d: "denied_rule ?e (ctx_command ?c) = None"
    by (simp add: denied_rule_def resolve_prefixes_def example_engine_simps with_ask_rules_def
        ruleset_user_def)
  have segs: "command_segments (ctx_command ?c) = [''git log'', ''rm -rf /'']" by code_simp
  have m: "allow_rule_matches \<lparr>entries = BASH_ARITY_TABLE\<rparr> ''git log'' ''git log ; rm -rf /''"
    "allow_rule_matches \<lparr>entries = BASH_ARITY_TABLE\<rparr> ''git log'' ''git log''"
    "\<not> allow_rule_matches \<lparr>entries = BASH_ARITY_TABLE\<rparr> ''git log'' ''rm -rf /''"
    by code_simp+
  have up: "?c\<lparr>ctx_command := s\<rparr> = shell_ctx s UnlessTrusted" for s by (simp add: shell_ctx_def)
  have s: "segment_deny ?e ?c (command_segments (ctx_command ?c)) = None"
    unfolding segs
    by (simp add: up matching_ask_rule_example allow_log_applies m max_by_key_def)
      (simp add: allow_log_rule_def)
  have a: "matching_ask_rule ?e ?c = Some allow_log_rule"
    by (simp add: matching_ask_rule_example allow_log_applies m max_by_key_def)
  have "runs_unasked (check ?e ?c)"
    by (rule typed_allow_approves_whole_chain [OF d s a]) (simp add: allow_log_rule_def)
  moreover have "command_is_chained ''git log ; rm -rf /''" by code_simp
  ultimately show ?thesis by blast
qed

section \<open>Session approvals\<close>

text \<open>
  Recording a session approval changes no decision of \<open>check\<close>: the set of approved keys is read
  by \<open>is_session_approved\<close> alone, so skipping the approval is left to the caller.
\<close>

theorem session_approval_not_consulted:
  "check (remember_session_approval e key) ctx = check e ctx
   \<and> is_session_approved (remember_session_approval e key) key"
proof -
  let ?e = "remember_session_approval e key"
  have f: "rulesets ?e = rulesets e" "trusted_prefixes ?e = trusted_prefixes e"
    "denied_prefixes ?e = denied_prefixes e" "arity_dict ?e = arity_dict e"
    by (simp_all add: remember_session_approval_def)
  have app: "ask_rule_applies ?e c = ask_rule_applies e c" for c
    by (simp add: fun_eq_iff ask_rule_applies_def rule_command_matches_def f split: option.split)
  then have m: "matching_ask_rule ?e c = matching_ask_rule e c" for c
    by (simp add: matching_ask_rule_def layered_ask_rules_def f)
  have sd: "segment_deny ?e c ss = segment_deny e c ss" for c ss
    by (induction ss) (simp_all add: m split: option.split)
  have pr: "denied_rule ?e c = denied_rule e c" "trusted_rule ?e c = trusted_rule e c" for c
    by (simp_all add: denied_rule_def trusted_rule_def resolve_prefixes_def f)
  have "check ?e ctx = check e ctx"
    unfolding check_def m sd pr by (rule refl)
  then show ?thesis by (simp add: is_session_approved_def remember_session_approval_def)
qed

section \<open>Adding rulesets\<close>

text \<open>The whole of \<open>check\<close>'s \<open>allow\<close> flag, as a condition on the engine.\<close>

lemma mode_decision_allow:
  "dec_allow (mode_decision ctx r t) \<longleftrightarrow>
     \<not> rejects_rules (ctx_ask_for_approval ctx) \<and> \<not> (ctx_ask_for_approval ctx = Never \<and> r \<noteq> None)"
  by (cases "ctx_ask_for_approval ctx"; cases r)
    (auto simp: mode_decision_def mode_requirement_def rejects_rules_def Let_def split: bool.splits)

lemma check_allow_iff:
  "dec_allow (check e ctx) \<longleftrightarrow>
     denied_rule e (ctx_command ctx) = None
     \<and> (command_is_chained (ctx_command ctx) \<longrightarrow>
          segment_deny e ctx (command_segments (ctx_command ctx)) = None)
     \<and> (case matching_ask_rule e ctx of
          None \<Rightarrow> \<not> rejects_rules (ctx_ask_for_approval ctx)
        | Some r \<Rightarrow> (case ar_action r of PermDeny \<Rightarrow> False | PermAllow \<Rightarrow> True
            | PermAsk \<Rightarrow> \<not> rejects_rules (ctx_ask_for_approval ctx) \<and> ctx_ask_for_approval ctx \<noteq> Never))"
  by (cases e ctx rule: check_cases)
    (auto simp: forbidden_decision_def mode_decision_allow split: option.splits permission_action.splits)

lemma rulesets_add: "set (rulesets (add_ruleset e rs)) = insert rs (set (rulesets e))"
  by (auto simp: add_ruleset_def)

lemma add_ruleset_sets:
  "ask_rules_of (add_ruleset e rs) = ask_rules_of e \<union> set (rs_ask_rules rs)"
  "effective_denied (add_ruleset e rs) = effective_denied e \<union> set (rs_denied_prefixes rs)"
  unfolding ask_rules_of_def effective_denied_def rulesets_add
  by (auto simp: add_ruleset_def)

lemma ask_rule_applies_add: "ask_rule_applies (add_ruleset e rs) = ask_rule_applies e"
  by (simp add: fun_eq_iff ask_rule_applies_def rule_command_matches_def add_ruleset_def
      split: option.split)

lemma PermAllow_min: "a \<le> PermAllow \<longleftrightarrow> a = PermAllow" "a \<noteq> PermAllow \<Longrightarrow> PermAsk \<le> a"
  by (cases a; simp add: less_eq_permission_action_def)+

text \<open>A ruleset without allow rules can only raise the action of the selected rule.\<close>

lemma add_ruleset_selection:
  assumes "\<forall>r \<in> set (rs_ask_rules rs). ar_action r \<noteq> PermAllow"
  shows "case matching_ask_rule (add_ruleset e rs) ctx of
      None \<Rightarrow> matching_ask_rule e ctx = None
    | Some r \<Rightarrow> (case matching_ask_rule e ctx of None \<Rightarrow> ar_action r \<noteq> PermAllow
        | Some r0 \<Rightarrow> ar_action r0 \<le> ar_action r)"
proof (cases "matching_ask_rule (add_ruleset e rs) ctx")
  case None
  then have "matching_ask_rule e ctx = None"
    by (auto simp: matching_ask_rule_None add_ruleset_sets ask_rule_applies_add)
  with None show ?thesis by simp
next
  case (Some r)
  note S = matching_ask_rule_SomeD [OF Some, unfolded ask_rule_applies_add add_ruleset_sets]
  show ?thesis
  proof (cases "matching_ask_rule e ctx")
    case None
    then have "r \<in> set (rs_ask_rules rs)" using S(1,2) by (auto simp: matching_ask_rule_None)
    with assms Some None show ?thesis by simp
  next
    case (Some r0)
    then have "r0 \<in> ask_rules_of e" "ask_rule_applies e ctx r0"
      by (auto dest: matching_ask_rule_SomeD)
    with S(3) Some \<open>matching_ask_rule (add_ruleset e rs) ctx = Some r\<close> show ?thesis by simp
  qed
qed

text \<open>
  Adding a ruleset that holds no typed allow rule never makes a forbidden command allowed, at
  whatever layer it is added and whatever trusted prefixes it brings.
\<close>

theorem add_ruleset_never_widens:
  assumes "\<forall>r \<in> set (rs_ask_rules rs). ar_action r \<noteq> PermAllow"
    and "dec_allow (check (add_ruleset e rs) ctx)"
  shows "dec_allow (check e ctx)"
proof -
  note sel = add_ruleset_selection [OF assms(1), of e]
  note allow = assms(2) [unfolded check_allow_iff]
  have "denied_rule e (ctx_command ctx) = None"
    using allow by (auto simp: denied_rule_def find_None_iff resolve_denied_set add_ruleset_sets)
  moreover have "segment_deny e ctx segs = None" if "segment_deny (add_ruleset e rs) ctx segs = None" for segs
    unfolding segment_deny_None
  proof (intro ballI allI impI)
    fix seg r assume seg: "seg \<in> set segs" and "matching_ask_rule e (ctx\<lparr>ctx_command := seg\<rparr>) = Some r"
    with sel [of "ctx\<lparr>ctx_command := seg\<rparr>"] obtain r' where
      "matching_ask_rule (add_ruleset e rs) (ctx\<lparr>ctx_command := seg\<rparr>) = Some r'" "ar_action r \<le> ar_action r'"
      by (auto split: option.splits)
    with that seg show "ar_action r \<noteq> PermDeny" unfolding segment_deny_None by (metis PermDeny_max)
  qed
  moreover from sel [of ctx] allow PermAllow_min PermDeny_max
  have "case matching_ask_rule e ctx of
          None \<Rightarrow> \<not> rejects_rules (ctx_ask_for_approval ctx)
        | Some r \<Rightarrow> (case ar_action r of PermDeny \<Rightarrow> False | PermAllow \<Rightarrow> True
            | PermAsk \<Rightarrow> \<not> rejects_rules (ctx_ask_for_approval ctx) \<and> ctx_ask_for_approval ctx \<noteq> Never)"
    by (auto split: option.splits permission_action.splits)
  ultimately show ?thesis using allow by (simp add: check_allow_iff)
qed

theorem add_ruleset_never_widens_witness:
  "dec_allow (check (engine_new [] []) (shell_ctx ''git log'' OnFailure))"
proof (rule add_ruleset_never_widens [where rs = "ruleset_user [''git''] [''npm publish'']"])
  show "\<forall>r \<in> set (rs_ask_rules (ruleset_user [''git''] [''npm publish''])). ar_action r \<noteq> PermAllow"
    by (simp add: ruleset_user_def)
  have "\<not> deny_rule_hits ''git log'' ''npm publish''" by code_simp
  then show "dec_allow (check (add_ruleset (engine_new [] []) (ruleset_user [''git''] [''npm publish'']))
     (shell_ctx ''git log'' OnFailure))"
    by (simp add: check_allow_iff denied_rule_def resolve_prefixes_def add_ruleset_def engine_new_def
        ruleset_user_def shell_ctx_def segment_deny_None matching_ask_rule_def layered_ask_rules_def
        max_by_key_def rejects_rules_def)
qed

lemma sort_key_snoc: "sort_key f (sort_key f xs @ [x]) = sort_key f (xs @ [x])"
proof (rule properties_for_sort_key)
  fix k
  have st: "filter (\<lambda>y. f k = f y) (sort_key f ys) = filter (\<lambda>y. f k = f y) ys" for ys
    by (rule filter_sort_key_class) simp
  show "filter (\<lambda>y. f k = f y) (sort_key f (xs @ [x])) = filter (\<lambda>y. f k = f y) (sort_key f xs @ [x])"
    by (simp only: filter_append st)
qed simp_all

text \<open>
  Building an engine from a list of rulesets and adding them one after the other give the same
  engine, with the rulesets of one layer kept in the order given.
\<close>

theorem with_rulesets_is_iterated_add:
  "engine_with_rulesets rss = foldl add_ruleset (engine_new [] []) rss"
proof (induction rss rule: rev_induct)
  case Nil
  show ?case by (simp add: engine_with_rulesets_def engine_new_def)
next
  case (snoc rs rss)
  have "engine_with_rulesets (rss @ [rs]) = add_ruleset (engine_with_rulesets rss) rs"
    by (simp add: engine_with_rulesets_def add_ruleset_def sort_key_snoc del: sort_key_simps)
  then show ?case by (simp add: snoc)
qed

end
