(* ===== verification/Command_Safety.thy ===== *)
theory Command_Safety
  imports Bash_Arity
begin

text \<open>
  \<open>crates/tui/src/command_safety.rs\<close>: the analysis of a shell command before it runs. \<open>shlex::split\<close>
  belongs to another package and is the parameter \<open>sh\<close>; when it fails the code splits at white space
  and strips quotes. Strings hold bytes, the dash of one message its three bytes in UTF-8.
\<close>

section \<open>Canonical prefixes\<close>

text \<open>The table shares its groups with \<open>bash_arity.rs\<close>, the interpreters and \<open>make\<close> excepted.\<close>

definition interpreter_arity :: "(string \<times> nat) list" where
  "interpreter_arity =
     [(''pip install'', 2), (''pip uninstall'', 2), (''pip list'', 2), (''pip show'', 2),
      (''pip freeze'', 2), (''pip3 install'', 2), (''pip3 uninstall'', 2), (''pip3 list'', 2),
      (''pip3 show'', 2), (''python'', 2), (''python3'', 2), (''make'', 1)]"

definition COMMAND_ARITY :: "(string \<times> nat) list" where
  "COMMAND_ARITY =
     git_arity @ npm_arity @ yarn_arity @ pnpm_arity @ cargo_arity @ docker_arity @ kubectl_arity
     @ go_arity @ interpreter_arity @ gh_arity @ rustup_arity @ deno_arity"

definition classify_command :: "string list \<Rightarrow> string" where
  "classify_command tokens =
     (if tokens = [] then []
      else let pos = positional tokens in
        if pos = [] then []
        else case classify_depth COMMAND_ARITY pos (min (length pos) 3) of
               Some r \<Rightarrow> r
             | None \<Rightarrow> hd pos)"

definition collapse :: "string \<Rightarrow> string" where
  "collapse s = join_with '' '' (split_whitespace (lowercase (trim s)))"

definition prefix_allow_matches :: "string \<Rightarrow> string \<Rightarrow> bool" where
  "prefix_allow_matches pattern command =
     (let pattern_norm = collapse pattern;
          tokens = split_whitespace command
      in if tokens = [] then pattern_norm = []
         else if classify_command tokens = pattern_norm then True
         else let command_norm = collapse command
              in command_norm = pattern_norm \<or> prefix (pattern_norm @ '' '') command_norm)"

section \<open>Words and segments\<close>

fun str_contains :: "string \<Rightarrow> string \<Rightarrow> bool" where
  "str_contains p [] \<longleftrightarrow> p = []"
| "str_contains p (c # cs) \<longleftrightarrow> prefix p (c # cs) \<or> str_contains p cs"

definition is_quote :: "char \<Rightarrow> bool" where
  "is_quote c \<longleftrightarrow> c = CHR 0x22 \<or> c = CHR 0x27"

type_synonym shlex = "string \<Rightarrow> string list option"

definition shell_words :: "shlex \<Rightarrow> string \<Rightarrow> string list" where
  "shell_words sh segment =
     (case sh segment of
        Some ws \<Rightarrow> ws
      | None \<Rightarrow> map (trim_matches is_quote) (split_whitespace segment))"

definition is_env_assignment :: "string \<Rightarrow> bool" where
  "is_env_assignment token =
     (case split_once CHR ''='' token of
        None \<Rightarrow> False
      | Some (name, _) \<Rightarrow>
          name \<noteq> [] \<and> list_all (\<lambda>ch. ch = CHR ''_'' \<or> is_ascii_alphanumeric ch) name
          \<and> (hd name = CHR ''_'' \<or> is_ascii_alphabetic (hd name)))"

definition env_argument :: "string \<Rightarrow> bool" where
  "env_argument t \<longleftrightarrow> prefix ''-'' t \<or> is_env_assignment t"

fun primary_token_index :: "string list \<Rightarrow> nat option" where
  "primary_token_index [] = None"
| "primary_token_index (t # ts) =
     (if t = ''env''
      then let n = length (takeWhile env_argument ts)
           in map_option (\<lambda>i. Suc (n + i)) (primary_token_index (drop n ts))
      else if is_env_assignment t then map_option Suc (primary_token_index ts)
      else Some 0)"

definition split_command_segments :: "string \<Rightarrow> string list" where
  "split_command_segments command =
     filter (\<lambda>segment. segment \<noteq> [])
       (map trim (split_on CHR 0x0A
          (str_replace '';'' [CHR 0x0A] (str_replace ''||'' [CHR 0x0A] (str_replace ''&&'' [CHR 0x0A] command)))))"

text \<open>The word a segment runs, after \<open>env\<close> and assignments.\<close>

definition primary_word :: "shlex \<Rightarrow> string \<Rightarrow> string option" where
  "primary_word sh segment =
     (let tokens = shell_words sh segment
      in map_option (\<lambda>i. tokens ! i) (primary_token_index tokens))"

definition primary_shell_command_is :: "shlex \<Rightarrow> string \<Rightarrow> string \<Rightarrow> bool" where
  "primary_shell_command_is sh command expected \<longleftrightarrow>
     list_ex (\<lambda>segment. primary_word sh segment = Some expected) (split_command_segments command)"

text \<open>\<open>slice::windows(2)\<close>.\<close>

definition windows2 :: "'a list \<Rightarrow> ('a \<times> 'a) list" where
  "windows2 xs = zip xs (tl xs)"

section \<open>Commands that may run in parallel unasked\<close>

definition PARALLEL_READONLY_PREFIXES :: "string list" where
  "PARALLEL_READONLY_PREFIXES =
     [''git status'', ''git log'', ''git diff'', ''git show'', ''git ls-files'', ''git blame'',
      ''git grep'', ''ls'', ''pwd'', ''cat'', ''head'', ''tail'', ''wc'', ''which'', ''stat'',
      ''file'', ''du'', ''df'', ''grep'', ''rg'', ''fd'']"

definition shell_operator :: "char \<Rightarrow> bool" where
  "shell_operator ch \<longleftrightarrow> ch = CHR 0x0A \<or> ch = CHR 0x0D \<or> ch = CHR '';'' \<or> ch = CHR ''&'' \<or> ch = CHR ''|''
     \<or> ch = CHR ''>'' \<or> ch = CHR ''<'' \<or> ch = CHR 0x60"

definition is_codewhale_readonly_invocation :: "string list \<Rightarrow> bool" where
  "is_codewhale_readonly_invocation tokens =
     (case tokens of
        [] \<Rightarrow> False
      | command # args \<Rightarrow>
          (command = ''codewhale'' \<or> command = ''codew'')
          \<and> (args = [''--version''] \<or> args = [''-V''] \<or> args = [''-v''] \<or> args = [''--help''] \<or> args = [''-h'']))"

definition readonly_shell_wrapper_inner_command :: "string list \<Rightarrow> string option" where
  "readonly_shell_wrapper_inner_command tokens =
     (case tokens of
        [shell, flag, inner] \<Rightarrow>
          if (shell = ''bash'' \<or> shell = ''sh'' \<or> shell = ''zsh'') \<and> (flag = ''-c'' \<or> flag = ''-lc'')
          then Some inner else None
      | _ \<Rightarrow> None)"

definition follows :: "string \<Rightarrow> bool" where
  "follows token \<longleftrightarrow> token = ''-f'' \<or> token = ''-F'' \<or> token = ''--follow'' \<or> prefix ''--follow='' token"

definition readonly_words :: "string list \<Rightarrow> bool" where
  "readonly_words tokens =
     (if is_codewhale_readonly_invocation tokens then True
      else let canonical = classify_command tokens
           in if canonical = ''tail'' \<and> list_ex follows (drop 1 tokens) then False
              else list_ex (\<lambda>prefix. prefix = canonical) PARALLEL_READONLY_PREFIXES)"

text \<open>The tokens from the primary word on, when the text is free of operators.\<close>

definition plain_tokens :: "shlex \<Rightarrow> string \<Rightarrow> string list option" where
  "plain_tokens sh command =
     (let trimmed = trim command
      in if trimmed = [] then None
         else if str_contains ''$('' trimmed \<or> list_ex shell_operator trimmed then None
         else let tokens = shell_words sh trimmed
              in map_option (\<lambda>start. drop start tokens) (primary_token_index tokens))"

partial_function (option) is_parallel_readonly_command :: "shlex \<Rightarrow> string \<Rightarrow> bool option" where
  "is_parallel_readonly_command sh command =
     (case plain_tokens sh command of
        None \<Rightarrow> Some False
      | Some tokens \<Rightarrow>
          (case readonly_shell_wrapper_inner_command tokens of
             Some inner_command \<Rightarrow> is_parallel_readonly_command sh inner_command
           | None \<Rightarrow> Some (readonly_words tokens)))"

section \<open>Levels and tables\<close>

datatype safety_level = Safe | WorkspaceSafe | RequiresApproval | Dangerous

record safety_analysis =
  sa_level :: safety_level
  sa_reasons :: "string list"
  sa_suggestions :: "string list"

definition analysis_safe :: safety_analysis where
  "analysis_safe = \<lparr>sa_level = Safe, sa_reasons = [''Command is read-only''], sa_suggestions = []\<rparr>"

definition analysis_workspace_safe :: "string \<Rightarrow> safety_analysis" where
  "analysis_workspace_safe reason =
     \<lparr>sa_level = WorkspaceSafe, sa_reasons = [reason], sa_suggestions = []\<rparr>"

definition analysis_requires_approval :: "string list \<Rightarrow> safety_analysis" where
  "analysis_requires_approval reasons =
     \<lparr>sa_level = RequiresApproval, sa_reasons = reasons, sa_suggestions = []\<rparr>"

definition analysis_dangerous :: "string list \<Rightarrow> string list \<Rightarrow> safety_analysis" where
  "analysis_dangerous reasons suggestions =
     \<lparr>sa_level = Dangerous, sa_reasons = reasons, sa_suggestions = suggestions\<rparr>"

definition SAFE_COMMANDS :: "string list" where
  "SAFE_COMMANDS =
     [''ls'', ''dir'', ''pwd'', ''cd'', ''cat'', ''head'', ''tail'', ''less'', ''more'',
      ''grep'', ''rg'', ''ag'', ''find'', ''fd'', ''which'', ''whereis'', ''type'', ''echo'',
      ''printf'', ''date'', ''cal'', ''uptime'', ''whoami'', ''id'', ''hostname'', ''uname'',
      ''env'', ''printenv'', ''set'', ''ps'', ''top'', ''htop'', ''df'', ''du'', ''free'',
      ''vmstat'', ''wc'', ''sort'', ''uniq'', ''cut'', ''tr'', ''awk'', ''sed'', ''diff'',
      ''file'', ''stat'', ''md5'', ''sha1sum'', ''sha256sum'', ''git status'', ''git log'',
      ''git diff'', ''git show'', ''git branch'', ''git remote'', ''git tag'',
      ''git stash list'', ''npm list'', ''npm ls'', ''npm outdated'', ''npm view'',
      ''cargo check'', ''cargo test'', ''cargo build'', ''cargo doc'', ''python --version'',
      ''node --version'', ''rustc --version'', ''man'', ''help'', ''info'']"

definition WORKSPACE_SAFE_COMMANDS :: "string list" where
  "WORKSPACE_SAFE_COMMANDS =
     [''mkdir'', ''touch'', ''cp'', ''mv'', ''git add'', ''git commit'', ''git checkout'',
      ''git switch'', ''git restore'', ''git merge'', ''git rebase'', ''git cherry-pick'',
      ''git reset --soft'', ''npm install'', ''npm ci'', ''npm update'', ''cargo build'',
      ''cargo run'', ''cargo test'', ''cargo fmt'', ''pip install'', ''pip uninstall'',
      ''make'', ''cmake'', ''ninja'']"

definition PRIVILEGED_PATTERNS :: "string list" where
  "PRIVILEGED_PATTERNS =
     [''sudo'', ''su '', ''doas'', ''pkexec'', ''gksudo'', ''kdesudo'']"

definition NETWORK_COMMANDS :: "string list" where
  "NETWORK_COMMANDS =
     [''curl'', ''wget'', ''fetch'', ''nc'', ''netcat'', ''ncat'', ''ssh'', ''scp'', ''sftp'',
      ''rsync'', ''ftp'', ''ping'', ''traceroute'', ''nslookup'', ''dig'', ''host'', ''nmap'',
      ''masscan'', ''tcpdump'', ''wireshark'']"

definition KNOWN_SAFE_CHAIN_PREFIXES :: "string list" where
  "KNOWN_SAFE_CHAIN_PREFIXES =
     [''cargo'', ''rustc'', ''rustup'', ''git'', ''gh'', ''hub'', ''npm'', ''yarn'', ''pnpm'',
      ''node'', ''npx'', ''zig'', ''go'', ''deno'', ''bun'', ''make'', ''cmake'', ''ninja'',
      ''meson'', ''python'', ''python3'', ''pip'', ''pip3'', ''uv'', ''poetry'', ''ls'',
      ''pwd'', ''cd'', ''echo'', ''cat'', ''head'', ''tail'', ''grep'', ''rg'', ''find'',
      ''fd'', ''wc'', ''sort'', ''uniq'', ''which'', ''env'', ''true'', ''false'']"

definition DANGEROUS_PATTERNS :: "(string \<times> string) list" where
  "DANGEROUS_PATTERNS =
     [(''rm -rf /'', ''Attempts to recursively delete root filesystem''),
      (''rm -rf /*'', ''Attempts to recursively delete all root directories''),
      (''rm -rf ~'', ''Attempts to recursively delete home directory''),
      (''rm -rf $HOME'', ''Attempts to recursively delete home directory''),
      ('':(){ :|:& };:'',
       ''Fork bomb '' @ [CHR 0xE2, CHR 0x80, CHR 0x94] @ '' will crash the system'')]"

section \<open>Destructive commands\<close>

definition with_slashes :: "string \<Rightarrow> string" where
  "with_slashes s = map (\<lambda>c. if c = CHR 0x5C then CHR ''/'' else c) s"

definition is_root_delete_target :: "string \<Rightarrow> bool" where
  "is_root_delete_target target =
     (let normalized = with_slashes (trim_matches is_quote target)
      in normalized = ''/'' \<or> normalized = ''/*'' \<or> normalized = ''//''
         \<or> prefix ''/*/'' normalized \<or> prefix ''/.'' normalized)"

definition is_home_delete_target :: "string \<Rightarrow> bool" where
  "is_home_delete_target target =
     (let lower = lowercase (with_slashes (trim_matches is_quote target))
      in lower = ''~'' \<or> prefix ''~/'' lower \<or> lower = ''$home'' \<or> prefix ''$home/'' lower
         \<or> lower = ''${home}'' \<or> prefix ''${home}/'' lower)"

definition target_contains_parent_escape :: "string \<Rightarrow> bool" where
  "target_contains_parent_escape target =
     list_ex (\<lambda>component. component = ''..'') (split_on CHR ''/'' (with_slashes target))"

record rm_scan =
  rm_recursive :: bool
  rm_force :: bool
  rm_targets :: "string list"

definition scan_rm_arg :: "string \<Rightarrow> rm_scan \<Rightarrow> rm_scan" where
  "scan_rm_arg arg s =
     (if arg = ''--'' then s
      else if arg = ''--recursive'' \<or> arg = ''--dir'' then s\<lparr>rm_recursive := True\<rparr>
      else if arg = ''--force'' then s\<lparr>rm_force := True\<rparr>
      else if prefix ''-'' arg \<and> \<not> prefix ''--'' arg
      then s\<lparr>rm_recursive := (rm_recursive s \<or> list_ex (\<lambda>ch. ch = CHR ''r'' \<or> ch = CHR ''R'') arg),
             rm_force := (rm_force s \<or> list_ex (\<lambda>ch. ch = CHR ''f'') arg)\<rparr>
      else s\<lparr>rm_targets := rm_targets s @ [arg]\<rparr>)"

definition target_reason :: "string \<Rightarrow> string option" where
  "target_reason target =
     (if is_root_delete_target target
      then Some ''Recursive or forced deletion targets the root filesystem''
      else if is_home_delete_target target
      then Some ''Recursive or forced deletion targets the home directory''
      else if target_contains_parent_escape target
      then Some ''Recursive or forced deletion may escape the workspace''
      else None)"

text \<open>The first result of a loop that returns from its body.\<close>

fun first_some :: "('a \<Rightarrow> 'b option) \<Rightarrow> 'a list \<Rightarrow> 'b option" where
  "first_some f [] = None"
| "first_some f (x # xs) = (case f x of Some y \<Rightarrow> Some y | None \<Rightarrow> first_some f xs)"

definition dangerous_rm_reason :: "string list \<Rightarrow> string option" where
  "dangerous_rm_reason args =
     (let s = fold scan_rm_arg args \<lparr>rm_recursive = False, rm_force = False, rm_targets = []\<rparr>
      in if \<not> (rm_recursive s \<or> rm_force s) then None
         else first_some target_reason (rm_targets s))"

definition broad_target :: "string \<Rightarrow> bool" where
  "broad_target target \<longleftrightarrow> is_root_delete_target target \<or> is_home_delete_target target
     \<or> target_contains_parent_escape target"

definition analyze_find_mutation :: "string list \<Rightarrow> safety_analysis option" where
  "analyze_find_mutation args =
     (let has_delete = list_ex (\<lambda>arg. arg = ''-delete'') args;
          execs_rm = list_ex (\<lambda>(a, b). a = ''-exec'' \<and> b = ''rm'') (windows2 args)
      in if \<not> (has_delete \<or> execs_rm) then None
         else let targets = takeWhile (\<lambda>arg. \<not> prefix ''-'' arg) args
              in if list_ex broad_target targets
                 then Some (analysis_dangerous [''find mutation targets a broad or external path'']
                   [''Restrict the find root to a workspace-relative path''])
                 else Some (analysis_requires_approval [''find command may delete files'']))"

definition left_fetches :: "string \<Rightarrow> bool" where
  "left_fetches left = (let l = lowercase left in str_contains ''curl'' l \<or> str_contains ''wget'' l)"

definition pipes_remote_content_to_shell :: "shlex \<Rightarrow> string \<Rightarrow> bool" where
  "pipes_remote_content_to_shell sh command \<longleftrightarrow>
     list_ex (\<lambda>segment.
       list_ex (\<lambda>(left, right). left_fetches left
           \<and> primary_word sh right \<in> {Some ''sh'', Some ''bash'', Some ''zsh''})
         (windows2 (split_on CHR ''|'' segment)))
     (split_command_segments command)"

definition remote_to_shell :: safety_analysis where
  "remote_to_shell =
     analysis_dangerous [''Piping remote content directly to shell is dangerous'']
       [''Download the script first and review it before execution'']"

definition analyze_segment :: "shlex \<Rightarrow> string \<Rightarrow> safety_analysis option" where
  "analyze_segment sh segment =
     (let tokens = shell_words sh segment
      in case primary_token_index tokens of
           None \<Rightarrow> None
         | Some start \<Rightarrow>
             if tokens ! start = ''rm''
             then map_option (\<lambda>reason. analysis_dangerous [reason]
                    [''Review the deletion target before retrying''])
                    (dangerous_rm_reason (drop (start + 1) tokens))
             else if tokens ! start = ''find'' then analyze_find_mutation (drop (start + 1) tokens)
             else None)"

definition analyze_destructive_patterns :: "shlex \<Rightarrow> string \<Rightarrow> safety_analysis option" where
  "analyze_destructive_patterns sh command =
     (if primary_shell_command_is sh command ''eval''
      then Some (analysis_dangerous [''Command invokes shell eval'']
             [''Avoid evaluating dynamically generated shell input''])
      else if pipes_remote_content_to_shell sh command then Some remote_to_shell
      else first_some (analyze_segment sh) (split_command_segments command))"

section \<open>The analysis\<close>

definition is_safe_command :: "shlex \<Rightarrow> string \<Rightarrow> bool" where
  "is_safe_command sh command =
     (let tokens = shell_words sh command
      in (case primary_token_index tokens of
            Some start \<Rightarrow> is_codewhale_readonly_invocation (drop start tokens)
          | None \<Rightarrow> False)
         \<or> list_ex (\<lambda>safe_cmd. prefix safe_cmd (lowercase command)) SAFE_COMMANDS)"

definition is_workspace_safe_command :: "string \<Rightarrow> bool" where
  "is_workspace_safe_command command =
     list_ex (\<lambda>ws_cmd. prefix ws_cmd (lowercase command)) WORKSPACE_SAFE_COMMANDS"

definition chain_head :: "string \<Rightarrow> string" where
  "chain_head seg =
     (case find (\<lambda>tok. CHR ''='' \<notin> set tok \<and> tok \<noteq> ''env'') (split_whitespace seg) of
        Some tok \<Rightarrow> tok | None \<Rightarrow> [])"

definition all_segments_known_safe :: "string \<Rightarrow> bool" where
  "all_segments_known_safe command =
     (let segments = split_command_segments command
      in if segments = [] then False
         else list_all (\<lambda>seg. list_ex (\<lambda>prefix. lowercase (chain_head seg) = lowercase prefix)
                KNOWN_SAFE_CHAIN_PREFIXES) segments)"

definition privileged_pattern :: "string \<Rightarrow> string option" where
  "privileged_pattern command =
     find (\<lambda>pattern. prefix pattern (trim command) \<or> str_contains ('' '' @ pattern @ '' '') (lowercase command))
       PRIVILEGED_PATTERNS"

definition dangerous_pattern :: "string \<Rightarrow> string option" where
  "dangerous_pattern command =
     map_option snd (find (\<lambda>(pattern, reason). str_contains (lowercase pattern) (lowercase command)) DANGEROUS_PATTERNS)"

text \<open>What \<open>analyze_command\<close> answers once nothing dangerous was recognised.\<close>

definition analyze_rm :: "string \<Rightarrow> safety_analysis" where
  "analyze_rm command_lower =
     (let reasons = [''Recursive or forced deletion'']
      in if str_contains ''..'' command_lower \<or> str_contains ''~/'' command_lower
            \<or> str_contains ''$HOME'' command_lower
         then analysis_dangerous (reasons @ [''May delete files outside workspace''])
                [''Use relative paths within the workspace'']
         else analysis_requires_approval reasons)"

definition classify_plain :: "shlex \<Rightarrow> string \<Rightarrow> safety_analysis" where
  "classify_plain sh command =
     (let command_lower = lowercase command;
          command_trimmed = trim command;
          first_word = (case split_whitespace command_trimmed of [] \<Rightarrow> [] | w # _ \<Rightarrow> w)
      in if is_safe_command sh command_trimmed then analysis_safe
         else if is_workspace_safe_command command_trimmed
         then analysis_workspace_safe ''Command modifies files within workspace''
         else if first_word \<in> set NETWORK_COMMANDS
         then analysis_requires_approval [''Command may make network requests'']
         else if first_word = ''rm'' \<and> (str_contains ''-r'' command_lower \<or> str_contains ''-f'' command_lower)
         then analyze_rm command_lower
         else if str_contains ''git push'' command_lower
         then if str_contains ''--force'' command_lower \<or> str_contains ''-f'' command_lower
              then analysis_requires_approval [''Force push can overwrite remote history'']
              else analysis_requires_approval [''Push will modify remote repository'']
         else analysis_requires_approval [''Unknown command - review before execution''])"

definition multiple_lines :: safety_analysis where
  "multiple_lines = analysis_dangerous [''Command contains multiple lines'']
     [''Run one command at a time'',
      ''Write multiline scripts to a file first, then execute the script'',
      ''Use task_shell_start or background shell for long interactive flows'']"

definition analyze_command :: "shlex \<Rightarrow> string \<Rightarrow> safety_analysis" where
  "analyze_command sh command =
     (if CHR 0x0A \<in> set command \<or> CHR 0x0D \<in> set command then multiple_lines
      else if CHR 0x00 \<in> set command
      then analysis_dangerous [''Command contains a null byte''] [''Strip embedded null bytes before retrying'']
      else case analyze_destructive_patterns sh command of
        Some analysis \<Rightarrow> analysis
      | None \<Rightarrow>
          if str_contains ''&&'' command \<or> str_contains ''||'' command \<or> CHR '';'' \<in> set command
          then if all_segments_known_safe command
               then analysis_requires_approval [''Command chains known-safe segments (cargo/git/etc.)'']
               else analysis_requires_approval [''Command chaining detected'']
          else if CHR 0x60 \<in> set command \<or> str_contains ''$('' command
          then analysis_requires_approval [''Command substitution detected'']
          else case dangerous_pattern command of
            Some reason \<Rightarrow> analysis_dangerous [reason] [''Review the command carefully before execution'']
          | None \<Rightarrow>
            (case privileged_pattern command of
               Some pattern \<Rightarrow>
                 analysis_requires_approval [''Command uses privileged execution ('' @ trim pattern @ '')'']
             | None \<Rightarrow>
                 if (str_contains ''curl'' (lowercase command) \<or> str_contains ''wget'' (lowercase command))
                    \<and> (str_contains ''| sh'' (lowercase command) \<or> str_contains ''| bash'' (lowercase command)
                       \<or> str_contains ''| zsh'' (lowercase command))
                 then remote_to_shell
                 else classify_plain sh command))"

definition extract_primary_command :: "string \<Rightarrow> string option" where
  "extract_primary_command command =
     (let trimmed = trim command
      in if prefix ''env '' trimmed \<or> prefix ''ENV='' trimmed
         then find (\<lambda>s. CHR ''='' \<notin> set s \<and> s \<noteq> ''env'') (split_whitespace trimmed)
         else (case split_whitespace trimmed of [] \<Rightarrow> None | w # _ \<Rightarrow> Some w))"

section \<open>The two classifiers\<close>

definition base_word :: "string \<Rightarrow> string" where
  "base_word key = takeWhile (\<lambda>c. c \<noteq> CHR '' '') key"

text \<open>The base words on which the two tables differ; for \<open>cmake\<close> both answer \<open>cmake\<close>.\<close>

definition divergent_words :: "string list" where
  "divergent_words = [''python'', ''python3'', ''aws'', ''terraform'', ''helm'']"

lemma tables_agree:
  "filter (\<lambda>e. base_word (fst e) \<notin> set (''cmake'' # divergent_words)) COMMAND_ARITY
     = filter (\<lambda>e. base_word (fst e) \<notin> set (''cmake'' # divergent_words)) BASH_ARITY_TABLE"
  by code_simp

lemma cmake_entries:
  "filter (\<lambda>e. base_word (fst e) = ''cmake'') COMMAND_ARITY = []"
  "filter (\<lambda>e. base_word (fst e) = ''cmake'') BASH_ARITY_TABLE = [(''cmake'', 1)]"
  by code_simp+

lemma base_word_join:
  assumes "ws \<noteq> []" "\<forall>w \<in> set ws. is_word w"
  shows "base_word (join_with '' '' (take (Suc k) ws)) = hd ws"
proof -
  obtain w vs where ws: "ws = w # vs" using assms(1) by (cases ws) auto
  have w: "\<forall>c \<in> set w. c \<noteq> CHR '' ''" using assms(2) by (auto simp: ws is_word_def)
  have tw: "takeWhile (\<lambda>c. c \<noteq> CHR '' '') (w @ CHR '' '' # s) = w" for s
    using w by (induction w) simp_all
  have "takeWhile (\<lambda>c. c \<noteq> CHR '' '') w = w" using w by simp
  with tw have "base_word (join_with '' '' (w # us)) = w" for us by (cases us) (simp_all add: base_word_def)
  then show ?thesis by (simp add: ws)
qed

text \<open>Only the entries under the command's own base word count.\<close>

lemma classify_depth_base:
  assumes "pos \<noteq> []" "\<forall>w \<in> set pos. is_word w" "P (hd pos)"
  shows "classify_depth es pos d = classify_depth (filter (\<lambda>e. P (base_word (fst e))) es) pos d"
  by (rule classify_depth_cong_on)
    (simp add: map_of_filter_keys [of "\<lambda>k. P (base_word k)"] base_word_join assms)

lemma classify_depth_single:
  "pos \<noteq> [] \<Longrightarrow> classify_depth [(k, 1)] pos d = None \<or> classify_depth [(k, 1)] pos d = Some (hd pos)"
  by (induction d) (auto simp: min_def Suc_le_eq neq_Nil_conv)

lemma classify_depth_empty: "classify_depth [] pos d = None"
  by (induction d) simp_all

lemma positional_words: "\<forall>w \<in> set ws. is_word w \<Longrightarrow> \<forall>w \<in> set (positional ws). is_word w"
  by (auto simp: positional_def)

lemma classifiers_agree:
  assumes "\<forall>w \<in> set ws. is_word w" "\<forall>b rest. positional ws = b # rest \<longrightarrow> b \<notin> set divergent_words"
  shows "classify_command ws = classify dict_new ws"
proof (cases "positional ws")
  case Nil
  then show ?thesis by (simp add: classify_command_def classify_positional)
next
  case (Cons b rest)
  note W = positional_words [OF assms(1)]
  have ne: "positional ws \<noteq> []" "hd (positional ws) = b" "ws \<noteq> []" using Cons by (auto simp: positional_def)
  have b: "b \<notin> set divergent_words" using assms(2) Cons by simp
  have D: "classify dict_new ws = (case classify_depth BASH_ARITY_TABLE (positional ws) (min (length (positional ws)) 3)
      of Some r \<Rightarrow> r | None \<Rightarrow> hd (positional ws))"
    unfolding classify_dict_new by (simp add: classify_positional ne Let_def)
  show ?thesis
  proof (cases "b = ''cmake''")
    case True
    note base = classify_depth_base [OF ne(1) W, of "\<lambda>w. w = ''cmake''"]
    show ?thesis
      using classify_depth_single [OF ne(1), of "''cmake''" "min (length (positional ws)) 3"]
      by (auto simp: D classify_command_def Let_def ne True base [of COMMAND_ARITY]
          base [of BASH_ARITY_TABLE] cmake_entries classify_depth_empty)
  next
    case False
    have "classify_depth COMMAND_ARITY (positional ws) n = classify_depth BASH_ARITY_TABLE (positional ws) n" for n
      using classify_depth_base [OF ne(1) W, of "\<lambda>w. w \<notin> set (''cmake'' # divergent_words)"] b False ne(2)
      by (metis tables_agree set_ConsD)
    then show ?thesis by (simp add: D classify_command_def Let_def ne)
  qed
qed

lemma collapse_words: "collapse s = join_with '' '' (map lowercase (split_whitespace s))"
  by (simp add: collapse_def split_whitespace_lowercase lowercase_trim)

text \<open>
  The allow rules of the configuration and those of the execution policy mean the same: for a rule
  written with single spaces, the matcher of the terminal agrees with the matcher of the policy crate
  on every command, unless the command's base word is one the two tables treat differently (the
  interpreters, and the cloud tools only one of them knows).
\<close>

theorem rule_matchers_agree:
  assumes "lowercase (trim pattern) = collapse pattern"
    and "\<forall>b rest. positional (split_whitespace command) = b # rest \<longrightarrow> b \<notin> set divergent_words"
  shows "prefix_allow_matches pattern command = allow_rule_matches dict_new pattern command"
proof -
  have c: "classify_command (split_whitespace command) = classify dict_new (split_whitespace command)"
    by (rule classifiers_agree [OF _ assms(2)]) (auto intro: split_whitespace_is_word)
  have bound: "word_boundary_prefix p s \<longleftrightarrow> s = p \<or> prefix (p @ '' '') s" for p s
    unfolding word_boundary_split prefix_def by auto
  show ?thesis
  proof (cases "split_whitespace command = []")
    case True
    then have "classify dict_new (split_whitespace command) = []" "collapse command = []"
      by (simp_all add: classify_def collapse_words)
    with True assms(1) show ?thesis
      by (auto simp: prefix_allow_matches_def allow_rule_matches_alt Let_def bound collapse_words [symmetric])
  next
    case False
    then show ?thesis
      by (simp add: prefix_allow_matches_def allow_rule_matches_alt Let_def c bound assms(1) collapse_words [symmetric])
  qed
qed

theorem rule_matchers_agree_witness:
  "prefix_allow_matches ''cargo check'' ''cargo --locked check -p tui''
     = allow_rule_matches dict_new ''cargo check'' ''cargo --locked check -p tui''
   \<and> prefix_allow_matches ''cargo check'' ''cargo --locked check -p tui''"
proof -
  have 1: "lowercase (trim ''cargo check'') = collapse ''cargo check''" by code_simp
  have 2: "positional (split_whitespace ''cargo --locked check -p tui'') = [''cargo'', ''check'', ''tui'']"
    by code_simp
  have 3: "''cargo'' \<notin> set divergent_words" by (simp add: divergent_words_def)
  have 4: "prefix_allow_matches ''cargo check'' ''cargo --locked check -p tui''" by code_simp
  from rule_matchers_agree [OF 1, of "''cargo --locked check -p tui''"] 2 3 4 show ?thesis by simp
qed

section \<open>The parallel check ends\<close>

text \<open>Splitting removes blanks and quotes, so the words are never longer than the text. This is what
  \<open>shlex\<close> documents, and what the recursion on the command inside \<open>bash -c\<close> relies on.\<close>

definition total_length :: "string list \<Rightarrow> nat" where
  "total_length ws = sum_list (map length ws)"

definition shlex_bounded :: "shlex \<Rightarrow> bool" where
  "shlex_bounded sh \<longleftrightarrow> (\<forall>s ws. sh s = Some ws \<longrightarrow> total_length ws \<le> length s)"

lemma length_trim: "length (trim s) \<le> length s"
proof -
  have "length (trim_start s) \<le> length s" by (simp add: trim_start_def length_dropWhile_le)
  moreover have "length (trim_end t) \<le> length t" for t
    using length_dropWhile_le [of is_ws "rev t"] by (simp add: trim_end_def)
  ultimately show ?thesis using le_trans unfolding trim_def by blast
qed

lemma length_trim_matches: "length (trim_matches p s) \<le> length s"
  using length_dropWhile_le [of p "rev (dropWhile p s)"] length_dropWhile_le [of p s]
  by (simp add: trim_matches_def trim_end_matches_def)

lemma total_length_words: "total_length (words_from cur s) \<le> length cur + length s"
  by (induction cur s rule: words_from.induct) (auto simp: total_length_def intro: le_SucI)

lemma total_length_map: "(\<And>w. length (f w) \<le> length w) \<Longrightarrow> total_length (map f ws) \<le> total_length ws"
  by (induction ws) (auto simp: total_length_def add_mono)

lemma total_length_drop: "total_length (drop n ws) \<le> total_length ws"
proof -
  have "total_length ws = total_length (take n ws) + total_length (drop n ws)"
    by (metis append_take_drop_id map_append sum_list_append total_length_def)
  then show ?thesis by simp
qed

lemma shell_words_bounded: "shlex_bounded sh \<Longrightarrow> total_length (shell_words sh s) \<le> length s"
proof (cases "sh s")
  case None
  have "total_length (map (trim_matches is_quote) (split_whitespace s)) \<le> total_length (split_whitespace s)"
    by (rule total_length_map) (rule length_trim_matches)
  also have "\<dots> \<le> length s" using total_length_words [of "[]" s] by (simp add: split_whitespace_def)
  finally show ?thesis by (simp add: shell_words_def None)
qed (simp add: shell_words_def shlex_bounded_def)

lemma plain_tokens_bounded:
  assumes "shlex_bounded sh" "plain_tokens sh command = Some ts"
  shows "total_length ts \<le> length command"
proof -
  from assms(2) obtain i where "ts = drop i (shell_words sh (trim command))"
    by (auto simp: plain_tokens_def Let_def split: if_splits)
  then have "total_length ts \<le> total_length (shell_words sh (trim command))" by (simp add: total_length_drop)
  also have "\<dots> \<le> length (trim command)" by (rule shell_words_bounded [OF assms(1)])
  finally show ?thesis using length_trim [of command] by linarith
qed

lemma wrapper_SomeD:
  "readonly_shell_wrapper_inner_command ts = Some inner \<Longrightarrow>
     \<exists>shell flag. ts = [shell, flag, inner] \<and> shell \<noteq> []"
  by (auto simp: readonly_shell_wrapper_inner_command_def split: list.splits if_splits)

text \<open>
  The check for parallel commands returns for every command, however deep its shell wrappers are
  nested, given that splitting never makes a text longer.
\<close>

theorem parallel_check_terminates:
  assumes "shlex_bounded sh"
  shows "\<exists>b. is_parallel_readonly_command sh command = Some b"
proof (induction command rule: length_induct)
  case (1 command)
  show ?case
  proof (cases "plain_tokens sh command")
    case None
    then have "is_parallel_readonly_command sh command = Some False"
      by (simp add: is_parallel_readonly_command.simps [of sh command])
    then show ?thesis ..
  next
    case (Some ts)
    show ?thesis
    proof (cases "readonly_shell_wrapper_inner_command ts")
      case None
      with Some have "is_parallel_readonly_command sh command = Some (readonly_words ts)"
        by (simp add: is_parallel_readonly_command.simps [of sh command])
      then show ?thesis ..
    next
      case (Some inner)
      then obtain shell flag where "ts = [shell, flag, inner]" "shell \<noteq> []" using wrapper_SomeD by blast
      with plain_tokens_bounded [OF assms \<open>plain_tokens sh command = Some ts\<close>]
      have "length inner < length command" by (cases shell) (auto simp: total_length_def)
      with 1 Some \<open>plain_tokens sh command = Some ts\<close> show ?thesis
        by (simp add: is_parallel_readonly_command.simps [of sh command])
    qed
  qed
qed

text \<open>Splitting at white space is such a function; the examples use it, on commands without quotes.\<close>

definition white_shlex :: shlex where
  "white_shlex s = Some (split_whitespace s)"

lemma white_shlex_bounded: "shlex_bounded white_shlex"
  using total_length_words [of "[]"] by (auto simp: shlex_bounded_def white_shlex_def split_whitespace_def)

theorem parallel_check_terminates_witness:
  "\<exists>b. is_parallel_readonly_command white_shlex ''bash -lc ls'' = Some b"
  by (rule parallel_check_terminates [OF white_shlex_bounded])

section \<open>What the parallel check lets through\<close>

inductive unwraps_to :: "shlex \<Rightarrow> string \<Rightarrow> string list \<Rightarrow> bool" for sh where
  direct: "plain_tokens sh command = Some ts \<Longrightarrow> readonly_shell_wrapper_inner_command ts = None
     \<Longrightarrow> unwraps_to sh command ts"
| wrapped: "plain_tokens sh command = Some ts \<Longrightarrow> readonly_shell_wrapper_inner_command ts = Some inner
     \<Longrightarrow> unwraps_to sh inner us \<Longrightarrow> unwraps_to sh command us"

lemma parallel_unwraps:
  assumes "is_parallel_readonly_command sh command = Some b"
  shows "b \<longrightarrow> (\<exists>ts. unwraps_to sh command ts \<and> readonly_words ts)"
proof (rule is_parallel_readonly_command.raw_induct [OF _ assms], rule impI)
  fix f sh command b
  assume IH: "\<And>sh command b. f sh command = Some b \<Longrightarrow> b \<longrightarrow> (\<exists>ts. unwraps_to sh command ts \<and> readonly_words ts)"
    and R: "(case plain_tokens sh command of None \<Rightarrow> Some False
      | Some tokens \<Rightarrow> (case readonly_shell_wrapper_inner_command tokens of
          Some inner_command \<Rightarrow> f sh inner_command | None \<Rightarrow> Some (readonly_words tokens))) = Some b" and b
  then obtain ts where ts: "plain_tokens sh command = Some ts" by (auto split: option.splits)
  show "\<exists>ts. unwraps_to sh command ts \<and> readonly_words ts"
  proof (cases "readonly_shell_wrapper_inner_command ts")
    case None
    with R ts \<open>b\<close> show ?thesis by (auto intro: direct)
  next
    case (Some inner)
    with R ts have "f sh inner = Some b" by simp
    with IH \<open>b\<close> obtain us where "unwraps_to sh inner us" "readonly_words us" by blast
    with ts Some show ?thesis by (blast intro: wrapped)
  qed
qed

lemma unwraps_parallel: "unwraps_to sh command ts \<Longrightarrow> is_parallel_readonly_command sh command = Some (readonly_words ts)"
proof (induction rule: unwraps_to.induct)
  case (direct command ts)
  then show ?case by (simp add: is_parallel_readonly_command.simps [of sh command])
next
  case (wrapped command ts inner us)
  then show ?case by (simp add: is_parallel_readonly_command.simps [of sh command])
qed

definition free_of_operators :: "string \<Rightarrow> bool" where
  "free_of_operators s \<longleftrightarrow> \<not> str_contains ''$('' s \<and> list_all (\<lambda>c. \<not> shell_operator c) s"

lemma plain_tokens_free: "plain_tokens sh command = Some ts \<Longrightarrow> free_of_operators (trim command)"
  by (auto simp: plain_tokens_def free_of_operators_def Let_def list_all_iff list_ex_iff split: if_splits)

text \<open>
  A command is run unasked beside others exactly when, with its shell wrappers taken off, it is a
  version query of the program itself or has a canonical prefix from the read-only list and does not
  follow a file.
\<close>

theorem parallel_commands_are_listed:
  "is_parallel_readonly_command sh command = Some True
      \<longleftrightarrow> (\<exists>ts. unwraps_to sh command ts
            \<and> (is_codewhale_readonly_invocation ts
               \<or> classify_command ts \<in> set PARALLEL_READONLY_PREFIXES
                 \<and> \<not> (classify_command ts = ''tail'' \<and> list_ex follows (drop 1 ts))))"
proof -
  have rw: "readonly_words ts \<longleftrightarrow> is_codewhale_readonly_invocation ts
      \<or> classify_command ts \<in> set PARALLEL_READONLY_PREFIXES
        \<and> \<not> (classify_command ts = ''tail'' \<and> list_ex follows (drop 1 ts))" for ts
    by (auto simp: readonly_words_def Let_def list_ex_iff)
  have "is_parallel_readonly_command sh command = Some True \<longleftrightarrow> (\<exists>ts. unwraps_to sh command ts \<and> readonly_words ts)"
    using parallel_unwraps [of sh command True] unwraps_parallel [of sh command] by auto
  then show ?thesis unfolding rw .
qed

text \<open>Then its text has no chaining, redirection or substitution.\<close>

lemma parallel_commands_are_plain:
  assumes "is_parallel_readonly_command sh command = Some True" shows "free_of_operators (trim command)"
proof -
  obtain ts where "unwraps_to sh command ts" using assms parallel_unwraps [of sh command True] by blast
  then show ?thesis by cases (auto dest: plain_tokens_free)
qed

section \<open>What the analysis promises\<close>

definition rm_flag :: "string \<Rightarrow> bool" where
  "rm_flag arg \<longleftrightarrow> arg \<in> {''--recursive'', ''--dir'', ''--force''}
     \<or> (prefix ''-'' arg \<and> \<not> prefix ''--'' arg \<and> list_ex (\<lambda>ch. ch \<in> {CHR ''r'', CHR ''R'', CHR ''f''}) arg)"

definition rm_target :: "string \<Rightarrow> bool" where
  "rm_target arg \<longleftrightarrow> arg \<notin> {''--'', ''--recursive'', ''--dir'', ''--force''} \<and> (prefix ''-'' arg \<longrightarrow> prefix ''--'' arg)"

lemma scan_rm_arg_fields:
  "rm_targets (scan_rm_arg a s) = rm_targets s @ (if rm_target a then [a] else [])"
  "rm_recursive (scan_rm_arg a s) \<or> rm_force (scan_rm_arg a s) \<longleftrightarrow> rm_recursive s \<or> rm_force s \<or> rm_flag a"
  by (auto simp: scan_rm_arg_def rm_target_def rm_flag_def list_ex_iff)

lemma scan_rm_args:
  "rm_targets (fold scan_rm_arg args s) = rm_targets s @ filter rm_target args
   \<and> (rm_recursive (fold scan_rm_arg args s) \<or> rm_force (fold scan_rm_arg args s)
       \<longleftrightarrow> rm_recursive s \<or> rm_force s \<or> list_ex rm_flag args)"
proof (induction args arbitrary: s)
  case (Cons a args)
  then show ?case using scan_rm_arg_fields [of a s] by auto
qed simp

lemma first_some_None: "first_some f xs = None \<longleftrightarrow> (\<forall>x \<in> set xs. f x = None)"
  by (induction xs) (auto split: option.splits)

lemma first_some_SomeD: "first_some f xs = Some y \<Longrightarrow> \<exists>x \<in> set xs. f x = Some y"
  by (induction xs) (auto split: option.splits)

lemma target_reason_None: "target_reason t = None \<longleftrightarrow> \<not> broad_target t"
  by (simp add: target_reason_def broad_target_def)

lemma dangerous_rm_reason_None:
  "dangerous_rm_reason args = None
    \<longleftrightarrow> \<not> (list_ex rm_flag args \<and> (\<exists>t \<in> set args. rm_target t \<and> broad_target t))"
  using scan_rm_args [of args "\<lparr>rm_recursive = False, rm_force = False, rm_targets = []\<rparr>"]
  by (auto simp: dangerous_rm_reason_def Let_def first_some_None target_reason_None)

text \<open>The words after the primary word of a segment.\<close>

definition primary_args :: "shlex \<Rightarrow> string \<Rightarrow> string list" where
  "primary_args sh segment =
     (let tokens = shell_words sh segment
      in case primary_token_index tokens of None \<Rightarrow> [] | Some i \<Rightarrow> drop (i + 1) tokens)"

lemma analyze_segment_level:
  "analyze_segment sh segment = Some a \<Longrightarrow> primary_word sh segment \<noteq> Some ''find'' \<Longrightarrow> sa_level a = Dangerous"
  by (auto simp: analyze_segment_def primary_word_def Let_def analysis_dangerous_def split: option.splits if_splits)

lemma analyze_segment_rm:
  "primary_word sh segment = Some ''rm'' \<Longrightarrow>
     analyze_segment sh segment = map_option (\<lambda>reason. analysis_dangerous [reason]
       [''Review the deletion target before retrying'']) (dangerous_rm_reason (primary_args sh segment))"
  by (auto simp: analyze_segment_def primary_word_def primary_args_def Let_def split: option.splits)

text \<open>
  C29: A forced or recursive deletion of the root, of the home directory or of something above the
  workspace is dangerous in whatever segment of the command it stands, behind \<open>env\<close> or assignments
  too, provided no segment runs \<open>find\<close>.
\<close>

theorem destructive_rm_is_dangerous:
  assumes "segment \<in> set (split_command_segments command)" "primary_word sh segment = Some ''rm''"
    and "list_ex rm_flag (primary_args sh segment)"
    and "t \<in> set (primary_args sh segment)" "rm_target t" "broad_target t"
    and "list_all (\<lambda>s. primary_word sh s \<noteq> Some ''find'') (split_command_segments command)"
  shows "sa_level (analyze_command sh command) = Dangerous"
proof -
  have "dangerous_rm_reason (primary_args sh segment) \<noteq> None"
    using assms(3-6) by (auto simp: dangerous_rm_reason_None)
  then have "analyze_segment sh segment \<noteq> None" using analyze_segment_rm [OF assms(2)] by auto
  then obtain a where a: "first_some (analyze_segment sh) (split_command_segments command) = Some a"
    using assms(1) first_some_None by (metis not_Some_eq)
  then obtain s where "s \<in> set (split_command_segments command)" "analyze_segment sh s = Some a"
    using first_some_SomeD by metis
  with assms(7) have "sa_level a = Dangerous" by (auto simp: list_all_iff intro: analyze_segment_level)
  with a have "\<exists>a. analyze_destructive_patterns sh command = Some a \<and> sa_level a = Dangerous"
    by (simp add: analyze_destructive_patterns_def remote_to_shell_def analysis_dangerous_def)
  then show ?thesis
    by (auto simp: analyze_command_def multiple_lines_def analysis_dangerous_def)
qed

theorem destructive_rm_is_dangerous_witness:
  "sa_level (analyze_command white_shlex ''cd src && env A=1 rm -fv ../../notes'') = Dangerous"
proof (rule destructive_rm_is_dangerous)
  show "''env A=1 rm -fv ../../notes'' \<in> set (split_command_segments ''cd src && env A=1 rm -fv ../../notes'')"
    by code_simp
  show "primary_word white_shlex ''env A=1 rm -fv ../../notes'' = Some ''rm''" by code_simp
  show "list_ex rm_flag (primary_args white_shlex ''env A=1 rm -fv ../../notes'')" by code_simp
  show "''../../notes'' \<in> set (primary_args white_shlex ''env A=1 rm -fv ../../notes'')" by code_simp
  show "rm_target ''../../notes''" by code_simp
  show "broad_target ''../../notes''" by code_simp
  show "list_all (\<lambda>s. primary_word white_shlex s \<noteq> Some ''find'')
      (split_command_segments ''cd src && env A=1 rm -fv ../../notes'')" by code_simp
qed

text \<open>Without the proviso it fails: the answer for a \<open>find\<close> that deletes hides what follows.\<close>

lemma find_hides_later_deletion:
  "sa_level (analyze_command white_shlex ''find . -delete ; rm -rf /'') = RequiresApproval
   \<and> sa_level (analyze_command white_shlex ''rm -rf / ; find . -delete'') = Dangerous"
  by code_simp

text \<open>
  The analysis calls a command read-only only when it is one line without null bytes, chaining or
  substitution, nothing in it was recognised as destructive or privileged, and its text begins with an
  entry of the read-only list, letter for letter, or it asks the program itself for its version.
\<close>

theorem safe_commands_are_listed:
  assumes "sa_level (analyze_command sh command) = Safe"
  shows "list_all (\<lambda>c. c \<notin> {CHR 0x0A, CHR 0x0D, CHR 0x00, CHR '';'', CHR 0x60}) command
    \<and> \<not> str_contains ''&&'' command \<and> \<not> str_contains ''||'' command \<and> \<not> str_contains ''$('' command
    \<and> analyze_destructive_patterns sh command = None
    \<and> dangerous_pattern command = None \<and> privileged_pattern command = None
    \<and> (list_ex (\<lambda>c. prefix c (lowercase (trim command))) SAFE_COMMANDS
       \<or> (\<exists>ts. is_codewhale_readonly_invocation ts \<and> suffix ts (shell_words sh (trim command))))"
proof -
  have D: "sa_level a \<noteq> Safe" if d: "analyze_destructive_patterns sh command = Some a" for a
  proof -
    have seg: "sa_level b \<noteq> Safe" if "analyze_segment sh s = Some b" for s b
      using that by (auto simp: analyze_segment_def analyze_find_mutation_def analysis_dangerous_def
          analysis_requires_approval_def Let_def split: option.splits if_splits)
    from d show ?thesis
      by (auto simp: analyze_destructive_patterns_def remote_to_shell_def analysis_dangerous_def
          dest!: first_some_SomeD seg split: if_splits)
  qed
  have none: "analyze_destructive_patterns sh command = None"
    using assms D by (auto simp: analyze_command_def multiple_lines_def analysis_dangerous_def
        split: option.splits if_splits)
  have rest: "CHR 0x0A \<notin> set command" "CHR 0x0D \<notin> set command" "CHR 0x00 \<notin> set command"
    "CHR '';'' \<notin> set command" "CHR 0x60 \<notin> set command" "\<not> str_contains ''&&'' command"
    "\<not> str_contains ''||'' command" "\<not> str_contains ''$('' command"
    "dangerous_pattern command = None" "privileged_pattern command = None"
    "sa_level (classify_plain sh command) = Safe"
    using assms by (auto simp: analyze_command_def multiple_lines_def analysis_dangerous_def none
        analysis_requires_approval_def remote_to_shell_def split: option.splits if_splits)
  have "is_safe_command sh (trim command)"
    using rest(11) by (auto simp: classify_plain_def Let_def analysis_workspace_safe_def analyze_rm_def
        analysis_dangerous_def analysis_requires_approval_def split: if_splits)
  then have "list_ex (\<lambda>c. prefix c (lowercase (trim command))) SAFE_COMMANDS
       \<or> (\<exists>ts. is_codewhale_readonly_invocation ts \<and> suffix ts (shell_words sh (trim command)))"
    by (auto simp: is_safe_command_def Let_def suffix_drop split: option.splits)
  with rest none show ?thesis by (auto simp: list_all_iff)
qed

theorem safe_commands_are_listed_witness:
  "analyze_destructive_patterns white_shlex ''git log -n 5'' = None \<and> privileged_pattern ''git log -n 5'' = None"
proof -
  have "sa_level (analyze_command white_shlex ''git log -n 5'') = Safe" by code_simp
  from safe_commands_are_listed [OF this] show ?thesis by blast
qed

text \<open>Letter for letter is less than word for word: a program whose name merely begins with an entry,
  or any program behind \<open>env\<close>, is called read-only as well. A list entry that itself runs programs
  passes the parallel check, the fork bomb is stopped by its semicolon before its pattern is tried,
  and a pattern with capital letters is looked for in a text without them.\<close>

lemma read_only_is_a_text_prefix:
  "sa_level (analyze_command white_shlex ''env rm -rf src'') = Safe"
  "sa_level (analyze_command white_shlex ''setfacl -R -m u:me:rwx src'') = Safe"
  "sa_level (analyze_command white_shlex ''cat a > b'') = Safe"
  by code_simp+

lemma parallel_fd_exec: "is_parallel_readonly_command white_shlex ''fd -x rm'' = Some True"
proof -
  have "plain_tokens white_shlex ''fd -x rm'' = Some [''fd'', ''-x'', ''rm'']" by code_simp
  moreover have "readonly_shell_wrapper_inner_command [''fd'', ''-x'', ''rm''] = None" by code_simp
  moreover have "readonly_words [''fd'', ''-x'', ''rm'']" by code_simp
  ultimately show ?thesis by (simp add: is_parallel_readonly_command.simps [of white_shlex])
qed

lemma fork_bomb_needs_approval_only:
  "sa_level (analyze_command white_shlex '':(){ :|:& };:'') = RequiresApproval"
  by code_simp

lemma lowercase_no_upper: "c \<in> set (lowercase s) \<Longrightarrow> \<not> is_ascii_upper c"
  by (auto simp: lowercase_def is_ascii_upper_def of_char_ascii_lower split: if_splits)

lemma home_test_is_dead: "\<not> str_contains ''$HOME'' (lowercase s)"
proof -
  have sub: "set p \<subseteq> set s" if "str_contains p s" for p s
    using that by (induction s) (auto dest!: set_mono_prefix)
  have "CHR ''H'' \<notin> set (lowercase s)"
    using lowercase_no_upper [of "CHR ''H''" s] by (auto simp: is_ascii_upper_def)
  with sub show ?thesis by fastforce
qed

end
