(* ===== verification/Network_Policy.thy ===== *)
theory Network_Policy
  imports Rust_Std
begin

text \<open>
  \<open>crates/tui/src/network_policy.rs\<close>: the allow/deny list for outbound calls, the session cache of
  the user's answers, the audit log and the decider that combines them. The audit log is the text
  of the file, threaded through every operation that writes it; the clock and the outcome of the
  write are read from \<open>audit_env\<close>. The cache is the content of the mutex; no code that can panic
  runs while the lock is held, so it is never poisoned. What the client needs of the cache is the
  locale \<open>session_cache\<close>.
\<close>

section \<open>Decisions and policies\<close>

datatype decision = Allow | Deny | Prompt

fun decision_as_str :: "decision \<Rightarrow> string" where
  "decision_as_str Allow = ''Allow''"
| "decision_as_str Deny = ''Deny''"
| "decision_as_str Prompt = ''Prompt''"

definition decision_parse :: "string \<Rightarrow> decision" where
  "decision_parse value =
     (let v = lowercase (trim value)
      in if v = ''allow'' then Allow
         else if v = ''deny'' \<or> v = ''block'' then Deny
         else Prompt)"

datatype decision_toml = TomlAllow | TomlDeny | TomlPrompt

fun decision_of_toml :: "decision_toml \<Rightarrow> decision" where
  "decision_of_toml TomlAllow = Allow"
| "decision_of_toml TomlDeny = Deny"
| "decision_of_toml TomlPrompt = Prompt"

fun toml_of_decision :: "decision \<Rightarrow> decision_toml" where
  "toml_of_decision Allow = TomlAllow"
| "toml_of_decision Deny = TomlDeny"
| "toml_of_decision Prompt = TomlPrompt"

record network_policy =
  np_default :: decision_toml
  np_allow :: "string list"
  np_deny :: "string list"
  np_proxy :: "string list"
  np_audit :: bool

definition network_policy_default :: network_policy where
  "network_policy_default = \<lparr>np_default = TomlPrompt, np_allow = [], np_deny = [], np_proxy = [],
     np_audit = True\<rparr>"

definition normalize_host :: "string \<Rightarrow> string" where
  "normalize_host host =
     (let trimmed = lowercase (trim_end_matches (\<lambda>c. c = CHR ''.'') (trim host))
      in case strip_prefix ''*.'' trimmed of Some rest \<Rightarrow> CHR ''.'' # rest | None \<Rightarrow> trimmed)"

definition host_matches :: "string \<Rightarrow> string \<Rightarrow> bool" where
  "host_matches entry normalized_host =
     (let entry_norm = normalize_host entry
      in case strip_prefix ''.'' entry_norm of
           Some suff \<Rightarrow> suff \<noteq> [] \<and> suffix (CHR ''.'' # suff) normalized_host
         | None \<Rightarrow> entry_norm = normalized_host)"

definition decide :: "network_policy \<Rightarrow> string \<Rightarrow> decision" where
  "decide p host =
     (let normalized = normalize_host host
      in if normalized = [] then decision_of_toml (np_default p)
         else if list_ex (\<lambda>entry. host_matches entry normalized) (np_deny p) then Deny
         else if list_ex (\<lambda>entry. host_matches entry normalized) (np_allow p) then Allow
         else decision_of_toml (np_default p))"

definition add_allow :: "network_policy \<Rightarrow> string \<Rightarrow> network_policy" where
  "add_allow p host =
     (let normalized = normalize_host host
      in if normalized = [] then p
         else if list_ex (\<lambda>existing. normalize_host existing = normalized) (np_allow p) then p
         else p\<lparr>np_allow := np_allow p @ [normalized]\<rparr>)"

definition audit_enabled :: "network_policy \<Rightarrow> bool" where
  "audit_enabled p = np_audit p"

definition trusts_proxy_fakeip_host :: "network_policy \<Rightarrow> string \<Rightarrow> bool" where
  "trusts_proxy_fakeip_host p host =
     (let normalized = normalize_host host
      in if normalized = [] then False
         else if list_ex (\<lambda>entry. host_matches entry normalized) (np_deny p) then False
         else list_ex (\<lambda>entry. host_matches entry normalized) (np_proxy p))"

section \<open>IPv4 ranges\<close>

text \<open>\<open>u8::from_str\<close>: an optional plus sign, at least one digit, no overflow. \<open>Ipv4Addr::from_str\<close>:
  four decimal numbers of at most three digits, without leading zeros.\<close>

definition parse_u8 :: "string \<Rightarrow> u8 option" where
  "parse_u8 s =
     (case parse_digits (case strip_prefix ''+'' s of Some r \<Rightarrow> r | None \<Rightarrow> s) of
        Some n \<Rightarrow> if n < 256 then Some (of_nat n) else None
      | None \<Rightarrow> None)"

definition parse_octet :: "string \<Rightarrow> u8 option" where
  "parse_octet s =
     (case parse_digits s of
        Some n \<Rightarrow> if n < 256 \<and> length s \<le> 3 \<and> (hd s = CHR ''0'' \<longrightarrow> length s = 1)
                  then Some (of_nat n) else None
      | None \<Rightarrow> None)"

definition ipv4_new :: "u8 \<Rightarrow> u8 \<Rightarrow> u8 \<Rightarrow> u8 \<Rightarrow> u32" where
  "ipv4_new a b c d = push_bit 24 (ucast a) + push_bit 16 (ucast b) + push_bit 8 (ucast c) + ucast d"

definition parse_ipv4 :: "string \<Rightarrow> u32 option" where
  "parse_ipv4 s =
     (case map parse_octet (split_on (CHR ''.'') s) of
        [Some a, Some b, Some c, Some d] \<Rightarrow> Some (ipv4_new a b c d)
      | _ \<Rightarrow> None)"

definition parse_ipv4_cidr :: "string \<Rightarrow> (u32 \<times> u8) option" where
  "parse_ipv4_cidr cidr =
     (case split_once (CHR ''/'') cidr of
        None \<Rightarrow> None
      | Some (addr, pre) \<Rightarrow>
         (case parse_ipv4 (trim addr) of
            None \<Rightarrow> None
          | Some base \<Rightarrow>
             (case parse_u8 (trim pre) of
                None \<Rightarrow> None
              | Some p \<Rightarrow> if p > 32 then None else Some (base, p))))"

definition ipv4_in_cidr :: "u32 \<Rightarrow> u32 \<Rightarrow> u8 \<Rightarrow> bool" where
  "ipv4_in_cidr ip base p =
     (if p = 0 then True
      else (let mask = push_bit (unat (32 - p)) (0xFFFFFFFF :: u32)
            in and ip mask = and base mask))"

datatype ip_addr = V4 u32 | V6 "128 word"

section \<open>The audit log\<close>

record network_auditor =
  aud_path :: string
  aud_enabled :: bool

record audit_env =
  env_timestamp :: string
  env_write_ok :: bool

definition auditor_new :: "string \<Rightarrow> bool \<Rightarrow> network_auditor" where
  "auditor_new path enabled = \<lparr>aud_path = path, aud_enabled = enabled\<rparr>"

definition auditor_default_path :: "string option \<Rightarrow> bool \<Rightarrow> network_auditor option" where
  "auditor_default_path home enabled =
     map_option (\<lambda>h. auditor_new (h @ ''/.codewhale/audit.log'') enabled) home"

definition sanitize_field :: "string \<Rightarrow> string" where
  "sanitize_field s = map (\<lambda>c. if is_ws c then CHR ''_'' else c) s"

definition audit_line :: "string \<Rightarrow> string \<Rightarrow> string \<Rightarrow> string \<Rightarrow> string" where
  "audit_line ts host tool label =
     ts @ '' network '' @ sanitize_field host @ '' '' @ sanitize_field tool @ '' '' @ label"

text \<open>A failed write is reported through \<open>tracing\<close> and leaves the file as it was.\<close>

definition auditor_record ::
  "audit_env \<Rightarrow> network_auditor \<Rightarrow> string \<Rightarrow> string \<Rightarrow> string \<Rightarrow> string \<Rightarrow> string" where
  "auditor_record env a host tool label log =
     (if \<not> aud_enabled a then log
      else if env_write_ok env
      then log @ audit_line (env_timestamp env) host tool label @ [CHR 0x0A]
      else log)"

section \<open>The session cache\<close>

record network_session_cache =
  approved :: "string set"
  denied :: "string set"

definition cache_new :: network_session_cache where
  "cache_new = \<lparr>approved = {}, denied = {}\<rparr>"

definition cache_is_approved :: "network_session_cache \<Rightarrow> string \<Rightarrow> bool" where
  "cache_is_approved c host \<longleftrightarrow> normalize_host host \<in> approved c"

definition cache_is_denied :: "network_session_cache \<Rightarrow> string \<Rightarrow> bool" where
  "cache_is_denied c host \<longleftrightarrow> normalize_host host \<in> denied c"

definition cache_approve :: "network_session_cache \<Rightarrow> string \<Rightarrow> network_session_cache" where
  "cache_approve c host =
     (let normalized = normalize_host host
      in c\<lparr>denied := denied c - {normalized}, approved := insert normalized (approved c)\<rparr>)"

definition cache_deny :: "network_session_cache \<Rightarrow> string \<Rightarrow> network_session_cache" where
  "cache_deny c host =
     (let normalized = normalize_host host
      in c\<lparr>approved := approved c - {normalized}, denied := insert normalized (denied c)\<rparr>)"

section \<open>The decider\<close>

record network_policy_decider =
  policy :: network_policy
  cache :: network_session_cache
  auditor :: "network_auditor option"
  trusted_fakeip_cidrs :: "(u32 \<times> u8) list"

definition decider_new :: "network_policy \<Rightarrow> network_auditor option \<Rightarrow> network_policy_decider" where
  "decider_new p a = \<lparr>policy = p, cache = cache_new, auditor = a, trusted_fakeip_cidrs = []\<rparr>"

definition with_trusted_fakeip_cidrs ::
  "network_policy_decider \<Rightarrow> string list \<Rightarrow> network_policy_decider" where
  "with_trusted_fakeip_cidrs d cidrs =
     d\<lparr>trusted_fakeip_cidrs := trusted_fakeip_cidrs d @ List.map_filter parse_ipv4_cidr cidrs\<rparr>"

fun is_trusted_fakeip_addr :: "network_policy_decider \<Rightarrow> ip_addr \<Rightarrow> bool" where
  "is_trusted_fakeip_addr d (V4 v4) =
     list_ex (\<lambda>(base, p). ipv4_in_cidr v4 base p) (trusted_fakeip_cidrs d)"
| "is_trusted_fakeip_addr d (V6 _) = False"

definition with_default_audit :: "string option \<Rightarrow> network_policy \<Rightarrow> network_policy_decider" where
  "with_default_audit home p =
     decider_new p (if audit_enabled p then auditor_default_path home True else None)"

definition audit_record ::
  "audit_env \<Rightarrow> network_policy_decider \<Rightarrow> string \<Rightarrow> string \<Rightarrow> string \<Rightarrow> string \<Rightarrow> string" where
  "audit_record env d host tool label log =
     (case auditor d of None \<Rightarrow> log | Some a \<Rightarrow> auditor_record env a host tool label log)"

text \<open>\<open>evaluate\<close> returns the decision and the audit log; the decider does not change.\<close>

definition evaluate ::
  "audit_env \<Rightarrow> network_policy_decider \<Rightarrow> string \<Rightarrow> string \<Rightarrow> string \<Rightarrow> decision \<times> string" where
  "evaluate env d host tool log =
     (let normalized = normalize_host host
      in if normalized = [] then (decision_of_toml (np_default (policy d)), log)
         else if cache_is_denied (cache d) normalized
         then (Deny, audit_record env d normalized tool ''Deny'' log)
         else if cache_is_approved (cache d) normalized
         then (Allow, audit_record env d normalized tool ''Allow'' log)
         else (let dec = decide (policy d) normalized
               in (dec, case dec of
                          Allow \<Rightarrow> audit_record env d normalized tool ''Allow'' log
                        | Deny \<Rightarrow> audit_record env d normalized tool ''Deny'' log
                        | Prompt \<Rightarrow> log)))"

definition approve_session ::
  "audit_env \<Rightarrow> network_policy_decider \<Rightarrow> string \<Rightarrow> string \<Rightarrow> string \<Rightarrow> network_policy_decider \<times> string" where
  "approve_session env d host tool log =
     (d\<lparr>cache := cache_approve (cache d) host\<rparr>, audit_record env d host tool ''Prompt-Approved'' log)"

definition deny_session ::
  "audit_env \<Rightarrow> network_policy_decider \<Rightarrow> string \<Rightarrow> string \<Rightarrow> string \<Rightarrow> network_policy_decider \<times> string" where
  "deny_session env d host tool log =
     (d\<lparr>cache := cache_deny (cache d) host\<rparr>, audit_record env d host tool ''Prompt-Denied'' log)"

definition approve_persistent ::
  "audit_env \<Rightarrow> network_policy_decider \<Rightarrow> string \<Rightarrow> string \<Rightarrow> string \<Rightarrow> network_policy_decider \<times> string" where
  "approve_persistent env d host tool log =
     (d\<lparr>policy := add_allow (policy d) host, cache := cache_approve (cache d) host\<rparr>,
      audit_record env d host tool ''Prompt-Approved'' log)"

definition decider_trusts_proxy_fakeip_host :: "network_policy_decider \<Rightarrow> string \<Rightarrow> bool" where
  "decider_trusts_proxy_fakeip_host d host = trusts_proxy_fakeip_host (policy d) host"

definition record_trusted_proxy_fakeip_allow ::
  "audit_env \<Rightarrow> network_policy_decider \<Rightarrow> string \<Rightarrow> string \<Rightarrow> string \<Rightarrow> string" where
  "record_trusted_proxy_fakeip_allow env d host tool log =
     audit_record env d host tool ''TrustedProxyFakeIp-Allow'' log"

text \<open>\<open>Url::parse\<close> followed by \<open>host_str\<close> belongs to the \<open>url\<close> crate and is a parameter.\<close>

definition host_from_url :: "(string \<Rightarrow> string option) \<Rightarrow> string \<Rightarrow> string option" where
  "host_from_url url_host url = map_option lowercase (url_host (trim url))"

section \<open>Host names\<close>

definition no_ws :: "string \<Rightarrow> bool" where
  "no_ws s \<longleftrightarrow> (\<forall>c \<in> set s. \<not> is_ws c)"

lemma no_ws_trim: "no_ws s \<Longrightarrow> trim s = s"
proof -
  assume h: "no_ws s"
  have dw: "dropWhile is_ws t = t" if "no_ws t" for t
    using that by (cases t) (simp_all add: no_ws_def)
  from h have "no_ws (rev s)" by (simp add: no_ws_def)
  with h show ?thesis by (simp add: trim_def trim_start_def trim_end_def dw)
qed

lemma no_ws_lowercase [simp]: "no_ws (lowercase s) = no_ws s"
  by (simp add: no_ws_def lowercase_def)

abbreviation is_dot :: "char \<Rightarrow> bool" where
  "is_dot \<equiv> \<lambda>c. c = CHR ''.''"

lemma trim_end_matches_split:
  "\<exists>t. s = trim_end_matches P s @ t \<and> (\<forall>c \<in> set t. P c)"
proof -
  have "s = rev (dropWhile P (rev s)) @ rev (takeWhile P (rev s))"
    by (simp flip: rev_append)
  moreover have "\<forall>c \<in> set (rev (takeWhile P (rev s))). P c"
    by (auto dest: set_takeWhileD)
  ultimately show ?thesis unfolding trim_end_matches_def by blast
qed

lemma trim_end_matches_last:
  "trim_end_matches P s = [] \<or> \<not> P (last (trim_end_matches P s))"
  using hd_dropWhile [of P "rev s"] by (auto simp: trim_end_matches_def last_rev)

lemma trim_end_matches_id: "s = [] \<or> \<not> P (last s) \<Longrightarrow> trim_end_matches P s = s"
  by (cases s rule: rev_cases) (auto simp: trim_end_matches_def)

lemma trim_end_matches_append:
  "\<forall>c \<in> set t. P c \<Longrightarrow> trim_end_matches P (s @ t) = trim_end_matches P s"
  by (simp add: trim_end_matches_def dropWhile_append)

lemma ascii_lower_dot [simp]:
  "ascii_lower c = CHR ''.'' \<longleftrightarrow> c = CHR ''.''" "ascii_lower c = CHR ''*'' \<longleftrightarrow> c = CHR ''*''"
  by (rule ascii_lower_eq_iff; simp add: is_ascii_upper_def is_ascii_lower_def)+

lemma trim_end_dots_lowercase:
  "lowercase (trim_end_matches is_dot s) = trim_end_matches is_dot (lowercase s)"
proof -
  have dw: "map ascii_lower (dropWhile is_dot xs) = dropWhile is_dot (map ascii_lower xs)" for xs
    by (induction xs) auto
  show ?thesis
    by (simp add: lowercase_def trim_end_matches_def dw flip: rev_map)
qed

lemma no_ws_trim_end_matches: "no_ws s \<Longrightarrow> no_ws (trim_end_matches P s)"
  using trim_end_matches_split [of s P] unfolding no_ws_def by (metis Un_iff set_append)

text \<open>The shape of a normalised host.\<close>

definition canonical_host :: "string \<Rightarrow> bool" where
  "canonical_host h \<longleftrightarrow> no_ws h \<and> lowercase h = h \<and> (h = [] \<or> last h \<noteq> CHR ''.'') \<and> \<not> prefix ''*.'' h"

lemma canonical_normalize: "canonical_host h \<Longrightarrow> normalize_host h = h"
  by (simp add: canonical_host_def normalize_host_def no_ws_trim trim_end_matches_id strip_prefix_def)

lemma normalize_canonical:
  assumes "no_ws h" shows "canonical_host (normalize_host h)"
proof -
  let ?t = "lowercase (trim_end_matches is_dot h)"
  have t: "no_ws ?t" "lowercase ?t = ?t" "?t = [] \<or> last ?t \<noteq> CHR ''.''"
    using assms trim_end_matches_last [of is_dot h] no_ws_trim_end_matches [of h is_dot]
    by (auto simp: lowercase_def last_map comp_def no_ws_def)
  show ?thesis
  proof (cases "strip_prefix ''*.'' ?t")
    case None
    then have "\<not> prefix ''*.'' ?t" by (simp add: strip_prefix_def split: if_splits)
    with t None assms show ?thesis by (simp add: normalize_host_def no_ws_trim canonical_host_def)
  next
    case (Some rest)
    then have e: "?t = ''*.'' @ rest" by (auto simp: strip_prefix_def prefix_def split: if_splits)
    with t have "rest \<noteq> []" "last rest \<noteq> CHR ''.''" by (auto split: if_splits)
    moreover from t e have "no_ws rest" "lowercase rest = rest"
      by (auto simp: no_ws_def lowercase_def)
    moreover have "\<not> is_ws CHR ''.''" "ascii_lower CHR ''.'' = CHR ''.''"
      by (simp_all add: is_ws_def)
    ultimately have "canonical_host (CHR ''.'' # rest)"
      by (simp add: canonical_host_def no_ws_def lowercase_def)
    with Some assms show ?thesis by (simp add: normalize_host_def no_ws_trim)
  qed
qed

lemma normalize_idem: "no_ws h \<Longrightarrow> normalize_host (normalize_host h) = normalize_host h"
  by (simp add: canonical_normalize normalize_canonical)

text \<open>White space inside the host breaks this: trimming the dots can uncover a trailing space.\<close>

lemma normalize_not_idem:
  "normalize_host ''a .'' = ''a '' \<and> normalize_host (normalize_host ''a .'') = ''a''"
  by code_simp

lemma normalize_host_lowercase: "normalize_host (lowercase h) = normalize_host h"
proof -
  have "lowercase (trim_end_matches is_dot (trim (lowercase h))) = lowercase (trim_end_matches is_dot (trim h))"
    unfolding trim_end_dots_lowercase lowercase_trim lowercase_idem by (rule refl)
  then show ?thesis unfolding normalize_host_def by (rule arg_cong)
qed

lemma normalize_host_dots:
  assumes "no_ws h" "\<forall>c \<in> set d. c = CHR ''.''"
  shows "normalize_host (h @ d) = normalize_host h"
proof -
  have dot: "\<not> is_ws CHR ''.''" by (simp add: is_ws_def)
  have "\<not> is_ws c" if "c \<in> set d" for c
    unfolding bspec [OF assms(2) that] by (rule dot)
  with assms(1) have ws: "no_ws (h @ d)" unfolding no_ws_def by (metis Un_iff set_append)
  have "trim_end_matches is_dot (h @ d) = trim_end_matches is_dot h"
    by (rule trim_end_matches_append) (rule assms(2))
  then show ?thesis
    unfolding normalize_host_def no_ws_trim [OF ws] no_ws_trim [OF assms(1)] by (rule arg_cong)
qed

section \<open>The allow and deny lists\<close>

lemma decide_by_normalized: "normalize_host a = normalize_host b \<Longrightarrow> decide p a = decide p b"
  by (simp add: decide_def)

text \<open>
  A host that matches an entry of the deny list is denied whatever the allow list says, and it is
  not trusted to resolve through the proxy whatever the proxy list says.
\<close>

theorem deny_list_wins:
  assumes "entry \<in> set (np_deny p)" "host_matches entry (normalize_host host)"
    and "normalize_host host \<noteq> []"
  shows "decide p host = Deny \<and> \<not> trusts_proxy_fakeip_host p host"
proof -
  from assms(1,2) have "list_ex (\<lambda>e. host_matches e (normalize_host host)) (np_deny p)"
    by (auto simp: list_ex_iff)
  with assms(3) show ?thesis by (simp add: decide_def trusts_proxy_fakeip_host_def)
qed

theorem deny_list_wins_witness:
  "decide (network_policy_default\<lparr>np_allow := [''.example.com''], np_deny := [''*.Example.com'']\<rparr>)
     ''API.example.com.'' = Deny"
proof -
  have "host_matches ''*.Example.com'' (normalize_host ''API.example.com.'')"
    "normalize_host ''API.example.com.'' \<noteq> []" by code_simp+
  from deny_list_wins [OF _ this, of "network_policy_default\<lparr>np_allow := [''.example.com''],
      np_deny := [''*.Example.com'']\<rparr>"]
  show ?thesis by simp
qed

lemma strip_dot_entry:
  assumes "canonical_host h" "h \<noteq> []"
  shows "normalize_host (CHR ''.'' # h) = CHR ''.'' # h" "normalize_host (''*.'' @ h) = CHR ''.'' # h"
proof -
  have d: "\<not> is_ws CHR ''.''" "\<not> is_ws CHR ''*''" "ascii_lower CHR ''.'' = CHR ''.''"
    "ascii_lower CHR ''*'' = CHR ''*''" by (simp_all add: is_ws_def)
  have c: "canonical_host (CHR ''.'' # h)"
    using assms d by (simp add: canonical_host_def no_ws_def lowercase_def)
  then show "normalize_host (CHR ''.'' # h) = CHR ''.'' # h" by (rule canonical_normalize)
  have "no_ws (''*.'' @ h)" "trim_end_matches is_dot (''*.'' @ h) = ''*.'' @ h"
    "lowercase (''*.'' @ h) = ''*.'' @ h"
    using assms d by (simp_all add: canonical_host_def no_ws_def lowercase_def trim_end_matches_id)
  then show "normalize_host (''*.'' @ h) = CHR ''.'' # h"
    by (simp add: normalize_host_def no_ws_trim strip_prefix_def)
qed

text \<open>
  An entry \<open>.h\<close> or \<open>*.h\<close> matches exactly the names that end in \<open>.h\<close>, so never the apex \<open>h\<close>
  itself; an entry \<open>h\<close> without a leading dot matches \<open>h\<close> and nothing else.
\<close>

theorem host_entry_meaning:
  assumes "canonical_host h" "h \<noteq> []"
  shows "host_matches (CHR ''.'' # h) name = suffix (CHR ''.'' # h) name
    \<and> host_matches (''*.'' @ h) name = suffix (CHR ''.'' # h) name
    \<and> \<not> host_matches (CHR ''.'' # h) h \<and> \<not> host_matches (''*.'' @ h) h
    \<and> (hd h \<noteq> CHR ''.'' \<longrightarrow> host_matches h name = (name = h))"
proof -
  have w: "host_matches (CHR ''.'' # h) n = suffix (CHR ''.'' # h) n"
    "host_matches (''*.'' @ h) n = suffix (CHR ''.'' # h) n" for n
    using assms(2) unfolding host_matches_def strip_dot_entry [OF assms]
    by (simp_all add: strip_prefix_def)
  have "\<not> suffix (CHR ''.'' # h) h"
    by (auto dest: suffix_length_le)
  moreover have "host_matches h name = (name = h)" if "hd h \<noteq> CHR ''.''"
    using that assms by (cases h) (auto simp: host_matches_def canonical_normalize strip_prefix_def)
  ultimately show ?thesis by (simp only: w simp_thms) blast
qed

theorem host_entry_meaning_witness:
  "\<not> host_matches ''.example.com'' ''example.com'' \<and> host_matches ''.example.com'' ''api.example.com''
   \<and> \<not> host_matches ''example.com'' ''api.example.com''"
proof -
  have c: "canonical_host ''example.com''" by code_simp
  have "suffix ''.example.com'' ''api.example.com''"
    unfolding suffix_def by (rule exI [of _ "''api''"]) simp
  with host_entry_meaning [OF c, of "''api.example.com''"] show ?thesis by simp
qed

text \<open>
  Decisions do not depend on the case of a host name or on the dots at its end (all of them, not
  only one).
\<close>

theorem decide_ignores_case_and_dots:
  assumes "no_ws host" "\<forall>c \<in> set dots. c = CHR ''.''"
  shows "decide p (lowercase host @ dots) = decide p host"
  by (rule decide_by_normalized)
    (simp add: normalize_host_dots assms normalize_host_lowercase)

theorem decide_ignores_case_and_dots_witness:
  "decide network_policy_default (lowercase ''API.Example.com'' @ ''..'')
     = decide network_policy_default ''API.Example.com''"
  by (rule decide_ignores_case_and_dots) code_simp+

lemma host_matches_refl:
  "canonical_host h \<Longrightarrow> h \<noteq> [] \<Longrightarrow> hd h \<noteq> CHR ''.'' \<Longrightarrow> host_matches h h"
  by (cases h) (auto simp: host_matches_def canonical_normalize strip_prefix_def)

definition allow_list_distinct :: "network_policy \<Rightarrow> bool" where
  "allow_list_distinct p \<longleftrightarrow> distinct (map normalize_host (np_allow p))"

text \<open>
  Adding a host to the allow list is idempotent and never repeats an entry. Afterwards the host
  is allowed unless the deny list matches it, and the decision for every other exact host is what
  it was.
\<close>

theorem add_allow_correct:
  assumes "no_ws host" "normalize_host host \<noteq> []" "hd (normalize_host host) \<noteq> CHR ''.''"
  shows "add_allow (add_allow p host) host = add_allow p host
    \<and> (allow_list_distinct p \<longrightarrow> allow_list_distinct (add_allow p host))
    \<and> decide (add_allow p host) host =
        (if list_ex (\<lambda>e. host_matches e (normalize_host host)) (np_deny p) then Deny else Allow)
    \<and> (normalize_host other \<noteq> normalize_host host \<longrightarrow> decide (add_allow p host) other = decide p other)"
proof (intro conjI)
  let ?h = "normalize_host host"
  have c: "canonical_host ?h" and i: "normalize_host ?h = ?h"
    using assms(1) by (simp_all add: normalize_canonical canonical_normalize)
  have m: "host_matches e n = (n = ?h)" if "normalize_host e = ?h" for e n
    using that assms(2,3) by (cases ?h) (auto simp: host_matches_def strip_prefix_def)
  show "add_allow (add_allow p host) host = add_allow p host"
    using assms(2) i by (simp add: add_allow_def Let_def)
  show "allow_list_distinct p \<longrightarrow> allow_list_distinct (add_allow p host)"
    using i by (auto simp: add_allow_def Let_def allow_list_distinct_def list_ex_iff)
  show "decide (add_allow p host) host =
       (if list_ex (\<lambda>e. host_matches e ?h) (np_deny p) then Deny else Allow)"
    using assms(2) m m [OF i] by (auto simp: add_allow_def Let_def decide_def list_ex_iff)
  show "normalize_host other \<noteq> ?h \<longrightarrow> decide (add_allow p host) other = decide p other"
    using m [OF i] by (simp add: add_allow_def Let_def decide_def)
qed

theorem add_allow_correct_witness:
  "decide (add_allow network_policy_default ''API.Example.com'') ''API.Example.com'' = Allow"
proof -
  have "no_ws ''API.Example.com''" "normalize_host ''API.Example.com'' \<noteq> []"
    "hd (normalize_host ''API.Example.com'') \<noteq> CHR ''.''" by code_simp+
  from add_allow_correct [OF this, of network_policy_default]
  show ?thesis by (simp add: network_policy_default_def)
qed

section \<open>IPv4 ranges, as arithmetic\<close>

lemma u8_le_32: "(p :: u8) \<le> 32 \<Longrightarrow> unat (32 - p) = 32 - unat p \<and> unat p \<le> 32"
  by (simp add: unat_sub word_le_nat_alt)

lemma high_bits_eq:
  fixes a b :: u32
  assumes "n < 32"
  shows "and a (push_bit n 0xFFFFFFFF) = and b (push_bit n 0xFFFFFFFF) \<longleftrightarrow> drop_bit n a = drop_bit n b"
proof -
  have ones: "(0xFFFFFFFF :: u32) = - 1" by simp
  have "and a (push_bit n (- 1)) = and b (push_bit n (- 1)) \<longleftrightarrow>
      (\<forall>i < 32. n \<le> i \<longrightarrow> bit a i = bit b i)"
    by (auto simp: bit_eq_iff bit_simps)
  also have "\<dots> \<longleftrightarrow> drop_bit n a = drop_bit n b"
  proof
    assume h: "\<forall>i < 32. n \<le> i \<longrightarrow> bit a i = bit b i"
    show "drop_bit n a = drop_bit n b"
    proof (rule bit_eqI)
      fix i assume "possible_bit TYPE(32 word) i"
      show "bit (drop_bit n a) i = bit (drop_bit n b) i"
        using h by (cases "n + i < 32") (auto simp: bit_simps dest: bit_imp_le_length)
    qed
  next
    assume h: "drop_bit n a = drop_bit n b"
    show "\<forall>i < 32. n \<le> i \<longrightarrow> bit a i = bit b i"
    proof (intro allI impI)
      fix i assume "n \<le> i"
      moreover have "bit (drop_bit n a) (i - n) = bit (drop_bit n b) (i - n)" by (simp only: h)
      ultimately show "bit a i = bit b i" by (simp add: bit_drop_bit_eq)
    qed
  qed
  finally show ?thesis unfolding ones .
qed

lemma ipv4_in_cidr_iff:
  assumes "p \<le> 32"
  shows "ipv4_in_cidr ip base p \<longleftrightarrow>
    unat ip div 2 ^ (32 - unat p) = unat base div 2 ^ (32 - unat p)"
proof (cases "p = 0")
  case True
  have "unat w < 2 ^ LENGTH(32)" for w :: u32 by (rule unsigned_less)
  then have "unat w div 2 ^ 32 = 0" for w :: u32 by simp
  with True show ?thesis by (simp add: ipv4_in_cidr_def)
next
  case False
  then have "0 < unat p" by (simp add: unat_gt_0)
  with u8_le_32 [OF assms] have n: "unat (32 - p) = 32 - unat p" "32 - unat p < 32" by auto
  have "ipv4_in_cidr ip base p \<longleftrightarrow> drop_bit (32 - unat p) ip = drop_bit (32 - unat p) base"
    using False high_bits_eq [OF n(2)] n(1) by (simp add: ipv4_in_cidr_def)
  also have "\<dots> \<longleftrightarrow> unat (drop_bit (32 - unat p) ip) = unat (drop_bit (32 - unat p) base)"
    by (rule word_unat_eq_iff)
  finally show ?thesis by (simp only: unat_drop_bit_eq) (simp only: drop_bit_eq_div)
qed

lemma parse_ipv4_cidr_bound: "parse_ipv4_cidr cidr = Some (base, p) \<Longrightarrow> p \<le> 32"
  by (auto simp: parse_ipv4_cidr_def split: option.splits if_splits)

text \<open>
  A range \<open>base/p\<close> that parses has \<open>p \<le> 32\<close>, so the shift of the mask never overflows, and
  it contains exactly the addresses that agree with \<open>base\<close> in their \<open>p\<close> leading bits.
\<close>

theorem cidr_membership:
  assumes "parse_ipv4_cidr cidr = Some (base, p)"
  shows "unat p \<le> 32 \<and> (ipv4_in_cidr ip base p \<longleftrightarrow>
    unat ip div 2 ^ (32 - unat p) = unat base div 2 ^ (32 - unat p))"
  using parse_ipv4_cidr_bound [OF assms] u8_le_32 ipv4_in_cidr_iff by blast

theorem cidr_membership_witness:
  "parse_ipv4_cidr ''198.18.0.0/15'' = Some (0xC6120000, 15)
   \<and> ipv4_in_cidr 0xC6130001 0xC6120000 15 \<and> \<not> ipv4_in_cidr 0xC6140000 0xC6120000 15"
proof -
  have p: "parse_ipv4_cidr ''198.18.0.0/15'' = Some (0xC6120000, 15)" by code_simp
  show ?thesis
    using p cidr_membership [OF p, of "0xC6130001"] cidr_membership [OF p, of "0xC6140000"] by simp
qed

section \<open>The session cache as an interface\<close>

datatype user_answer = ApproveOnce string | DenyOnce string | ApproveAlways string

fun answer_host :: "user_answer \<Rightarrow> string" where
  "answer_host (ApproveOnce h) = h"
| "answer_host (DenyOnce h) = h"
| "answer_host (ApproveAlways h) = h"

fun answer_approves :: "user_answer \<Rightarrow> bool" where
  "answer_approves (DenyOnce _) = False"
| "answer_approves _ = True"

text \<open>The specification: the last answer given for a host, with hosts compared by \<open>norm\<close>.\<close>

fun last_answer :: "(string \<Rightarrow> string) \<Rightarrow> user_answer list \<Rightarrow> string \<Rightarrow> bool option" where
  "last_answer norm [] h = None"
| "last_answer norm (a # as) h =
     (case last_answer norm as h of
        Some b \<Rightarrow> Some b
      | None \<Rightarrow> if norm (answer_host a) = norm h then Some (answer_approves a) else None)"

lemma last_answer_snoc:
  "last_answer norm (as @ [a]) h =
     (if norm (answer_host a) = norm h then Some (answer_approves a) else last_answer norm as h)"
  by (induction as) auto

locale session_cache =
  fixes norm :: "string \<Rightarrow> string"
    and empty :: 'c
    and approve :: "'c \<Rightarrow> string \<Rightarrow> 'c"
    and deny :: "'c \<Rightarrow> string \<Rightarrow> 'c"
    and is_approved :: "'c \<Rightarrow> string \<Rightarrow> bool"
    and is_denied :: "'c \<Rightarrow> string \<Rightarrow> bool"
  assumes empty: "\<not> is_approved empty h" "\<not> is_denied empty h"
    and approve: "is_approved (approve c g) h \<longleftrightarrow> norm g = norm h \<or> is_approved c h"
      "is_denied (approve c g) h \<longleftrightarrow> norm g \<noteq> norm h \<and> is_denied c h"
    and deny: "is_denied (deny c g) h \<longleftrightarrow> norm g = norm h \<or> is_denied c h"
      "is_approved (deny c g) h \<longleftrightarrow> norm g \<noteq> norm h \<and> is_approved c h"
begin

definition answered :: "user_answer list \<Rightarrow> 'c" where
  "answered as = foldl (\<lambda>c a. if answer_approves a then approve c (answer_host a)
     else deny c (answer_host a)) empty as"

lemma answered_lookup:
  "is_approved (answered as) h \<longleftrightarrow> last_answer norm as h = Some True"
  "is_denied (answered as) h \<longleftrightarrow> last_answer norm as h = Some False"
  by (induction as rule: rev_induct)
    (auto simp: answered_def empty approve deny last_answer_snoc)

lemma answered_exclusive: "\<not> (is_approved (answered as) h \<and> is_denied (answered as) h)"
  by (simp add: answered_lookup)

end

interpretation nsc: session_cache normalize_host cache_new cache_approve cache_deny
  cache_is_approved cache_is_denied
  by unfold_locales
    (auto simp: cache_new_def cache_approve_def cache_deny_def cache_is_approved_def cache_is_denied_def Let_def)

section \<open>Evaluation after the user's answers\<close>

fun give_answer ::
  "audit_env \<Rightarrow> string \<Rightarrow> network_policy_decider \<times> string \<Rightarrow> user_answer \<Rightarrow> network_policy_decider \<times> string" where
  "give_answer env tool (d, log) (ApproveOnce h) = approve_session env d h tool log"
| "give_answer env tool (d, log) (DenyOnce h) = deny_session env d h tool log"
| "give_answer env tool (d, log) (ApproveAlways h) = approve_persistent env d h tool log"

fun always_hosts :: "user_answer list \<Rightarrow> string list" where
  "always_hosts [] = []"
| "always_hosts (ApproveAlways h # as) = h # always_hosts as"
| "always_hosts (_ # as) = always_hosts as"

lemma always_hosts_append: "always_hosts (as @ bs) = always_hosts as @ always_hosts bs"
  by (induction as rule: always_hosts.induct) simp_all

lemma give_answer_step:
  "policy (fst (give_answer env tool s x)) = foldl add_allow (policy (fst s)) (always_hosts [x])
   \<and> cache (fst (give_answer env tool s x)) =
       (if answer_approves x then cache_approve (cache (fst s)) (answer_host x)
        else cache_deny (cache (fst s)) (answer_host x))
   \<and> auditor (fst (give_answer env tool s x)) = auditor (fst s)"
  by (cases s; cases x) (simp_all add: approve_session_def deny_session_def approve_persistent_def)

lemma give_answers_state:
  "policy (fst (foldl (give_answer env tool) (decider_new p a, log) as)) = foldl add_allow p (always_hosts as)
   \<and> cache (fst (foldl (give_answer env tool) (decider_new p a, log) as)) = nsc.answered as
   \<and> auditor (fst (foldl (give_answer env tool) (decider_new p a, log) as)) = a"
proof (induction as rule: rev_induct)
  case Nil
  show ?case by (simp add: decider_new_def nsc.answered_def)
next
  case (snoc x as)
  have "nsc.answered (as @ [x]) = (if answer_approves x then cache_approve (nsc.answered as) (answer_host x)
        else cache_deny (nsc.answered as) (answer_host x))"
    by (simp add: nsc.answered_def)
  with snoc show ?case
    by (simp only: foldl_append foldl.simps give_answer_step always_hosts_append simp_thms)
qed



section \<open>What the audit log holds\<close>

lemma sanitize_field_word: "is_word (sanitize_field s) \<longleftrightarrow> s \<noteq> []"
  by (auto simp: is_word_def sanitize_field_def is_ws_def)

text \<open>
  One call appends at most one line to the audit log and changes nothing before it: exactly one
  for a host that is allowed or denied, none for a prompt. The line splits at white space into the
  five documented fields, whatever characters the host and the tool name hold.
\<close>

theorem evaluate_audits_one_line:
  assumes "auditor d = Some au" "aud_enabled au" "env_write_ok env"
    and "is_word (env_timestamp env)" "tool \<noteq> []" "normalize_host host \<noteq> []"
    and "evaluate env d host tool log = (dec, log')"
  shows "if dec = Prompt then log' = log
    else \<exists>line. log' = log @ line @ [CHR 0x0A]
      \<and> split_whitespace line = [env_timestamp env, ''network'', sanitize_field (normalize_host host),
           sanitize_field tool, decision_as_str dec]"
proof -
  have w: "is_word ''network''" "is_word (decision_as_str dec)"
    by (simp add: is_word_def is_ws_def) (cases dec; simp add: is_word_def is_ws_def)
  let ?fs = "[env_timestamp env, ''network'', sanitize_field (normalize_host host),
           sanitize_field tool, decision_as_str dec]"
  have line: "audit_line (env_timestamp env) (normalize_host host) tool (decision_as_str dec) = join_with '' '' ?fs"
    by (simp add: audit_line_def)
  have "split_whitespace (join_with '' '' ?fs) = ?fs"
    using assms(4-6) w by (intro split_whitespace_join) (simp add: sanitize_field_word)
  moreover have "log' = (if dec = Prompt then log
      else log @ audit_line (env_timestamp env) (normalize_host host) tool (decision_as_str dec) @ [CHR 0x0A])"
    using assms(1-3,6,7)
    by (auto simp: evaluate_def Let_def audit_record_def auditor_record_def split: if_splits decision.splits)
  ultimately show ?thesis by (simp add: line del: join_with.simps)
qed

theorem evaluate_audits_one_line_witness:
  "\<exists>line. snd (evaluate \<lparr>env_timestamp = ''2026-01-01'', env_write_ok = True\<rparr>
       (decider_new (network_policy_default\<lparr>np_deny := [''x.org'']\<rparr>) (Some (auditor_new ''a.log'' True)))
       ''X.org'' ''my tool'' ''old'') = ''old'' @ line @ [CHR 0x0A]
     \<and> length (split_whitespace line) = 5"
proof -
  let ?env = "\<lparr>env_timestamp = ''2026-01-01'', env_write_ok = True\<rparr>"
  let ?d = "decider_new (network_policy_default\<lparr>np_deny := [''x.org'']\<rparr>) (Some (auditor_new ''a.log'' True))"
  have a: "auditor ?d = Some (auditor_new ''a.log'' True)" "aud_enabled (auditor_new ''a.log'' True)"
    by (simp_all add: decider_new_def auditor_new_def)
  have b: "env_write_ok ?env" "is_word (env_timestamp ?env)" "''my tool'' \<noteq> []"
    "normalize_host ''X.org'' \<noteq> []" by code_simp+
  have "decide (policy ?d) ''x.org'' = Deny" "normalize_host ''X.org'' = ''x.org''" by code_simp+
  then have "fst (evaluate ?env ?d ''X.org'' ''my tool'' ''old'') = Deny"
    by (simp add: evaluate_def decider_new_def cache_is_denied_def cache_is_approved_def cache_new_def Let_def)
  then show ?thesis
    using evaluate_audits_one_line [OF a b(1-4) prod.collapse [symmetric], of "''old''"] by auto
qed

end
