(* ===== verification/Word_Saturate.thy ===== *)
theory Word_Saturate
  imports Rust_Std
begin

text \<open>
  Saturating arithmetic on Rust's unsigned integers: \<open>saturating_add\<close>, \<open>saturating_sub\<close>,
  \<open>saturating_mul\<close> and the narrowing idiom \<open>.min(MAX) as uN\<close>, with the facts that read each of
  them back as natural numbers. The signed \<open>i64\<close> time arithmetic is on \<^typ>\<open>int\<close> with the
  bounds written out.
\<close>

definition sat_add :: "'a::len word \<Rightarrow> 'a word \<Rightarrow> 'a word" where
  "sat_add a b = of_nat (min (unat a + unat b) (2 ^ LENGTH('a) - 1))"

definition sat_sub :: "'a::len word \<Rightarrow> 'a word \<Rightarrow> 'a word" where
  "sat_sub a b = of_nat (unat a - unat b)"

definition sat_mul :: "'a::len word \<Rightarrow> 'a word \<Rightarrow> 'a word" where
  "sat_mul a b = of_nat (min (unat a * unat b) (2 ^ LENGTH('a) - 1))"

lemma unat_of_nat_small: "n < 2 ^ LENGTH('a) \<Longrightarrow> unat (of_nat n :: 'a::len word) = n"
  by (simp add: unat_of_nat take_bit_nat_eq_self)

lemma unat_sat_add [rust_std]:
  "unat (sat_add a b :: 'a::len word) = min (unat a + unat b) (2 ^ LENGTH('a) - 1)"
  unfolding sat_add_def by (rule unat_of_nat_small) (simp add: min_less_iff_disj)

lemma unat_sat_mul [rust_std]:
  "unat (sat_mul a b :: 'a::len word) = min (unat a * unat b) (2 ^ LENGTH('a) - 1)"
  unfolding sat_mul_def by (rule unat_of_nat_small) (simp add: min_less_iff_disj)

lemma unat_sat_sub [rust_std]: "unat (sat_sub a b :: 'a::len word) = unat a - unat b"
  unfolding sat_sub_def
  by (rule unat_of_nat_small) (meson diff_le_self le_less_trans unsigned_less)

text \<open>For evaluation: saturation as the test for overflow, without the naturals.\<close>

lemma sat_add_code [code]: "sat_add a b = (if a + b < a then - 1 else a + b)"
proof (cases "unat a + unat b < 2 ^ LENGTH('a)")
  case True
  then have s: "unat (a + b) = unat a + unat b" by (simp add: unat_word_ariths take_bit_nat_eq_self)
  then have "unat (sat_add a b) = unat (a + b)" using True by (simp add: unat_sat_add)
  then have "sat_add a b = a + b" by (simp only: word_unat_eq_iff)
  then show ?thesis using s by (simp add: word_less_nat_alt)
next
  case False
  have b: "unat a < 2 ^ LENGTH('a)" "unat b < 2 ^ LENGTH('a)" by (rule unsigned_less)+
  from b False have "unat a + unat b - 2 ^ LENGTH('a) < 2 ^ LENGTH('a)" by linarith
  then have "unat (a + b) = unat a + unat b - 2 ^ LENGTH('a)"
    using False by (simp add: unat_word_ariths le_mod_geq)
  moreover from False b have "unat a + unat b - 2 ^ LENGTH('a) < unat a" by linarith
  ultimately have "a + b < a" by (simp add: word_less_nat_alt)
  moreover have "unat (sat_add a b) = unat (- 1 :: 'a word)"
    using False by (simp add: unat_sat_add unsigned_minus_1_eq_mask mask_eq_exp_minus_1)
  then have "sat_add a b = - 1" by (simp only: word_unat_eq_iff)
  ultimately show ?thesis by simp
qed

lemma uint_mult_less: "uint a * uint b < 2 ^ n \<longleftrightarrow> unat a * unat b < 2 ^ n"
proof -
  have "uint a * uint b < 2 ^ n \<longleftrightarrow> int (unat a * unat b) < int (2 ^ n)"
    by (simp only: uint_nat of_nat_mult of_nat_power of_nat_numeral)
  then show ?thesis by (simp only: of_nat_less_iff)
qed

lemma sat_mul_code [code]:
  "sat_mul a b = (if uint a * uint b < 2 ^ LENGTH('a) then a * b else (- 1 :: 'a::len word))"
proof (cases "unat a * unat b < 2 ^ LENGTH('a)")
  case True
  then have "unat (sat_mul a b) = unat (a * b)" by (simp add: unat_sat_mul unat_word_ariths take_bit_nat_eq_self)
  then have "sat_mul a b = a * b" by (simp only: word_unat_eq_iff)
  with True show ?thesis by (simp only: uint_mult_less if_True)
next
  case False
  then have "unat (sat_mul a b) = unat (- 1 :: 'a word)"
    by (simp add: unat_sat_mul unsigned_minus_1_eq_mask mask_eq_exp_minus_1)
  then have "sat_mul a b = - 1" by (simp only: word_unat_eq_iff)
  with False show ?thesis by (simp only: uint_mult_less if_False)
qed

lemma sat_sub_code [code]: "sat_sub a b = (if a \<le> b then 0 else a - b)"
proof -
  have "unat (sat_sub a b) = unat (if a \<le> b then 0 else a - b)"
    by (simp add: unat_sat_sub word_le_nat_alt unat_sub)
  then show ?thesis by (simp only: word_unat_eq_iff)
qed

text \<open>A counter below a bound does not saturate.\<close>

lemma sat_add_below:
  assumes "a < (n :: 'a::len word)"
  shows "unat (sat_add a 1) = unat a + 1" and "sat_add a 1 \<le> n"
proof -
  have "unat a < unat n" using assms by (simp add: word_less_nat_alt)
  moreover have "unat n < 2 ^ LENGTH('a)" by (rule unsigned_less)
  then have "unat a + 1 < 2 ^ LENGTH('a)" using \<open>unat a < unat n\<close> by linarith
  moreover have "unat (1 :: 'a word) = 1" by (simp add: unat_1)
  ultimately show s: "unat (sat_add a 1) = unat a + 1" by (simp add: unat_sat_add min_def)
  show "sat_add a 1 \<le> n" using s \<open>unat a < unat n\<close> by (simp add: word_le_nat_alt)
qed

definition i64_min :: int where "i64_min = - (2 ^ 63)"
definition i64_max :: int where "i64_max = 2 ^ 63 - 1"

definition in_i64 :: "int \<Rightarrow> bool" where
  "in_i64 x \<longleftrightarrow> i64_min \<le> x \<and> x \<le> i64_max"

text \<open>\<open>i64::saturating_add\<close>.\<close>

definition sat_add_i64 :: "int \<Rightarrow> int \<Rightarrow> int" where
  "sat_add_i64 x y = max i64_min (min (x + y) i64_max)"

lemma in_i64_sat_add [rust_std]: "in_i64 (sat_add_i64 x y)"
  by (auto simp: in_i64_def sat_add_i64_def i64_min_def i64_max_def)

lemma sat_add_i64_exact: "in_i64 (x + y) \<Longrightarrow> sat_add_i64 x y = x + y"
  by (auto simp: in_i64_def sat_add_i64_def)

end
