(* ===== verification/Json_Value.thy ===== *)
theory Json_Value
  imports Word_Saturate "HOL-Library.Countable"
begin

text \<open>
  \<open>serde_json::Value\<close> as the modelled code uses it. The workspace enables \<open>preserve_order\<close>
  (\<open>crates/tui/Cargo.toml\<close>), so an object is the list of its entries in insertion order. Numbers
  are the integers of \<open>u64\<close> and \<open>i64\<close> or a float given by its bits. The text format is the
  library's: \<open>ser\<close> (\<open>Value::to_string\<close>) and \<open>de\<close> (\<open>serde_json::from_str\<close>) are parameters, and what
  the code relies on is \<open>json_codec ser de\<close>. The parser refuses values nested more than 127 deep; where the values are
  the code's own and flat, the weaker \<open>bounded_codec ser de\<close> is enough.
\<close>

datatype json =
    JNull
  | JBool bool
  | JInt int
  | JFloat "64 word"
  | JStr string
  | JArr "json list"
  | JObj "(string \<times> json) list"

instance json :: countable
  by countable_datatype

text \<open>Values that come back unchanged from their text: integers in range, no floats, no repeated keys.\<close>

fun json_wf :: "json \<Rightarrow> bool" where
  "json_wf (JInt n) \<longleftrightarrow> - (2 ^ 63) \<le> n \<and> n < 2 ^ 64"
| "json_wf (JFloat _) \<longleftrightarrow> False"
| "json_wf (JArr vs) \<longleftrightarrow> (\<forall>v \<in> set vs. json_wf v)"
| "json_wf (JObj kvs) \<longleftrightarrow> distinct (map fst kvs) \<and> (\<forall>kv \<in> set kvs. json_wf (snd kv))"
| "json_wf _ \<longleftrightarrow> True"

definition json_codec :: "(json \<Rightarrow> string) \<Rightarrow> (string \<Rightarrow> json option) \<Rightarrow> bool" where
  "json_codec ser de \<longleftrightarrow> (\<forall>v. json_wf v \<longrightarrow> de (ser v) = Some v)"

text \<open>The nesting of a value, and a codec up to the recursion limit of the parser.\<close>

fun json_depth :: "json \<Rightarrow> nat" where
  "json_depth (JArr vs) = Suc (fold max (map json_depth vs) 0)"
| "json_depth (JObj kvs) = Suc (fold max (map (\<lambda>kv. json_depth (snd kv)) kvs) 0)"
| "json_depth v = 0"

definition bounded_codec :: "(json \<Rightarrow> string) \<Rightarrow> (string \<Rightarrow> json option) \<Rightarrow> bool" where
  "bounded_codec ser de \<longleftrightarrow> (\<forall>v. json_wf v \<and> json_depth v < 128 \<longrightarrow> de (ser v) = Some v)"

lemma bounded_codecI: "json_codec ser de \<Longrightarrow> bounded_codec ser de"
  by (simp add: json_codec_def bounded_codec_def)

text \<open>A codec exists: number the values and write the number in unary.\<close>

definition unary_ser :: "json \<Rightarrow> string" where
  "unary_ser v = replicate (to_nat v) CHR ''1''"

definition unary_de :: "string \<Rightarrow> json option" where
  "unary_de s = Some (from_nat (length s))"

lemma json_codec_unary: "json_codec unary_ser unary_de"
  by (simp add: json_codec_def unary_ser_def unary_de_def)

text \<open>\<open>Value::get\<close>, \<open>as_str\<close>, \<open>as_u64\<close>, \<open>as_i64\<close>, \<open>as_array\<close>, \<open>as_bool\<close>.\<close>

fun json_get :: "string \<Rightarrow> json \<Rightarrow> json option" where
  "json_get k (JObj kvs) = map_of kvs k"
| "json_get k _ = None"

fun as_str :: "json \<Rightarrow> string option" where
  "as_str (JStr s) = Some s"
| "as_str _ = None"

fun as_u64 :: "json \<Rightarrow> u64 option" where
  "as_u64 (JInt n) = (if 0 \<le> n \<and> n < 2 ^ 64 then Some (of_int n) else None)"
| "as_u64 _ = None"

fun as_i64 :: "json \<Rightarrow> int option" where
  "as_i64 (JInt n) = (if in_i64 n then Some n else None)"
| "as_i64 _ = None"

fun as_array :: "json \<Rightarrow> json list option" where
  "as_array (JArr vs) = Some vs"
| "as_array _ = None"

fun as_bool :: "json \<Rightarrow> bool option" where
  "as_bool (JBool b) = Some b"
| "as_bool _ = None"

text \<open>The keys of \<open>as_object\<close>, none for any other value.\<close>

fun object_keys :: "json \<Rightarrow> string list" where
  "object_keys (JObj kvs) = map fst kvs"
| "object_keys _ = []"

text \<open>The conversions of the \<open>json!\<close> macro.\<close>

definition json_of_word :: "'a::len word \<Rightarrow> json" where
  "json_of_word w = JInt (uint w)"

definition json_of_option :: "('a \<Rightarrow> json) \<Rightarrow> 'a option \<Rightarrow> json" where
  "json_of_option f x = (case x of None \<Rightarrow> JNull | Some a \<Rightarrow> f a)"

lemma json_of_option_simps [simp]:
  "json_of_option f None = JNull" "json_of_option f (Some a) = f a"
  by (simp_all add: json_of_option_def)

lemma uint_ranges:
  "uint (w :: u64) < 18446744073709551616" "uint (v :: u32) < 18446744073709551616"
  "uint (b :: u8) < 18446744073709551616"
proof -
  have "uint w < 2 ^ LENGTH(64)" "uint v < 2 ^ LENGTH(32)" "uint b < 2 ^ LENGTH(8)"
    by (rule unsigned_less)+
  then show "uint w < 18446744073709551616" "uint v < 18446744073709551616"
    "uint b < 18446744073709551616" by simp_all
qed

lemma as_u64_word [simp]:
  "as_u64 (json_of_word (w :: u64)) = Some w" "as_u64 (json_of_word (v :: u32)) = Some (ucast v)"
  "as_u64 (json_of_word (b :: u8)) = Some (ucast b)"
  using uint_ranges by (simp_all add: json_of_word_def)

lemma json_wf_word [simp]:
  "json_wf (json_of_word (w :: u64))" "json_wf (json_of_word (v :: u32))" "json_wf (json_of_word (b :: u8))"
  using uint_ranges by (simp_all add: json_of_word_def order_trans [of _ 0])

text \<open>\<open>v.min(uN::MAX as u64) as uN\<close>.\<close>

definition narrow :: "u64 \<Rightarrow> 'a::len word" where
  "narrow v = of_nat (min (unat v) (2 ^ LENGTH('a) - 1))"

lemma narrow_ucast [simp]: "narrow (ucast (w :: u32)) = w" "narrow (ucast (b :: u8)) = b"
proof -
  have "unat w < 2 ^ LENGTH(32)" "unat b < 2 ^ LENGTH(8)"
    by (rule unsigned_less)+
  then have "unat w \<le> 2 ^ 32 - 1" "unat b \<le> 2 ^ 8 - 1" by simp_all
  moreover have "unat (ucast w :: u64) = unat w" "unat (ucast b :: u64) = unat b"
    by (simp_all only: flip: nat_uint_eq) (simp_all add: uint_up_ucast is_up)
  ultimately show "narrow (ucast w) = w" "narrow (ucast b) = b" by (simp_all add: narrow_def)
qed

end
