(* ===== verification/Job_Manager.thy ===== *)
theory Job_Manager
  imports Json_Value
begin

text \<open>
  Background jobs: \<open>JobManager\<close> and the job operations of \<open>Runtime\<close> in \<open>crates/core/src/lib.rs\<close>, with
  the \<open>jobs\<close> table of \<open>crates/state/src/lib.rs\<close> they are persisted to. The clock (\<open>now\<close>), the fresh
  identifier of \<open>enqueue\<close> and the iteration order of the \<open>HashMap\<close> are arguments; timestamps are
  \<open>i64\<close> seconds, kept as integers in range. Integers of a record keep their width.
\<close>

section \<open>Jobs\<close>

datatype job_status = Queued | Running | Paused | Completed | Failed | Cancelled

definition DEFAULT_JOB_MAX_ATTEMPTS :: u32 where "DEFAULT_JOB_MAX_ATTEMPTS = 3"
definition DEFAULT_JOB_BACKOFF_BASE_MS :: u64 where "DEFAULT_JOB_BACKOFF_BASE_MS = 500"
definition MAX_JOB_HISTORY_ENTRIES :: nat where "MAX_JOB_HISTORY_ENTRIES = 64"
definition JOB_DETAIL_SCHEMA_VERSION :: u8 where "JOB_DETAIL_SCHEMA_VERSION = 1"

record job_retry =
  attempt :: u32
  max_attempts :: u32
  backoff_base_ms :: u64
  next_backoff_ms :: u64
  next_retry_at :: "int option"

definition retry_default :: job_retry where
  "retry_default = \<lparr>attempt = 0, max_attempts = DEFAULT_JOB_MAX_ATTEMPTS,
     backoff_base_ms = DEFAULT_JOB_BACKOFF_BASE_MS, next_backoff_ms = 0, next_retry_at = None\<rparr>"

record job_history_entry =
  he_at :: int
  he_phase :: string
  he_status :: job_status
  he_progress :: "u8 option"
  he_detail :: "string option"
  he_retry :: job_retry

record persisted_job_detail =
  pd_status :: job_status
  pd_detail :: "string option"
  pd_retry :: job_retry
  pd_history :: "job_history_entry list"

record job_record =
  job_id :: string
  job_name :: string
  status :: job_status
  progress :: "u8 option"
  detail :: "string option"
  retry :: job_retry
  history :: "job_history_entry list"
  created_at :: int
  updated_at :: int

type_synonym job_manager = "string \<rightharpoonup> job_record"

definition deterministic_backoff_ms :: "job_retry \<Rightarrow> u64" where
  "deterministic_backoff_ms r =
     (if attempt r = 0 then 0
      else (let exponent = min (unat (sat_sub (attempt r) 1)) 20;
                multiplier = (if exponent < 64 then push_bit exponent 1 else 0xFFFFFFFFFFFFFFFF :: u64)
            in sat_mul (backoff_base_ms r) multiplier))"

definition clear_retry_schedule :: "job_retry \<Rightarrow> job_retry" where
  "clear_retry_schedule r = r\<lparr>next_backoff_ms := 0, next_retry_at := None\<rparr>"

definition history_entry_of :: "job_record \<Rightarrow> string \<Rightarrow> job_history_entry" where
  "history_entry_of j phase = \<lparr>he_at = updated_at j, he_phase = phase, he_status = status j,
     he_progress = progress j, he_detail = detail j, he_retry = retry j\<rparr>"

definition push_history :: "string \<Rightarrow> job_record \<Rightarrow> job_record" where
  "push_history phase j =
     (let h = history j @ [history_entry_of j phase]
      in j\<lparr>history := (if length h > MAX_JOB_HISTORY_ENTRIES
                       then drop (length h - MAX_JOB_HISTORY_ENTRIES) h else h)\<rparr>)"

section \<open>Operations\<close>

text \<open>\<open>if let Some(job) = self.jobs.get_mut(jid) { .. }\<close>.\<close>

definition with_job :: "string \<Rightarrow> (job_record \<Rightarrow> job_record) \<Rightarrow> job_manager \<Rightarrow> job_manager" where
  "with_job jid f m = (case m jid of Some j \<Rightarrow> m(jid \<mapsto> f j) | None \<Rightarrow> m)"

definition new_job :: "int \<Rightarrow> string \<Rightarrow> string \<Rightarrow> job_record" where
  "new_job now uuid name = push_history ''created''
     \<lparr>job_id = ''job-'' @ uuid, job_name = name, status = Queued, progress = Some 0, detail = None,
      retry = retry_default, history = [], created_at = now, updated_at = now\<rparr>"

definition enqueue :: "int \<Rightarrow> string \<Rightarrow> string \<Rightarrow> job_manager \<Rightarrow> job_manager \<times> job_record" where
  "enqueue now uuid name m = (let j = new_job now uuid name in (m(job_id j \<mapsto> j), j))"

definition set_running :: "int \<Rightarrow> string \<Rightarrow> job_manager \<Rightarrow> job_manager" where
  "set_running now jid = with_job jid (\<lambda>j. push_history ''running''
     (j\<lparr>status := Running, retry := clear_retry_schedule (retry j), updated_at := now\<rparr>))"

definition update_progress :: "int \<Rightarrow> string \<Rightarrow> u8 \<Rightarrow> string option \<Rightarrow> job_manager \<Rightarrow> job_manager" where
  "update_progress now jid p d = with_job jid (\<lambda>j. push_history ''progress_updated''
     (j\<lparr>progress := Some (min p 100), detail := d, updated_at := now\<rparr>))"

definition complete_job :: "int \<Rightarrow> string \<Rightarrow> job_manager \<Rightarrow> job_manager" where
  "complete_job now jid = with_job jid (\<lambda>j. push_history ''completed''
     (j\<lparr>status := Completed, progress := Some 100, retry := clear_retry_schedule (retry j),
        updated_at := now\<rparr>))"

definition schedule_retry :: "int \<Rightarrow> job_retry \<Rightarrow> job_retry" where
  "schedule_retry now r =
     (if attempt r < max_attempts r
      then (let r1 = r\<lparr>attempt := attempt r + 1\<rparr>;
                r2 = r1\<lparr>next_backoff_ms := deterministic_backoff_ms r1\<rparr>;
                delay_secs = min (uint (sat_add (next_backoff_ms r2) 999 div 1000)) i64_max
            in r2\<lparr>next_retry_at := Some (sat_add_i64 now delay_secs)\<rparr>)
      else clear_retry_schedule r)"

definition fail_job :: "int \<Rightarrow> string \<Rightarrow> string \<Rightarrow> job_manager \<Rightarrow> job_manager" where
  "fail_job now jid d = with_job jid (\<lambda>j. push_history ''failed''
     (j\<lparr>status := Failed, detail := Some d, retry := schedule_retry now (retry j), updated_at := now\<rparr>))"

definition cancel_job :: "int \<Rightarrow> string \<Rightarrow> job_manager \<Rightarrow> job_manager" where
  "cancel_job now jid = with_job jid (\<lambda>j. push_history ''cancelled''
     (j\<lparr>status := Cancelled, retry := clear_retry_schedule (retry j), updated_at := now\<rparr>))"

definition pause_job :: "int \<Rightarrow> string \<Rightarrow> string option \<Rightarrow> job_manager \<Rightarrow> job_manager" where
  "pause_job now jid d = with_job jid (\<lambda>j. push_history ''paused''
     (j\<lparr>status := Paused, detail := (if d \<noteq> None then d else detail j), updated_at := now\<rparr>))"

definition resume_job :: "int \<Rightarrow> string \<Rightarrow> string option \<Rightarrow> job_manager \<Rightarrow> job_manager" where
  "resume_job now jid d = with_job jid (\<lambda>j. push_history ''resumed''
     (j\<lparr>status := Running, detail := (if d \<noteq> None then d else detail j),
        retry := clear_retry_schedule (retry j), updated_at := now\<rparr>))"

text \<open>\<open>order\<close> lists the keys of the map in the order it is iterated; the sort is stable.\<close>

definition list_jobs_by_recency :: "string list \<Rightarrow> job_manager \<Rightarrow> job_record list" where
  "list_jobs_by_recency order m = sort_key (\<lambda>j. - updated_at j) (List.map_filter m order)"

definition job_history :: "string \<Rightarrow> job_manager \<Rightarrow> job_history_entry list" where
  "job_history jid m = (case m jid of Some j \<Rightarrow> history j | None \<Rightarrow> [])"

definition requeue :: "int \<Rightarrow> job_record \<Rightarrow> job_record" where
  "requeue now j = push_history ''queued_after_resume'' (j\<lparr>status := Queued, updated_at := now\<rparr>)"

text \<open>The loop of \<open>resume_pending\<close> over the keys in iteration order, each with its clock reading.\<close>

fun resume_pending :: "(string \<times> int) list \<Rightarrow> job_manager \<Rightarrow> job_manager \<times> job_record list" where
  "resume_pending [] m = (m, [])"
| "resume_pending ((jid, now) # rest) m =
     (case m jid of
        None \<Rightarrow> resume_pending rest m
      | Some j \<Rightarrow>
          if status j = Queued \<or> status j = Running
          then (let j' = requeue now j; (m', resumed) = resume_pending rest (m(jid \<mapsto> j'))
                in (m', j' # resumed))
          else resume_pending rest m)"

section \<open>The JSON detail column\<close>

fun job_status_to_str :: "job_status \<Rightarrow> string" where
  "job_status_to_str Queued = ''queued''"
| "job_status_to_str Running = ''running''"
| "job_status_to_str Paused = ''paused''"
| "job_status_to_str Completed = ''completed''"
| "job_status_to_str Failed = ''failed''"
| "job_status_to_str Cancelled = ''cancelled''"

definition job_status_from_str :: "string \<Rightarrow> job_status option" where
  "job_status_from_str s =
     (if s = ''queued'' then Some Queued
      else if s = ''running'' then Some Running
      else if s = ''paused'' then Some Paused
      else if s = ''completed'' then Some Completed
      else if s = ''failed'' then Some Failed
      else if s = ''cancelled'' then Some Cancelled
      else None)"

fun json_optional_string :: "json \<Rightarrow> string option" where
  "json_optional_string JNull = None"
| "json_optional_string v = as_str v"

definition job_retry_to_value :: "job_retry \<Rightarrow> json" where
  "job_retry_to_value r = JObj
     [(''attempt'', json_of_word (attempt r)),
      (''max_attempts'', json_of_word (max_attempts r)),
      (''backoff_base_ms'', json_of_word (backoff_base_ms r)),
      (''next_backoff_ms'', json_of_word (next_backoff_ms r)),
      (''next_retry_at'', json_of_option JInt (next_retry_at r))]"

definition job_history_to_value :: "job_history_entry \<Rightarrow> json" where
  "job_history_to_value h = JObj
     [(''at'', JInt (he_at h)),
      (''phase'', JStr (he_phase h)),
      (''status'', JStr (job_status_to_str (he_status h))),
      (''progress'', json_of_option json_of_word (he_progress h)),
      (''detail'', json_of_option JStr (he_detail h)),
      (''retry'', job_retry_to_value (he_retry h))]"

definition u64_field :: "string \<Rightarrow> json \<Rightarrow> u64 option" where
  "u64_field k v = Option.bind (json_get k v) as_u64"

fun parse_retry_metadata :: "json option \<Rightarrow> job_retry" where
  "parse_retry_metadata None = retry_default"
| "parse_retry_metadata (Some v) =
     \<lparr>attempt = narrow (case u64_field ''attempt'' v of Some n \<Rightarrow> n | None \<Rightarrow> 0),
      max_attempts = narrow (case u64_field ''max_attempts'' v of Some n \<Rightarrow> n
                             | None \<Rightarrow> ucast DEFAULT_JOB_MAX_ATTEMPTS),
      backoff_base_ms = (case u64_field ''backoff_base_ms'' v of Some n \<Rightarrow> n
                         | None \<Rightarrow> DEFAULT_JOB_BACKOFF_BASE_MS),
      next_backoff_ms = (case u64_field ''next_backoff_ms'' v of Some n \<Rightarrow> n | None \<Rightarrow> 0),
      next_retry_at = Option.bind (json_get ''next_retry_at'' v) as_i64\<rparr>"

definition parse_status :: "json \<Rightarrow> job_status option" where
  "parse_status v = Option.bind (Option.bind (json_get ''status'' v) as_str) job_status_from_str"

definition parse_history_entry :: "json \<Rightarrow> job_history_entry option" where
  "parse_history_entry v =
     map_option (\<lambda>st.
       \<lparr>he_at = (case Option.bind (json_get ''at'' v) as_i64 of Some t \<Rightarrow> t | None \<Rightarrow> 0),
        he_phase = (case Option.bind (json_get ''phase'' v) as_str of Some p \<Rightarrow> p | None \<Rightarrow> ''unknown''),
        he_status = st,
        he_progress = map_option narrow (u64_field ''progress'' v),
        he_detail = Option.bind (json_get ''detail'' v) json_optional_string,
        he_retry = parse_retry_metadata (json_get ''retry'' v)\<rparr>) (parse_status v)"

definition persisted_detail_of_value :: "json \<Rightarrow> persisted_job_detail option" where
  "persisted_detail_of_value v =
     map_option (\<lambda>st.
       \<lparr>pd_status = st,
        pd_detail = Option.bind (json_get ''detail'' v) json_optional_string,
        pd_retry = parse_retry_metadata (json_get ''retry'' v),
        pd_history = (case Option.bind (json_get ''history'' v) as_array of
            Some items \<Rightarrow> List.map_filter parse_history_entry items | None \<Rightarrow> [])\<rparr>) (parse_status v)"

definition parse_persisted_detail ::
  "(string \<Rightarrow> json option) \<Rightarrow> string option \<Rightarrow> persisted_job_detail option" where
  "parse_persisted_detail de raw = Option.bind (Option.bind raw de) persisted_detail_of_value"

definition job_detail_to_value :: "job_record \<Rightarrow> json" where
  "job_detail_to_value j = JObj
     [(''schema_version'', json_of_word JOB_DETAIL_SCHEMA_VERSION),
      (''status'', JStr (job_status_to_str (status j))),
      (''detail'', json_of_option JStr (detail j)),
      (''retry'', job_retry_to_value (retry j)),
      (''history'', JArr (map job_history_to_value (history j)))]"

definition encode_persisted_detail :: "(json \<Rightarrow> string) \<Rightarrow> job_record \<Rightarrow> string option" where
  "encode_persisted_detail ser j = Some (ser (job_detail_to_value j))"

section \<open>The jobs table\<close>

datatype job_state_status = StateQueued | StateRunning | StateCompleted | StateFailed | StateCancelled

record job_state_record =
  js_id :: string
  js_name :: string
  js_status :: job_state_status
  js_progress :: "u8 option"
  js_detail :: "string option"
  js_created_at :: int
  js_updated_at :: int

text \<open>A row of the SQL table, with its column types; the table is its rows in insertion order.\<close>

record job_row =
  row_id :: string
  row_name :: string
  row_status :: string
  row_progress :: "int option"
  row_detail :: "string option"
  row_created_at :: int
  row_updated_at :: int

type_synonym jobs_table = "job_row list"

fun job_state_status_to_str :: "job_state_status \<Rightarrow> string" where
  "job_state_status_to_str StateQueued = ''queued''"
| "job_state_status_to_str StateRunning = ''running''"
| "job_state_status_to_str StateCompleted = ''completed''"
| "job_state_status_to_str StateFailed = ''failed''"
| "job_state_status_to_str StateCancelled = ''cancelled''"

definition job_state_status_from_str :: "string \<Rightarrow> job_state_status" where
  "job_state_status_from_str s =
     (if s = ''queued'' then StateQueued
      else if s = ''running'' then StateRunning
      else if s = ''completed'' then StateCompleted
      else if s = ''failed'' then StateFailed
      else if s = ''cancelled'' then StateCancelled
      else StateQueued)"

definition row_of_record :: "job_state_record \<Rightarrow> job_row" where
  "row_of_record j = \<lparr>row_id = js_id j, row_name = js_name j,
     row_status = job_state_status_to_str (js_status j),
     row_progress = map_option uint (js_progress j), row_detail = js_detail j,
     row_created_at = js_created_at j, row_updated_at = js_updated_at j\<rparr>"

definition u8_try_from :: "int \<Rightarrow> u8 option" where
  "u8_try_from v = (if 0 \<le> v \<and> v < 256 then Some (of_int v) else None)"

definition record_of_row :: "job_row \<Rightarrow> job_state_record" where
  "record_of_row r = \<lparr>js_id = row_id r, js_name = row_name r,
     js_status = job_state_status_from_str (row_status r),
     js_progress = Option.bind (row_progress r) u8_try_from, js_detail = row_detail r,
     js_created_at = row_created_at r, js_updated_at = row_updated_at r\<rparr>"

text \<open>\<open>INSERT .. ON CONFLICT(id) DO UPDATE\<close>; \<open>SELECT .. WHERE id\<close>; \<open>SELECT .. ORDER BY updated_at
  DESC LIMIT\<close>, with rows of equal time in table order; \<open>DELETE .. WHERE id\<close>.\<close>

definition upsert_job :: "job_state_record \<Rightarrow> jobs_table \<Rightarrow> jobs_table" where
  "upsert_job j t =
     (if list_ex (\<lambda>r. row_id r = js_id j) t
      then map (\<lambda>r. if row_id r = js_id j then row_of_record j else r) t
      else t @ [row_of_record j])"

definition get_job :: "string \<Rightarrow> jobs_table \<Rightarrow> job_state_record option" where
  "get_job jid t = map_option record_of_row (find (\<lambda>r. row_id r = jid) t)"

definition list_jobs :: "nat option \<Rightarrow> jobs_table \<Rightarrow> job_state_record list" where
  "list_jobs limit t =
     (let l = (case limit of None \<Rightarrow> 100 | Some n \<Rightarrow> if int n \<le> i64_max then n else 100)
      in map record_of_row (take l (sort_key (\<lambda>r. - row_updated_at r) t)))"

definition delete_job :: "string \<Rightarrow> jobs_table \<Rightarrow> jobs_table" where
  "delete_job jid t = filter (\<lambda>r. row_id r \<noteq> jid) t"

section \<open>Persistence\<close>

fun runtime_status_to_job_state :: "job_status \<Rightarrow> job_state_status" where
  "runtime_status_to_job_state Queued = StateQueued"
| "runtime_status_to_job_state Running = StateRunning"
| "runtime_status_to_job_state Paused = StateRunning"
| "runtime_status_to_job_state Completed = StateCompleted"
| "runtime_status_to_job_state Failed = StateFailed"
| "runtime_status_to_job_state Cancelled = StateCancelled"

fun job_state_status_to_runtime :: "job_state_status \<Rightarrow> job_status" where
  "job_state_status_to_runtime StateQueued = Queued"
| "job_state_status_to_runtime StateRunning = Running"
| "job_state_status_to_runtime StateCompleted = Completed"
| "job_state_status_to_runtime StateFailed = Failed"
| "job_state_status_to_runtime StateCancelled = Cancelled"

definition job_of_state_record :: "(string \<Rightarrow> json option) \<Rightarrow> job_state_record \<Rightarrow> job_record" where
  "job_of_state_record de js =
     (let (st, d, r, h) =
        (case parse_persisted_detail de (js_detail js) of
           Some p \<Rightarrow> (pd_status p, pd_detail p, pd_retry p, pd_history p)
         | None \<Rightarrow> (job_state_status_to_runtime (js_status js), js_detail js, retry_default, []))
      in \<lparr>job_id = js_id js, job_name = js_name js, status = st, progress = js_progress js,
          detail = d, retry = r, history = h, created_at = js_created_at js,
          updated_at = js_updated_at js\<rparr>)"

definition state_record_of_job :: "(json \<Rightarrow> string) \<Rightarrow> job_record \<Rightarrow> job_state_record" where
  "state_record_of_job ser j = \<lparr>js_id = job_id j, js_name = job_name j,
     js_status = runtime_status_to_job_state (status j), js_progress = progress j,
     js_detail = encode_persisted_detail ser j, js_created_at = created_at j,
     js_updated_at = updated_at j\<rparr>"

text \<open>A store operation fails when the database does: \<open>ok\<close> says whether it answers.\<close>

datatype store_error = StoreUnavailable

definition load_from_store ::
  "(string \<Rightarrow> json option) \<Rightarrow> bool \<Rightarrow> jobs_table \<Rightarrow> job_manager \<Rightarrow> store_error + job_manager" where
  "load_from_store de ok t m =
     (if ok then Inr (foldl (\<lambda>m js. m(js_id js \<mapsto> job_of_state_record de js)) m (list_jobs (Some 500) t))
      else Inl StoreUnavailable)"

definition persist_job ::
  "(json \<Rightarrow> string) \<Rightarrow> bool \<Rightarrow> job_manager \<Rightarrow> string \<Rightarrow> jobs_table \<Rightarrow> store_error + jobs_table" where
  "persist_job ser ok m jid t =
     (case m jid of
        None \<Rightarrow> Inr t
      | Some j \<Rightarrow> if ok then Inr (upsert_job (state_record_of_job ser j) t) else Inl StoreUnavailable)"

text \<open>The loop stops at the first failure; the rows written before stay written.\<close>

fun persist_all ::
  "(json \<Rightarrow> string) \<Rightarrow> job_manager \<Rightarrow> (string \<times> bool) list \<Rightarrow> jobs_table \<Rightarrow> store_error option \<times> jobs_table" where
  "persist_all ser m [] t = (None, t)"
| "persist_all ser m ((jid, ok) # rest) t =
     (case persist_job ser ok m jid t of
        Inl e \<Rightarrow> (Some e, t)
      | Inr t' \<Rightarrow> persist_all ser m rest t')"

section \<open>The runtime's job operations\<close>

record job_runtime =
  rt_jobs :: job_manager
  rt_table :: jobs_table

text \<open>Every operation changes the job in memory, then persists it; when that fails the error is
  returned and the change stays in memory.\<close>

definition persist_after ::
  "(json \<Rightarrow> string) \<Rightarrow> bool \<Rightarrow> string \<Rightarrow> job_manager \<Rightarrow> job_runtime \<Rightarrow> store_error option \<times> job_runtime" where
  "persist_after ser ok jid m s =
     (case persist_job ser ok m jid (rt_table s) of
        Inl e \<Rightarrow> (Some e, s\<lparr>rt_jobs := m\<rparr>)
      | Inr t \<Rightarrow> (None, s\<lparr>rt_jobs := m, rt_table := t\<rparr>))"

definition rt_enqueue_job :: "(json \<Rightarrow> string) \<Rightarrow> bool \<Rightarrow> int \<Rightarrow> string \<Rightarrow> string \<Rightarrow> job_runtime
    \<Rightarrow> (store_error + job_record) \<times> job_runtime" where
  "rt_enqueue_job ser ok now uuid name s =
     (let (m, j) = enqueue now uuid name (rt_jobs s)
      in case persist_after ser ok (job_id j) m s of
           (Some e, s') \<Rightarrow> (Inl e, s') | (None, s') \<Rightarrow> (Inr j, s'))"

datatype job_op =
    SetRunning
  | UpdateProgress u8 "string option"
  | Complete
  | Fail string
  | Cancel
  | Pause "string option"
  | Resume "string option"

fun apply_job_op :: "int \<Rightarrow> string \<Rightarrow> job_op \<Rightarrow> job_manager \<Rightarrow> job_manager" where
  "apply_job_op now jid SetRunning = set_running now jid"
| "apply_job_op now jid (UpdateProgress p d) = update_progress now jid p d"
| "apply_job_op now jid Complete = complete_job now jid"
| "apply_job_op now jid (Fail d) = fail_job now jid d"
| "apply_job_op now jid Cancel = cancel_job now jid"
| "apply_job_op now jid (Pause d) = pause_job now jid d"
| "apply_job_op now jid (Resume d) = resume_job now jid d"

text \<open>\<open>set_job_running\<close>, \<open>update_job_progress\<close>, \<open>complete_job\<close>, \<open>fail_job\<close>, \<open>cancel_job\<close>,
  \<open>pause_job\<close> and \<open>resume_job\<close> of \<open>Runtime\<close> differ in the operation alone.\<close>

definition rt_job_op :: "(json \<Rightarrow> string) \<Rightarrow> bool \<Rightarrow> int \<Rightarrow> string \<Rightarrow> job_op \<Rightarrow> job_runtime
    \<Rightarrow> store_error option \<times> job_runtime" where
  "rt_job_op ser ok now jid op s = persist_after ser ok jid (apply_job_op now jid op (rt_jobs s)) s"

text \<open>\<open>Runtime::new\<close>: an empty manager, then the table; when the table cannot be read the manager stays
  empty.\<close>

definition rt_start :: "(string \<Rightarrow> json option) \<Rightarrow> bool \<Rightarrow> jobs_table \<Rightarrow> job_runtime" where
  "rt_start de ok t =
     \<lparr>rt_jobs = (case load_from_store de ok t Map.empty of Inl _ \<Rightarrow> Map.empty | Inr m \<Rightarrow> m), rt_table = t\<rparr>"

section \<open>The detail column round trip\<close>

lemma job_status_str_inverse [simp]: "job_status_from_str (job_status_to_str s) = Some s"
  by (cases s) (simp_all add: job_status_from_str_def)

lemma json_optional_string_of_option [simp]: "json_optional_string (json_of_option JStr d) = d"
  by (cases d) simp_all

text \<open>The times a job carries are \<open>i64\<close> values.\<close>

definition retry_times_ok :: "job_retry \<Rightarrow> bool" where
  "retry_times_ok r \<longleftrightarrow> (case next_retry_at r of None \<Rightarrow> True | Some t \<Rightarrow> in_i64 t)"

definition entry_times_ok :: "job_history_entry \<Rightarrow> bool" where
  "entry_times_ok h \<longleftrightarrow> in_i64 (he_at h) \<and> retry_times_ok (he_retry h)"

definition job_times_ok :: "job_record \<Rightarrow> bool" where
  "job_times_ok j \<longleftrightarrow> in_i64 (created_at j) \<and> in_i64 (updated_at j) \<and> retry_times_ok (retry j)
     \<and> list_all entry_times_ok (history j)"

lemma parse_retry_to_value:
  assumes "retry_times_ok r"
  shows "parse_retry_metadata (Some (job_retry_to_value r)) = r"
  using assms
  by (cases "next_retry_at r")
    (auto simp: job_retry_to_value_def u64_field_def retry_times_ok_def intro: job_retry.equality)

lemma progress_to_value:
  "map_option narrow (Option.bind (Some (json_of_option json_of_word p)) as_u64) = (p :: u8 option)"
  by (cases p) simp_all

lemma parse_history_to_value:
  assumes "entry_times_ok h"
  shows "parse_history_entry (job_history_to_value h) = Some h"
  using assms progress_to_value [of "he_progress h"]
  by (simp add: parse_history_entry_def job_history_to_value_def parse_status_def u64_field_def
      entry_times_ok_def parse_retry_to_value del: parse_retry_metadata.simps)

lemma parse_history_list:
  "list_all entry_times_ok hs \<Longrightarrow> List.map_filter parse_history_entry (map job_history_to_value hs) = hs"
  by (induction hs) (simp_all add: parse_history_to_value map_filter_simps)

lemma json_wf_option [simp]: "json_wf (json_of_option JStr d)" "json_wf (json_of_option json_of_word (p :: u8 option))"
  by (cases d; simp) (cases p; simp)

lemma json_wf_time: "in_i64 t \<Longrightarrow> json_wf (JInt t)"
  by (simp add: in_i64_def i64_min_def i64_max_def)

lemma json_wf_retry: "retry_times_ok r \<Longrightarrow> json_wf (job_retry_to_value r)"
  by (cases "next_retry_at r")
    (simp_all add: job_retry_to_value_def retry_times_ok_def json_wf_time del: json_wf.simps(1))

lemma json_wf_history: "entry_times_ok h \<Longrightarrow> json_wf (job_history_to_value h)"
  by (simp add: job_history_to_value_def entry_times_ok_def json_wf_time json_wf_retry
      del: json_wf.simps(1))

lemma json_wf_detail:
  assumes "job_times_ok j" shows "json_wf (job_detail_to_value j)"
proof -
  have "\<forall>v \<in> set (map job_history_to_value (history j)). json_wf v"
    using assms by (auto simp: job_times_ok_def list_all_iff json_wf_history)
  with assms show ?thesis
    by (simp add: job_detail_to_value_def job_times_ok_def json_wf_retry)
qed

lemma json_depth_flat [simp]:
  "json_depth (json_of_option JStr d) = 0" "json_depth (json_of_option JInt t) = 0"
  "json_depth (json_of_word w) = 0" "json_depth (json_of_option json_of_word p) = 0"
proof -
  show "json_depth (json_of_option JStr d) = 0" by (cases d) simp_all
  show "json_depth (json_of_option JInt t) = 0" by (cases t) simp_all
  show "json_depth (json_of_word w) = 0" by (simp add: json_of_word_def)
  show "json_depth (json_of_option json_of_word p) = 0" by (cases p) (simp_all add: json_of_word_def)
qed

lemma fold_max_at_most: "(\<forall>x \<in> set xs. x \<le> b) \<Longrightarrow> a \<le> b \<Longrightarrow> fold max xs a \<le> (b :: nat)"
  by (induction xs arbitrary: a) auto

lemma json_depth_detail: "json_depth (job_detail_to_value j) < 128"
proof -
  have retry: "json_depth (job_retry_to_value r) = 1" for r by (simp add: job_retry_to_value_def)
  have "json_depth (job_history_to_value h) = 2" for h by (simp add: job_history_to_value_def retry)
  then have "fold max (map json_depth (map job_history_to_value (history j))) 0 \<le> 2" by (intro fold_max_at_most) auto
  then show ?thesis by (simp add: job_detail_to_value_def retry)
qed

lemma persisted_detail_to_value:
  assumes "job_times_ok j"
  shows "persisted_detail_of_value (job_detail_to_value j) =
    Some \<lparr>pd_status = status j, pd_detail = detail j, pd_retry = retry j, pd_history = history j\<rparr>"
  using assms
  by (simp add: persisted_detail_of_value_def job_detail_to_value_def parse_status_def job_times_ok_def
      parse_retry_to_value parse_history_list del: parse_retry_metadata.simps)

lemma detail_round_trip:
  assumes "bounded_codec ser de" "job_times_ok j"
  shows "parse_persisted_detail de (encode_persisted_detail ser j) =
    Some \<lparr>pd_status = status j, pd_detail = detail j, pd_retry = retry j, pd_history = history j\<rparr>"
  using assms json_wf_detail [OF assms(2)] json_depth_detail
  by (simp add: parse_persisted_detail_def encode_persisted_detail_def bounded_codec_def
      persisted_detail_to_value)

lemma state_record_round_trip:
  assumes "bounded_codec ser de" "job_times_ok j"
  shows "job_of_state_record de (state_record_of_job ser j) = j"
  using detail_round_trip [OF assms]
  by (simp add: job_of_state_record_def state_record_of_job_def)

lemma job_state_status_str_inverse [simp]:
  "job_state_status_from_str (job_state_status_to_str s) = s"
  by (cases s) (simp_all add: job_state_status_from_str_def)

lemma u8_try_from_uint [simp]: "u8_try_from (uint w) = Some w"
proof -
  have "uint w < 2 ^ LENGTH(8)" by (rule unsigned_less)
  then show ?thesis by (simp add: u8_try_from_def)
qed

lemma record_of_row_inverse [simp]: "record_of_row (row_of_record j) = j"
  by (cases "js_progress j") (simp_all add: record_of_row_def row_of_record_def)

section \<open>The jobs table as an interface\<close>

text \<open>What the job manager relies on: a keyed store whose listing returns each stored record at most
  once, and all of them when the limit allows.\<close>

locale keyed_store =
  fixes wf_store :: "'t \<Rightarrow> bool"
    and empty :: 't
    and upsert :: "'r \<Rightarrow> 't \<Rightarrow> 't"
    and key :: "'r \<Rightarrow> string"
    and lookup :: "string \<Rightarrow> 't \<Rightarrow> 'r option"
    and size_of :: "'t \<Rightarrow> nat"
    and rows :: "nat \<Rightarrow> 't \<Rightarrow> 'r list"
  assumes wf_empty: "wf_store empty"
    and lookup_empty: "lookup k empty = None"
    and wf_upsert: "wf_store t \<Longrightarrow> wf_store (upsert r t)"
    and lookup_upsert: "wf_store t \<Longrightarrow> lookup k (upsert r t) = (if k = key r then Some r else lookup k t)"
    and rows_distinct: "wf_store t \<Longrightarrow> distinct (map key (rows n t))"
    and rows_stored: "wf_store t \<Longrightarrow> r \<in> set (rows n t) \<Longrightarrow> lookup (key r) t = Some r"
    and rows_all: "wf_store t \<Longrightarrow> size_of t \<le> n \<Longrightarrow> lookup k t = Some r \<Longrightarrow> key r = k \<and> r \<in> set (rows n t)"
    and rows_limit: "length (rows n t) \<le> n"
begin

definition load :: "('r \<Rightarrow> 'v) \<Rightarrow> nat \<Rightarrow> 't \<Rightarrow> (string \<rightharpoonup> 'v) \<Rightarrow> (string \<rightharpoonup> 'v)" where
  "load f n t m = foldl (\<lambda>m r. m(key r \<mapsto> f r)) m (rows n t)"

lemma foldl_update_other:
  "k \<notin> key ` set rs \<Longrightarrow> foldl (\<lambda>m r. m(key r \<mapsto> f r)) m rs k = m k"
  by (induction rs arbitrary: m) auto

lemma foldl_update_mem:
  "distinct (map key rs) \<Longrightarrow> r \<in> set rs \<Longrightarrow> foldl (\<lambda>m r. m(key r \<mapsto> f r)) m rs (key r) = Some (f r)"
proof (induction rs arbitrary: m)
  case (Cons x xs)
  show ?case
  proof (cases "r = x")
    case True
    with Cons.prems have "key r \<notin> key ` set xs" by auto
    from foldl_update_other [OF this, of f "m(key r \<mapsto> f r)"] show ?thesis
      unfolding True by (simp only: foldl.simps fun_upd_same)
  next
    case False
    with Cons show ?thesis by simp
  qed
qed simp

lemma load_sound: "wf_store t \<Longrightarrow> load f n t m k = (case lookup k t of
    Some r \<Rightarrow> if r \<in> set (rows n t) \<and> key r = k then Some (f r) else m k | None \<Rightarrow> m k)"
proof (cases "k \<in> key ` set (rows n t)")
  case True
  assume wf: "wf_store t"
  from True obtain r where r: "r \<in> set (rows n t)" "k = key r" by blast
  with wf rows_stored have "lookup k t = Some r" by blast
  with r foldl_update_mem [OF rows_distinct [OF wf] r(1)] show ?thesis by (simp add: load_def)
next
  case False
  then show ?thesis by (auto simp: load_def foldl_update_other split: option.split)
qed

lemma load_all:
  "wf_store t \<Longrightarrow> size_of t \<le> n \<Longrightarrow> load f n t Map.empty = (\<lambda>k. map_option f (lookup k t))"
  using rows_all by (fastforce simp: fun_eq_iff load_sound split: option.split)

lemma load_limit:
  assumes "wf_store t"
  shows "finite (dom (load f n t Map.empty)) \<and> card (dom (load f n t Map.empty)) \<le> n"
proof -
  have "dom (load f n t Map.empty) \<subseteq> key ` set (rows n t)"
    by (rule subsetI, rule ccontr) (auto simp: load_def foldl_update_other)
  then have "finite (dom (load f n t Map.empty))"
    and "card (dom (load f n t Map.empty)) \<le> card (set (map key (rows n t)))"
    using finite_subset [of _ "key ` set (rows n t)"] by (auto intro!: card_mono)
  with rows_limit [of n t] card_length [of "map key (rows n t)"] show ?thesis by simp
qed

end

definition table_wf :: "jobs_table \<Rightarrow> bool" where
  "table_wf t \<longleftrightarrow> distinct (map row_id t)"

lemma upsert_ids: "map row_id (upsert_job j t) =
    (if list_ex (\<lambda>r. row_id r = js_id j) t then map row_id t else map row_id t @ [js_id j])"
  by (simp add: upsert_job_def row_of_record_def comp_def if_distrib [of row_id] cong: map_cong)

lemma find_row:
  assumes "table_wf t"
  shows "find (\<lambda>r. row_id r = k) t = Some r \<longleftrightarrow> r \<in> set t \<and> row_id r = k"
  using assms unfolding table_wf_def
proof (induction t)
  case (Cons x xs)
  then show ?case by (cases "row_id x = k") (auto simp: image_iff)
qed simp

lemma get_job_upsert: "get_job k (upsert_job j t) = (if k = js_id j then Some j else get_job k t)"
proof (cases "list_ex (\<lambda>r. row_id r = js_id j) t")
  case True
  have "find (\<lambda>r. row_id r = k) (map (\<lambda>r. if row_id r = js_id j then row_of_record j else r) t)
      = (if k = js_id j then Some (row_of_record j) else find (\<lambda>r. row_id r = k) t)"
  proof (cases "k = js_id j")
    case True
    with \<open>list_ex (\<lambda>r. row_id r = js_id j) t\<close> show ?thesis
      by (induction t) (auto simp: row_of_record_def)
  next
    case False
    then show ?thesis by (induction t) (auto simp: row_of_record_def)
  qed
  with True show ?thesis by (simp add: get_job_def upsert_job_def)
next
  case False
  have "find (\<lambda>r. row_id r = k) (t @ [row_of_record j])
      = (if k = js_id j then Some (row_of_record j) else find (\<lambda>r. row_id r = k) t)"
    using False by (induction t) (auto simp: row_of_record_def)
  with False show ?thesis by (simp add: get_job_def upsert_job_def)
qed

definition newest_rows :: "nat \<Rightarrow> jobs_table \<Rightarrow> job_state_record list" where
  "newest_rows n t = map record_of_row (take n (sort_key (\<lambda>r. - row_updated_at r) t))"

lemma js_id_record_of_row [simp]: "js_id (record_of_row r) = row_id r"
  by (simp add: record_of_row_def)

interpretation jobs: keyed_store table_wf "[]" upsert_job js_id get_job length newest_rows
proof
  fix t :: jobs_table and r j :: job_state_record and k and n
  show "table_wf []" by (simp add: table_wf_def)
  show "get_job k [] = None" by (simp add: get_job_def)
  show "table_wf t \<Longrightarrow> table_wf (upsert_job r t)"
    unfolding table_wf_def upsert_ids by (auto simp: list_ex_iff)
  show "get_job k (upsert_job r t) = (if k = js_id r then Some r else get_job k t)"
    by (rule get_job_upsert)
  show "length (newest_rows n t) \<le> n" by (simp add: newest_rows_def)
  assume wf: "table_wf t"
  let ?s = "sort_key (\<lambda>r. - row_updated_at r) t"
  have "distinct (map row_id ?s)"
    using wf by (simp add: table_wf_def distinct_map)
  then show "distinct (map js_id (newest_rows n t))"
    by (simp add: newest_rows_def comp_def distinct_take flip: take_map)
  show "r \<in> set (newest_rows n t) \<Longrightarrow> get_job (js_id r) t = Some r"
    using find_row [OF wf] by (force simp: newest_rows_def get_job_def dest: in_set_takeD)
  show "length t \<le> n \<Longrightarrow> get_job k t = Some r \<Longrightarrow> js_id r = k \<and> r \<in> set (newest_rows n t)"
    using find_row [OF wf] by (auto simp: newest_rows_def get_job_def)
qed

section \<open>The invariant of a job\<close>

definition retry_wf :: "job_retry \<Rightarrow> bool" where
  "retry_wf r \<longleftrightarrow> attempt r \<le> max_attempts r \<and> retry_times_ok r"

definition progress_wf :: "u8 option \<Rightarrow> bool" where
  "progress_wf p \<longleftrightarrow> (case p of None \<Rightarrow> True | Some n \<Rightarrow> n \<le> 100)"

definition entry_wf :: "job_history_entry \<Rightarrow> bool" where
  "entry_wf h \<longleftrightarrow> in_i64 (he_at h) \<and> progress_wf (he_progress h) \<and> retry_wf (he_retry h)"

text \<open>A retry is scheduled only for a job that failed, or was paused after it failed.\<close>

definition job_state_wf :: "job_record \<Rightarrow> bool" where
  "job_state_wf j \<longleftrightarrow> in_i64 (created_at j) \<and> in_i64 (updated_at j) \<and> progress_wf (progress j)
     \<and> retry_wf (retry j) \<and> (next_retry_at (retry j) \<noteq> None \<longrightarrow> status j = Failed \<or> status j = Paused)"

text \<open>The history is bounded, and its last entry is the current state of the job.\<close>

definition job_wf :: "job_record \<Rightarrow> bool" where
  "job_wf j \<longleftrightarrow> job_state_wf j \<and> list_all entry_wf (history j)
     \<and> history j \<noteq> [] \<and> length (history j) \<le> MAX_JOB_HISTORY_ENTRIES
     \<and> (\<exists>phase. last (history j) = history_entry_of j phase)"

definition jobs_wf :: "job_manager \<Rightarrow> bool" where
  "jobs_wf m \<longleftrightarrow> (\<forall>k j. m k = Some j \<longrightarrow> job_id j = k \<and> job_wf j)"

lemma job_wf_times: "job_wf j \<Longrightarrow> job_times_ok j"
  by (auto simp: job_wf_def job_state_wf_def job_times_ok_def retry_wf_def entry_wf_def
      entry_times_ok_def list_all_iff)

text \<open>Recording a transition restores the history part of the invariant.\<close>

lemma push_history_fields [simp]:
  "job_id (push_history p j) = job_id j" "status (push_history p j) = status j"
  "updated_at (push_history p j) = updated_at j" "retry (push_history p j) = retry j"
  "progress (push_history p j) = progress j" "detail (push_history p j) = detail j"
  "created_at (push_history p j) = created_at j" "job_name (push_history p j) = job_name j"
  by (simp_all add: push_history_def Let_def)

lemma job_wf_push_history:
  assumes "job_state_wf j" "list_all entry_wf (history j)"
  shows "job_wf (push_history p j)"
proof -
  let ?h = "history j @ [history_entry_of j p]"
  have e: "entry_wf (history_entry_of j p)"
    using assms(1) by (simp add: entry_wf_def history_entry_of_def job_state_wf_def)
  obtain n where h: "history (push_history p j) = drop n ?h" "n \<le> length (history j)"
    "length ?h - n \<le> MAX_JOB_HISTORY_ENTRIES"
  proof (cases "length ?h > MAX_JOB_HISTORY_ENTRIES")
    case True
    then show ?thesis by (intro that [of "length ?h - MAX_JOB_HISTORY_ENTRIES"])
      (auto simp: push_history_def Let_def MAX_JOB_HISTORY_ENTRIES_def)
  next
    case False
    then show ?thesis by (intro that [of 0]) (auto simp: push_history_def Let_def)
  qed
  have "list_all entry_wf (drop n ?h)"
    using assms(2) e by (auto simp: list_all_iff dest: in_set_dropD)
  moreover have "last (drop n ?h) = history_entry_of (push_history p j) p" "drop n ?h \<noteq> []"
    using h(2) by (simp_all add: last_drop history_entry_of_def)
  moreover have "job_state_wf (push_history p j)"
    using assms(1) by (simp add: job_state_wf_def)
  ultimately show ?thesis using h(1,3) unfolding job_wf_def by (metis length_drop)
qed

lemma job_wf_state: "job_wf j \<Longrightarrow> job_state_wf j \<and> list_all entry_wf (history j)"
  by (simp add: job_wf_def)

lemma jobs_wf_with_job:
  assumes "jobs_wf m" "\<And>j. job_wf j \<Longrightarrow> job_id (f j) = job_id j \<and> job_wf (f j)"
  shows "jobs_wf (with_job k f m)"
  using assms by (auto simp: jobs_wf_def with_job_def split: option.split)

lemma clear_retry_wf: "retry_wf r \<Longrightarrow> retry_wf (clear_retry_schedule r)"
  "next_retry_at (clear_retry_schedule r) = None"
  by (simp_all add: retry_wf_def clear_retry_schedule_def retry_times_ok_def)

lemma attempt_step: "(a :: u32) < b \<Longrightarrow> a + 1 \<le> b"
  by (simp add: inc_le)

lemma schedule_retry_wf: "retry_wf r \<Longrightarrow> retry_wf (schedule_retry now r)"
  by (auto simp: schedule_retry_def Let_def retry_wf_def retry_times_ok_def in_i64_sat_add
      attempt_step clear_retry_schedule_def)

lemma min_100_wf [simp]: "progress_wf (Some (min p 100))" "progress_wf (Some 100)" "progress_wf (Some 0)"
  by (simp_all add: progress_wf_def)

lemma jobs_wf_transition:
  assumes "jobs_wf m" "\<And>j. job_state_wf j \<Longrightarrow> job_state_wf (g j)"
    and "\<And>j. history (g j) = history j" "\<And>j. job_id (g j) = job_id j"
  shows "jobs_wf (with_job k (\<lambda>j. push_history p (g j)) m)"
  by (rule jobs_wf_with_job [OF assms(1)]) (simp add: assms job_wf_push_history job_wf_state)

lemma jobs_wf_apply_op:
  assumes "jobs_wf m" "in_i64 now"
  shows "jobs_wf (apply_job_op now k op m)"
  by (cases op; simp only: apply_job_op.simps set_running_def update_progress_def complete_job_def
      fail_job_def cancel_job_def pause_job_def resume_job_def; rule jobs_wf_transition [OF assms(1)];
      simp add: job_state_wf_def clear_retry_wf schedule_retry_wf assms(2))

lemma new_job_wf:
  "in_i64 now \<Longrightarrow> job_wf (new_job now uuid name)"
  unfolding new_job_def
  by (rule job_wf_push_history) (simp_all add: job_state_wf_def retry_default_def retry_wf_def
      retry_times_ok_def DEFAULT_JOB_MAX_ATTEMPTS_def)

lemma jobs_wf_enqueue: "jobs_wf m \<Longrightarrow> in_i64 now \<Longrightarrow> jobs_wf (fst (enqueue now uuid name m))"
  by (auto simp: jobs_wf_def enqueue_def Let_def new_job_wf)

lemma requeue_wf: "job_wf j \<Longrightarrow> in_i64 now \<Longrightarrow> status j = Queued \<or> status j = Running \<Longrightarrow> job_wf (requeue now j)"
  unfolding requeue_def
  by (rule job_wf_push_history) (auto simp: job_wf_def job_state_wf_def)

lemma requeue_id [simp]: "job_id (requeue now j) = job_id j"
  by (simp add: requeue_def)

lemma resume_pending_step:
  "fst (resume_pending ((k, now) # rest) m) =
     (case m k of
        None \<Rightarrow> fst (resume_pending rest m)
      | Some j \<Rightarrow> fst (resume_pending rest
          (if status j = Queued \<or> status j = Running then m(k \<mapsto> requeue now j) else m)))"
  by (auto simp: Let_def split: option.split prod.split)

lemma jobs_wf_resume_pending:
  "jobs_wf m \<Longrightarrow> list_all (\<lambda>(k, now). in_i64 now) order \<Longrightarrow> jobs_wf (fst (resume_pending order m))"
proof (induction order arbitrary: m)
  case (Cons x rest)
  obtain k now where x: "x = (k, now)" by force
  have "jobs_wf (m(k \<mapsto> requeue now j))" if "m k = Some j" "status j = Queued \<or> status j = Running" for j
    using that Cons.prems x unfolding jobs_wf_def
    by (auto simp: requeue_wf)
  with Cons show ?case
    by (simp add: x resume_pending_step del: resume_pending.simps split: option.split)
qed simp

section \<open>Reachable runtimes\<close>

definition table_rows_wf :: "(json \<Rightarrow> string) \<Rightarrow> jobs_table \<Rightarrow> bool" where
  "table_rows_wf ser t \<longleftrightarrow> table_wf t
     \<and> (\<forall>k js. get_job k t = Some js \<longrightarrow> (\<exists>j. job_wf j \<and> js = state_record_of_job ser j))"

text \<open>The steps of a runtime: a request (its write may fail), the requeue of pending jobs, the writing of all jobs (up to
  a write that fails), and a restart that keeps the table alone (whose read may fail).\<close>

inductive rt_step :: "(json \<Rightarrow> string) \<Rightarrow> (string \<Rightarrow> json option) \<Rightarrow> job_runtime \<Rightarrow> job_runtime \<Rightarrow> bool"
  for ser de where
  enqueued: "in_i64 now \<Longrightarrow> rt_step ser de s (snd (rt_enqueue_job ser ok now uuid name s))"
| operated: "in_i64 now \<Longrightarrow> rt_step ser de s (snd (rt_job_op ser ok now k op s))"
| requeued: "list_all (\<lambda>(k, now). in_i64 now) order \<Longrightarrow>
    rt_step ser de s (s\<lparr>rt_jobs := fst (resume_pending order (rt_jobs s))\<rparr>)"
| persisted: "rt_step ser de s (s\<lparr>rt_table := snd (persist_all ser (rt_jobs s) order (rt_table s))\<rparr>)"
| restarted: "rt_step ser de s (rt_start de ok (rt_table s))"

inductive rt_reachable :: "(json \<Rightarrow> string) \<Rightarrow> (string \<Rightarrow> json option) \<Rightarrow> job_runtime \<Rightarrow> bool"
  for ser de where
  start: "rt_reachable ser de (rt_start de ok [])"
| step: "rt_reachable ser de s \<Longrightarrow> rt_step ser de s s' \<Longrightarrow> rt_reachable ser de s'"


definition runtime_wf :: "(json \<Rightarrow> string) \<Rightarrow> job_runtime \<Rightarrow> bool" where
  "runtime_wf ser s \<longleftrightarrow> jobs_wf (rt_jobs s) \<and> table_rows_wf ser (rt_table s)"

lemma js_id_of_job [simp]: "js_id (state_record_of_job ser j) = job_id j"
  by (simp add: state_record_of_job_def)

lemma load_from_store_load:
  "load_from_store de True t m = Inr (jobs.load (job_of_state_record de) 500 t m)"
  by (simp add: load_from_store_def jobs.load_def list_jobs_def newest_rows_def i64_max_def)

lemma rt_start_jobs: "rt_jobs (rt_start de ok t) =
    (if ok then jobs.load (job_of_state_record de) 500 t Map.empty else Map.empty)"
proof (cases ok)
  case True
  then show ?thesis by (simp add: rt_start_def load_from_store_load)
next
  case False
  then show ?thesis by (simp add: rt_start_def load_from_store_def)
qed

lemma runtime_wf_start:
  assumes codec: "bounded_codec ser de" and t: "table_rows_wf ser t"
  shows "runtime_wf ser (rt_start de ok t)"
proof -
  have "job_id j = k \<and> job_wf j" if "rt_jobs (rt_start de ok t) k = Some j" for k j
  proof -
    from that t obtain js where js: "get_job k t = Some js" "js_id js = k" "j = job_of_state_record de js"
      by (auto simp: rt_start_jobs table_rows_wf_def jobs.load_sound split: if_splits option.splits)
    with t obtain j' where "job_wf j'" "js = state_record_of_job ser j'"
      by (auto simp: table_rows_wf_def)
    with js state_record_round_trip [OF codec job_wf_times] show ?thesis by simp
  qed
  with t show ?thesis by (simp add: runtime_wf_def jobs_wf_def rt_start_def)
qed

lemma table_rows_wf_upsert:
  assumes "table_rows_wf ser t" "job_wf j"
  shows "table_rows_wf ser (upsert_job (state_record_of_job ser j) t)"
  using assms jobs.wf_upsert by (auto simp: table_rows_wf_def jobs.lookup_upsert)

lemma runtime_wf_persist_after:
  assumes "jobs_wf m" "table_rows_wf ser (rt_table s)"
  shows "runtime_wf ser (snd (persist_after ser ok k m s))"
  using assms table_rows_wf_upsert
  by (auto simp: persist_after_def persist_job_def runtime_wf_def jobs_wf_def split: option.splits)

lemma table_rows_wf_persist_all:
  "jobs_wf m \<Longrightarrow> table_rows_wf ser t \<Longrightarrow> table_rows_wf ser (snd (persist_all ser m order t))"
  by (induction order arbitrary: t)
    (auto simp: persist_job_def jobs_wf_def table_rows_wf_upsert split: sum.split option.split)

lemma runtime_wf_step:
  assumes "bounded_codec ser de" "runtime_wf ser s" "rt_step ser de s s'"
  shows "runtime_wf ser s'"
  using assms(3)
proof (cases rule: rt_step.cases)
  case (enqueued now ok uuid name)
  have "snd (rt_enqueue_job ser ok now uuid name s) =
      snd (persist_after ser ok (job_id (snd (enqueue now uuid name (rt_jobs s))))
        (fst (enqueue now uuid name (rt_jobs s))) s)"
    by (simp add: rt_enqueue_job_def split: prod.split option.split)
  with enqueued assms(2) jobs_wf_enqueue show ?thesis
    by (metis runtime_wf_persist_after runtime_wf_def)
next
  case (operated now ok k op)
  with assms(2) jobs_wf_apply_op show ?thesis
    by (metis rt_job_op_def runtime_wf_persist_after runtime_wf_def)
next
  case (requeued order)
  with assms(2) show ?thesis by (simp add: runtime_wf_def jobs_wf_resume_pending)
next
  case (persisted order)
  with assms(2) show ?thesis by (simp add: runtime_wf_def table_rows_wf_persist_all)
next
  case (restarted ok)
  from assms(2) have "table_rows_wf ser (rt_table s)" by (simp add: runtime_wf_def)
  then show ?thesis unfolding restarted by (rule runtime_wf_start [OF assms(1)])
qed

lemma runtime_wf_reachable:
  assumes "bounded_codec ser de" "rt_reachable ser de s"
  shows "runtime_wf ser s"
  using assms(2)
proof (induction rule: rt_reachable.induct)
  case (start ok)
  have "table_rows_wf ser []" by (simp add: table_rows_wf_def jobs.wf_empty jobs.lookup_empty)
  with assms(1) show ?case by (rule runtime_wf_start)
next
  case (step s s')
  from assms(1) step(3,2) show ?case by (rule runtime_wf_step)
qed

text \<open>
  C6: In every reachable runtime, whatever writes and reads of the store failed and however often it
  was restarted, each job in memory keeps its invariant: its identifier is its key, progress is at most 100,
  attempts never exceed their maximum, a retry is scheduled only for a failed or paused job, the
  history has between 1 and 64 entries and its last entry is the current state of the job. The rows of the table have
  distinct identifiers, and each is exactly the row of a well formed job of that identifier.
\<close>

theorem reachable_jobs_well_formed:
  assumes "bounded_codec ser de" "rt_reachable ser de s"
  shows "(\<forall>k j. rt_jobs s k = Some j \<longrightarrow> job_id j = k \<and> job_wf j)
    \<and> distinct (map row_id (rt_table s))
    \<and> (\<forall>row \<in> set (rt_table s). job_id (job_of_state_record de (record_of_row row)) = row_id row
         \<and> job_wf (job_of_state_record de (record_of_row row))
         \<and> record_of_row row = state_record_of_job ser (job_of_state_record de (record_of_row row)))"
proof -
  have wf: "jobs_wf (rt_jobs s)" "table_wf (rt_table s)"
    "\<forall>k js. get_job k (rt_table s) = Some js \<longrightarrow> (\<exists>j. job_wf j \<and> js = state_record_of_job ser j)"
    using runtime_wf_reachable [OF assms] by (simp_all add: runtime_wf_def table_rows_wf_def)
  have "job_id (job_of_state_record de (record_of_row row)) = row_id row
      \<and> job_wf (job_of_state_record de (record_of_row row))
      \<and> record_of_row row = state_record_of_job ser (job_of_state_record de (record_of_row row))"
    if "row \<in> set (rt_table s)" for row
  proof -
    have "get_job (row_id row) (rt_table s) = Some (record_of_row row)"
      using find_row [OF wf(2), of "row_id row" row] that by (simp add: get_job_def)
    then obtain j where j: "job_wf j" "record_of_row row = state_record_of_job ser j" using wf(3) by blast
    then have "row_id row = job_id j" by (metis js_id_of_job js_id_record_of_row)
    with j show ?thesis using state_record_round_trip [OF assms(1) job_wf_times] by simp
  qed
  with wf(1,2) show ?thesis by (simp add: jobs_wf_def table_wf_def)
qed

theorem reachable_jobs_well_formed_witness:
  "let s = snd (rt_enqueue_job unary_ser True 7 ''u1'' ''build'' (rt_start unary_de True []))
   in rt_jobs s ''job-u1'' = Some (new_job 7 ''u1'' ''build'') \<and> job_wf (new_job 7 ''u1'' ''build'')
     \<and> map row_id (rt_table s) = [''job-u1'']
     \<and> job_wf (job_of_state_record unary_de (record_of_row (hd (rt_table s))))"
proof -
  let ?s = "snd (rt_enqueue_job unary_ser True 7 ''u1'' ''build'' (rt_start unary_de True []))"
  have "rt_reachable unary_ser unary_de ?s"
    by (rule rt_reachable.step [OF rt_reachable.start rt_step.enqueued])
      (simp add: in_i64_def i64_min_def i64_max_def)
  moreover have "rt_jobs ?s ''job-u1'' = Some (new_job 7 ''u1'' ''build'')" and ids: "map row_id (rt_table ?s) = [''job-u1'']"
    by (simp_all add: rt_enqueue_job_def enqueue_def Let_def persist_after_def persist_job_def new_job_def rt_start_def
        upsert_job_def row_of_record_def)
  moreover have "hd (rt_table ?s) \<in> set (rt_table ?s)" using ids by (intro hd_in_set) auto
  ultimately show ?thesis
    using reachable_jobs_well_formed [OF bounded_codecI [OF json_codec_unary], of ?s] by (simp add: Let_def)
qed

section \<open>Recovery after a restart\<close>

datatype rt_request = REnqueue int string string | ROperate int string job_op

fun request_time :: "rt_request \<Rightarrow> int" where
  "request_time (REnqueue now _ _) = now"
| "request_time (ROperate now _ _) = now"

text \<open>A request against a store that answers.\<close>

fun rt_request_step :: "(json \<Rightarrow> string) \<Rightarrow> job_runtime \<Rightarrow> rt_request \<Rightarrow> job_runtime" where
  "rt_request_step ser s (REnqueue now uuid name) = snd (rt_enqueue_job ser True now uuid name s)"
| "rt_request_step ser s (ROperate now k op) = snd (rt_job_op ser True now k op s)"

definition rt_run :: "(json \<Rightarrow> string) \<Rightarrow> rt_request list \<Rightarrow> job_runtime" where
  "rt_run ser reqs = foldl (rt_request_step ser) \<lparr>rt_jobs = Map.empty, rt_table = []\<rparr> reqs"

definition synced :: "(json \<Rightarrow> string) \<Rightarrow> job_runtime \<Rightarrow> bool" where
  "synced ser s \<longleftrightarrow> jobs_wf (rt_jobs s) \<and> table_wf (rt_table s)
     \<and> (\<forall>k. get_job k (rt_table s) = map_option (state_record_of_job ser) (rt_jobs s k))"

text \<open>An operation touches its own job and never adds or removes one.\<close>

lemma apply_op_frame:
  "k' \<noteq> k \<Longrightarrow> apply_job_op now k op m k' = m k'"
  "apply_job_op now k op m k = None \<longleftrightarrow> m k = None"
  by (cases op; simp add: set_running_def update_progress_def complete_job_def fail_job_def
      cancel_job_def pause_job_def resume_job_def with_job_def split: option.split)+

lemma synced_persist_after:
  assumes "synced ser s" "jobs_wf m" "\<And>k'. k' \<noteq> k \<Longrightarrow> m k' = rt_jobs s k'"
    and "m k = None \<Longrightarrow> rt_jobs s k = None"
  shows "synced ser (snd (persist_after ser True k m s))"
proof (cases "m k")
  case None
  with assms have "m = rt_jobs s" by (metis ext)
  with None assms(1) show ?thesis by (simp add: persist_after_def persist_job_def)
next
  case (Some j)
  with assms(2) have "job_id j = k" by (simp add: jobs_wf_def)
  with Some assms show ?thesis
    by (auto simp: persist_after_def persist_job_def synced_def jobs.wf_upsert jobs.lookup_upsert)
qed

lemma synced_request:
  assumes "synced ser s" "in_i64 (request_time req)"
  shows "synced ser (rt_request_step ser s req)"
proof (cases req)
  case (ROperate now k op)
  with assms show ?thesis
    by (simp add: rt_job_op_def)
      (rule synced_persist_after; simp add: synced_def jobs_wf_apply_op apply_op_frame)
next
  case (REnqueue now uuid name)
  let ?j = "new_job now uuid name"
  have "snd (rt_enqueue_job ser True now uuid name s) =
      snd (persist_after ser True (job_id ?j) ((rt_jobs s)(job_id ?j \<mapsto> ?j)) s)"
    by (simp add: rt_enqueue_job_def enqueue_def Let_def split: prod.split option.split)
  moreover have "jobs_wf ((rt_jobs s)(job_id ?j \<mapsto> ?j))"
    using assms REnqueue by (auto simp: synced_def jobs_wf_def new_job_wf)
  ultimately show ?thesis
    unfolding REnqueue rt_request_step.simps
    by (simp only:) (rule synced_persist_after [OF assms(1)]; simp)
qed

lemma synced_run: "\<forall>req \<in> set reqs. in_i64 (request_time req) \<Longrightarrow> synced ser (rt_run ser reqs)"
proof (induction reqs rule: rev_induct)
  case Nil
  show ?case by (simp add: rt_run_def synced_def jobs_wf_def table_wf_def get_job_def)
next
  case (snoc req reqs)
  then show ?case by (simp add: rt_run_def synced_request)
qed

text \<open>
  C7: Every request is durable: after any sequence of requests against a store that answers, a
  restart gives back exactly the runtime there was, histories and retry schedules included, as
  long as the table holds no more than the 500 rows that \<open>load_from_store\<close> asks for.
\<close>

theorem restart_recovers_all_jobs:
  assumes "bounded_codec ser de" "\<forall>req \<in> set reqs. in_i64 (request_time req)"
    and "length (rt_table (rt_run ser reqs)) \<le> 500"
  shows "rt_start de True (rt_table (rt_run ser reqs)) = rt_run ser reqs"
proof -
  let ?s = "rt_run ser reqs"
  from assms(2) have s: "synced ser ?s" by (rule synced_run)
  have "rt_jobs (rt_start de True (rt_table ?s)) k = rt_jobs ?s k" for k
  proof (cases "rt_jobs ?s k")
    case (Some j)
    with s have "job_wf j" by (auto simp: synced_def jobs_wf_def)
    with Some s assms(1,3) show ?thesis
      by (simp add: rt_start_jobs synced_def jobs.load_all state_record_round_trip job_wf_times)
  qed (use s assms(3) in \<open>simp add: rt_start_jobs synced_def jobs.load_all\<close>)
  then show ?thesis by (auto simp: rt_start_def intro!: job_runtime.equality)
qed

theorem restart_recovers_all_jobs_witness:
  "let s = rt_run unary_ser [REnqueue 5 ''a'' ''build'', ROperate 9 ''job-a'' (Fail ''boom'')]
   in rt_start unary_de True (rt_table s) = s \<and> length (rt_table s) = 1"
proof -
  let ?reqs = "[REnqueue 5 ''a'' ''build'', ROperate 9 ''job-a'' (Fail ''boom'')]"
  have "length (rt_table (rt_run unary_ser ?reqs)) = 1"
    by (simp add: Let_def rt_run_def rt_enqueue_job_def rt_job_op_def enqueue_def persist_after_def
        persist_job_def new_job_def fail_job_def with_job_def upsert_job_def row_of_record_def)
  moreover have "\<forall>req \<in> set ?reqs. in_i64 (request_time req)"
    by (simp add: in_i64_def i64_min_def i64_max_def)
  ultimately show ?thesis
    using restart_recovers_all_jobs [OF bounded_codecI [OF json_codec_unary], of ?reqs] by (simp add: Let_def)
qed

text \<open>Beyond 500 rows the rest is not loaded.\<close>

lemma start_limit:
  "table_wf t \<Longrightarrow> card (dom (rt_jobs (rt_start de True t))) \<le> 500"
  using jobs.load_limit [of t "job_of_state_record de" 500] by (simp add: rt_start_jobs)

section \<open>Retries\<close>

lemma unat_two_power: "e < 64 \<Longrightarrow> unat (2 ^ e :: u64) = 2 ^ e"
proof -
  assume "e < 64"
  then have "(2 :: nat) ^ e < 2 ^ LENGTH(64)" by (intro power_strict_increasing) simp_all
  from unat_of_nat_small [OF this] show ?thesis by simp
qed

lemma deterministic_backoff_value:
  "unat (deterministic_backoff_ms r) =
     (if attempt r = 0 then 0
      else min (unat (backoff_base_ms r) * 2 ^ min (unat (attempt r) - 1) 20) (2 ^ 64 - 1))"
proof -
  have "min (unat (attempt r) - 1) 20 < 64" by simp
  then show ?thesis
    by (simp add: deterministic_backoff_ms_def Let_def unat_sat_mul unat_sat_sub unat_two_power)
qed

lemma unat_attempt_step: "(a :: u32) < b \<Longrightarrow> unat (a + 1) = unat a + 1"
proof -
  assume "a < b"
  moreover have "unat b < 2 ^ LENGTH(32)" by (rule unsigned_less)
  ultimately have "unat a + 1 < 2 ^ LENGTH(32)" by (simp add: word_less_nat_alt)
  from unat_of_nat_small [OF this] show ?thesis by (simp add: add.commute)
qed

lemma retry_update_fields:
  "attempt (r\<lparr>attempt := a, next_backoff_ms := b, next_retry_at := t\<rparr>) = a"
  "next_backoff_ms (r\<lparr>attempt := a, next_backoff_ms := b, next_retry_at := t\<rparr>) = b"
  "next_retry_at (r\<lparr>attempt := a, next_backoff_ms := b, next_retry_at := t\<rparr>) = t"
  by simp_all

lemma round_up_to_second:
  "int b \<le> 1000 * int ((b + 999) div 1000)" "1000 * int ((b + 999) div 1000) < int b + 1000"
  by linarith+

lemma delay_seconds:
  assumes "unat b \<le> 2 ^ 60"
  shows "min (uint (sat_add b 999 div 1000 :: u64)) i64_max = int ((unat b + 999) div 1000)"
proof -
  have "unat (sat_add b 999) = unat b + 999"
    using assms by (simp add: unat_sat_add)
  then have "uint (sat_add b 999 div 1000) = int ((unat b + 999) div 1000)"
    by (simp only: uint_nat unat_div_distrib) simp
  with assms show ?thesis by (simp add: i64_max_def)
qed

text \<open>
  A failure with attempts left counts one attempt and schedules the retry: the backoff is
  \<open>base * 2^attempts\<close>, doubling at most twenty times, and the job is due once that many milliseconds
  have passed, rounded up to a second.
\<close>

theorem retry_backoff_schedule:
  assumes "attempt r < max_attempts r" "unat (backoff_base_ms r) \<le> 2 ^ 40" "\<bar>now\<bar> \<le> 2 ^ 61"
  shows "let r' = schedule_retry now r; b = unat (next_backoff_ms r') in
    unat (attempt r') = unat (attempt r) + 1
    \<and> b = unat (backoff_base_ms r) * 2 ^ min (unat (attempt r)) 20
    \<and> (\<exists>t. next_retry_at r' = Some t \<and> int b \<le> 1000 * (t - now) \<and> 1000 * (t - now) < int b + 1000)"
proof -
  let ?r' = "schedule_retry now r" and ?b = "unat (backoff_base_ms r) * 2 ^ min (unat (attempt r)) 20"
  let ?r1 = "r\<lparr>attempt := attempt r + 1\<rparr>"
  have a: "unat (attempt r + 1) = unat (attempt r) + 1" by (rule unat_attempt_step [OF assms(1)])
  then have "attempt r + 1 \<noteq> 0" by (metis Suc_eq_plus1 nat.distinct(1) unat_0)
  have "(2::nat) ^ min (unat (attempt r)) 20 \<le> 2 ^ 20" by (rule power_increasing) simp_all
  with assms(2) have "?b \<le> 2 ^ 40 * 2 ^ 20" by (rule mult_le_mono)
  then have bb: "?b \<le> 2 ^ 60" by simp
  have b: "unat (deterministic_backoff_ms ?r1) = ?b"
    using \<open>attempt r + 1 \<noteq> 0\<close> bb by (simp add: deterministic_backoff_value a)
  let ?d = "int ((?b + 999) div 1000)"
  have "schedule_retry now r = ?r1\<lparr>next_backoff_ms := deterministic_backoff_ms ?r1,
      next_retry_at := Some (sat_add_i64 now ?d)\<rparr>"
    using assms(1) delay_seconds [of "deterministic_backoff_ms ?r1"] bb b
    by (simp add: schedule_retry_def Let_def)
  moreover have "sat_add_i64 now ?d = now + ?d"
    using bb assms(3) by (intro sat_add_i64_exact) (auto simp: in_i64_def i64_min_def i64_max_def)
  ultimately have r': "schedule_retry now r = ?r1\<lparr>next_backoff_ms := deterministic_backoff_ms ?r1,
      next_retry_at := Some (now + ?d)\<rparr>" by (simp only:)
  have f: "attempt (schedule_retry now r) = attempt r + 1"
    "next_backoff_ms (schedule_retry now r) = deterministic_backoff_ms ?r1"
    "next_retry_at (schedule_retry now r) = Some (now + ?d)"
    unfolding r' by (rule retry_update_fields)+
  show ?thesis
    unfolding Let_def f a b
    by (rule conjI [OF refl conjI [OF refl exI [where x = "now + ?d"]]])
      (simp only: add_diff_cancel_left' round_up_to_second simp_thms)
qed

theorem retry_backoff_schedule_witness:
  "let r' = schedule_retry 100 (retry_default\<lparr>attempt := 2\<rparr>)
   in next_retry_at r' = Some 102 \<and> unat (next_backoff_ms r') = 2000"
proof -
  let ?r = "retry_default\<lparr>attempt := 2\<rparr>"
  have "attempt ?r < max_attempts ?r" "unat (backoff_base_ms ?r) \<le> 2 ^ 40" "\<bar>100\<bar> \<le> (2 :: int) ^ 61"
    by (simp_all add: retry_default_def DEFAULT_JOB_MAX_ATTEMPTS_def DEFAULT_JOB_BACKOFF_BASE_MS_def)
  from retry_backoff_schedule [OF this] obtain t where
    b: "unat (next_backoff_ms (schedule_retry 100 ?r)) = unat (backoff_base_ms ?r) * 2 ^ min (unat (attempt ?r)) 20"
    and t: "next_retry_at (schedule_retry 100 ?r) = Some t"
      "int (unat (next_backoff_ms (schedule_retry 100 ?r))) \<le> 1000 * (t - 100)"
      "1000 * (t - 100) < int (unat (next_backoff_ms (schedule_retry 100 ?r))) + 1000"
    unfolding Let_def by blast
  have v: "unat (backoff_base_ms ?r) * 2 ^ min (unat (attempt ?r)) 20 = 2000"
    by (simp add: retry_default_def DEFAULT_JOB_BACKOFF_BASE_MS_def)
  have lo: "2000 \<le> 1000 * (t - 100)" and hi: "1000 * (t - 100) < 3000"
    using t(2,3) unfolding b v by simp_all
  from hi have "t \<le> 102" by simp
  moreover from lo have "102 \<le> t" by simp
  ultimately have "t = 102" by (rule order_antisym)
  with t(1) show ?thesis unfolding Let_def b v by simp
qed

definition failures :: "(int \<times> job_op) list \<Rightarrow> nat" where
  "failures ops = length (filter (\<lambda>(now, op). case op of Fail d \<Rightarrow> True | _ \<Rightarrow> False) ops)"

lemma schedule_retry_step:
  assumes "unat (attempt r) \<le> unat (max_attempts r)"
  shows "unat (attempt (schedule_retry now r)) = min (unat (attempt r) + 1) (unat (max_attempts r))"
    and "max_attempts (schedule_retry now r) = max_attempts r"
    and "next_retry_at (schedule_retry now r) \<noteq> None \<longleftrightarrow> unat (attempt r) < unat (max_attempts r)"
  using assms unat_attempt_step [of "attempt r" "max_attempts r"]
  by (auto simp: schedule_retry_def Let_def clear_retry_schedule_def word_less_nat_alt)

text \<open>What an operation does to its job; only a failure counts an attempt.\<close>

lemma job_op_on_job:
  assumes "m jid = Some j"
  shows "\<exists>j'. apply_job_op now jid op m jid = Some j'
    \<and> (case op of Fail d \<Rightarrow> retry j' = schedule_retry now (retry j) \<and> status j' = Failed \<and> detail j' = Some d
        | _ \<Rightarrow> attempt (retry j') = attempt (retry j) \<and> max_attempts (retry j') = max_attempts (retry j))"
  using assms
  by (cases op) (simp_all add: set_running_def update_progress_def complete_job_def fail_job_def cancel_job_def
      pause_job_def resume_job_def with_job_def clear_retry_schedule_def)

text \<open>
  C34: Retries run out: whatever operations a job goes through, in whatever order, its attempts are those it had and
  one for each failure, up to its maximum. A failure leaves a retry scheduled exactly while the failures so far stay
  within the maximum; no other operation gives an attempt back.
\<close>

theorem retries_are_bounded:
  assumes "m jid = Some j" "attempt (retry j) \<le> max_attempts (retry j)"
  shows "\<exists>j'. fold (\<lambda>(now, op). apply_job_op now jid op) ops m jid = Some j'
    \<and> max_attempts (retry j') = max_attempts (retry j)
    \<and> unat (attempt (retry j')) = min (unat (attempt (retry j)) + failures ops) (unat (max_attempts (retry j)))
    \<and> (\<forall>now d. ops \<noteq> [] \<and> last ops = (now, Fail d) \<longrightarrow> status j' = Failed \<and> detail j' = Some d
         \<and> (next_retry_at (retry j') \<noteq> None \<longleftrightarrow>
              unat (attempt (retry j)) + failures ops \<le> unat (max_attempts (retry j))))"
proof (induction ops rule: rev_induct)
  case Nil
  then show ?case using assms by (simp add: failures_def word_le_nat_alt)
next
  case (snoc x ops)
  obtain now op where x: "x = (now, op)" by (cases x)
  from snoc obtain j1 where j1: "fold (\<lambda>(now, op). apply_job_op now jid op) ops m jid = Some j1"
    "max_attempts (retry j1) = max_attempts (retry j)"
    "unat (attempt (retry j1)) = min (unat (attempt (retry j)) + failures ops) (unat (max_attempts (retry j)))" by blast
  from job_op_on_job [of "fold (\<lambda>(now, op). apply_job_op now jid op) ops m" jid j1 now op] j1(1) obtain j' where
    j': "fold (\<lambda>(now, op). apply_job_op now jid op) (ops @ [x]) m jid = Some j'" and effect:
    "case op of Fail d \<Rightarrow> retry j' = schedule_retry now (retry j1) \<and> status j' = Failed \<and> detail j' = Some d
       | _ \<Rightarrow> attempt (retry j') = attempt (retry j1) \<and> max_attempts (retry j') = max_attempts (retry j1)"
    by (auto simp: x)
  show ?case
  proof (cases "\<exists>d. op = Fail d")
    case True
    then have "failures (ops @ [x]) = Suc (failures ops)" by (auto simp: failures_def x)
    moreover have "unat (attempt (retry j1)) \<le> unat (max_attempts (retry j1))" using j1(2,3) by simp
    ultimately show ?thesis
      using True j' effect j1(2,3) schedule_retry_step [of "retry j1" now] by (auto simp: x)
  next
    case False
    then have "failures (ops @ [x]) = failures ops" by (auto simp: failures_def x split: job_op.split)
    then show ?thesis using False j' effect j1(2,3) by (auto simp: x split: job_op.splits)
  qed
qed

theorem retries_are_bounded_witness:
  "\<exists>j'. fold (\<lambda>(now, op). apply_job_op now ''j'' op) [(1, Fail ''x''), (2, SetRunning), (3, Fail ''x''), (4, Fail ''x''), (5, Fail ''x'')]
       [''j'' \<mapsto> new_job 0 ''j'' ''n''] ''j'' = Some j' \<and> unat (attempt (retry j')) = 3 \<and> next_retry_at (retry j') = None"
proof -
  let ?m = "[''j'' \<mapsto> new_job 0 ''j'' ''n'']"
  let ?ops = "[(1, Fail ''x''), (2, SetRunning), (3, Fail ''x''), (4, Fail ''x''), (5, Fail ''x'')]"
  have "?m ''j'' = Some (new_job 0 ''j'' ''n'')" "attempt (retry (new_job 0 ''j'' ''n'')) \<le> max_attempts (retry (new_job 0 ''j'' ''n''))"
    by (simp_all add: new_job_def retry_default_def)
  from retries_are_bounded [of ?m "''j''", OF this, of ?ops] show ?thesis
    by (auto simp: failures_def new_job_def retry_default_def DEFAULT_JOB_MAX_ATTEMPTS_def simp del: fold_simps)
qed

section \<open>Pending jobs after a resume\<close>

definition pending :: "job_record \<Rightarrow> bool" where
  "pending j \<longleftrightarrow> status j = Queued \<or> status j = Running"

lemma resume_pending_other: "k \<notin> fst ` set order \<Longrightarrow> fst (resume_pending order m) k = m k"
proof (induction order arbitrary: m)
  case (Cons x rest)
  obtain k' now where x: "x = (k', now)" by force
  from Cons.prems x have "k \<noteq> k'" "k \<notin> fst ` set rest" by auto
  then show ?case
    by (simp add: x resume_pending_step Cons.IH del: resume_pending.simps split: option.split)
qed simp

lemma resume_pending_mem:
  assumes "distinct (map fst order)" "(k, now) \<in> set order"
  shows "fst (resume_pending order m) k = map_option (\<lambda>j. if pending j then requeue now j else j) (m k)"
  using assms
proof (induction order arbitrary: m)
  case (Cons x rest)
  obtain k' now' where x: "x = (k', now')" by force
  show ?case
  proof (cases "k = k'")
    case True
    with Cons.prems x have n: "now = now'" "k \<notin> fst ` set rest" by force+
    show ?thesis unfolding x True [symmetric] n(1) [symmetric] resume_pending_step
      by (cases "m k") (simp_all add: resume_pending_other [OF n(2)] pending_def)
  next
    case False
    with Cons.prems x have "(k, now) \<in> set rest" "distinct (map fst rest)" by auto
    with False show ?thesis
      by (simp add: x resume_pending_step Cons.IH del: resume_pending.simps split: option.split)
  qed
qed simp

lemma resume_pending_returned:
  "snd (resume_pending ((k, now) # rest) m) =
     (case m k of
        None \<Rightarrow> snd (resume_pending rest m)
      | Some j \<Rightarrow>
          if pending j then requeue now j # snd (resume_pending rest (m(k \<mapsto> requeue now j)))
          else snd (resume_pending rest m))"
  by (auto simp: Let_def pending_def split: option.split prod.split)

lemma resume_pending_lists:
  assumes "distinct (map fst order)" "(k, now) \<in> set order" "m k = Some j" "pending j"
  shows "requeue now j \<in> set (snd (resume_pending order m))"
  using assms
proof (induction order arbitrary: m)
  case (Cons x rest)
  obtain k' now' where x: "x = (k', now')" by force
  show ?case
  proof (cases "k = k'")
    case True
    with Cons.prems x have "now = now'" by force
    with True Cons.prems show ?thesis
      by (simp add: x resume_pending_returned del: resume_pending.simps)
  next
    case False
    with Cons.prems x have "(k, now) \<in> set rest" "distinct (map fst rest)" by auto
    with False Cons.prems(3,4) Cons.IH show ?thesis
      by (simp add: x resume_pending_returned del: resume_pending.simps split: option.split)
  qed
qed simp

lemma requeue_status [simp]: "status (requeue now j) = Queued"
  by (simp add: requeue_def)

lemma resume_pending_queued: "\<forall>j' \<in> set (snd (resume_pending order m)). status j' = Queued"
proof (induction order arbitrary: m)
  case (Cons x rest)
  then show ?case
    by (cases x) (simp add: resume_pending_returned del: resume_pending.simps split: option.split)
qed simp

text \<open>
  \<open>resume_pending\<close> puts exactly the queued and running jobs back to queued, whatever the iteration
  order of the map, leaves every other job as it is and returns the requeued jobs.
\<close>

theorem resume_pending_correct:
  assumes "distinct (map fst order)" "dom m \<subseteq> fst ` set order"
  shows "(\<forall>k j. m k = Some j \<and> \<not> pending j \<longrightarrow> fst (resume_pending order m) k = Some j)
    \<and> (\<forall>k now j. (k, now) \<in> set order \<and> m k = Some j \<and> pending j \<longrightarrow>
         fst (resume_pending order m) k = Some (requeue now j) \<and> requeue now j \<in> set (snd (resume_pending order m)))
    \<and> (\<forall>j' \<in> set (snd (resume_pending order m)). status j' = Queued)
    \<and> dom (fst (resume_pending order m)) = dom m"
proof (intro conjI)
  note R = resume_pending_mem [OF assms(1)]
  show "\<forall>k j. m k = Some j \<and> \<not> pending j \<longrightarrow> fst (resume_pending order m) k = Some j"
  proof (intro allI impI)
    fix k j assume kj: "m k = Some j \<and> \<not> pending j"
    with assms(2) obtain now where "(k, now) \<in> set order" by force
    from R [OF this, of m] kj show "fst (resume_pending order m) k = Some j" by simp
  qed
  show "\<forall>k now j. (k, now) \<in> set order \<and> m k = Some j \<and> pending j \<longrightarrow>
         fst (resume_pending order m) k = Some (requeue now j) \<and> requeue now j \<in> set (snd (resume_pending order m))"
  proof (intro allI impI, elim conjE)
    fix k now j assume h: "(k, now) \<in> set order" "m k = Some j" "pending j"
    from R [OF h(1), of m] h resume_pending_lists [OF assms(1) h(1)]
    show "fst (resume_pending order m) k = Some (requeue now j) \<and> requeue now j \<in> set (snd (resume_pending order m))"
      by simp
  qed
  show "\<forall>j' \<in> set (snd (resume_pending order m)). status j' = Queued"
    by (rule resume_pending_queued)
  have "fst (resume_pending order m) k = None \<longleftrightarrow> m k = None" for k
  proof (cases "k \<in> fst ` set order")
    case True
    then obtain now where "(k, now) \<in> set order" by force
    from R [OF this, of m] show ?thesis by simp
  qed (simp add: resume_pending_other)
  then show "dom (fst (resume_pending order m)) = dom m" by (simp add: dom_def)
qed

theorem resume_pending_correct_witness:
  "requeue 9 (new_job 5 ''a'' ''build'')
     \<in> set (snd (resume_pending [(''job-a'', 9)] [''job-a'' \<mapsto> new_job 5 ''a'' ''build'']))"
proof -
  let ?order = "[(''job-a'', 9 :: int)]" and ?j = "new_job 5 ''a'' ''build''"
  let ?m = "[''job-a'' \<mapsto> ?j]"
  have o: "distinct (map fst ?order)" "dom ?m \<subseteq> fst ` set ?order" by simp_all
  have "pending ?j" by (simp add: pending_def new_job_def)
  moreover have "(''job-a'', 9) \<in> set ?order" "?m ''job-a'' = Some ?j" by simp_all
  ultimately show ?thesis using resume_pending_correct [OF o] by blast
qed

section \<open>Where the code is wider than its comments\<close>

text \<open>\<open>resume\<close> is documented for paused or failed jobs, but restarts a job in any state.\<close>

lemma resume_revives_cancelled:
  "m k = Some j \<Longrightarrow> status j = Cancelled \<Longrightarrow>
     map_option status (resume_job now k d m k) = Some Running"
  by (simp add: resume_job_def with_job_def)

text \<open>The table has no paused status: a paused job whose detail column does not parse comes back
  running.\<close>

lemma paused_falls_back_to_running:
  assumes "status j = Paused" "de (ser (job_detail_to_value j)) = None"
  shows "status (job_of_state_record de (state_record_of_job ser j)) = Running"
  using assms by (simp add: job_of_state_record_def state_record_of_job_def
      parse_persisted_detail_def encode_persisted_detail_def)

text \<open>A restart keeps running jobs as running: \<open>resume_pending\<close> is not part of it.\<close>

lemma restart_keeps_running:
  assumes "bounded_codec ser de" "job_wf j" "status j = Running"
  shows "rt_jobs (rt_start de True [row_of_record (state_record_of_job ser j)]) (job_id j) = Some j"
proof -
  have t: "table_wf [row_of_record (state_record_of_job ser j)]" by (simp add: table_wf_def)
  have "get_job (job_id j) [row_of_record (state_record_of_job ser j)] = Some (state_record_of_job ser j)"
    using get_job_upsert [of "job_id j" "state_record_of_job ser j" "[]"] by (simp add: upsert_job_def)
  with t show ?thesis
    using state_record_round_trip [OF assms(1) job_wf_times [OF assms(2)]]
    by (simp add: rt_start_jobs jobs.load_all)
qed

end
