(* ===== verification/Ordered_Map.thy ===== *)
theory Ordered_Map
  imports Rust_Std
begin

text \<open>
  Interface and model of \<open>std::collections::BTreeMap\<close>. The locale \<open>ordered_map\<close> states the
  contract the fleet ledger relies on (look-up after insertion and in-place change, iteration in
  increasing key order); its lemmas are proved from the contract alone. The model is the sorted
  association list of the entries, and \<open>bt\<close> interprets the contract on it.
\<close>

section \<open>The contract\<close>

locale ordered_map =
  fixes empty :: "'m"
    and get :: "'m \<Rightarrow> 'k::linorder \<Rightarrow> 'v option"
    and insert_at :: "'k \<Rightarrow> 'v \<Rightarrow> 'm \<Rightarrow> 'm"
    and modify :: "'k \<Rightarrow> ('v \<Rightarrow> 'v) \<Rightarrow> 'm \<Rightarrow> 'm"
    and entries :: "'m \<Rightarrow> ('k \<times> 'v) list"
    and wf_map :: "'m \<Rightarrow> bool"
  assumes get_empty: "get empty k = None"
    and wf_empty: "wf_map empty"
    and get_insert_at: "get (insert_at k v m) = (get m)(k \<mapsto> v)"
    and wf_insert_at: "wf_map m \<Longrightarrow> wf_map (insert_at k v m)"
    and get_modify: "get (modify k f m) = (get m)(k := map_option f (get m k))"
    and wf_modify: "wf_map m \<Longrightarrow> wf_map (modify k f m)"
    and sorted_entries: "wf_map m \<Longrightarrow> sorted (map fst (entries m))"
    and distinct_entries: "wf_map m \<Longrightarrow> distinct (map fst (entries m))"
    and map_of_entries: "map_of (entries m) = get m"
begin

lemma get_insert_same: "get (insert_at k v m) k = Some v"
  by (simp add: get_insert_at)

lemma get_insert_other: "k \<noteq> k' \<Longrightarrow> get (insert_at k v m) k' = get m k'"
  by (simp add: get_insert_at)

lemma get_modify_other: "k \<noteq> k' \<Longrightarrow> get (modify k f m) k' = get m k'"
  by (simp add: get_modify)

lemma in_entries: "wf_map m \<Longrightarrow> (k, v) \<in> set (entries m) \<longleftrightarrow> get m k = Some v"
  using map_of_entries [of m] distinct_entries [of m] by (metis map_of_eq_Some_iff)

lemma in_values: "wf_map m \<Longrightarrow> v \<in> snd ` set (entries m) \<longleftrightarrow> (\<exists>k. get m k = Some v)"
  using in_entries [of m] by force

text \<open>A map iterates in an order fixed by its contents, whatever the history of insertions.\<close>

lemma entries_ext:
  assumes "wf_map m" "wf_map m'" "get m = get m'"
  shows "entries m = entries m'"
proof (rule map_sorted_distinct_set_unique)
  have ks: "set (map fst (entries x)) = dom (get x)" for x
    by (simp add: map_of_entries [symmetric] dom_map_of_conv_image_fst)
  show "inj_on fst (set (entries m) \<union> set (entries m'))"
    using assms in_entries by (fastforce simp: inj_on_def)
  show "sorted (map fst (entries m))" "distinct (map fst (entries m))"
    "sorted (map fst (entries m'))" "distinct (map fst (entries m'))"
    using assms sorted_entries distinct_entries by auto
  show "set (entries m) = set (entries m')"
    using assms in_entries by auto
qed

text \<open>Inserting a list of entries one by one.\<close>

lemma get_fold_insert:
  "get (fold (\<lambda>(k, v). insert_at k v) kvs m) = get m ++ map_of (rev kvs)"
proof (induction kvs arbitrary: m)
  case Nil
  then show ?case by simp
next
  case (Cons kv kvs)
  then show ?case
    by (cases kv) (auto simp: get_insert_at map_add_def fun_eq_iff split: option.splits)
qed

lemma wf_fold_insert: "wf_map m \<Longrightarrow> wf_map (fold (\<lambda>(k, v). insert_at k v) kvs m)"
  by (induction kvs arbitrary: m) (auto intro: wf_insert_at)

lemma reinsert_entries:
  assumes "wf_map m"
  shows "get (fold (\<lambda>(k, v). insert_at k v) (entries m) empty) = get m"
proof -
  have "map_of (rev (entries m)) = map_of (entries m)"
    using distinct_entries [OF assms] by (subst map_of_inject_set) (simp_all add: rev_map [symmetric])
  then show ?thesis
    by (auto simp: get_fold_insert map_of_entries get_empty map_add_def fun_eq_iff split: option.splits)
qed

end

section \<open>The model\<close>

type_synonym ('k, 'v) btree = "('k \<times> 'v) list"

fun bt_insert :: "'k::linorder \<Rightarrow> 'v \<Rightarrow> ('k, 'v) btree \<Rightarrow> ('k, 'v) btree" where
  "bt_insert k v [] = [(k, v)]"
| "bt_insert k v ((k', v') # m) =
     (if k = k' then (k, v) # m
      else if k < k' then (k, v) # (k', v') # m
      else (k', v') # bt_insert k v m)"

definition bt_get :: "('k, 'v) btree \<Rightarrow> 'k \<Rightarrow> 'v option" where
  "bt_get m k = map_of m k"

text \<open>\<open>if let Some(v) = m.get_mut(k) { f(v) }\<close>.\<close>

definition bt_modify :: "'k \<Rightarrow> ('v \<Rightarrow> 'v) \<Rightarrow> ('k, 'v) btree \<Rightarrow> ('k, 'v) btree" where
  "bt_modify k f m = map (\<lambda>(k', v). (k', if k' = k then f v else v)) m"

definition bt_values :: "('k, 'v) btree \<Rightarrow> 'v list" where
  "bt_values m = map snd m"

definition bt_wf :: "('k::linorder, 'v) btree \<Rightarrow> bool" where
  "bt_wf m \<longleftrightarrow> sorted_wrt (<) (map fst m)"

lemma bt_get_insert: "bt_get (bt_insert k v m) = (bt_get m)(k \<mapsto> v)"
  by (induction k v m rule: bt_insert.induct) (auto simp: bt_get_def fun_eq_iff)

lemma bt_insert_keys: "fst ` set (bt_insert k v m) = insert k (fst ` set m)"
  by (induction k v m rule: bt_insert.induct) auto

lemma bt_wf_insert: "bt_wf m \<Longrightarrow> bt_wf (bt_insert k v m)"
proof (induction k v m rule: bt_insert.induct)
  case (2 k v k' v' m)
  have keys: "set (map fst (bt_insert k v m)) = insert k (fst ` set m)"
    by (simp add: bt_insert_keys)
  from 2 show ?case
    by (auto simp: bt_wf_def keys simp del: set_map) force
qed (simp add: bt_wf_def)

lemma bt_modify_keys [simp]: "map fst (bt_modify k f m) = map fst m"
  by (simp add: bt_modify_def comp_def split_beta)

lemma bt_get_modify: "bt_get (bt_modify k f m) = (bt_get m)(k := map_option f (bt_get m k))"
  by (induction m) (auto simp: bt_get_def bt_modify_def fun_eq_iff)

interpretation bt: ordered_map "[]" bt_get bt_insert bt_modify "\<lambda>m. m" bt_wf
proof
  fix k :: "'a::linorder" and v :: 'b and f and m :: "('a, 'b) btree"
  show "bt_get [] k = (None :: 'b option)" by (simp add: bt_get_def)
  show "bt_wf ([] :: ('a, 'b) btree)" by (simp add: bt_wf_def)
  show "bt_get (bt_insert k v m) = (bt_get m)(k \<mapsto> v)" by (rule bt_get_insert)
  show "bt_wf m \<Longrightarrow> bt_wf (bt_insert k v m)" by (rule bt_wf_insert)
  show "bt_get (bt_modify k f m) = (bt_get m)(k := map_option f (bt_get m k))"
    by (rule bt_get_modify)
  show "bt_wf m \<Longrightarrow> bt_wf (bt_modify k f m)" by (simp add: bt_wf_def)
  show "bt_wf m \<Longrightarrow> sorted (map fst m)" "bt_wf m \<Longrightarrow> distinct (map fst m)"
    by (auto simp: bt_wf_def strict_sorted_iff)
  show "map_of m = bt_get m" by (simp add: bt_get_def fun_eq_iff)
qed

lemmas bt_simps = bt.get_insert_same bt.get_insert_at bt.get_modify bt.get_empty

text \<open>\<open>m.values()\<close> runs over exactly the stored values.\<close>

lemma bt_values_iff: "bt_wf m \<Longrightarrow> v \<in> set (bt_values m) \<longleftrightarrow> (\<exists>k. bt_get m k = Some v)"
  using bt.in_values [of m v] by (simp add: bt_values_def)

end
