(* ===== verification/Fleet_Types.thy ===== *)
theory Fleet_Types
  imports Json_Value Ordered_Map
begin

text \<open>
  The control-plane types of \<open>crates/protocol/src/fleet.rs\<close>. A \<open>BTreeMap\<close> is a \<open>btree\<close> of
  \<open>Ordered_Map\<close>, a path is its text, \<open>f32\<close> and \<open>f64\<close> are kept as their bits, and a \<open>FleetRunId\<close> is the
  string it wraps. Fields that several structs share get a prefix for their struct.
\<close>

section \<open>Identifiers, artifacts, scores\<close>

type_synonym fleet_run_id = string
type_synonym f32 = "32 word"
type_synonym f64 = "64 word"

datatype artifact_kind =
    Log | Patch | TestResult | Report | Checkpoint | Receipt | OtherKind string

fun as_wire_str :: "artifact_kind \<Rightarrow> string" where
  "as_wire_str Log = ''log''"
| "as_wire_str Patch = ''patch''"
| "as_wire_str TestResult = ''test_result''"
| "as_wire_str Report = ''report''"
| "as_wire_str Checkpoint = ''checkpoint''"
| "as_wire_str Receipt = ''receipt''"
| "as_wire_str (OtherKind kind) = kind"

definition from_wire_str :: "string \<Rightarrow> artifact_kind" where
  "from_wire_str s =
     (if s = ''log'' then Log
      else if s = ''patch'' then Patch
      else if s = ''test_result'' then TestResult
      else if s = ''report'' then Report
      else if s = ''checkpoint'' then Checkpoint
      else if s = ''receipt'' then Receipt
      else OtherKind s)"

definition serialize_artifact_kind :: "artifact_kind \<Rightarrow> json" where
  "serialize_artifact_kind k = JStr (as_wire_str k)"

definition deserialize_artifact_kind :: "json \<Rightarrow> artifact_kind option" where
  "deserialize_artifact_kind v = map_option from_wire_str (as_str v)"

record fleet_artifact_ref =
  art_kind :: artifact_kind
  art_path :: string
  art_checksum :: "string option"
  art_mime_type :: "string option"
  art_size_bytes :: "u64 option"

datatype fleet_scorer_spec =
    ExitCode
  | FileExists string
  | RegexMatch string string
  | JsonPath string string
  | ScorerCommand string "string list"
  | CodeWhaleVerifierPrompt string
  | Manual

record fleet_score =
  score_value :: f64
  score_max :: "f64 option"
  score_notes :: "string option"

section \<open>Secrets and trust\<close>

record fleet_secret_ref =
  secret_key :: string
  secret_source :: "string option"

definition secret_ref_new :: "string \<Rightarrow> fleet_secret_ref" where
  "secret_ref_new key = \<lparr>secret_key = key, secret_source = None\<rparr>"

definition secret_ref_with_source :: "string \<Rightarrow> string \<Rightarrow> fleet_secret_ref" where
  "secret_ref_with_source key src = \<lparr>secret_key = key, secret_source = Some src\<rparr>"

definition secret_ref_redacted :: "fleet_secret_ref \<Rightarrow> string" where
  "secret_ref_redacted s =
     (case secret_source s of
        Some src \<Rightarrow> ''<secret:'' @ src @ ''.'' @ secret_key s @ ''>''
      | None \<Rightarrow> ''<secret:'' @ secret_key s @ ''>'')"

text \<open>The untagged wire form: a bare string, or an object with a key and an optional source.\<close>

datatype secret_ref_wire = WireKey string | WireStructured string "string option"

definition secret_ref_wire_of :: "json \<Rightarrow> secret_ref_wire option" where
  "secret_ref_wire_of v =
     (case v of
        JStr k \<Rightarrow> Some (WireKey k)
      | JObj kvs \<Rightarrow>
          (case json_get ''key'' v of
             Some (JStr k) \<Rightarrow>
               (case json_get ''source'' v of
                  None \<Rightarrow> Some (WireStructured k None)
                | Some JNull \<Rightarrow> Some (WireStructured k None)
                | Some (JStr s) \<Rightarrow> Some (WireStructured k (Some s))
                | _ \<Rightarrow> None)
           | _ \<Rightarrow> None)
      | _ \<Rightarrow> None)"

definition deserialize_secret_ref :: "json \<Rightarrow> string + fleet_secret_ref" where
  "deserialize_secret_ref v =
     (case secret_ref_wire_of v of
        None \<Rightarrow> Inl ''data did not match any variant of untagged enum SecretRefWire''
      | Some (WireKey key) \<Rightarrow>
          if trim key \<noteq> [] then Inr (secret_ref_new key) else Inl ''secret ref key cannot be empty''
      | Some (WireStructured key source) \<Rightarrow>
          if trim key \<noteq> [] then Inr \<lparr>secret_key = key, secret_source = source\<rparr>
          else Inl ''secret ref key cannot be empty'')"

datatype fleet_trust_level = Sandbox | LocalTrust | RemoteVerified | Operator

fun may_access_secrets :: "fleet_trust_level \<Rightarrow> bool" where
  "may_access_secrets Sandbox = False"
| "may_access_secrets _ = True"

fun may_write_workspace :: "fleet_trust_level \<Rightarrow> bool" where
  "may_write_workspace Operator = True"
| "may_write_workspace LocalTrust = True"
| "may_write_workspace _ = False"

fun may_access_network :: "fleet_trust_level \<Rightarrow> bool" where
  "may_access_network Sandbox = False"
| "may_access_network _ = True"

record fleet_capability_grant =
  grant_capability :: string
  grant_scope :: "string option"
  grant_reason :: "string option"

record fleet_security_policy =
  default_trust_level :: fleet_trust_level
  allowed_secrets :: "fleet_secret_ref list"
  capability_grants :: "fleet_capability_grant list"
  max_trust_level :: fleet_trust_level
  require_identity_verification :: bool
  allow_parallel_reads :: bool

definition security_policy_default :: fleet_security_policy where
  "security_policy_default = \<lparr>default_trust_level = Sandbox, allowed_secrets = [],
     capability_grants = [], max_trust_level = Operator, require_identity_verification = False,
     allow_parallel_reads = False\<rparr>"

datatype fleet_worker_auth =
    NoAuth
  | SshKey string "string option" "string option" "string option"
  | Token fleet_secret_ref
  | Mtls string fleet_secret_ref

section \<open>Retries and alerts\<close>

record fleet_retry_policy =
  rp_max_attempts :: u32
  rp_initial_backoff_seconds :: u64
  rp_max_backoff_seconds :: u64
  rp_backoff_multiplier :: u32

definition retry_policy_default :: fleet_retry_policy where
  "retry_policy_default = \<lparr>rp_max_attempts = 3, rp_initial_backoff_seconds = 5,
     rp_max_backoff_seconds = 300, rp_backoff_multiplier = 2\<rparr>"

datatype fleet_alert_event_class =
  StaleClass | RestartExhausted | NeedsHuman | BudgetExceeded | VerifierFailed | RunCompleted

record fleet_alert_endpoint =
  ep_url :: "string option"
  ep_url_ref :: "fleet_secret_ref option"
  ep_secret_ref :: "fleet_secret_ref option"

definition endpoint_inline :: "string \<Rightarrow> fleet_alert_endpoint" where
  "endpoint_inline url = \<lparr>ep_url = Some url, ep_url_ref = None, ep_secret_ref = None\<rparr>"

definition endpoint_from_secret :: "fleet_secret_ref \<Rightarrow> fleet_alert_endpoint" where
  "endpoint_from_secret r = \<lparr>ep_url = None, ep_url_ref = Some r, ep_secret_ref = None\<rparr>"

definition endpoint_redacted :: "fleet_alert_endpoint \<Rightarrow> string" where
  "endpoint_redacted e =
     (case ep_url_ref e of None \<Rightarrow> ''<inline-url>'' | Some r \<Rightarrow> secret_ref_redacted r)"

datatype fleet_alert_channel =
    Slack fleet_alert_endpoint
  | Webhook fleet_alert_endpoint
  | PagerDuty string string

record fleet_alert_policy =
  ap_events :: "fleet_alert_event_class list"
  ap_channels :: "fleet_alert_channel list"
  ap_after_attempts :: "u32 option"
  ap_after_minutes_stale :: "u64 option"

section \<open>Tasks, workers, runs\<close>

record fleet_task_worker_profile =
  wp_agent_profile :: "string option"
  wp_role :: "string option"
  wp_loadout :: "string option"
  wp_model_class :: "string option"
  wp_model :: "string option"
  wp_tool_profile :: "string option"
  wp_tools :: "string list"
  wp_capabilities :: "string list"

record fleet_environment_requirements =
  env_required :: "string list"
  env_allowlist :: "string list"

record fleet_workspace_requirements =
  wr_root :: "string option"
  wr_required_files :: "string list"
  wr_writable_paths :: "string list"
  wr_environment :: "fleet_environment_requirements option"

record fleet_task_budget =
  max_tokens :: "u64 option"
  max_tool_calls :: "u32 option"
  max_seconds :: "u64 option"

record fleet_task_spec =
  ts_id :: string
  ts_name :: string
  ts_description :: "string option"
  ts_objective :: "string option"
  ts_instructions :: string
  ts_worker :: "fleet_task_worker_profile option"
  ts_workspace :: "fleet_workspace_requirements option"
  ts_input_files :: "string list"
  ts_context :: "string list"
  ts_budget :: "fleet_task_budget option"
  ts_tags :: "string list"
  ts_expected_artifacts :: "artifact_kind list"
  ts_scorer :: "fleet_scorer_spec option"
  ts_retry_policy :: "fleet_retry_policy option"
  ts_alert_policy :: "fleet_alert_policy option"
  ts_timeout_seconds :: "u64 option"
  ts_metadata :: "(string, json) btree"

datatype fleet_host_spec =
    LocalHost
  | Ssh (ssh_host: string) "u16 option" "string option" "string option" "string option"
      "string option" "string option" "string list" "string option"
  | Docker (docker_image: string) "string list"

record fleet_worker_spec =
  ws_id :: string
  ws_name :: string
  ws_host :: fleet_host_spec
  ws_trust_level :: "fleet_trust_level option"
  ws_labels :: "(string, string) btree"
  ws_capabilities :: "string list"
  ws_max_concurrent_tasks :: "nat option"

datatype fleet_run_status =
  RunPending | RunQueued | RunRunning | RunPaused | RunCompletedStatus | RunFailed | RunCancelled

record fleet_run =
  run_id :: fleet_run_id
  run_name :: string
  run_status :: fleet_run_status
  run_task_specs :: "fleet_task_spec list"
  run_worker_specs :: "fleet_worker_spec list"
  run_labels :: "(string, string) btree"
  run_security_policy :: "fleet_security_policy option"
  run_created_at :: string
  run_updated_at :: "string option"
  run_completed_at :: "string option"

section \<open>Inbox, events, receipts\<close>

datatype fleet_worker_status = Unknown | Online | Busy | Offline | Unhealthy | Draining | Retired

record fleet_inbox_entry =
  ie_run_id :: fleet_run_id
  ie_task_id :: string
  ie_priority :: int
  ie_enqueued_at :: string
  ie_lease_deadline :: "string option"
  ie_attempts :: u32

datatype fleet_event_payload =
    EvQueued
  | EvLeased "string option"
  | EvStarting
  | EvRunning
  | EvModelWait "string option"
  | EvRunningTool string "string option"
  | EvHeartbeat "f32 option" "u64 option"
  | EvArtifact fleet_artifact_ref
  | EvCompleted "int option" "string option"
  | EvFailed string bool
  | EvCancelled "string option"
  | EvInterrupted "string option"
  | EvStale "string option"
  | EvRestarted u32
  | EvEscalated string "string option"

record fleet_worker_event =
  ev_seq :: u64
  ev_run_id :: fleet_run_id
  ev_worker_id :: string
  ev_task_id :: string
  ev_timestamp :: string
  ev_payload :: fleet_event_payload
  ev_extra :: "(string, json) btree"

record fleet_resolved_route =
  rr_provider_id :: string
  rr_provider_kind :: string
  rr_canonical_model :: "string option"
  rr_wire_model_id :: string
  rr_protocol :: string
  rr_role :: "string option"
  rr_loadout :: "string option"
  rr_source :: string

datatype fleet_task_result = Pass | Partial | FailResult | SkipResult | Timeout

datatype fleet_task_failure_kind = Transport | TaskFailure | VerifierFailure

record fleet_receipt =
  rc_run_id :: fleet_run_id
  rc_task_id :: string
  rc_worker_id :: string
  rc_completed_at :: string
  rc_result :: fleet_task_result
  rc_failure_kind :: "fleet_task_failure_kind option"
  rc_artifacts :: "fleet_artifact_ref list"
  rc_score :: "fleet_score option"
  rc_resolved_route :: "fleet_resolved_route option"

section \<open>Wire forms\<close>

text \<open>
  Reading an artifact kind back from its wire string gives the kind, unless an \<open>Other\<close> kind holds the
  name of a built-in one.
\<close>

lemma artifact_kind_round_trip:
  "from_wire_str (as_wire_str k) = k \<longleftrightarrow>
     (\<forall>s. k = OtherKind s \<longrightarrow> s \<notin> {''log'', ''patch'', ''test_result'', ''report'', ''checkpoint'', ''receipt''})"
  by (cases k) (auto simp: from_wire_str_def)

lemma as_wire_str_from [simp]: "as_wire_str (from_wire_str s) = s"
  by (simp add: from_wire_str_def)

end
