(* ===== verification/Fleet_Ledger.thy ===== *)
theory Fleet_Ledger
  imports Fleet_Types "HOL-Library.Product_Lexorder"
begin

text \<open>
  \<open>crates/tui/src/fleet/ledger.rs\<close>: the append-only ledger of fleet runs. Two levels: the file, whose
  text every operation extends by one line and \<open>rebuild_state\<close> reads line by line, and the list of
  records the file holds, over which the state is a fold of \<open>apply_record\<close>. The serde text of a
  record is a parameter (\<open>ser\<close>, \<open>de\<close>), as is whether the file system answers (\<open>ok\<close>).
\<close>

section \<open>Records and state\<close>

datatype task_ledger_status = TsEnqueued | TsLeased | TsCompleted | TsFailed | TsCancelled

definition default_terminal_task_status :: task_ledger_status where
  "default_terminal_task_status = TsCompleted"

datatype ledger_record =
    RunCreated fleet_run
  | RunStatusChanged fleet_run_id fleet_run_status string
  | TaskEnqueued fleet_inbox_entry
  | TaskLeased fleet_run_id string string string "string option"
  | TaskCompletedOrFailed fleet_run_id string string string task_ledger_status
  | EventAppended fleet_worker_event
  | Heartbeat string string "f32 option" "u64 option"
  | ReceiptRecorded fleet_receipt
  | AlertSent fleet_run_id string string string

record task_state =
  tk_entry :: fleet_inbox_entry
  tk_status :: task_ledger_status
  tk_leased_to :: "string option"
  tk_leased_at :: "string option"
  tk_completed_at :: "string option"

record heartbeat_state =
  hb_timestamp :: string
  hb_cpu_percent :: "f32 option"
  hb_memory_mb :: "u64 option"

record ledger_state =
  runs :: "(string, fleet_run) btree"
  run_status_overrides :: "(string, fleet_run_status) btree"
  tasks :: "(string, task_state) btree"
  workers :: "(string, fleet_worker_status) btree"
  heartbeats :: "(string, heartbeat_state) btree"
  latest_seq :: "(string, u64) btree"
  latest_events :: "(string, fleet_worker_event) btree"
  artifact_events :: "(string, fleet_worker_event) btree"
  restarted_events :: "(string, fleet_worker_event) btree"
  escalated_events :: "(string, fleet_worker_event) btree"
  receipts :: "(string, fleet_receipt) btree"

definition state_default :: ledger_state where
  "state_default = \<lparr>runs = [], run_status_overrides = [], tasks = [], workers = [], heartbeats = [],
     latest_seq = [], latest_events = [], artifact_events = [], restarted_events = [],
     escalated_events = [], receipts = []\<rparr>"

definition task_key :: "string \<Rightarrow> string \<Rightarrow> string" where
  "task_key r t = r @ '':'' @ t"

definition event_key :: "string \<Rightarrow> string \<Rightarrow> string \<Rightarrow> string" where
  "event_key w r t = w @ '':'' @ r @ '':'' @ t"

definition compact_event_key :: "fleet_worker_event \<Rightarrow> string" where
  "compact_event_key e =
     ev_worker_id e @ '':'' @ ev_run_id e @ '':'' @ ev_task_id e @ '':'' @ show_nat (unat (ev_seq e))"

definition artifact_event_key :: "fleet_worker_event \<Rightarrow> fleet_artifact_ref \<Rightarrow> string" where
  "artifact_event_key e a =
     ev_worker_id e @ '':'' @ ev_run_id e @ '':'' @ ev_task_id e @ '':'' @ art_path a"

definition the_event_key :: "fleet_worker_event \<Rightarrow> string" where
  "the_event_key e = event_key (ev_worker_id e) (ev_run_id e) (ev_task_id e)"

section \<open>Applying one record\<close>

definition finish_task :: "string \<Rightarrow> string \<Rightarrow> task_ledger_status \<Rightarrow> task_state \<Rightarrow> task_state" where
  "finish_task w ts st t =
     (let t1 = t\<lparr>tk_status := st\<rparr>;
          t2 = (if w \<noteq> [] then t1\<lparr>tk_leased_to := Some w\<rparr> else t1)
      in t2\<lparr>tk_completed_at := Some ts\<rparr>)"

definition mark_task_terminal ::
  "fleet_run_id \<Rightarrow> string \<Rightarrow> string \<Rightarrow> string \<Rightarrow> task_ledger_status \<Rightarrow> ledger_state \<Rightarrow> ledger_state" where
  "mark_task_terminal r t w ts st s =
     s\<lparr>tasks := bt_modify (task_key r t) (finish_task w ts st) (tasks s)\<rparr>"

definition set_worker :: "string \<Rightarrow> fleet_worker_status \<Rightarrow> ledger_state \<Rightarrow> ledger_state" where
  "set_worker w st s = s\<lparr>workers := bt_insert w st (workers s)\<rparr>"

definition new_task :: "fleet_inbox_entry \<Rightarrow> task_state" where
  "new_task e = \<lparr>tk_entry = e, tk_status = TsEnqueued, tk_leased_to = None, tk_leased_at = None,
     tk_completed_at = None\<rparr>"

definition lease_state :: "string \<Rightarrow> string \<Rightarrow> string option \<Rightarrow> task_state \<Rightarrow> task_state" where
  "lease_state w at ex t =
     t\<lparr>tk_status := TsLeased, tk_leased_to := Some w, tk_leased_at := Some at,
       tk_entry := (tk_entry t)\<lparr>ie_lease_deadline := ex,
         ie_attempts := sat_add (ie_attempts (tk_entry t)) 1\<rparr>\<rparr>"

text \<open>The parts of the \<open>EventAppended\<close> branch, in the order of the code.\<close>

definition note_latest :: "fleet_worker_event \<Rightarrow> ledger_state \<Rightarrow> ledger_state" where
  "note_latest e s =
     (let k = the_event_key e
      in if (case bt_get (latest_seq s) k of None \<Rightarrow> True | Some seq \<Rightarrow> ev_seq e > seq)
         then s\<lparr>latest_seq := bt_insert k (ev_seq e) (latest_seq s),
                latest_events := bt_insert k e (latest_events s)\<rparr>
         else s)"

definition note_kind :: "fleet_worker_event \<Rightarrow> ledger_state \<Rightarrow> ledger_state" where
  "note_kind e s =
     (case ev_payload e of
        EvArtifact a \<Rightarrow> s\<lparr>artifact_events := bt_insert (artifact_event_key e a) e (artifact_events s)\<rparr>
      | EvRestarted _ \<Rightarrow> s\<lparr>restarted_events := bt_insert (the_event_key e) e (restarted_events s)\<rparr>
      | EvEscalated _ _ \<Rightarrow> s\<lparr>escalated_events := bt_insert (the_event_key e) e (escalated_events s)\<rparr>
      | _ \<Rightarrow> s)"

definition finish_by_event :: "fleet_worker_event \<Rightarrow> task_ledger_status \<Rightarrow> ledger_state \<Rightarrow> ledger_state" where
  "finish_by_event e st s =
     set_worker (ev_worker_id e) Online
       (mark_task_terminal (ev_run_id e) (ev_task_id e) (ev_worker_id e) (ev_timestamp e) st s)"

definition derive_worker_status :: "fleet_worker_event \<Rightarrow> ledger_state \<Rightarrow> ledger_state" where
  "derive_worker_status e s =
     (case ev_payload e of
        EvLeased _ \<Rightarrow> set_worker (ev_worker_id e) Busy s
      | EvRestarted _ \<Rightarrow> set_worker (ev_worker_id e) Busy s
      | EvModelWait _ \<Rightarrow> set_worker (ev_worker_id e) Busy s
      | EvRunningTool _ _ \<Rightarrow> set_worker (ev_worker_id e) Busy s
      | EvHeartbeat _ _ \<Rightarrow> set_worker (ev_worker_id e) Busy s
      | EvStarting \<Rightarrow> set_worker (ev_worker_id e) Busy s
      | EvRunning \<Rightarrow> set_worker (ev_worker_id e) Busy s
      | EvInterrupted _ \<Rightarrow> set_worker (ev_worker_id e) Draining s
      | EvStale _ \<Rightarrow> set_worker (ev_worker_id e) Unhealthy s
      | EvCompleted _ _ \<Rightarrow> finish_by_event e TsCompleted s
      | EvFailed _ _ \<Rightarrow> finish_by_event e TsFailed s
      | EvCancelled _ \<Rightarrow> finish_by_event e TsCancelled s
      | EvQueued \<Rightarrow> s
      | EvArtifact _ \<Rightarrow> s
      | EvEscalated _ _ \<Rightarrow> s)"

fun apply_record :: "ledger_record \<Rightarrow> ledger_state \<Rightarrow> ledger_state" where
  "apply_record (RunCreated run) s = s\<lparr>runs := bt_insert (run_id run) run (runs s)\<rparr>"
| "apply_record (RunStatusChanged r st ts) s =
     s\<lparr>run_status_overrides := bt_insert r st (run_status_overrides s)\<rparr>"
| "apply_record (TaskEnqueued e) s =
     (let k = task_key (ie_run_id e) (ie_task_id e)
      in case bt_get (tasks s) k of
           Some _ \<Rightarrow> s
         | None \<Rightarrow> s\<lparr>tasks := bt_insert k (new_task e) (tasks s)\<rparr>)"
| "apply_record (TaskLeased r t w at ex) s =
     s\<lparr>tasks := bt_modify (task_key r t) (lease_state w at ex) (tasks s)\<rparr>"
| "apply_record (TaskCompletedOrFailed r t w ts st) s = mark_task_terminal r t w ts st s"
| "apply_record (EventAppended e) s = derive_worker_status e (note_kind e (note_latest e s))"
| "apply_record (Heartbeat w ts cpu mem) s =
     (let s1 = s\<lparr>heartbeats := bt_insert w \<lparr>hb_timestamp = ts, hb_cpu_percent = cpu, hb_memory_mb = mem\<rparr>
                   (heartbeats s)\<rparr>
      in if (case bt_get (workers s1) w of None \<Rightarrow> Unknown | Some st \<Rightarrow> st) \<noteq> Busy
         then set_worker w Online s1 else s1)"
| "apply_record (ReceiptRecorded rc) s =
     s\<lparr>receipts := bt_insert (task_key (rc_run_id rc) (rc_task_id rc)) rc (receipts s)\<rparr>"
| "apply_record (AlertSent _ _ _ _) s = s"

definition replay :: "ledger_record list \<Rightarrow> ledger_state" where
  "replay rs = fold apply_record rs state_default"

section \<open>The file\<close>

datatype ledger_error = LedgerIo

text \<open>The content of the ledger file, \<open>None\<close> when it does not exist. The scheduler and the manager
  reach it through these operations only.\<close>

type_synonym ledger_file = "string option"

definition ledger_open :: "bool \<Rightarrow> ledger_file \<Rightarrow> ledger_error + ledger_file" where
  "ledger_open ok f = (if \<not> ok then Inl LedgerIo else case f of None \<Rightarrow> Inr (Some []) | Some c \<Rightarrow> Inr (Some c))"

definition append_record ::
  "(ledger_record \<Rightarrow> string) \<Rightarrow> bool \<Rightarrow> ledger_record \<Rightarrow> ledger_file \<Rightarrow> ledger_error + ledger_file" where
  "append_record ser ok r f =
     (if ok then Inr (Some ((case f of None \<Rightarrow> [] | Some c \<Rightarrow> c) @ ser r @ [CHR 0x0A]))
      else Inl LedgerIo)"

definition rebuild_line ::
  "(string \<Rightarrow> ledger_record option) \<Rightarrow> string \<Rightarrow> ledger_state \<Rightarrow> ledger_state" where
  "rebuild_line de line s =
     (if trim line = [] then s
      else case de line of None \<Rightarrow> s | Some r \<Rightarrow> apply_record r s)"

definition rebuild_state ::
  "(string \<Rightarrow> ledger_record option) \<Rightarrow> bool \<Rightarrow> ledger_file \<Rightarrow> ledger_error + ledger_state" where
  "rebuild_state de ok f =
     (case f of
        None \<Rightarrow> Inr state_default
      | Some c \<Rightarrow> if ok then Inr (fold (rebuild_line de) (str_lines c) state_default) else Inl LedgerIo)"

section \<open>Operations that append\<close>

definition redacted_text :: string where
  "redacted_text = ''<redacted>''"

fun sanitize_channel :: "fleet_alert_channel \<Rightarrow> fleet_alert_channel" where
  "sanitize_channel (Slack e) = Slack (e\<lparr>ep_url := map_option (\<lambda>_. redacted_text) (ep_url e)\<rparr>)"
| "sanitize_channel (Webhook e) = Webhook
     \<lparr>ep_url = map_option (\<lambda>_. redacted_text) (ep_url e),
      ep_url_ref = map_option (\<lambda>_. secret_ref_new redacted_text) (ep_url_ref e),
      ep_secret_ref = map_option (\<lambda>_. secret_ref_new redacted_text) (ep_secret_ref e)\<rparr>"
| "sanitize_channel (PagerDuty _ severity) = PagerDuty redacted_text severity"

definition sanitize_task_spec :: "fleet_task_spec \<Rightarrow> fleet_task_spec" where
  "sanitize_task_spec t =
     t\<lparr>ts_alert_policy := map_option (\<lambda>p. p\<lparr>ap_channels := map sanitize_channel (ap_channels p)\<rparr>)
         (ts_alert_policy t)\<rparr>"

definition sanitize_run_for_ledger :: "fleet_run \<Rightarrow> fleet_run" where
  "sanitize_run_for_ledger run = run\<lparr>run_task_specs := map sanitize_task_spec (run_task_specs run)\<rparr>"

text \<open>The records \<open>create_run\<close>, \<open>update_run_status\<close>, \<open>enqueue\<close>, \<open>lease_task\<close>,
  \<open>mark_task_terminal_status\<close>, \<open>append_event\<close>, \<open>heartbeat\<close>, \<open>record_receipt\<close> and \<open>record_alert\<close>
  append.\<close>

definition create_run :: "fleet_run \<Rightarrow> ledger_record" where
  "create_run run = RunCreated (sanitize_run_for_ledger run)"

definition update_run_status :: "fleet_run_id \<Rightarrow> fleet_run_status \<Rightarrow> string \<Rightarrow> ledger_record" where
  "update_run_status r st ts = RunStatusChanged r st ts"

definition enqueue_entry :: "fleet_inbox_entry \<Rightarrow> ledger_record" where
  "enqueue_entry e = TaskEnqueued e"

definition lease_task :: "fleet_run_id \<Rightarrow> string \<Rightarrow> string \<Rightarrow> string \<Rightarrow> string option \<Rightarrow> ledger_record" where
  "lease_task r t w at ex = TaskLeased r t w at ex"

definition mark_task_terminal_status ::
  "fleet_run_id \<Rightarrow> string \<Rightarrow> string option \<Rightarrow> string \<Rightarrow> task_ledger_status \<Rightarrow> ledger_record" where
  "mark_task_terminal_status r t w ts st =
     TaskCompletedOrFailed r t (case w of None \<Rightarrow> [] | Some w \<Rightarrow> w) ts st"

definition append_event :: "fleet_worker_event \<Rightarrow> ledger_record" where
  "append_event e = EventAppended e"

definition heartbeat_record :: "string \<Rightarrow> string \<Rightarrow> f32 option \<Rightarrow> u64 option \<Rightarrow> ledger_record" where
  "heartbeat_record w ts cpu mem = Heartbeat w ts cpu mem"

definition record_receipt :: "fleet_receipt \<Rightarrow> ledger_record" where
  "record_receipt rc = ReceiptRecorded rc"

definition record_alert :: "fleet_run_id \<Rightarrow> string \<Rightarrow> string \<Rightarrow> string \<Rightarrow> ledger_record" where
  "record_alert r t ch ts = AlertSent r t ch ts"

section \<open>Claiming a task\<close>

text \<open>\<open>Iterator::min_by_key\<close> keeps the first of several minimal elements.\<close>

fun min_by_key_from :: "('a \<Rightarrow> 'k::linorder) \<Rightarrow> 'a \<Rightarrow> 'a list \<Rightarrow> 'a" where
  "min_by_key_from f best [] = best"
| "min_by_key_from f best (x # xs) =
     (if f x < f best then min_by_key_from f x xs else min_by_key_from f best xs)"

definition min_by_key :: "('a \<Rightarrow> 'k::linorder) \<Rightarrow> 'a list \<Rightarrow> 'a option" where
  "min_by_key f xs = (case xs of [] \<Rightarrow> None | x # ys \<Rightarrow> Some (min_by_key_from f x ys))"

definition claim_candidate :: "ledger_state \<Rightarrow> fleet_inbox_entry option" where
  "claim_candidate s =
     min_by_key (\<lambda>e. (ie_priority e, ie_enqueued_at e))
       (map tk_entry (filter (\<lambda>t. tk_status t = TsEnqueued) (bt_values (tasks s))))"

definition claim_next ::
  "(ledger_record \<Rightarrow> string) \<Rightarrow> (string \<Rightarrow> ledger_record option) \<Rightarrow> bool \<Rightarrow> bool \<Rightarrow> string \<Rightarrow> string list \<Rightarrow> string
     \<Rightarrow> ledger_file \<Rightarrow> (ledger_error + fleet_inbox_entry option) \<times> ledger_file" where
  "claim_next ser de read_ok write_ok w capabilities ts f =
     (case rebuild_state de read_ok f of
        Inl e \<Rightarrow> (Inl e, f)
      | Inr s \<Rightarrow>
         (case claim_candidate s of
            None \<Rightarrow> (Inr None, f)
          | Some entry \<Rightarrow>
             (case append_record ser write_ok (lease_task (ie_run_id entry) (ie_task_id entry) w ts None) f of
                Inl e \<Rightarrow> (Inl e, f)
              | Inr f' \<Rightarrow> (Inr (Some entry), f'))))"

section \<open>Compaction\<close>

definition or_empty :: "string option \<Rightarrow> string" where
  "or_empty x = (case x of None \<Rightarrow> [] | Some s \<Rightarrow> s)"

definition compact_run :: "ledger_state \<Rightarrow> fleet_run \<Rightarrow> ledger_record list" where
  "compact_run s run = RunCreated run #
     (case bt_get (run_status_overrides s) (run_id run) of
        None \<Rightarrow> []
      | Some st \<Rightarrow> [RunStatusChanged (run_id run) st (or_empty (run_updated_at run))])"

definition compact_task :: "task_state \<Rightarrow> ledger_record list" where
  "compact_task t =
     [TaskEnqueued (tk_entry t)]
     @ (case tk_leased_to t of
          None \<Rightarrow> []
        | Some w \<Rightarrow> [TaskLeased (ie_run_id (tk_entry t)) (ie_task_id (tk_entry t)) w
                      (or_empty (tk_leased_at t)) None])
     @ (if tk_status t \<in> {TsCompleted, TsFailed, TsCancelled}
        then [TaskCompletedOrFailed (ie_run_id (tk_entry t)) (ie_task_id (tk_entry t))
                (or_empty (tk_leased_to t)) (or_empty (tk_completed_at t)) (tk_status t)]
        else [])"

definition compact_events :: "ledger_state \<Rightarrow> fleet_worker_event list" where
  "compact_events s =
     (let add = (\<lambda>es m. fold (\<lambda>e m. bt_insert (compact_event_key e) e m) (bt_values es) m)
      in bt_values (add (escalated_events s) (add (restarted_events s)
           (add (artifact_events s) (add (latest_events s) [])))))"

definition compact_records :: "ledger_state \<Rightarrow> ledger_record list" where
  "compact_records s =
     concat (map (compact_run s) (bt_values (runs s)))
     @ concat (map compact_task (bt_values (tasks s)))
     @ map EventAppended (compact_events s)
     @ map (\<lambda>(w, h). Heartbeat w (hb_timestamp h) (hb_cpu_percent h) (hb_memory_mb h)) (heartbeats s)
     @ map ReceiptRecorded (bt_values (receipts s))"

text \<open>The new content is written beside the ledger and renamed over it.\<close>

definition compact ::
  "(ledger_record \<Rightarrow> string) \<Rightarrow> (string \<Rightarrow> ledger_record option) \<Rightarrow> bool \<Rightarrow> bool \<Rightarrow> ledger_file
     \<Rightarrow> ledger_error + ledger_file" where
  "compact ser de read_ok write_ok f =
     (case rebuild_state de read_ok f of
        Inl e \<Rightarrow> Inl e
      | Inr s \<Rightarrow>
          (let lines = map ser (compact_records s);
               contents = join_with [CHR 0x0A] lines;
               contents' = (if contents \<noteq> [] then contents @ [CHR 0x0A] else contents)
           in if write_ok then Inr (Some contents') else Inl LedgerIo))"

section \<open>The file holds the records appended\<close>

definition encode_file :: "(ledger_record \<Rightarrow> string) \<Rightarrow> ledger_record list \<Rightarrow> string" where
  "encode_file ser rs = concat (map (\<lambda>r. ser r @ [CHR 0x0A]) rs)"

text \<open>What the code relies on of serde for a record: its text is one line that reads back.\<close>

definition line_ok :: "(ledger_record \<Rightarrow> string) \<Rightarrow> (string \<Rightarrow> ledger_record option) \<Rightarrow> ledger_record \<Rightarrow> bool" where
  "line_ok ser de r \<longleftrightarrow> de (ser r) = Some r \<and> CHR 0x0A \<notin> set (ser r) \<and> trim (ser r) \<noteq> []
     \<and> strip_cr (ser r) = ser r"

lemma split_on_encode:
  "\<forall>r \<in> set rs. line_ok ser de r \<Longrightarrow>
     split_on (CHR 0x0A) (encode_file ser rs @ t) = map ser rs @ split_on (CHR 0x0A) t"
  by (induction rs) (simp_all add: encode_file_def split_on_append line_ok_def)

lemma str_lines_encode:
  assumes "\<forall>r \<in> set rs. line_ok ser de r" "CHR 0x0A \<notin> set t"
  shows "str_lines (encode_file ser rs @ t) = map ser rs @ (if t = [] then [] else [t])"
proof -
  have "map (strip_cr \<circ> ser) rs = map ser rs"
    using assms(1) by (simp add: line_ok_def)
  then show ?thesis
    using split_on_encode [OF assms(1), of t] split_on_word [OF assms(2)]
    by (simp add: str_lines_def Let_def)
qed

lemma fold_rebuild_line:
  "\<forall>r \<in> set rs. line_ok ser de r \<Longrightarrow> fold (rebuild_line de) (map ser rs) s = fold apply_record rs s"
  by (induction rs arbitrary: s) (simp_all add: line_ok_def rebuild_line_def)

lemma rebuild_encoded:
  assumes "\<forall>r \<in> set rs. line_ok ser de r" "CHR 0x0A \<notin> set t"
  shows "rebuild_state de True (Some (encode_file ser rs @ t)) =
    Inr (if t = [] then replay rs else rebuild_line de t (replay rs))"
  by (simp add: rebuild_state_def str_lines_encode [OF assms] fold_rebuild_line [OF assms(1)] replay_def)

lemma append_encoded:
  "append_record ser True r (Some (encode_file ser rs)) = Inr (Some (encode_file ser (rs @ [r])))"
  by (simp add: append_record_def encode_file_def)

text \<open>
  C8: The file refines the list of records: appending a record to the file that holds \<open>rs\<close> gives the
  file that holds \<open>rs @ [r]\<close>, and rebuilding reads exactly the state of those records. A torn last
  line, the trace of an interrupted write, is skipped and loses nothing written before it.
\<close>

theorem ledger_file_refines_records:
  assumes "\<forall>r \<in> set rs. line_ok ser de r"
    and "CHR 0x0A \<notin> set torn" "torn \<noteq> [] \<longrightarrow> de torn = None"
  shows "append_record ser True r (Some (encode_file ser rs)) = Inr (Some (encode_file ser (rs @ [r])))
    \<and> rebuild_state de True (Some (encode_file ser rs @ torn)) = Inr (replay rs)"
  using assms(3) append_encoded rebuild_encoded [OF assms(1,2)]
  by (auto simp: rebuild_line_def)

theorem ledger_file_refines_records_witness:
  "rebuild_state (\<lambda>s. if s = ''r'' then Some (AlertSent ''1'' ''t'' ''slack'' ''now'') else None) True
     (Some (encode_file (\<lambda>_. ''r'') [AlertSent ''1'' ''t'' ''slack'' ''now''] @ ''{part''))
   = Inr (replay [AlertSent ''1'' ''t'' ''slack'' ''now''])"
proof -
  let ?r = "AlertSent ''1'' ''t'' ''slack'' ''now''"
  let ?de = "\<lambda>s. if s = ''r'' then Some ?r else None"
  have "trim ''r'' \<noteq> []" "strip_cr ''r'' = ''r''" "strip_cr ''{part'' = ''{part''" by code_simp+
  then show ?thesis
    using ledger_file_refines_records [of "[?r]" "\<lambda>_. ''r''" ?de "''{part''"]
    by (simp add: line_ok_def)
qed

text \<open>A torn line is not ended by the next append, so the record appended after a crash is lost with
  it, unless the joined text happens to parse.\<close>

lemma append_after_torn_line_is_lost:
  assumes "\<forall>r \<in> set rs. line_ok ser de r" "line_ok ser de r"
    and "CHR 0x0A \<notin> set torn" "de (torn @ ser r) = None"
  shows "append_record ser True r (Some (encode_file ser rs @ torn)) = Inr (Some (encode_file ser rs @ torn @ ser r @ [CHR 0x0A]))
    \<and> rebuild_state de True (Some (encode_file ser rs @ torn @ ser r @ [CHR 0x0A])) = Inr (replay rs)"
proof
  show "append_record ser True r (Some (encode_file ser rs @ torn)) = Inr (Some (encode_file ser rs @ torn @ ser r @ [CHR 0x0A]))"
    by (simp add: append_record_def)
  have n: "CHR 0x0A \<notin> set (torn @ ser r)" using assms(2,3) by (simp add: line_ok_def)
  have ne: "ser r \<noteq> []" using assms(2) by (auto simp: line_ok_def trim_def trim_start_def trim_end_def)
  have "strip_cr (torn @ ser r) = torn @ ser r"
    using assms(2) ne by (auto simp: line_ok_def strip_cr_def butlast_append split: if_splits)
  moreover have "split_on (CHR 0x0A) ((torn @ ser r) @ CHR 0x0A # []) = [torn @ ser r, []]"
    by (simp only: split_on_append [OF n] split_on.simps)
  moreover have "map (strip_cr \<circ> ser) rs = map ser rs" using assms(1) by (simp add: line_ok_def)
  ultimately have "str_lines (encode_file ser rs @ torn @ ser r @ [CHR 0x0A]) = map ser rs @ [torn @ ser r]"
    using split_on_encode [OF assms(1), of "(torn @ ser r) @ [CHR 0x0A]"]
    by (simp add: str_lines_def Let_def butlast_append)
  then show "rebuild_state de True (Some (encode_file ser rs @ torn @ ser r @ [CHR 0x0A])) = Inr (replay rs)"
    using assms(4) by (simp add: rebuild_state_def fold_rebuild_line [OF assms(1)] rebuild_line_def replay_def)
qed

section \<open>Replay as an interface\<close>

text \<open>State kept as the fold of a log. A property that holds of the empty state and survives every
  record holds of every replayed log; a rank that no record lowers only grows as the log does.\<close>

locale replayed_log =
  fixes init :: 's and step :: "'r \<Rightarrow> 's \<Rightarrow> 's" and inv :: "'s \<Rightarrow> bool"
  assumes inv_init: "inv init" and inv_apply: "inv s \<Longrightarrow> inv (step r s)"
begin

lemma inv_fold: "inv s \<Longrightarrow> inv (fold step rs s)"
  by (induction rs arbitrary: s) (auto intro: inv_apply)

lemma inv_replay: "inv (fold step rs init)"
  by (rule inv_fold) (rule inv_init)

end

locale ranked_log = replayed_log init step inv
  for init :: 's and step :: "'r \<Rightarrow> 's \<Rightarrow> 's" and inv :: "'s \<Rightarrow> bool" +
  fixes rank :: "'s \<Rightarrow> 'k \<Rightarrow> nat"
  assumes rank_apply: "inv s \<Longrightarrow> rank s k \<le> rank (step r s) k"
begin

lemma rank_fold: "inv s \<Longrightarrow> rank s k \<le> rank (fold step rs s) k"
proof (induction rs arbitrary: s)
  case (Cons r rs)
  from order_trans [OF rank_apply [OF Cons.prems] Cons.IH [OF inv_apply [OF Cons.prems]]]
  show ?case by simp
qed simp

lemma rank_prefix: "rank (fold step rs init) k \<le> rank (fold step (rs @ rs') init) k"
  by (simp add: rank_fold inv_replay)

end

section \<open>The invariant of the state\<close>

text \<open>The maps are ordered maps, every task is stored under its own key, and the latest event of a key
  is the one whose sequence number is recorded.\<close>

definition tasks_wf :: "ledger_state \<Rightarrow> bool" where
  "tasks_wf s \<longleftrightarrow> bt_wf (tasks s)
     \<and> (\<forall>k t. bt_get (tasks s) k = Some t \<longrightarrow> k = task_key (ie_run_id (tk_entry t)) (ie_task_id (tk_entry t)))"

definition events_wf :: "ledger_state \<Rightarrow> bool" where
  "events_wf s \<longleftrightarrow> bt_wf (latest_seq s) \<and> bt_wf (latest_events s)
     \<and> (\<forall>k. bt_get (latest_seq s) k = map_option ev_seq (bt_get (latest_events s) k))
     \<and> (\<forall>k e. bt_get (latest_events s) k = Some e \<longrightarrow> the_event_key e = k)"

definition other_maps_wf :: "ledger_state \<Rightarrow> bool" where
  "other_maps_wf s \<longleftrightarrow> bt_wf (runs s) \<and> bt_wf (run_status_overrides s) \<and> bt_wf (workers s)
     \<and> bt_wf (heartbeats s) \<and> bt_wf (receipts s)
     \<and> (\<forall>k r. bt_get (runs s) k = Some r \<longrightarrow> run_id r = k)
     \<and> (\<forall>k rc. bt_get (receipts s) k = Some rc \<longrightarrow> task_key (rc_run_id rc) (rc_task_id rc) = k)"

definition ledger_wf :: "ledger_state \<Rightarrow> bool" where
  "ledger_wf s \<longleftrightarrow> tasks_wf s \<and> events_wf s \<and> other_maps_wf s"

definition event_rank :: "ledger_state \<Rightarrow> string \<Rightarrow> nat" where
  "event_rank s k = (case bt_get (latest_seq s) k of None \<Rightarrow> 0 | Some n \<Rightarrow> unat n)"

lemma finish_task_entry [simp]: "tk_entry (finish_task w ts st t) = tk_entry t"
  "tk_status (finish_task w ts st t) = st"
  by (simp_all add: finish_task_def Let_def)

lemma lease_state_fields [simp]:
  "ie_run_id (tk_entry (lease_state w at ex t)) = ie_run_id (tk_entry t)"
  "ie_task_id (tk_entry (lease_state w at ex t)) = ie_task_id (tk_entry t)"
  "tk_status (lease_state w at ex t) = TsLeased"
  "tk_leased_to (lease_state w at ex t) = Some w"
  "ie_attempts (tk_entry (lease_state w at ex t)) = sat_add (ie_attempts (tk_entry t)) 1"
  by (simp_all add: lease_state_def)

lemma tasks_wf_modify:
  assumes "tasks_wf s"
    "\<And>t. ie_run_id (tk_entry (f t)) = ie_run_id (tk_entry t) \<and> ie_task_id (tk_entry (f t)) = ie_task_id (tk_entry t)"
  shows "tasks_wf (s\<lparr>tasks := bt_modify k f (tasks s)\<rparr>)"
  using assms by (auto simp: tasks_wf_def bt.wf_modify bt.get_modify)

text \<open>Which parts of the state an event can reach.\<close>

lemma event_frame:
  "latest_seq (derive_worker_status e s) = latest_seq s"
  "latest_events (derive_worker_status e s) = latest_events s"
  "runs (derive_worker_status e s) = runs s"
  "run_status_overrides (derive_worker_status e s) = run_status_overrides s"
  "heartbeats (derive_worker_status e s) = heartbeats s"
  "receipts (derive_worker_status e s) = receipts s"
  "latest_seq (note_kind e s) = latest_seq s" "latest_events (note_kind e s) = latest_events s"
  "tasks (note_kind e s) = tasks s" "runs (note_kind e s) = runs s"
  "run_status_overrides (note_kind e s) = run_status_overrides s"
  "workers (note_kind e s) = workers s" "heartbeats (note_kind e s) = heartbeats s"
  "receipts (note_kind e s) = receipts s"
  "tasks (note_latest e s) = tasks s" "runs (note_latest e s) = runs s"
  "run_status_overrides (note_latest e s) = run_status_overrides s"
  "workers (note_latest e s) = workers s" "heartbeats (note_latest e s) = heartbeats s"
  "receipts (note_latest e s) = receipts s"
  by (simp_all add: derive_worker_status_def note_kind_def note_latest_def finish_by_event_def
      set_worker_def mark_task_terminal_def Let_def split: fleet_event_payload.split)

text \<open>The status a terminal event gives its task.\<close>

definition terminal_of :: "fleet_event_payload \<Rightarrow> task_ledger_status option" where
  "terminal_of p = (case p of EvCompleted _ _ \<Rightarrow> Some TsCompleted | EvFailed _ _ \<Rightarrow> Some TsFailed
     | EvCancelled _ \<Rightarrow> Some TsCancelled | _ \<Rightarrow> None)"

lemma tasks_derive: "tasks (derive_worker_status e s) =
    (case terminal_of (ev_payload e) of
       None \<Rightarrow> tasks s
     | Some st \<Rightarrow> bt_modify (task_key (ev_run_id e) (ev_task_id e))
         (finish_task (ev_worker_id e) (ev_timestamp e) st) (tasks s))"
  by (simp add: derive_worker_status_def terminal_of_def finish_by_event_def set_worker_def
      mark_task_terminal_def split: fleet_event_payload.split)

lemma workers_derive_wf: "bt_wf (workers s) \<Longrightarrow> bt_wf (workers (derive_worker_status e s))"
  by (simp add: derive_worker_status_def finish_by_event_def set_worker_def mark_task_terminal_def
      bt.wf_insert_at split: fleet_event_payload.split)

lemma ledger_wf_apply: assumes "ledger_wf s" shows "ledger_wf (apply_record r s)"
proof -
  from assms have t: "tasks_wf s" and e: "events_wf s" and m: "other_maps_wf s"
    by (simp_all add: ledger_wf_def)
  have T: "tasks_wf (apply_record r s)"
  proof (cases r)
    case (TaskEnqueued x)
    with t show ?thesis
      by (auto simp: Let_def tasks_wf_def new_task_def bt.wf_insert_at bt.get_insert_at split: option.split)
  next
    case (EventAppended x)
    show ?thesis
    proof (cases "terminal_of (ev_payload x)")
      case None
      with t EventAppended show ?thesis by (simp add: tasks_wf_def tasks_derive event_frame)
    next
      case (Some st)
      with tasks_wf_modify [OF t, of "finish_task (ev_worker_id x) (ev_timestamp x) st"] EventAppended
      show ?thesis by (simp add: tasks_wf_def tasks_derive event_frame)
    qed
  next
    case (TaskLeased x1 x2 x3 x4 x5)
    with t show ?thesis by (simp add: tasks_wf_modify)
  next
    case (TaskCompletedOrFailed x1 x2 x3 x4 x5)
    with t show ?thesis by (simp add: mark_task_terminal_def tasks_wf_modify)
  qed (use t in \<open>simp_all add: tasks_wf_def Let_def set_worker_def\<close>)
  have E: "events_wf (apply_record r s)"
  proof (cases r)
    case (EventAppended x)
    have "events_wf (note_latest x s)"
      using e by (auto simp: note_latest_def Let_def events_wf_def bt.wf_insert_at bt.get_insert_at)
    with EventAppended show ?thesis by (simp add: events_wf_def event_frame)
  qed (use e in \<open>simp_all add: events_wf_def Let_def set_worker_def mark_task_terminal_def split: option.split\<close>)
  have M: "other_maps_wf (apply_record r s)"
  proof (cases r)
    case (EventAppended x)
    with m show ?thesis by (simp add: other_maps_wf_def event_frame workers_derive_wf)
  qed (use m in \<open>auto simp: other_maps_wf_def Let_def set_worker_def mark_task_terminal_def
        bt.wf_insert_at bt.get_insert_at split: option.split\<close>)
  from T E M show ?thesis by (simp add: ledger_wf_def)
qed

lemma event_rank_apply: "event_rank s k \<le> event_rank (apply_record r s) k"
proof (cases r)
  case (EventAppended x)
  have "event_rank (apply_record r s) k = event_rank (note_latest x s) k"
    by (simp add: EventAppended event_rank_def event_frame)
  then show ?thesis
    by (auto simp: event_rank_def note_latest_def Let_def bt.get_insert_at word_less_nat_alt split: option.split)
qed (simp_all add: event_rank_def Let_def set_worker_def mark_task_terminal_def split: option.split)

interpretation ledger_log: ranked_log state_default apply_record ledger_wf event_rank
proof
  show "ledger_wf state_default"
    by (simp add: state_default_def ledger_wf_def tasks_wf_def events_wf_def other_maps_wf_def bt.wf_empty
        bt.get_empty)
qed (rule ledger_wf_apply event_rank_apply; assumption?)+

lemma replay_append: "replay (rs @ rs') = fold apply_record rs' (replay rs)"
  by (simp add: replay_def)

lemma replay_wf: "ledger_wf (replay rs)"
  unfolding replay_def by (rule ledger_log.inv_replay)

text \<open>
  Sequence numbers never go back: whatever is appended to a ledger, the latest sequence number
  recorded for a worker and task is at least what it was, and it is the number of the event kept as
  the latest one.
\<close>

theorem latest_sequence_monotone:
  "event_rank (replay rs) k \<le> event_rank (replay (rs @ rs')) k
   \<and> bt_get (latest_seq (replay rs)) k = map_option ev_seq (bt_get (latest_events (replay rs)) k)"
proof
  show "event_rank (replay rs) k \<le> event_rank (replay (rs @ rs')) k"
    unfolding replay_def by (rule ledger_log.rank_prefix)
  show "bt_get (latest_seq (replay rs)) k = map_option ev_seq (bt_get (latest_events (replay rs)) k)"
    using replay_wf [of rs] by (simp add: ledger_wf_def events_wf_def)
qed

section \<open>No secret reaches the ledger\<close>

fun channel_redacted :: "fleet_alert_channel \<Rightarrow> bool" where
  "channel_redacted (Slack e) \<longleftrightarrow> ep_url e \<in> {None, Some redacted_text}"
| "channel_redacted (Webhook e) \<longleftrightarrow> ep_url e \<in> {None, Some redacted_text}
     \<and> ep_url_ref e \<in> {None, Some (secret_ref_new redacted_text)}
     \<and> ep_secret_ref e \<in> {None, Some (secret_ref_new redacted_text)}"
| "channel_redacted (PagerDuty key _) \<longleftrightarrow> key = redacted_text"

lemma sanitize_channel_redacted: "channel_redacted (sanitize_channel c)"
proof (cases c)
  case (Slack e)
  then show ?thesis by (cases "ep_url e") simp_all
next
  case (Webhook e)
  then show ?thesis
    by (cases "ep_url e"; cases "ep_url_ref e"; cases "ep_secret_ref e") simp_all
qed simp

definition spec_channels :: "fleet_task_spec \<Rightarrow> fleet_alert_channel list" where
  "spec_channels t = (case ts_alert_policy t of None \<Rightarrow> [] | Some p \<Rightarrow> ap_channels p)"

lemma sanitize_spec_channels: "spec_channels (sanitize_task_spec t) = map sanitize_channel (spec_channels t)"
  by (simp add: spec_channels_def sanitize_task_spec_def split: option.split)

lemma sanitize_task_spec_fields [simp]:
  "ts_id (sanitize_task_spec t) = ts_id t" "ts_retry_policy (sanitize_task_spec t) = ts_retry_policy t"
  by (simp_all add: sanitize_task_spec_def)

text \<open>
  The record of a new run names its alert channels without their inline URLs, endpoints and
  routing keys, one for one; reading the run back from the ledger gives the redacted run, whose
  tasks, workers and limits are those of the run created.
\<close>

theorem created_run_is_redacted:
  "list_all channel_redacted (concat (map spec_channels (run_task_specs (sanitize_run_for_ledger run))))
   \<and> bt_get (runs (replay (rs @ [create_run run]))) (run_id run) = Some (sanitize_run_for_ledger run)
   \<and> map ts_id (run_task_specs (sanitize_run_for_ledger run)) = map ts_id (run_task_specs run)
   \<and> map ts_retry_policy (run_task_specs (sanitize_run_for_ledger run)) = map ts_retry_policy (run_task_specs run)
   \<and> map (length \<circ> spec_channels) (run_task_specs (sanitize_run_for_ledger run))
       = map (length \<circ> spec_channels) (run_task_specs run)
   \<and> run_worker_specs (sanitize_run_for_ledger run) = run_worker_specs run"
proof -
  have "list_all channel_redacted (spec_channels (sanitize_task_spec t))" for t
    by (simp add: sanitize_spec_channels list_all_iff sanitize_channel_redacted)
  then have "list_all channel_redacted (concat (map spec_channels (map sanitize_task_spec ts)))" for ts
    by (induction ts) simp_all
  then show ?thesis
    by (simp add: sanitize_run_for_ledger_def replay_append create_run_def bt.get_insert_at comp_def
        sanitize_spec_channels)
qed

end
