(* ===== verification/Fleet_Scheduler.thy ===== *)
theory Fleet_Scheduler
  imports Fleet_Ledger
begin

text \<open>
  \<open>crates/tui/src/fleet/scheduler.rs\<close>: one scheduler pass over the ledger of a run. By
  \<open>ledger_file_refines_records\<close> the ledger is the list of its records; every read replays it and every
  write appends one record. The disk may stop answering: \<open>dk_budget\<close> is the number of ledger
  operations that still succeed, \<open>None\<close> when all do, and an operation that fails returns an error
  through the \<open>?\<close> of the code and leaves what was written before. The clock is an instant in
  nanoseconds; formatting and parsing of timestamps is chrono's, given by \<open>sc_fmt\<close> and \<open>sc_parse\<close>.
\<close>

section \<open>Ledger operations with errors\<close>

record disk =
  dk_records :: "ledger_record list"
  dk_budget :: "nat option"

datatype sched_error = LedgerError | RunMissing string

type_synonym 'a sched = "disk \<Rightarrow> (sched_error + 'a) \<times> disk"

definition ret :: "'a \<Rightarrow> 'a sched" where
  "ret a = (\<lambda>d. (Inr a, d))"

definition fail_with :: "sched_error \<Rightarrow> 'a sched" where
  "fail_with e = (\<lambda>d. (Inl e, d))"

definition and_then :: "'a sched \<Rightarrow> ('a \<Rightarrow> 'b sched) \<Rightarrow> 'b sched" where
  "and_then m f = (\<lambda>d. case m d of (Inl e, d') \<Rightarrow> (Inl e, d') | (Inr a, d') \<Rightarrow> f a d')"

definition spend :: "disk \<Rightarrow> disk option" where
  "spend d = (case dk_budget d of
     None \<Rightarrow> Some d | Some 0 \<Rightarrow> None | Some (Suc n) \<Rightarrow> Some (d\<lparr>dk_budget := Some n\<rparr>))"

definition read_state :: "ledger_state sched" where
  "read_state = (\<lambda>d. case spend d of
     None \<Rightarrow> (Inl LedgerError, d) | Some d' \<Rightarrow> (Inr (replay (dk_records d)), d'))"

definition append_rec :: "ledger_record \<Rightarrow> unit sched" where
  "append_rec r = (\<lambda>d. case spend d of
     None \<Rightarrow> (Inl LedgerError, d)
   | Some d' \<Rightarrow> (Inr (), d'\<lparr>dk_records := dk_records d @ [r]\<rparr>))"

text \<open>A \<open>for\<close> loop that threads an accumulator and stops at the first error.\<close>

fun for_each :: "('a \<Rightarrow> 'b \<Rightarrow> 'b sched) \<Rightarrow> 'a list \<Rightarrow> 'b \<Rightarrow> 'b sched" where
  "for_each f [] acc = ret acc"
| "for_each f (x # xs) acc = and_then (f x acc) (for_each f xs)"

section \<open>Policy and report\<close>

record scheduler_policy =
  max_workers_per_run :: nat
  max_workers_per_host :: nat
  max_workers_per_task_class :: nat
  lease_seconds :: u64
  heartbeat_timeout_ns :: nat

definition scheduler_policy_default :: scheduler_policy where
  "scheduler_policy_default = \<lparr>max_workers_per_run = 4, max_workers_per_host = 4,
     max_workers_per_task_class = 4, lease_seconds = 300, heartbeat_timeout_ns = 120 * 10 ^ 9\<rparr>"

record scheduler_report =
  launched :: nat
  rep_heartbeats :: nat
  marked_stale :: nat
  restarted :: nat
  rep_failed :: nat
  rep_cancelled :: nat
  alerts :: nat

definition report_default :: scheduler_report where
  "report_default = \<lparr>launched = 0, rep_heartbeats = 0, marked_stale = 0, restarted = 0, rep_failed = 0,
     rep_cancelled = 0, alerts = 0\<rparr>"

record scheduler =
  sc_policy :: scheduler_policy
  sc_now :: int
  sc_fmt :: "int \<Rightarrow> string"
  sc_parse :: "string \<Rightarrow> int option"

definition set_now :: "scheduler \<Rightarrow> int \<Rightarrow> scheduler" where
  "set_now sc now = sc\<lparr>sc_now := now\<rparr>"

definition timestamp :: "scheduler \<Rightarrow> string" where
  "timestamp sc = sc_fmt sc (sc_now sc)"

definition lease_expires_at :: "scheduler \<Rightarrow> string" where
  "lease_expires_at sc = sc_fmt sc (sc_now sc + 10 ^ 9 * sint (lease_seconds (sc_policy sc)))"

section \<open>Reading the state\<close>

definition task_spec_for :: "ledger_state \<Rightarrow> task_state \<Rightarrow> fleet_task_spec option" where
  "task_spec_for s t =
     Option.bind (bt_get (runs s) (ie_run_id (tk_entry t)))
       (\<lambda>run. find (\<lambda>spec. ts_id spec = ie_task_id (tk_entry t)) (run_task_specs run))"

fun host_key_of :: "fleet_host_spec \<Rightarrow> string" where
  "host_key_of LocalHost = ''local''"
| "host_key_of (Ssh host _ _ _ _ _ _ _ _) = ''ssh:'' @ host"
| "host_key_of (Docker img _) = ''docker:'' @ img"

definition host_key :: "fleet_worker_spec \<Rightarrow> string" where
  "host_key w = host_key_of (ws_host w)"

definition task_class :: "fleet_task_spec \<Rightarrow> string" where
  "task_class t =
     (case Option.bind (bt_get (ts_metadata t) ''class'') as_str of
        Some v \<Rightarrow> if trim v \<noteq> [] then v else ''default''
      | None \<Rightarrow> ''default'')"

fun alert_channel_label :: "fleet_alert_channel \<Rightarrow> string" where
  "alert_channel_label (Slack _) = ''slack''"
| "alert_channel_label (Webhook _) = ''webhook''"
| "alert_channel_label (PagerDuty _ _) = ''pagerduty''"

definition alert_policy_matches :: "fleet_alert_policy \<Rightarrow> fleet_alert_event_class \<Rightarrow> bool" where
  "alert_policy_matches p c \<longleftrightarrow> ap_events p = [] \<or> c \<in> set (ap_events p)"

definition tasks_of_run :: "ledger_state \<Rightarrow> fleet_run_id \<Rightarrow> task_state list" where
  "tasks_of_run s r = filter (\<lambda>t. ie_run_id (tk_entry t) = r) (bt_values (tasks s))"

definition active_tasks_for_run :: "ledger_state \<Rightarrow> fleet_run_id \<Rightarrow> task_state list" where
  "active_tasks_for_run s r =
     filter (\<lambda>t. ie_run_id (tk_entry t) = r \<and> tk_status t = TsLeased) (bt_values (tasks s))"

record active_counts =
  by_host :: "(string, nat) btree"
  by_task_class :: "(string, nat) btree"

definition count_of :: "(string, nat) btree \<Rightarrow> string \<Rightarrow> nat" where
  "count_of m k = (case bt_get m k of None \<Rightarrow> 0 | Some n \<Rightarrow> n)"

definition bump :: "string \<Rightarrow> (string, nat) btree \<Rightarrow> (string, nat) btree" where
  "bump k m = bt_insert k (count_of m k + 1) m"

definition worker_of_task :: "fleet_run \<Rightarrow> task_state \<Rightarrow> fleet_worker_spec option" where
  "worker_of_task run t =
     Option.bind (tk_leased_to t) (\<lambda>w. find (\<lambda>spec. ws_id spec = w) (run_worker_specs run))"

definition spec_of_task :: "fleet_run \<Rightarrow> task_state \<Rightarrow> fleet_task_spec option" where
  "spec_of_task run t = find (\<lambda>spec. ts_id spec = ie_task_id (tk_entry t)) (run_task_specs run)"

definition count_task :: "fleet_run \<Rightarrow> task_state \<Rightarrow> active_counts \<Rightarrow> active_counts" where
  "count_task run t c =
     (let c1 = (case worker_of_task run t of
                  None \<Rightarrow> c | Some w \<Rightarrow> c\<lparr>by_host := bump (host_key w) (by_host c)\<rparr>)
      in case spec_of_task run t of
           None \<Rightarrow> c1
         | Some spec \<Rightarrow> c1\<lparr>by_task_class := bump (task_class spec) (by_task_class c1)\<rparr>)"

definition active_counts_of :: "ledger_state \<Rightarrow> fleet_run \<Rightarrow> active_counts" where
  "active_counts_of s run =
     fold (count_task run) (active_tasks_for_run s (run_id run)) \<lparr>by_host = [], by_task_class = []\<rparr>"

text \<open>\<open>to_std\<close> fails on a negative age, and such a task counts as stale.\<close>

definition deadline_passed :: "scheduler \<Rightarrow> task_state \<Rightarrow> bool" where
  "deadline_passed sc t =
     (case Option.bind (ie_lease_deadline (tk_entry t)) (sc_parse sc) of
        Some deadline \<Rightarrow> sc_now sc > deadline
      | None \<Rightarrow> True)"

definition task_is_stale :: "scheduler \<Rightarrow> task_state \<Rightarrow> ledger_state \<Rightarrow> bool" where
  "task_is_stale sc t s =
     (case Option.bind (Option.bind (tk_leased_to t) (bt_get (heartbeats s)))
             (\<lambda>hb. sc_parse sc (hb_timestamp hb)) of
        Some last_beat \<Rightarrow>
          (let age = sc_now sc - last_beat
           in age < 0 \<or> age > int (heartbeat_timeout_ns (sc_policy sc)))
      | None \<Rightarrow> deadline_passed sc t)"

text \<open>\<open>next_launch\<close>: the first queued task, in order of priority, time and identifier, whose class and
  some free worker's host have room. A task without a specification ends the search.\<close>

definition free_worker ::
  "scheduler_policy \<Rightarrow> fleet_run \<Rightarrow> string set \<Rightarrow> active_counts \<Rightarrow> fleet_worker_spec option" where
  "free_worker pol run active counts =
     find (\<lambda>w. ws_id w \<notin> active \<and> count_of (by_host counts) (host_key w) < max_workers_per_host pol)
       (run_worker_specs run)"

fun scan_queue :: "scheduler_policy \<Rightarrow> fleet_run \<Rightarrow> string set \<Rightarrow> active_counts \<Rightarrow> task_state list
    \<Rightarrow> (string \<times> task_state) option" where
  "scan_queue pol run active counts [] = None"
| "scan_queue pol run active counts (t # ts) =
     (case spec_of_task run t of
        None \<Rightarrow> None
      | Some spec \<Rightarrow>
          if count_of (by_task_class counts) (task_class spec) \<ge> max_workers_per_task_class pol
          then scan_queue pol run active counts ts
          else (case free_worker pol run active counts of
                  Some w \<Rightarrow> Some (ws_id w, t)
                | None \<Rightarrow> scan_queue pol run active counts ts))"

definition queued_tasks :: "ledger_state \<Rightarrow> fleet_run \<Rightarrow> task_state list" where
  "queued_tasks s run =
     sort_key (\<lambda>t. (ie_priority (tk_entry t), ie_enqueued_at (tk_entry t), ie_task_id (tk_entry t)))
       (filter (\<lambda>t. ie_run_id (tk_entry t) = run_id run \<and> tk_status t = TsEnqueued) (bt_values (tasks s)))"

definition active_workers :: "ledger_state \<Rightarrow> fleet_run \<Rightarrow> string set" where
  "active_workers s run = set (List.map_filter tk_leased_to (active_tasks_for_run s (run_id run)))"

definition next_launch ::
  "scheduler_policy \<Rightarrow> fleet_run \<Rightarrow> ledger_state \<Rightarrow> active_counts \<Rightarrow> (string \<times> task_state) option" where
  "next_launch pol run s counts =
     scan_queue pol run (active_workers s run) counts (queued_tasks s run)"

section \<open>Steps that write\<close>

definition append_worker_event ::
  "scheduler \<Rightarrow> fleet_run_id \<Rightarrow> string \<Rightarrow> string \<Rightarrow> fleet_event_payload \<Rightarrow> fleet_worker_event sched" where
  "append_worker_event sc r w t payload =
     and_then read_state (\<lambda>s.
       let key = event_key w r t;
           seq = (case bt_get (latest_seq s) key of None \<Rightarrow> 0 | Some n \<Rightarrow> n) + 1;
           event = \<lparr>ev_seq = seq, ev_run_id = r, ev_worker_id = w, ev_task_id = t,
                    ev_timestamp = timestamp sc, ev_payload = payload, ev_extra = []\<rparr>
       in and_then (append_rec (append_event event)) (\<lambda>_. ret event))"

definition run_of :: "task_state \<Rightarrow> fleet_run_id" where
  "run_of t = ie_run_id (tk_entry t)"

definition id_of :: "task_state \<Rightarrow> string" where
  "id_of t = ie_task_id (tk_entry t)"

definition worker_event :: "scheduler \<Rightarrow> task_state \<Rightarrow> string \<Rightarrow> fleet_event_payload \<Rightarrow> fleet_worker_event sched" where
  "worker_event sc t w payload = append_worker_event sc (run_of t) w (id_of t) payload"

definition record_alerts ::
  "scheduler \<Rightarrow> task_state \<Rightarrow> string \<Rightarrow> fleet_task_spec \<Rightarrow> fleet_alert_event_class \<Rightarrow> nat sched" where
  "record_alerts sc t w spec class =
     (case ts_alert_policy spec of
        None \<Rightarrow> ret 0
      | Some p \<Rightarrow>
          if \<not> alert_policy_matches p class then ret 0
          else for_each (\<lambda>channel count.
                 and_then (append_rec (record_alert (run_of t) (id_of t) (alert_channel_label channel) (timestamp sc))) (\<lambda>_.
                 and_then (worker_event sc t w (EvEscalated (alert_channel_label channel) None)) (\<lambda>_.
                 ret (count + 1))))
               (ap_channels p) 0)"

definition retry_or_fail ::
  "scheduler \<Rightarrow> task_state \<Rightarrow> fleet_task_spec \<Rightarrow> string \<Rightarrow> scheduler_report \<Rightarrow> scheduler_report sched" where
  "retry_or_fail sc t spec w rep =
     (let policy = (case ts_retry_policy spec of None \<Rightarrow> retry_policy_default | Some p \<Rightarrow> p)
      in if ie_attempts (tk_entry t) < rp_max_attempts policy
         then
           and_then (append_rec (lease_task (run_of t) (id_of t) w (timestamp sc) (Some (lease_expires_at sc)))) (\<lambda>_.
           and_then (worker_event sc t w (EvRestarted (ie_attempts (tk_entry t)))) (\<lambda>_.
           and_then (worker_event sc t w EvRunning) (\<lambda>_.
           and_then (append_rec (heartbeat_record w (timestamp sc) None None)) (\<lambda>_.
           ret (rep\<lparr>restarted := restarted rep + 1\<rparr>)))))
         else
           and_then (worker_event sc t w
               (EvFailed (''retry attempts exhausted after '' @ show_nat (unat (ie_attempts (tk_entry t)))
                  @ '' attempt(s)'') False)) (\<lambda>_.
           and_then (record_alerts sc t w spec RestartExhausted) (\<lambda>n.
           ret (rep\<lparr>rep_failed := rep_failed rep + 1, alerts := alerts rep + n\<rparr>))))"

definition worker_or_scheduler :: "task_state \<Rightarrow> string" where
  "worker_or_scheduler t = (case tk_leased_to t of Some w \<Rightarrow> w | None \<Rightarrow> ''fleet-scheduler'')"

definition last_beat_of :: "ledger_state \<Rightarrow> string \<Rightarrow> string option" where
  "last_beat_of s w = map_option hb_timestamp (bt_get (heartbeats s) w)"

definition recover_stale ::
  "scheduler \<Rightarrow> ledger_state \<Rightarrow> task_state \<Rightarrow> fleet_task_spec \<Rightarrow> scheduler_report \<Rightarrow> scheduler_report sched" where
  "recover_stale sc s t spec rep =
     (let w = worker_or_scheduler t
      in and_then (worker_event sc t w (EvStale (last_beat_of s w))) (\<lambda>_.
         retry_or_fail sc t spec w (rep\<lparr>marked_stale := marked_stale rep + 1\<rparr>)))"

definition recover_task ::
  "scheduler \<Rightarrow> ledger_state \<Rightarrow> task_state \<Rightarrow> scheduler_report \<Rightarrow> scheduler_report sched" where
  "recover_task sc s t rep =
     (case task_spec_for s t of
        None \<Rightarrow> ret rep
      | Some spec \<Rightarrow>
          if tk_status t = TsLeased \<and> task_is_stale sc t s then recover_stale sc s t spec rep
          else if tk_status t = TsFailed then retry_or_fail sc t spec (worker_or_scheduler t) rep
          else ret rep)"

definition recover_unhealthy_work :: "scheduler \<Rightarrow> fleet_run_id \<Rightarrow> scheduler_report \<Rightarrow> scheduler_report sched" where
  "recover_unhealthy_work sc r rep =
     and_then read_state (\<lambda>s. for_each (recover_task sc s) (tasks_of_run s r) rep)"

definition reconcile_task ::
  "scheduler \<Rightarrow> ledger_state \<Rightarrow> task_state \<Rightarrow> scheduler_report \<Rightarrow> scheduler_report sched" where
  "reconcile_task sc s t rep =
     (if tk_status t \<noteq> TsLeased \<or> \<not> task_is_stale sc t s then ret rep
      else case task_spec_for s t of
             None \<Rightarrow> ret rep
           | Some spec \<Rightarrow> recover_stale sc s t spec rep)"

definition reconcile_stale_leases :: "scheduler \<Rightarrow> fleet_run_id \<Rightarrow> scheduler_report \<Rightarrow> scheduler_report sched" where
  "reconcile_stale_leases sc r rep =
     and_then read_state (\<lambda>s. for_each (reconcile_task sc s) (tasks_of_run s r) rep)"

definition run_status_of :: "task_state list \<Rightarrow> fleet_run_status" where
  "run_status_of ts =
     (if list_ex (\<lambda>t. tk_status t = TsEnqueued \<or> tk_status t = TsLeased) ts then RunRunning
      else if list_ex (\<lambda>t. tk_status t = TsFailed) ts then RunFailed
      else if list_ex (\<lambda>t. tk_status t = TsCancelled) ts then RunCancelled
      else RunCompletedStatus)"

definition refresh_run_status :: "scheduler \<Rightarrow> fleet_run_id \<Rightarrow> unit sched" where
  "refresh_run_status sc r =
     and_then read_state (\<lambda>s.
       append_rec (update_run_status r (run_status_of (tasks_of_run s r)) (timestamp sc)))"

definition cancel_task :: "scheduler \<Rightarrow> string \<Rightarrow> task_state \<Rightarrow> scheduler_report \<Rightarrow> scheduler_report sched" where
  "cancel_task sc reason t rep =
     (if tk_status t \<noteq> TsEnqueued \<and> tk_status t \<noteq> TsLeased then ret rep
      else and_then
        (case tk_leased_to t of
           Some w \<Rightarrow>
             and_then (worker_event sc t w (EvInterrupted (Some reason))) (\<lambda>_.
             and_then (worker_event sc t w (EvCancelled (Some ''scheduler''))) (\<lambda>_. ret ()))
         | None \<Rightarrow>
             append_rec (mark_task_terminal_status (run_of t) (id_of t) None (timestamp sc) TsCancelled))
        (\<lambda>_. ret (rep\<lparr>rep_cancelled := rep_cancelled rep + 1\<rparr>)))"

definition cancel_run :: "scheduler \<Rightarrow> fleet_run_id \<Rightarrow> string \<Rightarrow> scheduler_report sched" where
  "cancel_run sc r reason =
     and_then read_state (\<lambda>s.
     and_then (for_each (cancel_task sc reason) (tasks_of_run s r) report_default) (\<lambda>rep.
     and_then (append_rec (update_run_status r RunCancelled (timestamp sc))) (\<lambda>_. ret rep)))"

text \<open>One round of the launch loop: \<open>None\<close> when the loop is left.\<close>

definition launch_task :: "scheduler \<Rightarrow> string \<Rightarrow> task_state \<Rightarrow> unit sched" where
  "launch_task sc w t =
     and_then (append_rec (lease_task (run_of t) (id_of t) w (timestamp sc) (Some (lease_expires_at sc)))) (\<lambda>_.
     and_then (worker_event sc t w (EvLeased (Some (lease_expires_at sc)))) (\<lambda>_.
     and_then (worker_event sc t w EvStarting) (\<lambda>_.
     and_then (worker_event sc t w EvRunning) (\<lambda>_.
     append_rec (heartbeat_record w (timestamp sc) None None)))))"

definition launch_round ::
  "scheduler \<Rightarrow> fleet_run_id \<Rightarrow> scheduler_report \<Rightarrow> scheduler_report option sched" where
  "launch_round sc r rep =
     and_then read_state (\<lambda>s.
       case bt_get (runs s) r of
         None \<Rightarrow> fail_with (RunMissing r)
       | Some run \<Rightarrow>
           if length (active_tasks_for_run s r) \<ge> max_workers_per_run (sc_policy sc) then ret None
           else (case next_launch (sc_policy sc) run s (active_counts_of s run) of
                   None \<Rightarrow> ret None
                 | Some (w, t) \<Rightarrow>
                     and_then (launch_task sc w t) (\<lambda>_.
                     ret (Some (rep\<lparr>launched := launched rep + 1, rep_heartbeats := rep_heartbeats rep + 1\<rparr>)))))"

section \<open>Rules for scheduler steps\<close>

text \<open>\<open>valid P m Q E\<close>: from a ledger whose state satisfies \<open>P\<close>, \<open>m\<close> ends in \<open>Q\<close> or, when an operation
  failed, in \<open>E\<close>. States of ledgers are well formed, and the rules may use it.\<close>

definition state_of :: "disk \<Rightarrow> ledger_state" where
  "state_of d = replay (dk_records d)"

definition valid :: "(ledger_state \<Rightarrow> bool) \<Rightarrow> 'a sched \<Rightarrow> ('a \<Rightarrow> ledger_state \<Rightarrow> bool)
    \<Rightarrow> (ledger_state \<Rightarrow> bool) \<Rightarrow> bool" where
  "valid P m Q E \<longleftrightarrow> (\<forall>d. P (state_of d) \<longrightarrow>
     (case m d of (Inr a, d') \<Rightarrow> Q a (state_of d') | (Inl e, d') \<Rightarrow> E (state_of d')))"

lemma state_of_wf: "ledger_wf (state_of d)"
  unfolding state_of_def by (rule replay_wf)

lemma spend_records: "spend d = Some d' \<Longrightarrow> dk_records d' = dk_records d"
  by (auto simp: spend_def split: option.splits nat.splits)

lemma valid_ret: "(\<And>s. P s \<Longrightarrow> Q a s) \<Longrightarrow> valid P (ret a) Q E"
  by (simp add: valid_def ret_def)

lemma valid_fail: "(\<And>s. P s \<Longrightarrow> E s) \<Longrightarrow> valid P (fail_with e) Q E"
  by (simp add: valid_def fail_with_def)

lemma valid_and_then:
  assumes "valid P m R E" "\<And>a. valid (R a) (f a) Q E"
  shows "valid P (and_then m f) Q E"
  unfolding valid_def
proof (intro allI impI)
  fix d assume "P (state_of d)"
  with assms(1) show "case and_then m f d of (Inr a, d') \<Rightarrow> Q a (state_of d') | (Inl e, d') \<Rightarrow> E (state_of d')"
    using assms(2) by (fastforce simp: valid_def and_then_def split: prod.splits sum.splits)
qed

lemma valid_read:
  assumes "\<And>s. P s \<Longrightarrow> E s"
  shows "valid P read_state (\<lambda>s s'. s' = s \<and> P s \<and> ledger_wf s) E"
  using assms state_of_wf
  by (auto simp: valid_def read_state_def state_of_def dest: spend_records split: option.split)

lemma valid_append:
  assumes "\<And>s. P s \<Longrightarrow> ledger_wf s \<Longrightarrow> Q () (apply_record r s)" "\<And>s. P s \<Longrightarrow> E s"
  shows "valid P (append_rec r) Q E"
  using assms state_of_wf
  by (auto simp: valid_def append_rec_def state_of_def replay_append split: option.split)

lemma valid_weaken:
  assumes "valid P m Q E" "\<And>s. P' s \<Longrightarrow> P s" "\<And>a s. Q a s \<Longrightarrow> Q' a s" "\<And>s. E s \<Longrightarrow> E' s"
  shows "valid P' m Q' E'"
  using assms by (fastforce simp: valid_def split: prod.splits sum.splits)

lemma valid_exit: "valid P m (\<lambda>_. I) I \<Longrightarrow> P (state_of d) \<Longrightarrow> I (state_of (snd (m d)))"
  by (cases "m d"; cases "fst (m d)") (auto simp: valid_def)

lemma valid_for_each:
  assumes "\<And>x xs acc. valid (I (x # xs)) (f x acc) (\<lambda>_. I xs) E"
  shows "valid (I xs) (for_each f xs acc) (\<lambda>_. I []) E"
proof (induction xs arbitrary: acc)
  case Nil
  show ?case by (simp add: valid_ret)
next
  case (Cons x xs)
  show ?case unfolding for_each.simps by (rule valid_and_then [OF assms Cons.IH])
qed

text \<open>An event record is known up to its sequence number.\<close>

definition event_for :: "scheduler \<Rightarrow> fleet_run_id \<Rightarrow> string \<Rightarrow> string \<Rightarrow> fleet_event_payload \<Rightarrow> fleet_worker_event \<Rightarrow> bool" where
  "event_for sc r w t p e \<longleftrightarrow> ev_run_id e = r \<and> ev_worker_id e = w \<and> ev_task_id e = t
     \<and> ev_payload e = p \<and> ev_timestamp e = timestamp sc"

lemma valid_append_worker_event:
  assumes "\<And>s e. P s \<Longrightarrow> ledger_wf s \<Longrightarrow> event_for sc r w t p e \<Longrightarrow> Q (apply_record (EventAppended e) s)"
    and "\<And>s. P s \<Longrightarrow> E s"
  shows "valid P (append_worker_event sc r w t p) (\<lambda>_. Q) E"
  unfolding append_worker_event_def Let_def append_event_def
proof (rule valid_and_then [OF valid_read])
  fix s :: ledger_state
  let ?e = "\<lparr>ev_seq = (case bt_get (latest_seq s) (event_key w r t) of None \<Rightarrow> 0 | Some n \<Rightarrow> n) + 1,
      ev_run_id = r, ev_worker_id = w, ev_task_id = t, ev_timestamp = timestamp sc, ev_payload = p,
      ev_extra = []\<rparr>"
  show "valid (\<lambda>s'. s' = s \<and> P s \<and> ledger_wf s) (and_then (append_rec (EventAppended ?e)) (\<lambda>_. ret ?e)) (\<lambda>_. Q) E"
  proof (rule valid_and_then)
    show "valid (\<lambda>s'. s' = s \<and> P s \<and> ledger_wf s) (append_rec (EventAppended ?e)) (\<lambda>_. Q) E"
      by (rule valid_append) (auto intro!: assms simp: event_for_def simp del: apply_record.simps)
    show "valid Q (ret ?e) (\<lambda>_. Q) E" by (rule valid_ret)
  qed
qed (rule assms(2))

lemma event_tasks: "terminal_of (ev_payload e) = None \<Longrightarrow> tasks (apply_record (EventAppended e) s) = tasks s"
  by (simp add: tasks_derive event_frame)

lemma event_runs: "runs (apply_record (EventAppended e) s) = runs s"
  "heartbeats (apply_record (EventAppended e) s) = heartbeats s"
  by (simp_all add: event_frame)

lemma heartbeat_tasks: "tasks (apply_record (Heartbeat w ts c m) s) = tasks s"
  "runs (apply_record (Heartbeat w ts c m) s) = runs s"
  "heartbeats (apply_record (Heartbeat w ts c m) s) =
     bt_insert w \<lparr>hb_timestamp = ts, hb_cpu_percent = c, hb_memory_mb = m\<rparr> (heartbeats s)"
  by (simp_all add: Let_def set_worker_def)

lemma lease_tasks: "tasks (apply_record (TaskLeased r t w at ex) s) =
    bt_modify (task_key r t) (lease_state w at ex) (tasks s)"
  "runs (apply_record (TaskLeased r t w at ex) s) = runs s"
  "heartbeats (apply_record (TaskLeased r t w at ex) s) = heartbeats s"
  by simp_all

section \<open>The launch loop\<close>

definition key_of :: "task_state \<Rightarrow> string" where
  "key_of t = task_key (run_of t) (id_of t)"

definition leased :: "scheduler \<Rightarrow> string \<Rightarrow> task_state \<Rightarrow> ledger_state \<Rightarrow> ledger_state \<Rightarrow> bool" where
  "leased sc w t s s' \<longleftrightarrow> runs s' = runs s
     \<and> tasks s' = bt_modify (key_of t) (lease_state w (timestamp sc) (Some (lease_expires_at sc))) (tasks s)"

definition unchanged :: "ledger_state \<Rightarrow> ledger_state \<Rightarrow> bool" where
  "unchanged s s' \<longleftrightarrow> runs s' = runs s \<and> tasks s' = tasks s"

lemma terminal_of_simps [simp]:
  "terminal_of (EvLeased x) = None" "terminal_of EvStarting = None" "terminal_of EvRunning = None"
  "terminal_of (EvRestarted n) = None" "terminal_of (EvStale y) = None"
  "terminal_of (EvInterrupted y) = None" "terminal_of (EvEscalated c i) = None"
  "terminal_of (EvCancelled y) = Some TsCancelled" "terminal_of (EvFailed c b) = Some TsFailed"
  by (simp_all add: terminal_of_def)

lemma event_for_payload: "event_for sc r w t p e \<Longrightarrow> ev_payload e = p"
  by (simp add: event_for_def)

lemma valid_launch_task:
  "valid (\<lambda>s'. s' = s) (launch_task sc w t) (\<lambda>_ s'. leased sc w t s s')
     (\<lambda>s'. unchanged s s' \<or> leased sc w t s s')"
proof -
  let ?L = "\<lambda>s'. leased sc w t s s'" and ?E = "\<lambda>s'. unchanged s s' \<or> leased sc w t s s'"
  have ev: "valid ?L (worker_event sc t w p) (\<lambda>_. ?L) ?E" if "terminal_of p = None" for p
    unfolding worker_event_def
    by (rule valid_append_worker_event)
      (auto simp: leased_def event_tasks event_runs event_for_payload that simp del: apply_record.simps)
  have hb: "valid ?L (append_rec (heartbeat_record w (timestamp sc) None None)) (\<lambda>_. ?L) ?E"
    by (rule valid_append) (auto simp: heartbeat_record_def leased_def heartbeat_tasks simp del: apply_record.simps)
  have ls: "valid (\<lambda>s'. s' = s) (append_rec (lease_task (run_of t) (id_of t) w (timestamp sc) (Some (lease_expires_at sc))))
      (\<lambda>_. ?L) ?E"
    by (rule valid_append) (auto simp: lease_task_def leased_def key_of_def unchanged_def)
  show ?thesis
    unfolding launch_task_def
    by (rule valid_and_then [OF ls] valid_and_then [OF ev] hb terminal_of_simps)+
qed

lemma scan_queue_SomeD:
  assumes "scan_queue pol run act counts ts = Some (w, t)"
  shows "t \<in> set ts \<and> (\<exists>spec. spec_of_task run t = Some spec
      \<and> count_of (by_task_class counts) (task_class spec) < max_workers_per_task_class pol)
    \<and> (\<exists>wk \<in> set (run_worker_specs run). ws_id wk = w \<and> w \<notin> act
      \<and> count_of (by_host counts) (host_key wk) < max_workers_per_host pol)"
  using assms
proof (induction ts)
  case (Cons x xs)
  show ?case
  proof (cases "t \<in> set xs \<and> scan_queue pol run act counts xs = Some (w, t)")
    case True
    with Cons.IH show ?thesis by auto
  next
    case False
    have "scan_queue pol run act counts xs = Some (w, t) \<Longrightarrow> t \<in> set xs" using Cons.IH by blast
    with False Cons.prems show ?thesis
      by (auto simp: free_worker_def find_Some_iff not_le split: option.splits if_splits dest!: nth_mem)
  qed
qed simp

lemma next_launch_SomeD:
  assumes "next_launch pol run s counts = Some (w, t)"
  shows "t \<in> set (bt_values (tasks s))" "run_of t = run_id run" "tk_status t = TsEnqueued"
    and "\<exists>spec. spec_of_task run t = Some spec
      \<and> count_of (by_task_class counts) (task_class spec) < max_workers_per_task_class pol"
    and "\<exists>wk \<in> set (run_worker_specs run). ws_id wk = w \<and> w \<notin> active_workers s run
      \<and> count_of (by_host counts) (host_key wk) < max_workers_per_host pol"
  using scan_queue_SomeD [OF assms [unfolded next_launch_def]]
  by (auto simp: queued_tasks_def run_of_def)

text \<open>Numbers of tasks with a property, before and after one task changes.\<close>

definition count_tasks :: "(task_state \<Rightarrow> bool) \<Rightarrow> ledger_state \<Rightarrow> nat" where
  "count_tasks P s = length (filter P (bt_values (tasks s)))"

lemma count_modify:
  assumes "bt_wf m" "bt_get m k = Some t"
  shows "length (filter P (bt_values (bt_modify k f m))) + (if P t then 1 else 0)
    = length (filter P (bt_values m)) + (if P (f t) then 1 else 0)"
  using assms
proof (induction m)
  case (Cons kv m)
  obtain k' v where kv: "kv = (k', v)" by force
  have wf: "bt_wf m" using Cons.prems(1) by (simp add: bt_wf_def)
  show ?case
  proof (cases "k = k'")
    case True
    with Cons.prems kv have "k \<notin> fst ` set m" "v = t" by (auto simp: bt_wf_def bt_get_def)
    then have "bt_modify k f m = m" by (force simp: bt_modify_def intro: map_idI)
    with True kv \<open>v = t\<close> show ?thesis by (simp add: bt_modify_def bt_values_def)
  next
    case False
    with Cons.prems(2) kv have "bt_get m k = Some t" by (simp add: bt_get_def)
    from Cons.IH [OF wf this] False kv show ?thesis by (simp add: bt_modify_def bt_values_def)
  qed
qed (simp add: bt_get_def)

lemma task_lookup:
  assumes "ledger_wf s" "t \<in> set (bt_values (tasks s))"
  shows "bt_get (tasks s) (key_of t) = Some t"
  using assms bt_values_iff [of "tasks s" t]
  by (auto simp: ledger_wf_def tasks_wf_def key_of_def run_of_def id_of_def)

lemma count_leased:
  assumes "ledger_wf s" "t \<in> set (bt_values (tasks s))" "leased sc w t s s'"
  shows "count_tasks P s' + (if P t then 1 else 0) =
    count_tasks P s + (if P (lease_state w (timestamp sc) (Some (lease_expires_at sc)) t) then 1 else 0)"
proof -
  have "bt_wf (tasks s)" using assms(1) by (simp add: ledger_wf_def tasks_wf_def)
  from count_modify [OF this task_lookup [OF assms(1,2)]] assms(3)
  show ?thesis by (simp add: count_tasks_def leased_def)
qed

definition launches :: "scheduler \<Rightarrow> fleet_run_id \<Rightarrow> ledger_state \<Rightarrow> ledger_state \<Rightarrow> bool" where
  "launches sc r s s' \<longleftrightarrow> ledger_wf s \<and> (\<exists>run w t. bt_get (runs s) r = Some run
     \<and> length (active_tasks_for_run s r) < max_workers_per_run (sc_policy sc)
     \<and> next_launch (sc_policy sc) run s (active_counts_of s run) = Some (w, t)
     \<and> leased sc w t s s')"

definition round_post ::
  "scheduler \<Rightarrow> fleet_run_id \<Rightarrow> ledger_state \<Rightarrow> 'a option \<Rightarrow> ledger_state \<Rightarrow> bool" where
  "round_post sc r s res s' \<longleftrightarrow> (if res = None then unchanged s s' else launches sc r s s')"

lemma valid_launch_round:
  "valid (\<lambda>s'. s' = s) (launch_round sc r rep)
     (round_post sc r s)
     (\<lambda>s'. unchanged s s' \<or> launches sc r s s')"
  unfolding launch_round_def
proof (rule valid_and_then [OF valid_read])
  fix s0 :: ledger_state
  let ?pol = "sc_policy sc"
  let ?P = "\<lambda>s'. s' = s0 \<and> s0 = s \<and> ledger_wf s0"
  let ?Q = "round_post sc r s"
  let ?E = "\<lambda>s'. unchanged s s' \<or> launches sc r s s'"
  let ?upd = "rep\<lparr>launched := launched rep + 1, rep_heartbeats := rep_heartbeats rep + 1\<rparr>"
  have stop: "valid ?P (ret None) ?Q ?E" and none: "valid ?P (fail_with (RunMissing r)) ?Q ?E"
    by (auto intro!: valid_ret valid_fail simp: unchanged_def round_post_def)
  have go: "valid ?P (and_then (launch_task sc w t) (\<lambda>_. ret (Some ?upd))) ?Q ?E"
    if c: "bt_get (runs s0) r = Some run" "length (active_tasks_for_run s0 r) < max_workers_per_run ?pol"
      "next_launch ?pol run s0 (active_counts_of s0 run) = Some (w, t)" for run w t
  proof (rule valid_and_then)
    have l: "launches sc r s s'" if "s0 = s" "ledger_wf s0" "leased sc w t s s'" for s'
      using c that unfolding launches_def by blast
    show "valid ?P (launch_task sc w t) (\<lambda>_ s'. launches sc r s s') ?E"
    proof (cases "s0 = s \<and> ledger_wf s0")
      case True
      then show ?thesis using l by (intro valid_weaken [OF valid_launch_task [of s sc w t]]) auto
    next
      case False
      then show ?thesis by (auto simp: valid_def)
    qed
    show "valid (\<lambda>s'. launches sc r s s') (ret (Some ?upd)) ?Q ?E" by (rule valid_ret) (simp add: round_post_def)
  qed
  show "valid ?P
      (case bt_get (runs s0) r of None \<Rightarrow> fail_with (RunMissing r)
       | Some run \<Rightarrow> if length (active_tasks_for_run s0 r) \<ge> max_workers_per_run ?pol then ret None
           else (case next_launch ?pol run s0 (active_counts_of s0 run) of None \<Rightarrow> ret None
                 | Some (w, t) \<Rightarrow> and_then (launch_task sc w t) (\<lambda>_. ret (Some ?upd)))) ?Q ?E"
    using stop none go by (auto split: option.split prod.split)
qed (simp add: unchanged_def)

definition enqueued_count :: "fleet_run_id \<Rightarrow> ledger_state \<Rightarrow> nat" where
  "enqueued_count r = count_tasks (\<lambda>t. run_of t = r \<and> tk_status t = TsEnqueued)"

lemma launches_decreases: "launches sc r s s' \<Longrightarrow> enqueued_count r s' < enqueued_count r s"
  unfolding launches_def
proof (elim exE conjE)
  fix run w t
  assume wf: "ledger_wf s" and r: "bt_get (runs s) r = Some run"
    and n: "next_launch (sc_policy sc) run s (active_counts_of s run) = Some (w, t)" and l: "leased sc w t s s'"
  from wf r have "run_id run = r" by (simp add: ledger_wf_def other_maps_wf_def)
  with next_launch_SomeD(2,3) [OF n] have "run_of t = r" "tk_status t = TsEnqueued" by simp_all
  with count_leased [OF wf next_launch_SomeD(1) [OF n] l, of "\<lambda>t. run_of t = r \<and> tk_status t = TsEnqueued"]
  show ?thesis by (simp add: enqueued_count_def)
qed

lemma launch_round_decreases:
  assumes "launch_round sc r rep d = (Inr (Some rep'), d')"
  shows "enqueued_count r (state_of d') < enqueued_count r (state_of d)"
proof -
  from valid_launch_round [of "state_of d" sc r rep] assms have "round_post sc r (state_of d) (Some rep') (state_of d')"
    by (auto simp: valid_def)
  then show ?thesis by (simp add: round_post_def launches_decreases)
qed

function launch_loop :: "scheduler \<Rightarrow> fleet_run_id \<Rightarrow> scheduler_report \<Rightarrow> scheduler_report sched" where
  "launch_loop sc r rep d =
     (case launch_round sc r rep d of
        (Inl e, d') \<Rightarrow> (Inl e, d')
      | (Inr None, d') \<Rightarrow> (Inr rep, d')
      | (Inr (Some rep'), d') \<Rightarrow> launch_loop sc r rep' d')"
  by pat_completeness auto
termination
  by (relation "measure (\<lambda>(sc, r, rep, d). enqueued_count r (state_of d))")
    (auto dest!: sym [of _ "launch_round _ _ _ _"] launch_round_decreases)

declare launch_loop.simps [simp del]

definition launch_queued_work :: "scheduler \<Rightarrow> fleet_run_id \<Rightarrow> scheduler_report \<Rightarrow> scheduler_report sched" where
  "launch_queued_work sc r rep = launch_loop sc r rep"

section \<open>The entry points\<close>

definition tick_run :: "scheduler \<Rightarrow> fleet_run_id \<Rightarrow> scheduler_report sched" where
  "tick_run sc r =
     and_then (recover_unhealthy_work sc r report_default) (\<lambda>rep.
     and_then (launch_queued_work sc r rep) (\<lambda>rep.
     and_then (refresh_run_status sc r) (\<lambda>_. ret rep)))"

definition resume_run :: "scheduler \<Rightarrow> fleet_run_id \<Rightarrow> scheduler_report sched" where
  "resume_run sc r =
     and_then (reconcile_stale_leases sc r report_default) (\<lambda>rep.
     and_then (refresh_run_status sc r) (\<lambda>_. ret rep))"

text \<open>What every round keeps, the loop keeps, whether it ends or fails.\<close>

lemma valid_launch_loop:
  assumes "\<And>s s'. I s \<Longrightarrow> launches sc r s s' \<Longrightarrow> I s'" "\<And>s s'. I s \<Longrightarrow> unchanged s s' \<Longrightarrow> I s'"
  shows "valid I (launch_loop sc r rep) (\<lambda>_. I) I"
proof -
  have "case launch_loop sc r rep d of (Inr a, d') \<Rightarrow> I (state_of d') | (Inl e, d') \<Rightarrow> I (state_of d')"
    if "I (state_of d)" for d rep
    using that
  proof (induction "enqueued_count r (state_of d)" arbitrary: rep d rule: less_induct)
    case less
    note V = valid_launch_round [of "state_of d" sc r rep, unfolded valid_def, rule_format, OF refl]
    obtain res d' where R: "launch_round sc r rep d = (res, d')" by force
    consider (err) e where "res = Inl e" | (stop) "res = Inr None" | (go) rep' where "res = Inr (Some rep')"
      by (cases res) auto
    then show ?case
    proof cases
      case err
      with R V have "unchanged (state_of d) (state_of d') \<or> launches sc r (state_of d) (state_of d')" by simp
      with assms less.prems have "I (state_of d')" by blast
      with R err show ?thesis by (simp add: launch_loop.simps [of sc r rep d])
    next
      case stop
      with R V have "unchanged (state_of d) (state_of d')" by (simp add: round_post_def)
      with R stop assms(2) less.prems show ?thesis by (simp add: launch_loop.simps [of sc r rep d])
    next
      case go
      with R V have l: "launches sc r (state_of d) (state_of d')" by (simp add: round_post_def)
      from less.hyps [OF launches_decreases [OF l] assms(1) [OF less.prems l], of rep'] R go
      show ?thesis by (simp add: launch_loop.simps [of sc r rep d])
    qed
  qed
  then show ?thesis by (simp add: valid_def)
qed

section \<open>Limits on active work\<close>

lemma count_of_bump: "count_of (bump k m) k' = count_of m k' + (if k' = k then 1 else 0)"
  by (simp add: count_of_def bump_def bt.get_insert_at)

definition on_host :: "fleet_run \<Rightarrow> string \<Rightarrow> task_state \<Rightarrow> bool" where
  "on_host run h t \<longleftrightarrow> map_option host_key (worker_of_task run t) = Some h"

definition of_class :: "fleet_run \<Rightarrow> string \<Rightarrow> task_state \<Rightarrow> bool" where
  "of_class run c t \<longleftrightarrow> map_option task_class (spec_of_task run t) = Some c"

lemma fold_count_task:
  "count_of (by_host (fold (count_task run) ts c)) h = count_of (by_host c) h + length (filter (on_host run h) ts)
   \<and> count_of (by_task_class (fold (count_task run) ts c)) k
       = count_of (by_task_class c) k + length (filter (of_class run k) ts)"
proof (induction ts arbitrary: c)
  case (Cons t ts)
  have "count_of (by_host (count_task run t c)) h = count_of (by_host c) h + (if on_host run h t then 1 else 0)
    \<and> count_of (by_task_class (count_task run t c)) k
      = count_of (by_task_class c) k + (if of_class run k t then 1 else 0)"
    by (simp add: count_task_def Let_def on_host_def of_class_def count_of_bump split: option.split)
  then show ?case by (simp add: Cons.IH)
qed simp

definition active_in :: "fleet_run_id \<Rightarrow> task_state \<Rightarrow> bool" where
  "active_in r t \<longleftrightarrow> run_of t = r \<and> tk_status t = TsLeased"

lemma active_tasks_filter: "active_tasks_for_run s r = filter (active_in r) (bt_values (tasks s))"
  by (simp add: active_tasks_for_run_def active_in_def [abs_def] run_of_def)

lemma active_counts_value:
  "count_of (by_host (active_counts_of s run)) h = count_tasks (\<lambda>t. active_in (run_id run) t \<and> on_host run h t) s"
  "count_of (by_task_class (active_counts_of s run)) c
     = count_tasks (\<lambda>t. active_in (run_id run) t \<and> of_class run c t) s"
  using fold_count_task [of run "active_tasks_for_run s (run_id run)" "\<lparr>by_host = [], by_task_class = []\<rparr>" h c]
  by (simp_all add: active_counts_of_def active_tasks_filter count_tasks_def count_of_def bt_get_def
      conj_commute)

text \<open>The four loads the policy limits: tasks of the run, tasks of one worker, tasks on one host and
  tasks of one class.\<close>

definition run_load :: "fleet_run_id \<Rightarrow> ledger_state \<Rightarrow> nat" where
  "run_load r = count_tasks (active_in r)"

definition worker_load :: "fleet_run_id \<Rightarrow> string \<Rightarrow> ledger_state \<Rightarrow> nat" where
  "worker_load r w = count_tasks (\<lambda>t. active_in r t \<and> tk_leased_to t = Some w)"

definition host_load :: "fleet_run_id \<Rightarrow> fleet_run \<Rightarrow> string \<Rightarrow> ledger_state \<Rightarrow> nat" where
  "host_load r run h = count_tasks (\<lambda>t. active_in r t \<and> on_host run h t)"

definition class_load :: "fleet_run_id \<Rightarrow> fleet_run \<Rightarrow> string \<Rightarrow> ledger_state \<Rightarrow> nat" where
  "class_load r run c = count_tasks (\<lambda>t. active_in r t \<and> of_class run c t)"

lemma unchanged_count: "unchanged s s' \<Longrightarrow> count_tasks P s' = count_tasks P s"
  by (simp add: count_tasks_def unchanged_def)

text \<open>What a launch does to a load: it grows by at most one, and then there was room.\<close>

lemma launch_counts:
  assumes "launches sc r s s'"
  obtains run w t where "bt_get (runs s) r = Some run" "run_id run = r"
    "run_load r s < max_workers_per_run (sc_policy sc)"
    "\<exists>spec. spec_of_task run t = Some spec
       \<and> class_load r run (task_class spec) s < max_workers_per_task_class (sc_policy sc)"
    "\<exists>wk \<in> set (run_worker_specs run). ws_id wk = w \<and> worker_load r w s = 0
       \<and> host_load r run (host_key wk) s < max_workers_per_host (sc_policy sc)"
    "\<And>P. count_tasks P s' \<le> count_tasks P s
       + (if P (lease_state w (timestamp sc) (Some (lease_expires_at sc)) t) then 1 else 0)"
proof -
  from assms obtain run w t where c: "ledger_wf s" "bt_get (runs s) r = Some run"
    "length (active_tasks_for_run s r) < max_workers_per_run (sc_policy sc)"
    "next_launch (sc_policy sc) run s (active_counts_of s run) = Some (w, t)" "leased sc w t s s'"
    by (auto simp: launches_def)
  have r: "run_id run = r" using c(1,2) by (simp add: ledger_wf_def other_maps_wf_def)
  have "worker_load r w s = 0" if "w \<notin> active_workers s run"
    using that
    by (auto simp: worker_load_def count_tasks_def filter_empty_conv active_workers_def active_tasks_filter
        map_filter_def r image_iff)
  with next_launch_SomeD(5) [OF c(4)] have wk: "\<exists>wk \<in> set (run_worker_specs run). ws_id wk = w
      \<and> worker_load r w s = 0 \<and> host_load r run (host_key wk) s < max_workers_per_host (sc_policy sc)"
    by (auto simp: active_counts_value r host_load_def)
  show ?thesis
  proof (rule that [OF c(2) r _ _ wk])
    show "run_load r s < max_workers_per_run (sc_policy sc)"
      using c(3) by (simp add: run_load_def count_tasks_def active_tasks_filter)
    show "\<exists>spec. spec_of_task run t = Some spec
       \<and> class_load r run (task_class spec) s < max_workers_per_task_class (sc_policy sc)"
      using next_launch_SomeD(4) [OF c(4)] by (simp add: active_counts_value r class_load_def)
    show "count_tasks P s' \<le> count_tasks P s
       + (if P (lease_state w (timestamp sc) (Some (lease_expires_at sc)) t) then 1 else 0)" for P
      using count_leased [OF c(1) next_launch_SomeD(1) [OF c(4)] c(5), of P] by linarith
  qed
qed

definition limits_hold ::
  "scheduler_policy \<Rightarrow> fleet_run_id \<Rightarrow> fleet_run \<Rightarrow> ledger_state \<Rightarrow> ledger_state \<Rightarrow> bool" where
  "limits_hold pol r run s s' \<longleftrightarrow>
     run_load r s' \<le> max (max_workers_per_run pol) (run_load r s)
     \<and> (\<forall>w. worker_load r w s' \<le> max 1 (worker_load r w s))
     \<and> (\<forall>h. host_load r run h s' \<le> max (max_workers_per_host pol) (host_load r run h s))
     \<and> (\<forall>c. class_load r run c s' \<le> max (max_workers_per_task_class pol) (class_load r run c s))"

lemma on_host_leased:
  assumes "distinct (map ws_id (run_worker_specs run))" "wk \<in> set (run_worker_specs run)"
  shows "on_host run h (lease_state (ws_id wk) at ex t) \<longleftrightarrow> h = host_key wk"
proof -
  have "find (\<lambda>spec. ws_id spec = ws_id wk) ws = Some wk" if "distinct (map ws_id ws)" "wk \<in> set ws" for ws
    using that by (induction ws) (auto simp: image_iff)
  from this [OF assms] show ?thesis by (auto simp: on_host_def worker_of_task_def)
qed

lemma spec_of_task_leased [simp]: "spec_of_task run (lease_state w at ex t) = spec_of_task run t"
  by (simp add: spec_of_task_def)

lemma limits_after_launch:
  assumes "limits_hold (sc_policy sc) r run s0 s" "bt_get (runs s) r = Some run"
    and "distinct (map ws_id (run_worker_specs run))" "launches sc r s s'"
  shows "limits_hold (sc_policy sc) r run s0 s'"
proof (rule launch_counts [OF assms(4)])
  fix run' w t
  assume L: "bt_get (runs s) r = Some run'" "run_load r s < max_workers_per_run (sc_policy sc)"
    "\<exists>spec. spec_of_task run' t = Some spec
       \<and> class_load r run' (task_class spec) s < max_workers_per_task_class (sc_policy sc)"
    "\<exists>wk \<in> set (run_worker_specs run'). ws_id wk = w \<and> worker_load r w s = 0
       \<and> host_load r run' (host_key wk) s < max_workers_per_host (sc_policy sc)"
    and C: "\<And>P. count_tasks P s' \<le> count_tasks P s
       + (if P (lease_state w (timestamp sc) (Some (lease_expires_at sc)) t) then 1 else 0)"
  have run': "run' = run" using L(1) assms(2) by simp
  obtain spec where spec: "spec_of_task run t = Some spec"
    "class_load r run (task_class spec) s < max_workers_per_task_class (sc_policy sc)"
    using L(3) run' by auto
  obtain wk where wk: "wk \<in> set (run_worker_specs run)" "w = ws_id wk" "worker_load r w s = 0"
    "host_load r run (host_key wk) s < max_workers_per_host (sc_policy sc)"
    using L(4) run' by auto
  note B = assms(1) [unfolded limits_hold_def]
  show ?thesis
    unfolding limits_hold_def
  proof (intro conjI allI)
    show "run_load r s' \<le> max (max_workers_per_run (sc_policy sc)) (run_load r s0)"
      using C [of "active_in r"] L(2) by (auto simp: run_load_def split: if_splits)
  next
    fix w'
    show "worker_load r w' s' \<le> max 1 (worker_load r w' s0)"
      using C [of "\<lambda>t. active_in r t \<and> tk_leased_to t = Some w'"] wk(3) B
      by (cases "w' = w") (auto simp: worker_load_def intro: order_trans split: if_splits)
  next
    fix h
    show "host_load r run h s' \<le> max (max_workers_per_host (sc_policy sc)) (host_load r run h s0)"
      using C [of "\<lambda>t. active_in r t \<and> on_host run h t"] wk(4) B
      by (cases "h = host_key wk")
        (auto simp: host_load_def wk(2) on_host_leased [OF assms(3) wk(1)] intro: order_trans split: if_splits)
  next
    fix c
    show "class_load r run c s' \<le> max (max_workers_per_task_class (sc_policy sc)) (class_load r run c s0)"
      using C [of "\<lambda>t. active_in r t \<and> of_class run c t"] spec B
      by (cases "c = task_class spec")
        (auto simp: class_load_def of_class_def intro: order_trans split: if_splits)
  qed
qed

text \<open>
  C9: The launch loop returns for every ledger, disk and policy, and the work it adds respects every
  limit: it never takes the run, a host or a task class beyond its maximum and never gives a busy
  worker a second task. This holds on every exit, also when the disk fails half way through a
  launch.
\<close>

theorem launch_respects_limits:
  assumes "bt_get (runs (state_of d)) r = Some run" "distinct (map ws_id (run_worker_specs run))"
  shows "limits_hold (sc_policy sc) r run (state_of d) (state_of (snd (launch_queued_work sc r rep d)))"
proof -
  let ?I = "\<lambda>s'. limits_hold (sc_policy sc) r run (state_of d) s' \<and> bt_get (runs s') r = Some run"
  have "valid ?I (launch_loop sc r rep) (\<lambda>_. ?I) ?I"
  proof (rule valid_launch_loop)
    show "?I s'" if "?I s" "launches sc r s s'" for s s'
      using that limits_after_launch assms(2) by (auto simp: launches_def leased_def)
    show "?I s'" if "?I s" "unchanged s s'" for s s'
      using that by (simp add: limits_hold_def run_load_def worker_load_def host_load_def class_load_def
          unchanged_count [OF that(2)]) (simp add: unchanged_def)
  qed
  moreover have "?I (state_of d)" using assms(1) by (simp add: limits_hold_def)
  ultimately have "?I (state_of (snd (launch_loop sc r rep d)))" by (rule valid_exit)
  then show ?thesis by (simp add: launch_queued_work_def)
qed

text \<open>A run with one worker and one task, used by the examples.\<close>

definition demo_spec :: fleet_task_spec where
  "demo_spec = \<lparr>ts_id = ''t'', ts_name = ''t'', ts_description = None, ts_objective = None,
     ts_instructions = [], ts_worker = None, ts_workspace = None, ts_input_files = [], ts_context = [],
     ts_budget = None, ts_tags = [], ts_expected_artifacts = [], ts_scorer = None,
     ts_retry_policy = None, ts_alert_policy = None, ts_timeout_seconds = None, ts_metadata = []\<rparr>"

definition demo_worker :: fleet_worker_spec where
  "demo_worker = \<lparr>ws_id = ''w'', ws_name = ''w'', ws_host = LocalHost, ws_trust_level = None,
     ws_labels = [], ws_capabilities = [], ws_max_concurrent_tasks = None\<rparr>"

definition demo_run :: fleet_run where
  "demo_run = \<lparr>run_id = ''r'', run_name = ''r'', run_status = RunQueued, run_task_specs = [demo_spec],
     run_worker_specs = [demo_worker], run_labels = [], run_security_policy = None,
     run_created_at = [], run_updated_at = None, run_completed_at = None\<rparr>"

definition demo_entry :: fleet_inbox_entry where
  "demo_entry = \<lparr>ie_run_id = ''r'', ie_task_id = ''t'', ie_priority = 0, ie_enqueued_at = [],
     ie_lease_deadline = None, ie_attempts = 0\<rparr>"

definition demo_disk :: disk where
  "demo_disk = \<lparr>dk_records = [RunCreated demo_run, TaskEnqueued demo_entry], dk_budget = None\<rparr>"

text \<open>A clock whose timestamps are the seconds in unary.\<close>

definition demo_scheduler :: scheduler where
  "demo_scheduler = \<lparr>sc_policy = scheduler_policy_default, sc_now = 5 * 10 ^ 9,
     sc_fmt = (\<lambda>t. replicate (nat (t div 10 ^ 9)) CHR ''s''), sc_parse = (\<lambda>s. Some (int (length s) * 10 ^ 9))\<rparr>"

lemma demo_state: "state_of demo_disk =
    state_default\<lparr>runs := [(''r'', demo_run)], tasks := [(''r:t'', new_task demo_entry)]\<rparr>"
  by (simp add: state_of_def demo_disk_def replay_def state_default_def task_key_def demo_run_def
      demo_entry_def bt_get_def)

theorem launch_respects_limits_witness:
  "limits_hold scheduler_policy_default ''r'' demo_run (state_of demo_disk)
     (state_of (snd (launch_queued_work demo_scheduler ''r'' report_default demo_disk)))"
proof -
  have "bt_get (runs (state_of demo_disk)) ''r'' = Some demo_run"
    by (simp add: demo_state bt_get_def)
  moreover have "distinct (map ws_id (run_worker_specs demo_run))" by (simp add: demo_run_def)
  ultimately show ?thesis
    using launch_respects_limits [of demo_disk "''r''" demo_run demo_scheduler report_default]
    by (simp add: demo_scheduler_def)
qed

section \<open>Loops over the tasks of a run\<close>

text \<open>A loop over a snapshot: the tasks still to come are those of the ledger, under distinct keys.\<close>

definition fresh :: "task_state list \<Rightarrow> ledger_state \<Rightarrow> bool" where
  "fresh xs s \<longleftrightarrow> distinct (map key_of xs) \<and> (\<forall>x \<in> set xs. bt_get (tasks s) (key_of x) = Some x)"

lemma fresh_tasks_of_run:
  assumes "ledger_wf s" shows "fresh (tasks_of_run s r) s"
proof -
  have wf: "bt_wf (tasks s)" using assms by (simp add: ledger_wf_def tasks_wf_def)
  have "map key_of (bt_values (tasks s)) = map fst (tasks s)"
  proof -
    have "key_of v = k" if "(k, v) \<in> set (tasks s)" for k v
    proof -
      from that have "bt_get (tasks s) k = Some v" using bt.in_entries [OF wf] by simp
      with assms show ?thesis by (simp add: ledger_wf_def tasks_wf_def key_of_def run_of_def id_of_def)
    qed
    then show ?thesis by (auto simp: bt_values_def)
  qed
  then have "distinct (map key_of (bt_values (tasks s)))"
    using bt.distinct_entries [OF wf] by simp
  then show ?thesis
    using task_lookup [OF assms] by (auto simp: fresh_def tasks_of_run_def distinct_map_filter)
qed

lemma fresh_next:
  assumes "fresh (x # xs) s" "tasks s' = bt_modify (key_of x) f (tasks s)"
  shows "fresh xs s'"
  unfolding fresh_def
proof (intro conjI ballI)
  show "distinct (map key_of xs)" using assms(1) by (simp add: fresh_def)
  fix y assume "y \<in> set xs"
  then have "key_of y \<noteq> key_of x" "bt_get (tasks s) (key_of y) = Some y"
    using assms(1) by (force simp: fresh_def)+
  then show "bt_get (tasks s') (key_of y) = Some y" by (simp add: assms(2) bt_get_modify)
qed

lemma fresh_skip: "fresh (x # xs) s \<Longrightarrow> tasks s' = tasks s \<Longrightarrow> fresh xs s'"
  by (simp add: fresh_def)

lemma valid_fix: "(\<And>s. P s \<Longrightarrow> valid (\<lambda>s'. s' = s) m Q E) \<Longrightarrow> valid P m Q E"
  by (auto simp: valid_def)

section \<open>Cancelling a run\<close>

definition is_open :: "task_state \<Rightarrow> bool" where
  "is_open t \<longleftrightarrow> tk_status t = TsEnqueued \<or> tk_status t = TsLeased"

definition cancelled_at :: "task_state \<Rightarrow> ledger_state \<Rightarrow> ledger_state \<Rightarrow> bool" where
  "cancelled_at x s s' \<longleftrightarrow> (\<exists>w ts. tasks s' = bt_modify (key_of x) (finish_task w ts TsCancelled) (tasks s))"

lemma valid_cancel_task:
  "valid (\<lambda>s'. s' = s) (cancel_task sc reason x rep)
     (\<lambda>_ s'. if is_open x then cancelled_at x s s' else tasks s' = tasks s) (\<lambda>_. True)"
proof (cases "is_open x")
  case False
  then show ?thesis by (auto simp: cancel_task_def is_open_def intro: valid_ret)
next
  case True
  have int: "valid (\<lambda>s'. s' = s) (worker_event sc x w (EvInterrupted (Some reason)))
      (\<lambda>_ s'. tasks s' = tasks s) (\<lambda>_. True)" for w
    unfolding worker_event_def
    by (rule valid_append_worker_event) (simp_all add: event_tasks event_for_payload del: apply_record.simps)
  have can: "valid (\<lambda>s'. tasks s' = tasks s) (worker_event sc x w (EvCancelled by))
      (\<lambda>_. cancelled_at x s) (\<lambda>_. True)" for w "by"
    unfolding worker_event_def
    by (rule valid_append_worker_event)
      (auto simp: cancelled_at_def tasks_derive event_frame event_for_def key_of_def)
  have mark: "valid (\<lambda>s'. s' = s)
      (append_rec (mark_task_terminal_status (run_of x) (id_of x) None (timestamp sc) TsCancelled))
      (\<lambda>_. cancelled_at x s) (\<lambda>_. True)"
    by (rule valid_append)
      (auto simp: cancelled_at_def mark_task_terminal_status_def mark_task_terminal_def key_of_def)
  have "valid (\<lambda>s'. s' = s)
      (case tk_leased_to x of
           Some w \<Rightarrow>
             and_then (worker_event sc x w (EvInterrupted (Some reason))) (\<lambda>_.
             and_then (worker_event sc x w (EvCancelled (Some ''scheduler''))) (\<lambda>_. ret ()))
         | None \<Rightarrow>
             append_rec (mark_task_terminal_status (run_of x) (id_of x) None (timestamp sc) TsCancelled))
      (\<lambda>_. cancelled_at x s) (\<lambda>_. True)"
    using mark by (auto split: option.split intro!: valid_and_then [OF int] valid_and_then [OF can] valid_ret)
  with True show ?thesis
    unfolding cancel_task_def is_open_def
    by (auto intro!: valid_and_then valid_ret)
qed

definition cancel_inv :: "fleet_run_id \<Rightarrow> ledger_state \<Rightarrow> task_state list \<Rightarrow> ledger_state \<Rightarrow> bool" where
  "cancel_inv r s0 xs s \<longleftrightarrow> fresh xs s \<and> (\<forall>x \<in> set xs. run_of x = r)
     \<and> (\<forall>k t. bt_get (tasks s) k = Some t \<and> run_of t = r \<and> is_open t \<longrightarrow> k \<in> key_of ` set xs)
     \<and> (\<forall>k t. bt_get (tasks s0) k = Some t \<and> run_of t \<noteq> r \<longrightarrow> bt_get (tasks s) k = Some t)"

lemma cancel_inv_step:
  assumes "cancel_inv r s0 (x # xs) s"
    "if is_open x then cancelled_at x s s' else tasks s' = tasks s"
  shows "cancel_inv r s0 xs s'"
proof (cases "is_open x")
  case False
  with assms(2) have "tasks s' = tasks s" by simp
  moreover have "bt_get (tasks s) (key_of x) = Some x" using assms(1) by (simp add: cancel_inv_def fresh_def)
  ultimately show ?thesis
    using assms(1) False by (auto simp: cancel_inv_def dest: fresh_skip)
next
  case True
  with assms(2) obtain w ts where s': "tasks s' = bt_modify (key_of x) (finish_task w ts TsCancelled) (tasks s)"
    by (auto simp: cancelled_at_def)
  have x: "bt_get (tasks s) (key_of x) = Some x" "run_of x = r"
    using assms(1) by (simp_all add: cancel_inv_def fresh_def)
  have "fresh xs s'" using assms(1) s' by (auto simp: cancel_inv_def dest: fresh_next)
  moreover have "k \<in> key_of ` set xs" if "bt_get (tasks s') k = Some t" "run_of t = r" "is_open t" for k t
  proof (cases "k = key_of x")
    case True
    with that s' x have "tk_status t = TsCancelled" by (auto simp: bt.get_modify)
    with that(3) show ?thesis by (simp add: is_open_def)
  next
    case False
    with that s' assms(1) show ?thesis by (auto simp: bt.get_modify cancel_inv_def)
  qed
  moreover have "bt_get (tasks s') k = Some t" if "bt_get (tasks s0) k = Some t" "run_of t \<noteq> r" for k t
  proof -
    from that assms(1) have "bt_get (tasks s) k = Some t" by (simp add: cancel_inv_def)
    with that x have "k \<noteq> key_of x" by auto
    with \<open>bt_get (tasks s) k = Some t\<close> s' show ?thesis by (simp add: bt.get_modify)
  qed
  ultimately show ?thesis using assms(1) by (simp add: cancel_inv_def)
qed

lemma valid_cancel_run:
  "valid (\<lambda>s'. s' = s) (cancel_run sc r reason)
     (\<lambda>_ s'. cancel_inv r s [] s' \<and> bt_get (run_status_overrides s') r = Some RunCancelled) (\<lambda>_. True)"
  unfolding cancel_run_def
proof (rule valid_and_then [OF valid_read])
  fix s1 :: ledger_state
  let ?Q = "\<lambda>_ s'. cancel_inv r s [] s' \<and> bt_get (run_status_overrides s') r = Some RunCancelled"
  let ?rest = "\<lambda>rep. and_then (append_rec (update_run_status r RunCancelled (timestamp sc))) (\<lambda>_. ret rep)"
  have loop: "valid (cancel_inv r s (tasks_of_run s1 r)) (for_each (cancel_task sc reason) (tasks_of_run s1 r) rep)
      (\<lambda>_. cancel_inv r s []) (\<lambda>_. True)" for rep
  proof (rule valid_for_each, rule valid_fix)
    fix x xs acc s2 assume I: "cancel_inv r s (x # xs) s2"
    show "valid (\<lambda>s'. s' = s2) (cancel_task sc reason x acc) (\<lambda>_. cancel_inv r s xs) (\<lambda>_. True)"
      by (rule valid_weaken [OF valid_cancel_task [of s2]]) (auto intro: cancel_inv_step [OF I])
  qed
  have last: "valid (cancel_inv r s []) (?rest rep) ?Q (\<lambda>_. True)" for rep
  proof (rule valid_and_then)
    show "valid (cancel_inv r s []) (append_rec (update_run_status r RunCancelled (timestamp sc))) ?Q (\<lambda>_. True)"
      by (rule valid_append) (simp_all add: update_run_status_def cancel_inv_def fresh_def bt_get_insert)
  qed (simp add: valid_ret)
  have start: "cancel_inv r s (tasks_of_run s r) s" if "ledger_wf s"
    using that fresh_tasks_of_run [OF that, of r] bt_values_iff [of "tasks s"]
    by (auto simp: cancel_inv_def tasks_of_run_def ledger_wf_def tasks_wf_def run_of_def key_of_def id_of_def image_iff)
  show "valid (\<lambda>s'. s' = s1 \<and> s1 = s \<and> ledger_wf s1)
      (and_then (for_each (cancel_task sc reason) (tasks_of_run s1 r) report_default) ?rest) ?Q (\<lambda>_. True)"
    by (rule valid_weaken [OF valid_and_then [OF loop last]]) (use start in auto)
qed simp

text \<open>Operations that cannot fail on a disk that answers.\<close>

definition succeeds :: "(ledger_state \<Rightarrow> bool) \<Rightarrow> 'a sched \<Rightarrow> bool" where
  "succeeds P m \<longleftrightarrow> (\<forall>d. dk_budget d = None \<longrightarrow> P (state_of d) \<longrightarrow>
     (\<exists>a rs. m d = (Inr a, \<lparr>dk_records = rs, dk_budget = None\<rparr>)))"

lemma succeeds_ret: "succeeds P (ret a)"
  unfolding succeeds_def ret_def by (metis disk.surjective old.unit.exhaust)

lemma succeeds_read: "succeeds P read_state"
  unfolding succeeds_def read_state_def spend_def
  by (auto intro: exI [of _ "dk_records _"]) (metis disk.surjective old.unit.exhaust)

lemma succeeds_append: "succeeds P (append_rec r)"
  unfolding succeeds_def append_rec_def spend_def
  by auto (metis disk.surjective disk.update_convs(1) old.unit.exhaust)

lemma succeeds_and_then:
  assumes "succeeds P m" "valid P m Q (\<lambda>_. True)" "\<And>a. succeeds (Q a) (f a)"
  shows "succeeds P (and_then m f)"
  unfolding succeeds_def
proof (intro allI impI)
  fix d assume d: "dk_budget d = None" "P (state_of d)"
  with assms(1) obtain a rs where m: "m d = (Inr a, \<lparr>dk_records = rs, dk_budget = None\<rparr>)"
    unfolding succeeds_def by blast
  with d assms(2) have "Q a (state_of \<lparr>dk_records = rs, dk_budget = None\<rparr>)"
    by (force simp: valid_def)
  with assms(3) [of a] show "\<exists>b rs'. and_then m f d = (Inr b, \<lparr>dk_records = rs', dk_budget = None\<rparr>)"
    by (simp add: succeeds_def and_then_def m)
qed

lemma valid_triv: "valid P m (\<lambda>_ _. True) (\<lambda>_. True)"
  by (auto simp: valid_def split: prod.splits sum.splits)

lemma succeeds_seq:
  assumes "succeeds (\<lambda>_. True) m" "\<And>a. succeeds (\<lambda>_. True) (f a)"
  shows "succeeds (\<lambda>_. True) (and_then m f)"
  by (rule succeeds_and_then [OF assms(1) valid_triv assms(2)])

lemma succeeds_for_each:
  "(\<And>x acc. succeeds (\<lambda>_. True) (f x acc)) \<Longrightarrow> succeeds (\<lambda>_. True) (for_each f xs acc)"
  by (induction xs arbitrary: acc) (auto intro: succeeds_ret succeeds_seq)

lemma succeeds_worker_event: "succeeds (\<lambda>_. True) (worker_event sc t w p)"
  unfolding worker_event_def append_worker_event_def Let_def
  by (intro succeeds_seq succeeds_read succeeds_append succeeds_ret)

lemmas succeeds_intros = succeeds_ret succeeds_read succeeds_append succeeds_seq succeeds_for_each
  succeeds_worker_event

lemma cancel_run_succeeds: "succeeds (\<lambda>_. True) (cancel_run sc r reason)"
proof -
  have "succeeds (\<lambda>_. True) (cancel_task sc reason t rep)" for t rep
    unfolding cancel_task_def by (auto split: option.split intro!: succeeds_intros)
  then show ?thesis unfolding cancel_run_def by (intro succeeds_intros)
qed

text \<open>
  Cancelling a run closes it: on a disk that answers, \<open>cancel_run\<close> returns, afterwards no task of
  the run is queued or leased, the run's status is cancelled, and the tasks of every other run are as
  they were.
\<close>

theorem cancel_run_closes_run:
  assumes "dk_budget d = None" "cancel_run sc r reason d = res"
  shows "\<exists>rep rs. res = (Inr rep, \<lparr>dk_records = rs, dk_budget = None\<rparr>)
    \<and> list_all (\<lambda>t. \<not> is_open t) (tasks_of_run (replay rs) r)
    \<and> bt_get (run_status_overrides (replay rs)) r = Some RunCancelled
    \<and> (\<forall>k t. bt_get (tasks (state_of d)) k = Some t \<and> run_of t \<noteq> r
          \<longrightarrow> bt_get (tasks (replay rs)) k = Some t)"
proof -
  from cancel_run_succeeds [of sc r reason] assms obtain rep rs
    where R: "res = (Inr rep, \<lparr>dk_records = rs, dk_budget = None\<rparr>)" unfolding succeeds_def by blast
  from valid_cancel_run [of "state_of d" sc r reason] assms(2) R
  have C: "cancel_inv r (state_of d) [] (replay rs)"
    and st: "bt_get (run_status_overrides (replay rs)) r = Some RunCancelled"
    by (force simp: valid_def state_of_def)+
  have "\<not> is_open t" if t: "t \<in> set (bt_values (tasks (replay rs)))" "run_of t = r" for t
    using C t task_lookup [OF replay_wf t(1)] by (auto simp: cancel_inv_def)
  then have "list_all (\<lambda>t. \<not> is_open t) (tasks_of_run (replay rs) r)"
    by (auto simp: list_all_iff tasks_of_run_def run_of_def)
  moreover have "\<forall>k t. bt_get (tasks (state_of d)) k = Some t \<and> run_of t \<noteq> r
      \<longrightarrow> bt_get (tasks (replay rs)) k = Some t"
    using C by (simp add: cancel_inv_def)
  ultimately show ?thesis using R st by blast
qed

theorem cancel_run_closes_run_witness:
  "\<exists>rep rs. cancel_run demo_scheduler ''r'' ''stop'' demo_disk = (Inr rep, \<lparr>dk_records = rs, dk_budget = None\<rparr>)
    \<and> list_all (\<lambda>t. \<not> is_open t) (tasks_of_run (replay rs) ''r'')
    \<and> bt_get (run_status_overrides (replay rs)) ''r'' = Some RunCancelled"
  using cancel_run_closes_run [OF _ refl, of demo_disk demo_scheduler "''r''" "''stop''"]
  by (fastforce simp: demo_disk_def)

section \<open>A launch pass leaves no launchable work\<close>

text \<open>The run is full, or no queued task has room.\<close>

definition saturated :: "scheduler_policy \<Rightarrow> fleet_run_id \<Rightarrow> ledger_state \<Rightarrow> bool" where
  "saturated pol r s \<longleftrightarrow> (\<exists>run. bt_get (runs s) r = Some run
     \<and> (max_workers_per_run pol \<le> run_load r s \<or> next_launch pol run s (active_counts_of s run) = None))"

lemma launch_round_None:
  assumes "launch_round sc r rep d = (Inr None, d')"
  shows "saturated (sc_policy sc) r (state_of d')"
proof -
  from assms obtain d1 run where 1: "spend d = Some d1" "bt_get (runs (state_of d)) r = Some run"
    by (auto simp: launch_round_def and_then_def read_state_def fail_with_def state_of_def
        split: option.splits)
  have "d' = d1 \<and> (max_workers_per_run (sc_policy sc) \<le> run_load r (state_of d)
      \<or> next_launch (sc_policy sc) run (state_of d) (active_counts_of (state_of d) run) = None)"
    using assms 1
    by (auto simp: launch_round_def and_then_def read_state_def ret_def state_of_def run_load_def
        count_tasks_def active_tasks_filter
        split: option.splits if_splits prod.splits sum.splits)
  with 1 show ?thesis by (auto simp: saturated_def state_of_def spend_records)
qed

lemma launch_loop_saturates:
  "launch_loop sc r rep d = (Inr rep', d') \<Longrightarrow> saturated (sc_policy sc) r (state_of d')"
proof (induction sc r rep d rule: launch_loop.induct)
  case (1 sc r rep d)
  show ?case
  proof (cases "launch_round sc r rep d")
    case (Pair res d1)
    consider (err) e where "res = Inl e" | (stop) "res = Inr None" | (go) rep1 where "res = Inr (Some rep1)"
      by (cases res) auto
    then show ?thesis
    proof cases
      case err
      with "1.prems" Pair show ?thesis by (simp add: launch_loop.simps [of sc r rep d])
    next
      case stop
      with "1.prems" Pair have "d' = d1" by (simp add: launch_loop.simps [of sc r rep d])
      with launch_round_None Pair stop show ?thesis by blast
    next
      case go
      with "1.prems" Pair have "launch_loop sc r rep1 d1 = (Inr rep', d')"
        by (simp add: launch_loop.simps [of sc r rep d])
      with "1.IH" Pair go show ?thesis by simp
    qed
  qed
qed

text \<open>Every step but \<open>create_run\<close> leaves the runs alone.\<close>

definition keeps_runs :: "'a sched \<Rightarrow> bool" where
  "keeps_runs m \<longleftrightarrow> (\<forall>R. valid (\<lambda>s. runs s = R) m (\<lambda>_ s. runs s = R) (\<lambda>s. runs s = R))"

lemma keeps_runs_ret: "keeps_runs (ret a)"
  by (simp add: keeps_runs_def valid_ret)

lemma keeps_runs_read: "keeps_runs read_state"
  unfolding keeps_runs_def
proof
  fix R
  show "valid (\<lambda>s. runs s = R) read_state (\<lambda>_ s. runs s = R) (\<lambda>s. runs s = R)"
    by (rule valid_weaken [OF valid_read [of "\<lambda>s. runs s = R" "\<lambda>s. runs s = R"]]) auto
qed

lemma keeps_runs_append: "(\<And>s. runs (apply_record rc s) = runs s) \<Longrightarrow> keeps_runs (append_rec rc)"
  by (auto simp: keeps_runs_def simp del: apply_record.simps intro!: valid_append)

lemma keeps_runs_seq: "keeps_runs m \<Longrightarrow> (\<And>a. keeps_runs (f a)) \<Longrightarrow> keeps_runs (and_then m f)"
  by (auto simp: keeps_runs_def intro!: valid_and_then)

lemma keeps_runs_for_each: "(\<And>x acc. keeps_runs (f x acc)) \<Longrightarrow> keeps_runs (for_each f xs acc)"
  by (induction xs arbitrary: acc) (auto intro: keeps_runs_ret keeps_runs_seq)

lemma keeps_runs_worker_event: "keeps_runs (worker_event sc t w p)"
  unfolding worker_event_def append_worker_event_def Let_def append_event_def
  by (intro keeps_runs_seq keeps_runs_read keeps_runs_append keeps_runs_ret event_runs)

lemma keeps_runs_records:
  "keeps_runs (append_rec (lease_task r t w at ex))" "keeps_runs (append_rec (heartbeat_record w ts c m))"
  "keeps_runs (append_rec (record_alert r t ch ts))" "keeps_runs (append_rec (update_run_status r st ts))"
  "keeps_runs (append_rec (mark_task_terminal_status r t w' ts ts'))"
  by (auto intro!: keeps_runs_append simp: lease_task_def heartbeat_record_def record_alert_def
      update_run_status_def mark_task_terminal_status_def mark_task_terminal_def Let_def set_worker_def)

lemmas keeps_runs_intros = keeps_runs_ret keeps_runs_read keeps_runs_seq keeps_runs_for_each
  keeps_runs_worker_event keeps_runs_records

lemma retry_or_fail_total:
  "succeeds (\<lambda>_. True) (retry_or_fail sc t spec w rep)" "keeps_runs (retry_or_fail sc t spec w rep)"
proof -
  have alerts: "succeeds (\<lambda>_. True) (record_alerts sc t w spec c)" "keeps_runs (record_alerts sc t w spec c)" for c
    unfolding record_alerts_def
    by (auto split: option.split intro!: succeeds_intros keeps_runs_intros)
  show "succeeds (\<lambda>_. True) (retry_or_fail sc t spec w rep)" "keeps_runs (retry_or_fail sc t spec w rep)"
    unfolding retry_or_fail_def Let_def
    by (auto intro!: succeeds_intros keeps_runs_intros alerts)
qed

lemma recover_total:
  "succeeds (\<lambda>_. True) (recover_unhealthy_work sc r rep)" "keeps_runs (recover_unhealthy_work sc r rep)"
proof -
  have "succeeds (\<lambda>_. True) (recover_task sc s t rep)" "keeps_runs (recover_task sc s t rep)" for s t rep
    unfolding recover_task_def recover_stale_def Let_def
    by (auto split: option.split intro!: succeeds_intros keeps_runs_intros retry_or_fail_total)
  then show "succeeds (\<lambda>_. True) (recover_unhealthy_work sc r rep)" "keeps_runs (recover_unhealthy_work sc r rep)"
    unfolding recover_unhealthy_work_def by (auto intro!: succeeds_intros keeps_runs_intros)
qed

lemma launch_task_succeeds: "succeeds (\<lambda>_. True) (launch_task sc w t)"
  unfolding launch_task_def by (intro succeeds_intros)

lemma launch_round_succeeds:
  assumes "dk_budget d = None" "bt_get (runs (state_of d)) r = Some run"
  shows "\<exists>res rs. launch_round sc r rep d = (Inr res, \<lparr>dk_records = rs, dk_budget = None\<rparr>)
    \<and> bt_get (runs (replay rs)) r = Some run"
proof -
  have spend: "spend d = Some d" using assms(1) by (simp add: spend_def)
  obtain res d' where R: "launch_round sc r rep d = (res, d')" by force
  have "isl res = False \<and> dk_budget d' = None"
  proof (cases "next_launch (sc_policy sc) run (state_of d) (active_counts_of (state_of d) run)")
    case None
    with R assms spend show ?thesis
      by (auto simp: launch_round_def and_then_def read_state_def ret_def state_of_def split: if_splits)
  next
    case (Some wt)
    obtain w t where wt: "wt = (w, t)" by force
    from launch_task_succeeds [of sc w t] assms(1) obtain rs
      where "launch_task sc w t d = (Inr (), \<lparr>dk_records = rs, dk_budget = None\<rparr>)"
      unfolding succeeds_def by fastforce
    with R assms spend Some wt show ?thesis
      by (auto simp: launch_round_def and_then_def read_state_def ret_def state_of_def split: if_splits)
  qed
  moreover have "runs (state_of d') = runs (state_of d)"
  proof -
    have "valid (\<lambda>s. s = state_of d) (launch_round sc r rep) (\<lambda>_ s'. runs s' = runs (state_of d))
        (\<lambda>s'. runs s' = runs (state_of d))"
      by (rule valid_weaken [OF valid_launch_round])
        (auto simp: round_post_def unchanged_def launches_def leased_def split: if_splits)
    from this [unfolded valid_def, rule_format, OF refl] R show ?thesis by (auto split: sum.splits)
  qed
  ultimately show ?thesis using R assms(2)
    by (cases res; cases d') (auto simp: state_of_def)
qed

lemma launch_loop_succeeds:
  assumes "dk_budget d = None" "bt_get (runs (state_of d)) r = Some run"
  shows "\<exists>rep' rs. launch_loop sc r rep d = (Inr rep', \<lparr>dk_records = rs, dk_budget = None\<rparr>)
    \<and> bt_get (runs (replay rs)) r = Some run"
  using assms
proof (induction sc r rep d rule: launch_loop.induct)
  case (1 sc r rep d)
  from launch_round_succeeds [OF "1.prems", of sc rep] obtain res rs
    where R: "launch_round sc r rep d = (Inr res, \<lparr>dk_records = rs, dk_budget = None\<rparr>)"
      "bt_get (runs (replay rs)) r = Some run" by blast
  show ?case
  proof (cases res)
    case None
    with R show ?thesis by (simp add: launch_loop.simps [of sc r rep d])
  next
    case (Some rep1)
    with "1.IH" [OF R(1) [symmetric]] R show ?thesis
      by (simp add: launch_loop.simps [of sc r rep d] state_of_def)
  qed
qed

lemma saturated_unchanged: "unchanged s s' \<Longrightarrow> saturated pol r s \<Longrightarrow> saturated pol r s'"
  by (simp add: saturated_def unchanged_def run_load_def count_tasks_def next_launch_def active_workers_def
      queued_tasks_def active_counts_of_def active_tasks_for_run_def)

text \<open>
  A scheduler pass makes progress and comes back: on a disk that answers, for a run the ledger
  knows, \<open>tick_run\<close> returns a report, and it stops only when the run has its maximum of active
  workers or no queued task finds a free worker within the host and class limits.
\<close>

theorem tick_run_saturates:
  assumes "dk_budget d = None" "bt_get (runs (state_of d)) r = Some run"
  shows "\<exists>rep rs. tick_run sc r d = (Inr rep, \<lparr>dk_records = rs, dk_budget = None\<rparr>)
    \<and> saturated (sc_policy sc) r (replay rs)"
proof -
  from recover_total(1) [of sc r report_default] assms(1) obtain rep1 rs1
    where 1: "recover_unhealthy_work sc r report_default d = (Inr rep1, \<lparr>dk_records = rs1, dk_budget = None\<rparr>)"
    unfolding succeeds_def by blast
  let ?d1 = "\<lparr>dk_records = rs1, dk_budget = None\<rparr>"
  from recover_total(2) [of sc r report_default, unfolded keeps_runs_def valid_def, rule_format, OF refl, of d] 1
  have "runs (state_of ?d1) = runs (state_of d)" by simp
  with assms(2) have "bt_get (runs (state_of ?d1)) r = Some run" by simp
  from launch_loop_succeeds [OF _ this, of sc rep1] obtain rep2 rs2
    where 2: "launch_loop sc r rep1 ?d1 = (Inr rep2, \<lparr>dk_records = rs2, dk_budget = None\<rparr>)" by auto
  let ?rs = "rs2 @ [update_run_status r (run_status_of (tasks_of_run (replay rs2) r)) (timestamp sc)]"
  have "tick_run sc r d = (Inr rep2, \<lparr>dk_records = ?rs, dk_budget = None\<rparr>)"
    by (simp add: tick_run_def and_then_def 1 2 launch_queued_work_def refresh_run_status_def read_state_def
        append_rec_def spend_def ret_def)
  moreover have "saturated (sc_policy sc) r (replay ?rs)"
  proof (rule saturated_unchanged)
    show "saturated (sc_policy sc) r (replay rs2)" using launch_loop_saturates [OF 2] by (simp add: state_of_def)
    show "unchanged (replay rs2) (replay ?rs)" by (simp add: replay_append update_run_status_def unchanged_def)
  qed
  ultimately show ?thesis by blast
qed

theorem tick_run_saturates_witness:
  "\<exists>rep rs. tick_run demo_scheduler ''r'' demo_disk = (Inr rep, \<lparr>dk_records = rs, dk_budget = None\<rparr>)
    \<and> saturated (sc_policy demo_scheduler) ''r'' (replay rs)"
proof (rule tick_run_saturates)
  show "dk_budget demo_disk = None" by (simp add: demo_disk_def)
  show "bt_get (runs (state_of demo_disk)) ''r'' = Some demo_run" by (simp add: demo_state bt_get_def)
qed

end
