(* ===== verification/Tool_Dispatch.thy ===== *)
theory Tool_Dispatch
  imports Json_Value
begin

text \<open>
  \<open>crates/tools/src/lib.rs\<close>: the errors and input helpers every tool uses, the registry, and the
  dispatch of calls under one read/write lock. A handler is foreign to this file: what it answers and
  when is a parameter, and its running time is an interval between two steps of the lock.
\<close>

section \<open>Errors and inputs\<close>

datatype tool_capability = ReadOnly | WritesFiles | ExecutesCode | NetworkAccess | Sandboxable | NeedsApproval

datatype approval_requirement = Auto | Suggest | Required

datatype tool_error =
    InvalidInput string
  | MissingField string
  | PathEscape string
  | ExecutionFailed string
  | ToolTimeout u64
  | NotAvailable string
  | PermissionDenied string

fun tool_error_text :: "tool_error \<Rightarrow> string" where
  "tool_error_text (InvalidInput msg) = ''Failed to validate input: '' @ msg"
| "tool_error_text (MissingField field) =
     ''Failed to validate input: missing required field '' @ [CHR 0x27] @ field @ [CHR 0x27]"
| "tool_error_text (PathEscape path) =
     ''Failed to resolve path '' @ [CHR 0x27] @ path @ [CHR 0x27] @ '': path escapes workspace''"
| "tool_error_text (ExecutionFailed msg) = ''Failed to execute tool: '' @ msg"
| "tool_error_text (ToolTimeout seconds) =
     ''Failed to execute tool: operation timed out after '' @ show_nat (unat seconds) @ ''s''"
| "tool_error_text (NotAvailable msg) = ''Failed to locate tool: '' @ msg"
| "tool_error_text (PermissionDenied msg) = ''Failed to authorize tool execution: '' @ msg"

record tool_result =
  tr_content :: string
  tr_success :: bool
  tr_metadata :: "json option"

definition result_success :: "string \<Rightarrow> tool_result" where
  "result_success content = \<lparr>tr_content = content, tr_success = True, tr_metadata = None\<rparr>"

definition result_error :: "string \<Rightarrow> tool_result" where
  "result_error message = \<lparr>tr_content = message, tr_success = False, tr_metadata = None\<rparr>"

definition result_with_metadata :: "tool_result \<Rightarrow> json \<Rightarrow> tool_result" where
  "result_with_metadata r v = r\<lparr>tr_metadata := Some v\<rparr>"

definition required_str :: "json \<Rightarrow> string \<Rightarrow> tool_error + string" where
  "required_str input field =
     (case Option.bind (json_get field input) as_str of
        Some s \<Rightarrow> Inr s
      | None \<Rightarrow>
          (let provided = object_keys input
           in if provided = [] then Inl (MissingField field)
              else Inl (InvalidInput (''missing required field '' @ [CHR 0x27] @ field @ [CHR 0x27]
                     @ ''. Input provided: '' @ join_with '', '' provided))))"

definition optional_str :: "json \<Rightarrow> string \<Rightarrow> string option" where
  "optional_str input field = Option.bind (json_get field input) as_str"

definition required_u64 :: "json \<Rightarrow> string \<Rightarrow> tool_error + u64" where
  "required_u64 input field =
     (case Option.bind (json_get field input) as_u64 of Some n \<Rightarrow> Inr n | None \<Rightarrow> Inl (MissingField field))"

definition optional_u64 :: "json \<Rightarrow> string \<Rightarrow> u64 \<Rightarrow> u64" where
  "optional_u64 input field dflt =
     (case Option.bind (json_get field input) as_u64 of Some n \<Rightarrow> n | None \<Rightarrow> dflt)"

definition optional_bool :: "json \<Rightarrow> string \<Rightarrow> bool \<Rightarrow> bool" where
  "optional_bool input field dflt =
     (case Option.bind (json_get field input) as_bool of Some b \<Rightarrow> b | None \<Rightarrow> dflt)"

section \<open>Calls and the registry\<close>

datatype tool_kind = KindFunction | KindMcp

record local_shell_params =
  sp_command :: string
  sp_cwd :: "string option"
  sp_timeout_ms :: "u64 option"

datatype tool_payload =
    FunctionPayload string
  | CustomPayload string
  | LocalShellPayload local_shell_params
  | McpPayload string string json "string option"

datatype tool_output = FunctionOutput "json option" bool | McpOutput json

record tool_spec =
  tsp_name :: string
  tsp_input_schema :: json
  tsp_output_schema :: json
  tsp_parallel :: bool
  tsp_timeout_ms :: "u64 option"

record configured_tool_spec =
  cs_spec :: tool_spec
  cs_parallel :: bool

datatype tool_call_source = Direct | JsRepl

record tool_call =
  tc_name :: string
  tc_payload :: tool_payload
  tc_source :: tool_call_source
  tc_raw_id :: "string option"

definition execution_subject :: "tool_call \<Rightarrow> string \<Rightarrow> string \<times> string \<times> string" where
  "execution_subject call fallback_cwd =
     (case tc_payload call of
        LocalShellPayload params \<Rightarrow>
          (sp_command params, case sp_cwd params of Some d \<Rightarrow> d | None \<Rightarrow> fallback_cwd, ''shell'')
      | _ \<Rightarrow> (tc_name call, fallback_cwd, ''tool''))"

record tool_invocation =
  ti_call_id :: string
  ti_name :: string
  ti_payload :: tool_payload
  ti_source :: tool_call_source

datatype function_call_error =
    ToolNotFound string
  | KindMismatch tool_kind tool_kind
  | MutatingToolRejected string
  | TimedOut string u64
  | CallCancelled string
  | CallFailed string string

fun tool_payload_kind :: "tool_payload \<Rightarrow> tool_kind" where
  "tool_payload_kind (McpPayload _ _ _ _) = KindMcp"
| "tool_payload_kind (FunctionPayload _) = KindFunction"
| "tool_payload_kind (CustomPayload _) = KindFunction"
| "tool_payload_kind (LocalShellPayload _) = KindFunction"

text \<open>What a handler says of itself; \<open>matches_kind\<close> may be overridden by the handler.\<close>

record tool_handler =
  h_kind :: tool_kind
  h_matches_kind :: "tool_kind \<Rightarrow> bool"
  h_mutating :: bool

definition default_matches_kind :: "tool_kind \<Rightarrow> tool_kind \<Rightarrow> bool" where
  "default_matches_kind own kind \<longleftrightarrow> own = kind"

record tool_registry =
  rg_handlers :: "string \<rightharpoonup> tool_handler"
  rg_specs :: "string \<rightharpoonup> configured_tool_spec"

definition registry_default :: tool_registry where
  "registry_default = \<lparr>rg_handlers = Map.empty, rg_specs = Map.empty\<rparr>"

definition register :: "tool_spec \<Rightarrow> tool_handler \<Rightarrow> tool_registry \<Rightarrow> tool_registry" where
  "register spec h reg =
     reg\<lparr>rg_specs := (rg_specs reg)(tsp_name spec \<mapsto>
           \<lparr>cs_spec = spec, cs_parallel = tsp_parallel spec\<rparr>),
         rg_handlers := (rg_handlers reg)(tsp_name spec \<mapsto> h)\<rparr>"

text \<open>The part of \<open>dispatch\<close> before the lock: the checks in the order of the code. A fresh identifier
  is used when the provider gave none.\<close>

definition dispatch_check ::
  "tool_registry \<Rightarrow> string \<Rightarrow> tool_call \<Rightarrow> bool
     \<Rightarrow> function_call_error + (configured_tool_spec \<times> tool_invocation)" where
  "dispatch_check reg uuid call allow_mutating =
     (case rg_handlers reg (tc_name call) of
        None \<Rightarrow> Inl (ToolNotFound (tc_name call))
      | Some handler \<Rightarrow>
         (case rg_specs reg (tc_name call) of
            None \<Rightarrow> Inl (ToolNotFound (tc_name call))
          | Some configured \<Rightarrow>
             (let payload_kind = tool_payload_kind (tc_payload call)
              in if \<not> h_matches_kind handler payload_kind
                 then Inl (KindMismatch (h_kind handler) payload_kind)
                 else if h_mutating handler \<and> \<not> allow_mutating
                 then Inl (MutatingToolRejected (tc_name call))
                 else Inr (configured,
                   \<lparr>ti_call_id = (case tc_raw_id call of Some i \<Rightarrow> i | None \<Rightarrow> ''tool-call-'' @ uuid),
                    ti_name = tc_name call, ti_payload = tc_payload call, ti_source = tc_source call\<rparr>))))"

text \<open>\<open>execute_with_timeout\<close>: the handler answers \<open>Some (t, r)\<close> after \<open>t\<close> milliseconds or never.\<close>

definition execute_with_timeout ::
  "u64 option \<Rightarrow> string \<Rightarrow> (nat \<times> (function_call_error + tool_output)) option
     \<Rightarrow> (function_call_error + tool_output) option" where
  "execute_with_timeout timeout_ms name run =
     (case timeout_ms of
        Some limit \<Rightarrow>
          Some (case run of
                  Some (t, r) \<Rightarrow> if t \<le> unat limit then r else Inl (TimedOut name limit)
                | None \<Rightarrow> Inl (TimedOut name limit))
      | None \<Rightarrow> map_option snd run)"

section \<open>The lock\<close>

text \<open>A task that runs tools holds one guard, taken by its outermost call; calls made from inside it
  find the task-local mark set and take none. The waiting calls stand in tokio's first-in first-out
  queue.\<close>

datatype execution_guard = ParallelGuard | SerialGuard | ReentrantGuard

record running_call =
  rc_name :: string
  rc_parallel :: bool
  rc_guard :: execution_guard

record lock_state =
  lk_running :: "nat \<rightharpoonup> running_call \<times> running_call list"
  lk_queue :: "(nat \<times> string \<times> bool) list"

definition lock_init :: lock_state where
  "lock_init = \<lparr>lk_running = Map.empty, lk_queue = []\<rparr>"

text \<open>\<open>acquire\<close>: with the mark set nothing is waited for; otherwise the call waits for the read or the
  write half of the lock.\<close>

definition acquire :: "nat \<Rightarrow> string \<Rightarrow> bool \<Rightarrow> lock_state \<Rightarrow> lock_state" where
  "acquire task name supports_parallel s =
     (case lk_running s task of
        Some (outer, nested) \<Rightarrow>
          s\<lparr>lk_running := (lk_running s)(task \<mapsto>
              (outer, nested @ [\<lparr>rc_name = name, rc_parallel = supports_parallel, rc_guard = ReentrantGuard\<rparr>]))\<rparr>
      | None \<Rightarrow> s\<lparr>lk_queue := lk_queue s @ [(task, name, supports_parallel)]\<rparr>)"

definition guard_of :: "bool \<Rightarrow> execution_guard" where
  "guard_of supports_parallel = (if supports_parallel then ParallelGuard else SerialGuard)"

definition serial_held :: "lock_state \<Rightarrow> bool" where
  "serial_held s \<longleftrightarrow> (\<exists>task outer nested. lk_running s task = Some (outer, nested) \<and> rc_guard outer = SerialGuard)"

definition grantable :: "lock_state \<Rightarrow> bool \<Rightarrow> bool" where
  "grantable s supports_parallel \<longleftrightarrow>
     (if supports_parallel then \<not> serial_held s else lk_running s = Map.empty)"

definition grant :: "nat \<Rightarrow> string \<Rightarrow> bool \<Rightarrow> lock_state \<Rightarrow> lock_state" where
  "grant task name par s =
     s\<lparr>lk_running := (lk_running s)(task \<mapsto>
         (\<lparr>rc_name = name, rc_parallel = par, rc_guard = guard_of par\<rparr>, [])),
       lk_queue := tl (lk_queue s)\<rparr>"

definition release :: "nat \<Rightarrow> lock_state \<Rightarrow> lock_state" where
  "release task s = s\<lparr>lk_running := (lk_running s)(task := None)\<rparr>"

definition finish_nested :: "nat \<Rightarrow> nat \<Rightarrow> lock_state \<Rightarrow> lock_state" where
  "finish_nested task i s =
     (case lk_running s task of
        None \<Rightarrow> s
      | Some (outer, nested) \<Rightarrow>
          s\<lparr>lk_running := (lk_running s)(task \<mapsto> (outer, take i nested @ drop (Suc i) nested))\<rparr>)"

text \<open>The steps: a checked call asks for the lock, the head of the queue is granted it, a call from
  inside another ends, an outermost call ends by result, error or timeout (and drops the calls it was
  still making), a waiting call is dropped. A task has at most one outermost call.\<close>

definition waiting_tasks :: "lock_state \<Rightarrow> nat set" where
  "waiting_tasks s = fst ` set (lk_queue s)"

inductive lock_step :: "tool_registry \<Rightarrow> lock_state \<Rightarrow> lock_state \<Rightarrow> bool" for reg where
  called: "dispatch_check reg uuid call allow_mutating = Inr (configured, invocation) \<Longrightarrow> task \<notin> waiting_tasks s
     \<Longrightarrow> lock_step reg s (acquire task (tc_name call) (cs_parallel configured) s)"
| granted: "lk_queue s = (task, name, par) # rest \<Longrightarrow> grantable s par
     \<Longrightarrow> lock_step reg s (grant task name par s)"
| nested_done: "lk_running s task = Some (outer, nested) \<Longrightarrow> i < length nested
     \<Longrightarrow> lock_step reg s (finish_nested task i s)"
| outer_done: "lk_running s task \<noteq> None \<Longrightarrow> lock_step reg s (release task s)"
| dropped: "w \<in> set (lk_queue s) \<Longrightarrow> lock_step reg s (s\<lparr>lk_queue := remove1 w (lk_queue s)\<rparr>)"

inductive lock_reachable :: "tool_registry \<Rightarrow> lock_state \<Rightarrow> bool" for reg where
  init: "lock_reachable reg lock_init"
| step: "lock_reachable reg s \<Longrightarrow> lock_step reg s s' \<Longrightarrow> lock_reachable reg s'"

inductive_cases lock_stepE: "lock_step reg s s'"

section \<open>Exclusive access\<close>

text \<open>The invariant: a task holds at most one guard, the one its outermost call asked for; calls inside
  it hold none; a task that runs does not wait; a serial guard is alone; and only finitely many run.\<close>

definition guards_wf :: "lock_state \<Rightarrow> bool" where
  "guards_wf s \<longleftrightarrow> (\<forall>task outer nested. lk_running s task = Some (outer, nested) \<longrightarrow>
     rc_guard outer = guard_of (rc_parallel outer) \<and> list_all (\<lambda>c. rc_guard c = ReentrantGuard) nested
     \<and> (rc_guard outer = SerialGuard \<longrightarrow> dom (lk_running s) = {task}))"

definition queue_wf :: "lock_state \<Rightarrow> bool" where
  "queue_wf s \<longleftrightarrow> distinct (map fst (lk_queue s)) \<and> waiting_tasks s \<inter> dom (lk_running s) = {}
     \<and> finite (dom (lk_running s))"

lemma guard_of_simps [simp]: "guard_of True = ParallelGuard" "guard_of False = SerialGuard"
  by (simp_all add: guard_of_def)

lemma guards_wf_grant:
  assumes "guards_wf s" "grantable s par"
  shows "guards_wf (grant task name par s)"
proof (cases par)
  case True
  with assms show ?thesis
    by (auto simp: guards_wf_def grant_def grantable_def serial_held_def) metis
next
  case False
  with assms show ?thesis by (auto simp: guards_wf_def grant_def grantable_def)
qed

lemma guards_wf_nested:
  assumes "guards_wf s" "lk_running s task = Some (outer, nested)" "list_all (\<lambda>c. rc_guard c = ReentrantGuard) nested'"
  shows "guards_wf (s\<lparr>lk_running := (lk_running s)(task \<mapsto> (outer, nested'))\<rparr>)"
proof -
  have "dom ((lk_running s)(task \<mapsto> (outer, nested'))) = dom (lk_running s)" using assms(2) by auto
  with assms show ?thesis by (auto simp: guards_wf_def)
qed

lemma guards_wf_release: "guards_wf s \<Longrightarrow> guards_wf (release task s)"
  by (auto simp: guards_wf_def release_def)

lemma queue_wf_nested:
  "queue_wf s \<Longrightarrow> lk_running s task \<noteq> None \<Longrightarrow> queue_wf (s\<lparr>lk_running := (lk_running s)(task \<mapsto> c)\<rparr>)"
  by (auto simp: queue_wf_def waiting_tasks_def insert_absorb)

lemma lock_step_wf:
  assumes "lock_step reg s s'" "guards_wf s" "queue_wf s"
  shows "guards_wf s' \<and> queue_wf s'"
  using assms(1)
proof cases
  case (called uuid call allow_mutating configured invocation task)
  show ?thesis
  proof (cases "lk_running s task")
    case None
    with called assms(2,3) show ?thesis
      by (auto simp: acquire_def guards_wf_def queue_wf_def waiting_tasks_def)
  next
    case (Some c)
    obtain outer nested where c: "c = (outer, nested)" by force
    have "list_all (\<lambda>c. rc_guard c = ReentrantGuard) nested"
      using assms(2) Some c by (simp add: guards_wf_def)
    with called Some c guards_wf_nested [OF assms(2)] queue_wf_nested [OF assms(3)]
    show ?thesis by (simp add: acquire_def)
  qed
next
  case (granted task name par rest)
  have "queue_wf (grant task name par s)"
    using assms(3) granted(2) by (auto simp: queue_wf_def waiting_tasks_def grant_def)
  with granted guards_wf_grant [OF assms(2) granted(3)] show ?thesis by simp
next
  case (nested_done task outer nested i)
  have "list_all (\<lambda>c. rc_guard c = ReentrantGuard) nested"
    using assms(2) nested_done(2) by (simp add: guards_wf_def)
  then have "list_all (\<lambda>c. rc_guard c = ReentrantGuard) (take i nested @ drop (Suc i) nested)"
    by (auto simp: list_all_iff dest: in_set_takeD in_set_dropD)
  with nested_done guards_wf_nested [OF assms(2)] queue_wf_nested [OF assms(3)]
  show ?thesis by (simp add: finish_nested_def)
next
  case (outer_done task)
  have "queue_wf (release task s)" using assms(3) by (auto simp: queue_wf_def waiting_tasks_def release_def)
  with outer_done guards_wf_release [OF assms(2)] show ?thesis by simp
next
  case (dropped w)
  have "queue_wf s'" using assms(3) dropped
    by (auto simp: queue_wf_def waiting_tasks_def distinct_map dest: notin_set_remove1 inj_on_subset)
  with dropped assms(2) show ?thesis by (simp add: guards_wf_def)
qed

lemma lock_reachable_wf: "lock_reachable reg s \<Longrightarrow> guards_wf s \<and> queue_wf s"
proof (induction rule: lock_reachable.induct)
  case init
  then show ?case by (simp add: lock_init_def guards_wf_def queue_wf_def waiting_tasks_def)
next
  case (step s s')
  then show ?case using lock_step_wf by blast
qed

text \<open>
  C18: A tool that does not support parallel calls has the lock to itself: in every reachable state in
  which the outermost call of a task is such a tool, no other task runs anything. A task holds one
  guard at most, so a call from inside a running tool never waits for its own task.
\<close>

theorem serial_tools_run_alone:
  assumes "lock_reachable reg s" "lk_running s task = Some (outer, nested)"
  shows "(rc_parallel outer \<or> dom (lk_running s) = {task})
    \<and> list_all (\<lambda>c. rc_guard c = ReentrantGuard) nested \<and> task \<notin> waiting_tasks s"
proof -
  from lock_reachable_wf [OF assms(1)] have "guards_wf s" "queue_wf s" by auto
  with assms(2) show ?thesis
    by (cases "rc_parallel outer") (auto simp: guards_wf_def queue_wf_def)
qed

text \<open>A registry with one parallel and one serial tool.\<close>

definition demo_tool :: "string \<Rightarrow> bool \<Rightarrow> tool_spec" where
  "demo_tool name par = \<lparr>tsp_name = name, tsp_input_schema = JNull, tsp_output_schema = JNull,
     tsp_parallel = par, tsp_timeout_ms = None\<rparr>"

definition demo_handler :: tool_handler where
  "demo_handler = \<lparr>h_kind = KindFunction, h_matches_kind = default_matches_kind KindFunction, h_mutating = False\<rparr>"

definition demo_registry :: tool_registry where
  "demo_registry = register (demo_tool ''shell'' False) demo_handler
     (register (demo_tool ''read'' True) demo_handler registry_default)"

definition demo_call :: "string \<Rightarrow> tool_call" where
  "demo_call name = \<lparr>tc_name = name, tc_payload = FunctionPayload [], tc_source = Direct, tc_raw_id = None\<rparr>"

lemma demo_check:
  "dispatch_check demo_registry uuid (demo_call ''read'') False = Inr (\<lparr>cs_spec = demo_tool ''read'' True, cs_parallel = True\<rparr>,
     \<lparr>ti_call_id = ''tool-call-'' @ uuid, ti_name = ''read'', ti_payload = FunctionPayload [], ti_source = Direct\<rparr>)"
  "dispatch_check demo_registry uuid (demo_call ''shell'') False = Inr (\<lparr>cs_spec = demo_tool ''shell'' False, cs_parallel = False\<rparr>,
     \<lparr>ti_call_id = ''tool-call-'' @ uuid, ti_name = ''shell'', ti_payload = FunctionPayload [], ti_source = Direct\<rparr>)"
  by (simp_all add: dispatch_check_def demo_registry_def register_def demo_call_def demo_tool_def
      demo_handler_def registry_default_def default_matches_kind_def)

lemma call_step:
  assumes "lock_reachable demo_registry s" "name = ''read'' \<or> name = ''shell''" "task \<notin> waiting_tasks s"
  shows "lock_reachable demo_registry (acquire task name (name = ''read'') s)"
proof -
  have "\<exists>configured invocation. dispatch_check demo_registry [] (demo_call name) False = Inr (configured, invocation)
      \<and> cs_parallel configured = (name = ''read'')"
    using assms(2) demo_check [of "[]"] by auto
  then obtain configured invocation where
    "dispatch_check demo_registry [] (demo_call name) False = Inr (configured, invocation)"
    "cs_parallel configured = (name = ''read'')" by blast
  from lock_step.called [OF this(1) assms(3)] this(2)
  have "lock_step demo_registry s (acquire task name (name = ''read'') s)" by (simp add: demo_call_def)
  with assms(1) show ?thesis by (rule lock_reachable.step)
qed

definition serial_state :: lock_state where
  "serial_state = grant 1 ''shell'' False (acquire 1 ''shell'' False lock_init)"

lemma serial_state_reachable: "lock_reachable demo_registry serial_state"
proof (rule lock_reachable.step)
  show "lock_reachable demo_registry (acquire 1 ''shell'' False lock_init)"
    using call_step [OF lock_reachable.init, of "''shell''" 1] by (simp add: waiting_tasks_def lock_init_def)
  show "lock_step demo_registry (acquire 1 ''shell'' False lock_init) serial_state"
    unfolding serial_state_def
    by (rule lock_step.granted) (simp_all add: acquire_def lock_init_def grantable_def)
qed

theorem serial_tools_run_alone_witness:
  "dom (lk_running serial_state) = {1}"
proof -
  have "lk_running serial_state 1 =
      Some (\<lparr>rc_name = ''shell'', rc_parallel = False, rc_guard = SerialGuard\<rparr>, [])"
    by (simp add: serial_state_def grant_def)
  from serial_tools_run_alone [OF serial_state_reachable this] show ?thesis by simp
qed

text \<open>Only outermost calls are serialised. A serial tool called from inside a parallel one takes no
  guard and runs beside the parallel tools of other tasks.\<close>

lemma nested_serial_tool_overlaps:
  "\<exists>s outer1 outer2 c. lock_reachable demo_registry s \<and> lk_running s 2 = Some (outer1, [c])
     \<and> rc_name c = ''shell'' \<and> \<not> rc_parallel c \<and> lk_running s 3 = Some (outer2, [])"
proof -
  let ?s1 = "acquire 2 ''read'' True lock_init"
  let ?s2 = "acquire 3 ''read'' True ?s1"
  let ?s3 = "grant 2 ''read'' True ?s2"
  let ?s4 = "grant 3 ''read'' True ?s3"
  let ?s5 = "acquire 2 ''shell'' False ?s4"
  have 1: "lock_reachable demo_registry ?s1"
    using call_step [OF lock_reachable.init, of "''read''" 2] by (simp add: waiting_tasks_def lock_init_def)
  have 2: "lock_reachable demo_registry ?s2"
    using call_step [OF 1, of "''read''" 3] by (simp add: waiting_tasks_def lock_init_def acquire_def)
  have q2: "lk_queue ?s2 = [(2, ''read'', True), (3, ''read'', True)]" by (simp add: acquire_def lock_init_def)
  have "lock_step demo_registry ?s2 ?s3"
    by (rule lock_step.granted [OF q2]) (simp add: acquire_def lock_init_def grantable_def serial_held_def)
  with 2 have 3: "lock_reachable demo_registry ?s3" by (rule lock_reachable.step)
  have q3: "lk_queue ?s3 = [(3, ''read'', True)]" by (simp add: grant_def q2)
  have "lock_step demo_registry ?s3 ?s4"
    by (rule lock_step.granted [OF q3])
      (simp add: acquire_def lock_init_def grantable_def serial_held_def grant_def)
  with 3 have 4: "lock_reachable demo_registry ?s4" by (rule lock_reachable.step)
  have "lock_reachable demo_registry ?s5"
    using call_step [OF 4, of "''shell''" 2] q3 by (simp add: waiting_tasks_def grant_def)
  moreover have "lk_running ?s5 2 = Some (\<lparr>rc_name = ''read'', rc_parallel = True, rc_guard = ParallelGuard\<rparr>,
      [\<lparr>rc_name = ''shell'', rc_parallel = False, rc_guard = ReentrantGuard\<rparr>])"
    "lk_running ?s5 3 = Some (\<lparr>rc_name = ''read'', rc_parallel = True, rc_guard = ParallelGuard\<rparr>, [])"
    by (simp_all add: acquire_def grant_def)
  ultimately show ?thesis by fastforce
qed

section \<open>Waiting calls are served\<close>

text \<open>Progress: an outermost call ends, or the head of the queue is granted the lock. No call waits for
  anything else, so every waiting call can be reached by such steps alone.\<close>

definition progress_step :: "lock_state \<Rightarrow> lock_state \<Rightarrow> bool" where
  "progress_step s s' \<longleftrightarrow>
     (\<exists>task name par rest. lk_queue s = (task, name, par) # rest \<and> grantable s par \<and> s' = grant task name par s)
     \<or> (\<exists>task. lk_running s task \<noteq> None \<and> s' = release task s)"

lemma progress_is_step: "progress_step s s' \<Longrightarrow> lock_step reg s s'"
  by (auto simp: progress_step_def intro: lock_step.granted lock_step.outer_done)

lemma release_all:
  assumes "finite (dom (lk_running s))"
  shows "\<exists>s'. progress_step\<^sup>*\<^sup>* s s' \<and> lk_running s' = Map.empty \<and> lk_queue s' = lk_queue s"
  using assms
proof (induction "card (dom (lk_running s))" arbitrary: s)
  case 0
  then show ?case by auto
next
  case (Suc n)
  then obtain task where t: "task \<in> dom (lk_running s)" by (metis card.empty equals0I nat.distinct(1))
  have "dom (lk_running (release task s)) = dom (lk_running s) - {task}" by (auto simp: release_def)
  with Suc t have "n = card (dom (lk_running (release task s)))" "finite (dom (lk_running (release task s)))"
    by simp_all
  from Suc(1) [OF this] obtain s' where "progress_step\<^sup>*\<^sup>* (release task s) s'" "lk_running s' = Map.empty"
    "lk_queue s' = lk_queue s" by (auto simp: release_def)
  moreover have "progress_step s (release task s)" using t unfolding progress_step_def by blast
  ultimately show ?case by (meson converse_rtranclp_into_rtranclp)
qed

lemma serve_from_empty:
  assumes "lk_running s = Map.empty" "task \<in> waiting_tasks s"
  shows "\<exists>s'. progress_step\<^sup>*\<^sup>* s s' \<and> lk_running s' task \<noteq> None"
  using assms
proof (induction "length (lk_queue s)" arbitrary: s)
  case 0
  then show ?case by (simp add: waiting_tasks_def)
next
  case (Suc n)
  obtain h name par rest where q: "lk_queue s = (h, name, par) # rest"
    using Suc(2) by (cases "lk_queue s") auto
  let ?g = "grant h name par s"
  have "grantable s par" using Suc.prems(1) by (simp add: grantable_def serial_held_def)
  with q have p: "progress_step s ?g" by (auto simp: progress_step_def)
  show ?case
  proof (cases "task = h")
    case True
    then have "lk_running ?g task \<noteq> None" by (simp add: grant_def)
    with p show ?thesis by blast
  next
    case False
    let ?r = "release h ?g"
    have "progress_step ?g ?r" by (auto simp: progress_step_def grant_def)
    with p have pr: "progress_step\<^sup>*\<^sup>* s ?r" by simp
    have "lk_running ?r = Map.empty" using Suc.prems(1) by (simp add: release_def grant_def)
    moreover have "task \<in> waiting_tasks ?r" "n = length (lk_queue ?r)"
      using Suc(2) Suc.prems(2) False q by (auto simp: release_def grant_def waiting_tasks_def)
    ultimately obtain s' where "progress_step\<^sup>*\<^sup>* ?r s'" "lk_running s' task \<noteq> None" using Suc(1) by blast
    with pr show ?thesis by (meson rtranclp_trans)
  qed
qed

text \<open>
  No call waits for ever: from every reachable state, for every waiting call, the calls that hold
  the lock need only end, and those queued before it be granted the lock and end, for it to run.
\<close>

theorem waiting_calls_are_served:
  assumes "lock_reachable reg s" "task \<in> waiting_tasks s"
  shows "\<exists>s'. progress_step\<^sup>*\<^sup>* s s' \<and> lk_running s' task \<noteq> None"
proof -
  have "finite (dom (lk_running s))" using lock_reachable_wf [OF assms(1)] by (simp add: queue_wf_def)
  then obtain s1 where s1: "progress_step\<^sup>*\<^sup>* s s1" "lk_running s1 = Map.empty" "lk_queue s1 = lk_queue s"
    using release_all by blast
  then have "task \<in> waiting_tasks s1" using assms(2) by (simp add: waiting_tasks_def)
  with serve_from_empty [OF s1(2)] s1(1) show ?thesis by (meson rtranclp_trans)
qed

theorem waiting_calls_are_served_witness:
  "\<exists>s'. progress_step\<^sup>*\<^sup>* (acquire 2 ''read'' True serial_state) s' \<and> lk_running s' 2 \<noteq> None"
proof (rule waiting_calls_are_served)
  show "lock_reachable demo_registry (acquire 2 ''read'' True serial_state)"
    using call_step [OF serial_state_reachable, of "''read''" 2]
    by (simp add: waiting_tasks_def serial_state_def grant_def acquire_def lock_init_def)
  show "2 \<in> waiting_tasks (acquire 2 ''read'' True serial_state)"
    by (simp add: waiting_tasks_def serial_state_def grant_def acquire_def lock_init_def)
qed

section \<open>What is dispatched\<close>

text \<open>
  A call reaches its handler exactly when a tool of that name is registered with a handler that
  takes the kind of its payload and, where mutating calls are not allowed, changes nothing; the
  invocation carries the call's name, payload and source, and its own identifier when it has one.
\<close>

theorem dispatch_checks_call:
  "(\<exists>configured. dispatch_check reg uuid call allow_mutating = Inr (configured, invocation))
    \<longleftrightarrow> (\<exists>handler configured. rg_handlers reg (tc_name call) = Some handler
          \<and> rg_specs reg (tc_name call) = Some configured
          \<and> h_matches_kind handler (tool_payload_kind (tc_payload call))
          \<and> (if h_mutating handler then allow_mutating else True))
      \<and> invocation = \<lparr>ti_call_id = (case tc_raw_id call of Some i \<Rightarrow> i | None \<Rightarrow> ''tool-call-'' @ uuid),
          ti_name = tc_name call, ti_payload = tc_payload call, ti_source = tc_source call\<rparr>"
  by (auto simp: dispatch_check_def Let_def split: option.splits)

end
