(* ===== verification/Patch_Text.thy ===== *)
theory Patch_Text
  imports Tool_Dispatch
begin

text \<open>
  \<open>crates/tui/src/tools/apply_patch.rs\<close>, the reading half: unified diffs, the preflight that names the
  files a patch touches, and the messages. Line numbers and counts are \<open>usize\<close> values, natural numbers
  below \<open>2 ^ 64\<close>; the one sum that may overflow is taken on 64 bit words, as a release build does.
\<close>

section \<open>Results\<close>

text \<open>The \<open>?\<close> operator.\<close>

definition res_bind :: "'e + 'a \<Rightarrow> ('a \<Rightarrow> 'e + 'b) \<Rightarrow> 'e + 'b" where
  "res_bind r f = (case r of Inl e \<Rightarrow> Inl e | Inr a \<Rightarrow> f a)"

lemma res_bind_simps [simp]: "res_bind (Inl e) f = Inl e" "res_bind (Inr a) f = f a"
  by (simp_all add: res_bind_def)

lemma res_bind_Inr: "res_bind r f = Inr b \<longleftrightarrow> (\<exists>a. r = Inr a \<and> f a = Inr b)"
  by (cases r) simp_all

definition MAX_FUZZ :: nat where "MAX_FUZZ = 50"

definition DEFAULT_FUZZ :: nat where "DEFAULT_FUZZ = 3"

definition FILE_LIST_LIMIT :: nat where "FILE_LIST_LIMIT = 6"

section \<open>Data\<close>

datatype hunk_line = Context string | Add string | Remove string

record hunk =
  old_start :: nat
  old_count :: nat
  new_start :: nat
  new_count :: nat
  hk_lines :: "hunk_line list"

record file_patch =
  fp_path :: string
  fp_hunks :: "hunk list"
  fp_delete_after :: bool
  fp_create_if_missing :: bool

record patch_shape =
  has_hunks :: bool
  header_files :: "string list"

definition file_count :: "patch_shape \<Rightarrow> nat" where
  "file_count shape = length (header_files shape)"

record preflight =
  pf_touched_files :: "string list"
  pf_files_total :: nat
  pf_hunks_total :: nat
  pf_creates :: "string list"
  pf_deletes :: "string list"
  pf_path_override :: "string option"
  pf_header_path_mismatch :: "string option"

datatype preflight_kind = Changes | PathOverride string "hunk list" | FilePatches "file_patch list"

record preflight_plan =
  pp_summary :: preflight
  pp_kind :: preflight_kind

section \<open>Paths and ranges\<close>

definition strip_a_b :: "string \<Rightarrow> string" where
  "strip_a_b raw =
     (case strip_prefix ''a/'' raw of
        Some r \<Rightarrow> r
      | None \<Rightarrow> (case strip_prefix ''b/'' raw of Some r \<Rightarrow> r | None \<Rightarrow> raw))"

definition normalize_diff_path :: "string \<Rightarrow> string option" where
  "normalize_diff_path raw0 =
     (let raw = trim (case split_once CHR 0x09 raw0 of Some (path, _) \<Rightarrow> path | None \<Rightarrow> raw0)
      in if raw = [] then None
         else if raw = ''/dev/null'' \<or> raw = ''dev/null'' then None
         else Some (strip_a_b raw))"

definition resolve_diff_paths ::
  "string option \<Rightarrow> string option \<Rightarrow> bool \<Rightarrow> tool_error + string \<times> bool \<times> bool" where
  "resolve_diff_paths old_path new_path create_if_missing =
     (let old_norm = Option.bind old_path normalize_diff_path;
          new_norm = Option.bind new_path normalize_diff_path;
          delete_after = (new_norm = None);
          create_flag = (create_if_missing \<or> old_norm = None)
      in case (case new_norm of Some p \<Rightarrow> Some p | None \<Rightarrow> old_norm) of
           Some path \<Rightarrow> Inr (path, delete_after, create_flag)
         | None \<Rightarrow> Inl (InvalidInput ''Patch is missing both old and new file paths''))"

text \<open>The values of \<open>usize\<close>, compared as integers so that evaluation stays binary.\<close>

definition is_usize :: "nat \<Rightarrow> bool" where
  "is_usize n \<longleftrightarrow> int n < 2 ^ 64"

lemma is_usize_nat: "is_usize n \<longleftrightarrow> n < 2 ^ 64"
proof -
  have "is_usize n \<longleftrightarrow> int n < int (2 ^ 64)" unfolding is_usize_def by simp
  then show ?thesis by (simp only: of_nat_less_iff)
qed

text \<open>\<open>usize::from_str\<close>: an optional plus sign, digits, no overflow.\<close>

definition parse_usize :: "string \<Rightarrow> nat option" where
  "parse_usize s =
     (case parse_digits (case strip_prefix ''+'' s of Some r \<Rightarrow> r | None \<Rightarrow> s) of
        Some n \<Rightarrow> if is_usize n then Some n else None
      | None \<Rightarrow> None)"

definition tick :: "string \<Rightarrow> string" where
  "tick s = [CHR 0x60] @ s @ [CHR 0x60]"

definition parse_range :: "string \<Rightarrow> tool_error + nat \<times> nat" where
  "parse_range rng =
     (let parts = split_on CHR '','' rng
      in case parse_usize (hd parts) of
           None \<Rightarrow> Inl (InvalidInput (''Invalid line number '' @ tick (hd parts)
             @ '' in hunk header. Use positive integers like '' @ tick ''12'' @ '' or '' @ tick ''12,3'' @ ''.''))
         | Some start \<Rightarrow>
             if length parts > 1
             then (case parse_usize (parts ! 1) of
                     None \<Rightarrow> Inl (InvalidInput (''Invalid line count '' @ tick (parts ! 1)
                       @ '' in hunk header. Use positive integers like '' @ tick ''3'' @ ''.''))
                   | Some count \<Rightarrow> Inr (start, count))
             else Inr (start, 1))"

definition trim_start_char :: "char \<Rightarrow> string \<Rightarrow> string" where
  "trim_start_char c s = dropWhile (\<lambda>d. d = c) s"

section \<open>Hunks\<close>

text \<open>The arms of the match over the next line of a hunk, in their order: end the hunk, keep a line of it, or
  pass over the line.\<close>

datatype hunk_arm = Break | Take hunk_line | Skip

definition match_hunk_line :: "string \<Rightarrow> hunk_arm" where
  "match_hunk_line line =
     (if prefix ''@@'' line then Break
      else if prefix ''-'' line then Take (Remove (tl line))
      else if prefix ''+'' line then Take (Add (tl line))
      else if prefix '' '' line \<or> line = [] then Take (Context (tl line))
      else if prefix ''diff '' line \<or> prefix ''--- '' line \<or> prefix ''+++ '' line then Break
      else if \<not> prefix [CHR 0x5C] line then Take (Context line)
      else Skip)"

text \<open>The loop over the lines of a hunk: at most \<open>n\<close> rounds, each of which takes a line or stops.\<close>

fun parse_hunk_lines :: "nat \<Rightarrow> string list \<Rightarrow> hunk_line list \<times> string list" where
  "parse_hunk_lines n [] = ([], [])"
| "parse_hunk_lines n (line # rest) =
     (if n = 0 then ([], line # rest)
      else case match_hunk_line line of
        Break \<Rightarrow> ([], line # rest)
      | Take l \<Rightarrow> (let (ls, r) = parse_hunk_lines (n - 1) rest in (l # ls, r))
      | Skip \<Rightarrow> parse_hunk_lines (n - 1) rest)"

definition line_budget :: "nat \<Rightarrow> nat \<Rightarrow> nat" where
  "line_budget old_c new_c = unat ((of_nat (max old_c new_c) + of_nat (min old_c new_c)) * 2 :: u64)"

definition parse_hunk_header :: "string \<Rightarrow> string list \<Rightarrow> tool_error + hunk \<times> string list" where
  "parse_hunk_header header rest =
     (let parts = split_whitespace header
      in if length parts < 3
         then Inl (InvalidInput (''Invalid hunk header: '' @ header @ ''. Expected ''
                @ tick ''@@ -start,count +start,count @@'' @ ''.''))
         else res_bind (parse_range (trim_start_char CHR ''-'' (parts ! 1))) (\<lambda>(old_s, old_c).
              res_bind (parse_range (trim_start_char CHR ''+'' (parts ! 2))) (\<lambda>(new_s, new_c).
              let (ls, r) = parse_hunk_lines (line_budget old_c new_c) rest
              in Inr (\<lparr>old_start = old_s, old_count = old_c, new_start = new_s, new_count = new_c,
                       hk_lines = ls\<rparr>, r))))"

lemma parse_hunk_lines_length: "length (snd (parse_hunk_lines n ls)) \<le> length ls"
  by (induction n ls rule: parse_hunk_lines.induct) (auto simp: split_beta intro: le_SucI split: hunk_arm.splits)

lemma parse_hunk_header_length:
  assumes "parse_hunk_header header rest = Inr (h, r)" shows "length r \<le> length rest"
proof -
  from assms obtain n where "r = snd (parse_hunk_lines n rest)"
    by (auto simp: parse_hunk_header_def Let_def res_bind_Inr split_beta split: if_splits)
  then show ?thesis by (simp add: parse_hunk_lines_length)
qed

text \<open>The loop over the hunks of a diff.\<close>

function parse_hunks :: "string list \<Rightarrow> tool_error + hunk list" where
  "parse_hunks [] = Inr []"
| "parse_hunks (line # rest) =
     (if prefix ''@@'' line
      then (case parse_hunk_header line rest of
              Inl e \<Rightarrow> Inl e
            | Inr (h, r) \<Rightarrow> res_bind (parse_hunks r) (\<lambda>hs. Inr (h # hs)))
      else parse_hunks rest)"
  by pat_completeness auto
termination
  by (relation "measure length") (auto dest!: parse_hunk_header_length)

definition parse_unified_diff :: "string \<Rightarrow> tool_error + hunk list" where
  "parse_unified_diff patch =
     parse_hunks (dropWhile (\<lambda>line. \<not> prefix ''@@'' line) (str_lines patch))"

text \<open>The loop over a diff of several files: the files so far, the current one and the last old path.\<close>

definition push_current :: "file_patch option \<Rightarrow> file_patch list \<Rightarrow> file_patch list" where
  "push_current current files = (case current of None \<Rightarrow> files | Some f \<Rightarrow> files @ [f])"

definition orphan_hunk :: "string option \<Rightarrow> tool_error" where
  "orphan_hunk old_path =
     (case old_path of
        Some path \<Rightarrow> InvalidInput (''Patch hunk encountered after '' @ tick (''--- '' @ path)
          @ '' but before a matching '' @ tick ''+++''
          @ '' header. Each file section must include both headers.'')
      | None \<Rightarrow> InvalidInput (''Patch hunk encountered before any file header. Add ''
          @ tick ''---'' @ ''/'' @ tick ''+++'' @ '' headers or provide '' @ tick ''path'' @ ''.''))"

function parse_files ::
  "bool \<Rightarrow> string list \<Rightarrow> file_patch list \<Rightarrow> file_patch option \<Rightarrow> string option
     \<Rightarrow> tool_error + file_patch list" where
  "parse_files create [] files current old_path = Inr (push_current current files)"
| "parse_files create (line # rest) files current old_path =
     (if prefix ''diff --git '' line then parse_files create rest (push_current current files) None None
      else case strip_prefix ''--- '' line of
        Some stripped \<Rightarrow> parse_files create rest files current (Some (trim stripped))
      | None \<Rightarrow>
        (case strip_prefix ''+++ '' line of
           Some stripped \<Rightarrow>
             res_bind (resolve_diff_paths old_path (Some (trim stripped)) create) (\<lambda>(path, delete_after, create_flag).
               parse_files create rest (push_current current files)
                 (Some \<lparr>fp_path = path, fp_hunks = [], fp_delete_after = delete_after,
                        fp_create_if_missing = create_flag\<rparr>) None)
         | None \<Rightarrow>
             if prefix ''@@'' line
             then (case current of
                     None \<Rightarrow> Inl (orphan_hunk old_path)
                   | Some f \<Rightarrow>
                       (case parse_hunk_header line rest of
                          Inl e \<Rightarrow> Inl e
                        | Inr (h, r) \<Rightarrow>
                            parse_files create r files (Some (f\<lparr>fp_hunks := fp_hunks f @ [h]\<rparr>)) old_path))
             else parse_files create rest files current old_path))"
  by pat_completeness auto
termination
  by (relation "measure (\<lambda>(create, ls, files, current, old_path). length ls)")
    (auto dest!: parse_hunk_header_length)

definition parse_unified_diff_files :: "string \<Rightarrow> bool \<Rightarrow> tool_error + file_patch list" where
  "parse_unified_diff_files patch create_if_missing =
     parse_files create_if_missing (str_lines patch) [] None None"

section \<open>The shape of a patch\<close>

definition hunk_line_counts_for_shape :: "string \<Rightarrow> (nat \<times> nat) option" where
  "hunk_line_counts_for_shape header =
     (let parts = split_whitespace header
      in if length parts < 3 then None
         else case parse_range (trim_start_char CHR ''-'' (parts ! 1)) of
           Inl _ \<Rightarrow> None
         | Inr (_, old_c) \<Rightarrow>
             (case parse_range (trim_start_char CHR ''+'' (parts ! 2)) of
                Inl _ \<Rightarrow> None
              | Inr (_, new_c) \<Rightarrow> Some (old_c, new_c)))"

definition advance_hunk_shape_counts :: "string \<Rightarrow> nat \<times> nat \<Rightarrow> nat \<times> nat" where
  "advance_hunk_shape_counts line = (\<lambda>(old_remaining, new_remaining).
     if prefix [CHR 0x5C] line then (old_remaining, new_remaining)
     else if prefix ''+'' line then (old_remaining, new_remaining - 1)
     else if prefix ''-'' line then (old_remaining - 1, new_remaining)
     else (old_remaining - 1, new_remaining - 1))"

definition push_unique :: "string list \<Rightarrow> string \<Rightarrow> string list" where
  "push_unique target v = (if list_ex (\<lambda>existing. existing = v) target then target else target @ [v])"

record shape_scan =
  ss_shape :: patch_shape
  ss_old_path :: "string option"
  ss_remaining :: "nat \<times> nat"

definition scan_shape_line :: "string \<Rightarrow> shape_scan \<Rightarrow> shape_scan" where
  "scan_shape_line line s =
     (if prefix ''@@'' line
      then (let s1 = s\<lparr>ss_shape := (ss_shape s)\<lparr>has_hunks := True\<rparr>\<rparr>
            in case hunk_line_counts_for_shape line of
                 Some counts \<Rightarrow> s1\<lparr>ss_remaining := counts\<rparr>
               | None \<Rightarrow> s1)
      else if fst (ss_remaining s) > 0 \<or> snd (ss_remaining s) > 0
      then s\<lparr>ss_remaining := advance_hunk_shape_counts line (ss_remaining s)\<rparr>
      else case strip_prefix ''--- '' line of
        Some stripped \<Rightarrow> s\<lparr>ss_old_path := normalize_diff_path stripped\<rparr>
      | None \<Rightarrow>
        (case strip_prefix ''+++ '' line of
           Some stripped \<Rightarrow>
             (let resolved = (case normalize_diff_path stripped of Some p \<Rightarrow> Some p | None \<Rightarrow> ss_old_path s);
                  files = (case resolved of
                             None \<Rightarrow> header_files (ss_shape s)
                           | Some path \<Rightarrow> push_unique (header_files (ss_shape s)) path)
              in s\<lparr>ss_shape := (ss_shape s)\<lparr>header_files := files\<rparr>, ss_old_path := None\<rparr>)
         | None \<Rightarrow> s))"

definition inspect_patch_shape :: "string \<Rightarrow> patch_shape" where
  "inspect_patch_shape patch =
     ss_shape (fold scan_shape_line (str_lines patch)
       \<lparr>ss_shape = \<lparr>has_hunks = False, header_files = []\<rparr>, ss_old_path = None, ss_remaining = (0, 0)\<rparr>)"

definition format_file_list :: "string list \<Rightarrow> string" where
  "format_file_list files =
     (if files = [] then ''<none>''
      else let shown = take FILE_LIST_LIMIT files;
               remaining = length files - length shown;
               shown' = (if remaining > 0 then shown @ [''... (+'' @ show_nat remaining @ '' more)''] else shown)
           in join_with '', '' shown')"

definition validate_patch_shape :: "patch_shape \<Rightarrow> string option \<Rightarrow> tool_error + unit" where
  "validate_patch_shape shape path_override =
     (if \<not> has_hunks shape
      then Inl (InvalidInput (''Patch must include at least one hunk header (''
             @ tick ''@@ -start,count +start,count @@'' @ '').''))
      else if path_override \<noteq> None \<and> file_count shape > 1
      then Inl (InvalidInput (''Patch references multiple files ('' @ format_file_list (header_files shape)
             @ '') but '' @ tick ''path'' @ '' was provided. Remove '' @ tick ''path''
             @ '' to apply a multi-file patch, or provide a single-file patch.''))
      else if path_override = None \<and> file_count shape = 0
      then Inl (InvalidInput (''Patch contains hunks but no file headers ('' @ tick ''---'' @ ''/''
             @ tick ''+++'' @ ''). Provide '' @ tick ''path'' @ '' or add headers.''))
      else Inr ())"

definition diff_header_mismatch :: "string \<Rightarrow> patch_shape \<Rightarrow> string option" where
  "diff_header_mismatch path_override shape =
     (if file_count shape \<noteq> 1 then None
      else let header_path = hd (header_files shape);
               override_norm = (case normalize_diff_path path_override of Some p \<Rightarrow> p | None \<Rightarrow> path_override)
           in if override_norm = header_path then None
              else Some (''Note: patch headers reference '' @ tick header_path @ '' but '' @ tick ''path''
                     @ '' overrides to '' @ tick override_norm @ ''.''))"

section \<open>Preflight\<close>

fun preflight_change_paths :: "json list \<Rightarrow> string list \<Rightarrow> tool_error + string list" where
  "preflight_change_paths [] touched = Inr touched"
| "preflight_change_paths (change # rest) touched =
     (case optional_str change ''path'' of
        None \<Rightarrow> Inl (MissingField ''changes[].path'')
      | Some path \<Rightarrow>
         (case optional_str change ''content'' of
            None \<Rightarrow> Inl (MissingField ''changes[].content'')
          | Some _ \<Rightarrow> preflight_change_paths rest (push_unique touched path)))"

definition changes_array :: "json \<Rightarrow> tool_error + json list" where
  "changes_array changes_value =
     (case as_array changes_value of
        None \<Rightarrow> Inl (InvalidInput (tick ''changes'' @ '' must be an array of objects like {path, content}''))
      | Some changes \<Rightarrow>
          if changes = [] then Inl (InvalidInput (tick ''changes'' @ '' cannot be empty'')) else Inr changes)"

definition preflight_changes :: "json \<Rightarrow> tool_error + preflight" where
  "preflight_changes changes_value =
     res_bind (changes_array changes_value) (\<lambda>changes.
     res_bind (preflight_change_paths changes []) (\<lambda>touched.
       Inr \<lparr>pf_touched_files = touched, pf_files_total = length changes, pf_hunks_total = 0, pf_creates = [],
            pf_deletes = [], pf_path_override = None, pf_header_path_mismatch = None\<rparr>))"

definition no_hunks_in_section :: "file_patch \<Rightarrow> tool_error" where
  "no_hunks_in_section fp =
     InvalidInput (''Patch section for '' @ tick (fp_path fp) @ '' has no hunks ('' @ tick ''@@ ... @@'' @ '').'')"

definition note_file :: "file_patch \<Rightarrow> preflight \<Rightarrow> preflight" where
  "note_file fp s =
     s\<lparr>pf_touched_files := push_unique (pf_touched_files s) (fp_path fp),
       pf_hunks_total := pf_hunks_total s + length (fp_hunks fp),
       pf_creates := (if fp_create_if_missing fp \<and> \<not> fp_delete_after fp
                      then push_unique (pf_creates s) (fp_path fp) else pf_creates s),
       pf_deletes := (if fp_delete_after fp then push_unique (pf_deletes s) (fp_path fp) else pf_deletes s)\<rparr>"

fun preflight_files :: "file_patch list \<Rightarrow> preflight \<Rightarrow> tool_error + preflight" where
  "preflight_files [] s = Inr s"
| "preflight_files (fp # rest) s =
     (if fp_hunks fp = [] then Inl (no_hunks_in_section fp) else preflight_files rest (note_file fp s))"

definition preflight_apply_patch_plan :: "json \<Rightarrow> tool_error + preflight_plan" where
  "preflight_apply_patch_plan input =
     (let create_if_missing = optional_bool input ''create_if_missing'' False
      in case json_get ''changes'' input of
           Some changes_value \<Rightarrow>
             res_bind (preflight_changes changes_value) (\<lambda>summary.
               Inr \<lparr>pp_summary = summary, pp_kind = Changes\<rparr>)
         | None \<Rightarrow>
             res_bind (required_str input ''patch'') (\<lambda>patch_text.
             let path_override = optional_str input ''path'';
                 patch_shape = inspect_patch_shape patch_text
             in res_bind (validate_patch_shape patch_shape path_override) (\<lambda>_.
             let mismatch = Option.bind path_override (\<lambda>path. diff_header_mismatch path patch_shape)
             in case path_override of
                  Some path \<Rightarrow>
                    res_bind (parse_unified_diff patch_text) (\<lambda>hunks.
                      if hunks = []
                      then Inl (InvalidInput (''Patch did not contain any hunks ('' @ tick ''@@ ... @@''
                             @ ''). Provide a unified diff hunk.''))
                      else Inr \<lparr>pp_summary =
                              \<lparr>pf_touched_files = [path], pf_files_total = 1, pf_hunks_total = length hunks,
                               pf_creates = (if create_if_missing then [path] else []), pf_deletes = [],
                               pf_path_override = Some path, pf_header_path_mismatch = mismatch\<rparr>,
                            pp_kind = PathOverride path hunks\<rparr>)
                | None \<Rightarrow>
                    res_bind (parse_unified_diff_files patch_text create_if_missing) (\<lambda>file_patches.
                      if file_patches = []
                      then Inl (InvalidInput (''No valid file patches found. Ensure the patch includes ''
                             @ tick ''---'' @ ''/'' @ tick ''+++'' @ '' headers or provide '' @ tick ''path'' @ ''.''))
                      else res_bind (preflight_files file_patches
                              \<lparr>pf_touched_files = [], pf_files_total = length file_patches, pf_hunks_total = 0,
                               pf_creates = [], pf_deletes = [], pf_path_override = None,
                               pf_header_path_mismatch = mismatch\<rparr>) (\<lambda>summary.
                           Inr \<lparr>pp_summary = summary, pp_kind = FilePatches file_patches\<rparr>)))))"

definition preflight_apply_patch :: "json \<Rightarrow> tool_error + preflight" where
  "preflight_apply_patch input = map_sum id pp_summary (preflight_apply_patch_plan input)"

section \<open>Writing and reading a patch\<close>

text \<open>The unified diff text of a list of file sections in the form \<open>git diff\<close> prints, as lines.\<close>

fun render_hunk_line :: "hunk_line \<Rightarrow> string" where
  "render_hunk_line (Context s) = '' '' @ s"
| "render_hunk_line (Add s) = ''+'' @ s"
| "render_hunk_line (Remove s) = ''-'' @ s"

definition render_range :: "nat \<Rightarrow> nat \<Rightarrow> string" where
  "render_range start count = show_nat start @ '','' @ show_nat count"

definition render_hunk :: "hunk \<Rightarrow> string list" where
  "render_hunk h =
     (''@@ -'' @ render_range (old_start h) (old_count h) @ '' +''
        @ render_range (new_start h) (new_count h) @ '' @@'')
     # map render_hunk_line (hk_lines h)"

definition render_file :: "file_patch \<Rightarrow> string list" where
  "render_file f =
     [''diff --git a/'' @ fp_path f @ '' b/'' @ fp_path f,
      ''--- '' @ (if fp_create_if_missing f then ''/dev/null'' else ''a/'' @ fp_path f),
      ''+++ '' @ (if fp_delete_after f then ''/dev/null'' else ''b/'' @ fp_path f)]
     @ concat (map render_hunk (fp_hunks f))"

fun old_lines_of :: "hunk_line list \<Rightarrow> string list" where
  "old_lines_of [] = []"
| "old_lines_of (Context s # ls) = s # old_lines_of ls"
| "old_lines_of (Remove s # ls) = s # old_lines_of ls"
| "old_lines_of (Add s # ls) = old_lines_of ls"

fun new_lines_of :: "hunk_line list \<Rightarrow> string list" where
  "new_lines_of [] = []"
| "new_lines_of (Context s # ls) = s # new_lines_of ls"
| "new_lines_of (Add s # ls) = s # new_lines_of ls"
| "new_lines_of (Remove s # ls) = new_lines_of ls"

definition hunk_ok :: "hunk \<Rightarrow> bool" where
  "hunk_ok h \<longleftrightarrow> is_usize (old_start h) \<and> is_usize (new_start h)
     \<and> old_count h = length (old_lines_of (hk_lines h)) \<and> new_count h = length (new_lines_of (hk_lines h))
     \<and> is_usize ((old_count h + new_count h) * 2)"

definition plain_path :: "string \<Rightarrow> bool" where
  "plain_path p \<longleftrightarrow> CHR 0x09 \<notin> set p \<and> p \<noteq> [] \<and> \<not> is_ws (last p)"

definition file_patch_ok :: "file_patch \<Rightarrow> bool" where
  "file_patch_ok f \<longleftrightarrow> plain_path (fp_path f) \<and> \<not> (fp_create_if_missing f \<and> fp_delete_after f)
     \<and> list_all hunk_ok (fp_hunks f)"

lemma length_hunk_lines: "length ls \<le> length (old_lines_of ls) + length (new_lines_of ls)"
  by (induction ls rule: old_lines_of.induct) auto

lemma match_render_hunk_line [simp]: "match_hunk_line (render_hunk_line l) = Take l"
  by (cases l) (simp_all add: match_hunk_line_def)

lemma parse_rendered_lines:
  assumes "length ls \<le> n" "rest = [] \<or> match_hunk_line (hd rest) = Break"
  shows "parse_hunk_lines n (map render_hunk_line ls @ rest) = (ls, rest)"
  using assms
proof (induction ls arbitrary: n)
  case Nil
  then show ?case by (cases rest) auto
next
  case (Cons l ls)
  then show ?case by simp
qed

text \<open>Reading back the ranges.\<close>

lemma show_nat_no: "\<not> is_ascii_digit c \<Longrightarrow> c \<notin> set (show_nat n)"
  using show_nat_digits [of n] by (auto simp: list_all_iff)

lemma strip_show_nat:
  "\<not> is_ascii_digit c \<Longrightarrow> strip_prefix [c] (show_nat n) = None"
  using show_nat_no [of c n] by (cases "show_nat n") (auto simp: strip_prefix_def)

lemma parse_usize_show [simp]: "is_usize n \<Longrightarrow> parse_usize (show_nat n) = Some n"
  by (simp add: parse_usize_def strip_show_nat is_ascii_digit_def)

lemma parse_range_render:
  assumes "is_usize a" "is_usize b" shows "parse_range (render_range a b) = Inr (a, b)"
proof -
  have "CHR '','' \<notin> set (show_nat n)" for n by (rule show_nat_no) (simp add: is_ascii_digit_def)
  then have "split_on CHR '','' (render_range a b) = [show_nat a, show_nat b]"
    by (simp add: render_range_def split_on_append split_on_word)
  with assms show ?thesis by (simp add: parse_range_def)
qed

lemma range_is_word:
  assumes "\<not> is_ws c" shows "is_word (c # render_range a b)"
proof -
  have "\<not> is_ws d" if "d \<in> set (render_range a b)" for d
  proof (cases "is_ascii_digit d")
    case True
    then show ?thesis by (auto simp: is_ws_def is_ascii_digit_def)
  next
    case False
    then have "d = CHR '',''" using that by (auto simp: render_range_def show_nat_no)
    then show ?thesis by (simp add: is_ws_def)
  qed
  with assms show ?thesis by (simp add: is_word_def)
qed

lemma render_range_start:
  assumes "\<not> is_ascii_digit c"
  shows "trim_start_char c (c # render_range a b) = render_range a b"
  using show_nat_no [OF assms, of a]
  by (cases "show_nat a") (auto simp: trim_start_char_def render_range_def)

lemma hunk_header_words:
  "split_whitespace (''@@ -'' @ render_range a b @ '' +'' @ render_range c d @ '' @@'')
     = [''@@'', CHR ''-'' # render_range a b, CHR ''+'' # render_range c d, ''@@'']"
proof -
  have w: "\<forall>w \<in> set [''@@'', CHR ''-'' # render_range a b, CHR ''+'' # render_range c d, ''@@'']. is_word w"
    using range_is_word [of "CHR ''-''" a b] range_is_word [of "CHR ''+''" c d]
    by (simp add: is_ws_def) (simp add: is_word_def is_ws_def)
  show ?thesis using split_whitespace_join [OF w] by simp
qed

lemma line_budget_nat:
  assumes "is_usize ((a + b) * 2)" shows "line_budget a b = (a + b) * 2"
proof -
  have "(of_nat (max a b) + of_nat (min a b)) * 2 = (of_nat ((max a b + min a b) * 2) :: u64)"
    by (simp only: of_nat_add of_nat_mult of_nat_numeral)
  moreover have "max a b + min a b = a + b" by simp
  ultimately have "line_budget a b = unat (of_nat ((a + b) * 2) :: u64)"
    by (simp only: line_budget_def)
  then show ?thesis using assms
    by (simp only: unsigned_of_nat is_usize_nat) (simp add: take_bit_nat_eq_self)
qed

lemma parse_rendered_hunk:
  assumes "hunk_ok h" "rest = [] \<or> match_hunk_line (hd rest) = Break"
  shows "parse_hunk_header (hd (render_hunk h)) (tl (render_hunk h) @ rest) = Inr (h, rest)"
proof -
  have c: "\<not> is_ascii_digit (CHR ''-'')" "\<not> is_ascii_digit (CHR ''+'')" by (simp_all add: is_ascii_digit_def)
  have b: "is_usize (old_start h)" "is_usize (old_count h)" "is_usize (new_start h)" "is_usize (new_count h)"
    using assms(1) by (auto simp: hunk_ok_def is_usize_def)
  have "line_budget (old_count h) (new_count h) = (old_count h + new_count h) * 2"
    using assms(1) by (intro line_budget_nat) (auto simp: hunk_ok_def)
  moreover have "length (hk_lines h) \<le> old_count h + new_count h"
    using assms(1) length_hunk_lines [of "hk_lines h"] by (auto simp: hunk_ok_def)
  ultimately have "length (hk_lines h) \<le> line_budget (old_count h) (new_count h)" by simp
  note l = parse_rendered_lines [OF this assms(2)]
  show ?thesis
    by (simp only: render_hunk_def list.sel parse_hunk_header_def hunk_header_words Let_def)
      (simp add: render_range_start [OF c(1)] render_range_start [OF c(2)] parse_range_render [OF b(1,2)]
        parse_range_render [OF b(3,4)] l)
qed

lemma hunk_header_breaks: "match_hunk_line (hd (render_hunk h)) = Break"
  by (simp add: render_hunk_def match_hunk_line_def)

lemma render_hunk_split: "render_hunk h = hd (render_hunk h) # tl (render_hunk h)"
  by (simp add: render_hunk_def)

definition section_start :: "string list \<Rightarrow> bool" where
  "section_start rest \<longleftrightarrow> rest = [] \<or> match_hunk_line (hd rest) = Break"

lemma section_start_hunks:
  "section_start rest \<Longrightarrow> section_start (concat (map render_hunk hs) @ rest)"
  by (cases hs) (simp_all add: section_start_def hunk_header_breaks render_hunk_def match_hunk_line_def)

lemma parse_rendered_hunk':
  assumes "hunk_ok h" "section_start rest"
  shows "parse_hunk_header (hd (render_hunk h)) (tl (render_hunk h) @ rest) = Inr (h, rest)"
  using assms by (auto simp: section_start_def intro: parse_rendered_hunk)

lemma hunk_header_prefix:
  "prefix ''@@'' (hd (render_hunk h))" "\<not> prefix ''diff --git '' (hd (render_hunk h))"
  "strip_prefix ''--- '' (hd (render_hunk h)) = None" "strip_prefix ''+++ '' (hd (render_hunk h)) = None"
  by (simp_all add: render_hunk_def strip_prefix_def)

lemma parse_files_hunk_step:
  assumes "hunk_ok h" "section_start rest"
  shows "parse_files create (render_hunk h @ rest) files (Some f) old_path =
     parse_files create rest files (Some (f\<lparr>fp_hunks := fp_hunks f @ [h]\<rparr>)) old_path"
  by (subst render_hunk_split) (simp add: hunk_header_prefix parse_rendered_hunk' [OF assms])

lemma parse_files_hunks:
  assumes "list_all hunk_ok hs" "section_start rest"
  shows "parse_files create (concat (map render_hunk hs) @ rest) files (Some f) old_path =
     parse_files create rest files (Some (f\<lparr>fp_hunks := fp_hunks f @ hs\<rparr>)) old_path"
  using assms(1)
proof (induction hs arbitrary: f)
  case (Cons h hs)
  then have "section_start (concat (map render_hunk hs) @ rest)" "hunk_ok h"
    using assms(2) by (simp_all add: section_start_hunks)
  with Cons show ?case by (simp add: parse_files_hunk_step)
qed simp

text \<open>Paths.\<close>

lemma trim_plain:
  assumes "s \<noteq> []" "\<not> is_ws (hd s)" "\<not> is_ws (last s)" shows "trim s = s"
proof -
  have "trim_start s = s" using assms by (cases s) (simp_all add: trim_start_def)
  moreover have "trim_end s = s" using assms by (cases s rule: rev_cases) (simp_all add: trim_end_def)
  ultimately show ?thesis by (simp add: trim_def)
qed

lemma split_once_none: "d \<notin> set s \<Longrightarrow> split_once d s = None"
  by (induction s) auto

lemma plain_path_prefixed:
  assumes "plain_path p"
  shows "trim (''a/'' @ p) = ''a/'' @ p" "trim (''b/'' @ p) = ''b/'' @ p"
    "normalize_diff_path (''a/'' @ p) = Some p" "normalize_diff_path (''b/'' @ p) = Some p"
proof -
  show t: "trim (''a/'' @ p) = ''a/'' @ p" "trim (''b/'' @ p) = ''b/'' @ p"
    using assms by (intro trim_plain; simp add: plain_path_def is_ws_def)+
  have n: "split_once CHR 0x09 (''a/'' @ p) = None" "split_once CHR 0x09 (''b/'' @ p) = None"
    using assms by (intro split_once_none; simp add: plain_path_def)+
  show "normalize_diff_path (''a/'' @ p) = Some p" "normalize_diff_path (''b/'' @ p) = Some p"
    using t n by (simp_all add: normalize_diff_path_def strip_a_b_def strip_prefix_def)
qed

lemma dev_null: "trim ''/dev/null'' = ''/dev/null''" "normalize_diff_path ''/dev/null'' = None"
  by code_simp+

lemma parse_file_header:
  assumes "file_patch_ok f"
  shows "parse_files False (render_file f @ rest) files current old_path =
     parse_files False (concat (map render_hunk (fp_hunks f)) @ rest) (push_current current files)
       (Some (f\<lparr>fp_hunks := []\<rparr>)) None"
  using assms plain_path_prefixed [of "fp_path f"]
  by (cases f) (auto simp: render_file_def file_patch_ok_def strip_prefix_def resolve_diff_paths_def dev_null
      push_current_def)

lemma section_start_files: "section_start (concat (map render_file fs))"
  by (cases fs) (simp_all add: section_start_def render_file_def match_hunk_line_def)

lemma parse_rendered_files:
  "list_all file_patch_ok fs \<Longrightarrow>
   parse_files False (concat (map render_file fs)) files current old_path = Inr (push_current current files @ fs)"
proof (induction fs arbitrary: files current old_path)
  case (Cons f fs)
  then have "list_all hunk_ok (fp_hunks f)" by (simp add: file_patch_ok_def)
  with Cons show ?case
    by (cases f) (simp add: parse_file_header parse_files_hunks section_start_files push_current_def)
qed simp

text \<open>The text: every line closed by a line feed.\<close>

definition close_lines :: "string list \<Rightarrow> string" where
  "close_lines ls = concat (map (\<lambda>l. l @ [CHR 0x0A]) ls)"

definition line_ok :: "string \<Rightarrow> bool" where
  "line_ok l \<longleftrightarrow> CHR 0x0A \<notin> set l \<and> (l \<noteq> [] \<longrightarrow> last l \<noteq> CHR 0x0D)"

lemma split_on_close_lines:
  "list_all line_ok ls \<Longrightarrow> split_on CHR 0x0A (close_lines ls) = ls @ [[]]"
  by (induction ls) (simp_all add: close_lines_def line_ok_def split_on_append)

lemma str_lines_close_lines: "list_all line_ok ls \<Longrightarrow> str_lines (close_lines ls) = ls"
proof -
  assume a: "list_all line_ok ls"
  then have "map strip_cr ls = ls" by (induction ls) (auto simp: strip_cr_def line_ok_def)
  with a show ?thesis by (simp add: str_lines_def split_on_close_lines Let_def)
qed

fun hunk_line_text :: "hunk_line \<Rightarrow> string" where
  "hunk_line_text (Context s) = s"
| "hunk_line_text (Add s) = s"
| "hunk_line_text (Remove s) = s"

definition file_text_ok :: "file_patch \<Rightarrow> bool" where
  "file_text_ok f \<longleftrightarrow> CHR 0x0A \<notin> set (fp_path f)
     \<and> list_all (\<lambda>h. list_all (\<lambda>l. line_ok (hunk_line_text l)) (hk_lines h)) (fp_hunks f)"

definition diff_text :: "file_patch list \<Rightarrow> string" where
  "diff_text fs = close_lines (concat (map render_file fs))"

lemma line_ok_render: "line_ok (hunk_line_text l) \<Longrightarrow> line_ok (render_hunk_line l)"
  by (cases l) (auto simp: line_ok_def)

lemma lf_not_in_show [simp]: "CHR 0x0A \<notin> set (show_nat n)"
  by (rule show_nat_no) (simp add: is_ascii_digit_def)

lemma line_ok_hunk: "list_all (\<lambda>l. line_ok (hunk_line_text l)) (hk_lines h) \<Longrightarrow> list_all line_ok (render_hunk h)"
  by (auto simp: render_hunk_def list_all_iff line_ok_render) (simp_all add: line_ok_def render_range_def)

lemma line_ok_file:
  assumes "file_patch_ok f" "file_text_ok f" shows "list_all line_ok (render_file f)"
proof -
  have "list_all line_ok (concat (map render_hunk (fp_hunks f)))"
    using assms(2) line_ok_hunk by (auto simp: file_text_ok_def list_all_iff)
  moreover have "last (fp_path f) \<noteq> CHR 0x0D" "fp_path f \<noteq> []" "CHR 0x0A \<notin> set (fp_path f)"
    using assms by (auto simp: file_patch_ok_def plain_path_def is_ws_def file_text_ok_def)
  ultimately show ?thesis by (auto simp: render_file_def line_ok_def)
qed

text \<open>
  C31: A patch of file sections in the form of \<open>git diff\<close>, each hunk with the counts its lines have, is read back
  as it was written: \<open>parse_unified_diff_files\<close> returns the same files, flags, ranges and lines, in order.
  Lines of any content pass, also those that look like headers.
\<close>

theorem written_patch_is_read_back:
  assumes "list_all file_patch_ok fs" "list_all file_text_ok fs"
  shows "parse_unified_diff_files (diff_text fs) False = Inr fs"
proof -
  have "list_all line_ok (concat (map render_file fs))"
    using assms line_ok_file by (fastforce simp: list_all_iff)
  then show ?thesis
    using parse_rendered_files [OF assms(1), of "[]" None None]
    by (simp add: parse_unified_diff_files_def diff_text_def str_lines_close_lines push_current_def)
qed

theorem written_patch_is_read_back_witness:
  "parse_unified_diff_files (diff_text
     [\<lparr>fp_path = ''a.rs'', fp_hunks = [\<lparr>old_start = 3, old_count = 2, new_start = 3, new_count = 2,
         hk_lines = [Context ''x'', Remove ''-- y'', Add ''@@ z'']\<rparr>], fp_delete_after = False, fp_create_if_missing = False\<rparr>,
      \<lparr>fp_path = ''b.rs'', fp_hunks = [\<lparr>old_start = 0, old_count = 0, new_start = 1, new_count = 1,
         hk_lines = [Add ''w'']\<rparr>], fp_delete_after = False, fp_create_if_missing = True\<rparr>]) False =
   Inr [\<lparr>fp_path = ''a.rs'', fp_hunks = [\<lparr>old_start = 3, old_count = 2, new_start = 3, new_count = 2,
         hk_lines = [Context ''x'', Remove ''-- y'', Add ''@@ z'']\<rparr>], fp_delete_after = False, fp_create_if_missing = False\<rparr>,
      \<lparr>fp_path = ''b.rs'', fp_hunks = [\<lparr>old_start = 0, old_count = 0, new_start = 1, new_count = 1,
         hk_lines = [Add ''w'']\<rparr>], fp_delete_after = False, fp_create_if_missing = True\<rparr>]"
  by (rule written_patch_is_read_back) code_simp+

text \<open>A multi-file patch in the form of \<open>diff -u\<close>, with no \<open>diff --git\<close> line between its sections, is not read as
  one: the header lines of the second file are taken as lines of the hunk before them, and its hunks go to
  the first file. The arms for \<open>---\<close> and \<open>+++\<close> in the loop come after those for \<open>-\<close> and \<open>+\<close>, so no line
  reaches them.\<close>

lemma header_arms_are_dead:
  "prefix ''--- '' line \<or> prefix ''+++ '' line \<Longrightarrow> match_hunk_line line \<noteq> Break"
  by (cases line) (auto simp: match_hunk_line_def)

lemma plain_multi_file_patch_is_misread:
  "parse_unified_diff_files (close_lines
     [''--- a/x'', ''+++ b/x'', ''@@ -1 +1 @@'', ''-a'', ''+b'', ''--- a/y'', ''+++ b/y'', ''@@ -1 +1 @@'', ''-c'', ''+d'']) False
   = Inr [\<lparr>fp_path = ''x'', fp_hunks =
       [\<lparr>old_start = 1, old_count = 1, new_start = 1, new_count = 1,
         hk_lines = [Remove ''a'', Add ''b'', Remove ''-- a/y'', Add ''++ b/y'']\<rparr>,
        \<lparr>old_start = 1, old_count = 1, new_start = 1, new_count = 1, hk_lines = [Remove ''c'', Add ''d'']\<rparr>],
       fp_delete_after = False, fp_create_if_missing = False\<rparr>]"
  "header_files (inspect_patch_shape (close_lines
     [''--- a/x'', ''+++ b/x'', ''@@ -1 +1 @@'', ''-a'', ''+b'', ''--- a/y'', ''+++ b/y'', ''@@ -1 +1 @@'', ''-c'', ''+d'']))
   = [''x'', ''y'']"
  by code_simp+

end
