(* ===== verification/Patch_Hunks.thy ===== *)
theory Patch_Hunks
  imports Patch_Text
begin

text \<open>
  \<open>crates/tui/src/tools/apply_patch.rs\<close>, the hunk engine: the search for the place of a hunk, its application
  to the lines of a file, and the texts of the errors. \<open>cumulative_offset\<close> is an \<open>isize\<close>, an integer here: it is
  a difference of two vector lengths, which are below \<open>2 ^ 63\<close>. The lemmas show that a hunk goes to the nearest
  matching place, and that the hunks of a diff turn the old file into the new one.
\<close>

section \<open>Lines and files\<close>

definition contains_crlf :: "string \<Rightarrow> bool" where
  "contains_crlf s \<longleftrightarrow> sublist [CHR 0x0D, CHR 0x0A] s"

definition reassemble_preserving_newlines :: "string list \<Rightarrow> string \<Rightarrow> string" where
  "reassemble_preserving_newlines ls base_content =
     (if ls = [] then []
      else let terminator = (if contains_crlf base_content then [CHR 0x0D, CHR 0x0A] else [CHR 0x0A]);
               trailing = (base_content = [] \<or> suffix [CHR 0x0A] base_content);
               out = join_with terminator ls
           in if trailing then out @ terminator else out)"

section \<open>One hunk\<close>

definition HUNK_PREVIEW_LINES :: nat where "HUNK_PREVIEW_LINES = 4"

definition SNIPPET_RADIUS :: nat where "SNIPPET_RADIUS = 2"

datatype apply_hunk_error = NoMatch (expected_line: nat) (adjusted_line: nat) (no_match_offset: int)

definition matches_at_position :: "string list \<Rightarrow> string list \<Rightarrow> nat \<Rightarrow> bool" where
  "matches_at_position ls old_ls pos \<longleftrightarrow>
     pos + length old_ls \<le> length ls
     \<and> list_all (\<lambda>(file_line, expected). trim_end file_line = trim_end expected) (zip (drop pos ls) old_ls)"

text \<open>\<open>usize::checked_add_signed\<close>.\<close>

definition checked_add_signed :: "nat \<Rightarrow> int \<Rightarrow> nat option" where
  "checked_add_signed a d = (if 0 \<le> int a + d \<and> int a + d < 2 ^ 64 then Some (nat (int a + d)) else None)"

definition hunk_start_idx :: "string list \<Rightarrow> hunk \<Rightarrow> int \<Rightarrow> nat" where
  "hunk_start_idx ls h cumulative_offset =
     (let base_idx = (if old_start h > 0 then old_start h - 1 else 0)
      in min (case checked_add_signed base_idx cumulative_offset of Some n \<Rightarrow> n | None \<Rightarrow> 0) (length ls))"

definition search_range :: "nat \<Rightarrow> nat \<Rightarrow> nat \<Rightarrow> nat list" where
  "search_range start_idx fuzz len =
     (if fuzz = 0 then [start_idx] else [start_idx - fuzz ..< Suc (min (start_idx + fuzz) len)])"

text \<open>The loop over the fuzz, with the place found and the fuzz it took.\<close>

fun search_hunk :: "string list \<Rightarrow> string list \<Rightarrow> nat \<Rightarrow> nat list \<Rightarrow> (nat \<times> nat) option" where
  "search_hunk ls old_ls start_idx [] = None"
| "search_hunk ls old_ls start_idx (fuzz # fuzzes) =
     (case find (matches_at_position ls old_ls) (search_range start_idx fuzz (length ls)) of
        Some pos \<Rightarrow> Some (pos, fuzz)
      | None \<Rightarrow> search_hunk ls old_ls start_idx fuzzes)"

definition splice :: "string list \<Rightarrow> nat \<Rightarrow> nat \<Rightarrow> string list \<Rightarrow> string list" where
  "splice ls pos end_pos new_ls = take pos ls @ new_ls @ drop end_pos ls"

definition apply_hunk ::
  "string list \<Rightarrow> hunk \<Rightarrow> nat \<Rightarrow> int \<Rightarrow> apply_hunk_error + nat \<times> string list \<times> int" where
  "apply_hunk ls h max_fuzz cumulative_offset =
     (let old_ls = old_lines_of (hk_lines h);
          new_ls = new_lines_of (hk_lines h);
          start_idx = hunk_start_idx ls h cumulative_offset
      in case search_hunk ls old_ls start_idx [0 ..< Suc max_fuzz] of
           Some (pos, fuzz) \<Rightarrow>
             Inr (fuzz, splice ls pos (pos + length old_ls) new_ls,
                  cumulative_offset + (int (length new_ls) - int (length old_ls)))
         | None \<Rightarrow>
             if old_ls = [] \<and> (ls = [] \<or> start_idx \<ge> length ls)
             then Inr (0, ls @ new_ls, cumulative_offset + int (length new_ls))
             else Inl (NoMatch (old_start h) (start_idx + 1) cumulative_offset))"

section \<open>Error texts\<close>

text \<open>\<open>Display\<close> of a signed integer with a sign, and of a number padded on the left to a width.\<close>

definition show_signed :: "int \<Rightarrow> string" where
  "show_signed n = (if n < 0 then CHR ''-'' # show_nat (nat (- n)) else CHR ''+'' # show_nat (nat n))"

definition pad_left :: "nat \<Rightarrow> string \<Rightarrow> string" where
  "pad_left w s = replicate (w - length s) CHR '' '' @ s"

definition expected_text :: "hunk_line \<Rightarrow> string option" where
  "expected_text l = (case l of Context s \<Rightarrow> Some ('' '' @ s) | Remove s \<Rightarrow> Some (''-'' @ s) | Add _ \<Rightarrow> None)"

definition preview_expected_lines :: "hunk \<Rightarrow> nat \<Rightarrow> string list" where
  "preview_expected_lines h limit =
     (let preview = map (\<lambda>t. ''  '' @ t) (take limit (List.map_filter expected_text (hk_lines h)))
      in if preview = [] then [''  <no context lines in hunk>''] else preview)"

definition snippet_around :: "string list \<Rightarrow> nat \<Rightarrow> nat \<Rightarrow> string list" where
  "snippet_around ls line_1_based radius =
     (if ls = [] then [''  <empty file>'']
      else let center = min (line_1_based - 1) (length ls - 1);
               start = center - radius;
               stop = min (center + radius) (length ls - 1)
           in map (\<lambda>i. ''  '' @ pad_left 4 (show_nat (i + 1)) @ '': '' @ ls ! i) [start ..< Suc stop])"

definition format_hunk_no_match_error :: "string list \<Rightarrow> hunk \<Rightarrow> apply_hunk_error \<Rightarrow> nat \<Rightarrow> string" where
  "format_hunk_no_match_error ls h err max_fuzz =
     (case err of NoMatch expected adjusted offset \<Rightarrow>
        ''could not find matching context near line '' @ show_nat expected @ '' (searched around line ''
        @ show_nat adjusted @ '' with offset '' @ show_signed offset @ '' and fuzz up to '' @ show_nat max_fuzz
        @ ''). Expected context preview:'' @ [CHR 0x0A]
        @ join_with [CHR 0x0A] (preview_expected_lines h HUNK_PREVIEW_LINES) @ [CHR 0x0A]
        @ ''File snippet near line '' @ show_nat adjusted @ '':'' @ [CHR 0x0A]
        @ join_with [CHR 0x0A] (snippet_around ls adjusted SNIPPET_RADIUS) @ [CHR 0x0A]
        @ ''Hints: ensure the patch matches the current file contents, increase ''
        @ tick ''fuzz'' @ '', or regenerate the patch.'')"

section \<open>The hunks of a file\<close>

record hunk_apply_stats =
  ha_hunks_applied :: nat
  ha_fuzz_used :: nat
  ha_hunks_with_fuzz :: nat

definition count_hunk :: "nat \<Rightarrow> hunk_apply_stats \<Rightarrow> hunk_apply_stats" where
  "count_hunk fuzz_used s =
     \<lparr>ha_hunks_applied = ha_hunks_applied s + 1, ha_fuzz_used = ha_fuzz_used s + fuzz_used,
      ha_hunks_with_fuzz = (if fuzz_used > 0 then ha_hunks_with_fuzz s + 1 else ha_hunks_with_fuzz s)\<rparr>"

text \<open>The loop: the hunks left, the index of the first of them, the lines and the offset so far.\<close>

fun apply_hunks_from ::
  "nat \<Rightarrow> nat \<Rightarrow> string \<Rightarrow> hunk list \<Rightarrow> nat \<Rightarrow> string list \<Rightarrow> int \<Rightarrow> hunk_apply_stats
     \<Rightarrow> tool_error + string list \<times> hunk_apply_stats" where
  "apply_hunks_from fuzz n_hunks file_label [] idx ls off stats = Inr (ls, stats)"
| "apply_hunks_from fuzz n_hunks file_label (h # hs) idx ls off stats =
     (case apply_hunk ls h fuzz off of
        Inr (fuzz_used, ls', off') \<Rightarrow>
          apply_hunks_from fuzz n_hunks file_label hs (idx + 1) ls' off' (count_hunk fuzz_used stats)
      | Inl e \<Rightarrow>
          Inl (ExecutionFailed (''Failed to apply hunk '' @ show_nat (idx + 1) @ ''/'' @ show_nat n_hunks
            @ '' for '' @ tick file_label @ '': '' @ format_hunk_no_match_error ls h e fuzz)))"

definition apply_hunks_to_lines ::
  "string list \<Rightarrow> hunk list \<Rightarrow> nat \<Rightarrow> string \<Rightarrow> tool_error + string list \<times> hunk_apply_stats" where
  "apply_hunks_to_lines ls hunks fuzz file_label =
     apply_hunks_from fuzz (length hunks) file_label hunks 0 ls 0
       \<lparr>ha_hunks_applied = 0, ha_fuzz_used = 0, ha_hunks_with_fuzz = 0\<rparr>"

section \<open>The place of a hunk\<close>

lemma matches_refl: "matches_at_position (pre @ old_ls @ post) old_ls (length pre)"
  by (auto simp: matches_at_position_def list_all_iff zip_append1 set_zip)

lemma matches_bound: "matches_at_position ls old_ls pos \<Longrightarrow> pos + length old_ls \<le> length ls"
  by (simp add: matches_at_position_def)

text \<open>The distance of a place from the expected one, as the search counts it.\<close>

definition distance :: "nat \<Rightarrow> nat \<Rightarrow> nat" where
  "distance a b = (if a \<le> b then b - a else a - b)"

lemma search_range_set:
  assumes "start_idx \<le> len"
  shows "set (search_range start_idx fuzz len) = {pos. pos \<le> len \<and> distance start_idx pos \<le> fuzz}"
  using assms by (auto simp: search_range_def distance_def split: if_splits)

lemma search_hunk_spec:
  assumes "start_idx \<le> length ls" "\<forall>pos. matches_at_position ls old_ls pos \<longrightarrow> lo \<le> distance start_idx pos"
  shows "case search_hunk ls old_ls start_idx [lo ..< hi] of
      None \<Rightarrow> \<forall>pos. matches_at_position ls old_ls pos \<longrightarrow> hi \<le> distance start_idx pos
    | Some (pos, fuzz) \<Rightarrow> matches_at_position ls old_ls pos \<and> fuzz = distance start_idx pos \<and> fuzz < hi
        \<and> (\<forall>p. matches_at_position ls old_ls p \<longrightarrow> fuzz \<le> distance start_idx p)"
  using assms(2)
proof (induction "hi - lo" arbitrary: lo)
  case 0
  then have "[lo ..< hi] = []" by simp
  with 0 show ?case by force
next
  case (Suc k)
  then have lt: "lo < hi" by simp
  note rng = search_range_set [OF assms(1)]
  have up: "[lo ..< hi] = lo # [Suc lo ..< hi]" using lt by (rule upt_conv_Cons)
  show ?case
  proof (cases "find (matches_at_position ls old_ls) (search_range start_idx lo (length ls))")
    case None
    then have "\<forall>pos. matches_at_position ls old_ls pos \<longrightarrow> lo < distance start_idx pos"
      using rng [of lo] by (fastforce simp: find_None_iff dest: matches_bound)
    then have "\<forall>pos. matches_at_position ls old_ls pos \<longrightarrow> Suc lo \<le> distance start_idx pos" by (simp add: Suc_le_eq)
    from Suc.hyps(1) [OF _ this] Suc.hyps(2) None show ?thesis unfolding up by simp
  next
    case (Some pos)
    then have "matches_at_position ls old_ls pos" "pos \<in> set (search_range start_idx lo (length ls))"
      by (auto simp: find_Some_iff)
    then have "matches_at_position ls old_ls pos \<and> distance start_idx pos = lo"
      using Suc.prems rng [of lo] by (auto intro: antisym)
    with Some Suc.prems lt show ?thesis unfolding up by auto
  qed
qed

lemma hunk_start_le: "hunk_start_idx ls h off \<le> length ls"
  by (simp add: hunk_start_idx_def Let_def)

lemma matches_Nil: "matches_at_position ls [] pos \<longleftrightarrow> pos \<le> length ls"
  by (simp add: matches_at_position_def)

lemma search_hunk_Nil:
  "start_idx \<le> length ls \<Longrightarrow> search_hunk ls [] start_idx [0 ..< Suc n] = Some (start_idx, 0)"
  by (subst upt_conv_Cons) (simp_all add: search_range_def matches_Nil)

text \<open>The special case for hunks that only add is dead: such a hunk matches where it is looked for first.\<close>

lemma append_case_is_dead:
  "apply_hunk ls h max_fuzz off =
     (let old_ls = old_lines_of (hk_lines h);
          new_ls = new_lines_of (hk_lines h);
          start_idx = hunk_start_idx ls h off
      in case search_hunk ls old_ls start_idx [0 ..< Suc max_fuzz] of
           Some (pos, fuzz) \<Rightarrow>
             Inr (fuzz, splice ls pos (pos + length old_ls) new_ls,
                  off + (int (length new_ls) - int (length old_ls)))
         | None \<Rightarrow> Inl (NoMatch (old_start h) (start_idx + 1) off))"
  using search_hunk_Nil [OF hunk_start_le, of ls h off max_fuzz]
  by (auto simp: apply_hunk_def Let_def split: option.splits)

text \<open>
  C35: A hunk is applied at the place nearest to the expected one where its context and removed lines stand, up to
  white space at the ends of lines, and the fuzz reported is the distance to it. The lines of the file outside the
  hunk are kept and the offset grows by the change in length.
\<close>

theorem hunk_goes_to_the_nearest_match:
  assumes "apply_hunk ls h max_fuzz off = Inr (fuzz, ls', off')"
  shows "\<exists>pos. matches_at_position ls (old_lines_of (hk_lines h)) pos
      \<and> fuzz = distance (hunk_start_idx ls h off) pos \<and> fuzz \<le> max_fuzz
      \<and> (\<forall>p. matches_at_position ls (old_lines_of (hk_lines h)) p \<longrightarrow> fuzz \<le> distance (hunk_start_idx ls h off) p)
      \<and> ls' = take pos ls @ new_lines_of (hk_lines h) @ drop (pos + length (old_lines_of (hk_lines h))) ls
      \<and> off' - off = int (length ls') - int (length ls)"
proof -
  let ?o = "old_lines_of (hk_lines h)" and ?s = "hunk_start_idx ls h off"
  from assms obtain pos where p: "search_hunk ls ?o ?s [0 ..< Suc max_fuzz] = Some (pos, fuzz)"
    and r: "ls' = splice ls pos (pos + length ?o) (new_lines_of (hk_lines h))"
      "off' = off + (int (length (new_lines_of (hk_lines h))) - int (length ?o))"
    by (auto simp: append_case_is_dead Let_def split: option.splits)
  then show ?thesis
    using search_hunk_spec [OF hunk_start_le, of ls ?o 0 h off "Suc max_fuzz"]
    by (auto simp: splice_def less_Suc_eq_le dest: matches_bound intro!: exI [of _ pos])
qed

theorem hunk_goes_to_the_nearest_match_witness:
  "\<exists>pos. matches_at_position [''a'', ''b''] [''b''] pos \<and> 1 = distance 0 pos
     \<and> [''a'', ''c''] = take pos [''a'', ''b''] @ [''c''] @ drop (pos + 1) [''a'', ''b'']"
proof -
  let ?h = "\<lparr>old_start = 1, old_count = 1, new_start = 1, new_count = 1, hk_lines = [Remove ''b'', Add ''c'']\<rparr>"
  have r: "apply_hunk [''a'', ''b''] ?h 3 0 = Inr (1, [''a'', ''c''], 0)" by code_simp
  have s: "hunk_start_idx [''a'', ''b''] ?h 0 = 0" by code_simp
  show ?thesis
    using hunk_goes_to_the_nearest_match [OF r, unfolded s] by (rule ex_forward) (simp only: hunk.simps
      old_lines_of.simps new_lines_of.simps list.size append.simps add_0_left One_nat_def)
qed

text \<open>
  A hunk is refused exactly when no place within the fuzz matches it, and the error names the line of the
  header and the line the search started from.
\<close>

theorem hunk_is_refused_iff_no_match:
  "apply_hunk ls h max_fuzz off = Inl e \<longleftrightarrow>
     (\<nexists>pos. matches_at_position ls (old_lines_of (hk_lines h)) pos
        \<and> distance (hunk_start_idx ls h off) pos \<le> max_fuzz)
     \<and> e = NoMatch (old_start h) (hunk_start_idx ls h off + 1) off"
  using search_hunk_spec [OF hunk_start_le, of ls "old_lines_of (hk_lines h)" 0 h off "Suc max_fuzz"]
  by (force simp: append_case_is_dead Let_def Suc_le_eq not_le split: option.splits)

section \<open>Diffs of a file\<close>

text \<open>An edit script: runs of untouched lines, each followed by the lines of a hunk, and the lines after the
  last hunk. It has an old text, a new text, and the hunks a diff prints for it.\<close>

type_synonym edit = "string list \<times> hunk_line list"

definition old_text :: "edit list \<Rightarrow> string list \<Rightarrow> string list" where
  "old_text es tail = concat (map (\<lambda>(gap, hk). gap @ old_lines_of hk) es) @ tail"

definition new_text :: "edit list \<Rightarrow> string list \<Rightarrow> string list" where
  "new_text es tail = concat (map (\<lambda>(gap, hk). gap @ new_lines_of hk) es) @ tail"

text \<open>The line a range starts at: the line before it when the range is empty.\<close>

definition range_start :: "nat \<Rightarrow> nat \<Rightarrow> nat" where
  "range_start pos count = (if count = 0 then pos else pos + 1)"

fun hunks_of :: "nat \<Rightarrow> nat \<Rightarrow> edit list \<Rightarrow> hunk list" where
  "hunks_of i j [] = []"
| "hunks_of i j ((gap, hk) # es) =
     (let old_n = length (old_lines_of hk); new_n = length (new_lines_of hk)
      in \<lparr>old_start = range_start (i + length gap) old_n, old_count = old_n,
          new_start = range_start (j + length gap) new_n, new_count = new_n, hk_lines = hk\<rparr>
         # hunks_of (i + length gap + old_n) (j + length gap + new_n) es)"

definition touches_old :: "edit \<Rightarrow> bool" where
  "touches_old e \<longleftrightarrow> old_lines_of (snd e) \<noteq> []"

lemma text_simps [simp]:
  "old_text [] tail = tail" "new_text [] tail = tail"
  "old_text ((gap, hk) # es) tail = gap @ old_lines_of hk @ old_text es tail"
  "new_text ((gap, hk) # es) tail = gap @ new_lines_of hk @ new_text es tail"
  by (simp_all add: old_text_def new_text_def)

lemma apply_hunk_in_place:
  assumes "hk_lines h = hk" "old_lines_of hk \<noteq> []" "old_start h = i + 1"
    "int (length pre) = int i + off" "length pre < 2 ^ 64"
  shows "apply_hunk (pre @ old_lines_of hk @ post) h max_fuzz off =
     Inr (0, pre @ new_lines_of hk @ post, off + (int (length (new_lines_of hk)) - int (length (old_lines_of hk))))"
proof -
  let ?ls = "pre @ old_lines_of hk @ post"
  have "int (length pre) < 2 ^ 64" using assms(5) is_usize_nat [of "length pre"] by (simp add: is_usize_def)
  then have "checked_add_signed i off = Some (length pre)"
    using assms(4) by (simp add: checked_add_signed_def)
  then have s: "hunk_start_idx ?ls h off = length pre"
    using assms(3) by (simp add: hunk_start_idx_def)
  have "search_hunk ?ls (old_lines_of hk) (length pre) [0 ..< Suc max_fuzz] = Some (length pre, 0)"
    by (subst upt_conv_Cons) (simp_all add: search_range_def matches_refl)
  with s assms(1) show ?thesis by (simp add: append_case_is_dead splice_def Let_def)
qed

lemma apply_hunks_in_place:
  assumes "list_all touches_old es" "length (pre @ new_text es tail) < 2 ^ 64"
  shows "apply_hunks_from fuzz n file_label (hunks_of i j es) idx (pre @ old_text es tail)
      (int (length pre) - int i) stats =
    Inr (pre @ new_text es tail, stats\<lparr>ha_hunks_applied := ha_hunks_applied stats + length es\<rparr>)"
  using assms
proof (induction es arbitrary: pre i j idx stats)
  case (Cons e es)
  obtain gap hk where e: "e = (gap, hk)" by fastforce
  let ?h = "hd (hunks_of i j (e # es))" and ?off = "int (length pre) - int i"
  have t: "old_lines_of hk \<noteq> []" using Cons.prems(1) by (simp add: e touches_old_def)
  have b: "length (pre @ gap) < 2 ^ 64" using Cons.prems(2) by (simp add: e)
  have "apply_hunk ((pre @ gap) @ old_lines_of hk @ old_text es tail) ?h fuzz ?off =
      Inr (0, (pre @ gap) @ new_lines_of hk @ old_text es tail,
        ?off + (int (length (new_lines_of hk)) - int (length (old_lines_of hk))))"
    using t b by (intro apply_hunk_in_place [where i = "i + length gap"]) (simp_all add: e Let_def range_start_def)
  then show ?case
    using Cons.IH [of "pre @ gap @ new_lines_of hk" "i + length gap + length (old_lines_of hk)"] Cons.prems
    by (simp add: e Let_def count_hunk_def algebra_simps)
qed simp

text \<open>
  The hunks a diff prints for an edit script, applied to the old text, give the new text: no fuzz is used, every
  hunk is counted, and the offsets of earlier hunks put the later ones in their place. Every hunk has a context
  line or a removed line.
\<close>

theorem diff_turns_old_into_new:
  assumes "list_all touches_old es" "length (new_text es tail) < 2 ^ 64"
  shows "apply_hunks_to_lines (old_text es tail) (hunks_of 0 0 es) fuzz file_label =
    Inr (new_text es tail, \<lparr>ha_hunks_applied = length es, ha_fuzz_used = 0, ha_hunks_with_fuzz = 0\<rparr>)"
  using apply_hunks_in_place [of es "[]" tail fuzz "length (hunks_of 0 0 es)" file_label 0 0 0] assms
  by (simp add: apply_hunks_to_lines_def)

theorem diff_turns_old_into_new_witness:
  "apply_hunks_to_lines [''a'', ''b'', ''c'', ''d'']
     (hunks_of 0 0 [([], [Add ''x'', Add ''y'', Context ''a'']), ([''b''], [Remove ''c''])]) 3 ''f''
   = Inr ([''x'', ''y'', ''a'', ''b'', ''d''], \<lparr>ha_hunks_applied = 2, ha_fuzz_used = 0, ha_hunks_with_fuzz = 0\<rparr>)"
  using diff_turns_old_into_new [of "[([], [Add ''x'', Add ''y'', Context ''a'']), ([''b''], [Remove ''c''])]" "[''d'']" 3 "''f''"]
  by (simp add: touches_old_def)

text \<open>A hunk without context that only adds lines after line \<open>n\<close>, as \<open>diff -U0\<close> prints it, is applied one line too
  early: the empty old range starts at the line before it, and \<open>base_idx\<close> subtracts one more.\<close>

lemma insertion_lands_one_line_early:
  "hunks_of 0 0 [([''a'', ''b''], [Add ''x''])] =
     [\<lparr>old_start = 2, old_count = 0, new_start = 3, new_count = 1, hk_lines = [Add ''x'']\<rparr>]"
  "new_text [([''a'', ''b''], [Add ''x''])] [''c''] = [''a'', ''b'', ''x'', ''c'']"
  "apply_hunks_to_lines (old_text [([''a'', ''b''], [Add ''x''])] [''c''])
     (hunks_of 0 0 [([''a'', ''b''], [Add ''x''])]) 3 ''f''
   = Inr ([''a'', ''x'', ''b'', ''c''], \<lparr>ha_hunks_applied = 1, ha_fuzz_used = 0, ha_hunks_with_fuzz = 0\<rparr>)"
  by code_simp+

text \<open>The new lines are the patch's, also those of context: white space at the end of a context line in the file is
  replaced by what the patch has there.\<close>

lemma context_is_rewritten:
  "apply_hunks_to_lines [''a '', ''b'']
     [\<lparr>old_start = 1, old_count = 2, new_start = 1, new_count = 2, hk_lines = [Context ''a'', Remove ''b'', Add ''c'']\<rparr>] 0 ''f''
   = Inr ([''a'', ''c''], \<lparr>ha_hunks_applied = 1, ha_fuzz_used = 0, ha_hunks_with_fuzz = 0\<rparr>)"
  by code_simp

section \<open>Line ends\<close>

lemma split_on_no: "p \<in> set (split_on d s) \<Longrightarrow> d \<notin> set p"
  by (induction s arbitrary: p) (auto split: list.splits if_splits)

lemma join_split_on: "join_with [d] (split_on d s) = s"
proof (induction s)
  case (Cons c cs)
  obtain w ws where w: "split_on d cs = w # ws" by (cases "split_on d cs") simp_all
  with Cons.IH show ?case by (cases ws) (auto simp: w)
qed simp

lemma contains_crlf_Cons:
  "contains_crlf (c # cs) \<longleftrightarrow> c = CHR 0x0D \<and> prefix [CHR 0x0A] cs \<or> contains_crlf cs"
  by (auto simp: contains_crlf_def sublist_Cons_right)

lemma contains_crlf_split: "contains_crlf s \<longleftrightarrow> (\<exists>p \<in> set (butlast (split_on CHR 0x0A s)). suffix [CHR 0x0D] p)"
proof (induction s)
  case Nil
  then show ?case by (simp add: contains_crlf_def)
next
  case (Cons c cs)
  obtain w ws where w: "split_on CHR 0x0A cs = w # ws" by (cases "split_on CHR 0x0A cs") simp_all
  have n: "prefix [CHR 0x0A] cs \<longleftrightarrow> w = [] \<and> ws \<noteq> []"
    using w by (cases cs) (auto split: if_splits list.splits)
  show ?case
    using Cons.IH by (auto simp: contains_crlf_Cons w n suffix_Cons)
qed

text \<open>Content whose line ends are all alike, and the same content with its lines separated.\<close>

definition uniform_ends :: "string \<Rightarrow> bool" where
  "uniform_ends s \<longleftrightarrow>
     (let ps = butlast (split_on CHR 0x0A s)
      in list_all (suffix [CHR 0x0D]) ps \<or> list_all (\<lambda>p. \<not> suffix [CHR 0x0D] p) ps)"

lemma join_crlf:
  "join_with [CHR 0x0A] (map (\<lambda>q. q @ [CHR 0x0D]) qs @ [r]) = join_with [CHR 0x0D, CHR 0x0A] (qs @ [r])"
proof (induction qs)
  case (Cons q qs)
  then show ?case by (cases qs) simp_all
qed simp

lemma join_last: "qs \<noteq> [] \<Longrightarrow> join_with sep (qs @ [[]]) = join_with sep qs @ sep"
  by (simp add: join_with_append)

lemma suffix_single: "suffix [c] s \<longleftrightarrow> s \<noteq> [] \<and> last s = c"
  by (cases s rule: rev_cases) (auto simp: suffix_def)

lemma suffix_last_line:
  assumes "CHR 0x0A \<notin> set r"
  shows "suffix [CHR 0x0A] (join_with [CHR 0x0A] (qs @ [r])) \<longleftrightarrow> r = [] \<and> qs \<noteq> []"
proof (cases "r = []")
  case True
  then show ?thesis by (cases "qs = []") (simp_all add: join_last)
next
  case False
  then obtain r' c where "r = r' @ [c]" by (cases r rule: rev_cases) auto
  with assms show ?thesis by (cases "qs = []") (auto simp: join_with_append suffix_single)
qed

lemma reassemble_lines:
  assumes "base \<noteq> []" "suffix [CHR 0x0A] base \<longleftrightarrow> r = []" "qs \<noteq> [] \<or> r \<noteq> []"
  shows "reassemble_preserving_newlines (qs @ (if r = [] then [] else [r])) base =
     join_with (if contains_crlf base then [CHR 0x0D, CHR 0x0A] else [CHR 0x0A]) (qs @ [r])"
  using assms by (cases "r = []") (auto simp: reassemble_preserving_newlines_def Let_def join_last)

text \<open>
  A patch that leaves the lines of a file as they are leaves its bytes as they are: taking the content apart
  with \<open>lines\<close> and putting it together again gives the content, final line feed and kind of line end included,
  when all its line ends are of one kind.
\<close>

theorem unchanged_lines_keep_the_bytes:
  assumes "uniform_ends base"
  shows "reassemble_preserving_newlines (str_lines base) base = base"
proof (cases "base = []")
  case True
  then show ?thesis by (simp add: str_lines_def reassemble_preserving_newlines_def)
next
  case False
  let ?ps = "split_on CHR 0x0A base"
  define qs r where "qs = butlast ?ps" and "r = last ?ps"
  have ps: "?ps = qs @ [r]" by (simp add: qs_def r_def)
  have base: "join_with [CHR 0x0A] (qs @ [r]) = base" using join_split_on [of "CHR 0x0A" base] by (simp add: ps)
  have r: "CHR 0x0A \<notin> set r" by (rule split_on_no [of r _ base]) (simp add: ps)
  have ne: "qs \<noteq> [] \<or> r \<noteq> []" using base False by auto
  then have suf: "suffix [CHR 0x0A] base \<longleftrightarrow> r = []" using suffix_last_line [OF r, of qs] base by auto
  have ls: "str_lines base = map strip_cr qs @ (if r = [] then [] else [r])"
    by (simp add: str_lines_def Let_def ps)
  show ?thesis
  proof (cases "contains_crlf base")
    case True
    then have "list_all (suffix [CHR 0x0D]) qs"
      using assms by (auto simp: uniform_ends_def contains_crlf_split ps list_all_iff)
    then have "map (\<lambda>q. q @ [CHR 0x0D]) (map strip_cr qs) = qs"
      by (induction qs) (auto simp: strip_cr_def suffix_def)
    then have "join_with [CHR 0x0D, CHR 0x0A] (map strip_cr qs @ [r]) = base"
      using join_crlf [of "map strip_cr qs" r] base by simp
    with True ne suf False show ?thesis
      using reassemble_lines [of base r "map strip_cr qs"] by (simp add: ls)
  next
    case nf: False
    then have "\<forall>q \<in> set qs. \<not> suffix [CHR 0x0D] q" by (simp add: contains_crlf_split ps)
    then have "map strip_cr qs = qs"
      by (intro map_idI) (auto simp: strip_cr_def suffix_single)
    with nf ne suf False base show ?thesis
      using reassemble_lines [of base r qs] by (simp add: ls)
  qed
qed

theorem unchanged_lines_keep_the_bytes_witness:
  "reassemble_preserving_newlines (str_lines [CHR ''a'', CHR 0x0D, CHR 0x0A, CHR 0x0D, CHR 0x0A, CHR ''b''])
     [CHR ''a'', CHR 0x0D, CHR 0x0A, CHR 0x0D, CHR 0x0A, CHR ''b'']
   = [CHR ''a'', CHR 0x0D, CHR 0x0A, CHR 0x0D, CHR 0x0A, CHR ''b'']"
  by (rule unchanged_lines_keep_the_bytes) code_simp

text \<open>Content with both kinds of line ends is rewritten to one, whatever the patch changes.\<close>

lemma mixed_line_ends_are_rewritten:
  "reassemble_preserving_newlines (str_lines [CHR ''a'', CHR 0x0D, CHR 0x0A, CHR ''b'', CHR 0x0A])
     [CHR ''a'', CHR 0x0D, CHR 0x0A, CHR ''b'', CHR 0x0A]
   = [CHR ''a'', CHR 0x0D, CHR 0x0A, CHR ''b'', CHR 0x0D, CHR 0x0A]"
  by code_simp

end
