(* ===== verification/Patch_Write.thy ===== *)
theory Patch_Write
  imports Patch_Hunks
begin

text \<open>
  \<open>crates/tui/src/tools/apply_patch.rs\<close>, the writing half, with \<open>write_atomic\<close> of \<open>crates/tui/src/utils.rs\<close>: from
  a checked patch to the list of pending writes, the writes, their rollback, and the tool's \<open>execute\<close>.

  A path is the list of its components below the root, as \<open>resolve_path\<close> returns it (absolute and canonical; the
  resolution itself is the parameter \<open>resolve\<close>). The file system is a map from paths to nodes with the number of
  operations tried so far; \<open>faults\<close> lists the operations that fail without effect, by their number, which may be any. \<open>io_text\<close> is the message of the operating system. A temporary file left by a failed
  \<open>write_atomic\<close> is not a node of the model. The diagnostics of the language server appended to the result and its
  JSON form are not modelled.
\<close>

section \<open>The file system\<close>

type_synonym fpath = "string list"

datatype node = File string | Directory

datatype io_error = NotFound | AlreadyExists | NotADirectory | IsADirectory | NoParent | OsFault string

record fs =
  fs_nodes :: "fpath \<Rightarrow> node option"
  fs_ops :: nat

record io_env =
  faults :: "(nat \<times> string) list"
  io_text :: "io_error \<Rightarrow> string"

definition file_at :: "fs \<Rightarrow> fpath \<Rightarrow> string option" where
  "file_at fs p = (case fs_nodes fs p of Some (File c) \<Rightarrow> Some c | _ \<Rightarrow> None)"

definition display_path :: "fpath \<Rightarrow> string" where
  "display_path p = CHR ''/'' # join_with ''/'' p"

definition path_parent :: "fpath \<Rightarrow> fpath option" where
  "path_parent p = (if p = [] then None else Some (butlast p))"

definition path_exists :: "fs \<Rightarrow> fpath \<Rightarrow> bool" where
  "path_exists fs p \<longleftrightarrow> fs_nodes fs p \<noteq> None"

text \<open>One operation: the fault of its turn, or its effect.\<close>

definition io_op :: "io_env \<Rightarrow> fs \<Rightarrow> io_error + (fpath \<Rightarrow> node option) \<Rightarrow> (io_error + unit) \<times> fs" where
  "io_op env fs effect =
     (let fs' = fs\<lparr>fs_ops := fs_ops fs + 1\<rparr>
      in case map_of (faults env) (fs_ops fs) of
           Some msg \<Rightarrow> (Inl (OsFault msg), fs')
         | None \<Rightarrow> (case effect of Inl e \<Rightarrow> (Inl e, fs') | Inr nodes \<Rightarrow> (Inr (), fs'\<lparr>fs_nodes := nodes\<rparr>)))"

text \<open>\<open>fs::create_dir_all\<close>: the missing directories above and at the path.\<close>

definition is_file :: "node option \<Rightarrow> bool" where
  "is_file n \<longleftrightarrow> (case n of Some (File _) \<Rightarrow> True | _ \<Rightarrow> False)"

definition mkdirs :: "(fpath \<Rightarrow> node option) \<Rightarrow> fpath \<Rightarrow> fpath \<Rightarrow> node option" where
  "mkdirs nodes p = (\<lambda>q. if prefix q p \<and> nodes q = None then Some Directory else nodes q)"

definition create_dir_all :: "io_env \<Rightarrow> fs \<Rightarrow> fpath \<Rightarrow> (io_error + unit) \<times> fs" where
  "create_dir_all env fs p =
     io_op env fs
       (if is_file (fs_nodes fs p) then Inl AlreadyExists
        else if list_ex (\<lambda>q. is_file (fs_nodes fs q)) (prefixes p) then Inl NotADirectory
        else Inr (mkdirs (fs_nodes fs) p))"

definition write_atomic :: "io_env \<Rightarrow> fs \<Rightarrow> fpath \<Rightarrow> string \<Rightarrow> (io_error + unit) \<times> fs" where
  "write_atomic env fs p contents =
     io_op env fs
       (case path_parent p of
          None \<Rightarrow> Inl NoParent
        | Some parent \<Rightarrow>
            (case fs_nodes fs parent of
               None \<Rightarrow> Inl NotFound
             | Some (File _) \<Rightarrow> Inl NotADirectory
             | Some Directory \<Rightarrow>
                 if fs_nodes fs p = Some Directory then Inl IsADirectory
                 else Inr ((fs_nodes fs)(p := Some (File contents)))))"

definition remove_file :: "io_env \<Rightarrow> fs \<Rightarrow> fpath \<Rightarrow> (io_error + unit) \<times> fs" where
  "remove_file env fs p =
     io_op env fs
       (case fs_nodes fs p of
          None \<Rightarrow> Inl NotFound
        | Some Directory \<Rightarrow> Inl IsADirectory
        | Some (File _) \<Rightarrow> Inr ((fs_nodes fs)(p := None)))"

definition read_file_content :: "io_env \<Rightarrow> fs \<Rightarrow> fpath \<Rightarrow> (tool_error + string) \<times> fs" where
  "read_file_content env fs p =
     (let failed = (\<lambda>e. Inl (ExecutionFailed (''Failed to read '' @ display_path p @ '': '' @ io_text env e)));
          fs' = fs\<lparr>fs_ops := fs_ops fs + 1\<rparr>
      in case map_of (faults env) (fs_ops fs) of
           Some msg \<Rightarrow> (failed (OsFault msg), fs')
         | None \<Rightarrow>
             (case fs_nodes fs p of
                None \<Rightarrow> (failed NotFound, fs')
              | Some Directory \<Rightarrow> (failed IsADirectory, fs')
              | Some (File c) \<Rightarrow> (Inr c, fs')))"

section \<open>Pending writes\<close>

record pending_write =
  pw_path :: fpath
  pw_content :: "string option"
  pw_original :: "string option"

record file_summary =
  sm_path :: string
  sm_hunks :: nat
  sm_hunks_applied :: nat
  sm_fuzz_used :: nat
  sm_hunks_with_fuzz :: nat
  sm_created :: bool
  sm_deleted :: bool

record patch_stats =
  ps_files_applied :: nat
  ps_files_total :: nat
  ps_hunks_applied :: nat
  ps_hunks_total :: nat
  ps_fuzz_used :: nat
  ps_hunks_with_fuzz :: nat

record patch_stats_ext =
  px_stats :: patch_stats
  px_touched_files :: "string list"
  px_file_summaries :: "file_summary list"
  px_header_path_mismatch :: "string option"

record patch_result =
  pr_success :: bool
  pr_stats :: patch_stats
  pr_touched_files :: "string list"
  pr_file_summaries :: "file_summary list"
  pr_message :: string

definition no_stats :: "nat \<Rightarrow> patch_stats_ext" where
  "no_stats files_total =
     \<lparr>px_stats = \<lparr>ps_files_applied = 0, ps_files_total = files_total, ps_hunks_applied = 0, ps_hunks_total = 0,
        ps_fuzz_used = 0, ps_hunks_with_fuzz = 0\<rparr>,
      px_touched_files = [], px_file_summaries = [], px_header_path_mismatch = None\<rparr>"

definition read_original :: "io_env \<Rightarrow> fs \<Rightarrow> fpath \<Rightarrow> (tool_error + string option) \<times> fs" where
  "read_original env fs p =
     (if path_exists fs p
      then (case read_file_content env fs p of (Inl e, fs') \<Rightarrow> (Inl e, fs') | (Inr c, fs') \<Rightarrow> (Inr (Some c), fs'))
      else (Inr None, fs))"

definition count_change :: "string \<Rightarrow> bool \<Rightarrow> patch_stats_ext \<Rightarrow> patch_stats_ext" where
  "count_change path created s =
     s\<lparr>px_stats := (px_stats s)\<lparr>ps_files_total := ps_files_total (px_stats s) + 1,
                               ps_files_applied := ps_files_applied (px_stats s) + 1\<rparr>,
       px_touched_files := push_unique (px_touched_files s) path,
       px_file_summaries := px_file_summaries s @
         [\<lparr>sm_path = path, sm_hunks = 0, sm_hunks_applied = 0, sm_fuzz_used = 0, sm_hunks_with_fuzz = 0,
           sm_created = created, sm_deleted = False\<rparr>]\<rparr>"

text \<open>The loops over the changes and over the file sections: the writes and the counts so far.\<close>

fun build_changes_from ::
  "io_env \<Rightarrow> (string \<Rightarrow> tool_error + fpath) \<Rightarrow> json list \<Rightarrow> fs \<Rightarrow> pending_write list \<Rightarrow> patch_stats_ext
     \<Rightarrow> (tool_error + pending_write list \<times> patch_stats_ext) \<times> fs" where
  "build_changes_from env resolve [] fs pending stats = (Inr (pending, stats), fs)"
| "build_changes_from env resolve (change # rest) fs pending stats =
     (case optional_str change ''path'' of
        None \<Rightarrow> (Inl (MissingField ''changes[].path''), fs)
      | Some path \<Rightarrow>
         (case optional_str change ''content'' of
            None \<Rightarrow> (Inl (MissingField ''changes[].content''), fs)
          | Some content \<Rightarrow>
             (case resolve path of
                Inl e \<Rightarrow> (Inl e, fs)
              | Inr resolved \<Rightarrow>
                 (case read_original env fs resolved of
                    (Inl e, fs') \<Rightarrow> (Inl e, fs')
                  | (Inr original, fs') \<Rightarrow>
                      build_changes_from env resolve rest fs'
                        (pending @ [\<lparr>pw_path = resolved, pw_content = Some content, pw_original = original\<rparr>])
                        (count_change path (original = None) stats)))))"

definition build_pending_writes_from_changes ::
  "io_env \<Rightarrow> (string \<Rightarrow> tool_error + fpath) \<Rightarrow> json \<Rightarrow> fs
     \<Rightarrow> (tool_error + pending_write list \<times> patch_stats_ext) \<times> fs" where
  "build_pending_writes_from_changes env resolve changes_value fs =
     (case changes_array changes_value of
        Inl e \<Rightarrow> (Inl e, fs)
      | Inr changes \<Rightarrow> build_changes_from env resolve changes fs [] (no_stats 0))"

definition missing_file :: "file_patch \<Rightarrow> fpath \<Rightarrow> string \<Rightarrow> tool_error" where
  "missing_file fp resolved hint =
     ExecutionFailed (''File '' @ tick (fp_path fp) @ '' does not exist at '' @ tick (display_path resolved) @ hint)"

definition patched_entry ::
  "nat \<Rightarrow> file_patch \<Rightarrow> fpath \<Rightarrow> string option \<Rightarrow> tool_error + pending_write \<times> hunk_apply_stats" where
  "patched_entry fuzz fp resolved original =
     (if original = None \<and> \<not> fp_create_if_missing fp
      then Inl (missing_file fp resolved ''. Set create_if_missing=true for new files or include headers for file creation.'')
      else if fp_delete_after fp \<and> original = None
      then Inl (missing_file fp resolved '' to delete.'')
      else let base_content = (case original of Some c \<Rightarrow> c | None \<Rightarrow> []);
               ls = (if base_content = [] then [] else str_lines base_content)
           in res_bind (apply_hunks_to_lines ls (fp_hunks fp) fuzz (fp_path fp)) (\<lambda>(ls', stats).
                Inr (\<lparr>pw_path = resolved,
                      pw_content = (if fp_delete_after fp then None
                                    else Some (reassemble_preserving_newlines ls' base_content)),
                      pw_original = original\<rparr>, stats)))"

definition count_patch :: "file_patch \<Rightarrow> string option \<Rightarrow> hunk_apply_stats \<Rightarrow> patch_stats_ext \<Rightarrow> patch_stats_ext" where
  "count_patch fp original st s =
     s\<lparr>px_stats := (px_stats s)\<lparr>ps_hunks_applied := ps_hunks_applied (px_stats s) + ha_hunks_applied st,
          ps_hunks_total := ps_hunks_total (px_stats s) + length (fp_hunks fp),
          ps_fuzz_used := ps_fuzz_used (px_stats s) + ha_fuzz_used st,
          ps_hunks_with_fuzz := ps_hunks_with_fuzz (px_stats s) + ha_hunks_with_fuzz st,
          ps_files_applied := ps_files_applied (px_stats s) + 1\<rparr>,
       px_touched_files := push_unique (px_touched_files s) (fp_path fp),
       px_file_summaries := px_file_summaries s @
         [\<lparr>sm_path = fp_path fp, sm_hunks = length (fp_hunks fp), sm_hunks_applied = ha_hunks_applied st,
           sm_fuzz_used = ha_fuzz_used st, sm_hunks_with_fuzz = ha_hunks_with_fuzz st,
           sm_created = (original = None \<and> \<not> fp_delete_after fp), sm_deleted = fp_delete_after fp\<rparr>]\<rparr>"

fun build_patches_from ::
  "io_env \<Rightarrow> (string \<Rightarrow> tool_error + fpath) \<Rightarrow> nat \<Rightarrow> file_patch list \<Rightarrow> fs \<Rightarrow> pending_write list
     \<Rightarrow> patch_stats_ext \<Rightarrow> (tool_error + pending_write list \<times> patch_stats_ext) \<times> fs" where
  "build_patches_from env resolve fuzz [] fs pending stats = (Inr (pending, stats), fs)"
| "build_patches_from env resolve fuzz (fp # rest) fs pending stats =
     (if fp_hunks fp = [] then (Inl (no_hunks_in_section fp), fs)
      else case resolve (fp_path fp) of
        Inl e \<Rightarrow> (Inl e, fs)
      | Inr resolved \<Rightarrow>
         (case read_original env fs resolved of
            (Inl e, fs') \<Rightarrow> (Inl e, fs')
          | (Inr original, fs') \<Rightarrow>
             (case patched_entry fuzz fp resolved original of
                Inl e \<Rightarrow> (Inl e, fs')
              | Inr (entry, st) \<Rightarrow>
                  build_patches_from env resolve fuzz rest fs' (pending @ [entry])
                    (count_patch fp original st stats))))"

definition build_pending_writes_from_patches ::
  "io_env \<Rightarrow> (string \<Rightarrow> tool_error + fpath) \<Rightarrow> file_patch list \<Rightarrow> nat \<Rightarrow> fs
     \<Rightarrow> (tool_error + pending_write list \<times> patch_stats_ext) \<times> fs" where
  "build_pending_writes_from_patches env resolve file_patches fuzz fs =
     build_patches_from env resolve fuzz file_patches fs [] (no_stats (length file_patches))"

section \<open>Writing and rolling back\<close>

definition io_failed :: "io_env \<Rightarrow> string \<Rightarrow> fpath \<Rightarrow> (io_error + unit) \<times> fs \<Rightarrow> (tool_error + unit) \<times> fs" where
  "io_failed env what p r =
     (case r of (Inr _, fs) \<Rightarrow> (Inr (), fs)
      | (Inl e, fs) \<Rightarrow> (Inl (ExecutionFailed (''Failed to '' @ what @ '' '' @ display_path p @ '': '' @ io_text env e)), fs))"

definition apply_entry :: "io_env \<Rightarrow> fs \<Rightarrow> pending_write \<Rightarrow> (tool_error + unit) \<times> fs" where
  "apply_entry env fs entry =
     (case pw_content entry of
        Some content \<Rightarrow>
          (let parent_result =
             (case path_parent (pw_path entry) of
                Some parent \<Rightarrow> io_failed env ''create directory'' parent (create_dir_all env fs parent)
              | None \<Rightarrow> (Inr (), fs))
           in case parent_result of
                (Inl e, fs') \<Rightarrow> (Inl e, fs')
              | (Inr _, fs') \<Rightarrow>
                  io_failed env ''write'' (pw_path entry) (write_atomic env fs' (pw_path entry) content))
      | None \<Rightarrow>
          if path_exists fs (pw_path entry)
          then io_failed env ''delete'' (pw_path entry) (remove_file env fs (pw_path entry))
          else (Inr (), fs))"

text \<open>The loop over the entries: its result, the entries applied, and the files at that point.\<close>

fun apply_entries ::
  "io_env \<Rightarrow> fs \<Rightarrow> pending_write list \<Rightarrow> pending_write list
     \<Rightarrow> (tool_error + unit) \<times> pending_write list \<times> fs" where
  "apply_entries env fs applied [] = (Inr (), applied, fs)"
| "apply_entries env fs applied (entry # rest) =
     (case apply_entry env fs entry of
        (Inl e, fs') \<Rightarrow> (Inl e, applied, fs')
      | (Inr _, fs') \<Rightarrow> apply_entries env fs' (applied @ [entry]) rest)"

definition undo_entry :: "io_env \<Rightarrow> pending_write \<Rightarrow> fs \<Rightarrow> fs" where
  "undo_entry env entry fs =
     (case pw_original entry of
        Some content \<Rightarrow> snd (write_atomic env fs (pw_path entry) content)
      | None \<Rightarrow> snd (remove_file env fs (pw_path entry)))"

definition rollback_pending_writes :: "io_env \<Rightarrow> pending_write list \<Rightarrow> fs \<Rightarrow> fs" where
  "rollback_pending_writes env applied fs = fold (undo_entry env) (rev applied) fs"

definition apply_pending_writes :: "io_env \<Rightarrow> fs \<Rightarrow> pending_write list \<Rightarrow> (tool_error + unit) \<times> fs" where
  "apply_pending_writes env fs pending =
     (case apply_entries env fs [] pending of
        (Inl e, applied, fs') \<Rightarrow> (Inl e, rollback_pending_writes env applied fs')
      | (Inr _, applied, fs') \<Rightarrow> (Inr (), fs'))"

section \<open>The tool\<close>

definition build_summary_message :: "patch_stats_ext \<Rightarrow> string" where
  "build_summary_message s =
     (let st = px_stats s
      in join_with '' ''
        ([if ps_hunks_total st > 0
          then ''Applied '' @ show_nat (ps_hunks_applied st) @ ''/'' @ show_nat (ps_hunks_total st)
                 @ '' hunks across '' @ show_nat (ps_files_applied st) @ '' file(s).''
          else ''Applied '' @ show_nat (ps_files_applied st) @ '' file change(s).'']
         @ (if px_touched_files s = [] then [] else [''Files: '' @ format_file_list (px_touched_files s) @ ''.''])
         @ (if ps_fuzz_used st > 0
            then [''Fuzz used on '' @ show_nat (ps_hunks_with_fuzz st) @ '' hunk(s) (total fuzz: ''
                    @ show_nat (ps_fuzz_used st) @ '').'']
            else [])
         @ (case px_header_path_mismatch s of Some note \<Rightarrow> [note] | None \<Rightarrow> [])))"

definition patch_result_of :: "patch_stats_ext \<Rightarrow> patch_result" where
  "patch_result_of s =
     \<lparr>pr_success = True, pr_stats = px_stats s, pr_touched_files = px_touched_files s,
      pr_file_summaries = px_file_summaries s, pr_message = build_summary_message s\<rparr>"

definition fuzz_argument :: "json \<Rightarrow> nat" where
  "fuzz_argument input = unat (min (optional_u64 input ''fuzz'' (of_nat DEFAULT_FUZZ)) (of_nat MAX_FUZZ))"

text \<open>The writes an input asks for, with the summary they will have; the first half of \<open>execute\<close>.\<close>

definition prepare_writes ::
  "io_env \<Rightarrow> (string \<Rightarrow> tool_error + fpath) \<Rightarrow> json \<Rightarrow> preflight_plan \<Rightarrow> fs
     \<Rightarrow> (tool_error + pending_write list \<times> patch_stats_ext) \<times> fs" where
  "prepare_writes env resolve input plan fs =
     (case json_get ''changes'' input of
        Some changes_value \<Rightarrow> build_pending_writes_from_changes env resolve changes_value fs
      | None \<Rightarrow>
          (let file_patches =
             (case pp_kind plan of
                Changes \<Rightarrow> []
              | PathOverride path hunks \<Rightarrow>
                  [\<lparr>fp_path = path, fp_hunks = hunks, fp_delete_after = False,
                    fp_create_if_missing = optional_bool input ''create_if_missing'' False\<rparr>]
              | FilePatches file_patches \<Rightarrow> file_patches)
           in case build_pending_writes_from_patches env resolve file_patches (fuzz_argument input) fs of
                (Inl e, fs') \<Rightarrow> (Inl e, fs')
              | (Inr (pending, stats), fs') \<Rightarrow>
                  (Inr (pending, stats\<lparr>px_header_path_mismatch := pf_header_path_mismatch (pp_summary plan)\<rparr>), fs')))"

definition execute_apply_patch ::
  "io_env \<Rightarrow> (string \<Rightarrow> tool_error + fpath) \<Rightarrow> json \<Rightarrow> fs \<Rightarrow> (tool_error + patch_result) \<times> fs" where
  "execute_apply_patch env resolve input fs =
     (case preflight_apply_patch_plan input of
        Inl e \<Rightarrow> (Inl e, fs)
      | Inr plan \<Rightarrow>
         (case prepare_writes env resolve input plan fs of
            (Inl e, fs') \<Rightarrow> (Inl e, fs')
          | (Inr (pending, stats), fs') \<Rightarrow>
             (case apply_pending_writes env fs' pending of
                (Inl e, fs'') \<Rightarrow> (Inl e, fs'')
              | (Inr _, fs'') \<Rightarrow> (Inr (patch_result_of stats), fs''))))"

section \<open>What the operations change\<close>

definition dirs :: "fs \<Rightarrow> fpath set" where
  "dirs fs = {q. fs_nodes fs q = Some Directory}"

definition quiet_from :: "io_env \<Rightarrow> nat \<Rightarrow> bool" where
  "quiet_from env n \<longleftrightarrow> list_all (\<lambda>(k, _). k < n) (faults env)"

lemma quiet_no_fault: "quiet_from env n \<Longrightarrow> n \<le> k \<Longrightarrow> map_of (faults env) k = None"
  by (force simp: quiet_from_def list_all_iff map_of_eq_None_iff)

lemma quiet_from_mono: "quiet_from env n \<Longrightarrow> n \<le> k \<Longrightarrow> quiet_from env k"
  by (force simp: quiet_from_def list_all_iff)

lemma io_op_cases:
  assumes "io_op env fs effect = (r, fs')"
  obtains (failed) e where "r = Inl e" "fs_nodes fs' = fs_nodes fs" "fs_ops fs' = fs_ops fs + 1"
    "map_of (faults env) (fs_ops fs) = None \<Longrightarrow> effect = Inl e"
  | (effective) nodes where "r = Inr ()" "effect = Inr nodes" "fs_nodes fs' = nodes" "fs_ops fs' = fs_ops fs + 1"
  using assms by (auto simp: io_op_def Let_def split: option.splits sum.splits)

lemma file_at_mkdirs: "fs_nodes fs' = mkdirs (fs_nodes fs) p \<Longrightarrow> file_at fs' = file_at fs"
  by (auto simp: file_at_def mkdirs_def fun_eq_iff)

lemma file_at_nodes: "fs_nodes fs' = fs_nodes fs \<Longrightarrow> file_at fs' = file_at fs"
  by (auto simp: file_at_def)

lemma file_at_upd: "fs_nodes fs' = (fs_nodes fs)(p := n) \<Longrightarrow>
    file_at fs' = (file_at fs)(p := (case n of Some (File c) \<Rightarrow> Some c | _ \<Rightarrow> None))"
  by (auto simp: file_at_def fun_eq_iff)

lemma create_dir_all_cases:
  assumes "create_dir_all env fs p = (r, fs')"
  shows "file_at fs' = file_at fs" "dirs fs \<subseteq> dirs fs'" "dirs fs' \<subseteq> dirs fs \<union> {q. prefix q p}"
proof -
  have "file_at fs' = file_at fs \<and> dirs fs \<subseteq> dirs fs' \<and> dirs fs' \<subseteq> dirs fs \<union> {q. prefix q p}"
    using assms unfolding create_dir_all_def
  proof (cases rule: io_op_cases)
    case (failed e)
    then show ?thesis using file_at_nodes [of fs' fs] by (simp add: dirs_def)
  next
    case (effective nodes)
    then have "fs_nodes fs' = mkdirs (fs_nodes fs) p" by (simp split: if_splits)
    with file_at_mkdirs [OF this] show ?thesis by (auto simp: dirs_def mkdirs_def)
  qed
  then show "file_at fs' = file_at fs" "dirs fs \<subseteq> dirs fs'" "dirs fs' \<subseteq> dirs fs \<union> {q. prefix q p}"
    by simp_all
qed

lemma write_atomic_cases:
  assumes "write_atomic env fs p c = (r, fs')"
  obtains (failed) e where "r = Inl e" "fs_nodes fs' = fs_nodes fs"
  | (written) "r = Inr ()" "p \<noteq> []" "butlast p \<in> dirs fs" "p \<notin> dirs fs" "dirs fs' = dirs fs"
      "file_at fs' = (file_at fs)(p := Some c)"
  using assms unfolding write_atomic_def
proof (cases rule: io_op_cases)
  case (effective nodes)
  from effective(2) have n: "p \<noteq> []" "butlast p \<in> dirs fs" "p \<notin> dirs fs" "nodes = (fs_nodes fs)(p := Some (File c))"
    by (auto simp: path_parent_def dirs_def split: option.splits node.splits if_splits)
  with effective(3) have "dirs fs' = dirs fs" by (auto simp: dirs_def)
  with effective n file_at_upd [of fs' fs p "Some (File c)"] that(2) show thesis by simp
qed (use that in auto)

lemma remove_file_cases:
  assumes "remove_file env fs p = (r, fs')"
  obtains (failed) e where "r = Inl e" "fs_nodes fs' = fs_nodes fs"
  | (removed) "r = Inr ()" "dirs fs' = dirs fs" "file_at fs' = (file_at fs)(p := None)"
  using assms unfolding remove_file_def
proof (cases rule: io_op_cases)
  case (effective nodes)
  from effective(2) have n: "p \<notin> dirs fs" "nodes = (fs_nodes fs)(p := None)"
    by (auto simp: dirs_def split: option.splits node.splits)
  with effective(3) have "dirs fs' = dirs fs" by (auto simp: dirs_def)
  with effective n file_at_upd [of fs' fs p None] that(2) show thesis by simp
qed (use that in auto)

lemma io_failed_simps:
  "fst (io_failed env what p r) = Inr u \<longleftrightarrow> (\<exists>v. fst r = Inr v)" "snd (io_failed env what p r) = snd r"
  by (auto simp: io_failed_def split: prod.splits sum.splits)

section \<open>Entries\<close>

definition put :: "pending_write \<Rightarrow> (fpath \<Rightarrow> string option) \<Rightarrow> fpath \<Rightarrow> string option" where
  "put e f = f(pw_path e := pw_content e)"

definition put_back :: "pending_write \<Rightarrow> (fpath \<Rightarrow> string option) \<Rightarrow> fpath \<Rightarrow> string option" where
  "put_back e f = f(pw_path e := pw_original e)"

text \<open>A path whose file can be written or removed again: it lies in a directory and is none itself.\<close>

definition ready :: "fs \<Rightarrow> fpath \<Rightarrow> bool" where
  "ready fs p \<longleftrightarrow> p \<noteq> [] \<and> butlast p \<in> dirs fs \<and> p \<notin> dirs fs"

lemma strict_prefix_parent: "prefix q (butlast p) \<Longrightarrow> p \<noteq> [] \<Longrightarrow> strict_prefix q p"
  by (cases p rule: rev_cases) (auto simp: strict_prefix_def)

lemma apply_entry_write:
  assumes "apply_entry env fs e = (r, fs')" "pw_content e = Some c"
  obtains (no_dir) x where "isl r" "pw_path e \<noteq> []" "create_dir_all env fs (butlast (pw_path e)) = (Inl x, fs')"
  | (root) r1 where "write_atomic env fs (pw_path e) c = (r1, fs')" "isl r = isl r1"
  | (below) x fs1 r1 where "pw_path e \<noteq> []" "create_dir_all env fs (butlast (pw_path e)) = (Inr x, fs1)"
      "write_atomic env fs1 (pw_path e) c = (r1, fs')" "isl r = isl r1"
proof (cases "pw_path e = []")
  case True
  with assms root show thesis
    by (auto simp: apply_entry_def path_parent_def io_failed_def split: prod.splits sum.splits)
next
  case False
  with assms no_dir below show thesis
    by (auto simp: apply_entry_def path_parent_def io_failed_def Let_def split: prod.splits sum.splits)
qed

lemma write_atomic_effect:
  assumes "write_atomic env fs p c = (r, fs')"
  shows "dirs fs' = dirs fs \<and> file_at fs' = (if isl r then file_at fs else (file_at fs)(p := Some c))
    \<and> (\<not> isl r \<longrightarrow> ready fs' p)"
  using assms
proof (cases rule: write_atomic_cases)
  case (failed e)
  then show ?thesis using file_at_nodes [of fs' fs] by (simp add: dirs_def)
next
  case written
  then show ?thesis by (simp add: ready_def)
qed

lemma remove_file_effect:
  assumes "remove_file env fs p = (r, fs')"
  shows "dirs fs' = dirs fs \<and> file_at fs' = (if isl r then file_at fs else (file_at fs)(p := None))"
  using assms
proof (cases rule: remove_file_cases)
  case (failed e)
  then show ?thesis using file_at_nodes [of fs' fs] by (simp add: dirs_def)
next
  case removed
  then show ?thesis by simp
qed

lemma apply_entry_delete:
  assumes "apply_entry env fs e = (r, fs')" "pw_content e = None"
  shows "dirs fs' = dirs fs \<and> file_at fs' = (if isl r then file_at fs else put e (file_at fs))"
proof (cases "path_exists fs (pw_path e)")
  case True
  obtain r1 where rm: "remove_file env fs (pw_path e) = (r1, fs')" and r: "isl r \<longleftrightarrow> isl r1"
    using assms True by (auto simp: apply_entry_def io_failed_def split: prod.splits sum.splits)
  show ?thesis using remove_file_effect [OF rm] r assms(2) by (simp add: put_def)
next
  case False
  then have "file_at fs (pw_path e) = None" by (simp add: path_exists_def file_at_def)
  then have "file_at fs = put e (file_at fs)" using assms(2) by (auto simp: put_def fun_eq_iff)
  with assms False show ?thesis by (auto simp: apply_entry_def)
qed

lemma apply_entry_effect:
  assumes "apply_entry env fs e = (r, fs')"
  shows "file_at fs' = (if isl r then file_at fs else put e (file_at fs))" (is ?A)
    and "dirs fs \<subseteq> dirs fs'" (is ?B)
    and "dirs fs' \<subseteq> dirs fs \<union> {q. strict_prefix q (pw_path e)}" (is ?C)
    and "\<not> isl r \<Longrightarrow> pw_content e \<noteq> None \<Longrightarrow> ready fs' (pw_path e)"
proof -
  have "?A \<and> ?B \<and> ?C \<and> (\<not> isl r \<longrightarrow> pw_content e \<noteq> None \<longrightarrow> ready fs' (pw_path e))"
  proof (cases "pw_content e")
    case None
    then show ?thesis using apply_entry_delete [OF assms] by simp
  next
    case (Some c)
    from assms this show ?thesis
    proof (cases rule: apply_entry_write)
      case (no_dir x)
      then show ?thesis using create_dir_all_cases [OF no_dir(3)] by (auto intro: strict_prefix_parent)
    next
      case (root r1)
      then show ?thesis using write_atomic_effect [OF root(1)] Some by (simp add: put_def)
    next
      case (below x fs1 r1)
      note d = create_dir_all_cases [OF below(2)]
      then have "dirs fs1 \<subseteq> dirs fs \<union> {q. strict_prefix q (pw_path e)}"
        using below(1) by (auto intro: strict_prefix_parent)
      with d below write_atomic_effect [OF below(3)] Some show ?thesis by (auto simp: put_def)
    qed
  qed
  then show ?A ?B ?C "\<not> isl r \<Longrightarrow> pw_content e \<noteq> None \<Longrightarrow> ready fs' (pw_path e)" by simp_all
qed

text \<open>The loop, and the rollback.\<close>

lemma apply_entries_effect:
  assumes "apply_entries env fs applied pending = (r, applied', fs')"
  shows "\<exists>k. applied' = applied @ take k pending \<and> file_at fs' = fold put (take k pending) (file_at fs)
    \<and> (\<not> isl r \<longrightarrow> length pending \<le> k)"
  using assms
proof (induction pending arbitrary: fs applied)
  case (Cons e pending)
  obtain r1 fs1 where e: "apply_entry env fs e = (r1, fs1)" by fastforce
  note eff = apply_entry_effect(1) [OF e]
  show ?case
  proof (cases r1)
    case (Inl x)
    with Cons.prems e eff show ?thesis by (intro exI [of _ 0]) auto
  next
    case (Inr u)
    then have "apply_entries env fs1 (applied @ [e]) pending = (r, applied', fs')" using Cons.prems e by simp
    from Cons.IH [OF this] obtain k where "applied' = (applied @ [e]) @ take k pending"
      "file_at fs' = fold put (take k pending) (file_at fs1)" "\<not> isl r \<longrightarrow> length pending \<le> k" by blast
    with eff Inr show ?thesis by (intro exI [of _ "Suc k"]) auto
  qed
qed auto

lemma undo_entry_effect:
  "dirs (undo_entry env e fs) = dirs fs \<and> fs_ops (undo_entry env e fs) = fs_ops fs + 1
    \<and> (\<forall>q. q \<noteq> pw_path e \<longrightarrow> file_at (undo_entry env e fs) q = file_at fs q)"
proof (cases "pw_original e")
  case None
  obtain r fs' where r: "remove_file env fs (pw_path e) = (r, fs')" by fastforce
  then have "fs_ops fs' = fs_ops fs + 1" unfolding remove_file_def by (cases rule: io_op_cases) auto
  with remove_file_effect [OF r] None r show ?thesis by (simp add: undo_entry_def)
next
  case (Some c)
  obtain r fs' where r: "write_atomic env fs (pw_path e) c = (r, fs')" by fastforce
  then have "fs_ops fs' = fs_ops fs + 1" unfolding write_atomic_def by (cases rule: io_op_cases) auto
  with write_atomic_effect [OF r] Some r show ?thesis by (simp add: undo_entry_def)
qed

lemma undo_entry_restores:
  assumes "ready fs (pw_path e)" "map_of (faults env) (fs_ops fs) = None"
  shows "file_at (undo_entry env e fs) = put_back e (file_at fs)"
proof (cases "pw_original e")
  case None
  show ?thesis
    using assms None by (cases "fs_nodes fs (pw_path e)")
      (auto simp: undo_entry_def remove_file_def io_op_def ready_def dirs_def file_at_def put_back_def fun_eq_iff
        split: node.splits)
next
  case (Some c)
  then show ?thesis
    using assms by (auto simp: undo_entry_def write_atomic_def io_op_def ready_def dirs_def path_parent_def
        file_at_def put_back_def fun_eq_iff)
qed

lemma rollback_elsewhere:
  "q \<notin> pw_path ` set es \<Longrightarrow> file_at (fold (undo_entry env) es fs) q = file_at fs q"
  by (induction es arbitrary: fs) (auto simp: undo_entry_effect)

lemma rollback_restores:
  assumes "\<forall>e \<in> set es. ready fs (pw_path e)" "quiet_from env (fs_ops fs)"
  shows "file_at (fold (undo_entry env) es fs) = fold put_back es (file_at fs)"
  using assms
proof (induction es arbitrary: fs)
  case (Cons e es)
  let ?fs = "undo_entry env e fs"
  have "\<forall>e \<in> set es. ready ?fs (pw_path e)"
    using Cons.prems(1) by (simp add: ready_def undo_entry_effect)
  moreover have "quiet_from env (fs_ops ?fs)"
    using Cons.prems(2) by (rule quiet_from_mono) (simp add: undo_entry_effect)
  moreover have "file_at ?fs = put_back e (file_at fs)"
    using Cons.prems by (intro undo_entry_restores quiet_no_fault) auto
  ultimately show ?case using Cons.IH by simp
qed simp

lemma fold_put_elsewhere: "q \<notin> pw_path ` set es \<Longrightarrow> fold put es f q = f q"
  by (induction es arbitrary: f) (auto simp: put_def)

lemma fold_put_back:
  "\<forall>e \<in> set es. pw_original e = g (pw_path e) \<Longrightarrow>
   fold put_back es f q = (if q \<in> pw_path ` set es then g q else f q)"
  by (induction es arbitrary: f) (auto simp: put_back_def)

lemma undoing_puts:
  assumes "\<forall>e \<in> set es. pw_original e = f (pw_path e)"
  shows "fold put_back (rev es) (fold put es f) = f"
proof
  fix q show "fold put_back (rev es) (fold put es f) q = f q"
    using assms fold_put_back [of "rev es" f "fold put es f" q] fold_put_elsewhere [of q es f]
    by (cases "q \<in> pw_path ` set es") simp_all
qed

text \<open>No path of the list lies below another.\<close>

definition separate :: "pending_write list \<Rightarrow> bool" where
  "separate pending \<longleftrightarrow>
     list_all (\<lambda>e. list_all (\<lambda>e'. \<not> strict_prefix (pw_path e) (pw_path e')) pending) pending"

text \<open>The originals are the files, and what is deleted is there.\<close>

definition originals_ok :: "(fpath \<Rightarrow> string option) \<Rightarrow> pending_write list \<Rightarrow> bool" where
  "originals_ok f pending \<longleftrightarrow>
     list_all (\<lambda>e. pw_original e = f (pw_path e) \<and> (pw_content e = None \<longrightarrow> pw_original e \<noteq> None)) pending"

definition fs_wf :: "fs \<Rightarrow> bool" where
  "fs_wf fs \<longleftrightarrow> (\<forall>p. file_at fs p \<noteq> None \<longrightarrow> ready fs p)"

lemma apply_entries_ready:
  assumes "apply_entries env fs applied pending = (r, applied', fs')"
    "\<forall>e \<in> set applied. ready fs (pw_path e)"
    "\<forall>e \<in> set pending. pw_content e = None \<longrightarrow> ready fs (pw_path e)"
    "\<forall>e \<in> set (applied @ pending). \<forall>e' \<in> set pending. \<not> strict_prefix (pw_path e) (pw_path e')"
  shows "\<forall>e \<in> set applied'. ready fs' (pw_path e)"
  using assms
proof (induction pending arbitrary: fs applied)
  case (Cons e pending)
  obtain r1 fs1 where e: "apply_entry env fs e = (r1, fs1)" by fastforce
  note eff = apply_entry_effect [OF e]
  have keep: "ready fs1 (pw_path d)" if "d \<in> set (applied @ e # pending)" "ready fs (pw_path d)" for d
    using that eff(2,3) Cons.prems(4) by (auto simp: ready_def)
  show ?case
  proof (cases r1)
    case (Inl x)
    with Cons.prems e keep show ?thesis by auto
  next
    case (Inr u)
    have rest: "apply_entries env fs1 (applied @ [e]) pending = (r, applied', fs')" using Cons.prems(1) e Inr by simp
    have "ready fs1 (pw_path e)"
      using Cons.prems(3) Inr keep [of e] eff(4) by (cases "pw_content e") auto
    then have "\<forall>d \<in> set (applied @ [e]). ready fs1 (pw_path d)" using Cons.prems(2) keep by auto
    moreover have "\<forall>d \<in> set pending. pw_content d = None \<longrightarrow> ready fs1 (pw_path d)"
      using Cons.prems(3) keep by auto
    ultimately show ?thesis using Cons.prems(4) by (intro Cons.IH [OF rest]) auto
  qed
qed simp

definition rollback_start :: "io_env \<Rightarrow> fs \<Rightarrow> pending_write list \<Rightarrow> nat" where
  "rollback_start env fs pending = fs_ops (snd (snd (apply_entries env fs [] pending)))"

lemma failed_writes_are_undone:
  assumes "apply_pending_writes env fs pending = (Inl e, fs')" "fs_wf fs" "separate pending"
    "originals_ok (file_at fs) pending" "quiet_from env (rollback_start env fs pending)"
  shows "file_at fs' = file_at fs"
proof -
  from assms(1) obtain applied fs1 where
    loop: "apply_entries env fs [] pending = (Inl e, applied, fs1)"
    and fs': "fs' = fold (undo_entry env) (rev applied) fs1"
    by (auto simp: apply_pending_writes_def rollback_pending_writes_def split: prod.splits sum.splits)
  from apply_entries_effect [OF loop] obtain k where
    k: "applied = take k pending" "file_at fs1 = fold put (take k pending) (file_at fs)" by auto
  have "\<forall>e \<in> set applied. ready fs1 (pw_path e)"
    using assms(2,3,4) by (intro apply_entries_ready [OF loop])
      (force simp: fs_wf_def originals_ok_def separate_def list_all_iff)+
  then have "file_at fs' = fold put_back (rev applied) (file_at fs1)"
    using assms(5) loop unfolding fs' by (intro rollback_restores) (simp_all add: rollback_start_def)
  also have "\<dots> = file_at fs"
    using assms(4) unfolding k by (intro undoing_puts) (auto simp: originals_ok_def list_all_iff dest: in_set_takeD)
  finally show ?thesis .
qed

lemma writes_elsewhere:
  assumes "apply_pending_writes env fs pending = (r, fs')" "q \<notin> pw_path ` set pending"
  shows "file_at fs' q = file_at fs q"
proof -
  obtain r1 applied fs1 where loop: "apply_entries env fs [] pending = (r1, applied, fs1)" using prod_cases3 by blast
  from apply_entries_effect [OF loop] obtain k where
    k: "applied = take k pending" "file_at fs1 = fold put (take k pending) (file_at fs)" by auto
  have q: "q \<notin> pw_path ` set (take k pending)" using assms(2) by (auto dest: in_set_takeD)
  then have "file_at fs1 q = file_at fs q" by (simp add: k fold_put_elsewhere)
  with q loop assms(1) show ?thesis
    by (cases r1) (auto simp: apply_pending_writes_def rollback_pending_writes_def rollback_elsewhere k(1))
qed

lemma successful_writes:
  assumes "apply_pending_writes env fs pending = (Inr u, fs')"
  shows "file_at fs' = fold put pending (file_at fs)"
proof -
  obtain applied where "apply_entries env fs [] pending = (Inr (), applied, fs')"
    using assms by (auto simp: apply_pending_writes_def split: prod.splits sum.splits)
  from apply_entries_effect [OF this] show ?thesis by auto
qed

section \<open>Preparing the writes\<close>

lemma read_original_result:
  assumes "read_original env fs p = (r, fs')"
  shows "fs_nodes fs' = fs_nodes fs" "r = Inr original \<Longrightarrow> original = file_at fs p"
  using assms
  by (auto simp: read_original_def read_file_content_def Let_def path_exists_def file_at_def
      split: if_splits option.splits node.splits)

definition asked_for ::
  "(string \<Rightarrow> tool_error + fpath) \<Rightarrow> string set \<Rightarrow> (fpath \<Rightarrow> string option) \<Rightarrow> pending_write \<Rightarrow> bool" where
  "asked_for resolve names f e \<longleftrightarrow>
     (\<exists>raw \<in> names. resolve raw = Inr (pw_path e)) \<and> pw_original e = f (pw_path e)
     \<and> (pw_content e = None \<longrightarrow> pw_original e \<noteq> None)"

lemma asked_for_originals: "\<forall>e \<in> set pending. asked_for resolve names f e \<Longrightarrow> originals_ok f pending"
  unfolding originals_ok_def asked_for_def list_all_iff by blast

lemma asked_for_mono: "names \<subseteq> names' \<Longrightarrow> asked_for resolve names f e \<Longrightarrow> asked_for resolve names' f e"
  unfolding asked_for_def by blast

definition change_names :: "json list \<Rightarrow> string set" where
  "change_names changes = {raw. \<exists>change \<in> set changes. optional_str change ''path'' = Some raw}"

lemma build_changes_result:
  assumes "build_changes_from env resolve changes fs pending stats = (r, fs')"
  shows "fs_nodes fs' = fs_nodes fs \<and> (\<forall>pending' stats'. r = Inr (pending', stats') \<longrightarrow>
     (\<forall>e \<in> set pending'. e \<in> set pending \<or> asked_for resolve (change_names changes) (file_at fs) e))"
  using assms
proof (induction changes arbitrary: fs pending stats)
  case (Cons change rest)
  show ?case
  proof (cases "\<exists>path content resolved original fs1. optional_str change ''path'' = Some path
      \<and> optional_str change ''content'' = Some content \<and> resolve path = Inr resolved
      \<and> read_original env fs resolved = (Inr original, fs1)")
    case True
    then obtain path content resolved original fs1 where
      h: "optional_str change ''path'' = Some path" "optional_str change ''content'' = Some content"
        "resolve path = Inr resolved" "read_original env fs resolved = (Inr original, fs1)" by blast
    note rd = read_original_result [OF h(4)]
    let ?e = "\<lparr>pw_path = resolved, pw_content = Some content, pw_original = original\<rparr>"
    have f: "file_at fs1 = file_at fs" using rd(1) by (rule file_at_nodes)
    have e: "asked_for resolve (change_names (change # rest)) (file_at fs) ?e"
      using h rd by (auto simp: asked_for_def change_names_def)
    have mono: "asked_for resolve (change_names rest) (file_at fs) d \<Longrightarrow>
        asked_for resolve (change_names (change # rest)) (file_at fs) d" for d
      by (rule asked_for_mono) (auto simp: change_names_def)
    have step: "build_changes_from env resolve rest fs1 (pending @ [?e]) (count_change path (original = None) stats) = (r, fs')"
      using Cons.prems h by simp
    have ih: "fs_nodes fs' = fs_nodes fs \<and> (\<forall>pending' stats'. r = Inr (pending', stats') \<longrightarrow>
        (\<forall>d \<in> set pending'. d \<in> set (pending @ [?e]) \<or> asked_for resolve (change_names rest) (file_at fs) d))"
      using Cons.IH [OF step] rd(1) f by simp
    show ?thesis
    proof (intro conjI allI impI ballI)
      fix pending' stats' d assume "r = Inr (pending', stats')" "d \<in> set pending'"
      then have "d \<in> set (pending @ [?e]) \<or> asked_for resolve (change_names rest) (file_at fs) d" using ih by blast
      then show "d \<in> set pending \<or> asked_for resolve (change_names (change # rest)) (file_at fs) d" using e mono by auto
    qed (simp add: ih)
  next
    case False
    with Cons.prems read_original_result(1) show ?thesis
      by (fastforce split: option.splits sum.splits prod.splits)
  qed
qed auto

lemma preflight_change_paths_result:
  "preflight_change_paths changes touched = Inr touched' \<Longrightarrow>
     set touched \<union> change_names changes \<subseteq> set touched'"
proof (induction changes arbitrary: touched)
  case (Cons change rest)
  then obtain path where p: "optional_str change ''path'' = Some path"
    and r: "preflight_change_paths rest (push_unique touched path) = Inr touched'"
    by (auto split: option.splits)
  have "set touched \<union> {path} \<subseteq> set (push_unique touched path)" by (auto simp: push_unique_def list_ex_iff)
  with Cons.IH [OF r] p show ?case by (auto simp: change_names_def)
qed (simp add: change_names_def)

lemma patched_entry_result:
  assumes "patched_entry fuzz fp resolved original = Inr (e, st)"
  shows "pw_path e = resolved" "pw_original e = original" "pw_content e = None \<longleftrightarrow> fp_delete_after fp"
    "fp_delete_after fp \<Longrightarrow> original \<noteq> None"
  using assms by (auto simp: patched_entry_def Let_def res_bind_Inr split: if_splits)

lemma build_patches_result:
  assumes "build_patches_from env resolve fuzz fps fs pending stats = (r, fs')"
  shows "fs_nodes fs' = fs_nodes fs \<and> (\<forall>pending' stats'. r = Inr (pending', stats') \<longrightarrow>
     (\<forall>e \<in> set pending'. e \<in> set pending \<or> asked_for resolve (fp_path ` set fps) (file_at fs) e))"
  using assms
proof (induction fps arbitrary: fs pending stats)
  case (Cons fp rest)
  show ?case
  proof (cases "\<exists>resolved original fs1 e st. fp_hunks fp \<noteq> [] \<and> resolve (fp_path fp) = Inr resolved
      \<and> read_original env fs resolved = (Inr original, fs1) \<and> patched_entry fuzz fp resolved original = Inr (e, st)")
    case True
    then obtain resolved original fs1 e st where
      h: "fp_hunks fp \<noteq> []" "resolve (fp_path fp) = Inr resolved"
        "read_original env fs resolved = (Inr original, fs1)" "patched_entry fuzz fp resolved original = Inr (e, st)"
      by blast
    note rd = read_original_result [OF h(3)]
    have f: "file_at fs1 = file_at fs" using rd(1) by (rule file_at_nodes)
    have e: "asked_for resolve (fp_path ` set (fp # rest)) (file_at fs) e"
      using h rd patched_entry_result [OF h(4)] by (auto simp: asked_for_def)
    have mono: "asked_for resolve (fp_path ` set rest) (file_at fs) d \<Longrightarrow>
        asked_for resolve (fp_path ` set (fp # rest)) (file_at fs) d" for d
      by (rule asked_for_mono) auto
    have step: "build_patches_from env resolve fuzz rest fs1 (pending @ [e]) (count_patch fp original st stats) = (r, fs')"
      using Cons.prems h by simp
    have ih: "fs_nodes fs' = fs_nodes fs \<and> (\<forall>pending' stats'. r = Inr (pending', stats') \<longrightarrow>
        (\<forall>d \<in> set pending'. d \<in> set (pending @ [e]) \<or> asked_for resolve (fp_path ` set rest) (file_at fs) d))"
      using Cons.IH [OF step] rd(1) f by simp
    show ?thesis
    proof (intro conjI allI impI ballI)
      fix pending' stats' d assume "r = Inr (pending', stats')" "d \<in> set pending'"
      then have "d \<in> set (pending @ [e]) \<or> asked_for resolve (fp_path ` set rest) (file_at fs) d" using ih by blast
      then show "d \<in> set pending \<or> asked_for resolve (fp_path ` set (fp # rest)) (file_at fs) d" using e mono by auto
    qed (simp add: ih)
  next
    case False
    with Cons.prems read_original_result(1) show ?thesis
      by (fastforce split: if_splits sum.splits prod.splits)
  qed
qed auto

lemma preflight_files_result:
  "preflight_files fps s = Inr s' \<Longrightarrow> set (pf_touched_files s) \<union> fp_path ` set fps \<subseteq> set (pf_touched_files s')"
proof (induction fps arbitrary: s)
  case (Cons fp fps)
  then have r: "preflight_files fps (note_file fp s) = Inr s'" by (simp split: if_splits)
  have "set (pf_touched_files s) \<union> {fp_path fp} \<subseteq> set (pf_touched_files (note_file fp s))"
    by (auto simp: note_file_def push_unique_def list_ex_iff)
  with Cons.IH [OF r] show ?case by auto
qed simp

text \<open>What the plan says of the input.\<close>

lemma plan_of_changes:
  assumes "preflight_apply_patch_plan input = Inr plan" "json_get ''changes'' input = Some v"
  obtains changes where "changes_array v = Inr changes" "change_names changes \<subseteq> set (pf_touched_files (pp_summary plan))"
proof -
  from assms obtain changes touched where c: "changes_array v = Inr changes"
    "preflight_change_paths changes [] = Inr touched" "pf_touched_files (pp_summary plan) = touched"
    by (auto simp: preflight_apply_patch_plan_def preflight_changes_def res_bind_Inr)
  with preflight_change_paths_result [OF c(2)] that show thesis by auto
qed

lemma plan_of_patch:
  assumes "preflight_apply_patch_plan input = Inr plan" "json_get ''changes'' input = None"
  shows "(\<exists>path hunks. pp_kind plan = PathOverride path hunks \<and> pf_touched_files (pp_summary plan) = [path])
    \<or> (\<exists>fps. pp_kind plan = FilePatches fps \<and> fp_path ` set fps \<subseteq> set (pf_touched_files (pp_summary plan)))"
  using assms
  by (auto simp: preflight_apply_patch_plan_def res_bind_Inr Let_def dest!: preflight_files_result
      split: option.splits if_splits)

text \<open>The arm of \<open>execute\<close> marked unreachable is.\<close>

lemma changes_arm_is_unreachable:
  "preflight_apply_patch_plan input = Inr plan \<Longrightarrow> json_get ''changes'' input = None \<Longrightarrow> pp_kind plan \<noteq> Changes"
  using plan_of_patch by fastforce

lemma prepare_writes_result:
  assumes "preflight_apply_patch_plan input = Inr plan" "prepare_writes env resolve input plan fs = (r, fs1)"
  shows "fs_nodes fs1 = fs_nodes fs \<and> (\<forall>pending stats. r = Inr (pending, stats) \<longrightarrow>
     (\<forall>e \<in> set pending. asked_for resolve (set (pf_touched_files (pp_summary plan))) (file_at fs) e))"
proof (cases "json_get ''changes'' input")
  case (Some v)
  from plan_of_changes [OF assms(1) Some] obtain changes where
    c: "changes_array v = Inr changes" "change_names changes \<subseteq> set (pf_touched_files (pp_summary plan))" .
  have "build_changes_from env resolve changes fs [] (no_stats 0) = (r, fs1)"
    using assms(2) Some c(1) by (simp add: prepare_writes_def build_pending_writes_from_changes_def)
  from build_changes_result [OF this] c(2) show ?thesis by (auto intro: asked_for_mono)
next
  case None
  define fps where "fps = (case pp_kind plan of Changes \<Rightarrow> []
      | PathOverride path hunks \<Rightarrow> [\<lparr>fp_path = path, fp_hunks = hunks, fp_delete_after = False,
          fp_create_if_missing = optional_bool input ''create_if_missing'' False\<rparr>]
      | FilePatches file_patches \<Rightarrow> file_patches)"
  have names: "fp_path ` set fps \<subseteq> set (pf_touched_files (pp_summary plan))"
    using plan_of_patch [OF assms(1) None] by (auto simp: fps_def)
  obtain r1 where b: "build_patches_from env resolve (fuzz_argument input) fps fs [] (no_stats (length fps)) = (r1, fs1)"
    and r: "\<And>pending stats. r = Inr (pending, stats) \<Longrightarrow> \<exists>stats'. r1 = Inr (pending, stats')"
    using assms(2) None
    by (auto simp: prepare_writes_def build_pending_writes_from_patches_def Let_def simp flip: fps_def
        split: prod.splits sum.splits)
  note res = build_patches_result [OF b]
  show ?thesis
  proof (intro conjI allI impI ballI)
    fix pending stats e assume "r = Inr (pending, stats)" "e \<in> set pending"
    with r res have "asked_for resolve (fp_path ` set fps) (file_at fs) e" by fastforce
    with names show "asked_for resolve (set (pf_touched_files (pp_summary plan))) (file_at fs) e"
      by (rule asked_for_mono)
  qed (simp add: res)
qed

section \<open>The tool as a whole\<close>

lemma execute_cases:
  assumes "execute_apply_patch env resolve input fs = (r, fs')"
  obtains (early) e where "r = Inl e" "fs_nodes fs' = fs_nodes fs"
  | (writes) plan pending stats fs1 u where "preflight_apply_patch_plan input = Inr plan"
      "prepare_writes env resolve input plan fs = (Inr (pending, stats), fs1)"
      "apply_pending_writes env fs1 pending = (u, fs')" "isl u = isl r"
proof (cases "preflight_apply_patch_plan input")
  case (Inl e)
  with assms have "r = Inl e" "fs' = fs" by (simp_all add: execute_apply_patch_def)
  then show thesis by (intro early) simp_all
next
  case (Inr plan)
  obtain q fs1 where p: "prepare_writes env resolve input plan fs = (q, fs1)" by fastforce
  show thesis
  proof (cases q)
    case (Inl e)
    with assms Inr p have "r = Inl e" "fs' = fs1" by (simp_all add: execute_apply_patch_def)
    with prepare_writes_result [OF Inr p] show thesis by (intro early) simp_all
  next
    case q: (Inr ps)
    obtain u fs2 where "apply_pending_writes env fs1 (fst ps) = (u, fs2)" by fastforce
    with assms writes Inr p q show thesis
      by (cases ps) (auto simp: execute_apply_patch_def split: sum.splits)
  qed
qed

text \<open>
  C30: Whatever happens, a failed write or a failed rollback included, the tool changes no file but those the preflight
  of the same input names.
\<close>

theorem preflight_names_every_changed_file:
  assumes "execute_apply_patch env resolve input fs = (r, fs')" "file_at fs' p \<noteq> file_at fs p"
  shows "\<exists>summary raw. preflight_apply_patch input = Inr summary \<and> raw \<in> set (pf_touched_files summary)
    \<and> resolve raw = Inr p"
  using assms(1)
proof (cases rule: execute_cases)
  case (early e)
  with assms(2) file_at_nodes [of fs' fs] show ?thesis by simp
next
  case (writes plan pending stats fs1 u)
  note prep = prepare_writes_result [OF writes(1,2)]
  then have "file_at fs1 = file_at fs" using file_at_nodes by blast
  with assms(2) writes_elsewhere [OF writes(3)] have "p \<in> pw_path ` set pending" by metis
  with prep have "\<exists>raw \<in> set (pf_touched_files (pp_summary plan)). resolve raw = Inr p"
    by (fastforce simp: asked_for_def)
  with writes(1) show ?thesis by (auto simp: preflight_apply_patch_def)
qed

text \<open>The writes prepared, and the files and the count of operations at that point.\<close>

definition prepared ::
  "io_env \<Rightarrow> (string \<Rightarrow> tool_error + fpath) \<Rightarrow> json \<Rightarrow> fs \<Rightarrow> (pending_write list \<times> fs) option" where
  "prepared env resolve input fs =
     (case preflight_apply_patch_plan input of
        Inl _ \<Rightarrow> None
      | Inr plan \<Rightarrow>
          (case prepare_writes env resolve input plan fs of
             (Inl _, _) \<Rightarrow> None
           | (Inr (pending, _), fs1) \<Rightarrow> Some (pending, fs1)))"

text \<open>The paths written do not lie below each other, and no operation of a rollback is faulty.\<close>

definition undoable :: "io_env \<Rightarrow> (string \<Rightarrow> tool_error + fpath) \<Rightarrow> json \<Rightarrow> fs \<Rightarrow> bool" where
  "undoable env resolve input fs =
     (case prepared env resolve input fs of
        None \<Rightarrow> True
      | Some (pending, fs1) \<Rightarrow> separate pending \<and> quiet_from env (rollback_start env fs1 pending))"

text \<open>
  C5: A patch is applied as a whole or not at all: when the tool returns an error, at whatever operation, every file
  has the content it had before. The files asked for do not lie below each other, and the rollback itself meets no
  fault. Directories made on the way stay.
\<close>

theorem failed_patch_restores_every_file:
  assumes "execute_apply_patch env resolve input fs = (Inl e, fs')" "fs_wf fs" "undoable env resolve input fs"
  shows "file_at fs' = file_at fs"
  using assms(1)
proof (cases rule: execute_cases)
  case (early e')
  then show ?thesis using file_at_nodes by blast
next
  case (writes plan pending stats fs1 u)
  note prep = prepare_writes_result [OF writes(1,2)]
  then have n: "fs_nodes fs1 = fs_nodes fs" by simp
  then have f: "file_at fs1 = file_at fs" "dirs fs1 = dirs fs" using file_at_nodes [OF n] by (simp_all add: dirs_def)
  have "separate pending" "quiet_from env (rollback_start env fs1 pending)"
    using assms(3) writes(1,2) by (simp_all add: undoable_def prepared_def)
  moreover have "originals_ok (file_at fs1) pending" using prep f(1) asked_for_originals by fastforce
  moreover have "fs_wf fs1" using assms(2) f by (simp add: fs_wf_def ready_def)
  moreover obtain e' where "u = Inl e'" using writes(4) by (cases u) auto
  ultimately show ?thesis using failed_writes_are_undone [of env fs1 pending] writes(3) f by simp
qed

text \<open>A workspace of two files, a change of both whose second write fails, and one of the first only.\<close>

definition demo_nodes :: "fpath \<Rightarrow> node option" where
  "demo_nodes = map_of [([], Directory), ([''a''], File ''old a''), ([''b''], File ''old b'')]"

definition demo_fs :: fs where "demo_fs = \<lparr>fs_nodes = demo_nodes, fs_ops = 0\<rparr>"

definition demo_env :: "(nat \<times> string) list \<Rightarrow> io_env" where
  "demo_env fl = \<lparr>faults = fl, io_text = (\<lambda>e. case e of OsFault s \<Rightarrow> s | _ \<Rightarrow> ''error'')\<rparr>"

definition demo_resolve :: "string \<Rightarrow> tool_error + fpath" where
  "demo_resolve raw = Inr (split_on CHR ''/'' raw)"

definition demo_change :: "string \<Rightarrow> string \<Rightarrow> json" where
  "demo_change path content = JObj [(''path'', JStr path), (''content'', JStr content)]"

definition demo_input :: json where
  "demo_input = JObj [(''changes'', JArr [demo_change ''a'' ''new a'', demo_change ''b'' ''new b''])]"

lemma demo_fs_wf: "fs_wf demo_fs"
proof -
  have "ready demo_fs p" if "file_at demo_fs p \<noteq> None" for p
  proof -
    have "p = [''a''] \<or> p = [''b'']"
      using that by (auto simp: file_at_def demo_fs_def demo_nodes_def split: if_splits)
    then show ?thesis by (auto simp: ready_def dirs_def demo_fs_def demo_nodes_def)
  qed
  then show ?thesis by (simp add: fs_wf_def)
qed

theorem failed_patch_restores_every_file_witness:
  "isl (fst (execute_apply_patch (demo_env [(5, ''disk full'')]) demo_resolve demo_input demo_fs))
   \<and> file_at (snd (execute_apply_patch (demo_env [(5, ''disk full'')]) demo_resolve demo_input demo_fs)) [''a'']
     = Some ''old a''"
proof -
  let ?run = "execute_apply_patch (demo_env [(5, ''disk full'')]) demo_resolve demo_input demo_fs"
  have l: "isl (fst ?run)" by code_simp
  then obtain e where "?run = (Inl e, snd ?run)" by (metis isl_def prod.collapse)
  moreover have "undoable (demo_env [(5, ''disk full'')]) demo_resolve demo_input demo_fs" by code_simp
  ultimately have "file_at (snd ?run) = file_at demo_fs"
    by (intro failed_patch_restores_every_file [OF _ demo_fs_wf])
  moreover have "file_at demo_fs [''a''] = Some ''old a''" by code_simp
  ultimately show ?thesis using l by simp
qed

theorem preflight_names_every_changed_file_witness:
  "\<exists>summary raw. preflight_apply_patch demo_input = Inr summary \<and> raw \<in> set (pf_touched_files summary)
    \<and> demo_resolve raw = Inr [''b'']"
proof -
  let ?run = "execute_apply_patch (demo_env []) demo_resolve demo_input demo_fs"
  have "file_at (snd ?run) [''b''] \<noteq> file_at demo_fs [''b'']" by code_simp
  then show ?thesis by (intro preflight_names_every_changed_file [of "demo_env []" demo_resolve demo_input demo_fs "fst ?run" "snd ?run"]) simp_all
qed

text \<open>Where a path written lies below a path deleted, a failure after both loses the deleted file: its rollback meets
  the directory made in its place.\<close>

lemma nested_paths_lose_a_file:
  "file_at (snd (apply_pending_writes (demo_env [(4, ''disk full'')]) demo_fs
     [\<lparr>pw_path = [''a''], pw_content = None, pw_original = Some ''old a''\<rparr>,
      \<lparr>pw_path = [''a'', ''c''], pw_content = Some ''new'', pw_original = None\<rparr>,
      \<lparr>pw_path = [''b''], pw_content = Some ''new b'', pw_original = Some ''old b''\<rparr>])) [''a''] = None"
  by code_simp

section \<open>From a diff to the new file\<close>

lemma scan_keeps:
  "has_hunks (ss_shape s) \<Longrightarrow> has_hunks (ss_shape (scan_shape_line l s))"
  "header_files (ss_shape s) \<noteq> [] \<Longrightarrow> header_files (ss_shape (scan_shape_line l s)) \<noteq> []"
  by (auto simp: scan_shape_line_def Let_def push_unique_def split: option.splits)

lemma fold_scan_keeps:
  "has_hunks (ss_shape s) \<Longrightarrow> has_hunks (ss_shape (fold scan_shape_line ls s))"
  "header_files (ss_shape s) \<noteq> [] \<Longrightarrow> header_files (ss_shape (fold scan_shape_line ls s)) \<noteq> []"
  by (induction ls arbitrary: s) (simp_all add: scan_keeps)

lemma fold_scan_hunk:
  "prefix ''@@'' l \<Longrightarrow> l \<in> set ls \<Longrightarrow> has_hunks (ss_shape (fold scan_shape_line ls s))"
proof (induction ls arbitrary: s)
  case (Cons k ls)
  show ?case
  proof (cases "l = k")
    case True
    have "has_hunks (ss_shape (scan_shape_line l s))"
      using Cons.prems(1) by (auto simp: scan_shape_line_def Let_def split: option.splits)
    then show ?thesis using True fold_scan_keeps(1) by simp
  next
    case False
    with Cons show ?thesis by simp
  qed
qed simp

lemma scan_file_header:
  assumes "plain_path (fp_path f)" "\<not> fp_create_if_missing f" "\<not> fp_delete_after f"
  shows "header_files (ss_shape (fold scan_shape_line (render_file f)
      \<lparr>ss_shape = \<lparr>has_hunks = False, header_files = []\<rparr>, ss_old_path = None, ss_remaining = (0, 0)\<rparr>)) \<noteq> []"
  using assms plain_path_prefixed(3,4) [OF assms(1)]
  by (simp add: render_file_def) (rule fold_scan_keeps(2), simp add: scan_shape_line_def strip_prefix_def push_unique_def)

lemma shape_of_diff:
  assumes "file_patch_ok f" "file_text_ok f" "\<not> fp_create_if_missing f" "\<not> fp_delete_after f" "fp_hunks f \<noteq> []"
  shows "has_hunks (inspect_patch_shape (diff_text [f]))" "file_count (inspect_patch_shape (diff_text [f])) \<noteq> 0"
proof -
  have ls: "str_lines (diff_text [f]) = render_file f"
    using line_ok_file [OF assms(1,2)] by (simp add: diff_text_def str_lines_close_lines)
  have "hd (render_hunk (hd (fp_hunks f))) \<in> set (render_file f)"
    using assms(5) by (cases "fp_hunks f") (auto simp: render_file_def render_hunk_def)
  then show "has_hunks (inspect_patch_shape (diff_text [f]))"
    using fold_scan_hunk hunk_header_prefix(1) by (auto simp: inspect_patch_shape_def ls)
  show "file_count (inspect_patch_shape (diff_text [f])) \<noteq> 0"
    using scan_file_header [of f] assms by (auto simp: inspect_patch_shape_def ls file_count_def file_patch_ok_def)
qed

text \<open>An input that only gives a patch.\<close>

definition patch_input :: "string \<Rightarrow> json" where
  "patch_input text = JObj [(''patch'', JStr text)]"

lemma patch_input_simps:
  "json_get ''changes'' (patch_input t) = None" "optional_str (patch_input t) ''path'' = None"
  "required_str (patch_input t) ''patch'' = Inr t" "optional_bool (patch_input t) ''create_if_missing'' False = False"
  by (simp_all add: patch_input_def optional_str_def required_str_def optional_bool_def)

lemma preflight_of_diff:
  assumes "file_patch_ok f" "file_text_ok f" "\<not> fp_create_if_missing f" "\<not> fp_delete_after f" "fp_hunks f \<noteq> []"
  shows "\<exists>plan. preflight_apply_patch_plan (patch_input (diff_text [f])) = Inr plan \<and> pp_kind plan = FilePatches [f]"
proof -
  have "validate_patch_shape (inspect_patch_shape (diff_text [f])) None = Inr ()"
    using shape_of_diff [OF assms] by (simp add: validate_patch_shape_def)
  moreover have "list_all line_ok (render_file f)" using assms(1,2) by (rule line_ok_file)
  then have "parse_unified_diff_files (diff_text [f]) False = Inr [f]"
    using parse_rendered_files [of "[f]" "[]" None None] assms(1)
    by (simp add: parse_unified_diff_files_def diff_text_def str_lines_close_lines push_current_def)
  ultimately show ?thesis
    using assms(5) by (simp add: preflight_apply_patch_plan_def patch_input_simps)
qed

text \<open>A path all of whose ancestors are directories.\<close>

definition rooted :: "fs \<Rightarrow> fpath \<Rightarrow> bool" where
  "rooted fs p \<longleftrightarrow> p \<noteq> [] \<and> list_all (\<lambda>q. fs_nodes fs q = Some Directory) (prefixes (butlast p))"

lemma write_without_faults:
  assumes "faults env = []" "rooted fs p" "file_at fs p = Some base" "pw_path e = p" "pw_content e = Some c"
  shows "\<exists>fs'. apply_pending_writes env fs [e] = (Inr (), fs')"
proof -
  have d: "\<forall>q \<in> set (prefixes (butlast p)). fs_nodes fs q = Some Directory" "p \<noteq> []"
    using assms(2) by (simp_all add: rooted_def list_all_iff)
  then have b: "fs_nodes fs (butlast p) = Some Directory" by simp
  have "mkdirs (fs_nodes fs) (butlast p) = fs_nodes fs"
    using d(1) by (auto simp: mkdirs_def fun_eq_iff)
  with d b have "create_dir_all env fs (butlast p) = (Inr (), fs\<lparr>fs_ops := fs_ops fs + 1\<rparr>)"
    using assms(1) by (cases fs) (auto simp: create_dir_all_def io_op_def is_file_def list_ex_iff)
  moreover have "fs_nodes fs p \<noteq> Some Directory" using assms(3) by (auto simp: file_at_def)
  ultimately show ?thesis
    using assms d(2) b
    by (simp add: apply_pending_writes_def apply_entry_def path_parent_def io_failed_def write_atomic_def io_op_def)
qed

text \<open>
  C4: The whole way: the text of a diff that leads from the lines of a file to other lines, handed to the tool, leaves
  the file with exactly those lines, its line ends kept, and every other file as it was. Every hunk has a context
  line or a removed line.
\<close>

theorem tool_applies_a_diff:
  assumes "file_at fs p = Some base" "str_lines base = old_text es tail" "es \<noteq> []" "list_all touches_old es"
    "length (new_text es tail) < 2 ^ 64" "resolve name = Inr p" "rooted fs p" "faults env = []"
    "f = \<lparr>fp_path = name, fp_hunks = hunks_of 0 0 es, fp_delete_after = False, fp_create_if_missing = False\<rparr>"
    "file_patch_ok f" "file_text_ok f"
  shows "\<exists>result fs'. execute_apply_patch env resolve (patch_input (diff_text [f])) fs = (Inr result, fs')
    \<and> file_at fs' = (file_at fs)(p \<mapsto> reassemble_preserving_newlines (new_text es tail) base)"
proof -
  let ?in = "patch_input (diff_text [f])"
  have hk: "fp_hunks f \<noteq> []" using assms(3,9) by (cases es) (auto simp: Let_def)
  obtain plan where plan: "preflight_apply_patch_plan ?in = Inr plan" "pp_kind plan = FilePatches [f]"
    using preflight_of_diff [OF assms(10,11) _ _ hk] assms(9) by auto
  have "old_text es tail \<noteq> []" using assms(3,4) by (cases es) (auto simp: touches_old_def)
  then have base: "base \<noteq> []" using assms(2) by (auto simp: str_lines_def)
  define fs1 where "fs1 = fs\<lparr>fs_ops := fs_ops fs + 1\<rparr>"
  define entry where "entry = \<lparr>pw_path = p, pw_content = Some (reassemble_preserving_newlines (new_text es tail) base),
      pw_original = Some base\<rparr>"
  have rd: "read_original env fs p = (Inr (Some base), fs1)"
    using assms(1,8) by (auto simp: read_original_def path_exists_def file_at_def read_file_content_def fs1_def
        split: option.splits node.splits)
  have "\<exists>st. patched_entry (fuzz_argument ?in) f p (Some base) = Inr (entry, st)"
    using apply_hunks_in_place [where pre = "[]" and i = 0 and es = es and tail = tail] assms(2,4,5,9) base
    by (simp add: patched_entry_def apply_hunks_to_lines_def entry_def)
  then obtain st where pe: "patched_entry (fuzz_argument ?in) f p (Some base) = Inr (entry, st)" by blast
  have "\<exists>stats. prepare_writes env resolve ?in plan fs = (Inr ([entry], stats), fs1)"
    using hk assms(6,9) rd pe plan(2)
    by (simp add: prepare_writes_def patch_input_simps build_pending_writes_from_patches_def)
  then obtain stats where prep: "prepare_writes env resolve ?in plan fs = (Inr ([entry], stats), fs1)" by blast
  have f1: "file_at fs1 = file_at fs" "rooted fs1 p" using assms(7) file_at_nodes [of fs1 fs] by (simp_all add: fs1_def rooted_def)
  then obtain fs2 where w: "apply_pending_writes env fs1 [entry] = (Inr (), fs2)"
    using write_without_faults [of env fs1 p base entry] assms(1,8) by (auto simp: entry_def)
  from successful_writes [OF w] f1 have "file_at fs2 = (file_at fs)(p \<mapsto> reassemble_preserving_newlines (new_text es tail) base)"
    by (simp add: put_def entry_def)
  with plan prep w show ?thesis by (simp add: execute_apply_patch_def)
qed

definition demo_edits :: "edit list" where
  "demo_edits = [([], [Remove ''old a'', Add ''new a''])]"

definition demo_diff :: file_patch where
  "demo_diff = \<lparr>fp_path = ''a'', fp_hunks = hunks_of 0 0 demo_edits, fp_delete_after = False,
     fp_create_if_missing = False\<rparr>"

theorem tool_applies_a_diff_witness:
  "\<exists>result fs'. execute_apply_patch (demo_env []) demo_resolve (patch_input (diff_text [demo_diff])) demo_fs
      = (Inr result, fs') \<and> file_at fs' = (file_at demo_fs)([''a''] \<mapsto> ''new a'')"
proof -
  have content: "file_at demo_fs [''a''] = Some ''old a''" "str_lines ''old a'' = old_text demo_edits []" by code_simp+
  have edits: "demo_edits \<noteq> []" "list_all touches_old demo_edits" "length (new_text demo_edits []) < 2 ^ 64"
    by (simp_all add: demo_edits_def touches_old_def)
  have place: "demo_resolve ''a'' = Inr [''a'']" "rooted demo_fs [''a'']" "faults (demo_env []) = []" by code_simp+
  have ok: "file_patch_ok demo_diff" "file_text_ok demo_diff" by code_simp+
  have "reassemble_preserving_newlines (new_text demo_edits []) ''old a'' = ''new a''" by code_simp
  with tool_applies_a_diff [where resolve = demo_resolve and name = "''a''", OF content edits place demo_diff_def ok] show ?thesis by simp
qed

end
