(* ===== verification/Workflow_Plan.thy ===== *)
theory Workflow_Plan
  imports Patch_Text
begin

text \<open>
  \<open>crates/whaleflow/src/lib.rs\<close>, workflow configurations: phases of tasks with their dependencies, their
  validation, and the plan that orders them (\<open>WorkflowPlan::from_config\<close>). The depth first search keeps its three
  collections in a state that is threaded through the calls. An index that is not in the map is a panic,
  written \<open>None\<close>; the lemmas show that a configuration is ordered or refused, never a panic, that the order
  respects every dependency, and that a cycle is reported exactly when there is one.
\<close>

section \<open>Data\<close>

datatype failure_policy = SkipContinue | Abort

datatype agent_type = General | Explore | Plan | Review | Implementer | Verifier

datatype task_mode = ReadOnly | ReadWrite

datatype isolation_mode = Shared | Worktree

record workflow_task =
  wt_id :: string
  wt_prompt :: string
  wt_agent_type :: agent_type
  wt_mode :: task_mode
  wt_isolation :: isolation_mode
  wt_file_scope :: "string list"
  wt_depends_on_results :: "string list"
  wt_max_steps :: "u32 option"
  wt_timeout_secs :: "u64 option"

record workflow_phase =
  ph_name :: string
  ph_description :: "string option"
  ph_depends_on :: "string list"
  ph_parallel :: bool
  ph_on_failure :: failure_policy
  ph_tasks :: "workflow_task list"

record workflow_config =
  wc_goal :: string
  wc_max_concurrent :: u8
  wc_description :: "string option"
  wc_phases :: "workflow_phase list"

record phase_plan =
  pp_name :: string
  pp_parallel :: bool
  pp_on_failure :: failure_policy
  pp_tasks :: "workflow_task list"

record workflow_plan =
  wp_goal :: string
  wp_max_concurrent :: u8
  wp_phases :: "phase_plan list"

datatype validation_error =
    EmptyField string
  | EmptyWorkflow
  | EmptyPhase string
  | InvalidMaxConcurrent u8
  | DuplicatePhase string
  | DuplicateTask string
  | InvalidPhaseDependency string string
  | PhaseDependencyCycle string
  | InvalidTaskResultDependency string string
  | UnavailableTaskResultDependency string string string string
  | MissingParallelWriteScope string
  | OverlappingParallelWriteScope string string

fun validation_error_text :: "validation_error \<Rightarrow> string" where
  "validation_error_text (EmptyField field) = field @ '' must not be empty''"
| "validation_error_text EmptyWorkflow = ''workflow must contain at least one phase''"
| "validation_error_text (EmptyPhase phase) = ''phase '' @ tick phase @ '' must contain at least one task''"
| "validation_error_text (InvalidMaxConcurrent n) =
     ''max_concurrent must be between 1 and 20, got '' @ show_nat (unat n)"
| "validation_error_text (DuplicatePhase phase) = ''duplicate workflow phase '' @ tick phase"
| "validation_error_text (DuplicateTask task) = ''duplicate workflow task '' @ tick task"
| "validation_error_text (InvalidPhaseDependency phase dependency) =
     ''phase '' @ tick phase @ '' has invalid dependency '' @ tick dependency"
| "validation_error_text (PhaseDependencyCycle phase) = ''phase dependency cycle includes '' @ tick phase"
| "validation_error_text (InvalidTaskResultDependency task dependency) =
     ''task '' @ tick task @ '' has invalid result dependency '' @ tick dependency"
| "validation_error_text (UnavailableTaskResultDependency task dependency dependency_phase task_phase) =
     ''task '' @ tick task @ '' depends on result '' @ tick dependency @ '' from unavailable phase ''
       @ tick dependency_phase @ '' while running in '' @ tick task_phase"
| "validation_error_text (MissingParallelWriteScope task) =
     ''parallel read-write task '' @ tick task @ '' must declare a file_scope''"
| "validation_error_text (OverlappingParallelWriteScope left right) =
     ''parallel read-write tasks '' @ tick left @ '' and '' @ tick right @ '' have overlapping file scopes''"

definition default_max_concurrent :: u8 where "default_max_concurrent = 4"

section \<open>File scopes\<close>

text \<open>\<open>trim_start_matches("./")\<close> removes the pattern as often as it stands in front.\<close>

fun trim_dot_slash :: "string \<Rightarrow> string" where
  "trim_dot_slash (c # d # s) = (if c = CHR ''.'' \<and> d = CHR ''/'' then trim_dot_slash s else c # d # s)"
| "trim_dot_slash s = s"

definition strip_suffix :: "string \<Rightarrow> string \<Rightarrow> string option" where
  "strip_suffix p s = (if suffix p s then Some (take (length s - length p) s) else None)"

definition normalize_scope :: "string \<Rightarrow> string" where
  "normalize_scope scope =
     (let trimmed = trim_end_matches (\<lambda>c. c = CHR ''/'') (trim_dot_slash (trim scope))
      in case strip_suffix ''/**'' trimmed of
           Some s \<Rightarrow> s
         | None \<Rightarrow> (case strip_suffix ''/*'' trimmed of Some s \<Rightarrow> s | None \<Rightarrow> trimmed))"

definition glob_prefix :: "string \<Rightarrow> string" where
  "glob_prefix scope = trim_end_matches (\<lambda>c. c = CHR ''/'') (hd (split_on CHR ''*'' scope))"

text \<open>\<open>Path::components\<close>: the root, then the parts between slashes without empty ones and dots; a leading dot
  stays, and is written as itself. \<open>Path::starts_with\<close> compares components.\<close>

definition scope_components :: "string \<Rightarrow> string list" where
  "scope_components s =
     (let parts = split_on CHR ''/'' s;
          kept = filter (\<lambda>p. p \<noteq> [] \<and> p \<noteq> ''.'') parts
      in (if prefix ''/'' s then [''/''] else if hd parts = ''.'' then [''.''] else []) @ kept)"

definition path_starts_with :: "string \<Rightarrow> string \<Rightarrow> bool" where
  "path_starts_with p base \<longleftrightarrow> prefix (scope_components base) (scope_components p)"

definition scope_overlaps :: "string \<Rightarrow> string \<Rightarrow> bool" where
  "scope_overlaps left0 right0 =
     (let left = normalize_scope left0; right = normalize_scope right0
      in if left = right \<or> left = ''.'' \<or> right = ''.'' then True
         else if CHR ''*'' \<in> set left \<or> CHR ''*'' \<in> set right then glob_prefix left = glob_prefix right
         else path_starts_with left right \<or> path_starts_with right left)"

definition scopes_overlap :: "string list \<Rightarrow> string list \<Rightarrow> bool" where
  "scopes_overlap left right =
     list_ex (\<lambda>left_scope. list_ex (\<lambda>right_scope. scope_overlaps left_scope right_scope) right) left"

fun overlapping_pair :: "workflow_task list \<Rightarrow> (workflow_task \<times> workflow_task) option" where
  "overlapping_pair [] = None"
| "overlapping_pair (left # rest) =
     (case find (\<lambda>right. scopes_overlap (wt_file_scope left) (wt_file_scope right)) rest of
        Some right \<Rightarrow> Some (left, right)
      | None \<Rightarrow> overlapping_pair rest)"

definition write_tasks :: "workflow_phase \<Rightarrow> workflow_task list" where
  "write_tasks phase = filter (\<lambda>task. wt_mode task = ReadWrite) (ph_tasks phase)"

definition validate_parallel_write_scope :: "workflow_phase \<Rightarrow> validation_error + unit" where
  "validate_parallel_write_scope phase =
     (if \<not> ph_parallel phase then Inr ()
      else case find (\<lambda>task. wt_file_scope task = []) (write_tasks phase) of
        Some task \<Rightarrow> Inl (MissingParallelWriteScope (wt_id task))
      | None \<Rightarrow>
          (case overlapping_pair (write_tasks phase) of
             Some (left, right) \<Rightarrow> Inl (OverlappingParallelWriteScope (wt_id left) (wt_id right))
           | None \<Rightarrow> Inr ()))"

section \<open>Names\<close>

definition validate_non_empty :: "string \<Rightarrow> string \<Rightarrow> validation_error + unit" where
  "validate_non_empty field v = (if trim v = [] then Inl (EmptyField field) else Inr ())"

text \<open>The maps of \<open>from_config\<close>: the index of a phase, and the phase of a task (its keys are those of
  \<open>all_tasks\<close>).\<close>

record name_maps =
  phase_indices :: "string \<Rightarrow> nat option"
  task_phase :: "string \<Rightarrow> string option"

fun index_tasks :: "string \<Rightarrow> workflow_task list \<Rightarrow> name_maps \<Rightarrow> validation_error + name_maps" where
  "index_tasks phase [] maps = Inr maps"
| "index_tasks phase (task # tasks) maps =
     res_bind (validate_non_empty ''task id'' (wt_id task)) (\<lambda>_.
     res_bind (validate_non_empty ''task prompt'' (wt_prompt task)) (\<lambda>_.
       if task_phase maps (wt_id task) \<noteq> None then Inl (DuplicateTask (wt_id task))
       else index_tasks phase tasks (maps\<lparr>task_phase := (task_phase maps)(wt_id task \<mapsto> phase)\<rparr>)))"

fun index_phases :: "nat \<Rightarrow> workflow_phase list \<Rightarrow> name_maps \<Rightarrow> validation_error + name_maps" where
  "index_phases i [] maps = Inr maps"
| "index_phases i (phase # phases) maps =
     res_bind (validate_non_empty ''phase name'' (ph_name phase)) (\<lambda>_.
       if ph_tasks phase = [] then Inl (EmptyPhase (ph_name phase))
       else if phase_indices maps (ph_name phase) \<noteq> None then Inl (DuplicatePhase (ph_name phase))
       else res_bind (index_tasks (ph_name phase) (ph_tasks phase)
                (maps\<lparr>phase_indices := (phase_indices maps)(ph_name phase \<mapsto> i)\<rparr>)) (\<lambda>maps'.
              index_phases (i + 1) phases maps'))"

fun check_phases :: "(string \<Rightarrow> nat option) \<Rightarrow> workflow_phase list \<Rightarrow> validation_error + unit" where
  "check_phases indices [] = Inr ()"
| "check_phases indices (phase # phases) =
     (case find (\<lambda>dependency. dependency = ph_name phase \<or> indices dependency = None) (ph_depends_on phase) of
        Some dependency \<Rightarrow> Inl (InvalidPhaseDependency (ph_name phase) dependency)
      | None \<Rightarrow> res_bind (validate_parallel_write_scope phase) (\<lambda>_. check_phases indices phases))"

section \<open>The order of the phases\<close>

record visit_state =
  visiting :: "string set"
  visited :: "string set"
  ordered :: "string list"

text \<open>The dependencies of a phase by its name, through the index map; \<open>None\<close> where the index panics.\<close>

definition phase_at :: "workflow_phase list \<Rightarrow> (string \<Rightarrow> nat option) \<Rightarrow> string \<Rightarrow> workflow_phase option" where
  "phase_at phases indices name =
     (case indices name of
        None \<Rightarrow> None
      | Some i \<Rightarrow> if i < length phases then Some (phases ! i) else None)"

function visit_phase ::
    "workflow_phase list \<Rightarrow> (string \<Rightarrow> nat option) \<Rightarrow> string \<Rightarrow> visit_state
       \<Rightarrow> (validation_error + visit_state) option"
and visit_phases ::
    "workflow_phase list \<Rightarrow> (string \<Rightarrow> nat option) \<Rightarrow> string list \<Rightarrow> visit_state
       \<Rightarrow> (validation_error + visit_state) option" where
  "visit_phase phases indices name st =
     (if name \<in> visited st then Some (Inr st)
      else if name \<in> visiting st then Some (Inl (PhaseDependencyCycle name))
      else case phase_at phases indices name of
        None \<Rightarrow> None
      | Some phase \<Rightarrow>
         (case visit_phases phases indices (ph_depends_on phase) (st\<lparr>visiting := insert name (visiting st)\<rparr>) of
            Some (Inr st') \<Rightarrow>
              Some (Inr (st'\<lparr>visiting := visiting st' - {name}, visited := insert name (visited st'),
                            ordered := ordered st' @ [name]\<rparr>))
          | r \<Rightarrow> r))"
| "visit_phases phases indices [] st = Some (Inr st)"
| "visit_phases phases indices (name # names) st =
     (case visit_phase phases indices name st of
        Some (Inr st') \<Rightarrow> visit_phases phases indices names st'
      | r \<Rightarrow> r)"
  by pat_completeness auto

text \<open>The search leaves \<open>visiting\<close> as it found it, so the names not being visited grow fewer at every descent.\<close>

lemma visit_restores_visiting:
  "visit_phase_visit_phases_dom (Inl (phases, indices, name, st)) \<Longrightarrow>
     (\<forall>st'. visit_phase phases indices name st = Some (Inr st') \<longrightarrow> visiting st' = visiting st)"
  "visit_phase_visit_phases_dom (Inr (phases, indices, names, st)) \<Longrightarrow>
     (\<forall>st'. visit_phases phases indices names st = Some (Inr st') \<longrightarrow> visiting st' = visiting st)"
proof (induction phases indices name st and phases indices names st rule: visit_phase_visit_phases.pinduct)
  case (1 phases indices name st)
  show ?case
  proof (intro allI impI)
    fix st' assume r: "visit_phase phases indices name st = Some (Inr st')"
    show "visiting st' = visiting st"
    proof (cases "name \<in> visited st \<or> name \<in> visiting st")
      case True
      then show ?thesis using r by (auto simp: visit_phase.psimps [OF 1(1)] split: if_splits)
    next
      case False
      then obtain phase st1 where h: "phase_at phases indices name = Some phase"
        "visit_phases phases indices (ph_depends_on phase) (st\<lparr>visiting := insert name (visiting st)\<rparr>) = Some (Inr st1)"
        "st' = st1\<lparr>visiting := visiting st1 - {name}, visited := insert name (visited st1), ordered := ordered st1 @ [name]\<rparr>"
        using r by (auto simp: visit_phase.psimps [OF 1(1)] split: option.splits sum.splits)
      have "visiting st1 = visiting (st\<lparr>visiting := insert name (visiting st)\<rparr>)"
        using 1(2) [OF _ _ h(1)] False h(2) by blast
      with False h(3) show ?thesis by simp
    qed
  qed
next
  case (2 phases indices st)
  then show ?case by (simp add: visit_phases.psimps(1))
next
  case (3 phases indices name names st)
  show ?case
  proof (intro allI impI)
    fix st' assume "visit_phases phases indices (name # names) st = Some (Inr st')"
    then obtain st1 where "visit_phase phases indices name st = Some (Inr st1)"
      "visit_phases phases indices names st1 = Some (Inr st')"
      by (auto simp: visit_phases.psimps(2) [OF 3(1)] split: option.splits sum.splits)
    with 3(2,3) show "visiting st' = visiting st" by metis
  qed
qed

definition all_dependencies :: "workflow_phase list \<Rightarrow> string set" where
  "all_dependencies phases = (\<Union>p \<in> set phases. set (ph_depends_on p))"

lemma finite_dependencies [simp]: "finite (all_dependencies phases)"
  by (simp add: all_dependencies_def)

lemma phase_at_dependencies:
  "phase_at phases indices name = Some p \<Longrightarrow> set (ph_depends_on p) \<subseteq> all_dependencies phases"
  by (auto simp: phase_at_def all_dependencies_def split: option.splits if_splits intro: nth_mem)

definition visit_rank :: "workflow_phase list \<Rightarrow> string list \<Rightarrow> visit_state \<Rightarrow> nat" where
  "visit_rank phases names st = card (all_dependencies phases \<union> set names - visiting st)"

lemma visit_rank_descend:
  assumes "phase_at phases indices name = Some p" "name \<notin> visiting st"
  shows "visit_rank phases (ph_depends_on p) (st\<lparr>visiting := insert name (visiting st)\<rparr>) < visit_rank phases [name] st"
proof -
  have "all_dependencies phases \<union> set (ph_depends_on p) - insert name (visiting st)
      \<subset> all_dependencies phases \<union> set [name] - visiting st"
    using phase_at_dependencies [OF assms(1)] assms(2) by auto
  then show ?thesis unfolding visit_rank_def by (intro psubset_card_mono) simp_all
qed

lemma visit_rank_Cons:
  "visit_rank phases [name] st \<le> visit_rank phases (name # names) st"
  "visiting st' = visiting st \<Longrightarrow> visit_rank phases names st' \<le> visit_rank phases (name # names) st"
  unfolding visit_rank_def by (auto intro!: card_mono)

lemma visit_total: "All visit_phase_visit_phases_dom"
proof (relation "measures [\<lambda>x. case x of Inl (phases, indices, name, st) \<Rightarrow> visit_rank phases [name] st
      | Inr (phases, indices, names, st) \<Rightarrow> visit_rank phases names st,
    \<lambda>x. case x of Inl _ \<Rightarrow> 0 | Inr (phases, indices, names, st) \<Rightarrow> Suc (length names)]", goal_cases)
  case 1
  then show ?case by simp
next
  case (2 phases indices name st phase)
  then show ?case using visit_rank_descend [of phases indices name phase st] by simp
next
  case (3 phases indices name names st)
  then show ?case using visit_rank_Cons(1) [of phases name st names] by (simp add: le_less)
next
  case (4 phases indices name names st q st')
  then have "visiting st' = visiting st" using visit_restores_visiting(1) by blast
  then show ?case using visit_rank_Cons(2) [of st' st phases names name] by (simp add: le_less)
qed

termination visit_phase
  by (rule visit_total)

lemma visit_keeps_visiting: "visit_phase phases indices name st = Some (Inr st') \<Longrightarrow> visiting st' = visiting st"
  using visit_restores_visiting(1) visit_total by blast

definition ordered_phases ::
  "workflow_phase list \<Rightarrow> (string \<Rightarrow> nat option) \<Rightarrow> (validation_error + string list) option" where
  "ordered_phases phases indices =
     map_option (map_sum id ordered)
       (visit_phases phases indices (map ph_name phases) \<lparr>visiting = {}, visited = {}, ordered = []\<rparr>)"

section \<open>The plan\<close>

text \<open>The map from a phase to its place in the order: \<open>collect\<close> of the enumerated names, so a later entry wins.\<close>

definition phase_order :: "string list \<Rightarrow> string \<Rightarrow> nat option" where
  "phase_order names = map_of (rev (zip names [0 ..< length names]))"

text \<open>The check of one dependency of a task on a result; \<open>None\<close> where an index panics.\<close>

definition check_result_dependency ::
  "(string \<Rightarrow> string option) \<Rightarrow> (string \<Rightarrow> nat option) \<Rightarrow> string \<Rightarrow> string \<Rightarrow> string
     \<Rightarrow> (validation_error + unit) option" where
  "check_result_dependency tphase order phase task dependency =
     (case tphase dependency of
        None \<Rightarrow> Some (Inl (InvalidTaskResultDependency task dependency))
      | Some dependency_phase \<Rightarrow>
         (case (order dependency_phase, order phase) of
            (Some d, Some p) \<Rightarrow>
              Some (if d \<ge> p then Inl (UnavailableTaskResultDependency task dependency dependency_phase phase)
                    else Inr ())
          | _ \<Rightarrow> None))"

fun check_all :: "('a \<Rightarrow> (validation_error + unit) option) \<Rightarrow> 'a list \<Rightarrow> (validation_error + unit) option" where
  "check_all f [] = Some (Inr ())"
| "check_all f (x # xs) = (case f x of Some (Inr _) \<Rightarrow> check_all f xs | r \<Rightarrow> r)"

definition check_results ::
  "(string \<Rightarrow> string option) \<Rightarrow> (string \<Rightarrow> nat option) \<Rightarrow> workflow_phase list \<Rightarrow> (validation_error + unit) option" where
  "check_results tphase order phases =
     check_all (\<lambda>phase. check_all (\<lambda>task.
       check_all (check_result_dependency tphase order (ph_name phase) (wt_id task)) (wt_depends_on_results task))
       (ph_tasks phase)) phases"

definition plan_phase :: "workflow_phase \<Rightarrow> phase_plan" where
  "plan_phase phase =
     \<lparr>pp_name = ph_name phase, pp_parallel = ph_parallel phase, pp_on_failure = ph_on_failure phase,
      pp_tasks = ph_tasks phase\<rparr>"

fun plan_phases ::
  "workflow_phase list \<Rightarrow> (string \<Rightarrow> nat option) \<Rightarrow> string list \<Rightarrow> phase_plan list option" where
  "plan_phases phases indices [] = Some []"
| "plan_phases phases indices (name # names) =
     (case (phase_at phases indices name, plan_phases phases indices names) of
        (Some phase, Some rest) \<Rightarrow> Some (plan_phase phase # rest)
      | _ \<Rightarrow> None)"

definition check_config :: "workflow_config \<Rightarrow> validation_error + name_maps" where
  "check_config config =
     res_bind (validate_non_empty ''workflow goal'' (wc_goal config)) (\<lambda>_.
       if \<not> (1 \<le> wc_max_concurrent config \<and> wc_max_concurrent config \<le> 20)
       then Inl (InvalidMaxConcurrent (wc_max_concurrent config))
       else if wc_phases config = [] then Inl EmptyWorkflow
       else res_bind (index_phases 0 (wc_phases config) \<lparr>phase_indices = Map.empty, task_phase = Map.empty\<rparr>) (\<lambda>maps.
            res_bind (check_phases (phase_indices maps) (wc_phases config)) (\<lambda>_. Inr maps)))"

definition from_config :: "workflow_config \<Rightarrow> (validation_error + workflow_plan) option" where
  "from_config config =
     (case check_config config of
        Inl e \<Rightarrow> Some (Inl e)
      | Inr maps \<Rightarrow>
         (case ordered_phases (wc_phases config) (phase_indices maps) of
            None \<Rightarrow> None
          | Some (Inl e) \<Rightarrow> Some (Inl e)
          | Some (Inr names) \<Rightarrow>
             (case check_results (task_phase maps) (phase_order names) (wc_phases config) of
                None \<Rightarrow> None
              | Some (Inl e) \<Rightarrow> Some (Inl e)
              | Some (Inr _) \<Rightarrow>
                  map_option (\<lambda>phases. Inr \<lparr>wp_goal = wc_goal config,
                      wp_max_concurrent = wc_max_concurrent config, wp_phases = phases\<rparr>)
                    (plan_phases (wc_phases config) (phase_indices maps) names))))"

definition validate_config :: "workflow_config \<Rightarrow> (validation_error + unit) option" where
  "validate_config config = map_option (map_sum id (\<lambda>_. ())) (from_config config)"

definition phase_names :: "workflow_plan \<Rightarrow> string list" where
  "phase_names plan = map pp_name (wp_phases plan)"

section \<open>Topological order\<close>

definition dependencies_of :: "workflow_phase list \<Rightarrow> (string \<Rightarrow> nat option) \<Rightarrow> string \<Rightarrow> string list" where
  "dependencies_of phases indices name =
     (case phase_at phases indices name of Some p \<Rightarrow> ph_depends_on p | None \<Rightarrow> [])"

definition edges :: "workflow_phase list \<Rightarrow> (string \<Rightarrow> nat option) \<Rightarrow> (string \<times> string) set" where
  "edges phases indices = {(n, d). d \<in> set (dependencies_of phases indices n)}"

text \<open>Every name comes once and after the names it depends on.\<close>

definition topological :: "(string \<Rightarrow> string list) \<Rightarrow> string list \<Rightarrow> bool" where
  "topological deps ns \<longleftrightarrow> distinct ns \<and> (\<forall>i < length ns. set (deps (ns ! i)) \<subseteq> set (take i ns))"

lemma topological_Nil [simp]: "topological deps []"
  by (simp add: topological_def)

lemma topological_snoc:
  assumes "topological deps ns" "n \<notin> set ns" "set (deps n) \<subseteq> set ns"
  shows "topological deps (ns @ [n])"
  using assms by (auto simp: topological_def nth_append less_Suc_eq)

lemma topological_acyclic:
  assumes "topological deps ns" "(n, m) \<in> {(n, d). d \<in> set (deps n)}\<^sup>+" "i < length ns" "ns ! i = n"
  shows "\<exists>j < i. ns ! j = m"
  using assms(2)
proof (induction rule: trancl_induct)
  case (base d)
  then have "d \<in> set (take i ns)" using assms by (auto simp: topological_def)
  then show ?case using assms(3) by (auto simp: in_set_conv_nth)
next
  case (step d e)
  then obtain j where j: "j < i" "ns ! j = d" by blast
  then have "j < length ns" using assms(3) by simp
  then have "e \<in> set (take j ns)" using step.hyps(2) assms(1) j(2) by (auto simp: topological_def)
  then show ?case using j assms(3) by (auto simp: in_set_conv_nth intro: less_trans)
qed

lemma topological_no_cycle:
  assumes "topological deps ns" "n \<in> set ns" shows "(n, n) \<notin> {(n, d). d \<in> set (deps n)}\<^sup>+"
proof
  assume c: "(n, n) \<in> {(n, d). d \<in> set (deps n)}\<^sup>+"
  obtain i where i: "i < length ns" "ns ! i = n" using assms(2) by (auto simp: in_set_conv_nth)
  from topological_acyclic [OF assms(1) c i] obtain j where "j < i" "ns ! j = n" by blast
  with i assms(1) show False by (auto simp: topological_def distinct_conv_nth)
qed

section \<open>The search\<close>

definition visit_ok :: "(string \<Rightarrow> string list) \<Rightarrow> visit_state \<Rightarrow> bool" where
  "visit_ok deps st \<longleftrightarrow> topological deps (ordered st) \<and> visited st = set (ordered st) \<and> visited st \<inter> visiting st = {}"

definition visit_done ::
  "(string \<Rightarrow> string list) \<Rightarrow> (string \<Rightarrow> workflow_phase option) \<Rightarrow> string set \<Rightarrow> visit_state \<Rightarrow> visit_state \<Rightarrow> bool" where
  "visit_done deps at names st st' \<longleftrightarrow>
     visit_ok deps st' \<and> visiting st' = visiting st \<and> visited st \<union> names \<subseteq> visited st'
     \<and> (\<forall>n \<in> visited st'. n \<in> visited st \<or> at n \<noteq> None)"

lemma visit_result:
  "visit_ok (dependencies_of phases indices) st \<Longrightarrow> visit_phase phases indices name st = Some (Inr st') \<Longrightarrow>
     visit_done (dependencies_of phases indices) (phase_at phases indices) {name} st st'"
  "visit_ok (dependencies_of phases indices) st \<Longrightarrow> visit_phases phases indices names st = Some (Inr st'') \<Longrightarrow>
     visit_done (dependencies_of phases indices) (phase_at phases indices) (set names) st st''"
proof (induction phases indices name st and phases indices names st arbitrary: st' and st''
    rule: visit_phase_visit_phases.induct)
  case (1 phases indices name st)
  show ?case
  proof (cases "name \<in> visited st \<or> name \<in> visiting st")
    case True
    with 1(2,3) show ?thesis by (auto simp: visit_done_def split: if_splits)
  next
    case False
    let ?st = "st\<lparr>visiting := insert name (visiting st)\<rparr>"
    obtain phase st1 where h: "phase_at phases indices name = Some phase"
      "visit_phases phases indices (ph_depends_on phase) ?st = Some (Inr st1)"
      "st' = st1\<lparr>visiting := visiting st1 - {name}, visited := insert name (visited st1), ordered := ordered st1 @ [name]\<rparr>"
      using False 1(3) by (auto split: option.splits sum.splits)
    have "visit_ok (dependencies_of phases indices) ?st" using 1(2) False by (auto simp: visit_ok_def)
    with 1(1) [OF _ _ h(1)] False h(2)
    have d: "visit_done (dependencies_of phases indices) (phase_at phases indices) (set (ph_depends_on phase)) ?st st1"
      by blast
    then have "name \<notin> visited st1" by (auto simp: visit_done_def visit_ok_def)
    moreover have "dependencies_of phases indices name = ph_depends_on phase" using h(1) by (simp add: dependencies_of_def)
    ultimately show ?thesis
      using d False h(1,3) by (auto simp: visit_done_def visit_ok_def intro!: topological_snoc)
  qed
next
  case (2 phases indices st)
  then show ?case by (simp add: visit_done_def)
next
  case (3 phases indices name names st)
  then obtain st1 where h: "visit_phase phases indices name st = Some (Inr st1)"
    "visit_phases phases indices names st1 = Some (Inr st'')" by (auto split: option.splits sum.splits)
  have a: "visit_done (dependencies_of phases indices) (phase_at phases indices) {name} st st1"
    using 3(1,3) h(1) by blast
  then have "visit_ok (dependencies_of phases indices) st1" by (simp add: visit_done_def)
  with 3(2) h have "visit_done (dependencies_of phases indices) (phase_at phases indices) (set names) st1 st''"
    by blast
  with a show ?case unfolding visit_done_def by auto
qed

text \<open>An error is a cycle: all names being visited lead to the one looked at.\<close>

lemma visit_error:
  "visit_phase phases indices name st = Some (Inl e) \<Longrightarrow> \<forall>v \<in> visiting st. (v, name) \<in> (edges phases indices)\<^sup>+ \<Longrightarrow>
     \<exists>c. e = PhaseDependencyCycle c \<and> (c, c) \<in> (edges phases indices)\<^sup>+"
  "visit_phases phases indices names st = Some (Inl e') \<Longrightarrow>
     \<forall>n \<in> set names. \<forall>v \<in> visiting st. (v, n) \<in> (edges phases indices)\<^sup>+ \<Longrightarrow>
     \<exists>c. e' = PhaseDependencyCycle c \<and> (c, c) \<in> (edges phases indices)\<^sup>+"
proof (induction phases indices name st and phases indices names st arbitrary: e and e'
    rule: visit_phase_visit_phases.induct)
  case (1 phases indices name st)
  show ?case
  proof (cases "name \<in> visiting st")
    case True
    with 1(2,3) show ?thesis by (auto split: if_splits)
  next
    case False
    let ?st = "st\<lparr>visiting := insert name (visiting st)\<rparr>"
    from False 1(2) obtain phase where h: "name \<notin> visited st" "phase_at phases indices name = Some phase"
      "visit_phases phases indices (ph_depends_on phase) ?st = Some (Inl e)"
      by (auto split: if_splits option.splits sum.splits)
    have "(name, n) \<in> edges phases indices" if "n \<in> set (ph_depends_on phase)" for n
      using that h(2) by (simp add: edges_def dependencies_of_def)
    then have "\<forall>n \<in> set (ph_depends_on phase). \<forall>v \<in> visiting ?st. (v, n) \<in> (edges phases indices)\<^sup>+"
      using 1(3) by (auto intro: trancl_into_trancl)
    then show ?thesis using 1(1) [OF h(1) False h(2)] h(3) by blast
  qed
next
  case (2 phases indices st)
  then show ?case by simp
next
  case (3 phases indices name names st)
  from 3(3) consider "visit_phase phases indices name st = Some (Inl e')"
    | st1 where "visit_phase phases indices name st = Some (Inr st1)" "visit_phases phases indices names st1 = Some (Inl e')"
    by (auto split: option.splits sum.splits)
  then show ?case
  proof cases
    case 1
    with 3(1,4) show ?thesis by simp
  next
    case (2 st1)
    have "visiting st1 = visiting st" using 2(1) by (rule visit_keeps_visiting)
    then have "\<forall>n \<in> set names. \<forall>v \<in> visiting st1. (v, n) \<in> (edges phases indices)\<^sup>+" using 3(4) by simp
    then show ?thesis using 3(2) 2 by blast
  qed
qed

text \<open>No index panics when every dependency is a phase.\<close>

lemma visit_never_panics:
  "phase_at phases indices name \<noteq> None \<Longrightarrow> \<forall>d \<in> all_dependencies phases. phase_at phases indices d \<noteq> None \<Longrightarrow>
     visit_phase phases indices name st \<noteq> None"
  "\<forall>n \<in> set names. phase_at phases indices n \<noteq> None \<Longrightarrow>
     \<forall>d \<in> all_dependencies phases. phase_at phases indices d \<noteq> None \<Longrightarrow>
     visit_phases phases indices names st \<noteq> None"
proof (induction phases indices name st and phases indices names st rule: visit_phase_visit_phases.induct)
  case (1 phases indices name st)
  then obtain p where p: "phase_at phases indices name = Some p" by blast
  then have "\<forall>n \<in> set (ph_depends_on p). phase_at phases indices n \<noteq> None"
    using phase_at_dependencies 1(3) by blast
  with 1(1) [OF _ _ p] 1(3) have "name \<notin> visited st \<Longrightarrow> name \<notin> visiting st \<Longrightarrow>
      visit_phases phases indices (ph_depends_on p) (st\<lparr>visiting := insert name (visiting st)\<rparr>) \<noteq> None" by blast
  then show ?case
    by (cases "name \<in> visited st \<or> name \<in> visiting st") (auto simp: p split: option.splits sum.splits)
next
  case (2 phases indices st)
  then show ?case by simp
next
  case (3 phases indices name names st)
  then show ?case by (auto simp del: visit_phase.simps split: option.splits sum.splits)
qed

section \<open>What validation establishes\<close>

lemma index_tasks_result:
  assumes "index_tasks ph tasks maps = Inr maps'"
  shows "phase_indices maps' = phase_indices maps \<and> distinct (map wt_id tasks)
    \<and> (\<forall>t \<in> set tasks. task_phase maps (wt_id t) = None)
    \<and> (\<forall>d. task_phase maps' d = (if d \<in> wt_id ` set tasks then Some ph else task_phase maps d))"
  using assms
proof (induction tasks arbitrary: maps)
  case (Cons t tasks)
  from Cons.prems have n: "task_phase maps (wt_id t) = None"
    and r: "index_tasks ph tasks (maps\<lparr>task_phase := (task_phase maps)(wt_id t \<mapsto> ph)\<rparr>) = Inr maps'"
    by (auto simp: res_bind_Inr split: if_splits)
  from Cons.IH [OF r] n show ?case by (auto split: if_splits)
qed simp

definition maps_ok :: "workflow_phase list \<Rightarrow> nat \<Rightarrow> name_maps \<Rightarrow> name_maps \<Rightarrow> bool" where
  "maps_ok phases i maps maps' \<longleftrightarrow>
     distinct (map ph_name phases)
     \<and> (\<forall>p \<in> set phases. phase_indices maps (ph_name p) = None)
     \<and> (\<forall>k < length phases. phase_indices maps' (ph_name (phases ! k)) = Some (i + k))
     \<and> (\<forall>n. n \<notin> ph_name ` set phases \<longrightarrow> phase_indices maps' n = phase_indices maps n)
     \<and> (\<forall>d p. task_phase maps' d = Some p \<longrightarrow> task_phase maps d = Some p
           \<or> (\<exists>ph \<in> set phases. ph_name ph = p \<and> d \<in> wt_id ` set (ph_tasks ph)))"

lemma index_phases_result:
  "index_phases i phases maps = Inr maps' \<Longrightarrow> maps_ok phases i maps maps'"
proof (induction phases arbitrary: i maps)
  case Nil
  then show ?case by (simp add: maps_ok_def)
next
  case (Cons p phases)
  let ?maps = "maps\<lparr>phase_indices := (phase_indices maps)(ph_name p \<mapsto> i)\<rparr>"
  from Cons.prems obtain m where n: "phase_indices maps (ph_name p) = None"
    and t: "index_tasks (ph_name p) (ph_tasks p) ?maps = Inr m" and r: "index_phases (i + 1) phases m = Inr maps'"
    by (auto simp: res_bind_Inr split: if_splits)
  note ih = Cons.IH [OF r] and ts = index_tasks_result [OF t]
  have m: "phase_indices m = (phase_indices maps)(ph_name p \<mapsto> i)"
    "\<And>d. task_phase m d = (if d \<in> wt_id ` set (ph_tasks p) then Some (ph_name p) else task_phase maps d)"
    using ts by simp_all
  have fresh: "ph_name p \<notin> ph_name ` set phases"
  proof
    assume "ph_name p \<in> ph_name ` set phases"
    then obtain q where "q \<in> set phases" "ph_name q = ph_name p" by auto
    with ih m(1) show False by (auto simp: maps_ok_def)
  qed
  have "phase_indices maps' (ph_name ((p # phases) ! k)) = Some (i + k)" if "k < length (p # phases)" for k
  proof (cases k)
    case 0
    then show ?thesis using ih fresh m(1) by (simp add: maps_ok_def)
  next
    case (Suc j)
    then show ?thesis using ih that by (simp add: maps_ok_def)
  qed
  moreover have "\<forall>q \<in> set phases. phase_indices maps (ph_name q) = None"
    using ih m(1) fresh by (force simp: maps_ok_def split: if_splits)
  moreover have "\<forall>d q. task_phase maps' d = Some q \<longrightarrow> task_phase maps d = Some q
           \<or> (\<exists>ph \<in> set (p # phases). ph_name ph = q \<and> d \<in> wt_id ` set (ph_tasks ph))"
  proof (intro allI impI)
    fix d q assume "task_phase maps' d = Some q"
    then consider "task_phase m d = Some q" | "\<exists>ph \<in> set phases. ph_name ph = q \<and> d \<in> wt_id ` set (ph_tasks ph)"
      using ih unfolding maps_ok_def by blast
    then show "task_phase maps d = Some q \<or> (\<exists>ph \<in> set (p # phases). ph_name ph = q \<and> d \<in> wt_id ` set (ph_tasks ph))"
      by cases (auto simp: m(2) split: if_splits)
  qed
  ultimately show ?case
    using ih fresh n m(1) unfolding maps_ok_def by (auto simp del: nth_Cons_Suc)
qed

lemma check_phases_result:
  "check_phases indices phases = Inr u \<Longrightarrow>
     \<forall>p \<in> set phases. (\<forall>d \<in> set (ph_depends_on p). indices d \<noteq> None) \<and> validate_parallel_write_scope p = Inr ()"
  by (induction phases) (auto simp: res_bind_Inr find_None_iff split: option.splits)

text \<open>A checked configuration: phases are found by their names, and dependencies are phases.\<close>

lemma checked_config:
  assumes "check_config config = Inr maps"
  shows "distinct (map ph_name (wc_phases config))"
    and "phase_at (wc_phases config) (phase_indices maps) n = Some p \<longleftrightarrow> p \<in> set (wc_phases config) \<and> ph_name p = n"
    and "p \<in> set (wc_phases config) \<Longrightarrow> d \<in> set (ph_depends_on p) \<Longrightarrow> d \<in> ph_name ` set (wc_phases config)"
    and "p \<in> set (wc_phases config) \<Longrightarrow> validate_parallel_write_scope p = Inr ()"
    and "task_phase maps t = Some q \<Longrightarrow>
           \<exists>ph \<in> set (wc_phases config). ph_name ph = q \<and> t \<in> wt_id ` set (ph_tasks ph)"
proof -
  let ?ps = "wc_phases config"
  from assms obtain u where i: "index_phases 0 ?ps \<lparr>phase_indices = Map.empty, task_phase = Map.empty\<rparr> = Inr maps"
    and c: "check_phases (phase_indices maps) ?ps = Inr u"
    by (auto simp: check_config_def res_bind_Inr split: if_splits)
  note ok = index_phases_result [OF i, unfolded maps_ok_def]
  show d: "distinct (map ph_name ?ps)" using ok by blast
  have at: "phase_at ?ps (phase_indices maps) (ph_name (?ps ! k)) = Some (?ps ! k)" if "k < length ?ps" for k
    using ok that by (simp add: phase_at_def)
  have out: "phase_indices maps n = None" if "n \<notin> ph_name ` set ?ps" for n
    using ok that by simp
  show pa: "phase_at ?ps (phase_indices maps) n = Some p \<longleftrightarrow> p \<in> set ?ps \<and> ph_name p = n" for n p
  proof
    assume l: "phase_at ?ps (phase_indices maps) n = Some p"
    then have "n \<in> ph_name ` set ?ps" using out [of n] by (auto simp: phase_at_def split: option.splits)
    then obtain k where "k < length ?ps" "n = ph_name (?ps ! k)" by (auto simp: in_set_conv_nth)
    with at l show "p \<in> set ?ps \<and> ph_name p = n" by auto
  next
    assume "p \<in> set ?ps \<and> ph_name p = n"
    then obtain k where "k < length ?ps" "?ps ! k = p" "ph_name p = n" by (auto simp: in_set_conv_nth)
    with at [of k] show "phase_at ?ps (phase_indices maps) n = Some p" by (simp only:)
  qed
  show "d \<in> ph_name ` set ?ps" if "p \<in> set ?ps" "d \<in> set (ph_depends_on p)" for p d
    using check_phases_result [OF c] that out [of d] by blast
  show "validate_parallel_write_scope p = Inr ()" if "p \<in> set ?ps" for p
    using check_phases_result [OF c] that by blast
  show "\<exists>ph \<in> set ?ps. ph_name ph = q \<and> t \<in> wt_id ` set (ph_tasks ph)" if "task_phase maps t = Some q" for t q
    using ok that by auto
qed

text \<open>The dependency graph of a configuration.\<close>

definition phase_edges :: "workflow_config \<Rightarrow> (string \<times> string) set" where
  "phase_edges config = {(ph_name p, d) | p d. p \<in> set (wc_phases config) \<and> d \<in> set (ph_depends_on p)}"

lemma edges_of_config:
  assumes "check_config config = Inr maps"
  shows "edges (wc_phases config) (phase_indices maps) = phase_edges config"
proof -
  have eq: "d \<in> set (dependencies_of (wc_phases config) (phase_indices maps) n) \<longleftrightarrow>
      (\<exists>p. (p \<in> set (wc_phases config) \<and> ph_name p = n) \<and> d \<in> set (ph_depends_on p))" for n d
    unfolding checked_config(2) [OF assms, symmetric]
    by (cases "phase_at (wc_phases config) (phase_indices maps) n") (simp_all add: dependencies_of_def)
  show ?thesis by (auto simp: edges_def phase_edges_def eq)
qed

lemma phase_at_name:
  assumes "check_config config = Inr maps" "phase_at (wc_phases config) (phase_indices maps) n \<noteq> None"
  shows "n \<in> ph_name ` set (wc_phases config)"
proof -
  obtain p where "phase_at (wc_phases config) (phase_indices maps) n = Some p" using assms(2) by blast
  then have "p \<in> set (wc_phases config)" "ph_name p = n" using checked_config(2) [OF assms(1), of n p] by auto
  then show ?thesis by blast
qed

lemma ordered_phases_result:
  assumes "check_config config = Inr maps"
  shows "case ordered_phases (wc_phases config) (phase_indices maps) of
      None \<Rightarrow> False
    | Some (Inl e) \<Rightarrow> \<exists>c. e = PhaseDependencyCycle c \<and> (c, c) \<in> (phase_edges config)\<^sup>+
    | Some (Inr ns) \<Rightarrow> topological (dependencies_of (wc_phases config) (phase_indices maps)) ns
        \<and> set ns = ph_name ` set (wc_phases config)"
proof -
  let ?ps = "wc_phases config" and ?ix = "phase_indices maps"
  let ?st = "\<lparr>visiting = {}, visited = {}, ordered = []\<rparr>" and ?names = "map ph_name (wc_phases config)"
  have known: "phase_at ?ps ?ix n \<noteq> None" if "n \<in> ph_name ` set ?ps" for n
    using that checked_config(2) [OF assms] by blast
  have "visit_phases ?ps ?ix ?names ?st \<noteq> None"
  proof (rule visit_never_panics(2))
    show "\<forall>n \<in> set ?names. phase_at ?ps ?ix n \<noteq> None" using known by simp
    show "\<forall>d \<in> all_dependencies ?ps. phase_at ?ps ?ix d \<noteq> None"
      using known checked_config(3) [OF assms] unfolding all_dependencies_def by blast
  qed
  then obtain r where r: "visit_phases ?ps ?ix ?names ?st = Some r" by blast
  show ?thesis
  proof (cases r)
    case (Inl e)
    then show ?thesis
      using visit_error(2) [of ?ps ?ix ?names ?st e] r edges_of_config [OF assms] by (simp add: ordered_phases_def)
  next
    case (Inr st)
    have "visit_ok (dependencies_of ?ps ?ix) ?st" by (simp add: visit_ok_def)
    then have d: "visit_done (dependencies_of ?ps ?ix) (phase_at ?ps ?ix) (set ?names) ?st st"
      using r unfolding Inr by (rule visit_result(2))
    have v: "topological (dependencies_of ?ps ?ix) (ordered st)" "visited st = set (ordered st)"
      using d unfolding visit_done_def visit_ok_def by blast+
    have "ph_name ` set ?ps \<subseteq> visited st" using d unfolding visit_done_def set_map by blast
    moreover have "\<forall>n \<in> visited st. phase_at ?ps ?ix n \<noteq> None" using d unfolding visit_done_def by simp
    then have "visited st \<subseteq> ph_name ` set ?ps" using phase_at_name [OF assms] by blast
    ultimately have "set (ordered st) = ph_name ` set ?ps" unfolding v(2) by blast
    then show ?thesis using r Inr v(1) by (simp add: ordered_phases_def)
  qed
qed

section \<open>What a plan promises\<close>

lemma phase_order_iff:
  assumes "distinct ns"
  shows "phase_order ns n = Some i \<longleftrightarrow> i < length ns \<and> ns ! i = n"
proof -
  have "distinct (map fst (rev (zip ns [0 ..< length ns])))" using assms by (simp flip: rev_map)
  then show ?thesis by (auto simp: phase_order_def map_of_eq_Some_iff set_zip)
qed

lemma phase_order_known: "n \<in> set ns \<Longrightarrow> phase_order ns n \<noteq> None"
  by (auto simp: phase_order_def map_of_eq_None_iff set_zip in_set_conv_nth image_iff)

lemma check_all_ok: "check_all f xs = Some (Inr u) \<longleftrightarrow> (\<forall>x \<in> set xs. f x = Some (Inr ()))"
  by (induction xs) (auto split: option.splits sum.splits)

lemma check_all_total: "\<forall>x \<in> set xs. f x \<noteq> None \<Longrightarrow> check_all f xs \<noteq> None"
  by (induction xs) (auto split: option.splits sum.splits)

lemma plan_phases_result:
  "plan_phases phases indices ns = Some ps \<Longrightarrow>
     list_all2 (\<lambda>n p. \<exists>ph. phase_at phases indices n = Some ph \<and> p = plan_phase ph) ns ps"
  by (induction ns arbitrary: ps) (auto split: option.splits)

lemma plan_phases_total:
  "\<forall>n \<in> set ns. phase_at phases indices n \<noteq> None \<Longrightarrow> plan_phases phases indices ns \<noteq> None"
  by (induction ns) (auto split: option.splits)

text \<open>
  Compiling a workflow configuration never panics: every index into the maps of phases and of their order is
  there, whatever the names and dependencies given.
\<close>

theorem from_config_never_panics: "from_config config \<noteq> None"
proof (cases "check_config config")
  case (Inl e)
  then show ?thesis by (simp add: from_config_def)
next
  case (Inr maps)
  note ord = ordered_phases_result [OF Inr]
  show ?thesis
  proof (cases "\<exists>ns. ordered_phases (wc_phases config) (phase_indices maps) = Some (Inr ns)")
    case False
    then show ?thesis using ord Inr by (auto simp: from_config_def split: option.splits sum.splits)
  next
    case True
    then obtain ns where ns: "ordered_phases (wc_phases config) (phase_indices maps) = Some (Inr ns)" by blast
    with ord have names: "set ns = ph_name ` set (wc_phases config)" by simp
    have "check_result_dependency (task_phase maps) (phase_order ns) (ph_name ph) t d \<noteq> None"
      if "ph \<in> set (wc_phases config)" for ph t d
    proof (cases "task_phase maps d")
      case (Some q)
      then have "q \<in> set ns" "ph_name ph \<in> set ns" using checked_config(5) [OF Inr Some] that by (auto simp: names)
      with Some phase_order_known [of q ns] phase_order_known [of "ph_name ph" ns] show ?thesis
        by (auto simp: check_result_dependency_def)
    qed (simp add: check_result_dependency_def)
    then have "check_results (task_phase maps) (phase_order ns) (wc_phases config) \<noteq> None"
      unfolding check_results_def by (intro check_all_total ballI)
    moreover have "phase_at (wc_phases config) (phase_indices maps) n \<noteq> None" if "n \<in> set ns" for n
    proof -
      have "n \<in> ph_name ` set (wc_phases config)" using that names by simp
      then obtain ph where "ph \<in> set (wc_phases config)" "ph_name ph = n" by blast
      then show ?thesis using checked_config(2) [OF Inr, of n ph] by simp
    qed
    then have "plan_phases (wc_phases config) (phase_indices maps) ns \<noteq> None" by (intro plan_phases_total ballI)
    ultimately show ?thesis using Inr ns by (auto simp: from_config_def split: option.splits sum.splits)
  qed
qed

lemma from_config_plan:
  assumes "from_config config = Some (Inr plan)"
  obtains maps ns where "check_config config = Inr maps"
    "ordered_phases (wc_phases config) (phase_indices maps) = Some (Inr ns)"
    "check_results (task_phase maps) (phase_order ns) (wc_phases config) = Some (Inr ())"
    "plan_phases (wc_phases config) (phase_indices maps) ns = Some (wp_phases plan)"
  using assms by (auto simp: from_config_def split: sum.splits option.splits)

definition result_ids :: "phase_plan list \<Rightarrow> string set" where
  "result_ids ps = (\<Union>p \<in> set ps. wt_id ` set (pp_tasks p))"

lemma planned_phases:
  assumes planned: "list_all2 (\<lambda>n q. \<exists>ph. (ph \<in> set ps \<and> ph_name ph = n) \<and> q = plan_phase ph) ns qs"
    and names: "set ns = ph_name ` set ps" and dist: "distinct (map ph_name ps)"
  shows "map pp_name qs = ns" and "set qs = plan_phase ` set ps"
    and "\<And>i ph. i < length ns \<Longrightarrow> ph \<in> set ps \<Longrightarrow> ph_name ph = ns ! i \<Longrightarrow> qs ! i = plan_phase ph"
proof -
  have len: "length qs = length ns" using planned by (simp add: list_all2_lengthD)
  have nth: "\<exists>ph. ph \<in> set ps \<and> ph_name ph = ns ! i \<and> qs ! i = plan_phase ph" if "i < length ns" for i
    using list_all2_nthD [OF planned that] by blast
  have inj: "ph = ph'" if "ph \<in> set ps" "ph' \<in> set ps" "ph_name ph = ph_name ph'" for ph ph'
    using dist that by (auto simp: distinct_map dest: inj_onD)
  show "map pp_name qs = ns" using nth len by (fastforce simp: plan_phase_def intro: nth_equalityI)
  show at: "qs ! i = plan_phase ph" if "i < length ns" "ph \<in> set ps" "ph_name ph = ns ! i" for i ph
    using nth [OF that(1)] inj that by metis
  show "set qs = plan_phase ` set ps"
  proof
    show "set qs \<subseteq> plan_phase ` set ps" using nth len by (force simp: in_set_conv_nth)
    show "plan_phase ` set ps \<subseteq> set qs"
    proof
      fix q assume "q \<in> plan_phase ` set ps"
      then obtain ph where ph: "ph \<in> set ps" "q = plan_phase ph" by blast
      then obtain i where i: "i < length ns" "ns ! i = ph_name ph" using names by (metis imageI in_set_conv_nth)
      then show "q \<in> set qs" using at [OF i(1) ph(1)] ph(2) len by (metis nth_mem)
    qed
  qed
qed

text \<open>
  C19: A compiled plan holds every phase of the configuration once, and each phase comes after the phases it depends
  on and after every task whose result one of its tasks uses.
\<close>

theorem plan_respects_dependencies:
  assumes "from_config config = Some (Inr plan)"
  shows "distinct (phase_names plan) \<and> set (wp_phases plan) = plan_phase ` set (wc_phases config)
    \<and> (\<forall>i < length (wp_phases plan). \<forall>ph \<in> set (wc_phases config). plan_phase ph = wp_phases plan ! i \<longrightarrow>
         set (ph_depends_on ph) \<subseteq> pp_name ` set (take i (wp_phases plan))
         \<and> (\<forall>t \<in> set (ph_tasks ph). set (wt_depends_on_results t) \<subseteq> result_ids (take i (wp_phases plan))))"
proof -
  let ?ps = "wc_phases config"
  from assms obtain maps ns where c: "check_config config = Inr maps"
    and o: "ordered_phases ?ps (phase_indices maps) = Some (Inr ns)"
    and r: "check_results (task_phase maps) (phase_order ns) ?ps = Some (Inr ())"
    and p: "plan_phases ?ps (phase_indices maps) ns = Some (wp_phases plan)" by (rule from_config_plan)
  note ck = checked_config [OF c]
  have top: "topological (dependencies_of ?ps (phase_indices maps)) ns" and names: "set ns = ph_name ` set ?ps"
    using ordered_phases_result [OF c] o by simp_all
  then have dist: "distinct ns" by (simp add: topological_def)
  have l2: "list_all2 (\<lambda>n q. \<exists>ph. (ph \<in> set ?ps \<and> ph_name ph = n) \<and> q = plan_phase ph) ns (wp_phases plan)"
    using plan_phases_result [OF p] unfolding ck(2) .
  note ph_of = planned_phases [OF l2 names ck(1)]
  have len: "length (wp_phases plan) = length ns" and ns: "phase_names plan = ns"
    using ph_of(1) by (auto simp: phase_names_def)
  have name: "ph_name ph = ns ! i" if "i < length ns" "plan_phase ph = wp_phases plan ! i" for i ph
    using that len ph_of(1) by (metis nth_map phase_plan.select_convs(1) plan_phase_def)
  have "set (ph_depends_on ph) \<subseteq> pp_name ` set (take i (wp_phases plan))
      \<and> (\<forall>t \<in> set (ph_tasks ph). set (wt_depends_on_results t) \<subseteq> result_ids (take i (wp_phases plan)))"
    if i: "i < length ns" and ph: "ph \<in> set ?ps" "plan_phase ph = wp_phases plan ! i" for i ph
  proof (intro conjI ballI subsetI)
    have name: "ns ! i = ph_name ph" using name [OF i ph(2)] by simp
    then have "dependencies_of ?ps (phase_indices maps) (ns ! i) = ph_depends_on ph"
      using ck(2) [of "ns ! i" ph] ph(1) by (simp add: dependencies_of_def)
    then have "set (ph_depends_on ph) \<subseteq> set (take i ns)" using top i by (metis topological_def)
    then show "d \<in> pp_name ` set (take i (wp_phases plan))" if "d \<in> set (ph_depends_on ph)" for d
      using that ns by (auto simp: phase_names_def take_map)
    fix t d assume t: "t \<in> set (ph_tasks ph)" "d \<in> set (wt_depends_on_results t)"
    then have "check_result_dependency (task_phase maps) (phase_order ns) (ph_name ph) (wt_id t) d = Some (Inr ())"
      using r ph(1) by (simp add: check_results_def check_all_ok)
    then obtain q k l where q: "task_phase maps d = Some q" "phase_order ns q = Some k" "phase_order ns (ph_name ph) = Some l"
      "k < l" by (auto simp: check_result_dependency_def split: option.splits if_splits)
    moreover have "phase_order ns (ph_name ph) = Some i" using i name dist by (simp add: phase_order_iff)
    ultimately have k: "k < i" "ns ! k = q" "k < length ns" using dist by (auto simp: phase_order_iff)
    obtain ph' where ph': "ph' \<in> set ?ps" "ph_name ph' = q" "d \<in> wt_id ` set (ph_tasks ph')"
      using ck(5) [OF q(1)] by blast
    have "wp_phases plan ! k = plan_phase ph'" using ph_of(3) [OF k(3)] ph'(1,2) k(2) by simp
    moreover have "wp_phases plan ! k \<in> set (take i (wp_phases plan))" using k len i by (auto simp: in_set_conv_nth)
    ultimately show "d \<in> result_ids (take i (wp_phases plan))" using ph'(3) by (force simp: result_ids_def plan_phase_def)
  qed
  then show ?thesis using dist ns len ph_of(2) by simp
qed

lemma check_all_error: "check_all f xs = Some (Inl e) \<Longrightarrow> \<exists>x \<in> set xs. f x = Some (Inl e)"
  by (induction xs) (auto split: option.splits sum.splits)

lemma check_results_error:
  assumes "check_results tphase order phases = Some (Inl e)" shows "e \<noteq> PhaseDependencyCycle c"
proof -
  obtain ph t d where "check_result_dependency tphase order ph t d = Some (Inl e)"
    using assms unfolding check_results_def by (blast dest!: check_all_error)
  then show ?thesis by (auto simp: check_result_dependency_def split: option.splits if_splits)
qed

lemma index_tasks_error: "index_tasks phase tasks maps = Inl e \<Longrightarrow> e \<noteq> PhaseDependencyCycle c"
  by (induction phase tasks maps rule: index_tasks.induct)
    (auto simp: res_bind_def validate_non_empty_def split: if_splits sum.splits)

lemma check_config_error: "check_config config = Inl e \<Longrightarrow> e \<noteq> PhaseDependencyCycle c"
proof -
  have index: "index_phases n ps maps = Inl e \<Longrightarrow> e \<noteq> PhaseDependencyCycle c" for n ps maps
    by (induction n ps maps rule: index_phases.induct)
      (auto simp: res_bind_def validate_non_empty_def dest: index_tasks_error split: if_splits sum.splits)
  have checks: "check_phases ix ps = Inl e \<Longrightarrow> e \<noteq> PhaseDependencyCycle c" for ix ps
    by (induction ix ps rule: check_phases.induct)
      (auto simp: res_bind_def validate_parallel_write_scope_def split: if_splits sum.splits option.splits)
  show "check_config config = Inl e \<Longrightarrow> e \<noteq> PhaseDependencyCycle c"
    using index checks
    by (auto simp: check_config_def res_bind_def validate_non_empty_def split: if_splits sum.splits)
qed

text \<open>After the checks that come first, a configuration is refused for a cycle exactly when there is one.\<close>

lemma cycle_after_checks:
  assumes "check_config config = Inr maps"
  shows "if acyclic (phase_edges config) then \<forall>c. from_config config \<noteq> Some (Inl (PhaseDependencyCycle c))
    else \<exists>c. from_config config = Some (Inl (PhaseDependencyCycle c)) \<and> (c, c) \<in> (phase_edges config)\<^sup>+"
proof -
  let ?ps = "wc_phases config"
  note ord = ordered_phases_result [OF assms]
  show ?thesis
  proof (cases "\<exists>ns. ordered_phases ?ps (phase_indices maps) = Some (Inr ns)")
    case True
    then obtain ns where ns: "ordered_phases ?ps (phase_indices maps) = Some (Inr ns)" by blast
    with ord have top: "topological (dependencies_of ?ps (phase_indices maps)) ns"
      and names: "set ns = ph_name ` set ?ps" by simp_all
    have "(n, n) \<notin> (phase_edges config)\<^sup>+" for n
    proof
      assume c: "(n, n) \<in> (phase_edges config)\<^sup>+"
      then have "n \<in> set ns" unfolding names by (auto simp: phase_edges_def elim: converse_tranclE)
      from topological_no_cycle [OF top this] c show False
        unfolding edges_of_config [OF assms, symmetric] edges_def by blast
    qed
    then have "acyclic (phase_edges config)" by (simp add: acyclic_def)
    moreover have "from_config config \<noteq> Some (Inl (PhaseDependencyCycle c))" for c
      using assms ns check_results_error by (auto simp: from_config_def split: option.splits sum.splits)
    ultimately show ?thesis by simp
  next
    case False
    with ord obtain c where c: "ordered_phases ?ps (phase_indices maps) = Some (Inl (PhaseDependencyCycle c))"
      "(c, c) \<in> (phase_edges config)\<^sup>+" by (auto split: option.splits sum.splits)
    then have "\<not> acyclic (phase_edges config)" by (auto simp: acyclic_def)
    moreover have "from_config config = Some (Inl (PhaseDependencyCycle c))"
      using assms c(1) by (simp add: from_config_def)
    ultimately show ?thesis using c(2) by auto
  qed
qed

text \<open>
  C36: A configuration whose phases depend on each other in a cycle is never compiled: it is refused with the first
  error of the earlier checks, which find a phase that depends on itself, or else with the cycle, naming a phase that
  lies on one. A configuration without a cycle is never refused for one.
\<close>

theorem cycle_is_reported_iff_there_is_one:
  "if acyclic (phase_edges config) then \<forall>c. from_config config \<noteq> Some (Inl (PhaseDependencyCycle c))
   else case check_config config of
       Inl e \<Rightarrow> from_config config = Some (Inl e)
     | Inr maps \<Rightarrow> \<exists>c. from_config config = Some (Inl (PhaseDependencyCycle c)) \<and> (c, c) \<in> (phase_edges config)\<^sup>+"
proof (cases "check_config config")
  case (Inl e)
  then show ?thesis using check_config_error [OF Inl] by (simp add: from_config_def)
next
  case (Inr maps)
  then show ?thesis using cycle_after_checks [OF Inr] by simp
qed

section \<open>Parallel writers\<close>

text \<open>A path, as its components, lies in a scope without globs when the components of the scope begin it.\<close>

definition glob_free :: "string \<Rightarrow> bool" where
  "glob_free scope \<longleftrightarrow> CHR ''*'' \<notin> set (normalize_scope scope)"

definition lies_in :: "string list \<Rightarrow> string \<Rightarrow> bool" where
  "lies_in path scope \<longleftrightarrow> prefix (scope_components (normalize_scope scope)) path"

lemma lies_in_both:
  assumes "glob_free left" "glob_free right" "lies_in path left" "lies_in path right"
  shows "scope_overlaps left right"
  using assms prefix_same_cases [of _ path]
  by (auto simp: scope_overlaps_def Let_def glob_free_def lies_in_def path_starts_with_def)

lemma overlapping_pair_None:
  assumes "overlapping_pair ts = None" "i < j" "j < length ts"
  shows "\<not> scopes_overlap (wt_file_scope (ts ! i)) (wt_file_scope (ts ! j))"
  using assms
proof (induction ts arbitrary: i j)
  case (Cons t ts)
  then obtain j' where j: "j = Suc j'" "j' < length ts" by (cases j) auto
  from Cons.prems(1) have f: "find (\<lambda>right. scopes_overlap (wt_file_scope t) (wt_file_scope right)) ts = None"
    and r: "overlapping_pair ts = None" by (auto split: option.splits)
  show ?case
  proof (cases i)
    case 0
    then show ?thesis using f j by (simp add: find_None_iff)
  next
    case (Suc i')
    then show ?thesis using Cons.IH [OF r, of i' j'] Cons.prems(2) j by simp
  qed
qed simp

text \<open>
  In a compiled plan, two read-write tasks of a phase that runs in parallel never share a path: no path lies both
  in a scope of the one and in a scope of the other, for scopes without wildcards, and each of them declares a scope.
\<close>

theorem parallel_writers_are_apart:
  assumes "from_config config = Some (Inr plan)" "ph \<in> set (wc_phases config)" "ph_parallel ph"
    "i < j" "j < length (write_tasks ph)"
    "left \<in> set (wt_file_scope (write_tasks ph ! i))" "right \<in> set (wt_file_scope (write_tasks ph ! j))"
    "glob_free left" "glob_free right"
  shows "\<not> (lies_in path left \<and> lies_in path right) \<and> list_all (\<lambda>t. wt_file_scope t \<noteq> []) (write_tasks ph)"
proof -
  obtain maps where "check_config config = Inr maps" using assms(1) by (rule from_config_plan)
  then have v: "validate_parallel_write_scope ph = Inr ()" using assms(2) by (rule checked_config(4))
  then have o: "overlapping_pair (write_tasks ph) = None" and s: "find (\<lambda>t. wt_file_scope t = []) (write_tasks ph) = None"
    using assms(3) by (auto simp: validate_parallel_write_scope_def split: option.splits)
  have "\<not> scope_overlaps left right"
    using overlapping_pair_None [OF o assms(4,5)] assms(6,7) by (auto simp: scopes_overlap_def list_ex_iff)
  with lies_in_both [OF assms(8,9)] s show ?thesis by (auto simp: find_None_iff list_all_iff)
qed


text \<open>With wildcards the promise fails: two scopes are compared by the text before the first star, so a pattern and a
  file it matches are taken to be apart.\<close>

lemma wildcard_scopes_may_meet:
  "scope_overlaps ''src/*.rs'' ''src/main.rs'' = False" "scope_overlaps ''**/lib.rs'' ''src/lib.rs'' = False"
  by code_simp+

text \<open>Scopes are compared as text: a path with a parent component is not recognised.\<close>

lemma parent_components_are_not_resolved: "scope_overlaps ''docs/../src'' ''src'' = False"
  by code_simp

section \<open>An example\<close>

definition demo_task :: "string \<Rightarrow> task_mode \<Rightarrow> string list \<Rightarrow> string list \<Rightarrow> workflow_task" where
  "demo_task i mode scope results =
     \<lparr>wt_id = i, wt_prompt = ''do'', wt_agent_type = General, wt_mode = mode, wt_isolation = Shared,
      wt_file_scope = scope, wt_depends_on_results = results, wt_max_steps = None, wt_timeout_secs = None\<rparr>"

definition demo_phase :: "string \<Rightarrow> string list \<Rightarrow> workflow_task list \<Rightarrow> workflow_phase" where
  "demo_phase name deps tasks =
     \<lparr>ph_name = name, ph_description = None, ph_depends_on = deps, ph_parallel = True,
      ph_on_failure = SkipContinue, ph_tasks = tasks\<rparr>"

definition demo_config :: workflow_config where
  "demo_config = \<lparr>wc_goal = ''goal'', wc_max_concurrent = 4, wc_description = None, wc_phases =
     [demo_phase ''edit'' [''scan''] [demo_task ''e1'' ReadWrite [''src/a''] [''s''], demo_task ''e2'' ReadWrite [''src/b''] []],
      demo_phase ''scan'' [] [demo_task ''s'' ReadOnly [] []]]\<rparr>"

definition demo_cycle :: workflow_config where
  "demo_cycle = demo_config\<lparr>wc_phases :=
     [demo_phase ''x'' [''y''] [demo_task ''t'' ReadOnly [] []], demo_phase ''y'' [''x''] [demo_task ''u'' ReadOnly [] []]]\<rparr>"

lemma demo_plan:
  "from_config demo_config = Some (Inr \<lparr>wp_goal = ''goal'', wp_max_concurrent = 4, wp_phases =
     map plan_phase (rev (wc_phases demo_config))\<rparr>)"
  by code_simp

theorem plan_respects_dependencies_witness:
  "set (wp_phases \<lparr>wp_goal = ''goal'', wp_max_concurrent = 4, wp_phases = map plan_phase (rev (wc_phases demo_config))\<rparr>)
     = plan_phase ` set (wc_phases demo_config)"
  using plan_respects_dependencies [OF demo_plan] by (elim conjE)

theorem cycle_is_reported_iff_there_is_one_witness:
  "\<exists>c. from_config demo_cycle = Some (Inl (PhaseDependencyCycle c)) \<and> (c, c) \<in> (phase_edges demo_cycle)\<^sup>+"
proof -
  have "\<not> isl (check_config demo_cycle)" by code_simp
  then obtain maps where maps: "check_config demo_cycle = Inr maps" by (cases "check_config demo_cycle") auto
  have ps: "demo_phase ''x'' [''y''] [demo_task ''t'' ReadOnly [] []] \<in> set (wc_phases demo_cycle)"
    "demo_phase ''y'' [''x''] [demo_task ''u'' ReadOnly [] []] \<in> set (wc_phases demo_cycle)"
    by (simp_all add: demo_cycle_def)
  have "(''x'', ''y'') \<in> phase_edges demo_cycle" "(''y'', ''x'') \<in> phase_edges demo_cycle"
    using ps by (force simp: phase_edges_def demo_phase_def)+
  then have "\<not> acyclic (phase_edges demo_cycle)" by (meson acyclic_def trancl.r_into_trancl trancl_into_trancl)
  with cycle_is_reported_iff_there_is_one [of demo_cycle] show ?thesis by (simp add: maps)
qed

theorem parallel_writers_are_apart_witness:
  "\<not> (lies_in [''src'', ''a'', ''m.rs''] ''src/a'' \<and> lies_in [''src'', ''a'', ''m.rs''] ''src/b'')"
proof -
  let ?ph = "demo_phase ''edit'' [''scan''] [demo_task ''e1'' ReadWrite [''src/a''] [''s''], demo_task ''e2'' ReadWrite [''src/b''] []]"
  have "?ph \<in> set (wc_phases demo_config)" by (simp add: demo_config_def)
  moreover have "ph_parallel ?ph" by (simp add: demo_phase_def)
  moreover have "write_tasks ?ph = [demo_task ''e1'' ReadWrite [''src/a''] [''s''], demo_task ''e2'' ReadWrite [''src/b''] []]"
    by (simp add: write_tasks_def demo_phase_def demo_task_def)
  moreover have "glob_free ''src/a''" "glob_free ''src/b''" by code_simp+
  ultimately show ?thesis
    using parallel_writers_are_apart [OF demo_plan, of ?ph 0 1 "''src/a''" "''src/b''" "[''src'', ''a'', ''m.rs'']"]
    by (simp add: demo_task_def)
qed

end
