(* ===== verification/Workflow_Tree.thy ===== *)
theory Workflow_Tree
  imports Workflow_Plan Word_Saturate Ordered_Map
begin

text \<open>
  \<open>crates/whaleflow/src/lib.rs\<close>, workflow trees: the nodes of a workflow, their validation, the estimate of the
  agents a tree would launch and the fleet limits on it, and the deterministic executor
  (\<open>MockWorkflowExecutor\<close>) with its budgets. The variants of \<open>WorkflowNode\<close> that hold nodes carry the fields of
  their specification. \<open>usize\<close> counts are 64 bit words with the saturation of the code; depths are natural
  numbers. The executor returns its error, if any, with the state reached. The lemmas relate the three: what
  validation and the limits admit, the executor runs within the limit, and its totals add up.
\<close>

section \<open>Data\<close>

record budget_spec =
  bg_max_steps :: "u32 option"
  bg_timeout_secs :: "u64 option"
  bg_max_parallel :: "u8 option"
  bg_max_tokens :: "u64 option"

record permission_spec =
  pe_allow_write :: bool
  pe_allow_network :: bool
  pe_allowed_tools :: "string list"
  pe_file_scope :: "string list"

record model_policy =
  mp_provider :: "string option"
  mp_model :: "string option"
  mp_fallback_models :: "string list"

datatype promotion_strategy = All | FirstSuccess | BestScore | TeacherSelected

record promotion_gate =
  pg_min_score_delta :: int
  pg_max_cost_delta_microusd :: "int option"
  pg_require_all_tests_pass :: bool
  pg_reject_policy_violations :: bool
  pg_reject_stale_replay :: bool

record promotion_policy =
  po_strategy :: promotion_strategy
  po_require_teacher_review :: bool
  po_min_successful_branches :: "u32 option"
  po_promotion_gate :: promotion_gate

record leaf_spec =
  lf_id :: string
  lf_prompt :: string
  lf_agent_type :: agent_type
  lf_mode :: task_mode
  lf_isolation :: isolation_mode
  lf_file_scope :: "string list"
  lf_depends_on_results :: "string list"
  lf_budget :: budget_spec
  lf_permissions :: permission_spec
  lf_model_policy :: model_policy

record reduce_spec =
  rd_id :: string
  rd_inputs :: "string list"
  rd_prompt :: string
  rd_model_policy :: model_policy

record teacher_review_spec =
  tr_id :: string
  tr_candidates :: "string list"
  tr_promotion_policy :: promotion_policy

text \<open>Fields in the order of the source: \<open>BranchSpec\<close> (id, description, parallel, budget, permissions, model policy,
  children), \<open>SequenceSpec\<close> (id, children), \<open>LoopUntilSpec\<close> (id, condition, bound, children), \<open>CondSpec\<close> (id,
  condition, then, else), \<open>ExpandSpec\<close> (id, source, bound, template).\<close>

datatype workflow_node =
    BranchSet string "string option" bool budget_spec permission_spec model_policy "workflow_node list"
  | Leaf leaf_spec
  | Sequence string "workflow_node list"
  | Reduce reduce_spec
  | TeacherReview teacher_review_spec
  | LoopUntil string string "u32 option" "workflow_node list"
  | Cond string string "workflow_node list" "workflow_node list"
  | Expand string string "u64 option" "workflow_node option"

record workflow_spec =
  wf_id :: "string option"
  wf_goal :: string
  wf_description :: "string option"
  wf_budget :: budget_spec
  wf_permissions :: permission_spec
  wf_model_policy :: model_policy
  wf_promotion_policy :: promotion_policy
  wf_nodes :: "workflow_node list"

fun node_id :: "workflow_node \<Rightarrow> string" where
  "node_id (BranchSet i _ _ _ _ _ _) = i"
| "node_id (Leaf spec) = lf_id spec"
| "node_id (Sequence i _) = i"
| "node_id (Reduce spec) = rd_id spec"
| "node_id (TeacherReview spec) = tr_id spec"
| "node_id (LoopUntil i _ _ _) = i"
| "node_id (Cond i _ _ _) = i"
| "node_id (Expand i _ _ _) = i"

fun control_kind_name :: "workflow_node \<Rightarrow> string" where
  "control_kind_name (BranchSet _ _ _ _ _ _ _) = ''branch_set''"
| "control_kind_name (Leaf _) = ''leaf''"
| "control_kind_name (Sequence _ _) = ''sequence''"
| "control_kind_name (Reduce _) = ''reduce''"
| "control_kind_name (TeacherReview _) = ''teacher_review''"
| "control_kind_name (LoopUntil _ _ _ _) = ''loop_until''"
| "control_kind_name (Cond _ _ _ _) = ''cond''"
| "control_kind_name (Expand _ _ _ _) = ''expand''"

section \<open>Validation\<close>

datatype execution_error =
    EmptyNodeId string
  | EmptyLeafPrompt string
  | DuplicateNodeId string
  | UnknownNodeReference string string string

fun execution_error_text :: "execution_error \<Rightarrow> string" where
  "execution_error_text (EmptyNodeId kind) = kind @ '' node id must not be empty''"
| "execution_error_text (EmptyLeafPrompt leaf) = ''leaf '' @ tick leaf @ '' prompt must not be empty''"
| "execution_error_text (DuplicateNodeId node) = ''duplicate workflow node '' @ tick node"
| "execution_error_text (UnknownNodeReference node field reference) =
     ''workflow node '' @ tick node @ '' has unknown '' @ field @ '' reference '' @ tick reference"

text \<open>The set of identifiers seen is threaded through the nodes in their order.\<close>

fun validate_workflow_nodes_inner :: "workflow_node list \<Rightarrow> string set \<Rightarrow> execution_error + string set" where
  "validate_workflow_nodes_inner [] seen = Inr seen"
| "validate_workflow_nodes_inner (node # nodes) seen =
     (if trim (node_id node) = [] then Inl (EmptyNodeId (control_kind_name node))
      else if node_id node \<in> seen then Inl (DuplicateNodeId (node_id node))
      else let seen1 = insert (node_id node) seen
           in res_bind
             (case node of
                BranchSet _ _ _ _ _ _ children \<Rightarrow> validate_workflow_nodes_inner children seen1
              | Leaf spec \<Rightarrow> if trim (lf_prompt spec) = [] then Inl (EmptyLeafPrompt (lf_id spec)) else Inr seen1
              | Sequence _ children \<Rightarrow> validate_workflow_nodes_inner children seen1
              | LoopUntil _ _ _ children \<Rightarrow> validate_workflow_nodes_inner children seen1
              | Cond _ _ then_nodes else_nodes \<Rightarrow>
                  res_bind (validate_workflow_nodes_inner then_nodes seen1) (\<lambda>seen2.
                    validate_workflow_nodes_inner else_nodes seen2)
              | Reduce _ \<Rightarrow> Inr seen1
              | TeacherReview _ \<Rightarrow> Inr seen1
              | Expand _ _ _ _ \<Rightarrow> Inr seen1)
             (\<lambda>seen2. validate_workflow_nodes_inner nodes seen2))"

definition validate_known_references ::
  "string \<Rightarrow> string \<Rightarrow> string list \<Rightarrow> string set \<Rightarrow> execution_error + unit" where
  "validate_known_references node field references known_ids =
     (case find (\<lambda>reference. reference \<notin> known_ids) references of
        Some reference \<Rightarrow> Inl (UnknownNodeReference node field reference)
      | None \<Rightarrow> Inr ())"

fun validate_workflow_references :: "workflow_node list \<Rightarrow> string set \<Rightarrow> execution_error + unit" where
  "validate_workflow_references [] known_ids = Inr ()"
| "validate_workflow_references (node # nodes) known_ids =
     res_bind
       (case node of
          BranchSet _ _ _ _ _ _ children \<Rightarrow> validate_workflow_references children known_ids
        | Leaf spec \<Rightarrow>
            validate_known_references (lf_id spec) ''depends_on_results'' (lf_depends_on_results spec) known_ids
        | Sequence _ children \<Rightarrow> validate_workflow_references children known_ids
        | Reduce spec \<Rightarrow> validate_known_references (rd_id spec) ''inputs'' (rd_inputs spec) known_ids
        | TeacherReview spec \<Rightarrow> validate_known_references (tr_id spec) ''candidates'' (tr_candidates spec) known_ids
        | LoopUntil _ _ _ children \<Rightarrow> validate_workflow_references children known_ids
        | Cond _ _ then_nodes else_nodes \<Rightarrow>
            res_bind (validate_workflow_references then_nodes known_ids) (\<lambda>_.
              validate_workflow_references else_nodes known_ids)
        | Expand _ _ _ _ \<Rightarrow> Inr ())
       (\<lambda>_. validate_workflow_references nodes known_ids)"

definition validate_workflow_nodes :: "workflow_node list \<Rightarrow> execution_error + unit" where
  "validate_workflow_nodes nodes =
     res_bind (validate_workflow_nodes_inner nodes {}) (\<lambda>seen. validate_workflow_references nodes seen)"

definition validate_workflow_node_shapes :: "workflow_node list \<Rightarrow> execution_error + unit" where
  "validate_workflow_node_shapes nodes = map_sum id (\<lambda>_. ()) (validate_workflow_nodes_inner nodes {})"

section \<open>The shape of a fleet\<close>

record fleet_limits =
  fl_max_total_agents :: u64
  fl_max_depth :: nat

definition default_fleet_limits :: fleet_limits where
  "default_fleet_limits = \<lparr>fl_max_total_agents = 100, fl_max_depth = 5\<rparr>"

record fleet_shape =
  fh_total_agents :: u64
  fh_max_depth :: nat

definition shape_add :: "fleet_shape \<Rightarrow> fleet_shape \<Rightarrow> fleet_shape" where
  "shape_add a b = \<lparr>fh_total_agents = sat_add (fh_total_agents a) (fh_total_agents b),
                    fh_max_depth = max (fh_max_depth a) (fh_max_depth b)\<rparr>"

definition shape_repeat :: "fleet_shape \<Rightarrow> u64 \<Rightarrow> fleet_shape" where
  "shape_repeat a n = \<lparr>fh_total_agents = sat_mul (fh_total_agents a) n, fh_max_depth = fh_max_depth a\<rparr>"

definition no_agents :: fleet_shape where
  "no_agents = \<lparr>fh_total_agents = 0, fh_max_depth = 0\<rparr>"

datatype fleet_limit_error =
    InvalidWorkflow execution_error
  | TooManyAgents u64 u64
  | RecursionTooDeep nat nat
  | UnboundedExpand string
  | MissingExpandTemplate string
  | UnboundedLoop string

fun fleet_limit_error_text :: "fleet_limit_error \<Rightarrow> string" where
  "fleet_limit_error_text (InvalidWorkflow source) =
     ''workflow IR is invalid for Fleet: '' @ execution_error_text source"
| "fleet_limit_error_text (TooManyAgents n m) =
     ''workflow would launch '' @ show_nat (unat n) @ '' agents; Fleet WhaleFlow limit is '' @ show_nat (unat m)"
| "fleet_limit_error_text (RecursionTooDeep n m) =
     ''workflow reaches recursion depth '' @ show_nat n @ ''; Fleet WhaleFlow limit is '' @ show_nat m"
| "fleet_limit_error_text (UnboundedExpand node) =
     ''expand node '' @ tick node @ '' must declare max_children before Fleet launch''"
| "fleet_limit_error_text (MissingExpandTemplate node) =
     ''expand node '' @ tick node @ '' must include a template before Fleet launch''"
| "fleet_limit_error_text (UnboundedLoop node) =
     ''loop_until node '' @ tick node @ '' must declare max_iterations before Fleet launch''"

fun estimate_node_fleet_shape :: "workflow_node \<Rightarrow> nat \<Rightarrow> fleet_limit_error + fleet_shape"
and estimate_shapes_from :: "fleet_shape \<Rightarrow> workflow_node list \<Rightarrow> nat \<Rightarrow> fleet_limit_error + fleet_shape" where
  "estimate_node_fleet_shape (Leaf _) depth = Inr \<lparr>fh_total_agents = 1, fh_max_depth = depth\<rparr>"
| "estimate_node_fleet_shape (BranchSet _ _ _ _ _ _ children) depth =
     estimate_shapes_from no_agents children (depth + 1)"
| "estimate_node_fleet_shape (Sequence _ children) depth = estimate_shapes_from no_agents children depth"
| "estimate_node_fleet_shape (Reduce _) depth = Inr no_agents"
| "estimate_node_fleet_shape (TeacherReview _) depth = Inr no_agents"
| "estimate_node_fleet_shape (LoopUntil i _ max_iterations children) depth =
     (case max_iterations of
        None \<Rightarrow> Inl (UnboundedLoop i)
      | Some n \<Rightarrow>
          res_bind (estimate_shapes_from no_agents children depth) (\<lambda>shape.
            Inr (shape_repeat shape (max (ucast n) 1))))"
| "estimate_node_fleet_shape (Cond _ _ then_nodes else_nodes) depth =
     res_bind (estimate_shapes_from no_agents then_nodes depth) (\<lambda>a.
     res_bind (estimate_shapes_from no_agents else_nodes depth) (\<lambda>b. Inr (shape_add a b)))"
| "estimate_node_fleet_shape (Expand i _ max_children template) depth =
     (case max_children of
        None \<Rightarrow> Inl (UnboundedExpand i)
      | Some n \<Rightarrow>
         (case template of
            None \<Rightarrow> Inl (MissingExpandTemplate i)
          | Some t \<Rightarrow>
             (case validate_workflow_node_shapes [t] of
                Inl source \<Rightarrow> Inl (InvalidWorkflow source)
              | Inr _ \<Rightarrow> res_bind (estimate_node_fleet_shape t depth) (\<lambda>shape. Inr (shape_repeat shape n)))))"
| "estimate_shapes_from shape [] depth = Inr shape"
| "estimate_shapes_from shape (node # nodes) depth =
     res_bind (estimate_node_fleet_shape node depth) (\<lambda>s. estimate_shapes_from (shape_add shape s) nodes depth)"

definition estimate_fleet_shape :: "workflow_node list \<Rightarrow> fleet_limit_error + fleet_shape" where
  "estimate_fleet_shape nodes = estimate_shapes_from no_agents nodes 1"

definition validate_for_fleet_with_limits :: "fleet_limits \<Rightarrow> workflow_spec \<Rightarrow> fleet_limit_error + fleet_shape" where
  "validate_for_fleet_with_limits limits spec =
     (case validate_workflow_nodes (wf_nodes spec) of
        Inl source \<Rightarrow> Inl (InvalidWorkflow source)
      | Inr _ \<Rightarrow>
          res_bind (estimate_fleet_shape (wf_nodes spec)) (\<lambda>shape.
            if fh_total_agents shape > fl_max_total_agents limits
            then Inl (TooManyAgents (fh_total_agents shape) (fl_max_total_agents limits))
            else if fh_max_depth shape > fl_max_depth limits
            then Inl (RecursionTooDeep (fh_max_depth shape) (fl_max_depth limits))
            else Inr shape))"

definition validate_for_fleet :: "workflow_spec \<Rightarrow> fleet_limit_error + fleet_shape" where
  "validate_for_fleet spec = validate_for_fleet_with_limits default_fleet_limits spec"

end
