(* ===== verification/Workflow_Exec.thy ===== *)
theory Workflow_Exec
  imports Workflow_Tree
begin

text \<open>
  \<open>crates/whaleflow/src/lib.rs\<close>, the deterministic executor of workflow trees (\<open>MockWorkflowExecutor\<close>): results of
  leaves and control nodes, usage totals, cancellation and the budgets of steps and tokens. A state is the executor
  with the execution it fills; a run that meets an error returns it with the state reached. The functions are
  total: an expansion uses up the nodes generated for it, and every other call goes to smaller nodes.
\<close>

section \<open>Results\<close>

datatype run_status = Pending | Running | Succeeded | Failed | Cancelled | BudgetExceeded | ReplayDiverged

datatype control_kind =
    KBranchSet | KLeaf | KSequence | KReduce | KTeacherReview | KLoopUntil | KCond | KExpand

record usage =
  us_input_tokens :: u64
  us_output_tokens :: u64
  us_cost_microusd :: u64

record memo_usage =
  mu_armh_hits :: u64
  mu_armh_misses :: u64
  mu_armh_saved_estimated_tokens :: u64
  mu_provider_prompt_cache_hits :: u64
  mu_provider_prompt_cache_misses :: u64

definition no_usage :: usage where
  "no_usage = \<lparr>us_input_tokens = 0, us_output_tokens = 0, us_cost_microusd = 0\<rparr>"

definition no_memo_usage :: memo_usage where
  "no_memo_usage = \<lparr>mu_armh_hits = 0, mu_armh_misses = 0, mu_armh_saved_estimated_tokens = 0,
     mu_provider_prompt_cache_hits = 0, mu_provider_prompt_cache_misses = 0\<rparr>"

definition total_tokens :: "usage \<Rightarrow> u64" where
  "total_tokens u = sat_add (us_input_tokens u) (us_output_tokens u)"

definition usage_add :: "usage \<Rightarrow> usage \<Rightarrow> usage" where
  "usage_add a b =
     \<lparr>us_input_tokens = sat_add (us_input_tokens a) (us_input_tokens b),
      us_output_tokens = sat_add (us_output_tokens a) (us_output_tokens b),
      us_cost_microusd = sat_add (us_cost_microusd a) (us_cost_microusd b)\<rparr>"

definition memo_add :: "memo_usage \<Rightarrow> memo_usage \<Rightarrow> memo_usage" where
  "memo_add a b =
     \<lparr>mu_armh_hits = sat_add (mu_armh_hits a) (mu_armh_hits b),
      mu_armh_misses = sat_add (mu_armh_misses a) (mu_armh_misses b),
      mu_armh_saved_estimated_tokens = sat_add (mu_armh_saved_estimated_tokens a) (mu_armh_saved_estimated_tokens b),
      mu_provider_prompt_cache_hits = sat_add (mu_provider_prompt_cache_hits a) (mu_provider_prompt_cache_hits b),
      mu_provider_prompt_cache_misses = sat_add (mu_provider_prompt_cache_misses a) (mu_provider_prompt_cache_misses b)\<rparr>"

record leaf_result =
  lr_leaf_id :: string
  lr_task_id :: string
  lr_status :: run_status
  lr_usage :: usage
  lr_memo_usage :: memo_usage
  lr_output :: "string option"
  lr_artifacts :: "string list"

record branch_result =
  br_branch_id :: string
  br_task_id :: string
  br_status :: run_status
  br_usage :: usage
  br_memo_usage :: memo_usage
  br_artifacts :: "string list"
  br_notes :: "string option"

record control_node_result =
  cn_node_id :: string
  cn_kind :: control_kind
  cn_status :: run_status
  cn_selected_children :: "string list"
  cn_summary :: "string option"

record execution =
  ex_status :: run_status
  ex_usage :: usage
  ex_memo_usage :: memo_usage
  ex_leaf_results :: "leaf_result list"
  ex_branch_results :: "branch_result list"
  ex_control_node_results :: "control_node_result list"

definition execution_default :: execution where
  "execution_default = \<lparr>ex_status = Succeeded, ex_usage = no_usage, ex_memo_usage = no_memo_usage,
     ex_leaf_results = [], ex_branch_results = [], ex_control_node_results = []\<rparr>"

definition should_stop :: "execution \<Rightarrow> bool" where
  "should_stop ex \<longleftrightarrow> ex_status ex = Cancelled \<or> ex_status ex = BudgetExceeded"

definition mark_execution_for_status :: "execution \<Rightarrow> run_status \<Rightarrow> execution" where
  "mark_execution_for_status ex status =
     (case status of
        Succeeded \<Rightarrow> ex | Pending \<Rightarrow> ex | Running \<Rightarrow> ex
      | Failed \<Rightarrow> ex\<lparr>ex_status := Failed\<rparr>
      | Cancelled \<Rightarrow> ex\<lparr>ex_status := Cancelled\<rparr>
      | BudgetExceeded \<Rightarrow> ex\<lparr>ex_status := BudgetExceeded\<rparr>
      | ReplayDiverged \<Rightarrow> ex\<lparr>ex_status := ReplayDiverged\<rparr>)"

definition aggregate_mock_status :: "leaf_result list \<Rightarrow> run_status" where
  "aggregate_mock_status results =
     (if list_ex (\<lambda>r. lr_status r = Cancelled) results then Cancelled
      else if list_ex (\<lambda>r. lr_status r = BudgetExceeded) results then BudgetExceeded
      else if list_ex (\<lambda>r. lr_status r \<noteq> Succeeded) results then Failed
      else Succeeded)"

section \<open>The executor\<close>

record mock_outcome =
  mo_status :: run_status
  mo_usage :: usage
  mo_memo_usage :: memo_usage
  mo_output :: "string option"
  mo_artifacts :: "string list"

definition outcome_with_output :: "run_status \<Rightarrow> string \<Rightarrow> mock_outcome" where
  "outcome_with_output status text =
     \<lparr>mo_status = status, mo_usage = no_usage, mo_memo_usage = no_memo_usage, mo_output = Some text, mo_artifacts = []\<rparr>"

definition outcome_succeeded :: "string \<Rightarrow> mock_outcome" where
  "outcome_succeeded text = outcome_with_output Succeeded text"

definition outcome_failed :: "string \<Rightarrow> mock_outcome" where
  "outcome_failed text = outcome_with_output Failed text"

record mock =
  mk_leaf_outcomes :: "(string, mock_outcome) btree"
  mk_predicate_results :: "(string, bool list) btree"
  mk_generated_nodes :: "(string, workflow_node list) btree"
  mk_cancelled :: bool
  mk_max_leaf_steps :: "u32 option"
  mk_leaf_steps_executed :: u32
  mk_max_leaf_tokens :: "u64 option"
  mk_leaf_tokens_used :: u64

definition mock_new :: mock where
  "mock_new = \<lparr>mk_leaf_outcomes = [], mk_predicate_results = [], mk_generated_nodes = [], mk_cancelled = False,
     mk_max_leaf_steps = None, mk_leaf_steps_executed = 0, mk_max_leaf_tokens = None, mk_leaf_tokens_used = 0\<rparr>"

definition with_leaf_outcome :: "string \<Rightarrow> mock_outcome \<Rightarrow> mock \<Rightarrow> mock" where
  "with_leaf_outcome i outcome m = m\<lparr>mk_leaf_outcomes := bt_insert i outcome (mk_leaf_outcomes m)\<rparr>"

definition with_predicate_results :: "string \<Rightarrow> bool list \<Rightarrow> mock \<Rightarrow> mock" where
  "with_predicate_results i results m = m\<lparr>mk_predicate_results := bt_insert i results (mk_predicate_results m)\<rparr>"

definition with_generated_nodes :: "string \<Rightarrow> workflow_node list \<Rightarrow> mock \<Rightarrow> mock" where
  "with_generated_nodes i nodes m = m\<lparr>mk_generated_nodes := bt_insert i nodes (mk_generated_nodes m)\<rparr>"

definition with_max_leaf_steps :: "u32 \<Rightarrow> mock \<Rightarrow> mock" where
  "with_max_leaf_steps n m = m\<lparr>mk_max_leaf_steps := Some n\<rparr>"

definition with_max_leaf_tokens :: "u64 \<Rightarrow> mock \<Rightarrow> mock" where
  "with_max_leaf_tokens n m = m\<lparr>mk_max_leaf_tokens := Some n\<rparr>"

definition with_cancelled :: "mock \<Rightarrow> mock" where
  "with_cancelled m = m\<lparr>mk_cancelled := True\<rparr>"

text \<open>\<open>BTreeMap::remove\<close>.\<close>

definition bt_remove :: "'k \<Rightarrow> ('k, 'v) btree \<Rightarrow> ('k, 'v) btree" where
  "bt_remove k m = filter (\<lambda>(k', _). k' \<noteq> k) m"

definition mock_leaf_outcome :: "leaf_spec \<Rightarrow> mock \<Rightarrow> mock_outcome \<times> mock" where
  "mock_leaf_outcome spec m =
     (if mk_cancelled m
      then (outcome_with_output Cancelled ''mock workflow cancelled before leaf execution'', m)
      else if mk_max_leaf_steps m = Some (mk_leaf_steps_executed m) \<or> bg_max_steps (lf_budget spec) = Some 0
      then (outcome_with_output BudgetExceeded ''mock workflow leaf step budget exhausted'', m)
      else if (case mk_max_leaf_tokens m of Some n \<Rightarrow> mk_leaf_tokens_used m \<ge> n | None \<Rightarrow> False)
          \<or> bg_max_tokens (lf_budget spec) = Some 0
      then (outcome_with_output BudgetExceeded ''mock workflow leaf token budget exhausted'', m)
      else
        let m1 = m\<lparr>mk_leaf_steps_executed := sat_add (mk_leaf_steps_executed m) 1\<rparr>;
            outcome = (case bt_get (mk_leaf_outcomes m1) (lf_id spec) of
                         Some outcome \<Rightarrow> outcome
                       | None \<Rightarrow> outcome_succeeded (''mock leaf '' @ lf_id spec));
            m2 = m1\<lparr>mk_leaf_outcomes := bt_remove (lf_id spec) (mk_leaf_outcomes m1)\<rparr>;
            tokens = total_tokens (mo_usage outcome)
        in case (case bg_max_tokens (lf_budget spec) of Some cap \<Rightarrow> if tokens > cap then Some cap else None | None \<Rightarrow> None) of
             Some cap \<Rightarrow>
               (outcome\<lparr>mo_status := BudgetExceeded,
                  mo_output := Some (''mock workflow leaf token budget exhausted ('' @ show_nat (unat tokens)
                    @ '' > '' @ show_nat (unat cap) @ '')'')\<rparr>, m2)
           | None \<Rightarrow> (outcome, m2\<lparr>mk_leaf_tokens_used := sat_add (mk_leaf_tokens_used m2) tokens\<rparr>))"

definition next_predicate_result :: "string \<Rightarrow> mock \<Rightarrow> bool \<times> mock" where
  "next_predicate_result i m =
     (case bt_get (mk_predicate_results m) i of
        None \<Rightarrow> (False, m)
      | Some [] \<Rightarrow> (False, m)
      | Some (r # rs) \<Rightarrow> (r, m\<lparr>mk_predicate_results := bt_modify i (\<lambda>_. rs) (mk_predicate_results m)\<rparr>))"

type_synonym run_state = "mock \<times> execution"

definition execute_leaf :: "leaf_spec \<Rightarrow> run_state \<Rightarrow> run_state" where
  "execute_leaf spec = (\<lambda>(m, ex).
     let (outcome, m') = mock_leaf_outcome spec m;
         ex1 = mark_execution_for_status ex (mo_status outcome)
     in (m', ex1\<lparr>ex_usage := usage_add (ex_usage ex1) (mo_usage outcome),
                 ex_memo_usage := memo_add (ex_memo_usage ex1) (mo_memo_usage outcome),
                 ex_leaf_results := ex_leaf_results ex1 @
                   [\<lparr>lr_leaf_id = lf_id spec, lr_task_id = lf_id spec, lr_status = mo_status outcome,
                     lr_usage = mo_usage outcome, lr_memo_usage = mo_memo_usage outcome,
                     lr_output = mo_output outcome, lr_artifacts = mo_artifacts outcome\<rparr>]\<rparr>))"

definition push_control :: "string \<Rightarrow> control_kind \<Rightarrow> run_status \<Rightarrow> string list \<Rightarrow> string \<Rightarrow> execution \<Rightarrow> execution" where
  "push_control i kind status children summary ex =
     ex\<lparr>ex_control_node_results := ex_control_node_results ex @
       [\<lparr>cn_node_id = i, cn_kind = kind, cn_status = status, cn_selected_children = children,
         cn_summary = Some summary\<rparr>]\<rparr>"

text \<open>What \<open>execute_branch_set\<close> records after its children; \<open>before\<close> is the number of leaf results then.\<close>

definition finish_branch :: "string \<Rightarrow> workflow_node list \<Rightarrow> nat \<Rightarrow> execution \<Rightarrow> execution" where
  "finish_branch i children before ex =
     (let results = drop before (ex_leaf_results ex);
          status = aggregate_mock_status results;
          ex1 = mark_execution_for_status ex status
      in push_control i KBranchSet status (map node_id children)
           ''branch set scaffold executed children deterministically''
           (ex1\<lparr>ex_branch_results := ex_branch_results ex1 @
              [\<lparr>br_branch_id = i, br_task_id = i, br_status = status,
                br_usage = fold (\<lambda>r u. usage_add u (lr_usage r)) results no_usage,
                br_memo_usage = fold (\<lambda>r u. memo_add u (lr_memo_usage r)) results no_memo_usage,
                br_artifacts = [], br_notes = Some ''mock branch set executed without runtime fanout''\<rparr>]\<rparr>))"

text \<open>The status of a conditional or expansion after its nodes.\<close>

definition status_after :: "execution \<Rightarrow> run_status" where
  "status_after ex = (if should_stop ex then ex_status ex else Succeeded)"

definition finish_loop :: "string \<Rightarrow> workflow_node list \<Rightarrow> nat \<Rightarrow> bool \<Rightarrow> execution \<Rightarrow> execution" where
  "finish_loop i children iterations passed ex =
     (let status = (if should_stop ex then ex_status ex else if passed then Succeeded else Failed)
      in push_control i KLoopUntil status (map node_id children) (''loop_until iterations='' @ show_nat iterations)
           (mark_execution_for_status ex status))"

definition show_bool :: "bool \<Rightarrow> string" where
  "show_bool b = (if b then ''true'' else ''false'')"

text \<open>The calls: nodes, one node, and the loop of \<open>execute_loop_until\<close> with the rounds left, the rounds done and,
  at its end, whether the condition held.\<close>

function (sequential)
      execute_nodes :: "workflow_node list \<Rightarrow> run_state \<Rightarrow> execution_error option \<times> run_state"
and execute_node :: "workflow_node \<Rightarrow> run_state \<Rightarrow> execution_error option \<times> run_state"
and loop_rounds :: "string \<Rightarrow> workflow_node list \<Rightarrow> nat \<Rightarrow> nat \<Rightarrow> run_state
       \<Rightarrow> execution_error option \<times> run_state \<times> nat \<times> bool" where
  "execute_nodes [] s = (None, s)"
| "execute_nodes (node # nodes) s =
     (if should_stop (snd s) then (None, s)
      else case execute_node node s of
        (Some e, s') \<Rightarrow> (Some e, s')
      | (None, s') \<Rightarrow> execute_nodes nodes s')"
| "execute_node (Leaf spec) s = (None, execute_leaf spec s)"
| "execute_node (BranchSet i _ _ _ _ _ children) s =
     (case execute_nodes children s of
        (Some e, s') \<Rightarrow> (Some e, s')
      | (None, (m, ex)) \<Rightarrow> (None, (m, finish_branch i children (length (ex_leaf_results (snd s))) ex)))"
| "execute_node (Sequence i children) s =
     (case execute_nodes children s of
        (Some e, s') \<Rightarrow> (Some e, s')
      | (None, (m, ex)) \<Rightarrow> (None, (m, push_control i KSequence (ex_status ex) (map node_id children)
           ''sequence executed in declaration order'' ex)))"
| "execute_node (Reduce spec) s =
     (None, (fst s, push_control (rd_id spec) KReduce Succeeded (rd_inputs spec) (rd_prompt spec) (snd s)))"
| "execute_node (TeacherReview spec) s =
     (None, (fst s, push_control (tr_id spec) KTeacherReview Succeeded (tr_candidates spec)
        ''teacher review scaffold selected declared candidates'' (snd s)))"
| "execute_node (LoopUntil i _ max_iterations children) s =
     (case loop_rounds i children (unat (max (case max_iterations of Some n \<Rightarrow> n | None \<Rightarrow> 1) 1)) 0 s of
        (Some e, s', _) \<Rightarrow> (Some e, s')
      | (None, (m, ex), iterations, passed) \<Rightarrow> (None, (m, finish_loop i children iterations passed ex)))"
| "execute_node (Cond i _ then_nodes else_nodes) s =
     (let (passed, m) = next_predicate_result i (fst s);
          selected = (if passed then then_nodes else else_nodes)
      in case execute_nodes selected (m, snd s) of
           (Some e, s') \<Rightarrow> (Some e, s')
         | (None, (m', ex)) \<Rightarrow> (None, (m', push_control i KCond (status_after ex) (map node_id selected)
              (''predicate_result='' @ show_bool passed) ex)))"
| "execute_node (Expand i source max_children _) s =
     (let generated = (case bt_get (mk_generated_nodes (fst s)) i of Some nodes \<Rightarrow> nodes | None \<Rightarrow> []);
          m = (fst s)\<lparr>mk_generated_nodes := bt_remove i (mk_generated_nodes (fst s))\<rparr>;
          nodes = (case max_children of Some n \<Rightarrow> take (unat n) generated | None \<Rightarrow> generated)
      in case validate_workflow_node_shapes nodes of
           Inl e \<Rightarrow> (Some e, (m, snd s))
         | Inr _ \<Rightarrow>
            (case execute_nodes nodes (m, snd s) of
               (Some e, s') \<Rightarrow> (Some e, s')
             | (None, (m', ex)) \<Rightarrow> (None, (m', push_control i KExpand (status_after ex) (map node_id nodes)
                  (''expanded_from='' @ source) ex))))"
| "loop_rounds i children 0 iterations s = (None, s, iterations, False)"
| "loop_rounds i children (Suc left) iterations s =
     (if should_stop (snd s) then (None, s, iterations, False)
      else case execute_nodes children s of
        (Some e, s') \<Rightarrow> (Some e, s', iterations + 1, False)
      | (None, (m, ex)) \<Rightarrow>
          if should_stop ex then (None, (m, ex), iterations + 1, False)
          else let (passed, m') = next_predicate_result i m
               in if passed then (None, (m', ex), iterations + 1, True)
                  else loop_rounds i children left (iterations + 1) (m', ex))"
  by pat_completeness auto

section \<open>Every run ends\<close>

text \<open>Generated nodes are only ever removed.\<close>

definition gen_count :: "run_state \<Rightarrow> nat" where
  "gen_count s = length (mk_generated_nodes (fst s))"

lemma gen_count_leaf [simp]: "gen_count (execute_leaf spec s) = gen_count s"
  by (cases s) (auto simp: gen_count_def execute_leaf_def mock_leaf_outcome_def Let_def split: option.splits if_splits)

lemma gen_count_predicate: "next_predicate_result i m = (b, m') \<Longrightarrow> mk_generated_nodes m' = mk_generated_nodes m"
  by (auto simp: next_predicate_result_def split: option.splits list.splits)

lemma generated_never_grow:
  "execute_nodes_execute_node_loop_rounds_dom (Inl (nodes, s)) \<Longrightarrow> gen_count (snd (execute_nodes nodes s)) \<le> gen_count s"
  "execute_nodes_execute_node_loop_rounds_dom (Inr (Inl (node, s))) \<Longrightarrow> gen_count (snd (execute_node node s)) \<le> gen_count s"
  "execute_nodes_execute_node_loop_rounds_dom (Inr (Inr (i, children, left, iterations, s))) \<Longrightarrow>
     gen_count (fst (snd (loop_rounds i children left iterations s))) \<le> gen_count s"
proof (induction nodes s and node s and i children left iterations s rule: execute_nodes_execute_node_loop_rounds.pinduct)
  case (1 s)
  then show ?case by (simp add: execute_nodes.psimps)
next
  case (2 node nodes s)
  then show ?case
    by (cases "execute_node node s") (fastforce simp: execute_nodes.psimps(2) split: option.splits)
next
  case (3 spec s)
  then show ?case by (simp add: execute_node.psimps)
next
  case (4 i a b c d e children s)
  then show ?case
    by (cases "execute_nodes children s") (auto simp: execute_node.psimps gen_count_def split: option.splits)
next
  case (5 i children s)
  then show ?case
    by (cases "execute_nodes children s") (auto simp: execute_node.psimps gen_count_def split: option.splits)
next
  case (6 spec s)
  then show ?case by (simp add: execute_node.psimps gen_count_def)
next
  case (7 spec s)
  then show ?case by (simp add: execute_node.psimps gen_count_def)
next
  case (8 i a max_iterations children s)
  then show ?case
    by (cases "loop_rounds i children (unat (max (case max_iterations of Some n \<Rightarrow> n | None \<Rightarrow> 1) 1)) 0 s")
      (auto simp: execute_node.psimps gen_count_def split: option.splits)
next
  case (9 i a then_nodes else_nodes s)
  obtain passed m where p: "next_predicate_result i (fst s) = (passed, m)" by fastforce
  have g: "gen_count (m, snd s) = gen_count s" using gen_count_predicate [OF p] by (simp add: gen_count_def)
  from 9(2) [OF p [symmetric], OF refl] g 9(1) p show ?case
    by (cases "execute_nodes (if passed then then_nodes else else_nodes) (m, snd s)")
      (auto simp: execute_node.psimps gen_count_def Let_def split: option.splits)
next
  case (10 i source max_children a s)
  define generated where "generated = (case bt_get (mk_generated_nodes (fst s)) i of Some nodes \<Rightarrow> nodes | None \<Rightarrow> [])"
  define m where "m = (fst s)\<lparr>mk_generated_nodes := bt_remove i (mk_generated_nodes (fst s))\<rparr>"
  define nodes where "nodes = (case max_children of Some n \<Rightarrow> take (unat n) generated | None \<Rightarrow> generated)"
  have "gen_count (m, snd s) \<le> gen_count s" by (simp add: gen_count_def m_def bt_remove_def)
  moreover have "validate_workflow_node_shapes nodes = Inr x \<Longrightarrow>
      gen_count (snd (execute_nodes nodes (m, snd s))) \<le> gen_count (m, snd s)" for x
    using 10(2) [OF generated_def m_def nodes_def] by blast
  ultimately show ?case using 10(1)
    by (cases "execute_nodes nodes (m, snd s)")
      (fastforce simp: execute_node.psimps Let_def gen_count_def generated_def [symmetric] m_def [symmetric] nodes_def [symmetric]
        split: sum.splits option.splits)
next
  case (11 i children iterations s)
  then show ?case by (simp add: loop_rounds.psimps)
next
  case (12 i children left iterations s)
  obtain e m ex where r: "execute_nodes children s = (e, m, ex)" by (metis prod_cases3)
  obtain passed m' where p: "next_predicate_result i m = (passed, m')" by fastforce
  have g: "gen_count (m', ex) = gen_count (m, ex)" using gen_count_predicate [OF p] by (simp add: gen_count_def)
  show ?case
  proof (cases "should_stop (snd s)")
    case True then show ?thesis using 12(1) by (simp add: loop_rounds.psimps)
  next
    case False
    have a: "gen_count (m, ex) \<le> gen_count s" using 12(2) [OF False] r by simp
    have "e = None \<Longrightarrow> \<not> should_stop ex \<Longrightarrow> \<not> passed \<Longrightarrow>
        gen_count (fst (snd (loop_rounds i children left (iterations + 1) (m', ex)))) \<le> gen_count (m', ex)"
      using 12(3) [OF False r [symmetric] _ refl _ p [symmetric] refl] by blast
    then show ?thesis using 12(1) a g r p False
      by (auto simp: loop_rounds.psimps Let_def split: option.splits)
  qed
qed

text \<open>An expansion uses up the nodes generated for it, or has none.\<close>

lemma bt_remove_shortens:
  assumes "bt_get m k = Some v"
  shows "length (bt_remove k m) < length m"
proof -
  from assms have "(k, v) \<in> set m" by (simp add: bt_get_def map_of_SomeD)
  then show ?thesis unfolding bt_remove_def by (intro length_filter_less [of "(k, v)"]) simp_all
qed

lemma bt_remove_le: "length (bt_remove k m) \<le> length m"
  by (simp add: bt_remove_def)

text \<open>The measure: the generated nodes left, the size of the nodes to run, the rounds left.\<close>

definition call_count :: "workflow_node list \<times> run_state + workflow_node \<times> run_state
    + string \<times> workflow_node list \<times> nat \<times> nat \<times> run_state \<Rightarrow> nat" where
  "call_count c = (case c of Inl (_, s) \<Rightarrow> gen_count s | Inr (Inl (_, s)) \<Rightarrow> gen_count s
     | Inr (Inr (_, _, _, _, s)) \<Rightarrow> gen_count s)"

definition call_size :: "workflow_node list \<times> run_state + workflow_node \<times> run_state
    + string \<times> workflow_node list \<times> nat \<times> nat \<times> run_state \<Rightarrow> nat" where
  "call_size c = (case c of Inl (nodes, _) \<Rightarrow> size_list size nodes | Inr (Inl (node, _)) \<Rightarrow> size node
     | Inr (Inr (_, children, _)) \<Rightarrow> size_list size children)"

definition call_rounds :: "workflow_node list \<times> run_state + workflow_node \<times> run_state
    + string \<times> workflow_node list \<times> nat \<times> nat \<times> run_state \<Rightarrow> nat" where
  "call_rounds c = (case c of Inl _ \<Rightarrow> 0 | Inr (Inl _) \<Rightarrow> 0 | Inr (Inr (_, _, left, _)) \<Rightarrow> Suc left)"

lemma executor_total: "HOL.All execute_nodes_execute_node_loop_rounds_dom"
proof (relation "measures [call_count, call_size, call_rounds]", goal_cases)
  case (3 node nodes s x s')
  then have "gen_count s' \<le> gen_count s" using generated_never_grow(2) [of node s] by (metis snd_conv)
  then show ?case by (auto simp: call_count_def call_size_def)
next
  case (7 i a then_nodes else_nodes s x passed m selected)
  then have "gen_count (m, snd s) = gen_count s" using gen_count_predicate [of i "fst s" passed m] by (simp add: gen_count_def)
  with 7(3) show ?case by (simp add: call_count_def call_size_def)
next
  case (8 i source max_children a s generated m nodes b)
  have m: "mk_generated_nodes m = bt_remove i (mk_generated_nodes (fst s))" using 8(2) by simp
  show ?case
  proof (cases "bt_get (mk_generated_nodes (fst s)) i")
    case None
    with 8(1,3) have "nodes = []" by (simp split: option.splits)
    then show ?thesis using m bt_remove_le [of i "mk_generated_nodes (fst s)"]
      by (auto simp: call_count_def call_size_def gen_count_def)
  next
    case (Some v)
    then show ?thesis using m bt_remove_shortens [OF Some] by (simp add: call_count_def gen_count_def)
  qed
next
  case (10 i children left iterations s x y m ex z passed m')
  have "gen_count (m', ex) \<le> gen_count s"
    using generated_never_grow(1) [OF 10(9)] gen_count_predicate [of i m passed m'] 10(2,4,6,7)
    by (metis fst_conv gen_count_def snd_conv)
  then show ?case by (auto simp: call_count_def call_size_def call_rounds_def)
qed (auto simp: call_count_def call_size_def call_rounds_def)

termination execute_nodes
  by (rule executor_total)

end
