(* ===== verification/Workflow_Run.thy ===== *)
theory Workflow_Run
  imports Workflow_Exec
begin

text \<open>
  \<open>crates/whaleflow/src/lib.rs\<close>, \<open>MockWorkflowExecutor::run\<close> and what holds of every run. The locale
  \<open>run_invariant\<close> is the contract of a property that each primitive of the executor keeps; its lemma is that the
  executor keeps it. The interpretations give the usage totals, the stop of a run at a cancelled or refused leaf,
  and the budget of steps. The last section relates the agents counted before the launch with the leaves run.
\<close>

definition run :: "workflow_spec \<Rightarrow> mock \<Rightarrow> (execution_error + execution) \<times> mock" where
  "run spec m =
     (case validate_workflow_nodes (wf_nodes spec) of
        Inl e \<Rightarrow> (Inl e, m)
      | Inr _ \<Rightarrow>
         (case execute_nodes (wf_nodes spec) (m, execution_default) of
            (Some e, (m', _)) \<Rightarrow> (Inl e, m')
          | (None, (m', ex)) \<Rightarrow> (Inr ex, m')))"

section \<open>Invariants of a run\<close>

lemma leaf_results_push [simp]: "ex_leaf_results (push_control i k st c t ex) = ex_leaf_results ex"
  by (simp add: push_control_def)

lemma leaf_results_mark [simp]: "ex_leaf_results (mark_execution_for_status ex st) = ex_leaf_results ex"
  by (simp add: mark_execution_for_status_def split: run_status.split)

lemma leaf_results_branch [simp]: "ex_leaf_results (finish_branch i c n ex) = ex_leaf_results ex"
  by (simp add: finish_branch_def Let_def)

lemma leaf_results_loop [simp]: "ex_leaf_results (finish_loop i c n b ex) = ex_leaf_results ex"
  by (simp add: finish_loop_def Let_def)

text \<open>The leaf results of a state are those of an earlier one and some more.\<close>

definition extends_leaves :: "run_state \<Rightarrow> run_state \<Rightarrow> bool" where
  "extends_leaves s s' \<longleftrightarrow> (\<exists>rs. ex_leaf_results (snd s') = ex_leaf_results (snd s) @ rs)"

lemma extends_leaves_refl [simp]: "extends_leaves s s"
  by (simp add: extends_leaves_def)

lemma extends_leaves_trans: "extends_leaves s t \<Longrightarrow> extends_leaves t u \<Longrightarrow> extends_leaves s u"
  by (auto simp: extends_leaves_def)

lemma extends_leaves_same:
  "ex_leaf_results ex' = ex_leaf_results ex \<Longrightarrow> extends_leaves s (m', ex') \<longleftrightarrow> extends_leaves s (m, ex)"
  by (simp add: extends_leaves_def)

lemma extends_leaves_leaf [simp]: "extends_leaves s (execute_leaf spec s)"
  by (cases s) (simp add: extends_leaves_def execute_leaf_def split_beta Let_def)

lemma extends_leaves_mock:
  "extends_leaves (m, ex) s \<Longrightarrow> extends_leaves (m', ex) s"
  by (simp add: extends_leaves_def)

lemma extends_leaves_end [simp]:
  "extends_leaves s (m, push_control i k st c t ex) \<longleftrightarrow> extends_leaves s (m, ex)"
  "extends_leaves s (m, finish_branch i ns n ex) \<longleftrightarrow> extends_leaves s (m, ex)"
  "extends_leaves s (m, finish_loop i ns n b ex) \<longleftrightarrow> extends_leaves s (m, ex)"
  by (simp_all add: extends_leaves_def)

locale run_invariant =
  fixes P :: "run_state \<Rightarrow> bool"
  assumes leaf: "P s \<Longrightarrow> \<not> should_stop (snd s) \<Longrightarrow> P (execute_leaf spec s)"
    and predicate: "P (m, ex) \<Longrightarrow> next_predicate_result i m = (b, m') \<Longrightarrow> P (m', ex)"
    and generated: "P (m, ex) \<Longrightarrow> P (m\<lparr>mk_generated_nodes := g\<rparr>, ex)"
    and control: "P (m, ex) \<Longrightarrow> P (m, push_control i k st c t ex)"
    and branch: "P (m0, ex0) \<Longrightarrow> \<not> should_stop ex0 \<Longrightarrow> P (m, ex) \<Longrightarrow>
      ex_leaf_results ex = ex_leaf_results ex0 @ rs \<Longrightarrow>
      P (m, finish_branch i ns (length (ex_leaf_results ex0)) ex)"
    and loop_end: "P (m, ex) \<Longrightarrow> P (m, finish_loop i ns n b ex)"
begin

lemma kept:
  "P s \<Longrightarrow> P (snd (execute_nodes nodes s)) \<and> extends_leaves s (snd (execute_nodes nodes s))"
  "P s \<Longrightarrow> \<not> should_stop (snd s) \<Longrightarrow>
     P (snd (execute_node node s)) \<and> extends_leaves s (snd (execute_node node s))"
  "P s \<Longrightarrow> P (fst (snd (loop_rounds i children left iterations s)))
     \<and> extends_leaves s (fst (snd (loop_rounds i children left iterations s)))"
proof (induction nodes s and node s and i children left iterations s
    rule: execute_nodes_execute_node_loop_rounds.induct)
  case (2 node nodes s)
  show ?case
  proof (cases "should_stop (snd s)")
    case True then show ?thesis using 2(3) by simp
  next
    case False
    obtain e s' where n: "execute_node node s = (e, s')" by (cases "execute_node node s")
    have a: "P s'" "extends_leaves s s'" using 2(1) [OF False 2(3) False] n by simp_all
    show ?thesis using 2(2) [OF False n [symmetric]] a n False extends_leaves_trans
      by (cases e) auto
  qed
next
  case (4 i a b c d e children s)
  obtain err m ex where r: "execute_nodes children s = (err, m, ex)" by (metis prod_cases3)
  have k: "P (m, ex)" "extends_leaves s (m, ex)" using 4(1) [OF 4(2)] r by simp_all
  from k(2) obtain rs where "ex_leaf_results ex = ex_leaf_results (snd s) @ rs" by (auto simp: extends_leaves_def)
  then have "P (m, finish_branch i children (length (ex_leaf_results (snd s))) ex)"
    using branch [of "fst s" "snd s" m ex rs] k(1) 4(2,3) by simp
  then show ?case using k r by (cases err) simp_all
next
  case (5 i children s)
  then show ?case
    by (cases "execute_nodes children s") (auto simp: control split: option.splits)
next
  case (8 i a max_iterations children s)
  then show ?case
    by (cases "loop_rounds i children (unat (max (case max_iterations of Some n \<Rightarrow> n | None \<Rightarrow> 1) 1)) 0 s")
      (auto simp: loop_end split: option.splits)
next
  case (9 i a then_nodes else_nodes s)
  obtain passed m where p: "next_predicate_result i (fst s) = (passed, m)" by (cases "next_predicate_result i (fst s)")
  have "P (m, snd s)" using predicate [of "fst s" "snd s"] 9(2) p by simp
  from 9(1) [OF p [symmetric] refl refl this] p show ?case
    by (cases "execute_nodes (if passed then then_nodes else else_nodes) (m, snd s)", cases s)
      (auto simp: control Let_def split: option.splits intro: extends_leaves_mock)
next
  case (10 i source max_children a s)
  define given where "given = (case bt_get (mk_generated_nodes (fst s)) i of Some nodes \<Rightarrow> nodes | None \<Rightarrow> [])"
  define m where "m = (fst s)\<lparr>mk_generated_nodes := bt_remove i (mk_generated_nodes (fst s))\<rparr>"
  define nodes where "nodes = (case max_children of Some n \<Rightarrow> take (unat n) given | None \<Rightarrow> given)"
  have "P (m, snd s)" unfolding m_def by (rule generated) (use 10(2) in simp)
  moreover have "extends_leaves s (m, snd s)" by (simp add: extends_leaves_def)
  moreover have "validate_workflow_node_shapes nodes = Inr () \<Longrightarrow> P (snd (execute_nodes nodes (m, snd s)))
     \<and> extends_leaves (m, snd s) (snd (execute_nodes nodes (m, snd s)))"
    using 10(1) [OF given_def m_def nodes_def _ calculation(1)] by blast
  ultimately show ?case
    by (cases "execute_nodes nodes (m, snd s)")
      (auto simp: control Let_def given_def [symmetric] m_def [symmetric] nodes_def [symmetric]
        split: sum.splits option.splits dest: extends_leaves_trans)
next
  case (12 i children left iterations s)
  obtain e m ex where r: "execute_nodes children s = (e, m, ex)" by (metis prod_cases3)
  obtain passed m' where p: "next_predicate_result i m = (passed, m')" by (cases "next_predicate_result i m")
  show ?case
  proof (cases "should_stop (snd s)")
    case True then show ?thesis using 12(3) by simp
  next
    case False
    have a: "P (m, ex)" "extends_leaves s (m, ex)" using 12(1) [OF False 12(3)] r by simp_all
    have b: "P (m', ex)" "extends_leaves s (m', ex)" using a predicate [OF a(1) p] by (simp_all add: extends_leaves_def)
    have "e = None \<Longrightarrow> \<not> should_stop ex \<Longrightarrow> \<not> passed \<Longrightarrow>
        P (fst (snd (loop_rounds i children left (iterations + 1) (m', ex)))) \<and>
        extends_leaves (m', ex) (fst (snd (loop_rounds i children left (iterations + 1) (m', ex))))"
      using 12(2) [OF False r [symmetric] _ refl _ p [symmetric] refl _ b(1)] by blast
    then show ?thesis using a b r p False
      by (auto simp: Let_def split: option.splits intro: extends_leaves_trans)
  qed
qed (simp_all add: leaf control)

text \<open>A run from a fresh execution.\<close>

lemma run_kept:
  assumes "P (m, execution_default)" "run spec m = (Inr ex, m')"
  shows "P (m', ex)"
  using kept(1) [of "(m, execution_default)" "wf_nodes spec"] assms
  by (auto simp: run_def split: sum.splits option.splits prod.splits)

end

subsection \<open>Usage\<close>

text \<open>The totals of a run are the sums over its leaf results, in their order.\<close>

definition usage_of :: "leaf_result list \<Rightarrow> usage" where
  "usage_of results = fold (\<lambda>r u. usage_add u (lr_usage r)) results no_usage"

definition memo_usage_of :: "leaf_result list \<Rightarrow> memo_usage" where
  "memo_usage_of results = fold (\<lambda>r u. memo_add u (lr_memo_usage r)) results no_memo_usage"

definition totals_match :: "execution \<Rightarrow> bool" where
  "totals_match ex \<longleftrightarrow> ex_usage ex = usage_of (ex_leaf_results ex) \<and> ex_memo_usage ex = memo_usage_of (ex_leaf_results ex)"

lemma usage_push [simp]:
  "ex_usage (push_control i k st c t ex) = ex_usage ex" "ex_memo_usage (push_control i k st c t ex) = ex_memo_usage ex"
  by (simp_all add: push_control_def)

lemma usage_mark [simp]:
  "ex_usage (mark_execution_for_status ex st) = ex_usage ex"
  "ex_memo_usage (mark_execution_for_status ex st) = ex_memo_usage ex"
  by (simp_all add: mark_execution_for_status_def split: run_status.split)

interpretation totals: run_invariant "\<lambda>s. totals_match (snd s)"
proof unfold_locales
  fix s :: run_state and spec
  show "totals_match (snd s) \<Longrightarrow> totals_match (snd (execute_leaf spec s))"
    by (cases s) (simp add: totals_match_def execute_leaf_def split_beta Let_def usage_of_def memo_usage_of_def)
qed (simp_all add: totals_match_def finish_branch_def finish_loop_def Let_def)

subsection \<open>Stopping\<close>

definition stops :: "run_status \<Rightarrow> bool" where
  "stops st \<longleftrightarrow> st = Cancelled \<or> st = BudgetExceeded"

lemma should_stop_status: "should_stop ex \<longleftrightarrow> stops (ex_status ex)"
  by (simp add: should_stop_def stops_def)

lemma status_mark [simp]:
  "ex_status (mark_execution_for_status ex st) =
     (if st \<in> {Succeeded, Pending, Running} then ex_status ex else st)"
  by (simp add: mark_execution_for_status_def split: run_status.split)

lemma status_push [simp]: "ex_status (push_control i k st c t ex) = ex_status ex"
  by (simp add: push_control_def)

lemma stops_aggregate: "stops (aggregate_mock_status rs) \<longleftrightarrow> (\<exists>r \<in> set rs. stops (lr_status r))"
  by (auto simp: aggregate_mock_status_def stops_def list_ex_iff)

text \<open>An execution stops with its last leaf, or not at all.\<close>

definition stop_is_last :: "execution \<Rightarrow> bool" where
  "stop_is_last ex \<longleftrightarrow>
     (\<forall>r \<in> set (butlast (ex_leaf_results ex)). \<not> stops (lr_status r)) \<and>
     (should_stop ex \<longleftrightarrow> ex_leaf_results ex \<noteq> [] \<and> stops (lr_status (last (ex_leaf_results ex))))"

lemma stop_is_last_running:
  "stop_is_last ex \<Longrightarrow> \<not> should_stop ex \<longleftrightarrow> (\<forall>r \<in> set (ex_leaf_results ex). \<not> stops (lr_status r))"
  by (cases "ex_leaf_results ex" rule: rev_cases) (auto simp: stop_is_last_def)

interpretation stopping: run_invariant "\<lambda>s. stop_is_last (snd s)"
proof unfold_locales
  fix s :: run_state and spec
  assume s: "stop_is_last (snd s)" "\<not> should_stop (snd s)"
  obtain m ex where [simp]: "s = (m, ex)" by (cases s)
  obtain outcome m' where o: "mock_leaf_outcome spec m = (outcome, m')" by (cases "mock_leaf_outcome spec m")
  have "\<forall>r \<in> set (ex_leaf_results ex). \<not> stops (lr_status r)" using s stop_is_last_running by simp
  with s o show "stop_is_last (snd (execute_leaf spec s))"
    by (auto simp: stop_is_last_def execute_leaf_def Let_def should_stop_status stops_def)
next
  fix m0 ex0 and m :: mock and ex rs i ns
  assume s: "stop_is_last (snd (m0, ex0))" "\<not> should_stop ex0" "stop_is_last (snd (m :: mock, ex))"
    and rs: "ex_leaf_results ex = ex_leaf_results ex0 @ rs"
  have "\<forall>r \<in> set (ex_leaf_results ex0). \<not> stops (lr_status r)" using s(1,2) stop_is_last_running by simp
  then have "should_stop ex \<longleftrightarrow> (\<exists>r \<in> set rs. stops (lr_status r))"
    using stop_is_last_running [of ex] s(3) rs by auto
  then have "should_stop ex \<longleftrightarrow> stops (aggregate_mock_status rs)" by (simp add: stops_aggregate)
  with s(3) show "stop_is_last (snd (m, finish_branch i ns (length (ex_leaf_results ex0)) ex))"
    by (auto simp: stop_is_last_def finish_branch_def Let_def rs should_stop_status stops_def)
next
  fix m :: mock and ex i ns n b
  assume "stop_is_last (snd (m, ex))"
  then show "stop_is_last (snd (m, finish_loop i ns n b ex))"
    by (auto simp: stop_is_last_def finish_loop_def Let_def should_stop_status stops_def)
qed (simp_all add: stop_is_last_def should_stop_status)

subsection \<open>Step budget\<close>

text \<open>The leaves that ran, as far as the mock counts them.\<close>

definition steps_within :: "u32 \<Rightarrow> run_state \<Rightarrow> bool" where
  "steps_within n s \<longleftrightarrow> mk_max_leaf_steps (fst s) = Some n \<and> mk_leaf_steps_executed (fst s) \<le> n \<and>
     length (filter (\<lambda>r. \<not> stops (lr_status r)) (ex_leaf_results (snd s))) \<le> unat (mk_leaf_steps_executed (fst s))"

lemma leaf_outcome_steps:
  assumes "mock_leaf_outcome spec m = (outcome, m')" "mk_max_leaf_steps m = Some n" "mk_leaf_steps_executed m \<le> n"
  shows "mk_max_leaf_steps m' = Some n \<and> mk_leaf_steps_executed m' \<le> n \<and>
     (if stops (mo_status outcome) then unat (mk_leaf_steps_executed m) \<le> unat (mk_leaf_steps_executed m')
      else unat (mk_leaf_steps_executed m') = unat (mk_leaf_steps_executed m) + 1)"
proof (cases "mk_cancelled m \<or> mk_leaf_steps_executed m = n \<or> bg_max_steps (lf_budget spec) = Some 0
    \<or> (case mk_max_leaf_tokens m of Some t \<Rightarrow> mk_leaf_tokens_used m \<ge> t | None \<Rightarrow> False)
    \<or> bg_max_tokens (lf_budget spec) = Some 0")
  case True
  then have "m' = m \<and> stops (mo_status outcome)" using assms(1,2)
    by (auto simp: mock_leaf_outcome_def outcome_with_output_def stops_def split: if_splits)
  then show ?thesis using assms(2,3) by simp
next
  case False
  with assms(3) have "mk_leaf_steps_executed m < n" by (simp add: order.not_eq_order_implies_strict)
  then have s: "unat (sat_add (mk_leaf_steps_executed m) 1) = unat (mk_leaf_steps_executed m) + 1"
    "sat_add (mk_leaf_steps_executed m) 1 \<le> n"
    using sat_add_below by blast+
  then show ?thesis using assms False
    by (auto simp: mock_leaf_outcome_def Let_def split: option.splits if_splits)
qed

interpretation step_budget: run_invariant "steps_within n"
proof unfold_locales
  fix s :: run_state and spec
  assume s: "steps_within n s"
  obtain m ex where [simp]: "s = (m, ex)" by (cases s)
  obtain outcome m' where o: "mock_leaf_outcome spec m = (outcome, m')" by (cases "mock_leaf_outcome spec m")
  from s o leaf_outcome_steps [OF o, of n] show "steps_within n (execute_leaf spec s)"
    by (auto simp: steps_within_def execute_leaf_def Let_def split: if_splits)
next
  fix m ex i b m'
  assume "steps_within n (m, ex)" "next_predicate_result i m = (b, m')"
  then show "steps_within n (m', ex)"
    by (auto simp: steps_within_def next_predicate_result_def split: option.splits list.splits)
qed (simp_all add: steps_within_def)

section \<open>The agents counted before the launch\<close>

text \<open>The leaves a node can run, uncapped: all of its children, both sides of a conditional, every round of a
  loop. Expansions run generated nodes, which the tree does not show.\<close>

fun leaf_bound :: "workflow_node \<Rightarrow> nat" where
  "leaf_bound (BranchSet _ _ _ _ _ _ children) = sum_list (map leaf_bound children)"
| "leaf_bound (Leaf _) = 1"
| "leaf_bound (Sequence _ children) = sum_list (map leaf_bound children)"
| "leaf_bound (Reduce _) = 0"
| "leaf_bound (TeacherReview _) = 0"
| "leaf_bound (LoopUntil _ _ n children) =
     unat (max (case n of Some n \<Rightarrow> n | None \<Rightarrow> 1) 1) * sum_list (map leaf_bound children)"
| "leaf_bound (Cond _ _ then_nodes else_nodes) =
     sum_list (map leaf_bound then_nodes) + sum_list (map leaf_bound else_nodes)"
| "leaf_bound (Expand _ _ _ _) = 0"

fun no_expand :: "workflow_node \<Rightarrow> bool" where
  "no_expand (BranchSet _ _ _ _ _ _ children) = list_all no_expand children"
| "no_expand (Sequence _ children) = list_all no_expand children"
| "no_expand (LoopUntil _ _ _ children) = list_all no_expand children"
| "no_expand (Cond _ _ then_nodes else_nodes) = (list_all no_expand then_nodes \<and> list_all no_expand else_nodes)"
| "no_expand (Expand _ _ _ _) = False"
| "no_expand _ = True"

abbreviation agents_max :: nat where
  "agents_max \<equiv> 2 ^ LENGTH(64) - 1"

lemma unat_shape_add:
  "unat (fh_total_agents (shape_add a b)) = min (unat (fh_total_agents a) + unat (fh_total_agents b)) agents_max"
  by (simp add: shape_add_def unat_sat_add)

lemma min_scaled:
  assumes "0 < k"
  shows "min (k * min a M) M = min (k * a) (M :: nat)"
proof (cases "a \<le> M")
  case False
  have "M \<le> k * M" "a \<le> k * a" using assms by simp_all
  moreover from this False have "M \<le> k * a" by linarith
  ultimately show ?thesis using False by (simp only: min_absorb2 nat_le_linear linorder_not_le order_less_imp_le)
qed simp

lemma unat_max_1: "unat (max (ucast n) 1 :: u64) = unat (max (n :: u32) 1)"
proof -
  have "unat (ucast n :: u64) = unat n" 
  proof -
    have "unat n < 2 ^ 32" using unsigned_less [of n] by simp
    then show ?thesis by (simp add: unsigned_ucast_eq take_bit_nat_eq_self)
  qed
  then show ?thesis by (auto simp: max_def word_le_nat_alt)
qed

text \<open>The estimate is the uncapped count, capped.\<close>

lemma estimate_is_leaf_bound:
  "no_expand node \<Longrightarrow> estimate_node_fleet_shape node d = Inr shape \<Longrightarrow>
     unat (fh_total_agents shape) = min (leaf_bound node) agents_max"
  "list_all no_expand nodes \<Longrightarrow> estimate_shapes_from from nodes d = Inr shape \<Longrightarrow>
     unat (fh_total_agents shape) = min (unat (fh_total_agents from) + sum_list (map leaf_bound nodes)) agents_max"
proof (induction node d and "from" nodes d arbitrary: shape and shape
    rule: estimate_node_fleet_shape_estimate_shapes_from.induct)
  case (6 i c n children d)
  from 6(3) obtain k s where n: "n = Some k" "estimate_shapes_from no_agents children d = Inr s"
    "shape = shape_repeat s (max (ucast k) 1)" by (auto split: option.splits simp: res_bind_Inr)
  have "0 < unat (max k 1)" using max.cobounded2 [of 1 k] by (simp add: word_le_nat_alt)
  with 6(1) [OF n(1) _ n(2)] 6(2) n show ?case
    by (simp add: shape_repeat_def unat_sat_mul unat_max_1 no_agents_def min_scaled mult.commute [of _ "unat (max k 1)"])
next
  case (7 i c then_nodes else_nodes d)
  then show ?case by (auto simp: res_bind_Inr unat_shape_add no_agents_def)
next
  case (9 shape' d)
  have "unat (fh_total_agents shape') < 2 ^ LENGTH(64)" by (rule unsigned_less)
  then show ?case using 9 by (simp add: min_def)
next
  case (10 shape' node nodes d)
  then show ?case by (auto simp: res_bind_Inr unat_shape_add)
qed (auto simp: no_agents_def)

text \<open>The executor runs at most the uncapped count.\<close>

definition leaves :: "run_state \<Rightarrow> nat" where
  "leaves s = length (ex_leaf_results (snd s))"

lemma executed_leaves:
  "list_all no_expand nodes \<Longrightarrow> leaves (snd (execute_nodes nodes s)) \<le> leaves s + sum_list (map leaf_bound nodes)"
  "no_expand node \<Longrightarrow> leaves (snd (execute_node node s)) \<le> leaves s + leaf_bound node"
  "list_all no_expand children \<Longrightarrow> leaves (fst (snd (loop_rounds i children left iterations s)))
     \<le> leaves s + left * sum_list (map leaf_bound children)"
proof (induction nodes s and node s and i children left iterations s
    rule: execute_nodes_execute_node_loop_rounds.induct)
  case (2 node nodes s)
  obtain e s' where n: "execute_node node s = (e, s')" by (cases "execute_node node s")
  show ?case
  proof (cases "should_stop (snd s)")
    case False
    show ?thesis using 2(1) [OF False] 2(2) [OF False n [symmetric]] 2(3) n False by (cases e) auto
  qed simp
next
  case (4 i a b c d e children s)
  then show ?case
    by (cases "execute_nodes children s") (auto simp: leaves_def split: option.splits)
next
  case (5 i children s)
  then show ?case
    by (cases "execute_nodes children s") (auto simp: leaves_def split: option.splits)
next
  case (8 i a max_iterations children s)
  then show ?case
    by (cases "loop_rounds i children (unat (max (case max_iterations of Some n \<Rightarrow> n | None \<Rightarrow> 1) 1)) 0 s")
      (auto simp: leaves_def split: option.splits)
next
  case (9 i a then_nodes else_nodes s)
  obtain passed m where p: "next_predicate_result i (fst s) = (passed, m)" by (cases "next_predicate_result i (fst s)")
  from 9(1) [OF p [symmetric] refl refl] 9(2) p show ?case
    by (cases "execute_nodes (if passed then then_nodes else else_nodes) (m, snd s)")
      (auto simp: leaves_def Let_def split: option.splits if_splits)
next
  case (12 i children left iterations s)
  obtain e m ex where r: "execute_nodes children s = (e, m, ex)" by (metis prod_cases3)
  obtain passed m' where p: "next_predicate_result i m = (passed, m')" by (cases "next_predicate_result i m")
  show ?case
  proof (cases "should_stop (snd s)")
    case False
    have a: "leaves (m, ex) \<le> leaves s + sum_list (map leaf_bound children)" using 12(1) [OF False 12(3)] r by simp
    have "e = None \<Longrightarrow> \<not> should_stop ex \<Longrightarrow> \<not> passed \<Longrightarrow>
        leaves (fst (snd (loop_rounds i children left (iterations + 1) (m', ex))))
          \<le> leaves (m', ex) + left * sum_list (map leaf_bound children)"
      using 12(2) [OF False r [symmetric] _ refl _ p [symmetric] refl _ 12(3)] by blast
    then show ?thesis using a r p False by (auto simp: Let_def leaves_def split: option.splits)
  qed simp
qed (auto simp: leaves_def execute_leaf_def split_beta Let_def)

section \<open>What validation admits\<close>

text \<open>The nodes of a tree, in the order of the source text; the template of an expansion is not one of them.\<close>

fun subtree :: "workflow_node \<Rightarrow> workflow_node list" where
  "subtree (BranchSet i d p b pe mp children) = BranchSet i d p b pe mp children # concat (map subtree children)"
| "subtree (Sequence i children) = Sequence i children # concat (map subtree children)"
| "subtree (LoopUntil i c n children) = LoopUntil i c n children # concat (map subtree children)"
| "subtree (Cond i c then_nodes else_nodes) =
     Cond i c then_nodes else_nodes # concat (map subtree then_nodes) @ concat (map subtree else_nodes)"
| "subtree node = [node]"

abbreviation subtrees :: "workflow_node list \<Rightarrow> workflow_node list" where
  "subtrees nodes \<equiv> concat (map subtree nodes)"

fun node_references :: "workflow_node \<Rightarrow> string list" where
  "node_references (Leaf spec) = lf_depends_on_results spec"
| "node_references (Reduce spec) = rd_inputs spec"
| "node_references (TeacherReview spec) = tr_candidates spec"
| "node_references _ = []"

text \<open>A name that is not blank, and for a leaf a prompt that is not.\<close>

fun node_named :: "workflow_node \<Rightarrow> bool" where
  "node_named (Leaf spec) = (trim (lf_id spec) \<noteq> [] \<and> trim (lf_prompt spec) \<noteq> [])"
| "node_named node = (trim (node_id node) \<noteq> [])"

lemma subtree_head: "\<exists>rest. subtree node = node # rest"
  by (cases node) auto

text \<open>Induction over a forest: its first node, the nodes in it, the nodes after it.\<close>

fun inner_forests :: "workflow_node \<Rightarrow> workflow_node list list" where
  "inner_forests (BranchSet _ _ _ _ _ _ children) = [children]"
| "inner_forests (Sequence _ children) = [children]"
| "inner_forests (LoopUntil _ _ _ children) = [children]"
| "inner_forests (Cond _ _ then_nodes else_nodes) = [then_nodes, else_nodes]"
| "inner_forests _ = []"

lemma forest_induct [case_names Nil Cons]:
  assumes "P []"
    and "\<And>node nodes. P nodes \<Longrightarrow> list_all P (inner_forests node) \<Longrightarrow> P (node # nodes)"
  shows "P nodes"
proof (induction nodes rule: measure_induct_rule [of "size_list size"])
  case (less nodes)
  show ?case
  proof (cases nodes)
    case (Cons node rest)
    have "P rest" by (rule less) (simp add: Cons)
    moreover have "list_all P (inner_forests node)" using less unfolding Cons by (cases node) auto
    ultimately show ?thesis unfolding Cons by (rule assms(2))
  qed (simp add: assms(1))
qed

lemma inner_validation:
  "validate_workflow_nodes_inner nodes seen = Inr seen' \<longleftrightarrow>
     list_all node_named (subtrees nodes) \<and> distinct (map node_id (subtrees nodes))
     \<and> set (map node_id (subtrees nodes)) \<inter> seen = {} \<and> seen' = seen \<union> set (map node_id (subtrees nodes))"
proof (induction nodes arbitrary: seen seen' rule: forest_induct)
  case (Cons node nodes)
  show ?case
  proof (cases "trim (node_id node) = [] \<or> node_id node \<in> seen")
    case True
    then show ?thesis using subtree_head [of node] by (cases node) auto
  next
    case False
    note [simp] = Cons(1) res_bind_Inr Let_def Int_Un_distrib Int_Un_distrib2 Un_assoc Int_commute
    note [simp del] = set_concat set_map
    show ?thesis using Cons(2) False by (cases node; simp; argo)
  qed
qed auto

lemma known_references: "validate_known_references node field refs known = Inr u \<longleftrightarrow> set refs \<subseteq> known"
  by (auto simp: validate_known_references_def find_None_iff find_Some_iff in_set_conv_nth subset_iff split: option.splits)

lemma reference_validation:
  "validate_workflow_references nodes known = Inr u \<longleftrightarrow>
     list_all (\<lambda>node. set (node_references node) \<subseteq> known) (subtrees nodes)"
proof (induction nodes arbitrary: u rule: forest_induct)
  case (Cons node nodes)
  then show ?case by (cases node) (auto simp: res_bind_Inr known_references)
qed auto

lemma no_expand_runs:
  "list_all no_expand nodes \<Longrightarrow> fst (execute_nodes nodes s) = None"
  "no_expand node \<Longrightarrow> fst (execute_node node s) = None"
  "list_all no_expand children \<Longrightarrow> fst (loop_rounds i children left iterations s) = None"
proof (induction nodes s and node s and i children left iterations s
    rule: execute_nodes_execute_node_loop_rounds.induct)
  case (8 i a max_iterations children s)
  then show ?case
    by (cases "loop_rounds i children (unat (max (case max_iterations of Some n \<Rightarrow> n | None \<Rightarrow> 1) 1)) 0 s") auto
next
  case (9 i a then_nodes else_nodes s)
  then show ?case by (auto simp: Let_def split: prod.split)
next
  case (12 i children left iterations s)
  then show ?case by (force split: prod.split option.split)
qed (force split: prod.split option.split)+

section \<open>Properties\<close>

text \<open>
  \<open>validate_workflow_nodes\<close> accepts a tree exactly when every node in it has an identifier that is not blank and
  every leaf a prompt that is not, no two nodes share an identifier, and every reference of a leaf, a reduction or a
  review names a node of the tree. The template of an expansion is not looked at.
\<close>

theorem validation_admits_exactly_the_well_formed:
  "validate_workflow_nodes nodes = Inr () \<longleftrightarrow>
     list_all node_named (subtrees nodes) \<and> distinct (map node_id (subtrees nodes)) \<and>
     list_all (\<lambda>node. set (node_references node) \<subseteq> set (map node_id (subtrees nodes))) (subtrees nodes)"
  by (simp add: validate_workflow_nodes_def res_bind_Inr inner_validation reference_validation del: set_map set_concat)

text \<open>
  C20: a workflow that the fleet limits admit, and that has no expansion, runs to its end whatever the leaves and
  conditions return, and runs no more leaves than were counted before the launch, so no more than the limit. (The
  count saturates, hence the limit below the largest word.)
\<close>

theorem admitted_workflow_stays_within_the_limit:
  assumes "validate_for_fleet_with_limits limits spec = Inr shape"
    and "list_all no_expand (wf_nodes spec)"
    and "fl_max_total_agents limits < - 1"
  shows "\<exists>ex m'. run spec m = (Inr ex, m') \<and>
           length (ex_leaf_results ex) \<le> unat (fh_total_agents shape) \<and>
           fh_total_agents shape \<le> fl_max_total_agents limits"
proof -
  from assms(1) have v: "validate_workflow_nodes (wf_nodes spec) = Inr ()"
    and e: "estimate_shapes_from no_agents (wf_nodes spec) 1 = Inr shape"
    and l: "fh_total_agents shape \<le> fl_max_total_agents limits"
    by (auto simp: validate_for_fleet_with_limits_def estimate_fleet_shape_def res_bind_Inr not_less
        split: sum.splits if_splits)
  from estimate_is_leaf_bound(2) [OF assms(2) e]
  have n: "unat (fh_total_agents shape) = min (sum_list (map leaf_bound (wf_nodes spec))) agents_max"
    by (simp add: no_agents_def)
  have "fh_total_agents shape < - 1" using l assms(3) by (rule le_less_trans)
  then have "unat (fh_total_agents shape) < agents_max" by (simp add: word_less_nat_alt unsigned_minus_1_eq_mask mask_eq_exp_minus_1)
  with n have "unat (fh_total_agents shape) = sum_list (map leaf_bound (wf_nodes spec))" by simp
  then show ?thesis
    using v l no_expand_runs(1) [OF assms(2), of "(m, execution_default)"] executed_leaves(1) [OF assms(2), of "(m, execution_default)"]
    by (auto simp: run_def leaves_def execution_default_def split: prod.split option.splits)
qed

text \<open>
  in every run the totals are the sums, saturated field by field and in order, of the usage of the leaves that
  ran: nothing is counted twice by branch sets, loops, conditionals or expansions, and nothing is left out.
\<close>

theorem run_totals_are_the_sums:
  assumes "run spec m = (Inr ex, m')"
  shows "ex_usage ex = usage_of (ex_leaf_results ex) \<and> ex_memo_usage ex = memo_usage_of (ex_leaf_results ex)"
  using totals.run_kept [OF _ assms]
  by (simp add: totals_match_def execution_default_def usage_of_def memo_usage_of_def)

text \<open>
  C21: nothing runs after a stop. A leaf that is cancelled or refused for its budget is the last leaf of the run,
  however deep in branch sets, loops and expansions it is, and the run ends cancelled or over budget exactly when its
  last leaf did.
\<close>

theorem nothing_runs_after_a_stop:
  assumes "run spec m = (Inr ex, m')"
  shows "list_all (\<lambda>r. lr_status r \<noteq> Cancelled \<and> lr_status r \<noteq> BudgetExceeded) (butlast (ex_leaf_results ex)) \<and>
     (ex_status ex \<in> {Cancelled, BudgetExceeded} \<longleftrightarrow>
        ex_leaf_results ex \<noteq> [] \<and> lr_status (last (ex_leaf_results ex)) \<in> {Cancelled, BudgetExceeded})"
  using stopping.run_kept [OF _ assms]
  by (auto simp: stop_is_last_def execution_default_def should_stop_status stops_def list_all_iff)

text \<open>
  with a step budget of \<open>n\<close>, a run has at most \<open>n\<close> leaves that were not stopped, and at most one more: the leaf
  that was refused. Loops and expansions cannot exceed it.
\<close>

theorem run_within_step_budget:
  assumes "run spec m = (Inr ex, m')" "mk_max_leaf_steps m = Some n" "mk_leaf_steps_executed m \<le> n"
  shows "length (ex_leaf_results ex) \<le> unat n + 1"
proof -
  have w: "steps_within n (m', ex)" using assms
    by (intro step_budget.run_kept [OF _ assms(1)]) (simp add: steps_within_def execution_default_def)
  have "stop_is_last ex" using stopping.run_kept [OF _ assms(1)]
    by (simp add: stop_is_last_def execution_default_def should_stop_status stops_def)
  then have "length (ex_leaf_results ex) \<le> length (filter (\<lambda>r. \<not> stops (lr_status r)) (ex_leaf_results ex)) + 1"
    by (cases "ex_leaf_results ex" rule: rev_cases) (auto simp: stop_is_last_def)
  with w show ?thesis by (auto simp: steps_within_def word_le_nat_alt)
qed

section \<open>Concrete runs\<close>

definition demo_budget :: budget_spec where
  "demo_budget = \<lparr>bg_max_steps = None, bg_timeout_secs = None, bg_max_parallel = None, bg_max_tokens = None\<rparr>"

definition demo_permissions :: permission_spec where
  "demo_permissions = \<lparr>pe_allow_write = False, pe_allow_network = False, pe_allowed_tools = [], pe_file_scope = []\<rparr>"

definition demo_policy :: model_policy where
  "demo_policy = \<lparr>mp_provider = None, mp_model = None, mp_fallback_models = []\<rparr>"

definition demo_leaf :: "string \<Rightarrow> workflow_node" where
  "demo_leaf i = Leaf \<lparr>lf_id = i, lf_prompt = ''do it'', lf_agent_type = General, lf_mode = ReadOnly,
     lf_isolation = Shared, lf_file_scope = [], lf_depends_on_results = [], lf_budget = demo_budget,
     lf_permissions = demo_permissions, lf_model_policy = demo_policy\<rparr>"

definition demo_branch :: "string \<Rightarrow> workflow_node list \<Rightarrow> workflow_node" where
  "demo_branch i children = BranchSet i None True demo_budget demo_permissions demo_policy children"

definition demo_workflow :: "workflow_node list \<Rightarrow> workflow_spec" where
  "demo_workflow nodes = \<lparr>wf_id = None, wf_goal = ''goal'', wf_description = None, wf_budget = demo_budget,
     wf_permissions = demo_permissions, wf_model_policy = demo_policy,
     wf_promotion_policy = \<lparr>po_strategy = promotion_strategy.All, po_require_teacher_review = False,
       po_min_successful_branches = None,
       po_promotion_gate = \<lparr>pg_min_score_delta = 1, pg_max_cost_delta_microusd = None,
         pg_require_all_tests_pass = True, pg_reject_policy_violations = True, pg_reject_stale_replay = True\<rparr>\<rparr>,
     wf_nodes = nodes\<rparr>"

text \<open>A branch of two leaves and a loop of at most three rounds over one leaf.\<close>

definition demo_nodes :: "workflow_node list" where
  "demo_nodes = [demo_branch ''b'' [demo_leaf ''x'', demo_leaf ''y''],
     LoopUntil ''l'' ''done'' (Some 3) [demo_leaf ''z'']]"

definition demo_usage :: usage where
  "demo_usage = \<lparr>us_input_tokens = 10, us_output_tokens = 5, us_cost_microusd = 2\<rparr>"

definition demo_mock :: mock where
  "demo_mock = with_predicate_results ''l'' [False, True]
     (with_leaf_outcome ''y'' ((outcome_succeeded ''ok'')\<lparr>mo_usage := demo_usage\<rparr>) mock_new)"

definition ran :: "(execution_error + execution) \<times> mock \<Rightarrow> (string \<times> run_status) list" where
  "ran r = (case r of (Inr ex, _) \<Rightarrow> map (\<lambda>l. (lr_leaf_id l, lr_status l)) (ex_leaf_results ex) | _ \<Rightarrow> [])"

definition ran_status :: "(execution_error + execution) \<times> mock \<Rightarrow> run_status option" where
  "ran_status r = (case r of (Inr ex, _) \<Rightarrow> Some (ex_status ex) | _ \<Rightarrow> None)"

text \<open>The loop ends in its second round; three leaves would be the bound of its rounds.\<close>

lemma demo_run_leaves:
  "ran (run (demo_workflow demo_nodes) demo_mock) =
     [(''x'', Succeeded), (''y'', Succeeded), (''z'', Succeeded), (''z'', Succeeded)]"
  by code_simp

lemma ran_status_run: "ran_status (run spec m) = Some st \<Longrightarrow> \<exists>ex m'. run spec m = (Inr ex, m') \<and> ex_status ex = st"
  by (cases "run spec m") (auto simp: ran_status_def split: sum.splits)

text \<open>A budget of two steps stops the same workflow at its third leaf, inside the loop.\<close>

lemma demo_stopped_run:
  "ran (run (demo_workflow demo_nodes) (with_max_leaf_steps 2 demo_mock)) =
     [(''x'', Succeeded), (''y'', Succeeded), (''z'', BudgetExceeded)]"
  "ran_status (run (demo_workflow demo_nodes) (with_max_leaf_steps 2 demo_mock)) = Some BudgetExceeded"
  by code_simp+

text \<open>The nodes generated for an expansion are bounded in number, not in what they hold: a template of one leaf is
  counted as one agent, and a generated branch of three leaves runs three.\<close>

lemma generated_nodes_escape_the_count:
  "map_sum id fh_total_agents (validate_for_fleet (demo_workflow [Expand ''e'' ''src'' (Some 1) (Some (demo_leaf ''t''))]))
     = Inr 1"
  "map fst (ran (run (demo_workflow [Expand ''e'' ''src'' (Some 1) (Some (demo_leaf ''t''))])
     (with_generated_nodes ''e'' [demo_branch ''b'' [demo_leaf ''x'', demo_leaf ''y'', demo_leaf ''z'']] mock_new)))
     = [''x'', ''y'', ''z'']"
  by code_simp+

text \<open>A loop whose second round succeeds still leaves the execution failed when a leaf of its first round failed.\<close>

lemma recovered_loop_stays_failed:
  "ran_status (run (demo_workflow [LoopUntil ''l'' ''done'' (Some 3) [demo_leaf ''z'']])
     (with_predicate_results ''l'' [False, True] (with_leaf_outcome ''z'' (outcome_failed ''no'') mock_new)))
   = Some Failed"
  by code_simp

theorem admitted_workflow_stays_within_the_limit_witness:
  "validate_for_fleet (demo_workflow demo_nodes) = Inr \<lparr>fh_total_agents = 5, fh_max_depth = 2\<rparr> \<and>
   (\<exists>ex m'. run (demo_workflow demo_nodes) demo_mock = (Inr ex, m') \<and> length (ex_leaf_results ex) \<le> 5)"
proof -
  have v: "validate_for_fleet_with_limits default_fleet_limits (demo_workflow demo_nodes)
      = Inr \<lparr>fh_total_agents = 5, fh_max_depth = 2\<rparr>" by code_simp
  have e: "list_all no_expand (wf_nodes (demo_workflow demo_nodes))" by code_simp
  have l: "fl_max_total_agents default_fleet_limits < - 1" by code_simp
  show ?thesis using admitted_workflow_stays_within_the_limit [OF v e l, of demo_mock] v
    by (auto simp: validate_for_fleet_def)
qed

theorem run_totals_are_the_sums_witness:
  "\<exists>ex m'. run (demo_workflow demo_nodes) demo_mock = (Inr ex, m') \<and> ex_usage ex = usage_of (ex_leaf_results ex)"
proof -
  have "ran_status (run (demo_workflow demo_nodes) demo_mock) = Some Succeeded" by code_simp
  then show ?thesis using ran_status_run run_totals_are_the_sums by blast
qed

theorem nothing_runs_after_a_stop_witness:
  "\<exists>ex m'. run (demo_workflow demo_nodes) (with_max_leaf_steps 2 demo_mock) = (Inr ex, m') \<and>
     ex_status ex = BudgetExceeded \<and> lr_status (last (ex_leaf_results ex)) \<in> {Cancelled, BudgetExceeded}"
  using ran_status_run [OF demo_stopped_run(2)] nothing_runs_after_a_stop by blast

theorem run_within_step_budget_witness:
  "\<exists>ex m'. run (demo_workflow demo_nodes) (with_max_leaf_steps 2 demo_mock) = (Inr ex, m') \<and>
     length (ex_leaf_results ex) \<le> 3"
proof -
  obtain ex m' where r: "run (demo_workflow demo_nodes) (with_max_leaf_steps 2 demo_mock) = (Inr ex, m')"
    using ran_status_run [OF demo_stopped_run(2)] by blast
  have "length (ex_leaf_results ex) \<le> unat (2 :: u32) + 1"
    by (rule run_within_step_budget [OF r]) (simp_all add: with_max_leaf_steps_def demo_mock_def
      with_predicate_results_def with_leaf_outcome_def mock_new_def)
  with r show ?thesis by simp
qed

end
