(* ===== verification/Workflow_Select.thy ===== *)
theory Workflow_Select
  imports Workflow_Run "HOL-Library.Product_Lexorder"
begin

text \<open>
  \<open>crates/whaleflow/src/lib.rs\<close>, what a workflow does with its results: the candidates a teacher review takes from
  an execution, the promotion gate on their replays, the tournament and the Pareto frontier of branches. Scores and
  signed differences are integers with the saturation of \<open>i32\<close> and \<open>i64\<close> written out. \<open>min_by_key\<close> returns the first
  of the smallest elements and \<open>sort_by_key\<close> is stable, as the standard library has them.
\<close>

section \<open>Branches\<close>

record branch_candidate =
  bc_branch_id :: string
  bc_status :: run_status
  bc_score :: u32
  bc_cost :: u64
  bc_diversity_key :: "string option"

text \<open>\<open>Iterator::min_by_key\<close>: the first element with the smallest key.\<close>

definition first_min_by_key :: "('a \<Rightarrow> 'k::linorder) \<Rightarrow> 'a list \<Rightarrow> 'a option" where
  "first_min_by_key key xs = (if xs = [] then None else Some (arg_min_list key xs))"

text \<open>The keys \<open>(cost, Reverse(score))\<close> and \<open>(Reverse(score), cost)\<close>, in the order of the components.\<close>

definition cost_key :: "branch_candidate \<Rightarrow> int \<times> int" where
  "cost_key c = (uint (bc_cost c), - uint (bc_score c))"

definition score_key :: "branch_candidate \<Rightarrow> int \<times> int" where
  "score_key c = (- uint (bc_score c), uint (bc_cost c))"

definition tournament_select :: "u32 \<Rightarrow> branch_candidate list \<Rightarrow> branch_candidate option" where
  "tournament_select min_score candidates =
     first_min_by_key cost_key (filter (\<lambda>c. bc_status c = Succeeded \<and> bc_score c \<ge> min_score) candidates)"

definition default_frontier_limit :: u64 where
  "default_frontier_limit = 8"

text \<open>The closure of \<open>ParetoFrontier::select\<close>: a successful candidate as good in both, better in one.\<close>

definition dominates :: "branch_candidate \<Rightarrow> branch_candidate \<Rightarrow> bool" where
  "dominates other c \<longleftrightarrow> bc_status other = Succeeded \<and> bc_score other \<ge> bc_score c \<and> bc_cost other \<le> bc_cost c \<and>
     (bc_score other > bc_score c \<or> bc_cost other < bc_cost c)"

definition nondominated :: "branch_candidate list \<Rightarrow> branch_candidate list" where
  "nondominated candidates =
     filter (\<lambda>c. \<not> list_ex (\<lambda>other. dominates other c) candidates)
       (filter (\<lambda>c. bc_status c = Succeeded) candidates)"

definition frontier_select :: "u64 \<Rightarrow> branch_candidate list \<Rightarrow> branch_candidate list" where
  "frontier_select max_items candidates =
     take (unat (max max_items 1)) (sort_key score_key (nondominated candidates))"

section \<open>The promotion gate\<close>

datatype teacher_candidate_kind =
    Note | WorkflowRecipe | SkillPatch | RegressionTest | CachePolicyPatch | BranchHeuristic | StarlarkAuthoringPromptPatch

datatype teacher_candidate_status = Proposed | Accepted | Rejected | Promoted

record replay_metrics =
  rm_score :: int
  rm_cost_microusd :: u64

record replay_test =
  rt_name :: string
  rt_passed :: bool

record replay_result =
  rp_trace_id :: string
  rp_candidate_id :: string
  rp_baseline :: replay_metrics
  rp_candidate :: replay_metrics
  rp_required_tests :: "replay_test list"
  rp_policy_violations :: "string list"
  rp_stale :: bool
  rp_notes :: "string option"

record teacher_candidate =
  tc_candidate_id :: string
  tc_kind :: teacher_candidate_kind
  tc_status :: teacher_candidate_status
  tc_source_node_id :: string
  tc_source_branch_id :: "string option"
  tc_summary :: string
  tc_evidence :: "string list"
  tc_replay_results :: "replay_result list"

record gate_decision =
  gd_candidate_id :: string
  gd_status :: teacher_candidate_status
  gd_score_delta :: int
  gd_cost_delta_microusd :: int
  gd_reasons :: "string list"

definition promoted :: "gate_decision \<Rightarrow> bool" where
  "promoted d \<longleftrightarrow> gd_status d = Promoted"

definition i32_min :: int where "i32_min = - (2 ^ 31)"
definition i32_max :: int where "i32_max = 2 ^ 31 - 1"

text \<open>\<open>i32::saturating_sub\<close>.\<close>

definition sat_sub_i32 :: "int \<Rightarrow> int \<Rightarrow> int" where
  "sat_sub_i32 a b = max i32_min (min (a - b) i32_max)"

definition signed_u64_delta :: "u64 \<Rightarrow> u64 \<Rightarrow> int" where
  "signed_u64_delta candidate baseline =
     (if candidate \<ge> baseline then min (uint candidate - uint baseline) i64_max
      else - min (uint baseline - uint candidate) i64_max)"

definition score_delta :: "replay_result \<Rightarrow> int" where
  "score_delta r = sat_sub_i32 (rm_score (rp_candidate r)) (rm_score (rp_baseline r))"

definition cost_delta_microusd :: "replay_result \<Rightarrow> int" where
  "cost_delta_microusd r = signed_u64_delta (rm_cost_microusd (rp_candidate r)) (rm_cost_microusd (rp_baseline r))"

definition show_int :: "int \<Rightarrow> string" where
  "show_int n = (if n < 0 then ''-'' @ show_nat (nat (- n)) else show_nat (nat n))"

definition default_promotion_gate :: promotion_gate where
  "default_promotion_gate = \<lparr>pg_min_score_delta = 1, pg_max_cost_delta_microusd = None,
     pg_require_all_tests_pass = True, pg_reject_policy_violations = True, pg_reject_stale_replay = True\<rparr>"

definition evaluate_replay :: "promotion_gate \<Rightarrow> string \<Rightarrow> replay_result \<Rightarrow> gate_decision" where
  "evaluate_replay gate i replay =
     (let score = score_delta replay;
          cost = cost_delta_microusd replay;
          reasons =
            (if score < pg_min_score_delta gate
             then [''score delta '' @ show_int score @ '' is below required '' @ show_int (pg_min_score_delta gate)] else [])
            @ (case pg_max_cost_delta_microusd gate of
                 Some m \<Rightarrow> if cost > m then [''cost delta '' @ show_int cost @ '' exceeds allowed '' @ show_int m] else []
               | None \<Rightarrow> [])
            @ (if pg_require_all_tests_pass gate
               then map (\<lambda>t. ''required test '' @ tick (rt_name t) @ '' failed'') (filter (\<lambda>t. \<not> rt_passed t) (rp_required_tests replay))
               else [])
            @ (if pg_reject_policy_violations gate
               then map (\<lambda>v. ''policy violation: '' @ v) (rp_policy_violations replay) else [])
            @ (if pg_reject_stale_replay gate \<and> rp_stale replay then [''student replay result is stale''] else [])
      in \<lparr>gd_candidate_id = i, gd_status = (if reasons = [] then Promoted else Rejected),
          gd_score_delta = score, gd_cost_delta_microusd = cost, gd_reasons = reasons\<rparr>)"

definition evaluate_candidate :: "promotion_gate \<Rightarrow> teacher_candidate \<Rightarrow> gate_decision" where
  "evaluate_candidate gate c =
     (if tc_replay_results c = []
      then \<lparr>gd_candidate_id = tc_candidate_id c, gd_status = Rejected, gd_score_delta = 0, gd_cost_delta_microusd = 0,
            gd_reasons = [''no student replay result recorded'']\<rparr>
      else evaluate_replay gate (tc_candidate_id c) (last (tc_replay_results c)))"

section \<open>Teacher candidates\<close>

definition truncate_evidence :: "string \<Rightarrow> string" where
  "truncate_evidence text = (if length text \<le> 240 then text else take (240 - 1) text @ ''...'')"

text \<open>\<open>{:?}\<close> of statuses and kinds.\<close>

fun show_status :: "run_status \<Rightarrow> string" where
  "show_status Pending = ''Pending''"
| "show_status Running = ''Running''"
| "show_status Succeeded = ''Succeeded''"
| "show_status Failed = ''Failed''"
| "show_status Cancelled = ''Cancelled''"
| "show_status BudgetExceeded = ''BudgetExceeded''"
| "show_status ReplayDiverged = ''ReplayDiverged''"

fun show_kind :: "control_kind \<Rightarrow> string" where
  "show_kind KBranchSet = ''BranchSet''"
| "show_kind KLeaf = ''Leaf''"
| "show_kind KSequence = ''Sequence''"
| "show_kind KReduce = ''Reduce''"
| "show_kind KTeacherReview = ''TeacherReview''"
| "show_kind KLoopUntil = ''LoopUntil''"
| "show_kind KCond = ''Cond''"
| "show_kind KExpand = ''Expand''"

definition show_u64 :: "u64 \<Rightarrow> string" where
  "show_u64 n = show_nat (unat n)"

definition cache_used :: "memo_usage \<Rightarrow> bool" where
  "cache_used u \<longleftrightarrow> mu_armh_hits u > 0 \<or> mu_provider_prompt_cache_hits u > 0"

definition proposed :: "string \<Rightarrow> teacher_candidate_kind \<Rightarrow> string \<Rightarrow> string option \<Rightarrow> string \<Rightarrow> string list \<Rightarrow> teacher_candidate" where
  "proposed i kind source branch summary evidence =
     \<lparr>tc_candidate_id = i, tc_kind = kind, tc_status = Proposed, tc_source_node_id = source,
      tc_source_branch_id = branch, tc_summary = summary, tc_evidence = evidence, tc_replay_results = []\<rparr>"

definition teacher_candidate_from_branch :: "teacher_review_spec \<Rightarrow> branch_result \<Rightarrow> teacher_candidate" where
  "teacher_candidate_from_branch review b =
     (let kind = (if cache_used (br_memo_usage b) then CachePolicyPatch
                  else if br_status b = Succeeded then WorkflowRecipe else BranchHeuristic);
          evidence =
            [''status='' @ show_status (br_status b)]
            @ (if total_tokens (br_usage b) > 0 \<or> us_cost_microusd (br_usage b) > 0
               then [''tokens='' @ show_u64 (total_tokens (br_usage b)) @ '', cost_microusd='' @ show_u64 (us_cost_microusd (br_usage b))]
               else [])
            @ (if cache_used (br_memo_usage b)
               then [''armh_hits='' @ show_u64 (mu_armh_hits (br_memo_usage b)) @ '', provider_prompt_cache_hits=''
                     @ show_u64 (mu_provider_prompt_cache_hits (br_memo_usage b))] else [])
            @ (case br_notes b of Some notes \<Rightarrow> [''notes='' @ notes] | None \<Rightarrow> [])
      in proposed (tr_id review @ '':'' @ br_branch_id b) kind (br_task_id b) (Some (br_branch_id b))
           (''TeacherReview candidate from branch '' @ tick (br_branch_id b) @ '' with '' @ show_status (br_status b) @ '' status.'')
           evidence)"

definition teacher_candidate_from_leaf :: "teacher_review_spec \<Rightarrow> leaf_result \<Rightarrow> teacher_candidate" where
  "teacher_candidate_from_leaf review l =
     (let kind = (if lr_status l = Failed then RegressionTest
                  else if cache_used (lr_memo_usage l) then CachePolicyPatch else Note);
          evidence = [''status='' @ show_status (lr_status l)]
            @ (case lr_output l of Some text \<Rightarrow> [''output='' @ truncate_evidence text] | None \<Rightarrow> [])
      in proposed (tr_id review @ '':'' @ lr_leaf_id l) kind (lr_leaf_id l) None
           (''TeacherReview candidate from leaf '' @ tick (lr_leaf_id l) @ '' with '' @ show_status (lr_status l) @ '' status.'')
           evidence)"

definition teacher_candidate_from_control :: "teacher_review_spec \<Rightarrow> control_node_result \<Rightarrow> teacher_candidate" where
  "teacher_candidate_from_control review c =
     (let evidence = [''status='' @ show_status (cn_status c)]
            @ (if cn_selected_children c \<noteq> [] then [''selected_children='' @ join_with '','' (cn_selected_children c)] else [])
            @ (case cn_summary c of Some text \<Rightarrow> [''summary='' @ truncate_evidence text] | None \<Rightarrow> [])
      in proposed (tr_id review @ '':'' @ cn_node_id c) StarlarkAuthoringPromptPatch (cn_node_id c) None
           (''TeacherReview candidate from control node '' @ tick (cn_node_id c) @ '' ('' @ show_kind (cn_kind c) @ '').'')
           evidence)"

definition candidate_from_source :: "teacher_review_spec \<Rightarrow> execution \<Rightarrow> string \<Rightarrow> teacher_candidate option" where
  "candidate_from_source review ex source =
     (case find (\<lambda>b. br_branch_id b = source \<or> br_task_id b = source) (ex_branch_results ex) of
        Some b \<Rightarrow> Some (teacher_candidate_from_branch review b)
      | None \<Rightarrow>
         (case find (\<lambda>l. lr_leaf_id l = source \<or> lr_task_id l = source) (ex_leaf_results ex) of
            Some l \<Rightarrow> Some (teacher_candidate_from_leaf review l)
          | None \<Rightarrow>
              map_option (teacher_candidate_from_control review)
                (find (\<lambda>c. cn_node_id c = source) (ex_control_node_results ex))))"

definition teacher_candidates_from_execution :: "teacher_review_spec \<Rightarrow> execution \<Rightarrow> teacher_candidate list" where
  "teacher_candidates_from_execution review ex = List.map_filter (candidate_from_source review ex) (tr_candidates review)"

record teacher_review_report =
  rv_review_node_id :: string
  rv_candidates :: "teacher_candidate list"

definition report_from_execution :: "teacher_review_spec \<Rightarrow> execution \<Rightarrow> teacher_review_report" where
  "report_from_execution review ex =
     \<lparr>rv_review_node_id = tr_id review, rv_candidates = teacher_candidates_from_execution review ex\<rparr>"

section \<open>Selection\<close>

definition succeeded :: "branch_candidate \<Rightarrow> bool" where
  "succeeded c \<longleftrightarrow> bc_status c = Succeeded"

lemma first_min_by_key_None: "first_min_by_key key xs = None \<longleftrightarrow> xs = []"
  by (simp add: first_min_by_key_def)

lemma first_min_by_key_Some:
  "first_min_by_key key xs = Some x \<Longrightarrow> x \<in> set xs" "first_min_by_key key xs = Some x \<Longrightarrow> y \<in> set xs \<Longrightarrow> key x \<le> key y"
  by (auto simp: first_min_by_key_def arg_min_list_in f_arg_min_list_f split: if_splits)

lemma dominates_trans: "dominates a b \<Longrightarrow> dominates b c \<Longrightarrow> dominates a c"
  by (auto simp: dominates_def)

lemma dominates_irrefl: "\<not> dominates c c"
  by (simp add: dominates_def)

text \<open>To be dominated is to have a larger score key, so the best keys are on the frontier.\<close>

lemma dominates_score_key: "dominates a b \<Longrightarrow> score_key a < score_key b"
  by (auto simp: dominates_def score_key_def word_less_def word_le_def)

lemma dominates_cost_key: "dominates a b \<Longrightarrow> cost_key a < cost_key b"
  by (auto simp: dominates_def cost_key_def word_less_def word_le_def)

lemma nondominated_iff:
  "c \<in> set (nondominated cs) \<longleftrightarrow> c \<in> set cs \<and> bc_status c = Succeeded \<and> (\<forall>d \<in> set cs. \<not> dominates d c)"
  by (auto simp: nondominated_def list_ex_iff)

text \<open>Every successful candidate is on the frontier or dominated from it.\<close>

lemma reaches_frontier:
  assumes "c \<in> set cs" "bc_status c = Succeeded"
  shows "\<exists>f \<in> set (nondominated cs). f = c \<or> dominates f c"
  using assms
proof (induction "card {d \<in> set cs. dominates d c}" arbitrary: c rule: less_induct)
  case less
  show ?case
  proof (cases "\<exists>d \<in> set cs. dominates d c")
    case True
    then obtain d where d: "d \<in> set cs" "dominates d c" by blast
    have "{e \<in> set cs. dominates e d} \<subset> {e \<in> set cs. dominates e c}"
      using d dominates_trans dominates_irrefl by blast
    then have "card {e \<in> set cs. dominates e d} < card {e \<in> set cs. dominates e c}"
      by (intro psubset_card_mono) auto
    moreover have "bc_status d = Succeeded" using d(2) by (simp add: dominates_def)
    ultimately obtain f where "f \<in> set (nondominated cs)" "f = d \<or> dominates f d" using less.hyps d(1) by blast
    then show ?thesis using d(2) dominates_trans by blast
  qed (use less.prems nondominated_iff in blast)
qed

lemma frontier_subset: "set (frontier_select k cs) \<subseteq> set (nondominated cs)"
  unfolding frontier_select_def using set_take_subset by fastforce

lemma frontier_not_empty: "nondominated cs \<noteq> [] \<Longrightarrow> frontier_select k cs \<noteq> []"
proof -
  have "0 < unat (max k 1)" using max.cobounded2 [of 1 k] by (simp add: word_le_nat_alt)
  moreover assume "nondominated cs \<noteq> []"
  then have "sort_key score_key (nondominated cs) \<noteq> []" by (metis length_0_conv length_sort)
  ultimately show ?thesis by (simp add: frontier_select_def)
qed

lemma frontier_empty: "frontier_select k cs = [] \<longleftrightarrow> nondominated cs = []"
  using frontier_not_empty frontier_subset [of k cs] by auto

lemma nondominated_empty: "nondominated cs = [] \<longleftrightarrow> filter succeeded cs = []"
proof
  assume e: "nondominated cs = []"
  have "bc_status c \<noteq> Succeeded" if "c \<in> set cs" for c using reaches_frontier [OF that] unfolding e by auto
  then show "filter succeeded cs = []" by (simp add: filter_empty_conv succeeded_def)
next
  assume "filter succeeded cs = []"
  then show "nondominated cs = []" by (auto simp: nondominated_def succeeded_def filter_empty_conv)
qed

lemma frontier_sorted: "sorted (map score_key (frontier_select k cs))"
  by (simp add: frontier_select_def sorted_wrt_take flip: take_map)

lemma frontier_head_least:
  assumes "c \<in> set (nondominated cs)"
  shows "score_key (hd (frontier_select k cs)) \<le> score_key c"
proof -
  let ?s = "sort_key score_key (nondominated cs)"
  have c: "c \<in> set ?s" using assms by simp
  then obtain f fs where s: "?s = f # fs" by (cases ?s) auto
  have "sorted (map score_key ?s)" by (rule sorted_sort_key)
  then have "score_key f \<le> score_key c" using c unfolding s by auto
  moreover have "0 < unat (max k 1)" using max.cobounded2 [of 1 k] by (simp add: word_le_nat_alt)
  ultimately show ?thesis unfolding frontier_select_def s by (cases "unat (max k 1)") auto
qed

lemma frontier_head_best:
  assumes "c \<in> set cs" "bc_status c = Succeeded"
  shows "score_key (hd (frontier_select k cs)) \<le> score_key c"
proof -
  obtain f where f: "f \<in> set (nondominated cs)" "f = c \<or> dominates f c" using reaches_frontier [OF assms] by blast
  then have "score_key f \<le> score_key c" using dominates_score_key less_imp_le by blast
  with frontier_head_least [OF f(1)] show ?thesis by (rule order.trans)
qed

section \<open>Properties\<close>

text \<open>
  C37: the Pareto frontier holds only successful candidates that no successful candidate dominates, best score first
  and cheapest first among equal scores; it is empty only if nothing succeeded; and however short it is cut, its first
  element has the best score of all successful candidates, at the least cost among those with that score.
\<close>

theorem frontier_is_nondominated_best_first:
  "list_all (\<lambda>f. bc_status f = Succeeded \<and> f \<in> set cs \<and> list_all (\<lambda>d. \<not> dominates d f) cs) (frontier_select k cs)
   \<and> sorted (map score_key (frontier_select k cs))
   \<and> (frontier_select k cs = [] \<longleftrightarrow> filter succeeded cs = [])
   \<and> list_all (\<lambda>c. score_key (hd (frontier_select k cs)) \<le> score_key c) (filter succeeded cs)"
proof (intro conjI)
  show "list_all (\<lambda>f. bc_status f = Succeeded \<and> f \<in> set cs \<and> list_all (\<lambda>d. \<not> dominates d f) cs) (frontier_select k cs)"
    using frontier_subset by (fastforce simp: list_all_iff nondominated_iff)
  show "sorted (map score_key (frontier_select k cs))" by (rule frontier_sorted)
  show "frontier_select k cs = [] \<longleftrightarrow> filter succeeded cs = []"
    by (simp only: frontier_empty nondominated_empty)
  show "list_all (\<lambda>c. score_key (hd (frontier_select k cs)) \<le> score_key c) (filter succeeded cs)"
    using frontier_head_best by (simp add: list_all_iff succeeded_def)
qed

text \<open>
  a frontier that is not cut (its limit is at least the number of undominated candidates) represents every
  successful candidate: one on it has at least its score at no more than its cost.
\<close>

theorem frontier_covers_every_success:
  assumes "c \<in> set cs" "bc_status c = Succeeded"
    and "length (nondominated cs) \<le> unat k"
  shows "\<exists>f \<in> set (frontier_select k cs). bc_score f \<ge> bc_score c \<and> bc_cost f \<le> bc_cost c"
proof -
  have "unat k \<le> unat (max k 1)" using max.cobounded1 [of k 1] by (simp only: word_le_nat_alt)
  with assms(3) have "frontier_select k cs = sort_key score_key (nondominated cs)" by (simp add: frontier_select_def)
  then show ?thesis using reaches_frontier [OF assms(1,2)] by (auto simp: dominates_def)
qed

text \<open>
  the tournament chooses a successful candidate with at least the least score whenever there is one; none that
  qualifies is cheaper, none as cheap scores higher, and no successful candidate at all dominates the winner, so it is
  always among the candidates of the uncut frontier.
\<close>

theorem tournament_winner_is_cheapest_and_undominated:
  "case tournament_select ms cs of
     None \<Rightarrow> list_all (\<lambda>c. bc_score c < ms) (filter succeeded cs)
   | Some w \<Rightarrow> w \<in> set (nondominated cs) \<and> bc_score w \<ge> ms
       \<and> list_all (\<lambda>c. cost_key w \<le> cost_key c) (filter (\<lambda>c. bc_score c \<ge> ms) (filter succeeded cs))"
proof (cases "tournament_select ms cs")
  case None
  then have "filter (\<lambda>c. bc_status c = Succeeded \<and> bc_score c \<ge> ms) cs = []"
    by (simp add: tournament_select_def first_min_by_key_None)
  with None show ?thesis by (auto simp: filter_empty_conv list_all_iff not_le succeeded_def)
next
  case (Some w)
  let ?q = "filter (\<lambda>c. bc_status c = Succeeded \<and> bc_score c \<ge> ms) cs"
  have q: "first_min_by_key cost_key ?q = Some w" using Some by (simp add: tournament_select_def)
  note w = first_min_by_key_Some(1) [OF q] and least = first_min_by_key_Some(2) [OF q]
  have "\<not> dominates d w" if "d \<in> set cs" for d
  proof
    assume d: "dominates d w"
    then have "d \<in> set ?q" using that w by (auto simp: dominates_def)
    then show False using least dominates_cost_key [OF d] by fastforce
  qed
  then have "w \<in> set (nondominated cs)" using w by (simp add: nondominated_iff)
  moreover have "list_all (\<lambda>c. cost_key w \<le> cost_key c) (filter (\<lambda>c. bc_score c \<ge> ms) (filter succeeded cs))"
    using least by (simp add: list_all_iff succeeded_def)
  ultimately show ?thesis using w Some by simp
qed

text \<open>
  the promotion gate promotes a candidate exactly when it has been replayed and its last replay gains at least the
  required score, costs no more than allowed, passed every required test, violates no policy and is not stale, each
  as far as the gate asks for it; and it gives a reason exactly when it does not promote.
\<close>

theorem gate_promotes_exactly_the_passing:
  "(promoted (evaluate_candidate gate c) \<longleftrightarrow>
      tc_replay_results c \<noteq> [] \<and>
      (let r = last (tc_replay_results c)
       in score_delta r \<ge> pg_min_score_delta gate \<and>
          (case pg_max_cost_delta_microusd gate of None \<Rightarrow> True | Some m \<Rightarrow> cost_delta_microusd r \<le> m) \<and>
          (if pg_require_all_tests_pass gate then list_all rt_passed (rp_required_tests r) else True) \<and>
          (if pg_reject_policy_violations gate then rp_policy_violations r = [] else True) \<and>
          (if pg_reject_stale_replay gate then \<not> rp_stale r else True)))
   \<and> (promoted (evaluate_candidate gate c) \<longleftrightarrow> gd_reasons (evaluate_candidate gate c) = [])"
  by (auto simp: promoted_def evaluate_candidate_def evaluate_replay_def Let_def list_all_iff filter_empty_conv not_less
      split: option.splits)

text \<open>
  the cost difference of a replay is an \<open>i64\<close>, has the sign of the true difference, and is the true difference
  unless that is beyond \<open>i64::MAX\<close> on either side, where it is clamped.
\<close>

theorem cost_delta_keeps_the_sign:
  "in_i64 (signed_u64_delta a b) \<and> (signed_u64_delta a b > 0 \<longleftrightarrow> a > b) \<and> (signed_u64_delta a b < 0 \<longleftrightarrow> a < b) \<and>
   signed_u64_delta a b = max (- i64_max) (min (uint a - uint b) i64_max)"
  by (auto simp: signed_u64_delta_def in_i64_def i64_max_def i64_min_def word_le_def word_less_def min_def max_def)

lemma candidate_from_source_proposed:
  "candidate_from_source review ex source = Some c \<Longrightarrow>
     tc_status c = Proposed \<and> tc_replay_results c = [] \<and> (\<exists>i. tc_candidate_id c = tr_id review @ '':'' @ i)"
  by (auto simp: candidate_from_source_def teacher_candidate_from_branch_def teacher_candidate_from_leaf_def
      teacher_candidate_from_control_def proposed_def Let_def split: option.splits)

text \<open>
  whatever an execution recorded, a teacher review only proposes: each candidate it takes carries the review's
  name, is not yet accepted or promoted, and the gate rejects it, whatever its settings, until it has been replayed.
\<close>

theorem review_candidates_are_only_proposed:
  "list_all (\<lambda>c. tc_status c = Proposed \<and> take (length (tr_id review) + 1) (tc_candidate_id c) = tr_id review @ '':'' \<and>
      gd_status (evaluate_candidate gate c) = Rejected)
     (rv_candidates (report_from_execution review ex))"
proof -
  have "\<exists>source. candidate_from_source review ex source = Some c"
    if "c \<in> set (teacher_candidates_from_execution review ex)" for c
    using that by (auto simp: teacher_candidates_from_execution_def List.map_filter_def)
  then show ?thesis
    by (fastforce simp: list_all_iff report_from_execution_def evaluate_candidate_def dest: candidate_from_source_proposed)
qed

section \<open>Concrete selections\<close>

definition demo_candidate :: "string \<Rightarrow> u32 \<Rightarrow> u64 \<Rightarrow> branch_candidate" where
  "demo_candidate i score cost = \<lparr>bc_branch_id = i, bc_status = Succeeded, bc_score = score, bc_cost = cost,
     bc_diversity_key = None\<rparr>"

definition demo_candidates :: "branch_candidate list" where
  "demo_candidates = [demo_candidate ''a'' 5 50, demo_candidate ''b'' 9 90, demo_candidate ''c'' 5 60,
     demo_candidate ''d'' 2 10]"

lemma demo_selection:
  "map bc_branch_id (frontier_select 8 demo_candidates) = [''b'', ''a'', ''d'']"
  "map_option bc_branch_id (tournament_select 3 demo_candidates) = Some ''a''"
  by code_simp+

theorem frontier_covers_every_success_witness:
  "\<exists>f \<in> set (frontier_select 8 demo_candidates). bc_score f \<ge> 5 \<and> bc_cost f \<le> 60"
proof -
  have m: "demo_candidate ''c'' 5 60 \<in> set demo_candidates" by (simp add: demo_candidates_def)
  have s: "bc_status (demo_candidate ''c'' 5 60) = Succeeded" by (simp add: demo_candidate_def)
  have l: "length (nondominated demo_candidates) \<le> unat (8 :: u64)" by code_simp
  show ?thesis using frontier_covers_every_success [OF m s l] by (simp add: demo_candidate_def)
qed

text \<open>The mark of truncation is three characters, one was reserved: evidence of 241 characters grows to 242.\<close>

lemma truncated_evidence_exceeds_its_limit:
  "length (truncate_evidence (replicate 241 CHR ''x'')) = 242"
  by (simp add: truncate_evidence_def)

end
