(* ===== verification/Workflow_Replay.thy ===== *)
theory Workflow_Replay
  imports Workflow_Run "HOL-Library.Product_Lexorder"
begin

text \<open>
  \<open>crates/whaleflow/src/replay.rs\<close>: the replay of a workflow from a recorded trace. Records are found by the trace,
  the node and, for a leaf, the hash of its resolved inputs; what has no record diverges, or is an error when live
  replay is asked for. The hash (\<open>serde_json\<close> and \<open>sha2\<close>) is a parameter that returns the hash or the reason it
  could not be computed. An expansion runs the nodes recorded for it, which may expand again without end, so the
  calls take a bound on nested expansions and return \<open>None\<close> when it is used up.
\<close>

section \<open>Data\<close>

text \<open>The derived order of \<open>ControlNodeKind\<close>: the order of its variants.\<close>

fun kind_index :: "control_kind \<Rightarrow> nat" where
  "kind_index KBranchSet = 0"
| "kind_index KLeaf = 1"
| "kind_index KSequence = 2"
| "kind_index KReduce = 3"
| "kind_index KTeacherReview = 4"
| "kind_index KLoopUntil = 5"
| "kind_index KCond = 6"
| "kind_index KExpand = 7"

lemma kind_index_inject: "kind_index a = kind_index b \<longleftrightarrow> a = b"
  by (cases a; cases b) simp_all

instantiation control_kind :: linorder
begin

definition less_eq_control_kind :: "control_kind \<Rightarrow> control_kind \<Rightarrow> bool" where
  "less_eq_control_kind a b \<longleftrightarrow> kind_index a \<le> kind_index b"

definition less_control_kind :: "control_kind \<Rightarrow> control_kind \<Rightarrow> bool" where
  "less_control_kind a b \<longleftrightarrow> kind_index a < kind_index b"

instance
  by standard (auto simp: less_eq_control_kind_def less_control_kind_def kind_index_inject)

end

record replay_leaf_record =
  rl_trace_id :: string
  rl_leaf_id :: string
  rl_input_hash :: string
  rl_result :: leaf_result

record replay_control_record =
  rc_trace_id :: string
  rc_node_id :: string
  rc_kind :: control_kind
  rc_result :: control_node_result
  rc_generated_nodes :: "workflow_node list"

record replay_trace =
  rtr_trace_id :: string
  rtr_leaf_records :: "replay_leaf_record list"
  rtr_control_records :: "replay_control_record list"

datatype replay_error =
    Validation execution_error
  | LiveReplayUnavailable string
  | InputHash string

fun replay_error_text :: "replay_error \<Rightarrow> string" where
  "replay_error_text (Validation e) = execution_error_text e"
| "replay_error_text (LiveReplayUnavailable leaf) =
     ''live replay requested for leaf '' @ tick leaf @ '', but no live replay provider is configured''"
| "replay_error_text (InputHash reason) = ''failed to compute replay input hash: '' @ reason"

type_synonym leaf_key = "string \<times> string \<times> string"
type_synonym control_key = "string \<times> string \<times> control_kind"

record replayer =
  rx_trace_id :: string
  rx_allow_live_replay :: bool
  rx_leaf_records :: "(leaf_key, leaf_result) btree"
  rx_control_records :: "(control_key, replay_control_record) btree"
  rx_resolved_outputs :: "(string, string option) btree"

text \<open>\<open>compute_leaf_input_hash\<close>.\<close>

type_synonym input_hash = "workflow_spec \<Rightarrow> leaf_spec \<Rightarrow> (string, string option) btree \<Rightarrow> string + string"

text \<open>\<open>Iterator::collect\<close> into a \<open>BTreeMap\<close>: the last of equal keys stays.\<close>

definition bt_collect :: "('k::linorder \<times> 'v) list \<Rightarrow> ('k, 'v) btree" where
  "bt_collect kvs = fold (\<lambda>(k, v). bt_insert k v) kvs []"

definition replay_with_options :: "replay_trace \<Rightarrow> bool \<Rightarrow> replayer" where
  "replay_with_options trace allow_live =
     \<lparr>rx_trace_id = rtr_trace_id trace, rx_allow_live_replay = allow_live,
      rx_leaf_records = bt_collect (map (\<lambda>r. ((rl_trace_id r, rl_leaf_id r, rl_input_hash r), rl_result r))
        (rtr_leaf_records trace)),
      rx_control_records = bt_collect (map (\<lambda>r. ((rc_trace_id r, rc_node_id r, rc_kind r), r))
        (rtr_control_records trace)),
      rx_resolved_outputs = []\<rparr>"

definition replay_new :: "replay_trace \<Rightarrow> replayer" where
  "replay_new trace = replay_with_options trace False"

section \<open>Replay\<close>

type_synonym replay_state = "replayer \<times> execution"

definition resolved_inputs_for_leaf :: "leaf_spec \<Rightarrow> (string, string option) btree \<Rightarrow> (string, string option) btree" where
  "resolved_inputs_for_leaf leaf outputs =
     bt_collect (map (\<lambda>d. (d, case bt_get outputs d of Some v \<Rightarrow> v | None \<Rightarrow> None)) (lf_depends_on_results leaf))"

definition replay_branch_status :: "leaf_result list \<Rightarrow> run_status" where
  "replay_branch_status results =
     (if list_ex (\<lambda>r. lr_status r = ReplayDiverged) results then ReplayDiverged
      else if list_ex (\<lambda>r. lr_status r \<noteq> Succeeded) results then Failed
      else Succeeded)"

text \<open>The two tests on a status that every replayed result goes through.\<close>

definition mark_replayed :: "run_status \<Rightarrow> execution \<Rightarrow> execution" where
  "mark_replayed status ex =
     (if status = ReplayDiverged then ex\<lparr>ex_status := ReplayDiverged\<rparr>
      else if status = Failed then ex\<lparr>ex_status := Failed\<rparr>
      else ex)"

definition select_nodes :: "workflow_node list \<Rightarrow> string list \<Rightarrow> workflow_node list" where
  "select_nodes nodes selected =
     (let by_id = bt_collect (map (\<lambda>node. (node_id node, node)) nodes)
      in List.map_filter (bt_get by_id) selected)"

definition control_record :: "replayer \<Rightarrow> string \<Rightarrow> control_kind \<Rightarrow> replay_control_record option" where
  "control_record rx i kind = bt_get (rx_control_records rx) (rx_trace_id rx, i, kind)"

definition push_control_or_diverge ::
  "string \<Rightarrow> control_kind \<Rightarrow> replay_control_record option \<Rightarrow> string list \<Rightarrow> string \<Rightarrow> execution \<Rightarrow> execution" where
  "push_control_or_diverge i kind rec fallback_children fallback_summary ex =
     (case rec of
        None \<Rightarrow> push_control i kind ReplayDiverged fallback_children fallback_summary (ex\<lparr>ex_status := ReplayDiverged\<rparr>)
      | Some r \<Rightarrow>
          let ex1 = mark_replayed (cn_status (rc_result r)) ex
          in ex1\<lparr>ex_control_node_results := ex_control_node_results ex1 @ [rc_result r]\<rparr>)"

definition replay_recorded_control ::
  "string \<Rightarrow> control_kind \<Rightarrow> string list \<Rightarrow> string \<Rightarrow> replay_state \<Rightarrow> replay_state" where
  "replay_recorded_control i kind children summary = (\<lambda>(rx, ex).
     (rx, push_control_or_diverge i kind (control_record rx i kind) children summary ex))"

definition replay_leaf ::
  "input_hash \<Rightarrow> workflow_spec \<Rightarrow> leaf_spec \<Rightarrow> replay_state \<Rightarrow> replay_error option \<times> replay_state" where
  "replay_leaf hash spec leaf = (\<lambda>(rx, ex).
     case hash spec leaf (resolved_inputs_for_leaf leaf (rx_resolved_outputs rx)) of
       Inl reason \<Rightarrow> (Some (InputHash reason), (rx, ex))
     | Inr input_hash \<Rightarrow>
        (case bt_get (rx_leaf_records rx) (rx_trace_id rx, lf_id leaf, input_hash) of
           None \<Rightarrow>
             if rx_allow_live_replay rx then (Some (LiveReplayUnavailable (lf_id leaf)), (rx, ex))
             else (None,
               (rx\<lparr>rx_resolved_outputs := bt_insert (lf_id leaf) None (rx_resolved_outputs rx)\<rparr>,
                ex\<lparr>ex_status := ReplayDiverged,
                   ex_leaf_results := ex_leaf_results ex @
                     [\<lparr>lr_leaf_id = lf_id leaf, lr_task_id = lf_id leaf, lr_status = ReplayDiverged,
                       lr_usage = no_usage, lr_memo_usage = no_memo_usage, lr_output = None, lr_artifacts = []\<rparr>]\<rparr>))
         | Some r \<Rightarrow>
             let ex1 = mark_replayed (lr_status r) ex
             in (None,
               (rx\<lparr>rx_resolved_outputs := bt_insert (lf_id leaf) (lr_output r) (rx_resolved_outputs rx)\<rparr>,
                ex1\<lparr>ex_usage := usage_add (ex_usage ex1) (lr_usage r),
                    ex_memo_usage := memo_add (ex_memo_usage ex1) (lr_memo_usage r),
                    ex_leaf_results := ex_leaf_results ex1 @ [r]\<rparr>))))"

text \<open>What \<open>execute_branch_set\<close> records before it looks for the control record.\<close>

definition replay_finish_branch :: "string \<Rightarrow> nat \<Rightarrow> execution \<Rightarrow> execution" where
  "replay_finish_branch i before ex =
     (let results = drop before (ex_leaf_results ex);
          status = replay_branch_status results;
          ex1 = mark_replayed status ex
      in ex1\<lparr>ex_branch_results := ex_branch_results ex1 @
           [\<lparr>br_branch_id = i, br_task_id = i, br_status = status,
             br_usage = fold (\<lambda>r u. usage_add u (lr_usage r)) results no_usage,
             br_memo_usage = fold (\<lambda>r u. memo_add u (lr_memo_usage r)) results no_memo_usage,
             br_artifacts = [], br_notes = Some ''replay branch set evaluated from recorded leaf results''\<rparr>]\<rparr>)"

type_synonym replay_end = "(replay_error option \<times> replay_state) option"

text \<open>Go on after a call that ended without an error.\<close>

definition replay_then :: "replay_end \<Rightarrow> (replay_state \<Rightarrow> replay_end) \<Rightarrow> replay_end" where
  "replay_then r f = (case r of
       None \<Rightarrow> None
     | Some (Some e, s) \<Rightarrow> Some (Some e, s)
     | Some (None, s) \<Rightarrow> f s)"

lemma replay_then_simps [simp]:
  "replay_then None f = None" "replay_then (Some (Some e, s)) f = Some (Some e, s)" "replay_then (Some (None, s)) f = f s"
  by (simp_all add: replay_then_def)

lemma replay_then_cong [fundef_cong]:
  "r = r' \<Longrightarrow> (\<And>s. r' = Some (None, s) \<Longrightarrow> f s = f' s) \<Longrightarrow> replay_then r f = replay_then r' f'"
  by (auto simp: replay_then_def split: option.split prod.split)

text \<open>A node's height, for the termination of the calls: selected children may be repeated, never deeper.\<close>

fun node_height :: "workflow_node \<Rightarrow> nat" where
  "node_height (BranchSet _ _ _ _ _ _ children) = Suc (fold max (map node_height children) 0)"
| "node_height (Sequence _ children) = Suc (fold max (map node_height children) 0)"
| "node_height (LoopUntil _ _ _ children) = Suc (fold max (map node_height children) 0)"
| "node_height (Cond _ _ then_nodes else_nodes) =
     Suc (fold max (map node_height then_nodes @ map node_height else_nodes) 0)"
| "node_height _ = 1"

definition forest_height :: "workflow_node list \<Rightarrow> nat" where
  "forest_height nodes = fold max (map node_height nodes) 0"

lemma fold_max_least: "fold max xs (a :: nat) \<le> b \<longleftrightarrow> a \<le> b \<and> (\<forall>x \<in> set xs. x \<le> b)"
  by (induction xs arbitrary: a) auto

lemma fold_max_upper: "x \<in> set xs \<Longrightarrow> x \<le> fold max xs (a :: nat)"
  using fold_max_least [of xs a "fold max xs a"] by auto

lemma forest_height_le: "forest_height nodes \<le> h \<longleftrightarrow> (\<forall>node \<in> set nodes. node_height node \<le> h)"
  by (simp add: forest_height_def fold_max_least)

lemma bt_get_collect: "bt_get (bt_collect kvs) = map_of (rev kvs)"
  by (simp add: bt_collect_def bt.get_fold_insert bt.get_empty map_add_def fun_eq_iff split: option.split)

lemma select_nodes_subset: "set (select_nodes nodes selected) \<subseteq> set nodes"
  by (auto simp: select_nodes_def in_set_map_filter bt_get_collect dest!: map_of_SomeD)

lemma select_nodes_height: "forest_height (select_nodes nodes selected) \<le> forest_height nodes"
  using select_nodes_subset forest_height_le by blast

lemma forest_height_inner:
  "forest_height children < node_height (BranchSet i d p b pe mp children)"
  "forest_height children < node_height (Sequence i children)"
  "forest_height children < node_height (LoopUntil i c n children)"
  "forest_height (then_nodes @ else_nodes) < node_height (Cond i c then_nodes else_nodes)"
  by (simp_all add: forest_height_def)

lemma forest_height_Cons: "node_height node \<le> forest_height (node # nodes)" "forest_height nodes \<le> forest_height (node # nodes)"
  using forest_height_le [of "node # nodes" "forest_height (node # nodes)"] forest_height_le [of nodes] by simp_all

text \<open>The calls of the replay, with the bound on nested expansions.\<close>

function (sequential)
      replay_nodes :: "input_hash \<Rightarrow> workflow_spec \<Rightarrow> nat \<Rightarrow> workflow_node list \<Rightarrow> replay_state \<Rightarrow> replay_end"
and replay_node :: "input_hash \<Rightarrow> workflow_spec \<Rightarrow> nat \<Rightarrow> workflow_node \<Rightarrow> replay_state \<Rightarrow> replay_end" where
  "replay_nodes hash spec fuel [] s = Some (None, s)"
| "replay_nodes hash spec fuel (node # nodes) s =
     replay_then (replay_node hash spec fuel node s) (replay_nodes hash spec fuel nodes)"
| "replay_node hash spec fuel (Leaf leaf) s = Some (replay_leaf hash spec leaf s)"
| "replay_node hash spec fuel (BranchSet i _ _ _ _ _ children) s =
     replay_then (replay_nodes hash spec fuel children s) (\<lambda>(rx, ex).
       Some (None, replay_recorded_control i KBranchSet (map node_id children) ''branch set replayed declared children''
         (rx, replay_finish_branch i (length (ex_leaf_results (snd s))) ex)))"
| "replay_node hash spec fuel (Sequence i children) s =
     replay_then (replay_nodes hash spec fuel children s) (\<lambda>s'.
       Some (None, replay_recorded_control i KSequence (map node_id children) ''sequence replayed in declaration order'' s'))"
| "replay_node hash spec fuel (Reduce r) s =
     Some (None, replay_recorded_control (rd_id r) KReduce (rd_inputs r) (rd_prompt r) s)"
| "replay_node hash spec fuel (TeacherReview r) s =
     Some (None, replay_recorded_control (tr_id r) KTeacherReview (tr_candidates r)
       ''teacher review replayed from recorded candidates'' s)"
| "replay_node hash spec fuel (LoopUntil i _ _ children) s =
     (let rec = control_record (fst s) i KLoopUntil;
          selected = (case rec of Some r \<Rightarrow> cn_selected_children (rc_result r) | None \<Rightarrow> map node_id children)
      in replay_then (replay_nodes hash spec fuel (select_nodes children selected) s) (\<lambda>(rx, ex).
           Some (None, (rx, push_control_or_diverge i KLoopUntil rec selected
             ''loop_until replayed recorded child selection'' ex))))"
| "replay_node hash spec fuel (Cond i _ then_nodes else_nodes) s =
     (let rec = control_record (fst s) i KCond;
          selected = (case rec of Some r \<Rightarrow> cn_selected_children (rc_result r) | None \<Rightarrow> [])
      in replay_then (replay_nodes hash spec fuel (select_nodes (then_nodes @ else_nodes) selected) s) (\<lambda>(rx, ex).
           Some (None, (rx, push_control_or_diverge i KCond rec selected
             ''cond replayed recorded branch selection'' ex))))"
| "replay_node hash spec 0 (Expand i source _ _) s = None"
| "replay_node hash spec (Suc fuel) (Expand i source _ _) s =
     (let rec = control_record (fst s) i KExpand;
          generated = (case rec of Some r \<Rightarrow> rc_generated_nodes r | None \<Rightarrow> [])
      in case validate_workflow_node_shapes generated of
           Inl e \<Rightarrow> Some (Some (Validation e), s)
         | Inr _ \<Rightarrow>
             replay_then (replay_nodes hash spec fuel generated s) (\<lambda>(rx, ex).
               Some (None, (rx, push_control_or_diverge i KExpand rec
                 (case rec of Some r \<Rightarrow> cn_selected_children (rc_result r) | None \<Rightarrow> map node_id generated)
                 (''expand replayed recorded nodes from '' @ source) ex))))"
  by pat_completeness auto

termination
proof (relation "measures
    [\<lambda>c. case c of Inl (_, _, fuel, _, _) \<Rightarrow> fuel | Inr (_, _, fuel, _, _) \<Rightarrow> fuel,
     \<lambda>c. case c of Inl (_, _, _, nodes, _) \<Rightarrow> forest_height nodes | Inr (_, _, _, node, _) \<Rightarrow> node_height node,
     \<lambda>c. case c of Inl (_, _, _, nodes, _) \<Rightarrow> Suc (length nodes) | Inr _ \<Rightarrow> 0]", goal_cases)
qed (use forest_height_Cons in \<open>auto simp: order.order_iff_strict intro: forest_height_inner
      le_less_trans [OF select_nodes_height] simp del: node_height.simps\<close>)

definition replay_run :: "input_hash \<Rightarrow> nat \<Rightarrow> workflow_spec \<Rightarrow> replayer \<Rightarrow> ((replay_error + execution) \<times> replayer) option" where
  "replay_run hash fuel spec rx =
     (case validate_workflow_nodes (wf_nodes spec) of
        Inl e \<Rightarrow> Some (Inl (Validation e), rx)
      | Inr _ \<Rightarrow>
         (case replay_nodes hash spec fuel (wf_nodes spec) (rx, execution_default) of
            None \<Rightarrow> None
          | Some (Some e, (rx', _)) \<Rightarrow> Some (Inl e, rx')
          | Some (None, (rx', ex)) \<Rightarrow> Some (Inr ex, rx')))"

section \<open>Invariants of a replay\<close>

text \<open>A replay only adds to the results, and never changes its records.\<close>

definition same_records :: "replay_state \<Rightarrow> replay_state \<Rightarrow> bool" where
  "same_records s s' \<longleftrightarrow> rx_leaf_records (fst s') = rx_leaf_records (fst s) \<and>
     rx_control_records (fst s') = rx_control_records (fst s) \<and> rx_trace_id (fst s') = rx_trace_id (fst s) \<and>
     rx_allow_live_replay (fst s') = rx_allow_live_replay (fst s)"

lemma same_records_refl [simp]: "same_records s s"
  by (simp add: same_records_def)

lemma same_records_trans: "same_records s t \<Longrightarrow> same_records t u \<Longrightarrow> same_records s u"
  by (simp add: same_records_def)

lemma same_records_execution: "same_records s (rx, ex) \<Longrightarrow> same_records s (rx, ex')"
  by (simp add: same_records_def)

lemma same_records_control [simp]:
  "same_records s (replay_recorded_control i k c t (rx, ex)) \<longleftrightarrow> same_records s (rx, ex)"
  by (simp add: same_records_def replay_recorded_control_def)

lemma replay_then_Some: "replay_then r f = Some (None, s') \<longleftrightarrow> (\<exists>t. r = Some (None, t) \<and> f t = Some (None, s'))"
  by (auto simp: replay_then_def split: option.splits)

lemma replay_leaf_records: "replay_leaf hash spec leaf s = (e, s') \<Longrightarrow> same_records s s'"
  by (cases s) (auto simp: replay_leaf_def same_records_def Let_def split: sum.splits option.splits if_splits)

definition recorded :: "replay_control_record option \<Rightarrow> replayer \<Rightarrow> bool" where
  "recorded rec rx \<longleftrightarrow> (\<forall>r. rec = Some r \<longrightarrow> r \<in> snd ` set (rx_control_records rx))"

lemma recorded_control_record [simp]: "same_records s (rx, ex) \<Longrightarrow> recorded (control_record (fst s) i k) rx"
  by (auto simp: recorded_def control_record_def bt_get_def same_records_def dest!: map_of_SomeD intro: rev_image_eqI)

locale replay_invariant =
  fixes P :: "replay_state \<Rightarrow> bool"
  assumes leaf: "P s \<Longrightarrow> replay_leaf hash spec l s = (None, s') \<Longrightarrow> P s'"
    and control: "P (rx, ex) \<Longrightarrow> recorded rec rx \<Longrightarrow> P (rx, push_control_or_diverge i k rec c t ex)"
    and branch: "P (rx, ex) \<Longrightarrow> P (rx, replay_finish_branch i n ex)"
begin

lemma control_step:
  "P (rx, ex) \<Longrightarrow> P (replay_recorded_control i k c t (rx, ex))"
  using control [of rx ex "control_record rx i k"] recorded_control_record [of "(rx, ex)" rx ex i k]
  by (simp add: replay_recorded_control_def)

lemma kept:
  "P s \<Longrightarrow> replay_nodes hash spec fuel nodes s = Some (None, s') \<Longrightarrow> P s' \<and> same_records s s'"
  "P s \<Longrightarrow> replay_node hash spec fuel node s = Some (None, s') \<Longrightarrow> P s' \<and> same_records s s'"
proof (induction hash spec fuel nodes s and hash spec fuel node s arbitrary: s' and s'
    rule: replay_nodes_replay_node.induct)
  case (1 hash spec fuel s)
  then show ?case by simp
next
  case (2 hash spec fuel node nodes s)
  from 2(4) obtain t where t: "replay_node hash spec fuel node s = Some (None, t)"
    "replay_nodes hash spec fuel nodes t = Some (None, s')" unfolding replay_nodes.simps replay_then_Some by blast
  then show ?case using 2(1) [OF 2(3) t(1)] 2(2) [OF t(1) _ t(2)] same_records_trans by blast
next
  case (3 hash spec fuel l s)
  then show ?case by (auto dest: replay_leaf_records intro: leaf)
next
  case (4 hash spec fuel i a b c d e children s)
  from 4(3) obtain rx ex where t: "replay_nodes hash spec fuel children s = Some (None, (rx, ex))"
    and s': "s' = replay_recorded_control i KBranchSet (map node_id children) ''branch set replayed declared children''
         (rx, replay_finish_branch i (length (ex_leaf_results (snd s))) ex)"
    unfolding replay_node.simps replay_then_Some by auto
  from 4(1) [OF 4(2) t] have k: "P (rx, ex)" "same_records s (rx, ex)" by simp_all
  from control_step [OF branch [OF k(1)]] k(2) show ?case unfolding s' by (auto intro: same_records_execution)
next
  case (5 hash spec fuel i children s)
  from 5(3) obtain rx ex where t: "replay_nodes hash spec fuel children s = Some (None, (rx, ex))"
    and s': "s' = replay_recorded_control i KSequence (map node_id children) ''sequence replayed in declaration order'' (rx, ex)"
    unfolding replay_node.simps replay_then_Some by auto
  from 5(1) [OF 5(2) t] have k: "P (rx, ex)" "same_records s (rx, ex)" by simp_all
  from control_step [OF k(1)] k(2) show ?case unfolding s' by (auto intro: same_records_execution)
next
  case (6 hash spec fuel r s)
  then show ?case using control_step by (cases s) auto
next
  case (7 hash spec fuel r s)
  then show ?case using control_step by (cases s) auto
next
  case (8 hash spec fuel i a b children s)
  define rec where "rec = control_record (fst s) i KLoopUntil"
  define selected where "selected = (case rec of Some r \<Rightarrow> cn_selected_children (rc_result r) | None \<Rightarrow> map node_id children)"
  from 8(3) obtain rx ex where t: "replay_nodes hash spec fuel (select_nodes children selected) s = Some (None, (rx, ex))"
    and s': "s' = (rx, push_control_or_diverge i KLoopUntil rec selected ''loop_until replayed recorded child selection'' ex)"
    unfolding replay_node.simps Let_def rec_def [symmetric] selected_def [symmetric] replay_then_Some by auto
  from 8(1) [OF rec_def selected_def 8(2) t] have k: "P (rx, ex)" "same_records s (rx, ex)" by simp_all
  then show ?case unfolding s' using control recorded_control_record by (auto simp: rec_def intro: same_records_execution)
next
  case (9 hash spec fuel i a then_nodes else_nodes s)
  define rec where "rec = control_record (fst s) i KCond"
  define selected where "selected = (case rec of Some r \<Rightarrow> cn_selected_children (rc_result r) | None \<Rightarrow> [])"
  from 9(3) obtain rx ex where t: "replay_nodes hash spec fuel (select_nodes (then_nodes @ else_nodes) selected) s = Some (None, (rx, ex))"
    and s': "s' = (rx, push_control_or_diverge i KCond rec selected ''cond replayed recorded branch selection'' ex)"
    unfolding replay_node.simps Let_def rec_def [symmetric] selected_def [symmetric] replay_then_Some by auto
  from 9(1) [OF rec_def selected_def 9(2) t] have k: "P (rx, ex)" "same_records s (rx, ex)" by simp_all
  then show ?case unfolding s' using control recorded_control_record by (auto simp: rec_def intro: same_records_execution)
next
  case (10 hash spec i source a b s)
  then show ?case by simp
next
  case (11 hash spec fuel i source a b s)
  define rec where "rec = control_record (fst s) i KExpand"
  define given where "given = (case rec of Some r \<Rightarrow> rc_generated_nodes r | None \<Rightarrow> [])"
  from 11(3) obtain rx ex u where v: "validate_workflow_node_shapes given = Inr u"
    and t: "replay_nodes hash spec fuel given s = Some (None, (rx, ex))"
    and s': "s' = (rx, push_control_or_diverge i KExpand rec
       (case rec of Some r \<Rightarrow> cn_selected_children (rc_result r) | None \<Rightarrow> map node_id given)
       (''expand replayed recorded nodes from '' @ source) ex)"
    unfolding replay_node.simps Let_def rec_def [symmetric] given_def [symmetric]
    by (auto split: sum.splits simp: replay_then_Some)
  from 11(1) [OF rec_def given_def v 11(2) t] have k: "P (rx, ex)" "same_records s (rx, ex)" by simp_all
  then show ?case unfolding s' using control recorded_control_record by (auto simp: rec_def intro: same_records_execution)
qed

lemma replay_run_kept:
  assumes "P (rx, execution_default)" "replay_run hash fuel spec rx = Some (Inr ex, rx')"
  shows "P (rx', ex)" "same_records (rx, execution_default) (rx', ex)"
  using kept(1) [OF assms(1), of hash spec fuel "wf_nodes spec" "(rx', ex)"] assms(2)
  by (auto simp: replay_run_def split: sum.splits option.splits)

end

subsection \<open>Totals\<close>

lemma mark_replayed_results [simp]:
  "ex_usage (mark_replayed st ex) = ex_usage ex" "ex_memo_usage (mark_replayed st ex) = ex_memo_usage ex"
  "ex_leaf_results (mark_replayed st ex) = ex_leaf_results ex"
  "ex_control_node_results (mark_replayed st ex) = ex_control_node_results ex"
  by (simp_all add: mark_replayed_def)

lemma status_mark_replayed [simp]:
  "ex_status (mark_replayed st ex) = (if st \<in> {ReplayDiverged, Failed} then st else ex_status ex)"
  by (simp add: mark_replayed_def)

lemma control_results [simp]:
  "ex_usage (push_control_or_diverge i k rec c t ex) = ex_usage ex"
  "ex_memo_usage (push_control_or_diverge i k rec c t ex) = ex_memo_usage ex"
  "ex_leaf_results (push_control_or_diverge i k rec c t ex) = ex_leaf_results ex"
  by (simp_all add: push_control_or_diverge_def Let_def split: option.split)

text \<open>The execution after a leaf: its result is recorded, or it diverged and used nothing.\<close>

definition after_leaf :: "leaf_result \<Rightarrow> execution \<Rightarrow> execution" where
  "after_leaf r ex = (mark_replayed (lr_status r) ex)
     \<lparr>ex_usage := usage_add (ex_usage ex) (lr_usage r), ex_memo_usage := memo_add (ex_memo_usage ex) (lr_memo_usage r),
      ex_leaf_results := ex_leaf_results ex @ [r]\<rparr>"

definition diverged :: "string \<Rightarrow> leaf_result" where
  "diverged i = \<lparr>lr_leaf_id = i, lr_task_id = i, lr_status = ReplayDiverged, lr_usage = no_usage,
     lr_memo_usage = no_memo_usage, lr_output = None, lr_artifacts = []\<rparr>"

lemma sat_add_0 [simp]: "sat_add a 0 = a"
  by (simp add: sat_add_code)

lemma usage_add_none [simp]: "usage_add u no_usage = u" "memo_add v no_memo_usage = v"
  by (simp_all add: usage_add_def no_usage_def memo_add_def no_memo_usage_def)

lemma replay_leaf_after:
  assumes "replay_leaf hash spec l s = (None, s')"
  shows "\<exists>r. snd s' = after_leaf r (snd s) \<and> (r = diverged (lf_id l) \<or> r \<in> snd ` set (rx_leaf_records (fst s)))"
proof -
  obtain rx ex where s: "s = (rx, ex)" by (cases s)
  from assms obtain h where h: "hash spec l (resolved_inputs_for_leaf l (rx_resolved_outputs rx)) = Inr h"
    unfolding replay_leaf_def s by (auto split: sum.splits)
  show ?thesis
  proof (cases "bt_get (rx_leaf_records rx) (rx_trace_id rx, lf_id l, h)")
    case None
    then have "snd s' = after_leaf (diverged (lf_id l)) ex" using assms h
      by (auto simp: replay_leaf_def s after_leaf_def diverged_def mark_replayed_def split: if_splits)
    then show ?thesis using s by auto
  next
    case (Some r)
    then have "r \<in> snd ` set (rx_leaf_records rx)" by (auto simp: bt_get_def dest!: map_of_SomeD intro: rev_image_eqI)
    moreover have "snd s' = after_leaf r ex" using assms h Some
      by (auto simp: replay_leaf_def s after_leaf_def Let_def)
    ultimately show ?thesis using s by auto
  qed
qed

interpretation replay_totals: replay_invariant "\<lambda>s. totals_match (snd s)"
proof unfold_locales
  fix s s' :: replay_state and hash spec l
  assume t: "totals_match (snd s)" and l: "replay_leaf hash spec l s = (None, s')"
  obtain r where "snd s' = after_leaf r (snd s)" using replay_leaf_after [OF l] by blast
  with t show "totals_match (snd s')" by (simp add: totals_match_def usage_of_def memo_usage_of_def after_leaf_def)
qed (simp_all add: totals_match_def replay_finish_branch_def Let_def)

section \<open>The bound on nested expansions\<close>

lemma replay_then_mono:
  assumes "replay_then r f = Some e"
    and "\<And>e. r = Some e \<Longrightarrow> r' = Some e"
    and "\<And>s e. r = Some (None, s) \<Longrightarrow> f s = Some e \<Longrightarrow> f' s = Some e"
  shows "replay_then r' f' = Some e"
proof -
  obtain err s where r: "r = Some (err, s)" using assms(1) by (cases r) auto
  then show ?thesis using assms(1,2) assms(3) [of s e] by (cases err) auto
qed

text \<open>A larger bound gives the same end.\<close>

lemma more_fuel:
  "replay_nodes hash spec fuel nodes s = Some e \<Longrightarrow> fuel \<le> fuel' \<Longrightarrow> replay_nodes hash spec fuel' nodes s = Some e"
  "replay_node hash spec fuel node s = Some e \<Longrightarrow> fuel \<le> fuel' \<Longrightarrow> replay_node hash spec fuel' node s = Some e"
proof (induction hash spec fuel nodes s and hash spec fuel node s arbitrary: e fuel' and e fuel'
    rule: replay_nodes_replay_node.induct)
  case (2 hash spec fuel node nodes s)
  show ?case unfolding replay_nodes.simps
    by (rule replay_then_mono [OF 2(3) [unfolded replay_nodes.simps]]) (use 2(1,2,4) in blast)+
next
  case (4 hash spec fuel i a b c d e' children s)
  show ?case unfolding replay_node.simps
    by (rule replay_then_mono [OF 4(2) [unfolded replay_node.simps]]) (use 4(1,3) in blast)+
next
  case (5 hash spec fuel i children s)
  show ?case unfolding replay_node.simps
    by (rule replay_then_mono [OF 5(2) [unfolded replay_node.simps]]) (use 5(1,3) in blast)+
next
  case (8 hash spec fuel i a b children s)
  show ?case unfolding replay_node.simps Let_def
    by (rule replay_then_mono [OF 8(2) [unfolded replay_node.simps Let_def]]) (use 8(1) [OF refl refl _ 8(3)] in blast)+
next
  case (9 hash spec fuel i a then_nodes else_nodes s)
  show ?case unfolding replay_node.simps Let_def
    by (rule replay_then_mono [OF 9(2) [unfolded replay_node.simps Let_def]]) (use 9(1) [OF refl refl _ 9(3)] in blast)+
next
  case (11 hash spec fuel i source a b s)
  define rec where "rec = control_record (fst s) i KExpand"
  define given where "given = (case rec of Some r \<Rightarrow> rc_generated_nodes r | None \<Rightarrow> [])"
  note d = rec_def [symmetric] given_def [symmetric]
  obtain k where k: "fuel' = Suc k" "fuel \<le> k" using 11(3) by (cases fuel') auto
  show ?case
  proof (cases "validate_workflow_node_shapes given")
    case (Inl e')
    then show ?thesis using 11(2) unfolding k(1) replay_node.simps Let_def d by simp
  next
    case (Inr u)
    note r = 11(2) [unfolded replay_node.simps Let_def d Inr sum.case]
    show ?thesis unfolding k(1) replay_node.simps Let_def d Inr sum.case
      by (rule replay_then_mono [OF r]) (use 11(1) [OF rec_def given_def Inr _ k(2)] in blast)+
  qed
qed simp_all

text \<open>Recorded expansions that hold no expansion: the bound 1 is enough.\<close>

definition flat_records :: "replayer \<Rightarrow> bool" where
  "flat_records rx \<longleftrightarrow> list_all (\<lambda>(_, r). list_all no_expand (rc_generated_nodes r)) (rx_control_records rx)"

interpretation replay_flat: replay_invariant "\<lambda>s. flat_records (fst s)"
proof unfold_locales
  fix s s' :: replay_state and hash spec l
  show "flat_records (fst s) \<Longrightarrow> replay_leaf hash spec l s = (None, s') \<Longrightarrow> flat_records (fst s')"
    using replay_leaf_records by (auto simp: flat_records_def same_records_def)
qed simp_all

definition settled :: "nat \<Rightarrow> workflow_node list \<Rightarrow> bool" where
  "settled fuel nodes \<longleftrightarrow> 0 < fuel \<or> list_all no_expand nodes"

lemma settled_simps [simp]:
  "settled (Suc fuel) nodes"
  "settled fuel [BranchSet i d p b pe mp children] \<longleftrightarrow> settled fuel children"
  "settled fuel [Sequence i children] \<longleftrightarrow> settled fuel children"
  "settled fuel [LoopUntil i c n children] \<longleftrightarrow> settled fuel children"
  "settled fuel [Cond i c then_nodes else_nodes] \<longleftrightarrow> settled fuel (then_nodes @ else_nodes)"
  "\<not> settled 0 [Expand i c m t]"
  by (auto simp: settled_def)

lemma settled_Cons: "settled fuel (node # nodes) \<Longrightarrow> settled fuel [node]" "settled fuel (node # nodes) \<Longrightarrow> settled fuel nodes"
  by (auto simp: settled_def)

lemma settled_select: "settled fuel nodes \<Longrightarrow> settled fuel (select_nodes nodes selected)"
  using select_nodes_subset by (fastforce simp: settled_def list_all_iff)

lemma replay_then_total: "r \<noteq> None \<Longrightarrow> (\<And>s. r = Some (None, s) \<Longrightarrow> f s \<noteq> None) \<Longrightarrow> replay_then r f \<noteq> None"
  by (auto simp: replay_then_def split: option.split)

lemma replay_ends:
  "flat_records (fst s) \<Longrightarrow> settled fuel nodes \<Longrightarrow> replay_nodes hash spec fuel nodes s \<noteq> None"
  "flat_records (fst s) \<Longrightarrow> settled fuel [node] \<Longrightarrow> replay_node hash spec fuel node s \<noteq> None"
proof (induction hash spec fuel nodes s and hash spec fuel node s
    rule: replay_nodes_replay_node.induct)
  case (2 hash spec fuel node nodes s)
  have n: "replay_node hash spec fuel node s \<noteq> None" by (rule 2(1) [OF 2(3) settled_Cons(1) [OF 2(4)]])
  have "replay_nodes hash spec fuel nodes t \<noteq> None" if "replay_node hash spec fuel node s = Some (None, t)" for t
    by (rule 2(2) [OF that _ settled_Cons(2) [OF 2(4)]]) (use replay_flat.kept(2) [OF 2(3) that] in simp)
  with n show ?case unfolding replay_nodes.simps by (rule replay_then_total)
next
  case (4 hash spec fuel i a b c d e' children s)
  show ?case unfolding replay_node.simps
    by (rule replay_then_total [OF 4(1) [OF 4(2)]]) (use 4(3) in \<open>auto split: prod.split\<close>)
next
  case (5 hash spec fuel i children s)
  show ?case unfolding replay_node.simps
    by (rule replay_then_total [OF 5(1) [OF 5(2)]]) (use 5(3) in simp_all)
next
  case (8 hash spec fuel i a b children s)
  show ?case unfolding replay_node.simps Let_def
    by (rule replay_then_total [OF 8(1) [OF refl refl 8(2)]]) (use 8(3) in \<open>auto intro: settled_select\<close>)
next
  case (9 hash spec fuel i a then_nodes else_nodes s)
  show ?case unfolding replay_node.simps Let_def
    by (rule replay_then_total [OF 9(1) [OF refl refl 9(2)]]) (use 9(3) in \<open>auto intro: settled_select\<close>)
next
  case (11 hash spec fuel i source a b s)
  define rec where "rec = control_record (fst s) i KExpand"
  define given where "given = (case rec of Some r \<Rightarrow> rc_generated_nodes r | None \<Rightarrow> [])"
  have "settled fuel given"
  proof (cases rec)
    case (Some r)
    then have "((rx_trace_id (fst s), i, KExpand), r) \<in> set (rx_control_records (fst s))"
      by (simp add: rec_def control_record_def bt_get_def map_of_SomeD)
    then have "list_all no_expand (rc_generated_nodes r)" using 11(2) by (auto simp: flat_records_def list_all_iff)
    then show ?thesis by (simp add: settled_def given_def Some)
  qed (simp add: settled_def given_def)
  show ?case
  proof (cases "validate_workflow_node_shapes given")
    case (Inr u)
    show ?thesis unfolding replay_node.simps Let_def rec_def [symmetric] given_def [symmetric] Inr sum.case
      by (rule replay_then_total [OF 11(1) [OF rec_def given_def Inr 11(2) \<open>settled fuel given\<close>]]) (simp split: prod.split)
  qed (simp add: Let_def flip: rec_def given_def)
qed simp_all

text \<open>What a trace's records become.\<close>

lemma bt_insert_subset: "set (bt_insert k v m) \<subseteq> insert (k, v) (set m)"
  by (induction k v m rule: bt_insert.induct) auto

lemma bt_collect_subset: "set (bt_collect kvs) \<subseteq> set kvs"
proof -
  have "set (fold (\<lambda>(k, v). bt_insert k v) kvs m) \<subseteq> set kvs \<union> set m" for m :: "('a, 'b) btree"
  proof (induction kvs arbitrary: m)
    case (Cons kv kvs)
    then show ?case using bt_insert_subset [of "fst kv" "snd kv" m] by (cases kv) force
  qed simp
  then show ?thesis unfolding bt_collect_def by fastforce
qed

lemma replay_with_options_records:
  "snd ` set (rx_control_records (replay_with_options trace live)) \<subseteq> set (rtr_control_records trace)"
  unfolding replay_with_options_def replayer.simps
  by (auto dest!: subsetD [OF bt_collect_subset])

section \<open>What a replay rests on\<close>

text \<open>The last record a trace has under its own identifier: for a leaf with the hash of its inputs, for a control node.\<close>

definition recorded_leaf :: "replay_trace \<Rightarrow> string \<Rightarrow> string \<Rightarrow> leaf_result option" where
  "recorded_leaf trace i input_hash =
     map_option rl_result (find (\<lambda>r. (rl_trace_id r, rl_leaf_id r, rl_input_hash r) = (rtr_trace_id trace, i, input_hash))
       (rev (rtr_leaf_records trace)))"

definition recorded_control :: "replay_trace \<Rightarrow> string \<Rightarrow> control_kind \<Rightarrow> replay_control_record option" where
  "recorded_control trace i kind =
     find (\<lambda>r. (rc_trace_id r, rc_node_id r, rc_kind r) = (rtr_trace_id trace, i, kind)) (rev (rtr_control_records trace))"

text \<open>The recorded result of a leaf whose dependencies have these outputs.\<close>

definition recorded_result ::
  "input_hash \<Rightarrow> workflow_spec \<Rightarrow> replay_trace \<Rightarrow> leaf_spec \<Rightarrow> (string, string option) btree \<Rightarrow> leaf_result option" where
  "recorded_result hash spec trace leaf outputs =
     (case hash spec leaf (resolved_inputs_for_leaf leaf outputs) of
        Inl reason \<Rightarrow> None
      | Inr input_hash \<Rightarrow> recorded_leaf trace (lf_id leaf) input_hash)"

lemma find_as_map_of:
  "map_of (map (\<lambda>r. (key r, val r)) rs) k = map_option val (find (\<lambda>r. key r = k) rs)"
  by (induction rs) auto

lemma recorded_lookup:
  "bt_get (rx_leaf_records (replay_with_options trace live)) (rtr_trace_id trace, i, h) = recorded_leaf trace i h"
  "control_record (replay_with_options trace live) = recorded_control trace"
proof -
  show "bt_get (rx_leaf_records (replay_with_options trace live)) (rtr_trace_id trace, i, h) = recorded_leaf trace i h"
    unfolding recorded_leaf_def replay_with_options_def bt_get_collect replayer.simps rev_map find_as_map_of ..
  have ident: "map_of (map (\<lambda>r. ((rc_trace_id r, rc_node_id r, rc_kind r), r)) rs) k
      = find (\<lambda>r. (rc_trace_id r, rc_node_id r, rc_kind r) = k) rs" for rs k
    using find_as_map_of [of _ "\<lambda>r. r" rs k] by (simp add: option.map_ident)
  show "control_record (replay_with_options trace live) = recorded_control trace"
    unfolding control_record_def [abs_def] recorded_control_def [abs_def] replay_with_options_def bt_get_collect
      replayer.simps rev_map ident ..
qed

text \<open>The nodes a replay comes to, in order, as the trace chooses them: a control node after its children. There is no
  such list when the recorded expansions are nested deeper than the bound.\<close>

datatype visit = VLeaf leaf_spec | VControl string control_kind

definition visit_after :: "visit list option \<Rightarrow> visit list option \<Rightarrow> visit list option" where
  "visit_after a b = (case (a, b) of (Some vs, Some ws) \<Rightarrow> Some (vs @ ws) | _ \<Rightarrow> None)"

function (sequential)
      visits :: "(string \<Rightarrow> control_kind \<Rightarrow> replay_control_record option) \<Rightarrow> nat \<Rightarrow> workflow_node list \<Rightarrow> visit list option"
and node_visits :: "(string \<Rightarrow> control_kind \<Rightarrow> replay_control_record option) \<Rightarrow> nat \<Rightarrow> workflow_node \<Rightarrow> visit list option" where
  "visits ctl fuel [] = Some []"
| "visits ctl fuel (node # nodes) = visit_after (node_visits ctl fuel node) (visits ctl fuel nodes)"
| "node_visits ctl fuel (Leaf leaf) = Some [VLeaf leaf]"
| "node_visits ctl fuel (BranchSet i _ _ _ _ _ children) = visit_after (visits ctl fuel children) (Some [VControl i KBranchSet])"
| "node_visits ctl fuel (Sequence i children) = visit_after (visits ctl fuel children) (Some [VControl i KSequence])"
| "node_visits ctl fuel (Reduce r) = Some [VControl (rd_id r) KReduce]"
| "node_visits ctl fuel (TeacherReview r) = Some [VControl (tr_id r) KTeacherReview]"
| "node_visits ctl fuel (LoopUntil i _ _ children) =
     visit_after (visits ctl fuel (select_nodes children
       (case ctl i KLoopUntil of Some r \<Rightarrow> cn_selected_children (rc_result r) | None \<Rightarrow> map node_id children)))
       (Some [VControl i KLoopUntil])"
| "node_visits ctl fuel (Cond i _ then_nodes else_nodes) =
     visit_after (visits ctl fuel (select_nodes (then_nodes @ else_nodes)
       (case ctl i KCond of Some r \<Rightarrow> cn_selected_children (rc_result r) | None \<Rightarrow> [])))
       (Some [VControl i KCond])"
| "node_visits ctl 0 (Expand i _ _ _) = None"
| "node_visits ctl (Suc fuel) (Expand i _ _ _) =
     visit_after (visits ctl fuel (case ctl i KExpand of Some r \<Rightarrow> rc_generated_nodes r | None \<Rightarrow> []))
       (Some [VControl i KExpand])"
  by pat_completeness auto

termination
proof (relation "measures
    [\<lambda>c. case c of Inl (_, fuel, _) \<Rightarrow> fuel | Inr (_, fuel, _) \<Rightarrow> fuel,
     \<lambda>c. case c of Inl (_, _, nodes) \<Rightarrow> forest_height nodes | Inr (_, _, node) \<Rightarrow> node_height node,
     \<lambda>c. case c of Inl (_, _, nodes) \<Rightarrow> Suc (length nodes) | Inr _ \<Rightarrow> 0]", goal_cases)
qed (use forest_height_Cons in \<open>auto simp: order.order_iff_strict intro: forest_height_inner
      le_less_trans [OF select_nodes_height] simp del: node_height.simps\<close>)

text \<open>The results at these nodes are the recorded ones, and none failed or diverged: each leaf is looked up with the
  outputs of the leaves before it.\<close>

definition unspoiled :: "run_status \<Rightarrow> bool" where
  "unspoiled st \<longleftrightarrow> st \<noteq> Failed \<and> st \<noteq> ReplayDiverged"

fun rests_on :: "(leaf_spec \<Rightarrow> (string, string option) btree \<Rightarrow> leaf_result option)
    \<Rightarrow> (string \<Rightarrow> control_kind \<Rightarrow> replay_control_record option) \<Rightarrow> (string, string option) btree \<Rightarrow> visit list
    \<Rightarrow> leaf_result list \<Rightarrow> control_node_result list \<Rightarrow> (string, string option) btree \<Rightarrow> bool" where
  "rests_on result ctl outs [] rs cs outs' \<longleftrightarrow> rs = [] \<and> cs = [] \<and> outs' = outs"
| "rests_on result ctl outs (VLeaf leaf # vs) (r # rs) cs outs' \<longleftrightarrow>
     result leaf outs = Some r \<and> unspoiled (lr_status r) \<and>
     rests_on result ctl (bt_insert (lf_id leaf) (lr_output r) outs) vs rs cs outs'"
| "rests_on result ctl outs (VControl i kind # vs) rs (c # cs) outs' \<longleftrightarrow>
     map_option rc_result (ctl i kind) = Some c \<and> unspoiled (cn_status c) \<and> rests_on result ctl outs vs rs cs outs'"
| "rests_on result ctl outs vs rs cs outs' \<longleftrightarrow> False"

lemma rests_on_append:
  "rests_on result ctl outs vs rs cs mid \<Longrightarrow> rests_on result ctl mid ws rs' cs' outs' \<Longrightarrow>
   rests_on result ctl outs (vs @ ws) (rs @ rs') (cs @ cs') outs'"
  by (induction result ctl outs vs rs cs mid rule: rests_on.induct) auto

text \<open>One part of a replay: when it ends as succeeded it began so, and what it added rests on the records.\<close>

definition replayed :: "(leaf_spec \<Rightarrow> (string, string option) btree \<Rightarrow> leaf_result option)
    \<Rightarrow> (string \<Rightarrow> control_kind \<Rightarrow> replay_control_record option) \<Rightarrow> visit list \<Rightarrow> replay_state \<Rightarrow> replay_state \<Rightarrow> bool" where
  "replayed result ctl vs s s' \<longleftrightarrow> (ex_status (snd s') = Succeeded \<longrightarrow> ex_status (snd s) = Succeeded \<and>
     (\<exists>rs cs. ex_leaf_results (snd s') = ex_leaf_results (snd s) @ rs \<and>
        ex_control_node_results (snd s') = ex_control_node_results (snd s) @ cs \<and>
        rests_on result ctl (rx_resolved_outputs (fst s)) vs rs cs (rx_resolved_outputs (fst s'))))"

lemma replayed_refl: "replayed result ctl [] s s"
  by (simp add: replayed_def)

lemma replayed_trans:
  "replayed result ctl vs s t \<Longrightarrow> replayed result ctl ws t u \<Longrightarrow> replayed result ctl (vs @ ws) s u"
  unfolding replayed_def using rests_on_append by (metis append.assoc)

lemma replayed_after:
  "visit_after (Some vs) (Some ws) = Some us \<Longrightarrow> replayed result ctl vs s t \<Longrightarrow> replayed result ctl ws t u \<Longrightarrow>
   replayed result ctl us s u"
  using replayed_trans [of result ctl vs s t ws u] by (auto simp: visit_after_def)

lemma replayed_control:
  "replayed result ctl [VControl i kind] (rx, ex) (rx, push_control_or_diverge i kind (ctl i kind) c t ex)"
  by (cases "ctl i kind")
    (auto simp: replayed_def push_control_or_diverge_def push_control_def Let_def unspoiled_def split: if_splits)

lemma replayed_branch: "replayed result ctl [] (rx, ex) (rx, replay_finish_branch i n ex)"
  by (auto simp: replayed_def replay_finish_branch_def Let_def split: if_splits)

text \<open>What a replayer looks up.\<close>

definition leaf_lookup ::
  "input_hash \<Rightarrow> workflow_spec \<Rightarrow> replayer \<Rightarrow> leaf_spec \<Rightarrow> (string, string option) btree \<Rightarrow> leaf_result option" where
  "leaf_lookup hash spec rx leaf outs =
     (case hash spec leaf (resolved_inputs_for_leaf leaf outs) of
        Inl reason \<Rightarrow> None
      | Inr input_hash \<Rightarrow> bt_get (rx_leaf_records rx) (rx_trace_id rx, lf_id leaf, input_hash))"

lemma replayed_leaf:
  "replay_leaf hash spec leaf s = (None, s') \<Longrightarrow> replayed (leaf_lookup hash spec (fst s)) ctl [VLeaf leaf] s s'"
  by (cases s) (auto simp: replayed_def replay_leaf_def leaf_lookup_def unspoiled_def Let_def
      split: sum.splits option.splits if_splits)

lemma same_lookups:
  "same_records s t \<Longrightarrow> leaf_lookup hash spec (fst t) = leaf_lookup hash spec (fst s)"
  "same_records s t \<Longrightarrow> control_record (fst t) = control_record (fst s)"
  by (auto simp: same_records_def leaf_lookup_def control_record_def fun_eq_iff split: sum.split)

interpretation replay_any: replay_invariant "\<lambda>s. True"
  by unfold_locales simp_all

text \<open>A replay within the bound ends, and a successful one rests on the records.\<close>

lemma visit_after_Some:
  "visit_after a b = Some us \<longleftrightarrow> (\<exists>vs ws. a = Some vs \<and> b = Some ws \<and> us = vs @ ws)"
  by (auto simp: visit_after_def split: option.splits)

lemma replay_within_bound:
  "visits (control_record (fst s)) fuel nodes = Some vs \<Longrightarrow> replay_nodes hash spec fuel nodes s \<noteq> None"
  "node_visits (control_record (fst s)) fuel node = Some vs \<Longrightarrow> replay_node hash spec fuel node s \<noteq> None"
proof (induction hash spec fuel nodes s and hash spec fuel node s arbitrary: vs and vs
    rule: replay_nodes_replay_node.induct)
  case (2 hash spec fuel node nodes s)
  from 2(3) obtain us ws where us: "node_visits (control_record (fst s)) fuel node = Some us"
    "visits (control_record (fst s)) fuel nodes = Some ws" by (auto simp: visit_after_Some)
  have "replay_nodes hash spec fuel nodes t \<noteq> None" if "replay_node hash spec fuel node s = Some (None, t)" for t
    using 2(2) [OF that] us(2) same_lookups(2) replay_any.kept(2) [OF TrueI that] by metis
  with 2(1) [OF us(1)] show ?case unfolding replay_nodes.simps by (rule replay_then_total)
next
  case (4 hash spec fuel i a b c d e' children s)
  then show ?case unfolding replay_node.simps node_visits.simps visit_after_Some
    by (intro replay_then_total) (auto split: prod.split)
next
  case (5 hash spec fuel i children s)
  then show ?case unfolding replay_node.simps node_visits.simps visit_after_Some
    by (intro replay_then_total) auto
next
  case (8 hash spec fuel i a b children s)
  then show ?case unfolding replay_node.simps node_visits.simps visit_after_Some Let_def
    by (intro replay_then_total) (auto split: prod.split)
next
  case (9 hash spec fuel i a then_nodes else_nodes s)
  then show ?case unfolding replay_node.simps node_visits.simps visit_after_Some Let_def
    by (intro replay_then_total) (auto split: prod.split)
next
  case (11 hash spec fuel i source a b s)
  define rec where "rec = control_record (fst s) i KExpand"
  define given where "given = (case rec of Some r \<Rightarrow> rc_generated_nodes r | None \<Rightarrow> [])"
  show ?case
  proof (cases "validate_workflow_node_shapes given")
    case (Inr u)
    from 11(2) obtain us where "visits (control_record (fst s)) fuel given = Some us"
      by (auto simp: visit_after_Some given_def rec_def)
    from 11(1) [OF rec_def given_def Inr this] show ?thesis
      unfolding replay_node.simps Let_def rec_def [symmetric] given_def [symmetric] Inr sum.case
      by (rule replay_then_total) (simp split: prod.split)
  qed (simp add: Let_def flip: rec_def given_def)
qed simp_all

lemma replay_rests:
  "visits (control_record (fst s)) fuel nodes = Some vs \<Longrightarrow> replay_nodes hash spec fuel nodes s = Some (None, s') \<Longrightarrow>
     replayed (leaf_lookup hash spec (fst s)) (control_record (fst s)) vs s s'"
  "node_visits (control_record (fst s)) fuel node = Some vs \<Longrightarrow> replay_node hash spec fuel node s = Some (None, s') \<Longrightarrow>
     replayed (leaf_lookup hash spec (fst s)) (control_record (fst s)) vs s s'"
proof (induction hash spec fuel nodes s and hash spec fuel node s arbitrary: vs s' and vs s'
    rule: replay_nodes_replay_node.induct)
  case (1 hash spec fuel s)
  then show ?case by (simp add: replayed_refl)
next
  case (2 hash spec fuel node nodes s)
  from 2(3) obtain us ws where us: "node_visits (control_record (fst s)) fuel node = Some us"
    "visits (control_record (fst s)) fuel nodes = Some ws" and vs: "vs = us @ ws" by (auto simp: visit_after_Some)
  from 2(4) obtain t where t: "replay_node hash spec fuel node s = Some (None, t)"
    "replay_nodes hash spec fuel nodes t = Some (None, s')" unfolding replay_nodes.simps replay_then_Some by blast
  have "same_records s t" using replay_any.kept(2) [OF TrueI t(1)] by blast
  with 2(2) [OF t(1) _ t(2)] us(2) have "replayed (leaf_lookup hash spec (fst s)) (control_record (fst s)) ws t s'"
    by (simp add: same_lookups)
  with 2(1) [OF us(1) t(1)] show ?case unfolding vs by (rule replayed_trans)
next
  case (3 hash spec fuel l s)
  then show ?case using replayed_leaf [of hash spec l s s' "control_record (fst s)"] by simp
next
  case (4 hash spec fuel i a b c d e children s)
  from 4(3) obtain rx ex where t: "replay_nodes hash spec fuel children s = Some (None, (rx, ex))"
    and s': "s' = replay_recorded_control i KBranchSet (map node_id children) ''branch set replayed declared children''
         (rx, replay_finish_branch i (length (ex_leaf_results (snd s))) ex)"
    unfolding replay_node.simps replay_then_Some by auto
  from 4(2) obtain us where us: "visits (control_record (fst s)) fuel children = Some us" "vs = (us @ []) @ [VControl i KBranchSet]"
    by (auto simp: visit_after_Some)
  have c: "control_record rx = control_record (fst s)" using replay_any.kept(1) [OF TrueI t] same_lookups(2) by fastforce
  show ?case unfolding s' us(2) replay_recorded_control_def prod.case c
    by (rule replayed_trans [OF replayed_trans [OF 4(1) [OF us(1) t] replayed_branch] replayed_control])
next
  case (5 hash spec fuel i children s)
  from 5(3) obtain rx ex where t: "replay_nodes hash spec fuel children s = Some (None, (rx, ex))"
    and s': "s' = replay_recorded_control i KSequence (map node_id children) ''sequence replayed in declaration order'' (rx, ex)"
    unfolding replay_node.simps replay_then_Some by auto
  from 5(2) obtain us where us: "visits (control_record (fst s)) fuel children = Some us" "vs = us @ [VControl i KSequence]"
    by (auto simp: visit_after_Some)
  have c: "control_record rx = control_record (fst s)" using replay_any.kept(1) [OF TrueI t] same_lookups(2) by fastforce
  show ?case unfolding s' us(2) replay_recorded_control_def prod.case c
    by (rule replayed_trans [OF 5(1) [OF us(1) t] replayed_control])
next
  case (6 hash spec fuel r s)
  then show ?case using replayed_control by (cases s) (auto simp: replay_recorded_control_def)
next
  case (7 hash spec fuel r s)
  then show ?case using replayed_control by (cases s) (auto simp: replay_recorded_control_def)
next
  case (8 hash spec fuel i a b children s)
  define rec where "rec = control_record (fst s) i KLoopUntil"
  define selected where "selected = (case rec of Some r \<Rightarrow> cn_selected_children (rc_result r) | None \<Rightarrow> map node_id children)"
  from 8(3) obtain rx ex where t: "replay_nodes hash spec fuel (select_nodes children selected) s = Some (None, (rx, ex))"
    and s': "s' = (rx, push_control_or_diverge i KLoopUntil rec selected ''loop_until replayed recorded child selection'' ex)"
    unfolding replay_node.simps Let_def rec_def [symmetric] selected_def [symmetric] replay_then_Some by auto
  from 8(2) obtain us where us: "visits (control_record (fst s)) fuel (select_nodes children selected) = Some us"
    "vs = us @ [VControl i KLoopUntil]" by (auto simp: visit_after_Some rec_def selected_def)
  show ?case unfolding s' us(2) rec_def
    by (rule replayed_trans [OF 8(1) [OF rec_def selected_def us(1) t] replayed_control])
next
  case (9 hash spec fuel i a then_nodes else_nodes s)
  define rec where "rec = control_record (fst s) i KCond"
  define selected where "selected = (case rec of Some r \<Rightarrow> cn_selected_children (rc_result r) | None \<Rightarrow> [])"
  from 9(3) obtain rx ex where t: "replay_nodes hash spec fuel (select_nodes (then_nodes @ else_nodes) selected) s = Some (None, (rx, ex))"
    and s': "s' = (rx, push_control_or_diverge i KCond rec selected ''cond replayed recorded branch selection'' ex)"
    unfolding replay_node.simps Let_def rec_def [symmetric] selected_def [symmetric] replay_then_Some by auto
  from 9(2) obtain us where us: "visits (control_record (fst s)) fuel (select_nodes (then_nodes @ else_nodes) selected) = Some us"
    "vs = us @ [VControl i KCond]" by (auto simp: visit_after_Some rec_def selected_def)
  show ?case unfolding s' us(2) rec_def
    by (rule replayed_trans [OF 9(1) [OF rec_def selected_def us(1) t] replayed_control])
next
  case (10 hash spec i source a b s)
  then show ?case by simp
next
  case (11 hash spec fuel i source a b s)
  define rec where "rec = control_record (fst s) i KExpand"
  define given where "given = (case rec of Some r \<Rightarrow> rc_generated_nodes r | None \<Rightarrow> [])"
  from 11(3) obtain rx ex u where v: "validate_workflow_node_shapes given = Inr u"
    and t: "replay_nodes hash spec fuel given s = Some (None, (rx, ex))"
    and s': "s' = (rx, push_control_or_diverge i KExpand rec
       (case rec of Some r \<Rightarrow> cn_selected_children (rc_result r) | None \<Rightarrow> map node_id given)
       (''expand replayed recorded nodes from '' @ source) ex)"
    unfolding replay_node.simps Let_def rec_def [symmetric] given_def [symmetric]
    by (auto split: sum.splits simp: replay_then_Some)
  from 11(2) obtain us where us: "visits (control_record (fst s)) fuel given = Some us" "vs = us @ [VControl i KExpand]"
    by (auto simp: visit_after_Some rec_def given_def)
  show ?case unfolding s' us(2) unfolding rec_def
    by (rule replayed_trans [OF 11(1) [OF rec_def given_def v us(1) t] replayed_control])
qed

text \<open>The reasons a replay has to end with an error: recorded nodes of the wrong shape, a live replay that was asked for,
  inputs that have no hash.\<close>

fun error_explained :: "input_hash \<Rightarrow> workflow_spec \<Rightarrow> replay_control_record set \<Rightarrow> bool \<Rightarrow> replay_error \<Rightarrow> bool" where
  "error_explained hash spec records live (Validation e) \<longleftrightarrow>
     (\<exists>r \<in> records. validate_workflow_node_shapes (rc_generated_nodes r) = Inl e)"
| "error_explained hash spec records live (LiveReplayUnavailable i) \<longleftrightarrow> live"
| "error_explained hash spec records live (InputHash reason) \<longleftrightarrow> (\<exists>leaf inputs. hash spec leaf inputs = Inl reason)"

definition explained :: "input_hash \<Rightarrow> workflow_spec \<Rightarrow> replay_state \<Rightarrow> replay_error \<Rightarrow> bool" where
  "explained hash spec s = error_explained hash spec (snd ` set (rx_control_records (fst s))) (rx_allow_live_replay (fst s))"

lemma replay_then_error:
  "replay_then r f = Some (Some e, s') \<longleftrightarrow> r = Some (Some e, s') \<or> (\<exists>t. r = Some (None, t) \<and> f t = Some (Some e, s'))"
  by (auto simp: replay_then_def split: option.splits)

lemma explained_leaf: "replay_leaf hash spec l s = (Some e, s') \<Longrightarrow> explained hash spec s e"
  by (cases s, auto simp: replay_leaf_def explained_def Let_def split: sum.splits option.splits if_splits) blast

lemma explained_same: "same_records s t \<Longrightarrow> explained hash spec t = explained hash spec s"
  by (simp add: explained_def fun_eq_iff same_records_def)

lemma replay_errors:
  "replay_nodes hash spec fuel nodes s = Some (Some e, s') \<Longrightarrow> explained hash spec s e"
  "replay_node hash spec fuel node s = Some (Some e, s') \<Longrightarrow> explained hash spec s e"
proof (induction hash spec fuel nodes s and hash spec fuel node s arbitrary: s' and s'
    rule: replay_nodes_replay_node.induct)
  case (2 hash spec fuel node nodes s)
  from 2(3) consider "replay_node hash spec fuel node s = Some (Some e, s')"
    | t where "replay_node hash spec fuel node s = Some (None, t)" "replay_nodes hash spec fuel nodes t = Some (Some e, s')"
    unfolding replay_nodes.simps replay_then_error by blast
  then show ?case
  proof cases
    case 1
    then show ?thesis by (rule 2(1))
  next
    case t: 2
    have "same_records s t" using replay_any.kept(2) [OF TrueI t(1)] by blast
    with 2(2) [OF t] show ?thesis by (simp add: explained_same)
  qed
next
  case (3 hash spec fuel l s)
  then show ?case using explained_leaf by auto
next
  case (4 hash spec fuel i a b c d e' children s)
  then show ?case unfolding replay_node.simps replay_then_error by auto
next
  case (5 hash spec fuel i children s)
  then show ?case unfolding replay_node.simps replay_then_error by auto
next
  case (8 hash spec fuel i a b children s)
  then show ?case unfolding replay_node.simps Let_def replay_then_error by auto
next
  case (9 hash spec fuel i a then_nodes else_nodes s)
  then show ?case unfolding replay_node.simps Let_def replay_then_error by auto
next
  case (11 hash spec fuel i source a b s)
  define rec where "rec = control_record (fst s) i KExpand"
  define given where "given = (case rec of Some r \<Rightarrow> rc_generated_nodes r | None \<Rightarrow> [])"
  show ?case
  proof (cases "validate_workflow_node_shapes given")
    case (Inl v)
    moreover have "validate_workflow_node_shapes [] = Inr ()" by (simp add: validate_workflow_node_shapes_def)
    ultimately have "given \<noteq> []" by auto
    then obtain r where r: "rec = Some r" "given = rc_generated_nodes r" by (cases rec) (auto simp: given_def)
    then have "r \<in> snd ` set (rx_control_records (fst s))"
      by (auto simp: rec_def control_record_def bt_get_def dest!: map_of_SomeD intro: rev_image_eqI)
    moreover have "e = Validation v" using 11(2) Inl by (simp add: Let_def flip: rec_def given_def)
    ultimately show ?thesis using Inl r(2) by (auto simp: explained_def)
  next
    case (Inr u)
    from 11(2) have "replay_nodes hash spec fuel given s = Some (Some e, s')"
      unfolding replay_node.simps Let_def rec_def [symmetric] given_def [symmetric] Inr sum.case replay_then_error by auto
    then show ?thesis by (rule 11(1) [OF rec_def given_def Inr])
  qed
qed simp_all

text \<open>A replay that does not count as succeeded holds a result that did not succeed.\<close>

definition spoiled :: "replay_state \<Rightarrow> bool" where
  "spoiled s \<longleftrightarrow> (\<exists>r \<in> set (ex_leaf_results (snd s)). lr_status r \<noteq> Succeeded) \<or>
     (\<exists>c \<in> set (ex_control_node_results (snd s)). cn_status c \<noteq> Succeeded)"

lemma all_succeeded: "(\<And>r. r \<in> set rs \<Longrightarrow> lr_status r = Succeeded) \<Longrightarrow> replay_branch_status rs = Succeeded"
  by (auto simp: replay_branch_status_def list_ex_iff)

interpretation replay_spoiled: replay_invariant "\<lambda>s. ex_status (snd s) = Succeeded \<or> spoiled s"
proof unfold_locales
  fix s s' :: replay_state and hash spec l
  assume p: "ex_status (snd s) = Succeeded \<or> spoiled s" and l: "replay_leaf hash spec l s = (None, s')"
  obtain r where "snd s' = after_leaf r (snd s)" using replay_leaf_after [OF l] by blast
  with p show "ex_status (snd s') = Succeeded \<or> spoiled s'" by (auto simp: spoiled_def after_leaf_def)
next
  fix rx ex rec i k c t
  assume "ex_status (snd (rx, ex)) = Succeeded \<or> spoiled (rx, ex)"
  then show "ex_status (snd (rx, push_control_or_diverge i k rec c t ex)) = Succeeded
      \<or> spoiled (rx, push_control_or_diverge i k rec c t ex)"
    by (cases rec) (auto simp: spoiled_def push_control_or_diverge_def push_control_def Let_def)
next
  fix rx and ex :: execution and i n
  have "\<exists>r \<in> set (ex_leaf_results ex). lr_status r \<noteq> Succeeded"
    if "replay_branch_status (drop n (ex_leaf_results ex)) \<in> {ReplayDiverged, Failed}"
  proof (rule ccontr)
    assume "\<not> ?thesis"
    then have "lr_status r = Succeeded" if "r \<in> set (drop n (ex_leaf_results ex))" for r using that in_set_dropD by fastforce
    then have "replay_branch_status (drop n (ex_leaf_results ex)) = Succeeded" by (rule all_succeeded)
    with that show False by simp
  qed
  moreover assume "ex_status (snd (rx, ex)) = Succeeded \<or> spoiled (rx, ex)"
  ultimately show "ex_status (snd (rx, replay_finish_branch i n ex)) = Succeeded \<or> spoiled (rx, replay_finish_branch i n ex)"
    by (auto simp: spoiled_def replay_finish_branch_def Let_def)
qed

lemma execution_default_empty [simp]:
  "ex_leaf_results execution_default = []" "ex_control_node_results execution_default = []"
  "ex_status execution_default = Succeeded"
  by (simp_all add: execution_default_def)

lemma recorded_result_lookup: "leaf_lookup hash spec (replay_with_options trace live) = recorded_result hash spec trace"
proof -
  have "rx_trace_id (replay_with_options trace live) = rtr_trace_id trace" by (simp add: replay_with_options_def)
  then show ?thesis by (auto simp: fun_eq_iff leaf_lookup_def recorded_result_def recorded_lookup(1) split: sum.split)
qed

section \<open>Properties\<close>

text \<open>
  C22: When a trace's expansions are nested within the bound, the replay of a workflow ends, with the same end
  for every larger bound. It counts as succeeded only if its results are, node by node in the order the trace chooses,
  those recorded under the trace's own identifier, a leaf's under the hash of the inputs it has from the leaves before it,
  and none of them failed or diverged; and it counts as succeeded when each of its results succeeded. It ends with an
  error only when the workflow or recorded nodes are not well formed, a hash fails, or a live replay was asked for.
\<close>

theorem replayed_success_rests_on_the_trace:
  assumes "visits (recorded_control trace) fuel (wf_nodes spec) = Some vs"
  shows "\<exists>end rx'. (\<forall>k. replay_run hash (fuel + k) spec (replay_with_options trace live) = Some (end, rx')) \<and>
    (case end of
       Inl e \<Rightarrow> (case validate_workflow_nodes (wf_nodes spec) of
           Inl v \<Rightarrow> e = Validation v
         | Inr _ \<Rightarrow> error_explained hash spec (set (rtr_control_records trace)) live e)
     | Inr ex \<Rightarrow>
         (ex_status ex = Succeeded \<longrightarrow>
            rests_on (recorded_result hash spec trace) (recorded_control trace) [] vs
              (ex_leaf_results ex) (ex_control_node_results ex) (rx_resolved_outputs rx')) \<and>
         (list_all (\<lambda>r. lr_status r = Succeeded) (ex_leaf_results ex) \<and>
          list_all (\<lambda>c. cn_status c = Succeeded) (ex_control_node_results ex) \<longrightarrow> ex_status ex = Succeeded))"
proof -
  let ?rx = "replay_with_options trace live"
  note v = assms [folded recorded_lookup(2) [of trace live]]
  obtain e rx' ex where r: "replay_nodes hash spec fuel (wf_nodes spec) (?rx, execution_default) = Some (e, (rx', ex))"
    using replay_within_bound(1) [of "(?rx, execution_default)" fuel "wf_nodes spec" vs hash spec] v by auto
  have more: "replay_nodes hash spec (fuel + k) (wf_nodes spec) (?rx, execution_default) = Some (e, (rx', ex))" for k
    using more_fuel(1) [OF r] by simp
  show ?thesis
  proof (cases "validate_workflow_nodes (wf_nodes spec)")
    case (Inl err)
    then show ?thesis by (auto simp: replay_run_def)
  next
    case (Inr u)
    show ?thesis
    proof (cases e)
      case (Some err)
      have "explained hash spec (?rx, execution_default) err" using replay_errors(1) r Some by blast
      then have "error_explained hash spec (set (rtr_control_records trace)) live err"
        using replay_with_options_records [of trace live]
        by (cases err) (auto simp: explained_def replay_with_options_def)
      with Inr more Some show ?thesis by (auto simp: replay_run_def)
    next
      case None
      have "replayed (recorded_result hash spec trace) (recorded_control trace) vs (?rx, execution_default) (rx', ex)"
        using replay_rests(1) [of "(?rx, execution_default)" fuel "wf_nodes spec" vs hash spec "(rx', ex)"] v r None
        by (simp add: recorded_result_lookup recorded_lookup(2))
      moreover have "rx_resolved_outputs ?rx = []" by (simp add: replay_with_options_def)
      moreover have "ex_status ex = Succeeded \<or> spoiled (rx', ex)"
        using replay_spoiled.kept(1) [of "(?rx, execution_default)" hash spec fuel "wf_nodes spec" "(rx', ex)"] r None by simp
      ultimately show ?thesis using Inr more None
        by (intro exI [of _ "Inr ex"] exI [of _ rx'])
          (auto simp: replay_run_def replayed_def spoiled_def list_all_iff)
    qed
  qed
qed

text \<open>
  the totals of a replay are the sums over its leaf results in their order; results that diverged add nothing.
\<close>

theorem replay_totals_are_the_sums:
  assumes "replay_run hash fuel spec rx = Some (Inr ex, rx')"
  shows "ex_usage ex = usage_of (ex_leaf_results ex) \<and> ex_memo_usage ex = memo_usage_of (ex_leaf_results ex)"
  using replay_totals.replay_run_kept(1) [OF _ assms]
  by (simp add: totals_match_def execution_default_def usage_of_def memo_usage_of_def)

text \<open>
  a replay whose recorded expansions generate no further expansion always ends, with a result or an error, within
  one level of expansion; and any larger bound gives the same end.
\<close>

theorem replay_of_flat_records_ends:
  assumes "flat_records rx" and "0 < fuel"
  shows "\<exists>end rx'. replay_run hash fuel spec rx = Some (end, rx') \<and> replay_run hash (fuel + k) spec rx = Some (end, rx')"
proof -
  have "replay_nodes hash spec fuel (wf_nodes spec) (rx, execution_default) \<noteq> None"
    by (rule replay_ends(1)) (use assms in \<open>simp_all add: settled_def\<close>)
  then obtain e s' where r: "replay_nodes hash spec fuel (wf_nodes spec) (rx, execution_default) = Some (e, s')" by auto
  from more_fuel(1) [OF r] have "replay_nodes hash spec (fuel + k) (wf_nodes spec) (rx, execution_default) = Some (e, s')"
    by simp
  with r show ?thesis unfolding replay_run_def by (cases e; cases s') (auto split: sum.split)
qed

section \<open>Concrete replays\<close>

text \<open>For these, the hash of a leaf's inputs is its name, and the outputs it depends on joined to it.\<close>

definition demo_hash :: input_hash where
  "demo_hash spec leaf inputs =
     Inr (lf_id leaf @ concat (map (\<lambda>(d, v). d @ ''='' @ (case v of Some out \<Rightarrow> out | None \<Rightarrow> ''-'')) inputs))"

definition demo_result :: "string \<Rightarrow> run_status \<Rightarrow> leaf_result" where
  "demo_result i st = \<lparr>lr_leaf_id = i, lr_task_id = i, lr_status = st, lr_usage = demo_usage,
     lr_memo_usage = no_memo_usage, lr_output = Some ''out'', lr_artifacts = []\<rparr>"

definition demo_leaf_record :: "string \<Rightarrow> run_status \<Rightarrow> replay_leaf_record" where
  "demo_leaf_record i st = \<lparr>rl_trace_id = ''t'', rl_leaf_id = i, rl_input_hash = i, rl_result = demo_result i st\<rparr>"

definition demo_control_record :: "string \<Rightarrow> control_kind \<Rightarrow> string list \<Rightarrow> workflow_node list \<Rightarrow> replay_control_record" where
  "demo_control_record i kind children generated = \<lparr>rc_trace_id = ''t'', rc_node_id = i, rc_kind = kind,
     rc_result = \<lparr>cn_node_id = i, cn_kind = kind, cn_status = Succeeded, cn_selected_children = children, cn_summary = None\<rparr>,
     rc_generated_nodes = generated\<rparr>"

definition demo_trace :: "replay_leaf_record list \<Rightarrow> replay_control_record list \<Rightarrow> replay_trace" where
  "demo_trace lrs crs = \<lparr>rtr_trace_id = ''t'', rtr_leaf_records = lrs, rtr_control_records = crs\<rparr>"

definition replayed_statuses :: "((replay_error + execution) \<times> replayer) option \<Rightarrow> (run_status \<times> run_status list) option" where
  "replayed_statuses r =
     (case r of Some (Inr ex, _) \<Rightarrow> Some (ex_status ex, map lr_status (ex_leaf_results ex)) | _ \<Rightarrow> None)"

text \<open>A branch and an expansion, all recorded.\<close>

definition demo_expand_nodes :: "workflow_node list" where
  "demo_expand_nodes = [demo_branch ''b'' [demo_leaf ''x'', demo_leaf ''y''], Expand ''e'' ''src'' None None]"

definition demo_expand_trace :: replay_trace where
  "demo_expand_trace = demo_trace
     [demo_leaf_record ''x'' Succeeded, demo_leaf_record ''y'' Succeeded, demo_leaf_record ''z'' Succeeded]
     [demo_control_record ''b'' KBranchSet [''x'', ''y''] [], demo_control_record ''e'' KExpand [''z''] [demo_leaf ''z'']]"

lemma demo_replay:
  "replayed_statuses (replay_run demo_hash 1 (demo_workflow demo_expand_nodes) (replay_new demo_expand_trace))
     = Some (Succeeded, [Succeeded, Succeeded, Succeeded])"
  by code_simp

lemma replayed_statuses_run:
  "replayed_statuses r = Some (st, sts) \<Longrightarrow> \<exists>ex rx'. r = Some (Inr ex, rx') \<and> ex_status ex = st"
  by (auto simp: replayed_statuses_def split: option.splits sum.splits prod.splits)

text \<open>A divergence is forgotten when a later recorded leaf failed: the replay ends as failed, although within a branch
  set a divergence outranks a failure.\<close>

lemma later_failure_hides_divergence:
  "replayed_statuses (replay_run demo_hash 0 (demo_workflow [demo_leaf ''x'', demo_leaf ''y''])
     (replay_new (demo_trace [demo_leaf_record ''y'' Failed] []))) = Some (Failed, [ReplayDiverged, Failed])"
  "replay_branch_status [demo_result ''x'' ReplayDiverged, demo_result ''y'' Failed] = ReplayDiverged"
  by code_simp+

text \<open>A loop is replayed for one round, however many it ran: the second run of its leaf is not in the replay, even
  with a trace that has the loop's own record.\<close>

lemma loops_replay_one_round:
  "ran (run (demo_workflow [LoopUntil ''l'' ''done'' (Some 3) [demo_leaf ''z'']])
     (with_predicate_results ''l'' [False, True] mock_new)) = [(''z'', Succeeded), (''z'', Succeeded)]"
  "replayed_statuses (replay_run demo_hash 0 (demo_workflow [LoopUntil ''l'' ''done'' (Some 3) [demo_leaf ''z'']])
     (replay_new (demo_trace [demo_leaf_record ''z'' Succeeded, demo_leaf_record ''z'' Succeeded]
        [demo_control_record ''l'' KLoopUntil [''z''] []]))) = Some (Succeeded, [Succeeded])"
  by code_simp+

text \<open>An expansion recorded with itself among its nodes has no end, although the recorded nodes pass their check.\<close>

definition endless_nodes :: "workflow_node list" where
  "endless_nodes = [Expand ''e'' ''src'' None None]"

definition endless_replayer :: replayer where
  "endless_replayer = replay_new (demo_trace [] [demo_control_record ''e'' KExpand [''e''] endless_nodes])"

lemma endless_expansion: "replay_nodes hash spec fuel endless_nodes (endless_replayer, ex) = None"
proof (induction fuel)
  case 0
  then show ?case by (simp add: endless_nodes_def)
next
  case (Suc fuel)
  have "control_record endless_replayer ''e'' KExpand = Some (demo_control_record ''e'' KExpand [''e''] endless_nodes)"
    by code_simp
  moreover have "validate_workflow_node_shapes endless_nodes = Inr ()" by code_simp
  moreover have "rc_generated_nodes (demo_control_record ''e'' KExpand [''e''] endless_nodes) = endless_nodes"
    by (simp add: demo_control_record_def)
  ultimately show ?case using Suc by (simp add: endless_nodes_def Let_def)
qed

lemma self_expansion_never_ends: "replay_run hash fuel (demo_workflow endless_nodes) endless_replayer = None"
proof -
  have "validate_workflow_nodes endless_nodes = Inr ()" by code_simp
  then show ?thesis by (simp add: replay_run_def demo_workflow_def endless_expansion)
qed

theorem replayed_success_rests_on_the_trace_witness:
  "\<exists>vs ex rx'. visits (recorded_control demo_expand_trace) 1 demo_expand_nodes = Some vs \<and>
     replay_run demo_hash 1 (demo_workflow demo_expand_nodes) (replay_with_options demo_expand_trace False) = Some (Inr ex, rx') \<and>
     rests_on (recorded_result demo_hash (demo_workflow demo_expand_nodes) demo_expand_trace)
       (recorded_control demo_expand_trace) [] vs (ex_leaf_results ex) (ex_control_node_results ex) (rx_resolved_outputs rx')"
proof -
  have nodes: "wf_nodes (demo_workflow demo_expand_nodes) = demo_expand_nodes" by (simp add: demo_workflow_def)
  have "visits (recorded_control demo_expand_trace) 1 demo_expand_nodes \<noteq> None" by code_simp
  then obtain vs where vs: "visits (recorded_control demo_expand_trace) 1 demo_expand_nodes = Some vs" by blast
  then have "visits (recorded_control demo_expand_trace) 1 (wf_nodes (demo_workflow demo_expand_nodes)) = Some vs"
    by (simp only: nodes)
  from replayed_success_rests_on_the_trace [OF this, of demo_hash False]
  obtain answer rx'' where
    e: "\<forall>k. replay_run demo_hash (1 + k) (demo_workflow demo_expand_nodes) (replay_with_options demo_expand_trace False)
        = Some (answer, rx'')"
    and c: "case answer of
       Inl e \<Rightarrow> (case validate_workflow_nodes (wf_nodes (demo_workflow demo_expand_nodes)) of
           Inl v \<Rightarrow> e = Validation v
         | Inr _ \<Rightarrow> error_explained demo_hash (demo_workflow demo_expand_nodes)
             (set (rtr_control_records demo_expand_trace)) False e)
     | Inr ex \<Rightarrow>
         (ex_status ex = Succeeded \<longrightarrow>
            rests_on (recorded_result demo_hash (demo_workflow demo_expand_nodes) demo_expand_trace)
              (recorded_control demo_expand_trace) [] vs
              (ex_leaf_results ex) (ex_control_node_results ex) (rx_resolved_outputs rx'')) \<and>
         (list_all (\<lambda>r. lr_status r = Succeeded) (ex_leaf_results ex) \<and>
          list_all (\<lambda>c. cn_status c = Succeeded) (ex_control_node_results ex) \<longrightarrow> ex_status ex = Succeeded)"
    by (elim exE conjE) blast
  obtain ex rx' where r: "replay_run demo_hash 1 (demo_workflow demo_expand_nodes) (replay_with_options demo_expand_trace False)
      = Some (Inr ex, rx')" and st: "ex_status ex = Succeeded"
    using replayed_statuses_run [OF demo_replay] by (auto simp: replay_new_def)
  have "answer = Inr ex" "rx'' = rx'" using spec [OF e, of 0] r by simp_all
  then show ?thesis using vs r c st by simp
qed

theorem replay_totals_are_the_sums_witness:
  "\<exists>ex rx'. replay_run demo_hash 1 (demo_workflow demo_expand_nodes) (replay_new demo_expand_trace) = Some (Inr ex, rx') \<and>
     ex_usage ex = usage_of (ex_leaf_results ex)"
  using replayed_statuses_run [OF demo_replay] replay_totals_are_the_sums by blast

theorem replay_of_flat_records_ends_witness:
  "\<exists>end rx'. replay_run demo_hash 5 (demo_workflow demo_expand_nodes) (replay_new demo_expand_trace) = Some (end, rx')"
proof -
  have f: "flat_records (replay_new demo_expand_trace)" by code_simp
  have "(0 :: nat) < 5" by simp
  from replay_of_flat_records_ends [OF f this, of demo_hash "demo_workflow demo_expand_nodes" 0] show ?thesis by blast
qed

end
