(* ===== verification/Workflow_Models.thy ===== *)
theory Workflow_Models
  imports Workflow_Run
begin

text \<open>
  \<open>crates/whaleflow/src/model_policy.rs\<close>: the registry of models a workflow may use, the choice of a model for a role
  from a policy with fallbacks and required capabilities, and the single repair of model output before it is read as
  JSON. Reading JSON (\<open>serde_json\<close>) is a parameter. Error values carry what the code gives them; their rendering with
  \<open>{:?}\<close> is not modelled.
\<close>

section \<open>Data\<close>

datatype model_role =
    Planner | LeafReasoner | RoleImplementer | Reviewer | Teacher | Student | JsonExtractor | StarlarkRepair

fun role_index :: "model_role \<Rightarrow> nat" where
  "role_index Planner = 0"
| "role_index LeafReasoner = 1"
| "role_index RoleImplementer = 2"
| "role_index Reviewer = 3"
| "role_index Teacher = 4"
| "role_index Student = 5"
| "role_index JsonExtractor = 6"
| "role_index StarlarkRepair = 7"

lemma role_index_inject: "role_index a = role_index b \<longleftrightarrow> a = b"
  by (cases a; cases b) simp_all

instantiation model_role :: linorder
begin

definition less_eq_model_role :: "model_role \<Rightarrow> model_role \<Rightarrow> bool" where
  "less_eq_model_role a b \<longleftrightarrow> role_index a \<le> role_index b"

definition less_model_role :: "model_role \<Rightarrow> model_role \<Rightarrow> bool" where
  "less_model_role a b \<longleftrightarrow> role_index a < role_index b"

instance
  by standard (auto simp: less_eq_model_role_def less_model_role_def role_index_inject)

end

fun role_of_agent :: "agent_type \<Rightarrow> model_role" where
  "role_of_agent General = LeafReasoner"
| "role_of_agent Explore = LeafReasoner"
| "role_of_agent Plan = Planner"
| "role_of_agent Review = Reviewer"
| "role_of_agent Verifier = Reviewer"
| "role_of_agent Implementer = RoleImplementer"

record capabilities =
  ca_tool_calls :: bool
  ca_json_mode :: bool
  ca_prompt_cache :: bool
  ca_large_context :: bool
  ca_streaming :: bool

definition satisfies :: "capabilities \<Rightarrow> capabilities \<Rightarrow> bool" where
  "satisfies have required \<longleftrightarrow>
     (\<not> ca_tool_calls required \<or> ca_tool_calls have) \<and>
     (\<not> ca_json_mode required \<or> ca_json_mode have) \<and>
     (\<not> ca_prompt_cache required \<or> ca_prompt_cache have) \<and>
     (\<not> ca_large_context required \<or> ca_large_context have) \<and>
     (\<not> ca_streaming required \<or> ca_streaming have)"

record provider_model =
  pm_provider :: string
  pm_model :: string
  pm_capabilities :: capabilities

datatype model_source = Primary | Fallback | RoleDefault

record resolved_model =
  rs_role :: model_role
  rs_provider :: string
  rs_model :: string
  rs_capabilities :: capabilities
  rs_source :: model_source

datatype model_policy_error =
    MissingPolicy model_role
  | MissingModel
  | MissingFallbackProvider string
  | NoCapableModel model_role "string list"

record provider_registry =
  pr_models :: "(string, provider_model) btree"
  pr_role_policies :: "(model_role, model_policy) btree"

definition registry_new :: provider_registry where
  "registry_new = \<lparr>pr_models = [], pr_role_policies = []\<rparr>"

section \<open>Choosing a model\<close>

definition model_key :: "string \<Rightarrow> string \<Rightarrow> string" where
  "model_key provider model = provider @ ''/'' @ model"

definition insert_model :: "provider_model \<Rightarrow> provider_registry \<Rightarrow> provider_registry" where
  "insert_model m r = r\<lparr>pr_models := bt_insert (model_key (pm_provider m) (pm_model m)) m (pr_models r)\<rparr>"

definition with_model :: "provider_model \<Rightarrow> provider_registry \<Rightarrow> provider_registry" where
  "with_model m r = insert_model m r"

definition with_role_policy :: "model_role \<Rightarrow> model_policy \<Rightarrow> provider_registry \<Rightarrow> provider_registry" where
  "with_role_policy role policy r = r\<lparr>pr_role_policies := bt_insert role policy (pr_role_policies r)\<rparr>"

record model_candidate =
  cd_provider :: string
  cd_model :: string

definition candidate_from_model :: "string option \<Rightarrow> string \<Rightarrow> model_policy_error + model_candidate" where
  "candidate_from_model default_provider model =
     (case split_once CHR ''/'' model of
        Some (p, m) \<Rightarrow> Inr \<lparr>cd_provider = p, cd_model = m\<rparr>
      | None \<Rightarrow>
         (case default_provider of
            None \<Rightarrow> Inl (MissingFallbackProvider model)
          | Some p \<Rightarrow> Inr \<lparr>cd_provider = p, cd_model = model\<rparr>))"

fun fallback_candidates :: "string option \<Rightarrow> string list \<Rightarrow> model_policy_error + model_candidate list" where
  "fallback_candidates p [] = Inr []"
| "fallback_candidates p (m # ms) =
     res_bind (candidate_from_model p m) (\<lambda>c. res_bind (fallback_candidates p ms) (\<lambda>cs. Inr (c # cs)))"

definition model_candidates :: "model_policy \<Rightarrow> model_policy_error + model_candidate list" where
  "model_candidates policy =
     (case mp_model policy of
        None \<Rightarrow> Inl MissingModel
      | Some m \<Rightarrow>
          res_bind (candidate_from_model (mp_provider policy) m) (\<lambda>c.
          res_bind (fallback_candidates (mp_provider policy) (mp_fallback_models policy)) (\<lambda>cs. Inr (c # cs))))"

text \<open>The loop of \<open>resolve_policy\<close>; the source is the one of the candidate at hand, fallbacks after the first.\<close>

fun try_candidates ::
  "provider_registry \<Rightarrow> model_role \<Rightarrow> capabilities \<Rightarrow> model_source \<Rightarrow> string list \<Rightarrow> model_candidate list
     \<Rightarrow> model_policy_error + resolved_model" where
  "try_candidates r role required source rejected [] = Inl (NoCapableModel role rejected)"
| "try_candidates r role required source rejected (c # cs) =
     (case bt_get (pr_models r) (model_key (cd_provider c) (cd_model c)) of
        None \<Rightarrow> try_candidates r role required Fallback
                  (rejected @ [cd_provider c @ ''/'' @ cd_model c @ '': unknown'']) cs
      | Some m \<Rightarrow>
          if satisfies (pm_capabilities m) required
          then Inr \<lparr>rs_role = role, rs_provider = pm_provider m, rs_model = pm_model m,
                    rs_capabilities = pm_capabilities m, rs_source = source\<rparr>
          else try_candidates r role required Fallback
                 (rejected @ [pm_provider m @ ''/'' @ pm_model m @ '': missing required capabilities'']) cs)"

definition resolve_policy ::
  "provider_registry \<Rightarrow> model_role \<Rightarrow> model_policy \<Rightarrow> model_source \<Rightarrow> capabilities \<Rightarrow> model_policy_error + resolved_model" where
  "resolve_policy r role policy primary_source required =
     res_bind (model_candidates policy) (\<lambda>cs. try_candidates r role required primary_source [] cs)"

definition resolve_role ::
  "provider_registry \<Rightarrow> model_role \<Rightarrow> model_policy option \<Rightarrow> capabilities \<Rightarrow> model_policy_error + resolved_model" where
  "resolve_role r role policy required =
     (case policy of
        Some p \<Rightarrow> resolve_policy r role p Primary required
      | None \<Rightarrow>
         (case bt_get (pr_role_policies r) role of
            None \<Rightarrow> Inl (MissingPolicy role)
          | Some p \<Rightarrow> resolve_policy r role p RoleDefault required))"

section \<open>Repair of JSON text\<close>

text \<open>\<open>str::rfind\<close> and \<open>str::find\<close> of a character, as the part before it and the part from it.\<close>

definition slice_json_payload :: "string \<Rightarrow> char \<Rightarrow> char \<Rightarrow> string option" where
  "slice_json_payload raw open close =
     (if open \<notin> set raw \<or> close \<notin> set raw then None
      else let start = length (takeWhile (\<lambda>c. c \<noteq> open) raw);
               stop = length raw - 1 - length (takeWhile (\<lambda>c. c \<noteq> close) (rev raw))
           in if stop \<ge> start then Some (take (stop + 1 - start) (drop start raw)) else None)"

definition without_fence :: "string \<Rightarrow> string" where
  "without_fence trimmed =
     (case (case strip_prefix ''```json'' trimmed of Some v \<Rightarrow> Some v | None \<Rightarrow> strip_prefix ''```'' trimmed) of
        None \<Rightarrow> trimmed
      | Some v \<Rightarrow> (case strip_suffix ''```'' v of None \<Rightarrow> trimmed | Some w \<Rightarrow> trim w))"

definition repair_json_text_once :: "string \<Rightarrow> string" where
  "repair_json_text_once raw =
     (let text = without_fence (trim raw);
          object = slice_json_payload text CHR ''{'' CHR ''}'';
          array = slice_json_payload text CHR ''['' CHR '']''
      in case object of Some v \<Rightarrow> v | None \<Rightarrow> (case array of Some v \<Rightarrow> v | None \<Rightarrow> text))"

text \<open>\<open>from_str\<close> is the parser: the value, or the reason it could not read the text.\<close>

definition parse_json_with_repair :: "(string \<Rightarrow> string + 'v) \<Rightarrow> string \<Rightarrow> string + 'v" where
  "parse_json_with_repair from_str raw =
     (case from_str raw of
        Inr v \<Rightarrow> Inr v
      | Inl first \<Rightarrow>
         (case from_str (repair_json_text_once raw) of
            Inr v \<Rightarrow> Inr v
          | Inl second \<Rightarrow> Inl (''json parse failed before and after one repair pass: '' @ first @ ''; repair failed: '' @ second)))"

section \<open>The choice\<close>

definition usable :: "provider_registry \<Rightarrow> capabilities \<Rightarrow> model_candidate \<Rightarrow> provider_model option" where
  "usable r required c =
     (case bt_get (pr_models r) (model_key (cd_provider c) (cd_model c)) of
        Some m \<Rightarrow> if satisfies (pm_capabilities m) required then Some m else None
      | None \<Rightarrow> None)"

text \<open>Why a candidate is passed over.\<close>

definition rejection :: "provider_registry \<Rightarrow> model_candidate \<Rightarrow> string" where
  "rejection r c =
     (case bt_get (pr_models r) (model_key (cd_provider c) (cd_model c)) of
        None \<Rightarrow> cd_provider c @ ''/'' @ cd_model c @ '': unknown''
      | Some m \<Rightarrow> pm_provider m @ ''/'' @ pm_model m @ '': missing required capabilities'')"

text \<open>The loop without the loop: the first usable candidate, or every rejection in order.\<close>

definition first_usable ::
  "provider_registry \<Rightarrow> model_role \<Rightarrow> capabilities \<Rightarrow> model_source \<Rightarrow> model_candidate list
     \<Rightarrow> model_policy_error + resolved_model" where
  "first_usable r role required source cs =
     (case find (\<lambda>c. usable r required c \<noteq> None) cs of
        None \<Rightarrow> Inl (NoCapableModel role (map (rejection r) cs))
      | Some c \<Rightarrow>
          let m = the (usable r required c)
          in Inr \<lparr>rs_role = role, rs_provider = pm_provider m, rs_model = pm_model m, rs_capabilities = pm_capabilities m,
                  rs_source = (if usable r required (hd cs) \<noteq> None then source else Fallback)\<rparr>)"

lemma try_candidates_eq:
  "try_candidates r role required source rejected cs =
     map_sum (\<lambda>e. case e of NoCapableModel role rs \<Rightarrow> NoCapableModel role (rejected @ rs) | _ \<Rightarrow> e) id
       (first_usable r role required source cs)"
proof (induction cs arbitrary: source rejected)
  case Nil
  then show ?case by (simp add: first_usable_def)
next
  case (Cons c cs)
  show ?case
  proof (cases "usable r required c")
    case None
    then have "try_candidates r role required source rejected (c # cs) =
        try_candidates r role required Fallback (rejected @ [rejection r c]) cs"
      by (auto simp: usable_def rejection_def split: option.splits if_splits)
    then show ?thesis using None by (auto simp: Cons first_usable_def Let_def split: option.split)
  next
    case (Some m)
    then have "try_candidates r role required source rejected (c # cs) =
        Inr \<lparr>rs_role = role, rs_provider = pm_provider m, rs_model = pm_model m,
             rs_capabilities = pm_capabilities m, rs_source = source\<rparr>"
      by (auto simp: usable_def split: option.splits if_splits)
    then show ?thesis using Some by (simp add: first_usable_def)
  qed
qed

text \<open>A model is registered under its own key: a registry built with \<open>insert_model\<close> keeps this.\<close>

definition registry_ok :: "provider_registry \<Rightarrow> bool" where
  "registry_ok r \<longleftrightarrow> (\<forall>k m. bt_get (pr_models r) k = Some m \<longrightarrow> k = model_key (pm_provider m) (pm_model m))"

lemma registry_ok_new: "registry_ok registry_new"
  by (simp add: registry_ok_def registry_new_def bt_get_def)

lemma registry_ok_insert: "registry_ok r \<Longrightarrow> registry_ok (insert_model m r)"
  by (auto simp: registry_ok_def insert_model_def bt.get_insert_at)

section \<open>The payload\<close>

text \<open>\<open>j\<close> is in the text, with no opening brace before it and no closing one after it.\<close>

definition holds_payload :: "string \<Rightarrow> string \<Rightarrow> bool" where
  "holds_payload j t \<longleftrightarrow> (\<exists>u v. t = u @ j @ v \<and> CHR ''{'' \<notin> set u \<and> CHR ''}'' \<notin> set v)"

lemma holds_payloadI: "CHR ''{'' \<notin> set u \<Longrightarrow> CHR ''}'' \<notin> set v \<Longrightarrow> holds_payload j (u @ j @ v)"
  by (auto simp: holds_payload_def)

definition braced :: "string \<Rightarrow> bool" where
  "braced j \<longleftrightarrow> j \<noteq> [] \<and> hd j = CHR ''{'' \<and> last j = CHR ''}''"

lemma slice_payload:
  assumes "holds_payload j t" "braced j"
  shows "slice_json_payload t CHR ''{'' CHR ''}'' = Some j"
proof -
  obtain u v where t: "t = u @ j @ v" "CHR ''{'' \<notin> set u" "CHR ''}'' \<notin> set v"
    using assms(1) by (auto simp: holds_payload_def)
  obtain a where a: "j = CHR ''{'' # a" using assms(2) by (cases j) (auto simp: braced_def)
  obtain b where b: "j = b @ [CHR ''}'']" using assms(2) by (cases j rule: rev_cases) (auto simp: braced_def)
  have s: "takeWhile (\<lambda>c. c \<noteq> CHR ''{'') t = u" using t(1,2) a by (auto simp: takeWhile_append takeWhile_eq_all_conv)
  have e: "takeWhile (\<lambda>c. c \<noteq> CHR ''}'') (rev t) = rev v"
    using t(1,3) b by (auto simp: takeWhile_append takeWhile_eq_all_conv)
  have "CHR ''{'' \<in> set j" using a by simp
  moreover have "CHR ''}'' \<in> set j" using b by simp
  ultimately have m: "CHR ''{'' \<in> set t" "CHR ''}'' \<in> set t" using t(1) by simp_all
  have "length u \<le> length t - 1 - length v" "length t - 1 - length v + 1 - length u = length j" using t(1) a by simp_all
  then show ?thesis using s e m t(1) by (simp add: slice_json_payload_def Let_def)
qed

lemma payload_dropped_prefix:
  assumes "holds_payload j (p @ t)" "CHR ''{'' \<notin> set p" "braced j"
  shows "holds_payload j t"
proof -
  obtain u v where e: "p @ t = u @ j @ v" "CHR ''{'' \<notin> set u" "CHR ''}'' \<notin> set v"
    using assms(1) by (auto simp: holds_payload_def)
  obtain a where a: "j = CHR ''{'' # a" using assms(3) by (cases j) (auto simp: braced_def)
  from e(1) obtain w where "p = u @ w \<and> w @ t = j @ v \<or> p @ w = u \<and> t = w @ j @ v"
    by (auto simp only: append_eq_append_conv2)
  then show ?thesis
  proof
    assume w: "p = u @ w \<and> w @ t = j @ v"
    then have "w = []" using assms(2) a by (cases w) auto
    with w e(3) holds_payloadI [of "[]" v j] show ?thesis by simp
  next
    assume w: "p @ w = u \<and> t = w @ j @ v"
    then have "CHR ''{'' \<notin> set w" using e(2) by auto
    with w e(3) show ?thesis by (simp add: holds_payloadI)
  qed
qed

lemma payload_dropped_suffix:
  assumes "holds_payload j (t @ p)" "CHR ''}'' \<notin> set p" "braced j"
  shows "holds_payload j t"
proof -
  obtain u v where e: "t @ p = (u @ j) @ v" "CHR ''{'' \<notin> set u" "CHR ''}'' \<notin> set v"
    using assms(1) by (auto simp: holds_payload_def)
  obtain b where b: "j = b @ [CHR ''}'']" using assms(3) by (cases j rule: rev_cases) (auto simp: braced_def)
  from e(1) obtain w where "t = (u @ j) @ w \<and> w @ p = v \<or> t @ w = u @ j \<and> p = w @ v"
    by (auto simp only: append_eq_append_conv2)
  then show ?thesis
  proof
    assume w: "t = (u @ j) @ w \<and> w @ p = v"
    then have "CHR ''}'' \<notin> set w" using e(3) by auto
    with w e(2) show ?thesis by (simp add: holds_payloadI)
  next
    assume w: "t @ w = u @ j \<and> p = w @ v"
    have "w = []"
    proof (rule ccontr)
      assume "w \<noteq> []"
      then have "last w = CHR ''}''" using w b by (metis append_assoc last_appendR last_snoc)
      then show False using \<open>w \<noteq> []\<close> w assms(2) by (metis Un_iff last_in_set set_append)
    qed
    with w e(2) holds_payloadI [of u "[]" j] show ?thesis by simp
  qed
qed

text \<open>Trimming and the removal of a fence keep the payload.\<close>

lemma payload_trim:
  assumes "holds_payload j t" "braced j"
  shows "holds_payload j (trim t)"
proof -
  have "t = takeWhile is_ws t @ trim_start t" by (simp add: trim_start_def)
  moreover have "CHR ''{'' \<notin> set (takeWhile is_ws t)" by (auto dest: set_takeWhileD simp: is_ws_def)
  ultimately have s: "holds_payload j (trim_start t)" using payload_dropped_prefix [OF _ _ assms(2)] assms(1) by metis
  have "trim_start t = trim t @ rev (takeWhile is_ws (rev (trim_start t)))"
    unfolding trim_def trim_end_def by (metis rev_append rev_rev_ident takeWhile_dropWhile_id)
  moreover have "CHR ''}'' \<notin> set (rev (takeWhile is_ws (rev (trim_start t))))"
    by (auto dest: set_takeWhileD simp: is_ws_def)
  ultimately show ?thesis using payload_dropped_suffix [OF _ _ assms(2)] s by metis
qed

lemma payload_strip_prefix:
  "strip_prefix p t = Some v \<Longrightarrow> holds_payload j t \<Longrightarrow> CHR ''{'' \<notin> set p \<Longrightarrow> braced j \<Longrightarrow> holds_payload j v"
  using payload_dropped_prefix [of j p v] by (auto simp: strip_prefix_def prefix_def split: if_splits)

lemma payload_strip_suffix:
  "strip_suffix p t = Some v \<Longrightarrow> holds_payload j t \<Longrightarrow> CHR ''}'' \<notin> set p \<Longrightarrow> braced j \<Longrightarrow> holds_payload j v"
  using payload_dropped_suffix [of j v p] by (auto simp: strip_suffix_def suffix_def split: if_splits)

lemma payload_without_fence: "holds_payload j t \<Longrightarrow> braced j \<Longrightarrow> holds_payload j (without_fence t)"
  unfolding without_fence_def
  by (auto split: option.split intro!: payload_trim intro: payload_strip_suffix [OF _ payload_strip_prefix])

section \<open>Properties\<close>

text \<open>
  a policy resolves to the first of its candidates, the model and then the fallbacks in order, that is registered
  and has every required capability; it counts as the primary choice only if it was the first candidate; and when there
  is none, the error lists every candidate with why it was passed over, in the same order.
\<close>

theorem policy_resolves_to_the_first_usable:
  "resolve_policy r role policy source required =
     (case model_candidates policy of Inl e \<Rightarrow> Inl e | Inr cs \<Rightarrow> first_usable r role required source cs)"
  by (auto simp: resolve_policy_def try_candidates_eq first_usable_def Let_def res_bind_def split: sum.split option.split)

text \<open>
  JSON is recovered from prose. Whenever the text cannot be read as it is, and holds an object in braces with no
  opening brace before it and no closing brace after it, fenced as a code block or not, the one repair pass reads
  exactly that object; a text that can be read is never repaired. The parser is arbitrary.
\<close>

theorem repair_reads_the_object_in_the_text:
  assumes "braced j" and "CHR ''{'' \<notin> set before" and "CHR ''}'' \<notin> set after"
    and "from_str j = Inr v"
  shows "parse_json_with_repair from_str (before @ j @ after) =
     (case from_str (before @ j @ after) of Inr w \<Rightarrow> Inr w | Inl _ \<Rightarrow> Inr v)"
proof -
  have "holds_payload j (without_fence (trim (before @ j @ after)))"
    using assms(1-3) holds_payloadI payload_trim payload_without_fence by blast
  then have "repair_json_text_once (before @ j @ after) = j"
    using slice_payload assms(1) by (simp add: repair_json_text_once_def Let_def)
  then show ?thesis using assms(4) by (simp add: parse_json_with_repair_def split: sum.split)
qed

text \<open>
  a model just registered is the one its own reference \<open>provider/model\<close> resolves to, whatever the policy's own
  provider and fallbacks, if it has the required capabilities and its provider's name has no slash.
\<close>

theorem registered_model_is_found:
  assumes "CHR ''/'' \<notin> set (pm_provider m)"
    and "satisfies (pm_capabilities m) required"
    and "fallback_candidates p fallbacks = Inr cs"
  shows "resolve_policy (insert_model m r) role
      \<lparr>mp_provider = p, mp_model = Some (model_key (pm_provider m) (pm_model m)), mp_fallback_models = fallbacks\<rparr> source required
    = Inr \<lparr>rs_role = role, rs_provider = pm_provider m, rs_model = pm_model m, rs_capabilities = pm_capabilities m,
          rs_source = source\<rparr>"
proof -
  have "split_once CHR ''/'' (q @ CHR ''/'' # n) = Some (q, n)" if "CHR ''/'' \<notin> set q" for q n
    using that by (induction q) auto
  then have "candidate_from_model p (model_key (pm_provider m) (pm_model m)) =
      Inr \<lparr>cd_provider = pm_provider m, cd_model = pm_model m\<rparr>"
    using assms(1) by (simp add: candidate_from_model_def model_key_def)
  then show ?thesis using assms(2,3)
    by (simp add: resolve_policy_def model_candidates_def insert_model_def bt.get_insert_at)
qed

section \<open>Concrete choices\<close>

definition no_capabilities :: capabilities where
  "no_capabilities = \<lparr>ca_tool_calls = False, ca_json_mode = False, ca_prompt_cache = False, ca_large_context = False,
     ca_streaming = False\<rparr>"

definition demo_model :: "string \<Rightarrow> string \<Rightarrow> bool \<Rightarrow> provider_model" where
  "demo_model p m json = \<lparr>pm_provider = p, pm_model = m, pm_capabilities = no_capabilities\<lparr>ca_json_mode := json\<rparr>\<rparr>"

lemma demo_fallback:
  "resolve_policy (with_model (demo_model ''mock'' ''json'' True) (with_model (demo_model ''mock'' ''plain'' False) registry_new))
     JsonExtractor \<lparr>mp_provider = Some ''mock'', mp_model = Some ''plain'', mp_fallback_models = [''json'']\<rparr> Primary
     (no_capabilities\<lparr>ca_json_mode := True\<rparr>)
   = Inr \<lparr>rs_role = JsonExtractor, rs_provider = ''mock'', rs_model = ''json'',
         rs_capabilities = no_capabilities\<lparr>ca_json_mode := True\<rparr>, rs_source = Fallback\<rparr>"
  by code_simp

text \<open>Two models with one key: the second registration replaces the first, and a reference to the first finds it.\<close>

lemma model_keys_collide:
  "model_key ''a/b'' ''c'' = model_key ''a'' ''b/c''"
  "map_sum id rs_provider (resolve_policy
      (insert_model (demo_model ''a/b'' ''c'' True) (insert_model (demo_model ''a'' ''b/c'' True) registry_new))
      Planner \<lparr>mp_provider = None, mp_model = Some ''a/b/c'', mp_fallback_models = []\<rparr> Primary no_capabilities) = Inr ''a/b''"
  by code_simp+

text \<open>A list of objects in prose loses its brackets: the object is looked for first.\<close>

lemma repair_drops_the_brackets_of_a_list:
  "repair_json_text_once ''Result: [{1}, {2}]'' = ''{1}, {2}''"
  by code_simp

theorem repair_reads_the_object_in_the_text_witness:
  "parse_json_with_repair (\<lambda>t. if t = ''{x}'' then Inr (1 :: nat) else Inl ''bad'') ''Here: {x} done'' = Inr 1"
  using repair_reads_the_object_in_the_text
    [of "''{x}''" "''Here: ''" "'' done''" "\<lambda>t. if t = ''{x}'' then Inr (1 :: nat) else Inl ''bad''" 1]
  by (simp add: braced_def)

theorem registered_model_is_found_witness:
  "map_sum id rs_model (resolve_policy (insert_model (demo_model ''mock'' ''json'' True) registry_new) Planner
      \<lparr>mp_provider = None, mp_model = Some ''mock/json'', mp_fallback_models = []\<rparr> Primary no_capabilities) = Inr ''json''"
proof -
  let ?m = "demo_model ''mock'' ''json'' True"
  have "CHR ''/'' \<notin> set (pm_provider ?m)" "satisfies (pm_capabilities ?m) no_capabilities"
    "fallback_candidates None [] = Inr []" by (simp_all add: demo_model_def satisfies_def no_capabilities_def)
  from registered_model_is_found [OF this, of registry_new Planner Primary] show ?thesis
    by (simp add: demo_model_def model_key_def)
qed

end
