(* ===== verification/Thread_Store.thy ===== *)
theory Thread_Store
  imports Json_Value
begin

text \<open>
  \<open>crates/state/src/lib.rs\<close>: the SQLite store of threads, their goals and the index of session names. A table is
  the list of its rows in the order of their insertion, a row keeps the column types of the schema, and an
  operation is its SQL statement. \<open>Message_Tree\<close> holds the operations on messages, checkpoints and tools.
  A statement that fails is an \<open>Inl\<close> with the context the code adds; failures of the disk are not modelled. The
  JSON library is the pair \<open>ser\<close>, \<open>de\<close>; SQLite's arithmetic on floats is the parameter \<open>fsum\<close>.
\<close>

section \<open>Records\<close>

datatype thread_status =
  ThreadRunning | ThreadIdle | ThreadCompleted | ThreadFailed | ThreadPaused | ThreadArchived

datatype session_source = SourceInteractive | SourceResume | SourceFork | SourceApi | SourceUnknown

record thread_metadata =
  tm_id :: string
  tm_rollout_path :: "string option"
  tm_preview :: string
  tm_ephemeral :: bool
  tm_model_provider :: string
  tm_created_at :: int
  tm_updated_at :: int
  tm_status :: thread_status
  tm_path :: "string option"
  tm_cwd :: string
  tm_cli_version :: string
  tm_source :: session_source
  tm_name :: "string option"
  tm_sandbox_policy :: "string option"
  tm_approval_mode :: "string option"
  tm_archived :: bool
  tm_archived_at :: "int option"
  tm_git_sha :: "string option"
  tm_git_branch :: "string option"
  tm_git_origin_url :: "string option"
  tm_memory_mode :: "string option"
  tm_current_leaf_id :: "int option"

datatype goal_record_status = StActive | StPaused | StBlocked | StUsageLimited | StBudgetLimited | StComplete

record thread_goal_record =
  tg_thread_id :: string
  tg_goal_id :: string
  tg_objective :: string
  tg_status :: goal_record_status
  tg_token_budget :: "int option"
  tg_tokens_used :: int
  tg_time_used_seconds :: int
  tg_continuation_count :: int
  tg_created_at :: int
  tg_updated_at :: int

record session_index_entry =
  si_thread_id :: string
  si_thread_name :: "string option"
  si_updated_at :: int
  si_rollout_path :: "string option"

fun thread_status_to_str :: "thread_status \<Rightarrow> string" where
  "thread_status_to_str ThreadRunning = ''running''"
| "thread_status_to_str ThreadIdle = ''idle''"
| "thread_status_to_str ThreadCompleted = ''completed''"
| "thread_status_to_str ThreadFailed = ''failed''"
| "thread_status_to_str ThreadPaused = ''paused''"
| "thread_status_to_str ThreadArchived = ''archived''"

definition thread_status_from_str :: "string \<Rightarrow> thread_status" where
  "thread_status_from_str s =
     (if s = ''running'' then ThreadRunning
      else if s = ''idle'' then ThreadIdle
      else if s = ''completed'' then ThreadCompleted
      else if s = ''failed'' then ThreadFailed
      else if s = ''paused'' then ThreadPaused
      else if s = ''archived'' then ThreadArchived
      else ThreadIdle)"

fun session_source_to_str :: "session_source \<Rightarrow> string" where
  "session_source_to_str SourceInteractive = ''interactive''"
| "session_source_to_str SourceResume = ''resume''"
| "session_source_to_str SourceFork = ''fork''"
| "session_source_to_str SourceApi = ''api''"
| "session_source_to_str SourceUnknown = ''unknown''"

definition session_source_from_str :: "string \<Rightarrow> session_source" where
  "session_source_from_str s =
     (if s = ''interactive'' then SourceInteractive
      else if s = ''resume'' then SourceResume
      else if s = ''fork'' then SourceFork
      else if s = ''api'' then SourceApi
      else SourceUnknown)"

fun thread_goal_status_to_str :: "goal_record_status \<Rightarrow> string" where
  "thread_goal_status_to_str StActive = ''active''"
| "thread_goal_status_to_str StPaused = ''paused''"
| "thread_goal_status_to_str StBlocked = ''blocked''"
| "thread_goal_status_to_str StUsageLimited = ''usage_limited''"
| "thread_goal_status_to_str StBudgetLimited = ''budget_limited''"
| "thread_goal_status_to_str StComplete = ''complete''"

definition thread_goal_status_from_str :: "string \<Rightarrow> goal_record_status" where
  "thread_goal_status_from_str s =
     (if s = ''active'' then StActive
      else if s = ''paused'' then StPaused
      else if s = ''blocked'' then StBlocked
      else if s = ''usage_limited'' then StUsageLimited
      else if s = ''budget_limited'' then StBudgetLimited
      else if s = ''complete'' then StComplete
      else StActive)"

definition bool_to_i64 :: "bool \<Rightarrow> int" where
  "bool_to_i64 b = (if b then 1 else 0)"

definition i64_to_bool :: "int \<Rightarrow> bool" where
  "i64_to_bool v \<longleftrightarrow> v \<noteq> 0"

lemma thread_status_str_inverse [simp]: "thread_status_from_str (thread_status_to_str s) = s"
  by (cases s) (simp_all add: thread_status_from_str_def)

lemma session_source_str_inverse [simp]: "session_source_from_str (session_source_to_str s) = s"
  by (cases s) (simp_all add: session_source_from_str_def)

lemma thread_goal_status_str_inverse [simp]: "thread_goal_status_from_str (thread_goal_status_to_str s) = s"
  by (cases s) (simp_all add: thread_goal_status_from_str_def)

lemma bool_i64 [simp]: "i64_to_bool (bool_to_i64 b) = b"
  by (simp add: i64_to_bool_def bool_to_i64_def)

section \<open>The schema\<close>

text \<open>
  A cell of the column \<open>current_leaf_id\<close> (type INTEGER, nullable): SQLite keeps a text it cannot read as an integer
  as a text, or as a float.
\<close>

datatype leaf_cell = LeafNull | LeafInt int | LeafText string | LeafReal "64 word"

record thread_row =
  tw_id :: string
  tw_rollout_path :: "string option"
  tw_preview :: string
  tw_ephemeral :: int
  tw_model_provider :: string
  tw_created_at :: int
  tw_updated_at :: int
  tw_status :: string
  tw_path :: "string option"
  tw_cwd :: string
  tw_cli_version :: string
  tw_source :: string
  tw_title :: "string option"
  tw_sandbox_policy :: "string option"
  tw_approval_mode :: "string option"
  tw_archived :: int
  tw_archived_at :: "int option"
  tw_git_sha :: "string option"
  tw_git_branch :: "string option"
  tw_git_origin_url :: "string option"
  tw_memory_mode :: "string option"
  tw_current_leaf_id :: leaf_cell

text \<open>A counter column: an integer of 64 bits, or the float a sum beyond them becomes.\<close>

datatype int_cell = IntCell int | RealCell "64 word"

record goal_row =
  gw_thread_id :: string
  gw_goal_id :: string
  gw_objective :: string
  gw_status :: string
  gw_token_budget :: "int option"
  gw_tokens_used :: int_cell
  gw_time_used_seconds :: int_cell
  gw_continuation_count :: int_cell
  gw_created_at :: int
  gw_updated_at :: int

record message_row =
  mw_id :: int
  mw_thread_id :: string
  mw_role :: string
  mw_content :: string
  mw_item_json :: "string option"
  mw_created_at :: int
  mw_parent :: "int option"

record checkpoint_row =
  cw_thread_id :: string
  cw_checkpoint_id :: string
  cw_state_json :: string
  cw_created_at :: int

record tool_row =
  ow_thread_id :: string
  ow_position :: int
  ow_name :: string
  ow_description :: "string option"
  ow_input_schema :: string

text \<open>
  The store: its tables, the last message id SQLite has given out (\<open>AUTOINCREMENT\<close>), and the lines of the session
  index.
\<close>

record state_store =
  st_threads :: "thread_row list"
  st_messages :: "message_row list"
  st_message_seq :: int
  st_checkpoints :: "checkpoint_row list"
  st_tools :: "tool_row list"
  st_goals :: "goal_row list"
  st_index :: "string list"

definition empty_store :: state_store where
  "empty_store = \<lparr>st_threads = [], st_messages = [], st_message_seq = 0, st_checkpoints = [], st_tools = [],
     st_goals = [], st_index = []\<rparr>"

section \<open>Threads\<close>

definition row_of_thread :: "leaf_cell \<Rightarrow> thread_metadata \<Rightarrow> thread_row" where
  "row_of_thread leaf t =
     \<lparr>tw_id = tm_id t, tw_rollout_path = tm_rollout_path t, tw_preview = tm_preview t,
      tw_ephemeral = bool_to_i64 (tm_ephemeral t), tw_model_provider = tm_model_provider t,
      tw_created_at = tm_created_at t, tw_updated_at = tm_updated_at t,
      tw_status = thread_status_to_str (tm_status t), tw_path = tm_path t, tw_cwd = tm_cwd t,
      tw_cli_version = tm_cli_version t, tw_source = session_source_to_str (tm_source t), tw_title = tm_name t,
      tw_sandbox_policy = tm_sandbox_policy t, tw_approval_mode = tm_approval_mode t,
      tw_archived = bool_to_i64 (tm_archived t), tw_archived_at = tm_archived_at t, tw_git_sha = tm_git_sha t,
      tw_git_branch = tm_git_branch t, tw_git_origin_url = tm_git_origin_url t, tw_memory_mode = tm_memory_mode t,
      tw_current_leaf_id = leaf\<rparr>"

text \<open>Reading a nullable integer column; a text or a float is an error of the column's type.\<close>

fun leaf_value :: "leaf_cell \<Rightarrow> string + int option" where
  "leaf_value LeafNull = Inr None"
| "leaf_value (LeafInt i) = Inr (Some i)"
| "leaf_value (LeafText _) = Inl ''Invalid column type Text at index: 21, name: current_leaf_id''"
| "leaf_value (LeafReal _) = Inl ''Invalid column type Real at index: 21, name: current_leaf_id''"

definition row_to_thread :: "thread_row \<Rightarrow> string + thread_metadata" where
  "row_to_thread r =
     (case leaf_value (tw_current_leaf_id r) of
        Inl e \<Rightarrow> Inl e
      | Inr leaf \<Rightarrow> Inr
         \<lparr>tm_id = tw_id r, tm_rollout_path = tw_rollout_path r, tm_preview = tw_preview r,
          tm_ephemeral = i64_to_bool (tw_ephemeral r), tm_model_provider = tw_model_provider r,
          tm_created_at = tw_created_at r, tm_updated_at = tw_updated_at r,
          tm_status = thread_status_from_str (tw_status r), tm_path = tw_path r, tm_cwd = tw_cwd r,
          tm_cli_version = tw_cli_version r, tm_source = session_source_from_str (tw_source r),
          tm_name = tw_title r, tm_sandbox_policy = tw_sandbox_policy r, tm_approval_mode = tw_approval_mode r,
          tm_archived = i64_to_bool (tw_archived r), tm_archived_at = tw_archived_at r, tm_git_sha = tw_git_sha r,
          tm_git_branch = tw_git_branch r, tm_git_origin_url = tw_git_origin_url r,
          tm_memory_mode = tw_memory_mode r, tm_current_leaf_id = leaf\<rparr>)"

definition with_context :: "string \<Rightarrow> string + 'a \<Rightarrow> string + 'a" where
  "with_context context r = (case r of Inl e \<Rightarrow> Inl context | Inr a \<Rightarrow> Inr a)"

definition thread_exists :: "string \<Rightarrow> state_store \<Rightarrow> bool" where
  "thread_exists tid s \<longleftrightarrow> list_ex (\<lambda>r. tw_id r = tid) (st_threads s)"

definition find_thread_row :: "string \<Rightarrow> state_store \<Rightarrow> thread_row option" where
  "find_thread_row tid s = find (\<lambda>r. tw_id r = tid) (st_threads s)"

text \<open>\<open>UPDATE threads SET .. WHERE id = ?1\<close>.\<close>

definition update_thread_rows :: "string \<Rightarrow> (thread_row \<Rightarrow> thread_row) \<Rightarrow> state_store \<Rightarrow> state_store" where
  "update_thread_rows tid f s = s\<lparr>st_threads := map (\<lambda>r. if tw_id r = tid then f r else r) (st_threads s)\<rparr>"

text \<open>The session index: one line of JSON for every update of a thread.\<close>

definition index_entry_to_json :: "session_index_entry \<Rightarrow> json" where
  "index_entry_to_json e =
     JObj [(''thread_id'', JStr (si_thread_id e)), (''thread_name'', json_of_option JStr (si_thread_name e)),
           (''updated_at'', JInt (si_updated_at e)), (''rollout_path'', json_of_option JStr (si_rollout_path e))]"

text \<open>An optional text of a derived \<open>Deserialize\<close>: missing and \<open>null\<close> are \<open>None\<close>, another value an error.\<close>

fun optional_text :: "json option \<Rightarrow> string option option" where
  "optional_text None = Some None"
| "optional_text (Some JNull) = Some None"
| "optional_text (Some (JStr s)) = Some (Some s)"
| "optional_text (Some _) = None"

definition index_entry_of_json :: "json \<Rightarrow> session_index_entry option" where
  "index_entry_of_json v =
     (case (Option.bind (json_get ''thread_id'' v) as_str, optional_text (json_get ''thread_name'' v),
            Option.bind (json_get ''updated_at'' v) as_i64, optional_text (json_get ''rollout_path'' v)) of
        (Some tid, Some name, Some at, Some path) \<Rightarrow>
           Some \<lparr>si_thread_id = tid, si_thread_name = name, si_updated_at = at, si_rollout_path = path\<rparr>
      | _ \<Rightarrow> None)"

definition append_thread_name ::
  "(json \<Rightarrow> string) \<Rightarrow> string \<Rightarrow> string option \<Rightarrow> int \<Rightarrow> string option \<Rightarrow> state_store \<Rightarrow> state_store" where
  "append_thread_name ser tid name at path s =
     s\<lparr>st_index := st_index s
        @ [ser (index_entry_to_json \<lparr>si_thread_id = tid, si_thread_name = name, si_updated_at = at,
                  si_rollout_path = path\<rparr>)]\<rparr>"

definition upsert_thread :: "(json \<Rightarrow> string) \<Rightarrow> thread_metadata \<Rightarrow> state_store \<Rightarrow> state_store" where
  "upsert_thread ser t s =
     append_thread_name ser (tm_id t) (tm_name t) (tm_updated_at t) (tm_rollout_path t)
       (if thread_exists (tm_id t) s
        then update_thread_rows (tm_id t) (\<lambda>r. row_of_thread (tw_current_leaf_id r) t) s
        else s\<lparr>st_threads := st_threads s @ [row_of_thread LeafNull t]\<rparr>)"

definition get_thread :: "string \<Rightarrow> state_store \<Rightarrow> string + thread_metadata option" where
  "get_thread tid s =
     (case find_thread_row tid s of
        None \<Rightarrow> Inr None
      | Some r \<Rightarrow> with_context ''failed to read thread'' (map_sum id Some (row_to_thread r)))"

fun read_threads :: "thread_row list \<Rightarrow> string + thread_metadata list" where
  "read_threads [] = Inr []"
| "read_threads (r # rs) =
     (case row_to_thread r of Inl e \<Rightarrow> Inl e | Inr t \<Rightarrow> map_sum id ((#) t) (read_threads rs))"

text \<open>\<open>ORDER BY updated_at DESC\<close>, rows of equal time in table order.\<close>

definition sql_limit :: "nat option \<Rightarrow> nat \<Rightarrow> nat" where
  "sql_limit limit dflt = (case limit of None \<Rightarrow> dflt | Some n \<Rightarrow> if int n \<le> i64_max then n else dflt)"

definition list_threads :: "bool \<Rightarrow> nat option \<Rightarrow> state_store \<Rightarrow> string + thread_metadata list" where
  "list_threads include_archived limit s =
     read_threads (take (sql_limit limit 50) (sort_key (\<lambda>r. - tw_updated_at r)
       (if include_archived then st_threads s else filter (\<lambda>r. tw_archived r = 0) (st_threads s))))"

definition mark_archived :: "int \<Rightarrow> string \<Rightarrow> state_store \<Rightarrow> state_store" where
  "mark_archived now tid =
     update_thread_rows tid (\<lambda>r. r\<lparr>tw_archived := 1, tw_archived_at := Some now,
       tw_status := thread_status_to_str ThreadArchived\<rparr>)"

definition mark_unarchived :: "string \<Rightarrow> state_store \<Rightarrow> state_store" where
  "mark_unarchived tid = update_thread_rows tid (\<lambda>r. r\<lparr>tw_archived := 0, tw_archived_at := None\<rparr>)"

text \<open>The delete cascades to every table that references the thread.\<close>

definition delete_thread :: "string \<Rightarrow> state_store \<Rightarrow> state_store" where
  "delete_thread tid s =
     s\<lparr>st_threads := filter (\<lambda>r. tw_id r \<noteq> tid) (st_threads s),
       st_messages := filter (\<lambda>m. mw_thread_id m \<noteq> tid) (st_messages s),
       st_checkpoints := filter (\<lambda>c. cw_thread_id c \<noteq> tid) (st_checkpoints s),
       st_tools := filter (\<lambda>d. ow_thread_id d \<noteq> tid) (st_tools s),
       st_goals := filter (\<lambda>g. gw_thread_id g \<noteq> tid) (st_goals s)\<rparr>"

definition set_thread_memory_mode :: "string \<Rightarrow> string option \<Rightarrow> state_store \<Rightarrow> state_store" where
  "set_thread_memory_mode tid mode = update_thread_rows tid (\<lambda>r. r\<lparr>tw_memory_mode := mode\<rparr>)"

definition get_thread_memory_mode :: "string \<Rightarrow> state_store \<Rightarrow> string option" where
  "get_thread_memory_mode tid s = Option.bind (find_thread_row tid s) tw_memory_mode"

definition find_rollout_path_by_id :: "string \<Rightarrow> state_store \<Rightarrow> string option" where
  "find_rollout_path_by_id tid s = Option.bind (find_thread_row tid s) tw_rollout_path"

section \<open>The session index\<close>

fun session_index_from ::
  "(string \<Rightarrow> json option) \<Rightarrow> string list \<Rightarrow> (string \<rightharpoonup> session_index_entry) \<Rightarrow> string + (string \<rightharpoonup> session_index_entry)" where
  "session_index_from de [] latest = Inr latest"
| "session_index_from de (line # rest) latest =
     (if trim line = [] then session_index_from de rest latest
      else (case Option.bind (de line) index_entry_of_json of
              None \<Rightarrow> Inl ''failed to parse session index entry''
            | Some e \<Rightarrow> session_index_from de rest (latest(si_thread_id e \<mapsto> e))))"

definition session_index_map ::
  "(string \<Rightarrow> json option) \<Rightarrow> state_store \<Rightarrow> string + (string \<rightharpoonup> session_index_entry)" where
  "session_index_map de s = session_index_from de (st_index s) Map.empty"

definition find_thread_name_by_id :: "(string \<Rightarrow> json option) \<Rightarrow> string \<Rightarrow> state_store \<Rightarrow> string + string option" where
  "find_thread_name_by_id de tid s = map_sum id (\<lambda>m. Option.bind (m tid) si_thread_name) (session_index_map de s)"

definition find_thread_names_by_ids ::
  "(string \<Rightarrow> json option) \<Rightarrow> string list \<Rightarrow> state_store \<Rightarrow> string + (string \<rightharpoonup> string option)" where
  "find_thread_names_by_ids de ids s =
     map_sum id (\<lambda>m. foldl (\<lambda>out tid. out(tid \<mapsto> Option.bind (m tid) si_thread_name)) Map.empty ids)
       (session_index_map de s)"

text \<open>
  \<open>last_max_by_key\<close> over the values of a hash map: the last of the greatest in the order of iteration, which is the
  parameter \<open>order\<close>.
\<close>

fun last_max_by_key :: "('a \<Rightarrow> int) \<Rightarrow> 'a list \<Rightarrow> 'a option" where
  "last_max_by_key k [] = None"
| "last_max_by_key k (x # xs) =
     (case last_max_by_key k xs of None \<Rightarrow> Some x | Some y \<Rightarrow> if k x \<le> k y then Some y else Some x)"

definition find_thread_path_by_name_str ::
  "(string \<Rightarrow> json option) \<Rightarrow> string list \<Rightarrow> string \<Rightarrow> state_store \<Rightarrow> string + string option" where
  "find_thread_path_by_name_str de order name s =
     map_sum id (\<lambda>m. Option.bind
         (last_max_by_key si_updated_at
            (filter (\<lambda>e. case si_thread_name e of None \<Rightarrow> False | Some n \<Rightarrow> lowercase n = lowercase name)
               (List.map_filter m order)))
         si_rollout_path) (session_index_map de s)"

section \<open>Goals\<close>

text \<open>The sum of a counter column and an integer: exact in 64 bits, else a float.\<close>

fun sql_add :: "(int_cell \<Rightarrow> int \<Rightarrow> int_cell) \<Rightarrow> int_cell \<Rightarrow> int \<Rightarrow> int_cell" where
  "sql_add fsum (IntCell a) d = (if in_i64 (a + d) then IntCell (a + d) else fsum (IntCell a) d)"
| "sql_add fsum (RealCell x) d = fsum (RealCell x) d"

definition row_of_goal :: "thread_goal_record \<Rightarrow> goal_row" where
  "row_of_goal g =
     \<lparr>gw_thread_id = tg_thread_id g, gw_goal_id = tg_goal_id g, gw_objective = tg_objective g,
      gw_status = thread_goal_status_to_str (tg_status g), gw_token_budget = tg_token_budget g,
      gw_tokens_used = IntCell (tg_tokens_used g), gw_time_used_seconds = IntCell (tg_time_used_seconds g),
      gw_continuation_count = IntCell (tg_continuation_count g), gw_created_at = tg_created_at g,
      gw_updated_at = tg_updated_at g\<rparr>"

definition row_to_thread_goal :: "goal_row \<Rightarrow> thread_goal_record option" where
  "row_to_thread_goal r =
     (case (gw_tokens_used r, gw_time_used_seconds r, gw_continuation_count r) of
        (IntCell tokens, IntCell seconds, IntCell continuations) \<Rightarrow> Some
         \<lparr>tg_thread_id = gw_thread_id r, tg_goal_id = gw_goal_id r, tg_objective = gw_objective r,
          tg_status = thread_goal_status_from_str (gw_status r), tg_token_budget = gw_token_budget r,
          tg_tokens_used = tokens, tg_time_used_seconds = seconds, tg_continuation_count = continuations,
          tg_created_at = gw_created_at r, tg_updated_at = gw_updated_at r\<rparr>
      | _ \<Rightarrow> None)"

definition get_thread_goal :: "string \<Rightarrow> state_store \<Rightarrow> string + thread_goal_record option" where
  "get_thread_goal tid s =
     (case find (\<lambda>g. gw_thread_id g = tid) (st_goals s) of
        None \<Rightarrow> Inr None
      | Some r \<Rightarrow>
         (case row_to_thread_goal r of None \<Rightarrow> Inl ''failed to read thread goal'' | Some g \<Rightarrow> Inr (Some g)))"

definition upsert_thread_goal :: "thread_goal_record \<Rightarrow> state_store \<Rightarrow> string + state_store" where
  "upsert_thread_goal g s =
     (if \<not> thread_exists (tg_thread_id g) s then Inl (''thread '' @ tg_thread_id g @ '' not found'')
      else Inr (s\<lparr>st_goals :=
        (if list_ex (\<lambda>r. gw_thread_id r = tg_thread_id g) (st_goals s)
         then map (\<lambda>r. if gw_thread_id r = tg_thread_id g then row_of_goal g else r) (st_goals s)
         else st_goals s @ [row_of_goal g])\<rparr>))"

definition update_goal_rows :: "string \<Rightarrow> (goal_row \<Rightarrow> goal_row) \<Rightarrow> state_store \<Rightarrow> state_store" where
  "update_goal_rows tid f s = s\<lparr>st_goals := map (\<lambda>r. if gw_thread_id r = tid then f r else r) (st_goals s)\<rparr>"

definition goal_exists :: "string \<Rightarrow> state_store \<Rightarrow> bool" where
  "goal_exists tid s \<longleftrightarrow> list_ex (\<lambda>r. gw_thread_id r = tid) (st_goals s)"

definition record_thread_goal_usage ::
  "(int_cell \<Rightarrow> int \<Rightarrow> int_cell) \<Rightarrow> string \<Rightarrow> int \<Rightarrow> int \<Rightarrow> int \<Rightarrow> state_store
     \<Rightarrow> state_store \<times> (string + thread_goal_record option)" where
  "record_thread_goal_usage fsum tid tokens seconds now s =
     (let s' = update_goal_rows tid (\<lambda>r. r\<lparr>gw_tokens_used := sql_add fsum (gw_tokens_used r) tokens,
                 gw_time_used_seconds := sql_add fsum (gw_time_used_seconds r) seconds,
                 gw_updated_at := max (gw_updated_at r) now\<rparr>) s
      in if \<not> goal_exists tid s then (s', Inr None) else (s', get_thread_goal tid s'))"

definition record_thread_goal_continuation ::
  "(int_cell \<Rightarrow> int \<Rightarrow> int_cell) \<Rightarrow> string \<Rightarrow> int \<Rightarrow> state_store
     \<Rightarrow> state_store \<times> (string + thread_goal_record option)" where
  "record_thread_goal_continuation fsum tid now s =
     (let s' = update_goal_rows tid (\<lambda>r. r\<lparr>gw_continuation_count := sql_add fsum (gw_continuation_count r) 1,
                 gw_updated_at := max (gw_updated_at r) now\<rparr>) s
      in if \<not> goal_exists tid s then (s', Inr None) else (s', get_thread_goal tid s'))"

definition delete_thread_goal :: "string \<Rightarrow> state_store \<Rightarrow> state_store \<times> bool" where
  "delete_thread_goal tid s =
     (s\<lparr>st_goals := filter (\<lambda>g. gw_thread_id g \<noteq> tid) (st_goals s)\<rparr>, goal_exists tid s)"

section \<open>Reading back\<close>

lemma row_round_trip:
  "row_to_thread (row_of_thread leaf t) = map_sum id (\<lambda>l. t\<lparr>tm_current_leaf_id := l\<rparr>) (leaf_value leaf)"
  by (cases leaf) (simp_all add: row_to_thread_def row_of_thread_def)

lemma row_of_thread_id [simp]: "tw_id (row_of_thread leaf t) = tm_id t"
  by (simp add: row_of_thread_def)

lemma find_map_update:
  "(\<And>r. idf (f r) = idf r) \<Longrightarrow>
   find (\<lambda>r. idf r = k) (map (\<lambda>r. if idf r = k' then f r else r) rs)
     = (if k = k' then map_option f (find (\<lambda>r. idf r = k) rs) else find (\<lambda>r. idf r = k) rs)"
  by (induction rs) auto

lemma find_append: "find P (xs @ ys) = (case find P xs of None \<Rightarrow> find P ys | Some x \<Rightarrow> Some x)"
  by (induction xs) auto

lemma find_list_ex: "(\<exists>x. find P xs = Some x) \<longleftrightarrow> list_ex P xs"
  by (induction xs) auto

lemma find_none_list_ex: "find P xs = None \<longleftrightarrow> \<not> list_ex P xs"
  by (induction xs) auto

lemma find_filter_ne:
  "find (\<lambda>r. idf r = k) (filter (\<lambda>r. idf r \<noteq> k') rs) = (if k = k' then None else find (\<lambda>r. idf r = k) rs)"
  by (induction rs) auto

lemma find_update_thread_rows:
  "(\<And>r. tw_id (f r) = tw_id r) \<Longrightarrow>
   find_thread_row tid (update_thread_rows tid' f s)
     = (if tid = tid' then map_option f (find_thread_row tid s) else find_thread_row tid s)"
  by (simp add: find_thread_row_def update_thread_rows_def find_map_update)

lemma append_thread_name_tables [simp]:
  "st_threads (append_thread_name ser i n a p s) = st_threads s"
  "st_messages (append_thread_name ser i n a p s) = st_messages s"
  "st_message_seq (append_thread_name ser i n a p s) = st_message_seq s"
  "st_checkpoints (append_thread_name ser i n a p s) = st_checkpoints s"
  "st_tools (append_thread_name ser i n a p s) = st_tools s"
  "st_goals (append_thread_name ser i n a p s) = st_goals s"
  by (simp_all add: append_thread_name_def)

lemma find_thread_row_index [simp]:
  "find_thread_row tid (append_thread_name ser i n a p s) = find_thread_row tid s"
  by (simp add: find_thread_row_def append_thread_name_def)

lemma find_upsert:
  "find_thread_row tid (upsert_thread ser t s)
     = (if tid = tm_id t
        then Some (row_of_thread (case find_thread_row tid s of None \<Rightarrow> LeafNull | Some r \<Rightarrow> tw_current_leaf_id r) t)
        else find_thread_row tid s)"
proof (cases "find_thread_row (tm_id t) s")
  case None
  then show ?thesis
    by (simp add: upsert_thread_def thread_exists_def find_thread_row_def find_none_list_ex find_append
        find_none_list_ex [THEN iffD2] split: option.split)
next
  case (Some r)
  then have "thread_exists (tm_id t) s"
    by (auto simp: thread_exists_def find_thread_row_def simp flip: find_list_ex)
  moreover have "find (\<lambda>r. tw_id r = tm_id t)
      (map (\<lambda>r. if tw_id r = tm_id t then row_of_thread (tw_current_leaf_id r) t else r) rs)
      = map_option (\<lambda>r. row_of_thread (tw_current_leaf_id r) t) (find (\<lambda>r. tw_id r = tm_id t) rs)" for rs
    by (induction rs) auto
  moreover have "tid \<noteq> tm_id t \<Longrightarrow> find (\<lambda>r. tw_id r = tid)
      (map (\<lambda>r. if tw_id r = tm_id t then row_of_thread (tw_current_leaf_id r) t else r) rs)
      = find (\<lambda>r. tw_id r = tid) rs" for rs
    by (induction rs) auto
  ultimately show ?thesis
    using Some by (auto simp: upsert_thread_def find_thread_row_def update_thread_rows_def)
qed

section \<open>Threads and the session index\<close>

text \<open>The index rests on the codec and on lines that are not blank.\<close>

definition index_codec :: "(json \<Rightarrow> string) \<Rightarrow> (string \<Rightarrow> json option) \<Rightarrow> bool" where
  "index_codec ser de \<longleftrightarrow> json_codec ser de \<and> (\<forall>v. trim (ser v) \<noteq> [])"

lemma index_entry_round_trip [simp]: "in_i64 (si_updated_at e) \<Longrightarrow> index_entry_of_json (index_entry_to_json e) = Some e"
  by (cases "si_thread_name e"; cases "si_rollout_path e")
    (simp_all add: index_entry_of_json_def index_entry_to_json_def)

lemma json_wf_index_entry: "in_i64 (si_updated_at e) \<Longrightarrow> json_wf (index_entry_to_json e)"
  by (cases "si_thread_name e"; cases "si_rollout_path e")
    (simp_all add: index_entry_to_json_def in_i64_def i64_min_def i64_max_def)

lemma index_line:
  "index_codec ser de \<Longrightarrow> in_i64 (si_updated_at e) \<Longrightarrow>
   Option.bind (de (ser (index_entry_to_json e))) index_entry_of_json = Some e \<and> trim (ser (index_entry_to_json e)) \<noteq> []"
  by (simp add: index_codec_def json_codec_def json_wf_index_entry)

lemma session_index_snoc:
  "session_index_from de (lines @ [line]) latest
     = (case session_index_from de lines latest of
          Inl e \<Rightarrow> Inl e
        | Inr m \<Rightarrow> session_index_from de [line] m)"
  by (induction lines arbitrary: latest) (simp_all split: option.split del: fun_upd_apply)

lemma session_index_append:
  assumes "index_codec ser de" and "in_i64 at" and "session_index_map de s = Inr m"
  shows "session_index_map de (append_thread_name ser tid name at path s)
    = Inr (m(tid \<mapsto> \<lparr>si_thread_id = tid, si_thread_name = name, si_updated_at = at, si_rollout_path = path\<rparr>))"
  using index_line [OF assms(1), of "\<lparr>si_thread_id = tid, si_thread_name = name, si_updated_at = at, si_rollout_path = path\<rparr>"]
    assms(2,3)
  by (simp add: session_index_map_def append_thread_name_def session_index_snoc)

text \<open>The operations that write threads.\<close>

inductive thread_writes :: "(json \<Rightarrow> string) \<Rightarrow> state_store \<Rightarrow> bool" for ser where
  writes_none: "thread_writes ser empty_store"
| writes_upsert: "thread_writes ser s \<Longrightarrow> in_i64 (tm_updated_at t) \<Longrightarrow> thread_writes ser (upsert_thread ser t s)"
| writes_archive: "thread_writes ser s \<Longrightarrow> thread_writes ser (mark_archived now tid s)"
| writes_unarchive: "thread_writes ser s \<Longrightarrow> thread_writes ser (mark_unarchived tid s)"
| writes_memory: "thread_writes ser s \<Longrightarrow> thread_writes ser (set_thread_memory_mode tid mode s)"
| writes_delete: "thread_writes ser s \<Longrightarrow> thread_writes ser (delete_thread tid s)"

definition entry_of_row :: "thread_row \<Rightarrow> session_index_entry" where
  "entry_of_row r = \<lparr>si_thread_id = tw_id r, si_thread_name = tw_title r, si_updated_at = tw_updated_at r,
     si_rollout_path = tw_rollout_path r\<rparr>"

definition index_covers :: "(string \<Rightarrow> json option) \<Rightarrow> state_store \<Rightarrow> bool" where
  "index_covers de s \<longleftrightarrow>
     (\<exists>m. session_index_map de s = Inr m \<and> list_all (\<lambda>r. m (tw_id r) = Some (entry_of_row r)) (st_threads s))"

lemma index_covers_update:
  "(\<And>r. entry_of_row (f r) = entry_of_row r \<and> tw_id (f r) = tw_id r) \<Longrightarrow> index_covers de s \<Longrightarrow>
   index_covers de (update_thread_rows tid f s)"
  by (auto simp: index_covers_def update_thread_rows_def session_index_map_def list_all_iff)

lemma index_covers_upsert:
  assumes "index_codec ser de" and "in_i64 (tm_updated_at t)" and "index_covers de s"
  shows "index_covers de (upsert_thread ser t s)"
proof -
  obtain m where m: "session_index_map de s = Inr m" "list_all (\<lambda>r. m (tw_id r) = Some (entry_of_row r)) (st_threads s)"
    using assms(3) by (auto simp: index_covers_def)
  define e where "e = \<lparr>si_thread_id = tm_id t, si_thread_name = tm_name t, si_updated_at = tm_updated_at t,
    si_rollout_path = tm_rollout_path t\<rparr>"
  have row: "entry_of_row (row_of_thread leaf t) = e" for leaf
    by (simp add: entry_of_row_def row_of_thread_def e_def)
  have same: "session_index_map de (s\<lparr>st_threads := rows\<rparr>) = Inr m" for rows
    using m(1) by (simp add: session_index_map_def)
  have "session_index_map de (upsert_thread ser t s) = Inr (m(tm_id t \<mapsto> e))"
    using session_index_append [OF assms(1,2) same] unfolding e_def
    by (simp add: upsert_thread_def update_thread_rows_def)
  moreover have "list_all (\<lambda>r. (m(tm_id t \<mapsto> e)) (tw_id r) = Some (entry_of_row r)) (st_threads (upsert_thread ser t s))"
    using m(2) by (auto simp: upsert_thread_def update_thread_rows_def list_all_iff row thread_exists_def list_ex_iff)
  ultimately show ?thesis by (auto simp: index_covers_def)
qed

text \<open>
  The session index follows the table: for every thread of the store its last line gives the name, the time and
  the rollout path that the table holds, whatever has been written, archived or deleted.
\<close>

theorem index_follows_the_threads:
  assumes "index_codec ser de" and "thread_writes ser s"
  shows "\<exists>m. session_index_map de s = Inr m \<and>
    list_all (\<lambda>r. m (tw_id r) = Some \<lparr>si_thread_id = tw_id r, si_thread_name = tw_title r,
       si_updated_at = tw_updated_at r, si_rollout_path = tw_rollout_path r\<rparr>) (st_threads s)"
proof -
  have "index_covers de s"
    using assms(2)
  proof (induction rule: thread_writes.induct)
    case writes_none
    then show ?case by (simp add: index_covers_def session_index_map_def empty_store_def)
  next
    case (writes_upsert s t)
    then show ?case using index_covers_upsert [OF assms(1)] by blast
  next
    case (writes_archive s now tid)
    then show ?case unfolding mark_archived_def by (intro index_covers_update) (simp_all add: entry_of_row_def)
  next
    case (writes_unarchive s tid)
    then show ?case unfolding mark_unarchived_def by (intro index_covers_update) (simp_all add: entry_of_row_def)
  next
    case (writes_memory s tid mode)
    then show ?case unfolding set_thread_memory_mode_def by (intro index_covers_update) (simp_all add: entry_of_row_def)
  next
    case (writes_delete s tid)
    then show ?case
      by (auto simp: index_covers_def delete_thread_def session_index_map_def list_all_iff)
  qed
  then show ?thesis by (simp add: index_covers_def entry_of_row_def)
qed

text \<open>A codec with lines that are not blank: a digit, then the number of the value in unary.\<close>

definition line_ser :: "json \<Rightarrow> string" where
  "line_ser v = CHR ''1'' # unary_ser v"

definition line_de :: "string \<Rightarrow> json option" where
  "line_de s = unary_de (tl s)"

lemma index_codec_line: "index_codec line_ser line_de"
proof -
  have "\<not> is_ws CHR ''1''" by (simp add: is_ws_def)
  then have "trim (replicate (Suc n) CHR ''1'') \<noteq> []" for n
    by (simp add: trim_def trim_start_def trim_end_def)
  then have "trim (line_ser v) \<noteq> []" for v by (metis line_ser_def replicate_Suc unary_ser_def)
  then show ?thesis
    using json_codec_unary by (simp add: index_codec_def json_codec_def line_de_def line_ser_def)
qed

definition sample_thread :: thread_metadata where
  "sample_thread =
     \<lparr>tm_id = ''t'', tm_rollout_path = None, tm_preview = ''new'', tm_ephemeral = False, tm_model_provider = ''deepseek'',
      tm_created_at = 10, tm_updated_at = 10, tm_status = ThreadRunning, tm_path = None, tm_cwd = ''/w'',
      tm_cli_version = ''0'', tm_source = SourceInteractive, tm_name = Some ''first'', tm_sandbox_policy = None,
      tm_approval_mode = None, tm_archived = False, tm_archived_at = None, tm_git_sha = None,
      tm_git_branch = None, tm_git_origin_url = None, tm_memory_mode = None, tm_current_leaf_id = None\<rparr>"

theorem index_follows_the_threads_witness:
  "\<exists>m. session_index_map line_de (upsert_thread line_ser sample_thread empty_store) = Inr m"
  using index_follows_the_threads [OF index_codec_line writes_upsert [OF writes_none, of sample_thread]]
  by (auto simp: sample_thread_def in_i64_def i64_min_def i64_max_def)

text \<open>A deleted thread is still found by its name in the index.\<close>

theorem deleted_thread_keeps_its_name:
  "find_thread_name_by_id line_de ''t'' (delete_thread ''t'' (upsert_thread line_ser sample_thread empty_store))
     = Inr (Some ''first'')"
proof -
  have "session_index_map line_de (upsert_thread line_ser sample_thread empty_store) =
      Inr [''t'' \<mapsto> \<lparr>si_thread_id = ''t'', si_thread_name = Some ''first'', si_updated_at = 10, si_rollout_path = None\<rparr>]"
    using session_index_append [OF index_codec_line, of 10 "empty_store\<lparr>st_threads := [row_of_thread LeafNull sample_thread]\<rparr>"]
    by (simp add: upsert_thread_def sample_thread_def thread_exists_def empty_store_def session_index_map_def
        in_i64_def i64_min_def i64_max_def)
  then show ?thesis by (simp add: find_thread_name_by_id_def delete_thread_def session_index_map_def)
qed

text \<open>
  What is written to a thread is read back, and nothing else is changed: every other thread, and of this one the
  leaf its messages have reached.
\<close>

theorem thread_is_read_back:
  "get_thread tid (upsert_thread ser t s)
     = (if tid = tm_id t
        then (case find_thread_row tid s of
                None \<Rightarrow> Inr (Some (t\<lparr>tm_current_leaf_id := None\<rparr>))
              | Some r \<Rightarrow> with_context ''failed to read thread''
                  (map_sum id (\<lambda>leaf. Some (t\<lparr>tm_current_leaf_id := leaf\<rparr>)) (leaf_value (tw_current_leaf_id r))))
        else get_thread tid s)"
proof (cases "find_thread_row (tm_id t) s")
  case None
  then show ?thesis
    by (auto simp: get_thread_def find_upsert row_round_trip with_context_def)
next
  case (Some r)
  then show ?thesis
    by (cases "tw_current_leaf_id r") (auto simp: get_thread_def find_upsert row_round_trip with_context_def)
qed

section \<open>Goal accounting\<close>

text \<open>Usage recorded one after the other: tokens, seconds and the time of the record.\<close>

definition record_usages ::
  "(int_cell \<Rightarrow> int \<Rightarrow> int_cell) \<Rightarrow> string \<Rightarrow> (int \<times> int \<times> int) list \<Rightarrow> state_store \<Rightarrow> state_store" where
  "record_usages fsum tid us s =
     foldl (\<lambda>s (tokens, seconds, now). fst (record_thread_goal_usage fsum tid tokens seconds now s)) s us"

lemma find_goal_update:
  "find (\<lambda>g. gw_thread_id g = tid) (st_goals (update_goal_rows tid' f s))
     = (if tid = tid' then map_option f (find (\<lambda>g. gw_thread_id g = tid) (st_goals s))
        else find (\<lambda>g. gw_thread_id g = tid) (st_goals s))"
  if "\<And>r. gw_thread_id (f r) = gw_thread_id r"
  using that by (simp add: update_goal_rows_def find_map_update)

lemma usage_row:
  "find (\<lambda>g. gw_thread_id g = tid) (st_goals (fst (record_thread_goal_usage fsum tid tokens seconds now s)))
     = map_option (\<lambda>r. r\<lparr>gw_tokens_used := sql_add fsum (gw_tokens_used r) tokens,
         gw_time_used_seconds := sql_add fsum (gw_time_used_seconds r) seconds,
         gw_updated_at := max (gw_updated_at r) now\<rparr>) (find (\<lambda>g. gw_thread_id g = tid) (st_goals s))"
  by (simp add: record_thread_goal_usage_def Let_def find_goal_update)

lemma usages_row:
  assumes "find (\<lambda>g. gw_thread_id g = tid) (st_goals s) = Some r"
    and "gw_tokens_used r = IntCell a" and "gw_time_used_seconds r = IntCell b" and "0 \<le> a" "0 \<le> b"
    and "list_all (\<lambda>(tokens, seconds, now). 0 \<le> tokens \<and> 0 \<le> seconds) us"
    and "a + (\<Sum>u\<leftarrow>us. fst u) \<le> i64_max" and "b + (\<Sum>u\<leftarrow>us. fst (snd u)) \<le> i64_max"
  shows "find (\<lambda>g. gw_thread_id g = tid) (st_goals (record_usages fsum tid us s))
    = Some (r\<lparr>gw_tokens_used := IntCell (a + (\<Sum>u\<leftarrow>us. fst u)),
        gw_time_used_seconds := IntCell (b + (\<Sum>u\<leftarrow>us. fst (snd u))),
        gw_updated_at := foldl max (gw_updated_at r) (map (\<lambda>u. snd (snd u)) us)\<rparr>)"
  using assms
proof (induction us arbitrary: s r a b)
  case Nil
  then show ?case by (simp add: record_usages_def)
next
  case (Cons u us)
  obtain tokens seconds now where u: "u = (tokens, seconds, now)" by (cases u) auto
  let ?s = "fst (record_thread_goal_usage fsum tid tokens seconds now s)"
  let ?r = "r\<lparr>gw_tokens_used := IntCell (a + tokens), gw_time_used_seconds := IntCell (b + seconds),
      gw_updated_at := max (gw_updated_at r) now\<rparr>"
  have "list_all (\<lambda>u. 0 \<le> fst u \<and> 0 \<le> fst (snd u)) us"
    using Cons.prems(6) by (auto simp: list_all_iff)
  then have sums: "0 \<le> (\<Sum>u\<leftarrow>us. fst u)" "0 \<le> (\<Sum>u\<leftarrow>us. fst (snd u))"
    by (induction us) auto
  then have range: "in_i64 (a + tokens)" "in_i64 (b + seconds)"
    using Cons.prems(4-8) by (auto simp: u in_i64_def i64_min_def)
  have "find (\<lambda>g. gw_thread_id g = tid) (st_goals ?s) = Some ?r"
    using Cons.prems(1-3) range by (simp add: usage_row)
  from Cons.IH [OF this] show ?case
    using Cons.prems(4-8) by (simp add: record_usages_def u algebra_simps)
qed

text \<open>
  The accounting of a goal adds up: after any usage recorded on it, its counters have grown by exactly the sums
  and its time of update is the latest ever given, in whatever order the records came; nothing else of it changed.
\<close>

theorem goal_usage_adds_up:
  assumes "get_thread_goal tid s = Inr (Some g)" and "0 \<le> tg_tokens_used g" and "0 \<le> tg_time_used_seconds g"
    and "list_all (\<lambda>(tokens, seconds, now). 0 \<le> tokens \<and> 0 \<le> seconds) us"
    and "tg_tokens_used g + (\<Sum>u\<leftarrow>us. fst u) \<le> i64_max"
    and "tg_time_used_seconds g + (\<Sum>u\<leftarrow>us. fst (snd u)) \<le> i64_max"
  shows "get_thread_goal tid (record_usages fsum tid us s)
    = Inr (Some (g\<lparr>tg_tokens_used := tg_tokens_used g + (\<Sum>u\<leftarrow>us. fst u),
        tg_time_used_seconds := tg_time_used_seconds g + (\<Sum>u\<leftarrow>us. fst (snd u)),
        tg_updated_at := foldl max (tg_updated_at g) (map (\<lambda>u. snd (snd u)) us)\<rparr>))"
proof -
  obtain r where r: "find (\<lambda>g. gw_thread_id g = tid) (st_goals s) = Some r" "row_to_thread_goal r = Some g"
    using assms(1) by (auto simp: get_thread_goal_def split: option.splits)
  obtain a b c where cells: "gw_tokens_used r = IntCell a" "gw_time_used_seconds r = IntCell b"
      "gw_continuation_count r = IntCell c"
    using r(2) by (auto simp: row_to_thread_goal_def split: int_cell.splits)
  have g: "tg_tokens_used g = a" "tg_time_used_seconds g = b"
    using r(2) cells by (auto simp: row_to_thread_goal_def)
  from usages_row [OF r(1) cells(1,2) _ _ assms(4), where fsum = fsum] assms(2,3,5,6) r(2) cells
  show ?thesis by (auto simp: get_thread_goal_def row_to_thread_goal_def g)
qed

definition sample_goal :: thread_goal_record where
  "sample_goal = \<lparr>tg_thread_id = ''t'', tg_goal_id = ''goal-1'', tg_objective = ''ship'', tg_status = StActive,
     tg_token_budget = None, tg_tokens_used = 7, tg_time_used_seconds = 11, tg_continuation_count = 0,
     tg_created_at = 100, tg_updated_at = 101\<rparr>"

definition sample_store :: state_store where
  "sample_store = (upsert_thread (\<lambda>v. []) sample_thread empty_store)\<lparr>st_goals := [row_of_goal sample_goal]\<rparr>"

theorem goal_usage_adds_up_witness:
  "get_thread_goal ''t'' (record_usages (\<lambda>c d. c) ''t'' [(5, 2, 90), (1, 0, 120)] sample_store)
     = Inr (Some (sample_goal\<lparr>tg_tokens_used := 13, tg_time_used_seconds := 13, tg_updated_at := 120\<rparr>))"
proof -
  have "get_thread_goal ''t'' sample_store = Inr (Some sample_goal)" by code_simp
  from goal_usage_adds_up [OF this, of "[(5, 2, 90), (1, 0, 120)]" "\<lambda>c d. c"] show ?thesis
    by (simp add: sample_goal_def i64_max_def)
qed

text \<open>A sum beyond 64 bits turns a counter into a float, and the goal cannot be read from then on.\<close>

theorem overflowing_usage_hides_the_goal:
  "snd (record_thread_goal_usage (\<lambda>c d. RealCell 0) ''t'' (2 ^ 63 - 1) 0 120 sample_store)
     = Inl ''failed to read thread goal''"
  by code_simp

text \<open>A thread that is taken out of the archive keeps the status of the archive.\<close>

theorem unarchived_thread_keeps_its_status:
  "case get_thread ''t'' (mark_unarchived ''t'' (mark_archived 20 ''t'' sample_store)) of
     Inr (Some t) \<Rightarrow> \<not> tm_archived t \<and> tm_status t = ThreadArchived
   | _ \<Rightarrow> False"
  by code_simp

end
