(* ===== verification/Message_Tree.thy ===== *)
theory Message_Tree
  imports Thread_Store
begin

text \<open>
  \<open>crates/state/src/lib.rs\<close>: messages, checkpoints and dynamic tools. The messages of a thread form a tree by
  their parents; the thread points at the leaf of the branch it is on. \<open>numeric\<close> is what SQLite makes of a text in an
  INTEGER column or in a comparison with one. A transaction is one step: when a statement of it fails, nothing
  changes.
\<close>

section \<open>Messages\<close>

record message_record =
  mg_id :: int
  mg_thread_id :: string
  mg_role :: string
  mg_content :: string
  mg_item :: "json option"
  mg_created_at :: int
  mg_parent_entry_id :: "int option"

definition message_of_row :: "(string \<Rightarrow> json option) \<Rightarrow> message_row \<Rightarrow> message_record option" where
  "message_of_row de r =
     (case mw_item_json r of
        None \<Rightarrow> Some \<lparr>mg_id = mw_id r, mg_thread_id = mw_thread_id r, mg_role = mw_role r,
                    mg_content = mw_content r, mg_item = None, mg_created_at = mw_created_at r,
                    mg_parent_entry_id = mw_parent r\<rparr>
      | Some text \<Rightarrow> map_option (\<lambda>item.
                  \<lparr>mg_id = mw_id r, mg_thread_id = mw_thread_id r, mg_role = mw_role r,
                    mg_content = mw_content r, mg_item = Some item, mg_created_at = mw_created_at r,
                    mg_parent_entry_id = mw_parent r\<rparr>) (de text))"

fun messages_of_rows :: "(string \<Rightarrow> json option) \<Rightarrow> message_row list \<Rightarrow> message_record list option" where
  "messages_of_rows de [] = Some []"
| "messages_of_rows de (r # rs) =
     (case message_of_row de r of None \<Rightarrow> None | Some m \<Rightarrow> map_option ((#) m) (messages_of_rows de rs))"

definition parsed_messages ::
  "(string \<Rightarrow> json option) \<Rightarrow> string \<Rightarrow> message_row list \<Rightarrow> string + message_record list" where
  "parsed_messages de tid rs =
     (case messages_of_rows de rs of
        None \<Rightarrow> Inl (''failed to parse message item json in thread '' @ tid)
      | Some ms \<Rightarrow> Inr ms)"

definition set_leaf :: "string \<Rightarrow> leaf_cell \<Rightarrow> state_store \<Rightarrow> state_store" where
  "set_leaf tid leaf = update_thread_rows tid (\<lambda>r. r\<lparr>tw_current_leaf_id := leaf\<rparr>)"

text \<open>
  The insert and the update of the leaf that \<open>append_message\<close> and \<open>fork_at_message\<close> share: the id is one more than
  every id given out before, and there is none after the last of 64 bits.
\<close>

definition add_message ::
  "(json \<Rightarrow> string) \<Rightarrow> int \<Rightarrow> string \<Rightarrow> string \<Rightarrow> string \<Rightarrow> json option \<Rightarrow> int option \<Rightarrow> state_store
     \<Rightarrow> (state_store \<times> int) option" where
  "add_message ser now tid role content item parent s =
     (if st_message_seq s \<ge> i64_max then None
      else (let mid = st_message_seq s + 1;
                row = \<lparr>mw_id = mid, mw_thread_id = tid, mw_role = role, mw_content = content,
                       mw_item_json = map_option ser item, mw_created_at = now, mw_parent = parent\<rparr>
            in Some (set_leaf tid (LeafInt mid)
                       (s\<lparr>st_messages := st_messages s @ [row], st_message_seq := mid\<rparr>), mid)))"

definition append_message ::
  "(json \<Rightarrow> string) \<Rightarrow> int \<Rightarrow> string \<Rightarrow> string \<Rightarrow> string \<Rightarrow> json option \<Rightarrow> state_store
     \<Rightarrow> string + (state_store \<times> int)" where
  "append_message ser now tid role content item s =
     (case find_thread_row tid s of
        None \<Rightarrow> Inl (''failed to query thread current leaf id for thread '' @ tid)
      | Some r \<Rightarrow>
         (case leaf_value (tw_current_leaf_id r) of
            Inl e \<Rightarrow> Inl (''failed to query thread current leaf id for thread '' @ tid)
          | Inr leaf \<Rightarrow>
             (case add_message ser now tid role content item leaf s of
                None \<Rightarrow> Inl (''failed to append message for thread '' @ tid)
              | Some r \<Rightarrow> Inr r)))"

definition find_message :: "int \<Rightarrow> message_row list \<Rightarrow> message_row option" where
  "find_message mid ms = find (\<lambda>m. mw_id m = mid) ms"

text \<open>The thread of a message exists (a foreign key), so the insert cannot fail for want of it.\<close>

definition fork_at_message ::
  "(json \<Rightarrow> string) \<Rightarrow> (string \<Rightarrow> leaf_cell) \<Rightarrow> int \<Rightarrow> string \<Rightarrow> string \<Rightarrow> string \<Rightarrow> json option \<Rightarrow> state_store
     \<Rightarrow> string + (state_store \<times> int)" where
  "fork_at_message ser numeric now message_id role content item s =
     (case (case numeric message_id of LeafInt i \<Rightarrow> find_message i (st_messages s) | _ \<Rightarrow> None) of
        None \<Rightarrow> Inl (''failed to query thread id for message '' @ message_id)
      | Some m \<Rightarrow>
         (case add_message ser now (mw_thread_id m) role content item (Some (mw_id m)) s of
            None \<Rightarrow> Inl (''failed to fork at message for thread '' @ [CHR 0x22] @ mw_thread_id m @ [CHR 0x22])
          | Some r \<Rightarrow> Inr r))"

text \<open>
  The recursive query: the message with the id and, for at most \<open>k\<close> steps, its parents. The ids are joined alone,
  whatever thread a message belongs to.
\<close>

fun ancestors :: "message_row list \<Rightarrow> nat \<Rightarrow> int option \<Rightarrow> message_row list" where
  "ancestors ms k None = []"
| "ancestors ms 0 (Some i) = (case find_message i ms of None \<Rightarrow> [] | Some m \<Rightarrow> [m])"
| "ancestors ms (Suc k) (Some i) =
     (case find_message i ms of None \<Rightarrow> [] | Some m \<Rightarrow> m # ancestors ms k (mw_parent m))"

fun leaf_id :: "leaf_cell \<Rightarrow> int option" where
  "leaf_id (LeafInt i) = Some i"
| "leaf_id _ = None"

definition branch_rows :: "string \<Rightarrow> nat option \<Rightarrow> state_store \<Rightarrow> message_row list" where
  "branch_rows tid limit s =
     rev (ancestors (st_messages s) (sql_limit limit 500 - 1)
            (Option.bind (find_thread_row tid s) (\<lambda>r. leaf_id (tw_current_leaf_id r))))"

definition list_messages ::
  "(string \<Rightarrow> json option) \<Rightarrow> string \<Rightarrow> nat option \<Rightarrow> state_store \<Rightarrow> string + message_record list" where
  "list_messages de tid limit s = parsed_messages de tid (branch_rows tid limit s)"

definition leaf_rows :: "string \<Rightarrow> state_store \<Rightarrow> message_row list" where
  "leaf_rows tid s =
     filter (\<lambda>m. mw_thread_id m = tid \<and> \<not> list_ex (\<lambda>c. mw_parent c = Some (mw_id m)) (st_messages s)) (st_messages s)"

definition list_leaf_messages ::
  "(string \<Rightarrow> json option) \<Rightarrow> string \<Rightarrow> state_store \<Rightarrow> string + message_record list" where
  "list_leaf_messages de tid s = parsed_messages de tid (leaf_rows tid s)"

definition set_current_leaf_id :: "(string \<Rightarrow> leaf_cell) \<Rightarrow> string \<Rightarrow> string \<Rightarrow> state_store \<Rightarrow> state_store" where
  "set_current_leaf_id numeric tid leaf = set_leaf tid (numeric leaf)"

definition clear_messages :: "string \<Rightarrow> state_store \<Rightarrow> state_store \<times> nat" where
  "clear_messages tid s =
     ((set_leaf tid LeafNull s)\<lparr>st_messages := filter (\<lambda>m. mw_thread_id m \<noteq> tid) (st_messages s)\<rparr>,
      length (filter (\<lambda>m. mw_thread_id m = tid) (st_messages s)))"

section \<open>Checkpoints and tools\<close>

record checkpoint_record =
  cp_thread_id :: string
  cp_checkpoint_id :: string
  cp_state :: json
  cp_created_at :: int

record dynamic_tool =
  dt_position :: int
  dt_name :: string
  dt_description :: "string option"
  dt_input_schema :: json

definition checkpoint_of_row :: "(string \<Rightarrow> json option) \<Rightarrow> checkpoint_row \<Rightarrow> checkpoint_record" where
  "checkpoint_of_row de r =
     \<lparr>cp_thread_id = cw_thread_id r, cp_checkpoint_id = cw_checkpoint_id r,
      cp_state = (case de (cw_state_json r) of None \<Rightarrow> JNull | Some v \<Rightarrow> v), cp_created_at = cw_created_at r\<rparr>"

definition checkpoint_key :: "checkpoint_row \<Rightarrow> string \<times> string" where
  "checkpoint_key r = (cw_thread_id r, cw_checkpoint_id r)"

definition save_checkpoint ::
  "(json \<Rightarrow> string) \<Rightarrow> int \<Rightarrow> string \<Rightarrow> string \<Rightarrow> json \<Rightarrow> state_store \<Rightarrow> string + state_store" where
  "save_checkpoint ser now tid cid v s =
     (if \<not> thread_exists tid s then Inl (''failed to save checkpoint '' @ cid @ '' for thread '' @ tid)
      else Inr (s\<lparr>st_checkpoints :=
        (if list_ex (\<lambda>r. checkpoint_key r = (tid, cid)) (st_checkpoints s)
         then map (\<lambda>r. if checkpoint_key r = (tid, cid) then r\<lparr>cw_state_json := ser v, cw_created_at := now\<rparr> else r)
                (st_checkpoints s)
         else st_checkpoints s @ [\<lparr>cw_thread_id = tid, cw_checkpoint_id = cid, cw_state_json = ser v,
                                   cw_created_at = now\<rparr>])\<rparr>))"

text \<open>\<open>ORDER BY created_at DESC\<close>, rows of equal time in table order.\<close>

definition checkpoints_of :: "string \<Rightarrow> state_store \<Rightarrow> checkpoint_row list" where
  "checkpoints_of tid s = sort_key (\<lambda>r. - cw_created_at r) (filter (\<lambda>r. cw_thread_id r = tid) (st_checkpoints s))"

definition load_checkpoint ::
  "(string \<Rightarrow> json option) \<Rightarrow> string \<Rightarrow> string option \<Rightarrow> state_store \<Rightarrow> checkpoint_record option" where
  "load_checkpoint de tid checkpoint_id s =
     (case checkpoint_id of
        Some cid \<Rightarrow> map_option (checkpoint_of_row de) (find (\<lambda>r. checkpoint_key r = (tid, cid)) (st_checkpoints s))
      | None \<Rightarrow> (case checkpoints_of tid s of [] \<Rightarrow> None | r # _ \<Rightarrow> Some (checkpoint_of_row de r)))"

definition list_checkpoints ::
  "(string \<Rightarrow> json option) \<Rightarrow> string \<Rightarrow> nat option \<Rightarrow> state_store \<Rightarrow> checkpoint_record list" where
  "list_checkpoints de tid limit s = map (checkpoint_of_row de) (take (sql_limit limit 100) (checkpoints_of tid s))"

definition delete_checkpoint :: "string \<Rightarrow> string \<Rightarrow> state_store \<Rightarrow> state_store" where
  "delete_checkpoint tid cid s =
     s\<lparr>st_checkpoints := filter (\<lambda>r. checkpoint_key r \<noteq> (tid, cid)) (st_checkpoints s)\<rparr>"

text \<open>One insert: it fails without the thread and at a position that is taken.\<close>

fun insert_tools ::
  "(json \<Rightarrow> string) \<Rightarrow> string \<Rightarrow> dynamic_tool list \<Rightarrow> state_store \<Rightarrow> string + state_store" where
  "insert_tools ser tid [] s = Inr s"
| "insert_tools ser tid (t # ts) s =
     (if \<not> thread_exists tid s \<or> list_ex (\<lambda>r. ow_thread_id r = tid \<and> ow_position r = dt_position t) (st_tools s)
      then Inl (''failed to persist dynamic tool '' @ dt_name t)
      else insert_tools ser tid ts (s\<lparr>st_tools := st_tools s
             @ [\<lparr>ow_thread_id = tid, ow_position = dt_position t, ow_name = dt_name t,
                  ow_description = dt_description t, ow_input_schema = ser (dt_input_schema t)\<rparr>]\<rparr>))"

definition persist_dynamic_tools ::
  "(json \<Rightarrow> string) \<Rightarrow> string \<Rightarrow> dynamic_tool list \<Rightarrow> state_store \<Rightarrow> string + state_store" where
  "persist_dynamic_tools ser tid ts s =
     insert_tools ser tid ts (s\<lparr>st_tools := filter (\<lambda>r. ow_thread_id r \<noteq> tid) (st_tools s)\<rparr>)"

fun tools_of_rows :: "(string \<Rightarrow> json option) \<Rightarrow> string \<Rightarrow> tool_row list \<Rightarrow> string + dynamic_tool list" where
  "tools_of_rows de tid [] = Inr []"
| "tools_of_rows de tid (r # rs) =
     (case de (ow_input_schema r) of
        None \<Rightarrow> Inl (''failed to parse input schema for dynamic tool in thread '' @ tid)
      | Some schema \<Rightarrow> map_sum id ((#) \<lparr>dt_position = ow_position r, dt_name = ow_name r,
             dt_description = ow_description r, dt_input_schema = schema\<rparr>) (tools_of_rows de tid rs))"

definition get_dynamic_tools :: "(string \<Rightarrow> json option) \<Rightarrow> string \<Rightarrow> state_store \<Rightarrow> string + dynamic_tool list" where
  "get_dynamic_tools de tid s =
     tools_of_rows de tid (sort_key ow_position (filter (\<lambda>r. ow_thread_id r = tid) (st_tools s)))"

section \<open>Integrity of the store\<close>

text \<open>
  The operations of the store, with what they are given. A leaf is set to an id that was given out, or cleared by
  a text that is none; what happens otherwise is shown below.
\<close>

fun leaf_given :: "int \<Rightarrow> leaf_cell \<Rightarrow> bool" where
  "leaf_given n (LeafInt i) \<longleftrightarrow> i \<le> n"
| "leaf_given n _ \<longleftrightarrow> True"

fun parent_below :: "int \<Rightarrow> int option \<Rightarrow> bool" where
  "parent_below n None \<longleftrightarrow> True"
| "parent_below n (Some p) \<longleftrightarrow> p < n"

lemma leaf_given_mono: "leaf_given n leaf \<Longrightarrow> n \<le> k \<Longrightarrow> leaf_given k leaf"
  by (cases leaf) simp_all

inductive store_step ::
  "(json \<Rightarrow> string) \<Rightarrow> (string \<Rightarrow> leaf_cell) \<Rightarrow> (int_cell \<Rightarrow> int \<Rightarrow> int_cell) \<Rightarrow> state_store \<Rightarrow> state_store \<Rightarrow> bool"
  for ser numeric fsum where
  step_upsert: "store_step ser numeric fsum s (upsert_thread ser t s)"
| step_archive: "store_step ser numeric fsum s (mark_archived now tid s)"
| step_unarchive: "store_step ser numeric fsum s (mark_unarchived tid s)"
| step_delete: "store_step ser numeric fsum s (delete_thread tid s)"
| step_memory: "store_step ser numeric fsum s (set_thread_memory_mode tid mode s)"
| step_goal: "upsert_thread_goal g s = Inr s' \<Longrightarrow> store_step ser numeric fsum s s'"
| step_usage: "store_step ser numeric fsum s (fst (record_thread_goal_usage fsum tid tokens seconds now s))"
| step_continuation: "store_step ser numeric fsum s (fst (record_thread_goal_continuation fsum tid now s))"
| step_drop_goal: "store_step ser numeric fsum s (fst (delete_thread_goal tid s))"
| step_append: "append_message ser now tid role content item s = Inr (s', mid) \<Longrightarrow> store_step ser numeric fsum s s'"
| step_fork: "fork_at_message ser numeric now message_id role content item s = Inr (s', mid) \<Longrightarrow>
     store_step ser numeric fsum s s'"
| step_leaf: "leaf_given (st_message_seq s) (numeric leaf) \<Longrightarrow>
     store_step ser numeric fsum s (set_current_leaf_id numeric tid leaf s)"
| step_clear: "store_step ser numeric fsum s (fst (clear_messages tid s))"
| step_checkpoint: "save_checkpoint ser now tid cid v s = Inr s' \<Longrightarrow> store_step ser numeric fsum s s'"
| step_drop_checkpoint: "store_step ser numeric fsum s (delete_checkpoint tid cid s)"
| step_tools: "persist_dynamic_tools ser tid ts s = Inr s' \<Longrightarrow> store_step ser numeric fsum s s'"
| step_name: "store_step ser numeric fsum s (append_thread_name ser tid name at path s)"

inductive store_reachable ::
  "(json \<Rightarrow> string) \<Rightarrow> (string \<Rightarrow> leaf_cell) \<Rightarrow> (int_cell \<Rightarrow> int \<Rightarrow> int_cell) \<Rightarrow> state_store \<Rightarrow> bool"
  for ser numeric fsum where
  reach_empty: "store_reachable ser numeric fsum empty_store"
| reach_step: "store_reachable ser numeric fsum s \<Longrightarrow> store_step ser numeric fsum s s' \<Longrightarrow>
     store_reachable ser numeric fsum s'"

text \<open>Every row of the other tables belongs to a thread, and keys are unique.\<close>

definition thread_ids :: "state_store \<Rightarrow> string set" where
  "thread_ids s = tw_id ` set (st_threads s)"

definition tool_key :: "tool_row \<Rightarrow> string \<times> int" where
  "tool_key r = (ow_thread_id r, ow_position r)"

definition refs_ok :: "state_store \<Rightarrow> bool" where
  "refs_ok s \<longleftrightarrow>
     mw_thread_id ` set (st_messages s) \<subseteq> thread_ids s \<and> cw_thread_id ` set (st_checkpoints s) \<subseteq> thread_ids s \<and>
     ow_thread_id ` set (st_tools s) \<subseteq> thread_ids s \<and> gw_thread_id ` set (st_goals s) \<subseteq> thread_ids s"

definition keys_ok :: "state_store \<Rightarrow> bool" where
  "keys_ok s \<longleftrightarrow>
     distinct (map tw_id (st_threads s)) \<and> distinct (map mw_id (st_messages s)) \<and>
     distinct (map checkpoint_key (st_checkpoints s)) \<and> distinct (map tool_key (st_tools s)) \<and>
     distinct (map gw_thread_id (st_goals s))"

text \<open>Ids and leaves are ids that were given out, and a parent is older than its child.\<close>

definition tree_ok :: "state_store \<Rightarrow> bool" where
  "tree_ok s \<longleftrightarrow>
     list_all (\<lambda>m. 0 < mw_id m \<and> mw_id m \<le> st_message_seq s \<and>
        parent_below (mw_id m) (mw_parent m)) (st_messages s) \<and>
     list_all (\<lambda>r. leaf_given (st_message_seq s) (tw_current_leaf_id r)) (st_threads s) \<and>
     0 \<le> st_message_seq s"

lemma thread_ids_exists: "thread_exists tid s \<longleftrightarrow> tid \<in> thread_ids s"
  by (auto simp: thread_exists_def thread_ids_def list_ex_iff)

lemma update_thread_ids:
  "(\<And>r. tw_id (f r) = tw_id r) \<Longrightarrow> map tw_id (st_threads (update_thread_rows tid f s)) = map tw_id (st_threads s)"
  by (simp add: update_thread_rows_def)

lemma update_thread_tables [simp]:
  "st_messages (update_thread_rows tid f s) = st_messages s"
  "st_message_seq (update_thread_rows tid f s) = st_message_seq s"
  "st_checkpoints (update_thread_rows tid f s) = st_checkpoints s"
  "st_tools (update_thread_rows tid f s) = st_tools s" "st_goals (update_thread_rows tid f s) = st_goals s"
  by (simp_all add: update_thread_rows_def)

text \<open>An update of thread rows that keeps their ids keeps the references and the keys.\<close>

lemma update_keeps_refs:
  assumes "\<And>r. tw_id (f r) = tw_id r"
  shows "thread_ids (update_thread_rows tid f s) = thread_ids s"
    "refs_ok (update_thread_rows tid f s) = refs_ok s" "keys_ok (update_thread_rows tid f s) = keys_ok s"
proof -
  have ids: "map tw_id (st_threads (update_thread_rows tid f s)) = map tw_id (st_threads s)"
    by (rule update_thread_ids) (rule assms)
  show tids: "thread_ids (update_thread_rows tid f s) = thread_ids s"
    using arg_cong [OF ids, of set] by (simp add: thread_ids_def)
  show "refs_ok (update_thread_rows tid f s) = refs_ok s" by (simp add: refs_ok_def tids)
  show "keys_ok (update_thread_rows tid f s) = keys_ok s" by (simp add: keys_ok_def ids)
qed

lemma update_keeps_tree:
  assumes "\<And>r. tw_current_leaf_id (f r) = tw_current_leaf_id r"
  shows "tree_ok s \<Longrightarrow> tree_ok (update_thread_rows tid f s)"
  using assms by (auto simp: tree_ok_def update_thread_rows_def list_all_iff)

lemma index_keeps_all [simp]:
  "refs_ok (append_thread_name ser i n a p s) = refs_ok s" "keys_ok (append_thread_name ser i n a p s) = keys_ok s"
  "tree_ok (append_thread_name ser i n a p s) = tree_ok s"
  by (simp_all add: refs_ok_def keys_ok_def tree_ok_def thread_ids_def)

text \<open>The store, as a whole.\<close>

definition store_ok :: "state_store \<Rightarrow> bool" where
  "store_ok s \<longleftrightarrow> refs_ok s \<and> keys_ok s \<and> tree_ok s"

lemma store_ok_update:
  "(\<And>r. tw_id (f r) = tw_id r) \<Longrightarrow> (\<And>r. tw_current_leaf_id (f r) = tw_current_leaf_id r) \<Longrightarrow>
   store_ok s \<Longrightarrow> store_ok (update_thread_rows tid f s)"
  by (simp add: store_ok_def update_keeps_refs update_keeps_tree)

lemma store_ok_index [simp]: "store_ok (append_thread_name ser i n a p s) = store_ok s"
  by (simp add: store_ok_def)

lemma upsert_update:
  "map (\<lambda>r. if tw_id r = tm_id t then row_of_thread (tw_current_leaf_id r) t else r) rs
     = map (\<lambda>r. if tw_id r = tm_id t then (row_of_thread (tw_current_leaf_id r) t)\<lparr>tw_id := tw_id r\<rparr> else r) rs"
  by (induction rs) (auto simp: row_of_thread_def)

lemma store_ok_upsert: "store_ok s \<Longrightarrow> store_ok (upsert_thread ser t s)"
proof (cases "thread_exists (tm_id t) s")
  case True
  have "update_thread_rows (tm_id t) (\<lambda>r. row_of_thread (tw_current_leaf_id r) t) s
      = update_thread_rows (tm_id t) (\<lambda>r. (row_of_thread (tw_current_leaf_id r) t)\<lparr>tw_id := tw_id r\<rparr>) s"
    by (simp add: update_thread_rows_def upsert_update)
  moreover assume "store_ok s"
  ultimately show ?thesis
    using True by (simp add: upsert_thread_def store_ok_update row_of_thread_def)
next
  case False
  moreover assume "store_ok s"
  ultimately show ?thesis
    by (auto simp: upsert_thread_def store_ok_def refs_ok_def keys_ok_def tree_ok_def thread_ids_def
        thread_ids_exists row_of_thread_def)
qed

lemma store_ok_set_leaf:
  assumes "store_ok s" and "leaf_given (st_message_seq s) leaf"
  shows "store_ok (set_leaf tid leaf s)"
proof -
  have "tree_ok (set_leaf tid leaf s)"
    using assms by (auto simp: store_ok_def tree_ok_def set_leaf_def update_thread_rows_def list_all_iff)
  then show ?thesis using assms(1) by (simp add: store_ok_def set_leaf_def update_keeps_refs)
qed

lemma store_ok_add_message:
  assumes "store_ok s" and "tid \<in> thread_ids s" and "parent_below (st_message_seq s + 1) parent"
    and "add_message ser now tid role content item parent s = Some (s', mid)"
  shows "store_ok s'"
proof -
  define s1 where "s1 = s\<lparr>st_messages := st_messages s
      @ [\<lparr>mw_id = st_message_seq s + 1, mw_thread_id = tid, mw_role = role, mw_content = content,
          mw_item_json = map_option ser item, mw_created_at = now, mw_parent = parent\<rparr>],
      st_message_seq := st_message_seq s + 1\<rparr>"
  have s': "s' = set_leaf tid (LeafInt (st_message_seq s1)) s1"
    using assms(4) by (auto simp: add_message_def s1_def Let_def split: if_splits)
  have "keys_ok s1"
    using assms(1) by (auto simp: s1_def store_ok_def keys_ok_def tree_ok_def list_all_iff)
  moreover have "refs_ok s1"
    using assms(1,2) by (auto simp: s1_def store_ok_def refs_ok_def thread_ids_def)
  moreover have "tree_ok s1"
    using assms(1,3) by (auto simp: s1_def store_ok_def tree_ok_def list_all_iff intro: leaf_given_mono)
  ultimately show ?thesis unfolding s' by (intro store_ok_set_leaf) (simp_all add: store_ok_def)
qed

lemma store_ok_leaf:
  "store_ok s \<Longrightarrow> find_thread_row tid s = Some r \<Longrightarrow>
   leaf_given (st_message_seq s) (tw_current_leaf_id r) \<and> tid \<in> thread_ids s"
  by (auto simp: store_ok_def tree_ok_def find_thread_row_def list_all_iff thread_ids_def find_Some_iff)

lemma leaf_value_below: "leaf_value leaf = Inr parent \<Longrightarrow> leaf_given n leaf \<Longrightarrow> parent_below (n + 1) parent"
  by (cases leaf) auto

lemma append_message_adds:
  assumes "append_message ser now tid role content item s = Inr (s', mid)"
  obtains r parent where "find_thread_row tid s = Some r" "leaf_value (tw_current_leaf_id r) = Inr parent"
    "add_message ser now tid role content item parent s = Some (s', mid)"
  using assms that by (auto simp: append_message_def split: option.splits sum.splits)

lemma find_message_Some: "find_message i ms = Some m \<Longrightarrow> m \<in> set ms \<and> mw_id m = i"
  by (auto simp: find_message_def find_Some_iff)

lemma fork_at_message_adds:
  assumes "fork_at_message ser numeric now message_id role content item s = Inr (s', mid)"
  obtains i m where "numeric message_id = LeafInt i" "find_message i (st_messages s) = Some m"
    "add_message ser now (mw_thread_id m) role content item (Some (mw_id m)) s = Some (s', mid)"
  using assms that by (auto simp: fork_at_message_def split: option.splits leaf_cell.splits)

lemma store_ok_append:
  "store_ok s \<Longrightarrow> append_message ser now tid role content item s = Inr (s', mid) \<Longrightarrow> store_ok s'"
  by (elim append_message_adds) (meson store_ok_add_message store_ok_leaf leaf_value_below)

lemma store_ok_fork:
  assumes "store_ok s" and "fork_at_message ser numeric now message_id role content item s = Inr (s', mid)"
  shows "store_ok s'"
proof -
  from assms(2) obtain i m where m: "find_message i (st_messages s) = Some m"
    and add: "add_message ser now (mw_thread_id m) role content item (Some (mw_id m)) s = Some (s', mid)"
    by (elim fork_at_message_adds)
  have "mw_thread_id m \<in> thread_ids s" "parent_below (st_message_seq s + 1) (Some (mw_id m))"
    using assms(1) find_message_Some [OF m] by (auto simp: store_ok_def refs_ok_def tree_ok_def list_all_iff)
  then show ?thesis using store_ok_add_message [OF assms(1) _ _ add] by blast
qed

text \<open>Rows may be dropped, and the rows of a table that stay keep their keys.\<close>

lemma store_ok_drop:
  assumes "store_ok s"
  shows "store_ok (s\<lparr>st_messages := filter P (st_messages s)\<rparr>)"
    "store_ok (s\<lparr>st_checkpoints := filter Q (st_checkpoints s)\<rparr>)"
    "store_ok (s\<lparr>st_tools := filter T (st_tools s)\<rparr>)" "store_ok (s\<lparr>st_goals := filter G (st_goals s)\<rparr>)"
  using assms
  by (auto simp: store_ok_def refs_ok_def keys_ok_def tree_ok_def thread_ids_def list_all_iff distinct_map_filter)

lemma store_ok_delete: "store_ok s \<Longrightarrow> store_ok (delete_thread tid s)"
  by (auto simp: store_ok_def refs_ok_def keys_ok_def tree_ok_def thread_ids_def list_all_iff delete_thread_def
      distinct_map_filter)

lemma store_ok_clear: "store_ok s \<Longrightarrow> store_ok (fst (clear_messages tid s))"
  using store_ok_drop(1) [OF store_ok_set_leaf [of s LeafNull tid]]
  by (simp add: clear_messages_def set_leaf_def)

lemma map_update_ids:
  "(\<And>r. k (f r) = k r) \<Longrightarrow> map k (map (\<lambda>r. if P r then f r else r) rs) = map k rs"
  by simp

lemma store_ok_goal_rows:
  assumes "store_ok s" "map gw_thread_id gs = map gw_thread_id (st_goals s)"
  shows "store_ok (s\<lparr>st_goals := gs\<rparr>)"
proof -
  have "gw_thread_id ` set gs = gw_thread_id ` set (st_goals s)"
    using arg_cong [OF assms(2), of set] by simp
  then show ?thesis
    using assms by (simp add: store_ok_def refs_ok_def keys_ok_def tree_ok_def thread_ids_def)
qed

lemma store_ok_update_goals:
  "(\<And>r. gw_thread_id (f r) = gw_thread_id r) \<Longrightarrow> store_ok s \<Longrightarrow> store_ok (update_goal_rows tid f s)"
  unfolding update_goal_rows_def by (rule store_ok_goal_rows) simp_all

lemma store_ok_upsert_goal:
  assumes "store_ok s" "upsert_thread_goal g s = Inr s'"
  shows "store_ok s'"
proof (cases "list_ex (\<lambda>r. gw_thread_id r = tg_thread_id g) (st_goals s)")
  case True
  have "map gw_thread_id (map (\<lambda>r. if gw_thread_id r = tg_thread_id g then row_of_goal g else r) (st_goals s))
      = map gw_thread_id (st_goals s)"
    by (simp add: row_of_goal_def)
  then show ?thesis
    using True assms by (auto simp: upsert_thread_goal_def split: if_splits intro!: store_ok_goal_rows)
next
  case False
  then have guard: "tg_thread_id g \<in> thread_ids s" "tg_thread_id g \<notin> gw_thread_id ` set (st_goals s)"
    and s': "s' = s\<lparr>st_goals := st_goals s @ [row_of_goal g]\<rparr>"
    using assms(2) by (auto simp: upsert_thread_goal_def thread_ids_exists list_ex_iff split: if_splits)
  show ?thesis
    using assms(1) guard unfolding s'
    by (simp add: store_ok_def refs_ok_def keys_ok_def tree_ok_def thread_ids_def row_of_goal_def)
qed

lemma store_ok_checkpoint_rows:
  assumes "store_ok s" "map checkpoint_key cs = map checkpoint_key (st_checkpoints s)"
  shows "store_ok (s\<lparr>st_checkpoints := cs\<rparr>)"
proof -
  have "fst ` set (map checkpoint_key cs) = fst ` set (map checkpoint_key (st_checkpoints s))"
    using assms(2) by simp
  then have "cw_thread_id ` set cs = cw_thread_id ` set (st_checkpoints s)"
    by (simp add: image_image checkpoint_key_def)
  then show ?thesis
    using assms by (simp add: store_ok_def refs_ok_def keys_ok_def tree_ok_def thread_ids_def)
qed

lemma store_ok_save_checkpoint:
  assumes "store_ok s" "save_checkpoint ser now tid cid v s = Inr s'"
  shows "store_ok s'"
proof (cases "list_ex (\<lambda>r. checkpoint_key r = (tid, cid)) (st_checkpoints s)")
  case True
  have "map checkpoint_key (map (\<lambda>r. if checkpoint_key r = (tid, cid) then r\<lparr>cw_state_json := ser v, cw_created_at := now\<rparr>
      else r) (st_checkpoints s)) = map checkpoint_key (st_checkpoints s)"
    by (simp add: checkpoint_key_def)
  then show ?thesis
    using True assms by (auto simp: save_checkpoint_def split: if_splits intro!: store_ok_checkpoint_rows)
next
  case False
  then have guard: "tid \<in> thread_ids s" "(tid, cid) \<notin> checkpoint_key ` set (st_checkpoints s)"
    and s': "s' = s\<lparr>st_checkpoints := st_checkpoints s @ [\<lparr>cw_thread_id = tid, cw_checkpoint_id = cid,
        cw_state_json = ser v, cw_created_at = now\<rparr>]\<rparr>"
    using assms(2) by (auto simp: save_checkpoint_def thread_ids_exists list_ex_iff split: if_splits)
  show ?thesis
    using assms(1) guard unfolding s'
    by (simp add: store_ok_def refs_ok_def keys_ok_def tree_ok_def thread_ids_def) (simp add: checkpoint_key_def)
qed

lemma store_ok_insert_tools:
  "store_ok s \<Longrightarrow> insert_tools ser tid ts s = Inr s' \<Longrightarrow> store_ok s'"
proof (induction ts arbitrary: s)
  case (Cons t ts)
  let ?s = "s\<lparr>st_tools := st_tools s @ [\<lparr>ow_thread_id = tid, ow_position = dt_position t, ow_name = dt_name t,
                  ow_description = dt_description t, ow_input_schema = ser (dt_input_schema t)\<rparr>]\<rparr>"
  have guard: "tid \<in> thread_ids s" "(tid, dt_position t) \<notin> tool_key ` set (st_tools s)"
    and rest: "insert_tools ser tid ts ?s = Inr s'"
    using Cons.prems(2) by (auto simp: thread_ids_exists list_ex_iff tool_key_def split: if_splits)
  have "store_ok ?s"
    using Cons.prems(1) guard
    by (simp add: store_ok_def refs_ok_def keys_ok_def tree_ok_def thread_ids_def) (simp add: tool_key_def)
  then show ?case using Cons.IH rest by blast
qed simp

lemma store_ok_step: "store_step ser numeric fsum s s' \<Longrightarrow> store_ok s \<Longrightarrow> store_ok s'"
proof (induction rule: store_step.induct)
  case (step_archive s now tid)
  then show ?case unfolding mark_archived_def by (intro store_ok_update) simp_all
next
  case (step_unarchive s tid)
  then show ?case unfolding mark_unarchived_def by (intro store_ok_update) simp_all
next
  case (step_memory s tid mode)
  then show ?case unfolding set_thread_memory_mode_def by (intro store_ok_update) simp_all
next
  case (step_usage s tid tokens seconds now)
  then show ?case by (simp add: record_thread_goal_usage_def Let_def store_ok_update_goals)
next
  case (step_continuation s tid now)
  then show ?case by (simp add: record_thread_goal_continuation_def Let_def store_ok_update_goals)
next
  case (step_tools tid ts s s')
  then show ?case
    using store_ok_insert_tools [OF store_ok_drop(3)] unfolding persist_dynamic_tools_def by blast
next
  case (step_append now tid role content item s s' mid)
  then show ?case by (blast intro: store_ok_append)
next
  case (step_fork now message_id role content item s s' mid)
  then show ?case by (blast intro: store_ok_fork)
next
  case (step_leaf leaf s tid)
  then show ?case by (simp add: set_current_leaf_id_def store_ok_set_leaf)
next
  case (step_checkpoint now tid cid v s s')
  then show ?case by (blast intro: store_ok_save_checkpoint)
next
  case (step_goal g s s')
  then show ?case by (blast intro: store_ok_upsert_goal)
qed (simp_all add: store_ok_upsert store_ok_delete delete_thread_goal_def store_ok_drop store_ok_clear
    delete_checkpoint_def)

text \<open>
  C10: Whatever operations are run, in whatever order, with leaves set only to ids that were given out or to what is no
  id: every message, checkpoint, tool and goal belongs to a thread of the store, the keys of all five tables are unique,
  and the parent of a message has a smaller id, so the messages are a forest. (A leaf set to an id of the future breaks
  the last, as shown below.)
\<close>

theorem store_keeps_its_references:
  assumes "store_reachable ser numeric fsum s"
  shows "mw_thread_id ` set (st_messages s) \<union> cw_thread_id ` set (st_checkpoints s) \<union> ow_thread_id ` set (st_tools s)
      \<union> gw_thread_id ` set (st_goals s) \<subseteq> tw_id ` set (st_threads s)
    \<and> distinct (map tw_id (st_threads s)) \<and> distinct (map mw_id (st_messages s))
    \<and> distinct (map checkpoint_key (st_checkpoints s)) \<and> distinct (map tool_key (st_tools s))
    \<and> distinct (map gw_thread_id (st_goals s))
    \<and> list_all (\<lambda>m. mw_id m \<le> st_message_seq s \<and> parent_below (mw_id m) (mw_parent m)) (st_messages s)"
proof -
  have "store_ok s"
    using assms
  proof (induction rule: store_reachable.induct)
    case reach_empty
    show ?case
      by (simp add: store_ok_def refs_ok_def keys_ok_def tree_ok_def thread_ids_def empty_store_def)
  next
    case (reach_step s s')
    then show ?case using store_ok_step by blast
  qed
  then show ?thesis
    by (auto simp: store_ok_def refs_ok_def keys_ok_def tree_ok_def thread_ids_def list_all_iff)
qed

lemma store_reachable_ok: "store_reachable ser numeric fsum s \<Longrightarrow> store_ok s"
proof (induction rule: store_reachable.induct)
  case reach_empty
  show ?case by (simp add: store_ok_def refs_ok_def keys_ok_def tree_ok_def thread_ids_def empty_store_def)
next
  case (reach_step s s')
  then show ?case using store_ok_step by blast
qed

section \<open>Branches\<close>

definition new_row :: "(json \<Rightarrow> string) \<Rightarrow> int \<Rightarrow> string \<Rightarrow> string \<Rightarrow> string \<Rightarrow> json option \<Rightarrow> int option \<Rightarrow> int \<Rightarrow> message_row" where
  "new_row ser now tid role content item parent mid =
     \<lparr>mw_id = mid, mw_thread_id = tid, mw_role = role, mw_content = content, mw_item_json = map_option ser item,
      mw_created_at = now, mw_parent = parent\<rparr>"

lemma new_row_fields [simp]:
  "mw_id (new_row ser now tid role content item parent mid) = mid"
  "mw_parent (new_row ser now tid role content item parent mid) = parent"
  by (simp_all add: new_row_def)

lemma add_message_result:
  assumes "add_message ser now tid role content item parent s = Some (s', mid)"
  shows "mid = st_message_seq s + 1" "st_message_seq s' = mid"
    "st_messages s' = st_messages s @ [new_row ser now tid role content item parent mid]"
    "find_thread_row t s' = (if t = tid then map_option (\<lambda>r. r\<lparr>tw_current_leaf_id := LeafInt mid\<rparr>) (find_thread_row t s)
       else find_thread_row t s)"
  using assms
  by (auto simp: add_message_def new_row_def Let_def set_leaf_def find_update_thread_rows split: if_splits)
    (auto simp: find_thread_row_def)

text \<open>A message with a fresh id is on no branch of older ids.\<close>

lemma find_message_append:
  "i \<noteq> mw_id row \<Longrightarrow> find_message i (ms @ [row]) = find_message i ms"
  by (simp add: find_message_def find_append split: option.split)

lemma ancestors_append:
  assumes "\<And>m. m \<in> set ms \<Longrightarrow> mw_id m < mw_id row \<and> parent_below (mw_id m) (mw_parent m)"
    and "parent_below (mw_id row) leaf"
  shows "ancestors (ms @ [row]) k leaf = ancestors ms k leaf"
  using assms(2)
proof (induction k arbitrary: leaf)
  case 0
  then show ?case by (cases leaf) (auto simp: find_message_append)
next
  case (Suc k)
  show ?case
  proof (cases leaf)
    case (Some i)
    show ?thesis
    proof (cases "find_message i ms")
      case None
      then show ?thesis using Suc.prems Some by (simp add: find_message_append)
    next
      case found: (Some m)
      then have "parent_below (mw_id row) (mw_parent m)"
        using assms(1) find_message_Some [OF found] by (cases "mw_parent m") fastforce+
      then show ?thesis using Suc Some found by (simp add: find_message_append)
    qed
  qed simp
qed

lemma find_message_last: "\<forall>m \<in> set ms. mw_id m \<noteq> mw_id row \<Longrightarrow> find_message (mw_id row) (ms @ [row]) = Some row"
  by (induction ms) (auto simp: find_message_def)

lemma store_ok_messages:
  "store_ok s \<Longrightarrow> m \<in> set (st_messages s) \<Longrightarrow>
   mw_id m < st_message_seq s + 1 \<and> parent_below (mw_id m) (mw_parent m)"
  by (auto simp: store_ok_def tree_ok_def list_all_iff)

text \<open>The branch after a message is added: the branch of its parent, cut by one, and the message.\<close>

lemma ancestors_new:
  assumes "store_ok s" and "parent_below (st_message_seq s + 1) parent"
    and "st_messages s' = st_messages s @ [new_row ser now tid role content item parent (st_message_seq s + 1)]"
  shows "ancestors (st_messages s') (Suc k) (Some (st_message_seq s + 1))
      = new_row ser now tid role content item parent (st_message_seq s + 1) # ancestors (st_messages s) k parent"
    "ancestors (st_messages s') 0 (Some (st_message_seq s + 1))
      = [new_row ser now tid role content item parent (st_message_seq s + 1)]"
    "parent_below (st_message_seq s + 1) leaf \<Longrightarrow> ancestors (st_messages s') k leaf = ancestors (st_messages s) k leaf"
proof -
  let ?row = "new_row ser now tid role content item parent (st_message_seq s + 1)"
  have fresh: "\<forall>m \<in> set (st_messages s). mw_id m \<noteq> mw_id ?row"
    using store_ok_messages [OF assms(1)] by fastforce
  have below: "m \<in> set (st_messages s) \<Longrightarrow> mw_id m < mw_id ?row \<and> parent_below (mw_id m) (mw_parent m)" for m
    using store_ok_messages [OF assms(1)] by simp
  have found: "find_message (st_message_seq s + 1) (st_messages s @ [?row]) = Some ?row"
    using find_message_last [OF fresh] by simp
  have old: "parent_below (st_message_seq s + 1) leaf \<Longrightarrow>
      ancestors (st_messages s @ [?row]) k leaf = ancestors (st_messages s) k leaf" for k leaf
    using ancestors_append [OF below] by simp
  show "parent_below (st_message_seq s + 1) leaf \<Longrightarrow> ancestors (st_messages s') k leaf = ancestors (st_messages s) k leaf"
    using old assms(3) by simp
  show "ancestors (st_messages s') (Suc k) (Some (st_message_seq s + 1)) = ?row # ancestors (st_messages s) k parent"
    using found old [OF assms(2)] assms(3) by simp
  show "ancestors (st_messages s') 0 (Some (st_message_seq s + 1)) = [?row]"
    using found assms(3) by simp
qed

definition leaf_of :: "string \<Rightarrow> state_store \<Rightarrow> int option" where
  "leaf_of tid s = Option.bind (find_thread_row tid s) (\<lambda>r. leaf_id (tw_current_leaf_id r))"

lemma branch_rows_leaf: "branch_rows tid limit s = rev (ancestors (st_messages s) (sql_limit limit 500 - 1) (leaf_of tid s))"
  by (simp add: branch_rows_def leaf_of_def)

lemma leaf_value_id: "leaf_value leaf = Inr parent \<Longrightarrow> leaf_id leaf = parent"
  by (cases leaf) auto

lemma append_message_result:
  assumes "store_ok s" and "append_message ser now tid role content item s = Inr (s', mid)"
  shows "mid = st_message_seq s + 1" "leaf_of tid s' = Some mid"
    "st_messages s' = st_messages s @ [new_row ser now tid role content item (leaf_of tid s) mid]"
    "parent_below (st_message_seq s + 1) (leaf_of tid s)" "tid' \<noteq> tid \<Longrightarrow> leaf_of tid' s' = leaf_of tid' s"
proof -
  from assms(2) obtain r parent where r: "find_thread_row tid s = Some r"
    and leaf: "leaf_value (tw_current_leaf_id r) = Inr parent"
    and add: "add_message ser now tid role content item parent s = Some (s', mid)"
    by (rule append_message_adds)
  have parent: "leaf_of tid s = parent" using r leaf by (simp add: leaf_of_def leaf_value_id)
  note result = add_message_result [OF add]
  show "mid = st_message_seq s + 1" by (rule result)
  show "leaf_of tid s' = Some mid" using r result(4) [of tid] by (simp add: leaf_of_def)
  show "st_messages s' = st_messages s @ [new_row ser now tid role content item (leaf_of tid s) mid]"
    using result(3) parent by simp
  show "parent_below (st_message_seq s + 1) (leaf_of tid s)"
    using store_ok_leaf [OF assms(1) r] leaf parent leaf_value_below by blast
  show "leaf_of tid' s' = leaf_of tid' s" if "tid' \<noteq> tid"
    using that result(4) [of tid'] by (simp add: leaf_of_def)
qed

lemma branch_after_append:
  assumes "store_ok s" and "append_message ser now tid role content item s = Inr (s', mid)" and "0 < n" "int n < i64_max"
  shows "branch_rows tid (Some (Suc n)) s'
    = branch_rows tid (Some n) s @ [new_row ser now tid role content item (leaf_of tid s) mid]"
proof -
  note app = append_message_result [OF assms(1,2)]
  obtain k where "n = Suc k" using assms(3) by (cases n) auto
  then show ?thesis
    using ancestors_new(1) [OF assms(1) app(4) app(3) [unfolded app(1)]] app(1,2) assms(4)
    by (simp add: branch_rows_leaf sql_limit_def)
qed

lemma branch_of_one:
  assumes "store_ok s" and "append_message ser now tid role content item s = Inr (s', mid)"
  shows "branch_rows tid (Some (Suc 0)) s' = [new_row ser now tid role content item (leaf_of tid s) mid]"
proof -
  note app = append_message_result [OF assms]
  show ?thesis
    using ancestors_new(2) [OF assms(1) app(4) app(3) [unfolded app(1)]] app(1,2)
    by (simp add: branch_rows_leaf sql_limit_def i64_max_def)
qed

section \<open>Conversations\<close>

text \<open>Messages appended one after the other, as the runtime does with a history: role, text, payload and time.\<close>

fun append_all ::
  "(json \<Rightarrow> string) \<Rightarrow> string \<Rightarrow> (string \<times> string \<times> json option \<times> int) list \<Rightarrow> state_store \<Rightarrow> string + state_store" where
  "append_all ser tid [] s = Inr s"
| "append_all ser tid ((role, content, item, now) # rest) s =
     (case append_message ser now tid role content item s of
        Inl e \<Rightarrow> Inl e
      | Inr (s', mid) \<Rightarrow> append_all ser tid rest s')"

lemma append_all_append:
  "append_all ser tid (xs @ ys) s = (case append_all ser tid xs s of Inl e \<Rightarrow> Inl e | Inr s' \<Rightarrow> append_all ser tid ys s')"
  by (induction ser tid xs s rule: append_all.induct) (auto split: sum.split)

lemma append_all_ok: "append_all ser tid msgs s = Inr s' \<Longrightarrow> store_ok s \<Longrightarrow> store_ok s'"
proof (induction msgs arbitrary: s)
  case (Cons x msgs)
  then show ?case by (cases x) (auto split: sum.splits dest: store_ok_append)
qed simp

definition row_body :: "message_row \<Rightarrow> string \<times> string \<times> string option \<times> int" where
  "row_body r = (mw_role r, mw_content r, mw_item_json r, mw_created_at r)"

definition message_body :: "message_record \<Rightarrow> string \<times> string \<times> json option \<times> int" where
  "message_body m = (mg_role m, mg_content m, mg_item m, mg_created_at m)"

definition stored_body :: "(json \<Rightarrow> string) \<Rightarrow> string \<times> string \<times> json option \<times> int \<Rightarrow> string \<times> string \<times> string option \<times> int" where
  "stored_body ser = (\<lambda>(role, content, item, now). (role, content, map_option ser item, now))"

lemma append_all_rows:
  assumes "append_all ser tid msgs s = Inr s'" and "store_ok s" and "leaf_of tid s = None" and "0 < n" "int n \<le> i64_max"
  shows "map row_body (branch_rows tid (Some n) s') = drop (length msgs - n) (map (stored_body ser) msgs)"
  using assms(1,4,5)
proof (induction msgs arbitrary: s' n rule: rev_induct)
  case Nil
  then show ?case using assms(3) by (simp add: branch_rows_leaf)
next
  case (snoc x msgs)
  obtain role content item now where x: "x = (role, content, item, now)" by (cases x) auto
  obtain s1 mid where s1: "append_all ser tid msgs s = Inr s1"
    and app: "append_message ser now tid role content item s1 = Inr (s', mid)"
    using snoc.prems(1) by (auto simp: append_all_append x split: sum.splits)
  have ok: "store_ok s1" using append_all_ok [OF s1 assms(2)] .
  have body: "row_body (new_row ser now tid role content item leaf mid) = stored_body ser x" for leaf
    by (simp add: row_body_def new_row_def stored_body_def x)
  show ?case
  proof (cases "n = 1")
    case True
    then show ?thesis using branch_of_one [OF ok app] by (simp add: body)
  next
    case False
    then obtain k where k: "n = Suc k" "0 < k" using snoc.prems(2) by (cases n) auto
    then have "int k < i64_max" "int k \<le> i64_max" using snoc.prems(3) by simp_all
    then show ?thesis
      using snoc.IH [OF s1 k(2)] branch_after_append [OF ok app k(2)] k(1) by (simp add: body)
  qed
qed

lemma messages_of_rows_bodies:
  assumes "json_codec ser de" and "list_all (\<lambda>(role, content, item, now). pred_option json_wf item) msgs"
    and "map row_body rows = map (stored_body ser) msgs"
  shows "\<exists>out. messages_of_rows de rows = Some out \<and> map message_body out = msgs"
  using assms(2,3)
proof (induction rows arbitrary: msgs)
  case (Cons r rows)
  then obtain x rest where msgs: "msgs = x # rest" by (cases msgs) auto
  obtain role content item now where x: "x = (role, content, item, now)" by (cases x) auto
  have "\<exists>m. message_of_row de r = Some m \<and> message_body m = x"
    using Cons.prems assms(1) unfolding msgs x
    by (cases item) (auto simp: row_body_def stored_body_def message_of_row_def message_body_def json_codec_def)
  moreover have "\<exists>out. messages_of_rows de rows = Some out \<and> map message_body out = rest"
    using Cons by (auto simp: msgs)
  ultimately show ?case by (auto simp: msgs)
qed simp

lemma list_all_drop: "list_all P xs \<Longrightarrow> list_all P (drop k xs)"
  by (metis append_take_drop_id list_all_append)

text \<open>Messages can be appended while there are ids left.\<close>

lemma append_all_succeeds:
  "find_thread_row tid s = Some r \<Longrightarrow> leaf_value (tw_current_leaf_id r) = Inr leaf \<Longrightarrow>
   st_message_seq s + int (length msgs) \<le> i64_max \<Longrightarrow> \<exists>s'. append_all ser tid msgs s = Inr s'"
proof (induction msgs arbitrary: s r leaf)
  case (Cons x msgs)
  obtain role content item now where x: "x = (role, content, item, now)" by (cases x) auto
  obtain s1 mid where add: "add_message ser now tid role content item leaf s = Some (s1, mid)"
    using Cons.prems(3) by (simp add: add_message_def Let_def)
  then have "append_message ser now tid role content item s = Inr (s1, mid)"
    using Cons.prems by (simp add: append_message_def)
  moreover have "\<exists>s'. append_all ser tid msgs s1 = Inr s'"
    using add_message_result [OF add] Cons.prems
    by (intro Cons.IH [of s1 "r\<lparr>tw_current_leaf_id := LeafInt mid\<rparr>" "Some mid"]) simp_all
  ultimately show ?case by (simp add: x)
qed simp


lemma found_thread: "tid \<in> thread_ids s \<Longrightarrow> \<exists>r. find_thread_row tid s = Some r"
  by (metis find_list_ex find_thread_row_def thread_exists_def thread_ids_exists)

lemma leaf_of_set_leaf:
  "leaf_of t (set_leaf tid leaf s)
     = (if t = tid then Option.bind (find_thread_row t s) (\<lambda>r. leaf_id leaf) else leaf_of t s)"
  by (cases "find_thread_row t s") (auto simp: leaf_of_def set_leaf_def find_update_thread_rows)

text \<open>
  C26: A fork puts its message after the branch of the message it forks at, in the thread of that message; every
  branch that ended at an earlier message can be chosen again and is as it was.
\<close>

theorem fork_keeps_the_other_branches:
  assumes "store_reachable ser numeric fsum s"
    and "fork_at_message ser numeric now message_id role content item s = Inr (s', mid)"
    and "numeric message_id = LeafInt i"
  shows "\<exists>m row. find_message i (st_messages s) = Some m \<and> mw_id row = mid \<and> mw_content row = content
    \<and> branch_rows (mw_thread_id m) None s' = rev (ancestors (st_messages s) 498 (Some i)) @ [row]
    \<and> (\<forall>j tid limit. j \<le> st_message_seq s \<longrightarrow>
         branch_rows tid limit (set_leaf tid (LeafInt j) s') = branch_rows tid limit (set_leaf tid (LeafInt j) s))"
proof -
  have ok: "store_ok s" by (rule store_reachable_ok [OF assms(1)])
  obtain m where m: "find_message i (st_messages s) = Some m"
    and add: "add_message ser now (mw_thread_id m) role content item (Some (mw_id m)) s = Some (s', mid)"
    using assms(2,3) by (elim fork_at_message_adds) auto
  note result = add_message_result [OF add]
  have id: "mw_id m = i" and mem: "m \<in> set (st_messages s)" using find_message_Some [OF m] by auto
  have below: "parent_below (st_message_seq s + 1) (Some (mw_id m))"
    using store_ok_messages [OF ok mem] by simp
  let ?row = "new_row ser now (mw_thread_id m) role content item (Some (mw_id m)) (st_message_seq s + 1)"
  note new = ancestors_new [OF ok below result(3) [unfolded result(1)]]
  have "mw_thread_id m \<in> thread_ids s" using ok mem by (auto simp: store_ok_def refs_ok_def)
  then have "leaf_of (mw_thread_id m) s' = Some (st_message_seq s + 1)"
    using found_thread result(1) result(4) [of "mw_thread_id m"] by (fastforce simp: leaf_of_def)
  then have "branch_rows (mw_thread_id m) None s' = rev (ancestors (st_messages s) 498 (Some i)) @ [?row]"
    using new(1) [of 498] by (simp add: branch_rows_leaf sql_limit_def id)
  moreover have "branch_rows tid limit (set_leaf tid (LeafInt j) s') = branch_rows tid limit (set_leaf tid (LeafInt j) s)"
    if "j \<le> st_message_seq s" for j tid limit
  proof -
    have same: "leaf_of tid (set_leaf tid (LeafInt j) s') = leaf_of tid (set_leaf tid (LeafInt j) s)"
      using result(4) [of tid] by (cases "find_thread_row tid s") (auto simp: leaf_of_set_leaf)
    have "parent_below (st_message_seq s + 1) (leaf_of tid (set_leaf tid (LeafInt j) s))"
      using that by (cases "find_thread_row tid s") (simp_all add: leaf_of_set_leaf)
    then show ?thesis
      using new(3) same by (simp add: branch_rows_leaf set_leaf_def)
  qed
  ultimately show ?thesis
    using m result(1) by (intro exI [of _ m] exI [of _ ?row]) (simp add: new_row_def)
qed

section \<open>Boundaries\<close>

text \<open>A limit of no message still gives one.\<close>

theorem limit_zero_gives_one:
  "branch_rows tid (Some 0) s = branch_rows tid (Some 1) s"
  by (simp add: branch_rows_def sql_limit_def i64_max_def)

definition demo_thread :: "string \<Rightarrow> thread_metadata" where
  "demo_thread tid =
     \<lparr>tm_id = tid, tm_rollout_path = None, tm_preview = ''new'', tm_ephemeral = False, tm_model_provider = ''deepseek'',
      tm_created_at = 10, tm_updated_at = 10, tm_status = ThreadRunning, tm_path = None, tm_cwd = ''/w'',
      tm_cli_version = ''0'', tm_source = SourceInteractive, tm_name = None, tm_sandbox_policy = Some ''read-only'',
      tm_approval_mode = None, tm_archived = False, tm_archived_at = None, tm_git_sha = Some ''abc'',
      tm_git_branch = None, tm_git_origin_url = None, tm_memory_mode = None, tm_current_leaf_id = None\<rparr>"

definition demo_numeric :: "string \<Rightarrow> leaf_cell" where
  "demo_numeric s = (case parse_digits s of Some n \<Rightarrow> LeafInt (int n) | None \<Rightarrow> LeafText s)"

definition demo_fsum :: "int_cell \<Rightarrow> int \<Rightarrow> int_cell" where
  "demo_fsum c d = RealCell 0"

definition demo_ser :: "json \<Rightarrow> string" where
  "demo_ser v = ''{}''"

definition demo_store :: state_store where
  "demo_store = upsert_thread demo_ser (demo_thread ''t'') empty_store"

text \<open>
  \<open>set_current_leaf_id\<close> takes any text. An id not yet given out makes the next message its own parent, and the
  thread is then listed as one message as often as the limit allows; a text that is no number makes the thread, and
  every list with it, unreadable.
\<close>

theorem leaf_of_the_future_makes_a_cycle:
  "case append_message demo_ser 1 ''t'' ''user'' ''hi'' None (set_current_leaf_id demo_numeric ''t'' ''1'' demo_store) of
     Inr (s, mid) \<Rightarrow> map mw_id (branch_rows ''t'' (Some 4) s) = [mid, mid, mid, mid]
   | Inl e \<Rightarrow> False"
  by code_simp

theorem text_leaf_hides_every_thread:
  "let s = set_current_leaf_id demo_numeric ''t'' ''none'' (upsert_thread demo_ser (demo_thread ''u'') demo_store)
   in get_thread ''t'' s = Inl ''failed to read thread'' \<and> (case list_threads True None s of Inl e \<Rightarrow> True | Inr ts \<Rightarrow> False)"
  by code_simp

section \<open>Examples\<close>

definition fresh_store :: state_store where
  "fresh_store = upsert_thread unary_ser (demo_thread ''t'') empty_store"

lemma fresh_store_reachable: "store_reachable unary_ser numeric fsum fresh_store"
  unfolding fresh_store_def by (rule reach_step [OF reach_empty step_upsert])

lemma fresh_store_row:
  "find_thread_row ''t'' fresh_store = Some (row_of_thread LeafNull (demo_thread ''t''))"
  "st_message_seq fresh_store = 0" "st_messages fresh_store = []"
  by (simp_all add: fresh_store_def find_upsert demo_thread_def upsert_thread_def thread_exists_def empty_store_def)
    (simp add: find_thread_row_def)

theorem store_keeps_its_references_witness:
  "distinct (map tw_id (st_threads fresh_store))"
  using store_keeps_its_references [OF fresh_store_reachable] by blast


lemma one_message:
  "\<exists>s. append_message unary_ser 1 ''t'' ''user'' ''hi'' None fresh_store = Inr (s, 1) \<and> store_reachable unary_ser demo_numeric demo_fsum s
    \<and> st_messages s = [new_row unary_ser 1 ''t'' ''user'' ''hi'' None None 1] \<and> st_message_seq s = 1"
proof -
  obtain s mid where add: "add_message unary_ser 1 ''t'' ''user'' ''hi'' None None fresh_store = Some (s, mid)"
    by (simp add: add_message_def Let_def fresh_store_row i64_max_def)
  then have app: "append_message unary_ser 1 ''t'' ''user'' ''hi'' None fresh_store = Inr (s, mid)"
    by (simp add: append_message_def fresh_store_row row_of_thread_def)
  have "store_reachable unary_ser demo_numeric demo_fsum s"
    by (rule reach_step [OF fresh_store_reachable step_append [OF app]])
  then show ?thesis using app add_message_result [OF add] by (simp add: fresh_store_row)
qed

theorem fork_keeps_the_other_branches_witness:
  "\<exists>s s' m row. fork_at_message unary_ser demo_numeric 2 ''1'' ''user'' ''again'' None s = Inr (s', 2)
    \<and> find_message 1 (st_messages s) = Some m \<and> branch_rows (mw_thread_id m) None s'
        = rev (ancestors (st_messages s) 498 (Some 1)) @ [row] \<and> mw_content row = ''again''"
proof -
  obtain s where s: "store_reachable unary_ser demo_numeric demo_fsum s" "st_message_seq s = 1"
    and ms: "st_messages s = [new_row unary_ser 1 ''t'' ''user'' ''hi'' None None 1]"
    using one_message by blast
  have one: "demo_numeric ''1'' = LeafInt 1" by code_simp
  have "\<exists>s'. fork_at_message unary_ser demo_numeric 2 ''1'' ''user'' ''again'' None s = Inr (s', 2)"
    by (simp add: fork_at_message_def one ms find_message_def add_message_def s(2) i64_max_def Let_def)
  then obtain s' where "fork_at_message unary_ser demo_numeric 2 ''1'' ''user'' ''again'' None s = Inr (s', 2)" ..
  with fork_keeps_the_other_branches [OF s(1) this one] show ?thesis by blast
qed

end
