(* ===== verification/Store_Migration.thy ===== *)
theory Store_Migration
  imports Message_Tree "HOL-Library.Product_Lexorder"
begin

text \<open>
  \<open>crates/state/src/lib.rs\<close>, \<open>init_schema\<close>: the step from the flat messages of the first schema to the tree. The
  later versions only create tables and columns. The state is the number of the schema with the store; a message of
  the first schema has no parent and a thread no leaf.
\<close>

definition message_time :: "message_row \<Rightarrow> int \<times> int" where
  "message_time m = (mw_created_at m, mw_id m)"

definition last_option :: "'a list \<Rightarrow> 'a option" where
  "last_option xs = (if xs = [] then None else Some (last xs))"

text \<open>The subquery of the first update: the latest message of the thread before this one, by time and then by id.\<close>

definition previous_message :: "message_row list \<Rightarrow> message_row \<Rightarrow> int option" where
  "previous_message ms m =
     map_option mw_id (last_option (sort_key message_time
       (filter (\<lambda>m2. mw_thread_id m2 = mw_thread_id m \<and> message_time m2 < message_time m) ms)))"

text \<open>The subquery of the second: the greatest id of the thread.\<close>

definition last_message :: "message_row list \<Rightarrow> string \<Rightarrow> leaf_cell" where
  "last_message ms tid =
     (case last_option (sort_key mw_id (filter (\<lambda>m. mw_thread_id m = tid) ms)) of
        None \<Rightarrow> LeafNull
      | Some m \<Rightarrow> LeafInt (mw_id m))"

definition migrate_to_tree :: "state_store \<Rightarrow> state_store" where
  "migrate_to_tree s =
     s\<lparr>st_messages := map (\<lambda>m. m\<lparr>mw_parent := previous_message (st_messages s) m\<rparr>) (st_messages s),
       st_threads := map (\<lambda>r. r\<lparr>tw_current_leaf_id := last_message (st_messages s) (tw_id r)\<rparr>) (st_threads s)\<rparr>"

definition init_schema :: "nat \<times> state_store \<Rightarrow> nat \<times> state_store" where
  "init_schema = (\<lambda>(version, s). (max version 4, if version = 0 then migrate_to_tree s else s))"

section \<open>The migrated tree\<close>

text \<open>The messages of one thread.\<close>

definition thread_rows :: "string \<Rightarrow> message_row list \<Rightarrow> message_row list" where
  "thread_rows tid ms = filter (\<lambda>m. mw_thread_id m = tid) ms"

text \<open>Times that do not run against the ids.\<close>

definition in_time_order :: "message_row list \<Rightarrow> bool" where
  "in_time_order ms \<longleftrightarrow> sorted_wrt (\<lambda>m m'. message_time m < message_time m') ms"

lemma sort_key_sorted: "sorted_wrt (\<lambda>x y. f x \<le> f y) xs \<Longrightarrow> sort_key f xs = xs"
  by (induction xs) (auto simp: insort_is_Cons)

lemma in_time_order_sort: "in_time_order ms \<Longrightarrow> sort_key message_time ms = ms"
  by (rule sort_key_sorted) (auto simp: in_time_order_def intro: sorted_wrt_mono_rel [rotated])

lemma previous_in_order:
  assumes "in_time_order (xs @ m # ys)" and "\<forall>m' \<in> set (xs @ m # ys). mw_thread_id m' = tid"
    and "thread_rows tid ms = xs @ m # ys"
  shows "previous_message ms m = map_option mw_id (last_option xs)"
proof -
  have thread: "mw_thread_id m = tid" using assms(2) by simp
  have "filter (\<lambda>m2. mw_thread_id m2 = mw_thread_id m \<and> message_time m2 < message_time m) ms
      = filter (\<lambda>m2. message_time m2 < message_time m) (thread_rows tid ms)"
    by (simp add: thread_rows_def thread)
  also have "\<dots> = xs"
    using assms(1) unfolding assms(3) in_time_order_def
    by (auto simp: sorted_wrt_append filter_empty_conv intro!: filter_True dest: order.asym)
  finally show ?thesis
    using assms(1) by (simp add: previous_message_def in_time_order_sort in_time_order_def sorted_wrt_append)
qed

definition migrated :: "message_row list \<Rightarrow> message_row \<Rightarrow> message_row" where
  "migrated ms m = m\<lparr>mw_parent := previous_message ms m\<rparr>"

lemma migrated_id [simp]: "mw_id (migrated ms m) = mw_id m" "row_body (migrated ms m) = row_body m"
  by (simp_all add: migrated_def row_body_def)

lemma find_migrated:
  "distinct (map mw_id ms) \<Longrightarrow> m \<in> set ms \<Longrightarrow> (\<And>m. mw_id (f m) = mw_id m) \<Longrightarrow>
   find_message (mw_id m) (map f ms) = Some (f m)"
  by (induction ms) (auto simp: find_message_def)

lemma last_option_snoc [simp]: "last_option (xs @ [x]) = Some x" "last_option [x] = Some x" "last_option [] = None"
  by (simp_all add: last_option_def)

lemma ancestors_migrated:
  assumes "distinct (map mw_id ms)" and "in_time_order (thread_rows tid ms)"
    and "thread_rows tid ms = xs @ ys" and "length xs \<le> Suc k"
  shows "ancestors (map (migrated ms) ms) k (map_option mw_id (last_option xs)) = rev (map (migrated ms) xs)"
  using assms(3,4)
proof (induction xs arbitrary: ys k rule: rev_induct)
  case (snoc m xs)
  have rows: "thread_rows tid ms = xs @ m # ys" using snoc.prems(1) by simp
  then have "m \<in> set (thread_rows tid ms)" by simp
  then have mem: "m \<in> set ms" by (simp add: thread_rows_def)
  have found: "find_message (mw_id m) (map (migrated ms) ms) = Some (migrated ms m)"
    by (rule find_migrated [OF assms(1) mem]) simp
  have "\<forall>m' \<in> set (xs @ m # ys). mw_thread_id m' = tid"
    unfolding rows [symmetric] by (simp add: thread_rows_def)
  then have parent: "mw_parent (migrated ms m) = map_option mw_id (last_option xs)"
    using previous_in_order [OF assms(2) [unfolded rows] _ rows] by (simp add: migrated_def)
  show ?case
  proof (cases k)
    case 0
    then show ?thesis using found snoc.prems(2) by simp
  next
    case (Suc j)
    then show ?thesis using found parent snoc.IH [OF rows, of j] snoc.prems(2) by simp
  qed
qed simp

lemma last_message_in_order:
  assumes "sorted_wrt (<) (map mw_id (thread_rows tid ms))"
  shows "leaf_id (last_message ms tid) = map_option mw_id (last_option (thread_rows tid ms))"
proof -
  have "sort_key mw_id (thread_rows tid ms) = thread_rows tid ms"
    using assms by (intro sort_key_sorted) (auto simp: sorted_wrt_map intro: sorted_wrt_mono_rel [rotated])
  then show ?thesis by (simp add: last_message_def thread_rows_def split: option.split)
qed

lemma find_thread_migrated:
  "find_thread_row tid (migrate_to_tree s)
     = map_option (\<lambda>r. r\<lparr>tw_current_leaf_id := last_message (st_messages s) tid\<rparr>) (find_thread_row tid s)"
proof -
  have "find (\<lambda>r. tw_id r = tid) (map (\<lambda>r. r\<lparr>tw_current_leaf_id := last_message ms (tw_id r)\<rparr>) rs)
      = map_option (\<lambda>r. r\<lparr>tw_current_leaf_id := last_message ms tid\<rparr>) (find (\<lambda>r. tw_id r = tid) rs)" for ms rs
    by (induction rs) auto
  then show ?thesis by (simp add: find_thread_row_def migrate_to_tree_def)
qed

text \<open>
  C25: The migration to the tree keeps the history of a thread whose times follow its ids: listed to its length, the
  migrated thread gives the messages it had before, all of them, in order.
\<close>

theorem migration_keeps_the_history:
  assumes "distinct (map mw_id (st_messages s))" and "find_thread_row tid s = Some r"
    and "in_time_order (thread_rows tid (st_messages s))"
    and "sorted_wrt (<) (map mw_id (thread_rows tid (st_messages s)))"
    and "length (thread_rows tid (st_messages s)) \<le> n" and "0 < n" and "int n \<le> i64_max"
  shows "map row_body (branch_rows tid (Some n) (snd (init_schema (0, s))))
    = map row_body (thread_rows tid (st_messages s))"
proof -
  have "leaf_of tid (migrate_to_tree s) = map_option mw_id (last_option (thread_rows tid (st_messages s)))"
    using assms(2) last_message_in_order [OF assms(4)] by (simp add: leaf_of_def find_thread_migrated)
  moreover have "st_messages (migrate_to_tree s) = map (migrated (st_messages s)) (st_messages s)"
    by (simp add: migrate_to_tree_def migrated_def)
  ultimately have "branch_rows tid (Some n) (migrate_to_tree s)
      = map (migrated (st_messages s)) (thread_rows tid (st_messages s))"
    using ancestors_migrated [OF assms(1,3), of "thread_rows tid (st_messages s)" "[]" "n - 1"] assms(5-7)
    by (simp add: branch_rows_leaf sql_limit_def rev_map)
  then show ?thesis by (simp add: init_schema_def)
qed

section \<open>Examples\<close>

definition flat_message :: "int \<Rightarrow> int \<Rightarrow> message_row" where
  "flat_message mid at = \<lparr>mw_id = mid, mw_thread_id = ''t'', mw_role = ''user'', mw_content = ''hi'',
     mw_item_json = None, mw_created_at = at, mw_parent = None\<rparr>"

definition flat_store :: "message_row list \<Rightarrow> state_store" where
  "flat_store ms = demo_store\<lparr>st_messages := ms\<rparr>"

theorem migration_keeps_the_history_witness:
  "map row_body (branch_rows ''t'' (Some 2) (snd (init_schema (0, flat_store [flat_message 1 10, flat_message 2 10]))))
    = map row_body (thread_rows ''t'' [flat_message 1 10, flat_message 2 10])"
proof -
  have row: "find_thread_row ''t'' (flat_store ms) = Some (row_of_thread LeafNull (demo_thread ''t''))" for ms
    by (simp add: flat_store_def demo_store_def find_thread_row_def upsert_thread_def thread_exists_def empty_store_def
        demo_thread_def)
  show ?thesis
    using migration_keeps_the_history [OF _ row, of "[flat_message 1 10, flat_message 2 10]" 2]
    by (simp add: flat_store_def thread_rows_def flat_message_def in_time_order_def message_time_def i64_max_def)
qed

text \<open>
  When the clock ran back between two messages the later one becomes the parent of the earlier, but the leaf is still
  the greatest id: the other message is on no branch that is listed.
\<close>

theorem migration_hides_a_message:
  "map mw_id (branch_rows ''t'' None (snd (init_schema (0, flat_store [flat_message 1 20, flat_message 2 10])))) = [2]"
  by code_simp

end
