(* ===== verification/Thread_Runtime.thy ===== *)
theory Thread_Runtime
  imports Message_Tree
begin

text \<open>
  \<open>crates/core/src/lib.rs\<close>: the manager of threads over the state store and the requests on threads
  (\<open>Runtime::handle_thread\<close>). The records of \<open>crates/protocol/src/lib.rs\<close> are those of the store under other names
  with fewer fields. The text of a JSON value is \<open>ser\<close>; the time, a new uuid and the current directory are arguments.
  An operation that fails half-way leaves what it wrote. The lifecycle hooks only tell others and are not modelled.
\<close>

section \<open>Records\<close>

datatype protocol_status = ProtoRunning | ProtoIdle | ProtoCompleted | ProtoFailed | ProtoPaused | ProtoArchived

datatype protocol_source = ProtoInteractive | ProtoResume | ProtoFork | ProtoApi | ProtoUnknown

datatype protocol_goal_status =
  ProtoGoalActive | ProtoGoalPaused | ProtoGoalBlocked | ProtoGoalUsageLimited | ProtoGoalBudgetLimited | ProtoGoalComplete

record protocol_thread =
  pt_id :: string
  pt_preview :: string
  pt_ephemeral :: bool
  pt_model_provider :: string
  pt_created_at :: int
  pt_updated_at :: int
  pt_status :: protocol_status
  pt_path :: "string option"
  pt_cwd :: string
  pt_cli_version :: string
  pt_source :: protocol_source
  pt_name :: "string option"

record thread_goal =
  pg_thread_id :: string
  pg_goal_id :: string
  pg_objective :: string
  pg_status :: protocol_goal_status
  pg_token_budget :: "int option"
  pg_tokens_used :: int
  pg_time_used_seconds :: int
  pg_continuation_count :: int
  pg_created_at :: int
  pg_updated_at :: int

datatype initial_history = HistoryNew | HistoryForked "json list" | HistoryResumed string "json list" string

record new_thread =
  nt_thread :: protocol_thread
  nt_model :: string
  nt_model_provider :: string
  nt_cwd :: string
  nt_approval_policy :: "string option"
  nt_sandbox :: "string option"

record resume_params =
  rp_thread_id :: string
  rp_history :: "json list option"
  rp_model :: "string option"
  rp_model_provider :: "string option"
  rp_cwd :: "string option"
  rp_approval_policy :: "string option"
  rp_sandbox :: "string option"

record fork_params =
  fp_thread_id :: string
  fp_model_provider :: "string option"
  fp_cwd :: "string option"
  fp_approval_policy :: "string option"
  fp_sandbox :: "string option"
  fp_persist_extended_history :: bool

record goal_progress_params =
  gpp_thread_id :: string
  gpp_token_delta :: int
  gpp_time_delta_seconds :: int
  gpp_record_continuation :: bool

fun to_persisted_status :: "protocol_status \<Rightarrow> thread_status" where
  "to_persisted_status ProtoRunning = ThreadRunning"
| "to_persisted_status ProtoIdle = ThreadIdle"
| "to_persisted_status ProtoCompleted = ThreadCompleted"
| "to_persisted_status ProtoFailed = ThreadFailed"
| "to_persisted_status ProtoPaused = ThreadPaused"
| "to_persisted_status ProtoArchived = ThreadArchived"

fun to_persisted_source :: "protocol_source \<Rightarrow> session_source" where
  "to_persisted_source ProtoInteractive = SourceInteractive"
| "to_persisted_source ProtoResume = SourceResume"
| "to_persisted_source ProtoFork = SourceFork"
| "to_persisted_source ProtoApi = SourceApi"
| "to_persisted_source ProtoUnknown = SourceUnknown"

fun to_protocol_status :: "thread_status \<Rightarrow> protocol_status" where
  "to_protocol_status ThreadRunning = ProtoRunning"
| "to_protocol_status ThreadIdle = ProtoIdle"
| "to_protocol_status ThreadCompleted = ProtoCompleted"
| "to_protocol_status ThreadFailed = ProtoFailed"
| "to_protocol_status ThreadPaused = ProtoPaused"
| "to_protocol_status ThreadArchived = ProtoArchived"

fun to_protocol_source :: "session_source \<Rightarrow> protocol_source" where
  "to_protocol_source SourceInteractive = ProtoInteractive"
| "to_protocol_source SourceResume = ProtoResume"
| "to_protocol_source SourceFork = ProtoFork"
| "to_protocol_source SourceApi = ProtoApi"
| "to_protocol_source SourceUnknown = ProtoUnknown"

fun to_protocol_goal_status :: "goal_record_status \<Rightarrow> protocol_goal_status" where
  "to_protocol_goal_status StActive = ProtoGoalActive"
| "to_protocol_goal_status StPaused = ProtoGoalPaused"
| "to_protocol_goal_status StBlocked = ProtoGoalBlocked"
| "to_protocol_goal_status StUsageLimited = ProtoGoalUsageLimited"
| "to_protocol_goal_status StBudgetLimited = ProtoGoalBudgetLimited"
| "to_protocol_goal_status StComplete = ProtoGoalComplete"

definition to_protocol_thread :: "thread_metadata \<Rightarrow> protocol_thread" where
  "to_protocol_thread t =
     \<lparr>pt_id = tm_id t, pt_preview = tm_preview t, pt_ephemeral = tm_ephemeral t, pt_model_provider = tm_model_provider t,
      pt_created_at = tm_created_at t, pt_updated_at = tm_updated_at t, pt_status = to_protocol_status (tm_status t),
      pt_path = tm_path t, pt_cwd = tm_cwd t, pt_cli_version = tm_cli_version t,
      pt_source = to_protocol_source (tm_source t), pt_name = tm_name t\<rparr>"

definition to_protocol_goal :: "thread_goal_record \<Rightarrow> thread_goal" where
  "to_protocol_goal g =
     \<lparr>pg_thread_id = tg_thread_id g, pg_goal_id = tg_goal_id g, pg_objective = tg_objective g,
      pg_status = to_protocol_goal_status (tg_status g), pg_token_budget = tg_token_budget g,
      pg_tokens_used = tg_tokens_used g, pg_time_used_seconds = tg_time_used_seconds g,
      pg_continuation_count = tg_continuation_count g, pg_created_at = tg_created_at g,
      pg_updated_at = tg_updated_at g\<rparr>"

definition truncate_preview :: "string \<Rightarrow> string" where
  "truncate_preview s = take 120 s"

definition first_item_text :: "(json \<Rightarrow> string) \<Rightarrow> string \<Rightarrow> json list \<Rightarrow> string" where
  "first_item_text ser dflt items = (case items of [] \<Rightarrow> dflt | v # _ \<Rightarrow> ser v)"

fun preview_from_initial_history :: "(json \<Rightarrow> string) \<Rightarrow> initial_history \<Rightarrow> string" where
  "preview_from_initial_history ser HistoryNew = ''New conversation''"
| "preview_from_initial_history ser (HistoryForked items) =
     truncate_preview (first_item_text ser ''Forked conversation'' items)"
| "preview_from_initial_history ser (HistoryResumed cid items path) =
     truncate_preview (first_item_text ser ''Resumed conversation'' items)"

section \<open>The thread manager\<close>

record thread_manager =
  mgr_store :: state_store
  mgr_running :: "string \<rightharpoonup> protocol_thread"
  mgr_cli_version :: string

definition manager_new :: "string \<Rightarrow> state_store \<Rightarrow> thread_manager" where
  "manager_new version s = \<lparr>mgr_store = s, mgr_running = Map.empty, mgr_cli_version = version\<rparr>"

text \<open>What is persisted of a protocol thread: the fields it does not have are written as empty.\<close>

definition persisted_thread :: "protocol_thread \<Rightarrow> string option \<Rightarrow> thread_metadata" where
  "persisted_thread t rollout =
     \<lparr>tm_id = pt_id t, tm_rollout_path = rollout, tm_preview = pt_preview t, tm_ephemeral = pt_ephemeral t,
      tm_model_provider = pt_model_provider t, tm_created_at = pt_created_at t, tm_updated_at = pt_updated_at t,
      tm_status = to_persisted_status (pt_status t), tm_path = pt_path t, tm_cwd = pt_cwd t,
      tm_cli_version = pt_cli_version t, tm_source = to_persisted_source (pt_source t), tm_name = pt_name t,
      tm_sandbox_policy = None, tm_approval_mode = None, tm_archived = (pt_status t = ProtoArchived),
      tm_archived_at = None, tm_git_sha = None, tm_git_branch = None, tm_git_origin_url = None,
      tm_memory_mode = None, tm_current_leaf_id = None\<rparr>"

definition persist_thread ::
  "(json \<Rightarrow> string) \<Rightarrow> protocol_thread \<Rightarrow> string option \<Rightarrow> state_store \<Rightarrow> state_store" where
  "persist_thread ser t rollout = upsert_thread ser (persisted_thread t rollout)"

text \<open>The loop over the items of a history: it stops at the first that fails.\<close>

fun append_history ::
  "(json \<Rightarrow> string) \<Rightarrow> int \<Rightarrow> string \<Rightarrow> json list \<Rightarrow> state_store \<Rightarrow> state_store \<times> string option" where
  "append_history ser now tid [] s = (s, None)"
| "append_history ser now tid (item # rest) s =
     (case append_message ser now tid ''history'' (ser item) (Some item) s of
        Inl e \<Rightarrow> (s, Some e)
      | Inr (s', mid) \<Rightarrow> append_history ser now tid rest s')"

fun history_items :: "initial_history \<Rightarrow> json list" where
  "history_items HistoryNew = []"
| "history_items (HistoryForked items) = items"
| "history_items (HistoryResumed cid items path) = items"

fun history_source :: "initial_history \<Rightarrow> protocol_source" where
  "history_source HistoryNew = ProtoInteractive"
| "history_source (HistoryForked items) = ProtoFork"
| "history_source (HistoryResumed cid items path) = ProtoResume"

definition spawned_thread ::
  "(json \<Rightarrow> string) \<Rightarrow> int \<Rightarrow> string \<Rightarrow> string \<Rightarrow> string \<Rightarrow> string \<Rightarrow> initial_history \<Rightarrow> bool \<Rightarrow> protocol_thread" where
  "spawned_thread ser now uuid version provider cwd history persist =
     \<lparr>pt_id = ''thread-'' @ uuid, pt_preview = preview_from_initial_history ser history, pt_ephemeral = (\<not> persist),
      pt_model_provider = provider, pt_created_at = now, pt_updated_at = now, pt_status = ProtoRunning, pt_path = None,
      pt_cwd = cwd, pt_cli_version = version, pt_source = history_source history, pt_name = None\<rparr>"

definition spawn_thread_with_history ::
  "(json \<Rightarrow> string) \<Rightarrow> int \<Rightarrow> string \<Rightarrow> string \<Rightarrow> string \<Rightarrow> initial_history \<Rightarrow> bool \<Rightarrow> thread_manager
     \<Rightarrow> thread_manager \<times> (string + new_thread)" where
  "spawn_thread_with_history ser now uuid provider cwd history persist m =
     (let t = spawned_thread ser now uuid (mgr_cli_version m) provider cwd history persist;
          (s, err) = append_history ser now (pt_id t) (history_items history) (persist_thread ser t None (mgr_store m));
          m' = m\<lparr>mgr_store := s\<rparr>
      in case err of
           Some e \<Rightarrow> (m', Inl e)
         | None \<Rightarrow> (m'\<lparr>mgr_running := (mgr_running m)(pt_id t \<mapsto> t)\<rparr>,
             Inr \<lparr>nt_thread = t, nt_model = ''auto'', nt_model_provider = provider, nt_cwd = cwd,
                  nt_approval_policy = None, nt_sandbox = None\<rparr>))"

definition or_else :: "'a option \<Rightarrow> 'a \<Rightarrow> 'a" where
  "or_else x dflt = (case x of None \<Rightarrow> dflt | Some a \<Rightarrow> a)"

definition resumed_answer :: "resume_params \<Rightarrow> string \<Rightarrow> string \<Rightarrow> protocol_thread \<Rightarrow> new_thread" where
  "resumed_answer p provider cwd t =
     \<lparr>nt_thread = t, nt_model = or_else (rp_model p) ''auto'', nt_model_provider = or_else (rp_model_provider p) provider,
      nt_cwd = cwd, nt_approval_policy = rp_approval_policy p, nt_sandbox = rp_sandbox p\<rparr>"

definition resume_thread_with_history ::
  "(json \<Rightarrow> string) \<Rightarrow> int \<Rightarrow> resume_params \<Rightarrow> string \<Rightarrow> string \<Rightarrow> thread_manager
     \<Rightarrow> thread_manager \<times> (string + new_thread option)" where
  "resume_thread_with_history ser now p fallback_cwd provider m =
     (case (if rp_history p = None then mgr_running m (rp_thread_id p) else None) of
        Some t \<Rightarrow> (m, Inr (Some (resumed_answer p provider (or_else (rp_cwd p) (pt_cwd t)) t)))
      | None \<Rightarrow>
         (case get_thread (rp_thread_id p) (mgr_store m) of
            Inl e \<Rightarrow> (m, Inl e)
          | Inr None \<Rightarrow> (m, Inr None)
          | Inr (Some metadata) \<Rightarrow>
             (let t = (to_protocol_thread metadata)\<lparr>pt_status := ProtoRunning, pt_updated_at := now,
                        pt_cwd := or_else (rp_cwd p) fallback_cwd\<rparr>;
                  m1 = m\<lparr>mgr_store := persist_thread ser t None (mgr_store m),
                         mgr_running := (mgr_running m)(pt_id t \<mapsto> t)\<rparr>;
                  (s, err) = append_history ser now (pt_id t) (or_else (rp_history p) []) (mgr_store m1);
                  m2 = m1\<lparr>mgr_store := s\<rparr>
              in case err of
                   Some e \<Rightarrow> (m2, Inl e)
                 | None \<Rightarrow> (m2, Inr (Some (resumed_answer p provider (pt_cwd t) t))))))"

definition fork_thread ::
  "(json \<Rightarrow> string) \<Rightarrow> int \<Rightarrow> string \<Rightarrow> fork_params \<Rightarrow> string \<Rightarrow> thread_manager
     \<Rightarrow> thread_manager \<times> (string + new_thread option)" where
  "fork_thread ser now uuid p fallback_cwd m =
     (case get_thread (fp_thread_id p) (mgr_store m) of
        Inl e \<Rightarrow> (m, Inl e)
      | Inr None \<Rightarrow> (m, Inr None)
      | Inr (Some parent) \<Rightarrow>
         (let pt = to_protocol_thread parent;
              (m', r) = spawn_thread_with_history ser now uuid (or_else (fp_model_provider p) (pt_model_provider pt))
                  (or_else (fp_cwd p) fallback_cwd)
                  (HistoryForked [JObj [(''type'', JStr ''fork''), (''from_thread_id'', JStr (pt_id pt))]])
                  (fp_persist_extended_history p) m
          in (m', map_sum id Some r)))"

definition mgr_list_threads :: "bool \<Rightarrow> nat option \<Rightarrow> thread_manager \<Rightarrow> string + protocol_thread list" where
  "mgr_list_threads archived limit m = map_sum id (map to_protocol_thread) (list_threads archived limit (mgr_store m))"

definition read_thread :: "string \<Rightarrow> thread_manager \<Rightarrow> string + protocol_thread option" where
  "read_thread tid m = map_sum id (map_option to_protocol_thread) (get_thread tid (mgr_store m))"

definition set_thread_name ::
  "(json \<Rightarrow> string) \<Rightarrow> int \<Rightarrow> string \<Rightarrow> string \<Rightarrow> thread_manager \<Rightarrow> thread_manager \<times> (string + protocol_thread option)" where
  "set_thread_name ser now tid name m =
     (case get_thread tid (mgr_store m) of
        Inl e \<Rightarrow> (m, Inl e)
      | Inr None \<Rightarrow> (m, Inr None)
      | Inr (Some metadata) \<Rightarrow>
         (let metadata' = metadata\<lparr>tm_name := Some name, tm_updated_at := now\<rparr>;
              t = to_protocol_thread metadata'
          in (m\<lparr>mgr_store := upsert_thread ser metadata' (mgr_store m),
                mgr_running := (mgr_running m)(pt_id t \<mapsto> t)\<rparr>, Inr (Some t))))"

definition set_thread_goal ::
  "int \<Rightarrow> string \<Rightarrow> string \<Rightarrow> string \<Rightarrow> int option \<Rightarrow> thread_manager \<Rightarrow> thread_manager \<times> (string + thread_goal option)" where
  "set_thread_goal now uuid tid objective budget m =
     (case get_thread tid (mgr_store m) of
        Inl e \<Rightarrow> (m, Inl e)
      | Inr None \<Rightarrow> (m, Inr None)
      | Inr (Some metadata) \<Rightarrow>
         (let g = \<lparr>tg_thread_id = tid, tg_goal_id = ''goal-'' @ uuid, tg_objective = objective, tg_status = StActive,
                   tg_token_budget = budget, tg_tokens_used = 0, tg_time_used_seconds = 0,
                   tg_continuation_count = 0, tg_created_at = now, tg_updated_at = now\<rparr>
          in case upsert_thread_goal g (mgr_store m) of
               Inl e \<Rightarrow> (m, Inl e)
             | Inr s \<Rightarrow> (m\<lparr>mgr_store := s\<rparr>, Inr (Some (to_protocol_goal g)))))"

definition mgr_get_thread_goal :: "string \<Rightarrow> thread_manager \<Rightarrow> string + thread_goal option" where
  "mgr_get_thread_goal tid m = map_sum id (map_option to_protocol_goal) (get_thread_goal tid (mgr_store m))"

definition record_thread_goal_progress ::
  "(int_cell \<Rightarrow> int \<Rightarrow> int_cell) \<Rightarrow> int \<Rightarrow> goal_progress_params \<Rightarrow> thread_manager
     \<Rightarrow> thread_manager \<times> (string + thread_goal option)" where
  "record_thread_goal_progress fsum now p m =
     (case get_thread (gpp_thread_id p) (mgr_store m) of
        Inl e \<Rightarrow> (m, Inl e)
      | Inr None \<Rightarrow> (m, Inr None)
      | Inr (Some metadata) \<Rightarrow>
         (let (s, r) = (if gpp_token_delta p \<noteq> 0 \<or> gpp_time_delta_seconds p \<noteq> 0
                        then record_thread_goal_usage fsum (gpp_thread_id p) (gpp_token_delta p)
                               (gpp_time_delta_seconds p) now (mgr_store m)
                        else (mgr_store m, get_thread_goal (gpp_thread_id p) (mgr_store m)));
              m1 = m\<lparr>mgr_store := s\<rparr>
          in case r of
               Inl e \<Rightarrow> (m1, Inl e)
             | Inr g \<Rightarrow>
                 if \<not> gpp_record_continuation p then (m1, Inr (map_option to_protocol_goal g))
                 else (let (s', r') = record_thread_goal_continuation fsum (gpp_thread_id p) now s
                       in (m1\<lparr>mgr_store := s'\<rparr>, map_sum id (map_option to_protocol_goal) r'))))"

definition clear_thread_goal :: "string \<Rightarrow> thread_manager \<Rightarrow> thread_manager \<times> bool" where
  "clear_thread_goal tid m =
     (let (s, cleared) = delete_thread_goal tid (mgr_store m) in (m\<lparr>mgr_store := s\<rparr>, cleared))"

text \<open>\<open>if let Some(thread) = running_threads.get_mut(id)\<close>.\<close>

definition update_running :: "string \<Rightarrow> (protocol_thread \<Rightarrow> protocol_thread) \<Rightarrow> thread_manager \<Rightarrow> thread_manager" where
  "update_running tid f m =
     (case mgr_running m tid of None \<Rightarrow> m | Some t \<Rightarrow> m\<lparr>mgr_running := (mgr_running m)(tid \<mapsto> f t)\<rparr>)"

definition archive_thread :: "int \<Rightarrow> string \<Rightarrow> thread_manager \<Rightarrow> thread_manager" where
  "archive_thread now tid m =
     update_running tid (\<lambda>t. t\<lparr>pt_status := ProtoArchived\<rparr>) (m\<lparr>mgr_store := mark_archived now tid (mgr_store m)\<rparr>)"

definition unarchive_thread :: "string \<Rightarrow> thread_manager \<Rightarrow> thread_manager" where
  "unarchive_thread tid m = m\<lparr>mgr_store := mark_unarchived tid (mgr_store m)\<rparr>"

definition touch_message ::
  "(json \<Rightarrow> string) \<Rightarrow> int \<Rightarrow> string \<Rightarrow> string \<Rightarrow> thread_manager \<Rightarrow> thread_manager \<times> string option" where
  "touch_message ser now tid input m =
     (case get_thread tid (mgr_store m) of
        Inl e \<Rightarrow> (m, Some e)
      | Inr None \<Rightarrow> (m, None)
      | Inr (Some metadata) \<Rightarrow>
         (let metadata' = metadata\<lparr>tm_updated_at := now, tm_preview := truncate_preview input, tm_status := ThreadRunning\<rparr>;
              m1 = update_running tid (\<lambda>t. t\<lparr>pt_updated_at := now, pt_preview := truncate_preview input,
                       pt_status := ProtoRunning\<rparr>) (m\<lparr>mgr_store := upsert_thread ser metadata' (mgr_store m)\<rparr>)
          in case append_message ser now tid ''user'' input None (mgr_store m1) of
               Inl e \<Rightarrow> (m1, Some e)
             | Inr (s, mid) \<Rightarrow>
                (case save_checkpoint ser now tid ''latest''
                        (JObj [(''reason'', JStr ''thread_message''), (''message_id'', JInt mid), (''role'', JStr ''user''),
                               (''preview'', JStr (truncate_preview input)), (''updated_at'', JInt now)]) s of
                   Inl e \<Rightarrow> (m1\<lparr>mgr_store := s\<rparr>, Some e)
                 | Inr s' \<Rightarrow> (m1\<lparr>mgr_store := s'\<rparr>, None))))"

section \<open>Requests\<close>

datatype thread_request =
    Create
  | Start "string option" "string option" bool
  | ResumeThread resume_params
  | ForkThread fork_params
  | ListThreads bool "nat option"
  | ReadThread string
  | SetName string string
  | GoalSet string string "int option"
  | GoalGet string
  | GoalClear string
  | GoalRecordProgress goal_progress_params
  | ArchiveThread string
  | UnarchiveThread string
  | Message string string

datatype event_frame =
    ThreadGoalUpdated thread_goal
  | ThreadGoalCleared string
  | ResponseStart string
  | ResponseDelta string string
  | ResponseEnd string

record thread_response =
  rs_thread_id :: string
  rs_status :: string
  rs_thread :: "protocol_thread option"
  rs_threads :: "protocol_thread list"
  rs_goal :: "thread_goal option"
  rs_model :: "string option"
  rs_model_provider :: "string option"
  rs_cwd :: "string option"
  rs_approval_policy :: "string option"
  rs_sandbox :: "string option"
  rs_events :: "event_frame list"
  rs_data :: json

definition plain_response :: "string \<Rightarrow> string \<Rightarrow> json \<Rightarrow> thread_response" where
  "plain_response tid status data =
     \<lparr>rs_thread_id = tid, rs_status = status, rs_thread = None, rs_threads = [], rs_goal = None, rs_model = None,
      rs_model_provider = None, rs_cwd = None, rs_approval_policy = None, rs_sandbox = None, rs_events = [],
      rs_data = data\<rparr>"

definition thread_response_from_new :: "string \<Rightarrow> new_thread \<Rightarrow> thread_response" where
  "thread_response_from_new status n =
     \<lparr>rs_thread_id = pt_id (nt_thread n), rs_status = status, rs_thread = Some (nt_thread n), rs_threads = [],
      rs_goal = None, rs_model = Some (nt_model n), rs_model_provider = Some (nt_model_provider n),
      rs_cwd = Some (nt_cwd n), rs_approval_policy = nt_approval_policy n, rs_sandbox = nt_sandbox n,
      rs_events = [], rs_data = JObj []\<rparr>"

fun goal_status_json :: "protocol_goal_status \<Rightarrow> json" where
  "goal_status_json ProtoGoalActive = JStr ''active''"
| "goal_status_json ProtoGoalPaused = JStr ''paused''"
| "goal_status_json ProtoGoalBlocked = JStr ''blocked''"
| "goal_status_json ProtoGoalUsageLimited = JStr ''usage_limited''"
| "goal_status_json ProtoGoalBudgetLimited = JStr ''budget_limited''"
| "goal_status_json ProtoGoalComplete = JStr ''complete''"

definition goal_to_json :: "thread_goal \<Rightarrow> json" where
  "goal_to_json g =
     JObj ([(''thread_id'', JStr (pg_thread_id g)), (''goal_id'', JStr (pg_goal_id g)),
            (''objective'', JStr (pg_objective g)), (''status'', goal_status_json (pg_status g))]
       @ (case pg_token_budget g of None \<Rightarrow> [] | Some b \<Rightarrow> [(''token_budget'', JInt b)])
       @ [(''tokens_used'', JInt (pg_tokens_used g)), (''time_used_seconds'', JInt (pg_time_used_seconds g)),
          (''continuation_count'', JInt (pg_continuation_count g)), (''created_at'', JInt (pg_created_at g)),
          (''updated_at'', JInt (pg_updated_at g))])"

definition message_to_json :: "message_record \<Rightarrow> json" where
  "message_to_json m =
     JObj [(''id'', JInt (mg_id m)), (''role'', JStr (mg_role m)), (''content'', JStr (mg_content m)),
           (''item'', json_of_option id (mg_item m)), (''created_at'', JInt (mg_created_at m))]"

definition checkpoint_to_json :: "checkpoint_record \<Rightarrow> json" where
  "checkpoint_to_json c =
     JObj [(''checkpoint_id'', JStr (cp_checkpoint_id c)), (''state'', cp_state c), (''created_at'', JInt (cp_created_at c))]"

definition persisted_thread_data :: "(string \<Rightarrow> json option) \<Rightarrow> string \<Rightarrow> thread_manager \<Rightarrow> string + json" where
  "persisted_thread_data de tid m =
     (case list_messages de tid (Some 500) (mgr_store m) of
        Inl e \<Rightarrow> Inl e
      | Inr history \<Rightarrow>
         (case get_thread_goal tid (mgr_store m) of
            Inl e \<Rightarrow> Inl e
          | Inr goal \<Rightarrow>
              Inr (JObj [(''history'', JArr (map message_to_json history)),
                         (''checkpoint'', json_of_option checkpoint_to_json (load_checkpoint de tid None (mgr_store m))),
                         (''goal'', json_of_option (goal_to_json \<circ> to_protocol_goal) goal)])))"

definition persist_latest_checkpoint ::
  "(json \<Rightarrow> string) \<Rightarrow> int \<Rightarrow> string \<Rightarrow> string \<Rightarrow> json \<Rightarrow> state_store \<Rightarrow> string + state_store" where
  "persist_latest_checkpoint ser now tid reason state =
     save_checkpoint ser now tid ''latest''
       (JObj [(''reason'', JStr reason), (''saved_at'', JInt now), (''state'', state)])"

text \<open>The answer to a request that made or resumed a thread, with the data of the thread.\<close>

definition answer_with_data ::
  "(string \<Rightarrow> json option) \<Rightarrow> string \<Rightarrow> new_thread \<Rightarrow> thread_manager \<Rightarrow> thread_manager \<times> (string + thread_response)" where
  "answer_with_data de status n m =
     (m, case persisted_thread_data de (pt_id (nt_thread n)) m of
           Inl e \<Rightarrow> Inl e
         | Inr data \<Rightarrow> Inr ((thread_response_from_new status n)\<lparr>rs_data := data\<rparr>))"

definition not_found :: "string \<Rightarrow> string \<Rightarrow> thread_response" where
  "not_found tid what = plain_response tid ''missing'' (JObj [(''error'', JStr what)])"

definition goal_answer :: "string \<Rightarrow> thread_goal \<Rightarrow> thread_response" where
  "goal_answer tid g =
     (plain_response tid ''ok'' (JObj [(''goal'', goal_to_json g)]))
       \<lparr>rs_goal := Some g, rs_events := [ThreadGoalUpdated g]\<rparr>"

text \<open>What a request is run with: the codec, SQLite's floats, the time, a uuid, the current directory.\<close>

record runtime_env =
  env_ser :: "json \<Rightarrow> string"
  env_de :: "string \<Rightarrow> json option"
  env_fsum :: "int_cell \<Rightarrow> int \<Rightarrow> int_cell"
  env_now :: int
  env_uuid :: string
  env_cwd :: string

definition handle_thread ::
  "runtime_env \<Rightarrow> thread_request \<Rightarrow> thread_manager \<Rightarrow> thread_manager \<times> (string + thread_response)" where
  "handle_thread env req m =
     (case req of
        Create \<Rightarrow>
         (case spawn_thread_with_history (env_ser env) (env_now env) (env_uuid env) ''deepseek'' (env_cwd env)
                 HistoryNew False m of
            (m', Inl e) \<Rightarrow> (m', Inl e)
          | (m', Inr n) \<Rightarrow> answer_with_data (env_de env) ''created'' n m')
      | Start provider cwd persist \<Rightarrow>
         (case spawn_thread_with_history (env_ser env) (env_now env) (env_uuid env) (or_else provider ''deepseek'')
                 (or_else cwd (env_cwd env)) HistoryNew persist m of
            (m', Inl e) \<Rightarrow> (m', Inl e)
          | (m', Inr n) \<Rightarrow> answer_with_data (env_de env) ''started'' n m')
      | ResumeThread p \<Rightarrow>
         (case resume_thread_with_history (env_ser env) (env_now env) p (env_cwd env) ''deepseek'' m of
            (m', Inl e) \<Rightarrow> (m', Inl e)
          | (m', Inr (Some n)) \<Rightarrow> answer_with_data (env_de env) ''resumed'' n m'
          | (m', Inr None) \<Rightarrow> (m', Inr ((not_found (rp_thread_id p) ''thread not found'')
               \<lparr>rs_approval_policy := rp_approval_policy p, rs_sandbox := rp_sandbox p\<rparr>)))
      | ForkThread p \<Rightarrow>
         (case fork_thread (env_ser env) (env_now env) (env_uuid env) p (env_cwd env) m of
            (m', Inl e) \<Rightarrow> (m', Inl e)
          | (m', Inr (Some n)) \<Rightarrow> answer_with_data (env_de env) ''forked'' n m'
          | (m', Inr None) \<Rightarrow> (m', Inr ((not_found (fp_thread_id p) ''thread not found'')
               \<lparr>rs_approval_policy := fp_approval_policy p, rs_sandbox := fp_sandbox p\<rparr>)))
      | ListThreads archived limit \<Rightarrow>
         (m, map_sum id (\<lambda>ts. (plain_response ''list'' ''ok'' (JObj []))\<lparr>rs_threads := ts\<rparr>)
               (mgr_list_threads archived limit m))
      | ReadThread tid \<Rightarrow>
         (m, case persisted_thread_data (env_de env) tid m of
               Inl e \<Rightarrow> Inl e
             | Inr data \<Rightarrow>
                (case read_thread tid m of
                   Inl e \<Rightarrow> Inl e
                 | Inr t \<Rightarrow> map_sum id (\<lambda>g. (plain_response tid ''ok'' data)\<lparr>rs_thread := t, rs_goal := g\<rparr>)
                     (mgr_get_thread_goal tid m)))
      | SetName tid name \<Rightarrow>
         (case set_thread_name (env_ser env) (env_now env) tid name m of
            (m', r) \<Rightarrow> (m', map_sum id (\<lambda>t. (plain_response tid ''ok'' (JObj []))\<lparr>rs_thread := t\<rparr>) r))
      | GoalSet tid objective budget \<Rightarrow>
         (case set_thread_goal (env_now env) (env_uuid env) tid objective budget m of
            (m', r) \<Rightarrow> (m', map_sum id (\<lambda>g. case g of
                Some goal \<Rightarrow> goal_answer tid goal | None \<Rightarrow> not_found tid ''thread not found'') r))
      | GoalGet tid \<Rightarrow>
         (m, map_sum id (\<lambda>g. (plain_response tid ''ok'' (JObj [(''goal'', json_of_option goal_to_json g)]))
                \<lparr>rs_goal := g\<rparr>) (mgr_get_thread_goal tid m))
      | GoalClear tid \<Rightarrow>
         (case clear_thread_goal tid m of
            (m', cleared) \<Rightarrow> (m', Inr ((plain_response tid (if cleared then ''cleared'' else ''empty'')
                  (JObj [(''cleared'', JBool cleared)]))
                \<lparr>rs_events := (if cleared then [ThreadGoalCleared tid] else [])\<rparr>)))
      | GoalRecordProgress p \<Rightarrow>
         (case record_thread_goal_progress (env_fsum env) (env_now env) p m of
            (m', r) \<Rightarrow> (m', map_sum id (\<lambda>g. case g of
                Some goal \<Rightarrow> goal_answer (gpp_thread_id p) goal
              | None \<Rightarrow> not_found (gpp_thread_id p) ''thread or goal not found'') r))
      | ArchiveThread tid \<Rightarrow> (archive_thread (env_now env) tid m, Inr (plain_response tid ''archived'' (JObj [])))
      | UnarchiveThread tid \<Rightarrow> (unarchive_thread tid m, Inr (plain_response tid ''unarchived'' (JObj [])))
      | Message tid input \<Rightarrow>
         (case touch_message (env_ser env) (env_now env) tid input m of
            (m', Some e) \<Rightarrow> (m', Inl e)
          | (m', None) \<Rightarrow>
             (let rid = tid @ '':'' @ show_nat (length input)
              in (m', Inr ((plain_response tid ''accepted'' (JObj []))
                   \<lparr>rs_events := [ResponseStart rid, ResponseDelta rid ''queued'', ResponseEnd rid]\<rparr>)))))"

section \<open>Requests and the store\<close>

lemma append_reachable:
  "append_message ser now tid role content item s = Inr (s', mid) \<Longrightarrow> store_reachable ser numeric fsum s \<Longrightarrow>
   store_reachable ser numeric fsum s'"
  by (blast intro: reach_step step_append)

lemma append_history_reachable:
  "store_reachable ser numeric fsum s \<Longrightarrow> store_reachable ser numeric fsum (fst (append_history ser now tid items s))"
proof (induction items arbitrary: s)
  case (Cons item items)
  then show ?case
    by (cases "append_message ser now tid ''history'' (ser item) (Some item) s")
      (auto dest: append_reachable)
qed simp

lemma persist_reachable:
  "store_reachable ser numeric fsum s \<Longrightarrow> store_reachable ser numeric fsum (persist_thread ser t rollout s)"
  unfolding persist_thread_def by (rule reach_step [OF _ step_upsert])

lemma spawn_reachable:
  "store_reachable ser numeric fsum (mgr_store m) \<Longrightarrow>
   store_reachable ser numeric fsum (mgr_store (fst (spawn_thread_with_history ser now uuid provider cwd history persist m)))"
  using append_history_reachable [OF persist_reachable]
  by (simp add: spawn_thread_with_history_def Let_def split_beta split: option.split)

lemma resume_reachable:
  "store_reachable ser numeric fsum (mgr_store m) \<Longrightarrow>
   store_reachable ser numeric fsum (mgr_store (fst (resume_thread_with_history ser now p cwd provider m)))"
  using append_history_reachable [OF persist_reachable]
  by (simp add: resume_thread_with_history_def Let_def split_beta split: option.split sum.split)

lemma fork_reachable:
  "store_reachable ser numeric fsum (mgr_store m) \<Longrightarrow>
   store_reachable ser numeric fsum (mgr_store (fst (fork_thread ser now uuid p cwd m)))"
  using spawn_reachable by (simp add: fork_thread_def Let_def split_beta split: option.split sum.split)

lemma update_running_store [simp]: "mgr_store (update_running tid f m) = mgr_store m"
  by (simp add: update_running_def split: option.split)

lemma touch_reachable:
  assumes "store_reachable ser numeric fsum (mgr_store m)"
  shows "store_reachable ser numeric fsum (mgr_store (fst (touch_message ser now tid input m)))"
proof -
  have up: "store_reachable ser numeric fsum (upsert_thread ser t (mgr_store m))" for t
    by (rule reach_step [OF assms step_upsert])
  then have app: "append_message ser now tid role input item (upsert_thread ser t (mgr_store m)) = Inr (s, mid) \<Longrightarrow>
      store_reachable ser numeric fsum s" for t role item s mid
    by (blast intro: reach_step step_append)
  have ck: "append_message ser now tid role input item (upsert_thread ser t (mgr_store m)) = Inr (s, mid) \<Longrightarrow>
      save_checkpoint ser now tid cid v s = Inr s' \<Longrightarrow> store_reachable ser numeric fsum s'" for t role item s mid cid v s'
    by (blast intro: app reach_step step_checkpoint)
  show ?thesis
    using assms up by (auto simp: touch_message_def Let_def split: option.split sum.split intro: app ck)
qed

lemma goal_reachable:
  assumes "store_reachable ser numeric fsum (mgr_store m)"
  shows "store_reachable ser numeric fsum (mgr_store (fst (set_thread_goal now uuid tid objective budget m)))"
    "store_reachable ser numeric fsum (mgr_store (fst (record_thread_goal_progress fsum now p m)))"
    "store_reachable ser numeric fsum (mgr_store (fst (clear_thread_goal tid m)))"
proof -
  show "store_reachable ser numeric fsum (mgr_store (fst (set_thread_goal now uuid tid objective budget m)))"
    using assms by (auto simp: set_thread_goal_def Let_def split: option.split sum.split intro: reach_step step_goal)
  have usage: "store_reachable ser numeric fsum
      (fst (record_thread_goal_usage fsum tid tokens seconds now (mgr_store m)))" for tid tokens seconds
    by (rule reach_step [OF assms step_usage])
  have continuation: "store_reachable ser numeric fsum s \<Longrightarrow>
      store_reachable ser numeric fsum (fst (record_thread_goal_continuation fsum tid now s))" for s tid
    by (rule reach_step [OF _ step_continuation])
  show "store_reachable ser numeric fsum (mgr_store (fst (record_thread_goal_progress fsum now p m)))"
    using assms usage continuation
    by (simp add: record_thread_goal_progress_def Let_def split_beta split: option.split sum.split)
  show "store_reachable ser numeric fsum (mgr_store (fst (clear_thread_goal tid m)))"
    using reach_step [OF assms step_drop_goal] by (simp add: clear_thread_goal_def split_beta Let_def)
qed

text \<open>Every request is made of operations of the store.\<close>

lemma set_thread_name_reachable:
  "store_reachable ser numeric fsum (mgr_store m) \<Longrightarrow>
   store_reachable ser numeric fsum (mgr_store (fst (set_thread_name ser now tid name m)))"
  by (auto simp: set_thread_name_def Let_def split: option.split sum.split intro: reach_step step_upsert)

lemma archive_reachable:
  "store_reachable ser numeric fsum (mgr_store m) \<Longrightarrow>
   store_reachable ser numeric fsum (mgr_store (archive_thread now tid m))"
  "store_reachable ser numeric fsum (mgr_store m) \<Longrightarrow>
   store_reachable ser numeric fsum (mgr_store (unarchive_thread tid m))"
  by (auto simp: archive_thread_def unarchive_thread_def intro: reach_step step_archive step_unarchive)

lemma answer_store [simp]: "fst (answer_with_data de status n m) = m"
  by (simp add: answer_with_data_def)

lemma request_reachable:
  assumes "store_reachable (env_ser env) numeric (env_fsum env) (mgr_store m)"
  shows "store_reachable (env_ser env) numeric (env_fsum env) (mgr_store (fst (handle_thread env req m)))"
proof (cases req)
  case Create
  then show ?thesis
    using spawn_reachable [OF assms, of "env_now env" "env_uuid env" "''deepseek''" "env_cwd env" HistoryNew False]
    by (auto simp: handle_thread_def split: prod.split sum.split)
next
  case (Start provider cwd persist)
  then show ?thesis
    using spawn_reachable [OF assms, of "env_now env" "env_uuid env" "or_else provider ''deepseek''"
        "or_else cwd (env_cwd env)" HistoryNew persist]
    by (auto simp: handle_thread_def split: prod.split sum.split)
next
  case (ResumeThread p)
  then show ?thesis
    using resume_reachable [OF assms, of "env_now env" p "env_cwd env" "''deepseek''"]
    by (auto simp: handle_thread_def split: prod.split sum.split option.split)
next
  case (ForkThread p)
  then show ?thesis
    using fork_reachable [OF assms, of "env_now env" "env_uuid env" p "env_cwd env"]
    by (auto simp: handle_thread_def split: prod.split sum.split option.split)
next
  case (SetName tid name)
  then show ?thesis
    using set_thread_name_reachable [OF assms, of "env_now env" tid name]
    by (auto simp: handle_thread_def split: prod.split)
next
  case (GoalSet tid objective budget)
  then show ?thesis
    using goal_reachable(1) [OF assms, of "env_now env" "env_uuid env" tid objective budget]
    by (auto simp: handle_thread_def split: prod.split)
next
  case (GoalClear tid)
  then show ?thesis
    using goal_reachable(3) [OF assms, of tid] by (auto simp: handle_thread_def split: prod.split)
next
  case (GoalRecordProgress p)
  then show ?thesis
    using goal_reachable(2) [OF assms, of "env_now env" p] by (auto simp: handle_thread_def split: prod.split)
next
  case (Message tid input)
  then show ?thesis
    using touch_reachable [OF assms, of "env_now env" tid input]
    by (auto simp: handle_thread_def Let_def split: prod.split option.split)
qed (use assms archive_reachable [OF assms] in \<open>simp_all add: handle_thread_def\<close>)

section \<open>The running threads\<close>

text \<open>What the store shows of a thread in the protocol.\<close>

definition shown :: "string \<Rightarrow> state_store \<Rightarrow> protocol_thread option" where
  "shown tid s = (case get_thread tid s of Inr (Some t) \<Rightarrow> Some (to_protocol_thread t) | _ \<Rightarrow> None)"

definition readable :: "leaf_cell \<Rightarrow> bool" where
  "readable leaf \<longleftrightarrow> (case leaf_value leaf of Inl e \<Rightarrow> False | Inr i \<Rightarrow> True)"

definition rows_readable :: "state_store \<Rightarrow> bool" where
  "rows_readable s \<longleftrightarrow> list_all (\<lambda>r. readable (tw_current_leaf_id r)) (st_threads s)"

lemma readable_simps [simp]: "readable LeafNull" "readable (LeafInt i)"
  by (simp_all add: readable_def)

lemma to_protocol_leaf [simp]: "to_protocol_thread (t\<lparr>tm_current_leaf_id := leaf\<rparr>) = to_protocol_thread t"
  by (simp add: to_protocol_thread_def)

lemma protocol_status_inverse [simp]: "to_protocol_status (to_persisted_status st) = st"
  by (cases st) simp_all

lemma protocol_source_inverse [simp]: "to_protocol_source (to_persisted_source src) = src"
  by (cases src) simp_all

lemma persisted_thread_shown [simp]: "to_protocol_thread (persisted_thread t rollout) = t"
  by (simp add: to_protocol_thread_def persisted_thread_def)

text \<open>A row as the protocol shows it, without its leaf.\<close>

definition row_shown :: "thread_row \<Rightarrow> protocol_thread" where
  "row_shown r =
     \<lparr>pt_id = tw_id r, pt_preview = tw_preview r, pt_ephemeral = i64_to_bool (tw_ephemeral r),
      pt_model_provider = tw_model_provider r, pt_created_at = tw_created_at r, pt_updated_at = tw_updated_at r,
      pt_status = to_protocol_status (thread_status_from_str (tw_status r)), pt_path = tw_path r, pt_cwd = tw_cwd r,
      pt_cli_version = tw_cli_version r, pt_source = to_protocol_source (session_source_from_str (tw_source r)),
      pt_name = tw_title r\<rparr>"

lemma row_shown_eq: "row_to_thread r = Inr t \<Longrightarrow> to_protocol_thread t = row_shown r"
  by (auto simp: row_to_thread_def to_protocol_thread_def row_shown_def split: sum.splits)

lemma row_shown_of_thread [simp]: "row_shown (row_of_thread leaf t) = to_protocol_thread t"
  by (simp add: row_shown_def row_of_thread_def to_protocol_thread_def)

lemma row_shown_leaf [simp]: "row_shown (r\<lparr>tw_current_leaf_id := leaf\<rparr>) = row_shown r"
  by (simp add: row_shown_def)

lemma row_readable: "readable (tw_current_leaf_id r) \<longleftrightarrow> (\<exists>t. row_to_thread r = Inr t)"
  by (simp add: readable_def row_to_thread_def split: sum.split)

lemma rows_readable_row:
  "rows_readable s \<Longrightarrow> find_thread_row tid s = Some r \<Longrightarrow> readable (tw_current_leaf_id r)"
  by (auto simp: rows_readable_def find_thread_row_def find_Some_iff list_all_iff)

lemma shown_row: "rows_readable s \<Longrightarrow> shown tid s = map_option row_shown (find_thread_row tid s)"
proof (cases "find_thread_row tid s")
  case None
  then show ?thesis by (simp add: shown_def get_thread_def)
next
  case (Some r)
  moreover assume "rows_readable s"
  ultimately obtain t where "row_to_thread r = Inr t" using rows_readable_row row_readable by blast
  then show ?thesis using Some by (simp add: shown_def get_thread_def with_context_def row_shown_eq)
qed

lemma get_thread_row:
  "rows_readable s \<Longrightarrow> get_thread tid s = Inr (Some t) \<Longrightarrow> shown tid s = Some (to_protocol_thread t) \<and> tm_id t = tid"
  by (auto simp: shown_def get_thread_def with_context_def row_to_thread_def find_thread_row_def find_Some_iff
      split: option.splits sum.splits)

text \<open>How the operations change what is shown.\<close>

lemma readable_update:
  "rows_readable s \<Longrightarrow> (\<And>r. readable (tw_current_leaf_id r) \<Longrightarrow> readable (tw_current_leaf_id (f r))) \<Longrightarrow>
   rows_readable (update_thread_rows tid f s)"
  by (auto simp: rows_readable_def update_thread_rows_def list_all_iff)

lemma readable_upsert: "rows_readable s \<Longrightarrow> rows_readable (upsert_thread ser t s)"
  by (auto simp: upsert_thread_def rows_readable_def update_thread_rows_def list_all_iff row_of_thread_def)

lemma shown_upsert:
  "rows_readable s \<Longrightarrow> shown tid (upsert_thread ser t s) = (if tid = tm_id t then Some (to_protocol_thread t) else shown tid s)"
  by (simp add: shown_row readable_upsert find_upsert)

lemma readable_append:
  assumes "append_message ser now tid role content item s = Inr (s', mid)" and "rows_readable s"
  shows "rows_readable s'" "shown t s' = shown t s"
proof -
  obtain parent where add: "add_message ser now tid role content item parent s = Some (s', mid)"
    using assms(1) by (elim append_message_adds)
  then have "st_threads s' = st_threads (set_leaf tid (LeafInt mid) s)"
    by (auto simp: add_message_def Let_def set_leaf_def update_thread_rows_def split: if_splits)
  then show readable: "rows_readable s'"
    using readable_update [OF assms(2), of "\<lambda>r. r\<lparr>tw_current_leaf_id := LeafInt mid\<rparr>" tid]
    by (simp add: rows_readable_def set_leaf_def)
  show "shown t s' = shown t s"
    using add_message_result(4) [OF add, of t]
    by (cases "find_thread_row t s") (auto simp: shown_row readable assms(2))
qed

lemma readable_history:
  "rows_readable s \<Longrightarrow> rows_readable (fst (append_history ser now tid items s)) \<and>
   shown t (fst (append_history ser now tid items s)) = shown t s"
proof (induction items arbitrary: s)
  case (Cons item items)
  show ?case
  proof (cases "append_message ser now tid ''history'' (ser item) (Some item) s")
    case (Inl e)
    then show ?thesis using Cons.prems by simp
  next
    case (Inr p)
    obtain s' mid where p: "p = (s', mid)" by (cases p)
    then show ?thesis using Cons.IH [of s'] readable_append [of ser now tid _ _ _ s s' mid] Inr Cons.prems by simp
  qed
qed simp

lemma shown_tables: "st_threads s' = st_threads s \<Longrightarrow> shown t s' = shown t s \<and> rows_readable s' = rows_readable s"
  by (simp add: shown_def get_thread_def find_thread_row_def rows_readable_def)

lemma readable_archive:
  assumes "rows_readable s"
  shows "rows_readable (mark_archived now tid s)" "rows_readable (mark_unarchived tid s)"
    "shown t (mark_archived now tid s) = (if t = tid then map_option (\<lambda>p. p\<lparr>pt_status := ProtoArchived\<rparr>) (shown t s) else shown t s)"
    "shown t (mark_unarchived tid s) = shown t s"
proof -
  show archived: "rows_readable (mark_archived now tid s)"
    unfolding mark_archived_def by (rule readable_update [OF assms]) simp
  show unarchived: "rows_readable (mark_unarchived tid s)"
    unfolding mark_unarchived_def by (rule readable_update [OF assms]) simp
  have "find_thread_row t (mark_archived now tid s) = (if t = tid
      then map_option (\<lambda>r. r\<lparr>tw_archived := 1, tw_archived_at := Some now, tw_status := thread_status_to_str ThreadArchived\<rparr>)
        (find_thread_row t s) else find_thread_row t s)"
    unfolding mark_archived_def by (rule find_update_thread_rows) simp
  then show "shown t (mark_archived now tid s) = (if t = tid then map_option (\<lambda>p. p\<lparr>pt_status := ProtoArchived\<rparr>) (shown t s) else shown t s)"
    by (cases "find_thread_row t s")
      (auto simp: shown_row [OF archived] shown_row [OF assms] row_shown_def thread_status_from_str_def)
  have "find_thread_row t (mark_unarchived tid s) = (if t = tid
      then map_option (\<lambda>r. r\<lparr>tw_archived := 0, tw_archived_at := None\<rparr>) (find_thread_row t s) else find_thread_row t s)"
    unfolding mark_unarchived_def by (rule find_update_thread_rows) simp
  then show "shown t (mark_unarchived tid s) = shown t s"
    by (cases "find_thread_row t s") (auto simp: shown_row [OF unarchived] shown_row [OF assms] row_shown_def)
qed

section \<open>Running threads mirror the store\<close>

definition mirrors :: "thread_manager \<Rightarrow> bool" where
  "mirrors m \<longleftrightarrow> rows_readable (mgr_store m) \<and>
     (\<forall>tid t. mgr_running m tid = Some t \<longrightarrow> shown tid (mgr_store m) = Some t)"

lemma persisted_thread_id: "tm_id (persisted_thread t rollout) = pt_id t"
  by (simp add: persisted_thread_def)

lemma to_protocol_thread_id: "pt_id (to_protocol_thread t) = tm_id t"
  by (simp add: to_protocol_thread_def)

lemma mirrorsI:
  "rows_readable (mgr_store m) \<Longrightarrow> (\<And>tid t. mgr_running m tid = Some t \<Longrightarrow> shown tid (mgr_store m) = Some t) \<Longrightarrow> mirrors m"
  by (simp add: mirrors_def)

lemma mirrorsD:
  "mirrors m \<Longrightarrow> rows_readable (mgr_store m)"
  "mirrors m \<Longrightarrow> mgr_running m tid = Some t \<Longrightarrow> shown tid (mgr_store m) = Some t"
  by (simp_all add: mirrors_def)

lemma mirrors_same:
  "mirrors m \<Longrightarrow> rows_readable s \<Longrightarrow> (\<And>t. shown t s = shown t (mgr_store m)) \<Longrightarrow> mirrors (m\<lparr>mgr_store := s\<rparr>)"
  by (simp add: mirrors_def)

text \<open>A thread written to the store and to its running copy.\<close>

lemma mirrors_put:
  "mirrors m \<Longrightarrow> tm_id t = tid \<Longrightarrow> to_protocol_thread t = p \<Longrightarrow>
   mirrors (m\<lparr>mgr_store := upsert_thread ser t (mgr_store m), mgr_running := (mgr_running m)(tid \<mapsto> p)\<rparr>)"
  by (auto simp: mirrors_def readable_upsert shown_upsert)

lemma mirrors_update:
  assumes "mirrors m" and "get_thread tid (mgr_store m) = Inr (Some old)" and "tm_id t = tid"
    and "to_protocol_thread t = f (to_protocol_thread old)"
  shows "mirrors (update_running tid f (m\<lparr>mgr_store := upsert_thread ser t (mgr_store m)\<rparr>))"
proof -
  have "shown tid (mgr_store m) = Some (to_protocol_thread old)"
    using get_thread_row [OF mirrorsD(1) [OF assms(1)] assms(2)] by simp
  then show ?thesis
    using assms mirrorsD [OF assms(1)]
    by (cases "mgr_running m tid") (auto simp: update_running_def mirrors_def readable_upsert shown_upsert)
qed

lemma mirrors_history:
  assumes "mirrors m"
  shows "mirrors (m\<lparr>mgr_store := fst (append_history ser now tid items (mgr_store m))\<rparr>)"
  using readable_history [OF mirrorsD(1) [OF assms]] by (intro mirrors_same [OF assms]) auto

lemma mirrors_spawn:
  assumes "mirrors m" and fresh: "\<not> thread_exists (''thread-'' @ uuid) (mgr_store m)"
  shows "mirrors (fst (spawn_thread_with_history ser now uuid provider cwd history persist m))"
proof -
  define t where "t = spawned_thread ser now uuid (mgr_cli_version m) provider cwd history persist"
  define s1 where "s1 = persist_thread ser t None (mgr_store m)"
  define s where "s = fst (append_history ser now (pt_id t) (history_items history) s1)"
  have tid: "pt_id t = ''thread-'' @ uuid" by (simp add: t_def spawned_thread_def)
  have "find_thread_row (pt_id t) (mgr_store m) = None"
    using fresh by (simp add: tid thread_exists_def find_thread_row_def find_none_list_ex)
  then have none: "mgr_running m (pt_id t) = None"
    using mirrorsD(1) [OF assms(1)] mirrorsD(2) [OF assms(1), of "pt_id t"] shown_row [of "mgr_store m" "pt_id t"] by fastforce
  have s1: "rows_readable s1" "shown x s1 = (if x = pt_id t then Some t else shown x (mgr_store m))" for x
    using mirrorsD(1) [OF assms(1)]
    by (simp_all add: s1_def persist_thread_def readable_upsert shown_upsert)
      (simp_all add: persisted_thread_def)
  have s: "rows_readable s" "shown x s = (if x = pt_id t then Some t else shown x (mgr_store m))" for x
    using readable_history [OF s1(1)] s1(2) by (simp_all add: s_def)
  show ?thesis
    using mirrorsD(2) [OF assms(1)] s none
    by (auto simp: spawn_thread_with_history_def Let_def split_beta t_def [symmetric] s1_def [symmetric]
        s_def [symmetric] mirrors_def split: option.split)
qed

lemma mirrors_fork:
  "mirrors m \<Longrightarrow> \<not> thread_exists (''thread-'' @ uuid) (mgr_store m) \<Longrightarrow> mirrors (fst (fork_thread ser now uuid p cwd m))"
  using mirrors_spawn by (auto simp: fork_thread_def Let_def split_beta split: option.split sum.split)

lemma mirrors_resume:
  assumes "mirrors m"
  shows "mirrors (fst (resume_thread_with_history ser now p cwd provider m))"
proof -
  have put: "mirrors (m\<lparr>mgr_store := persist_thread ser t None (mgr_store m),
      mgr_running := (mgr_running m)(pt_id t \<mapsto> t)\<rparr>)" for t
    unfolding persist_thread_def by (rule mirrors_put [OF assms]) (simp_all add: persisted_thread_id)
  have "mirrors (m\<lparr>mgr_store := fst (append_history ser now tid items (persist_thread ser t None (mgr_store m))),
      mgr_running := (mgr_running m)(tid \<mapsto> t)\<rparr>)" if "pt_id t = tid" for t tid items
    using mirrors_history [OF put [of t], of ser now tid items] that by (simp add: mirrors_def)
  then show ?thesis
    using assms by (auto simp: resume_thread_with_history_def Let_def split_beta mirrors_def split: option.split sum.split)
qed

lemma mirrors_name: "mirrors m \<Longrightarrow> mirrors (fst (set_thread_name ser now tid name m))"
  by (auto simp: set_thread_name_def Let_def to_protocol_thread_id intro!: mirrors_put split: option.split sum.split)

lemma mirrors_goal:
  assumes "mirrors m"
  shows "mirrors (fst (set_thread_goal now uuid tid objective budget m))"
    "mirrors (fst (record_thread_goal_progress fsum now p m))" "mirrors (fst (clear_thread_goal tid m))"
proof -
  have goals: "st_threads s = st_threads (mgr_store m) \<Longrightarrow> mirrors (m\<lparr>mgr_store := s\<rparr>)" for s
    using shown_tables [of s "mgr_store m"] mirrorsD(1) [OF assms] by (intro mirrors_same [OF assms]) auto
  have threads: "st_threads (fst (record_thread_goal_usage fsum tid tokens seconds now s)) = st_threads s"
    "st_threads (fst (record_thread_goal_continuation fsum tid now s)) = st_threads s"
    "st_threads (fst (delete_thread_goal tid s)) = st_threads s" for tid tokens seconds s
    by (simp_all add: record_thread_goal_usage_def record_thread_goal_continuation_def delete_thread_goal_def
        update_goal_rows_def Let_def)
  have set: "upsert_thread_goal g s = Inr s' \<Longrightarrow> st_threads s' = st_threads s" for g s s'
    by (auto simp: upsert_thread_goal_def update_goal_rows_def split: if_splits)
  show "mirrors (fst (set_thread_goal now uuid tid objective budget m))"
    using assms goals set by (auto simp: set_thread_goal_def Let_def split: option.split sum.split)
  show "mirrors (fst (clear_thread_goal tid m))"
    using goals threads(3) by (simp add: clear_thread_goal_def split_beta Let_def)
  show "mirrors (fst (record_thread_goal_progress fsum now p m))"
    using assms goals threads
    by (simp add: record_thread_goal_progress_def Let_def split_beta split: option.split sum.split)
qed

lemma mirrors_archive:
  assumes "mirrors m"
  shows "mirrors (archive_thread now tid m)" "mirrors (unarchive_thread tid m)"
proof -
  note readable = readable_archive [OF mirrorsD(1) [OF assms]]
  show "mirrors (archive_thread now tid m)"
    using mirrorsD(2) [OF assms] readable
    by (cases "mgr_running m tid") (auto simp: archive_thread_def update_running_def mirrors_def)
  show "mirrors (unarchive_thread tid m)"
    unfolding unarchive_thread_def using readable by (intro mirrors_same [OF assms]) auto
qed

lemma mirrors_touch:
  assumes "mirrors m"
  shows "mirrors (fst (touch_message ser now tid input m))"
proof (cases "get_thread tid (mgr_store m)")
  case (Inr found)
  show ?thesis
  proof (cases found)
    case (Some old)
    define new where "new = old\<lparr>tm_updated_at := now, tm_preview := truncate_preview input, tm_status := ThreadRunning\<rparr>"
    define m1 where "m1 = update_running tid (\<lambda>t. t\<lparr>pt_updated_at := now, pt_preview := truncate_preview input,
        pt_status := ProtoRunning\<rparr>) (m\<lparr>mgr_store := upsert_thread ser new (mgr_store m)\<rparr>)"
    have "get_thread tid (mgr_store m) = Inr (Some old)" using Inr Some by simp
    then have m1: "mirrors m1"
      unfolding m1_def using get_thread_row [OF mirrorsD(1) [OF assms]]
      by (intro mirrors_update [OF assms]) (auto simp: new_def to_protocol_thread_def)
    have store: "mgr_store m1 = upsert_thread ser new (mgr_store m)" by (simp add: m1_def)
    have app: "append_message ser now tid role input item (mgr_store m1) = Inr (s, mid) \<Longrightarrow>
        mirrors (m1\<lparr>mgr_store := s\<rparr>)" for role item s mid
      using readable_append [OF _ mirrorsD(1) [OF m1]] by (intro mirrors_same [OF m1]) blast+
    have ck: "append_message ser now tid role input item (mgr_store m1) = Inr (s, mid) \<Longrightarrow>
        save_checkpoint ser now tid cid v s = Inr s' \<Longrightarrow> mirrors (m1\<lparr>mgr_store := s'\<rparr>)" for role item s mid cid v s'
      using app [of role item s mid] shown_tables [of s' s] mirrors_same [of "m1\<lparr>mgr_store := s\<rparr>" s']
      by (auto simp: save_checkpoint_def mirrors_def split: if_splits)
    show ?thesis
      using m1 app [unfolded store] ck [unfolded store] by (auto simp: touch_message_def Inr Some new_def [symmetric] m1_def [symmetric] Let_def
          split: sum.split)
  qed (use assms Inr in \<open>simp add: touch_message_def\<close>)
qed (use assms in \<open>simp add: touch_message_def\<close>)

section \<open>Sessions\<close>

text \<open>Requests one after the other, each with its own time and a uuid no thread has.\<close>

inductive thread_session ::
  "(json \<Rightarrow> string) \<Rightarrow> (int_cell \<Rightarrow> int \<Rightarrow> int_cell) \<Rightarrow> thread_manager \<Rightarrow> thread_manager \<Rightarrow> bool" for ser fsum m0 where
  session_start: "thread_session ser fsum m0 m0"
| session_request: "thread_session ser fsum m0 m \<Longrightarrow> env_ser env = ser \<Longrightarrow> env_fsum env = fsum \<Longrightarrow>
     \<not> thread_exists (''thread-'' @ env_uuid env) (mgr_store m) \<Longrightarrow>
     thread_session ser fsum m0 (fst (handle_thread env req m))"

lemma request_mirrors:
  assumes "mirrors m" and "\<not> thread_exists (''thread-'' @ env_uuid env) (mgr_store m)"
  shows "mirrors (fst (handle_thread env req m))"
proof (cases req)
  case Create
  then show ?thesis
    using mirrors_spawn [OF assms, of "env_ser env" "env_now env" "''deepseek''" "env_cwd env" HistoryNew False]
    by (auto simp: handle_thread_def split: prod.split sum.split)
next
  case (Start provider cwd persist)
  then show ?thesis
    using mirrors_spawn [OF assms, of "env_ser env" "env_now env" "or_else provider ''deepseek''"
        "or_else cwd (env_cwd env)" HistoryNew persist]
    by (auto simp: handle_thread_def split: prod.split sum.split)
next
  case (ResumeThread p)
  then show ?thesis
    using mirrors_resume [OF assms(1), of "env_ser env" "env_now env" p "env_cwd env" "''deepseek''"]
    by (auto simp: handle_thread_def split: prod.split sum.split option.split)
next
  case (ForkThread p)
  then show ?thesis
    using mirrors_fork [OF assms, of "env_ser env" "env_now env" p "env_cwd env"]
    by (auto simp: handle_thread_def split: prod.split sum.split option.split)
next
  case (SetName tid name)
  then show ?thesis
    using mirrors_name [OF assms(1), of "env_ser env" "env_now env" tid name]
    by (auto simp: handle_thread_def split: prod.split)
next
  case (GoalSet tid objective budget)
  then show ?thesis
    using mirrors_goal(1) [OF assms(1), of "env_now env" "env_uuid env" tid objective budget]
    by (auto simp: handle_thread_def split: prod.split)
next
  case (GoalClear tid)
  then show ?thesis
    using mirrors_goal(3) [OF assms(1), of tid] by (auto simp: handle_thread_def split: prod.split)
next
  case (GoalRecordProgress p)
  then show ?thesis
    using mirrors_goal(2) [OF assms(1), of "env_fsum env" "env_now env" p]
    by (auto simp: handle_thread_def split: prod.split)
next
  case (Message tid input)
  then show ?thesis
    using mirrors_touch [OF assms(1), of "env_ser env" "env_now env" tid input]
    by (auto simp: handle_thread_def Let_def split: prod.split option.split)
qed (use assms mirrors_archive [OF assms(1)] in \<open>simp_all add: handle_thread_def\<close>)

section \<open>What a request changes\<close>

text \<open>One thread in the store: its row without the current leaf, its messages in their order (role, text, item, time),
  its checkpoints, its goal, its tools.\<close>

record thread_view =
  tv_row :: "thread_row option"
  tv_messages :: "(string \<times> string \<times> string option \<times> int) list"
  tv_checkpoint :: "string \<Rightarrow> (string \<times> int) option"
  tv_goal :: "goal_row option"
  tv_tools :: "tool_row list"

definition thread_view :: "string \<Rightarrow> state_store \<Rightarrow> thread_view" where
  "thread_view tid s =
     \<lparr>tv_row = map_option (\<lambda>r. r\<lparr>tw_current_leaf_id := LeafNull\<rparr>) (find_thread_row tid s),
      tv_messages = map (\<lambda>m. (mw_role m, mw_content m, mw_item_json m, mw_created_at m))
        (filter (\<lambda>m. mw_thread_id m = tid) (st_messages s)),
      tv_checkpoint = (\<lambda>cid. map_option (\<lambda>c. (cw_state_json c, cw_created_at c))
        (find (\<lambda>c. checkpoint_key c = (tid, cid)) (st_checkpoints s))),
      tv_goal = find (\<lambda>g. gw_thread_id g = tid) (st_goals s),
      tv_tools = filter (\<lambda>d. ow_thread_id d = tid) (st_tools s)\<rparr>"

definition put_thread :: "thread_metadata \<Rightarrow> thread_view \<Rightarrow> thread_view" where
  "put_thread t v = v\<lparr>tv_row := Some (row_of_thread LeafNull t)\<rparr>"

definition add_messages :: "(string \<times> string \<times> string option \<times> int) list \<Rightarrow> thread_view \<Rightarrow> thread_view" where
  "add_messages ms v = v\<lparr>tv_messages := tv_messages v @ ms\<rparr>"

lemma add_messages_simps [simp]: "add_messages [] v = v" "add_messages ms' (add_messages ms v) = add_messages (ms @ ms') v"
  by (simp_all add: add_messages_def)

lemma view_checkpoint_kept [simp]:
  "tv_checkpoint (add_messages ms v) = tv_checkpoint v" "tv_checkpoint (put_thread t v) = tv_checkpoint v"
  by (simp_all add: add_messages_def put_thread_def)

definition history_messages :: "(json \<Rightarrow> string) \<Rightarrow> int \<Rightarrow> json list \<Rightarrow> (string \<times> string \<times> string option \<times> int) list" where
  "history_messages ser now items = map (\<lambda>item. (''history'', ser item, Some (ser item), now)) items"

lemma history_messages_simps [simp]:
  "history_messages ser now [] = []"
  "history_messages ser now (item # items) = (''history'', ser item, Some (ser item), now) # history_messages ser now items"
  by (simp_all add: history_messages_def)

definition found_thread :: "string \<Rightarrow> thread_manager \<Rightarrow> thread_metadata option" where
  "found_thread tid m = (case get_thread tid (mgr_store m) of Inr (Some t) \<Rightarrow> Some t | _ \<Rightarrow> None)"

text \<open>The thread a request is about, and what it asks of it.\<close>

fun request_thread :: "runtime_env \<Rightarrow> thread_request \<Rightarrow> string option" where
  "request_thread env Create = Some (''thread-'' @ env_uuid env)"
| "request_thread env (Start provider cwd persist) = Some (''thread-'' @ env_uuid env)"
| "request_thread env (ForkThread p) = Some (''thread-'' @ env_uuid env)"
| "request_thread env (ResumeThread p) = Some (rp_thread_id p)"
| "request_thread env (SetName tid name) = Some tid"
| "request_thread env (GoalSet tid objective budget) = Some tid"
| "request_thread env (GoalClear tid) = Some tid"
| "request_thread env (GoalRecordProgress p) = Some (gpp_thread_id p)"
| "request_thread env (ArchiveThread tid) = Some tid"
| "request_thread env (UnarchiveThread tid) = Some tid"
| "request_thread env (Message tid input) = Some tid"
| "request_thread env (ListThreads archived limit) = None"
| "request_thread env (ReadThread tid) = None"
| "request_thread env (GoalGet tid) = None"

definition begun ::
  "runtime_env \<Rightarrow> thread_manager \<Rightarrow> string \<Rightarrow> string \<Rightarrow> initial_history \<Rightarrow> bool \<Rightarrow> thread_view \<Rightarrow> thread_view" where
  "begun env m provider cwd history persist v =
     add_messages (history_messages (env_ser env) (env_now env) (history_items history))
       (put_thread (persisted_thread (spawned_thread (env_ser env) (env_now env) (env_uuid env) (mgr_cli_version m)
          provider cwd history persist) None) v)"

definition progressed :: "runtime_env \<Rightarrow> goal_progress_params \<Rightarrow> goal_row \<Rightarrow> goal_row" where
  "progressed env p g =
     (let g1 = (if gpp_token_delta p \<noteq> 0 \<or> gpp_time_delta_seconds p \<noteq> 0
                then g\<lparr>gw_tokens_used := sql_add (env_fsum env) (gw_tokens_used g) (gpp_token_delta p),
                       gw_time_used_seconds := sql_add (env_fsum env) (gw_time_used_seconds g) (gpp_time_delta_seconds p),
                       gw_updated_at := max (gw_updated_at g) (env_now env)\<rparr>
                else g)
      in if gpp_record_continuation p
         then g1\<lparr>gw_continuation_count := sql_add (env_fsum env) (gw_continuation_count g1) 1,
                 gw_updated_at := max (gw_updated_at g1) (env_now env)\<rparr>
         else g1)"

definition message_checkpoint :: "runtime_env \<Rightarrow> string \<Rightarrow> int \<Rightarrow> string" where
  "message_checkpoint env input mid = env_ser env
     (JObj [(''reason'', JStr ''thread_message''), (''message_id'', JInt mid), (''role'', JStr ''user''),
            (''preview'', JStr (truncate_preview input)), (''updated_at'', JInt (env_now env))])"

definition asked :: "runtime_env \<Rightarrow> thread_manager \<Rightarrow> thread_request \<Rightarrow> thread_view \<Rightarrow> thread_view" where
  "asked env m req v =
     (case req of
        Create \<Rightarrow> begun env m ''deepseek'' (env_cwd env) HistoryNew False v
      | Start provider cwd persist \<Rightarrow>
          begun env m (or_else provider ''deepseek'') (or_else cwd (env_cwd env)) HistoryNew persist v
      | ForkThread p \<Rightarrow>
         (case found_thread (fp_thread_id p) m of
            None \<Rightarrow> v
          | Some parent \<Rightarrow> begun env m (or_else (fp_model_provider p) (tm_model_provider parent))
              (or_else (fp_cwd p) (env_cwd env))
              (HistoryForked [JObj [(''type'', JStr ''fork''), (''from_thread_id'', JStr (fp_thread_id p))]])
              (fp_persist_extended_history p) v)
      | ResumeThread p \<Rightarrow>
         (case (if rp_history p = None then mgr_running m (rp_thread_id p) else None, found_thread (rp_thread_id p) m) of
            (None, Some t) \<Rightarrow>
              add_messages (history_messages (env_ser env) (env_now env) (or_else (rp_history p) []))
                (put_thread (persisted_thread ((to_protocol_thread t)\<lparr>pt_status := ProtoRunning,
                   pt_updated_at := env_now env, pt_cwd := or_else (rp_cwd p) (env_cwd env)\<rparr>) None) v)
          | _ \<Rightarrow> v)
      | SetName tid name \<Rightarrow>
         (case found_thread tid m of
            None \<Rightarrow> v
          | Some t \<Rightarrow> put_thread (t\<lparr>tm_name := Some name, tm_updated_at := env_now env\<rparr>) v)
      | GoalSet tid objective budget \<Rightarrow>
         (case found_thread tid m of
            None \<Rightarrow> v
          | Some t \<Rightarrow> v\<lparr>tv_goal := Some \<lparr>gw_thread_id = tid, gw_goal_id = ''goal-'' @ env_uuid env,
              gw_objective = objective, gw_status = ''active'', gw_token_budget = budget, gw_tokens_used = IntCell 0,
              gw_time_used_seconds = IntCell 0, gw_continuation_count = IntCell 0, gw_created_at = env_now env,
              gw_updated_at = env_now env\<rparr>\<rparr>)
      | GoalClear tid \<Rightarrow> v\<lparr>tv_goal := None\<rparr>
      | GoalRecordProgress p \<Rightarrow>
         (case found_thread (gpp_thread_id p) m of
            None \<Rightarrow> v | Some t \<Rightarrow> v\<lparr>tv_goal := map_option (progressed env p) (tv_goal v)\<rparr>)
      | ArchiveThread tid \<Rightarrow>
          v\<lparr>tv_row := map_option (\<lambda>r. r\<lparr>tw_archived := 1, tw_archived_at := Some (env_now env), tw_status := ''archived''\<rparr>)
              (tv_row v)\<rparr>
      | UnarchiveThread tid \<Rightarrow>
          v\<lparr>tv_row := map_option (\<lambda>r. r\<lparr>tw_archived := 0, tw_archived_at := None\<rparr>) (tv_row v)\<rparr>
      | Message tid input \<Rightarrow>
         (case found_thread tid m of
            None \<Rightarrow> v
          | Some t \<Rightarrow>
              (add_messages [(''user'', input, None, env_now env)]
                (put_thread (t\<lparr>tm_updated_at := env_now env, tm_preview := truncate_preview input,
                   tm_status := ThreadRunning\<rparr>) v))
              \<lparr>tv_checkpoint := (tv_checkpoint v)(''latest'' \<mapsto>
                 (message_checkpoint env input (st_message_seq (mgr_store m) + 1), env_now env))\<rparr>)
      | _ \<Rightarrow> v)"

text \<open>The reasons a request has to fail: a row, a goal or the data of the answer that cannot be read, message ids used up.\<close>

definition ids_used_up :: "nat \<Rightarrow> thread_manager \<Rightarrow> bool" where
  "ids_used_up n m \<longleftrightarrow> i64_max < st_message_seq (mgr_store m) + int n"

fun request_fault :: "runtime_env \<Rightarrow> thread_manager \<Rightarrow> thread_request \<Rightarrow> thread_manager \<Rightarrow> bool" where
  "request_fault env m Create m' \<longleftrightarrow> isl (persisted_thread_data (env_de env) (''thread-'' @ env_uuid env) m')"
| "request_fault env m (Start provider cwd persist) m' \<longleftrightarrow>
     isl (persisted_thread_data (env_de env) (''thread-'' @ env_uuid env) m')"
| "request_fault env m (ForkThread p) m' \<longleftrightarrow> isl (get_thread (fp_thread_id p) (mgr_store m)) \<or>
     isl (get_thread (''thread-'' @ env_uuid env) (mgr_store m)) \<or> ids_used_up 1 m \<or>
     isl (persisted_thread_data (env_de env) (''thread-'' @ env_uuid env) m')"
| "request_fault env m (ResumeThread p) m' \<longleftrightarrow> isl (get_thread (rp_thread_id p) (mgr_store m)) \<or>
     ids_used_up (length (or_else (rp_history p) [])) m \<or>
     isl (persisted_thread_data (env_de env) (case mgr_running m (rp_thread_id p) of None \<Rightarrow> rp_thread_id p
        | Some t \<Rightarrow> if rp_history p = None then pt_id t else rp_thread_id p) m')"
| "request_fault env m (ListThreads archived limit) m' \<longleftrightarrow> isl (mgr_list_threads archived limit m)"
| "request_fault env m (ReadThread tid) m' \<longleftrightarrow> isl (get_thread tid (mgr_store m)) \<or> isl (persisted_thread_data (env_de env) tid m)"
| "request_fault env m (SetName tid name) m' \<longleftrightarrow> isl (get_thread tid (mgr_store m))"
| "request_fault env m (GoalSet tid objective budget) m' \<longleftrightarrow> isl (get_thread tid (mgr_store m))"
| "request_fault env m (GoalGet tid) m' \<longleftrightarrow> isl (get_thread_goal tid (mgr_store m))"
| "request_fault env m (GoalClear tid) m' \<longleftrightarrow> False"
| "request_fault env m (GoalRecordProgress p) m' \<longleftrightarrow> isl (get_thread (gpp_thread_id p) (mgr_store m)) \<or>
     isl (get_thread_goal (gpp_thread_id p) (mgr_store m'))"
| "request_fault env m (ArchiveThread tid) m' \<longleftrightarrow> False"
| "request_fault env m (UnarchiveThread tid) m' \<longleftrightarrow> False"
| "request_fault env m (Message tid input) m' \<longleftrightarrow> isl (get_thread tid (mgr_store m)) \<or> ids_used_up 1 m"

subsection \<open>The operations of the store on a view\<close>

text \<open>An operation that changes one thread by \<open>f\<close>, and no other.\<close>

definition changes :: "string \<Rightarrow> (thread_view \<Rightarrow> thread_view) \<Rightarrow> state_store \<Rightarrow> state_store \<Rightarrow> bool" where
  "changes tid f s s' \<longleftrightarrow> (\<forall>t. thread_view t s' = (if t = tid then f (thread_view t s) else thread_view t s))"

lemma changes_trans: "changes tid f s s' \<Longrightarrow> changes tid g s' s'' \<Longrightarrow> changes tid (\<lambda>v. g (f v)) s s''"
  by (simp add: changes_def)

lemma changes_nothing: "changes tid (\<lambda>v. v) s s"
  by (simp add: changes_def)

lemma changes_upsert: "changes (tm_id t) (put_thread t) s (upsert_thread ser t s)"
proof -
  have "st_messages (upsert_thread ser t s) = st_messages s" "st_checkpoints (upsert_thread ser t s) = st_checkpoints s"
    "st_goals (upsert_thread ser t s) = st_goals s" "st_tools (upsert_thread ser t s) = st_tools s"
    by (simp_all add: upsert_thread_def update_thread_rows_def)
  then show ?thesis by (simp add: changes_def thread_view_def find_upsert put_thread_def row_of_thread_def)
qed

lemma changes_persist: "changes (pt_id t) (put_thread (persisted_thread t rollout)) s (persist_thread ser t rollout s)"
  using changes_upsert [of "persisted_thread t rollout"] by (simp add: persist_thread_def persisted_thread_id)

lemma changes_append:
  assumes "append_message ser now tid role content item s = Inr (s', mid)"
  shows "changes tid (add_messages [(role, content, map_option ser item, now)]) s s'" "mid = st_message_seq s + 1"
proof -
  obtain parent where add: "add_message ser now tid role content item parent s = Some (s', mid)"
    using assms by (elim append_message_adds)
  then have same: "st_checkpoints s' = st_checkpoints s" "st_goals s' = st_goals s" "st_tools s' = st_tools s"
    by (auto simp: add_message_def set_leaf_def update_thread_rows_def Let_def split: if_splits)
  note result = add_message_result [OF add]
  show "changes tid (add_messages [(role, content, map_option ser item, now)]) s s'"
    by (auto simp: changes_def thread_view_def same result(3,4) add_messages_def new_row_def option.map_comp comp_def)
  show "mid = st_message_seq s + 1" by (rule result(1))
qed

lemma changes_history:
  "append_history ser now tid items s = (s', err) \<Longrightarrow>
   \<exists>f. changes tid f s s' \<and> (err = None \<longrightarrow> f = add_messages (history_messages ser now items))"
proof (induction items arbitrary: s)
  case Nil
  then show ?case using changes_nothing by (auto simp: fun_eq_iff)
next
  case (Cons item items)
  show ?case
  proof (cases "append_message ser now tid ''history'' (ser item) (Some item) s")
    case (Inl e)
    then show ?thesis using Cons.prems changes_nothing by auto
  next
    case (Inr p)
    obtain s1 mid where p: "p = (s1, mid)" by (cases p)
    note one = changes_append(1) [OF Inr [unfolded p]]
    from Cons.IH [of s1] Cons.prems obtain f where f: "changes tid f s1 s'"
      "err = None \<longrightarrow> f = add_messages (history_messages ser now items)" by (auto simp: Inr p)
    show ?thesis using changes_trans [OF one f(1)] f(2) by (intro exI [of _ "\<lambda>v. f (add_messages _ v)"]) (auto simp: fun_eq_iff)
  qed
qed

lemma find_put:
  assumes "\<And>r. idf r = k' \<Longrightarrow> idf (f r) = k'" and "idf new = k'"
  shows "find (\<lambda>r. idf r = k) (if list_ex (\<lambda>r. idf r = k') rs then map (\<lambda>r. if idf r = k' then f r else r) rs else rs @ [new])
    = (if k = k' then Some (case find (\<lambda>r. idf r = k') rs of None \<Rightarrow> new | Some r \<Rightarrow> f r) else find (\<lambda>r. idf r = k) rs)"
proof -
  have mapped: "find (\<lambda>r. idf r = k) (map (\<lambda>r. if idf r = k' then f r else r) rs)
      = (if k = k' then map_option f (find (\<lambda>r. idf r = k') rs) else find (\<lambda>r. idf r = k) rs)"
    by (induction rs) (auto simp: assms(1))
  show ?thesis
  proof (cases "find (\<lambda>r. idf r = k') rs")
    case None
    then have "\<not> list_ex (\<lambda>r. idf r = k') rs" using find_none_list_ex by blast
    then have "?thesis \<longleftrightarrow> find (\<lambda>r. idf r = k) (rs @ [new]) = (if k = k' then Some new else find (\<lambda>r. idf r = k) rs)"
      by (simp only: None option.case if_False)
    then show ?thesis using None assms(2) by (cases "k = k'") (simp_all add: find_append split: option.split)
  next
    case (Some r)
    then have "list_ex (\<lambda>r. idf r = k') rs" using find_list_ex [of "\<lambda>r. idf r = k'" rs] by simp
    then show ?thesis by (simp add: mapped Some)
  qed
qed

lemma changes_goal:
  "upsert_thread_goal g s = Inr s' \<Longrightarrow> changes (tg_thread_id g) (\<lambda>v. v\<lparr>tv_goal := Some (row_of_goal g)\<rparr>) s s'"
  "changes tid (\<lambda>v. v\<lparr>tv_goal := None\<rparr>) s (fst (delete_thread_goal tid s))"
proof -
  have id: "gw_thread_id (row_of_goal g) = tg_thread_id g" by (simp add: row_of_goal_def)
  show "upsert_thread_goal g s = Inr s' \<Longrightarrow> changes (tg_thread_id g) (\<lambda>v. v\<lparr>tv_goal := Some (row_of_goal g)\<rparr>) s s'"
    using find_put [of gw_thread_id "tg_thread_id g" "\<lambda>r. row_of_goal g" "row_of_goal g" _ "st_goals s", OF id id]
    by (auto simp: upsert_thread_goal_def changes_def thread_view_def find_thread_row_def split: if_splits option.splits)
  show "changes tid (\<lambda>v. v\<lparr>tv_goal := None\<rparr>) s (fst (delete_thread_goal tid s))"
    by (simp add: changes_def thread_view_def delete_thread_goal_def find_thread_row_def find_filter_ne)
qed

lemma changes_goal_rows:
  assumes "\<And>r. gw_thread_id (f r) = gw_thread_id r"
  shows "changes tid (\<lambda>v. v\<lparr>tv_goal := map_option f (tv_goal v)\<rparr>) s (update_goal_rows tid f s)"
  by (simp add: changes_def thread_view_def update_goal_rows_def find_thread_row_def find_map_update [where idf = gw_thread_id, OF assms])

lemma update_rows_tables:
  "st_messages (update_thread_rows tid f s) = st_messages s" "st_checkpoints (update_thread_rows tid f s) = st_checkpoints s"
  "st_goals (update_thread_rows tid f s) = st_goals s" "st_tools (update_thread_rows tid f s) = st_tools s"
  by (simp_all add: update_thread_rows_def)

lemma changes_thread_rows:
  assumes "\<And>r. tw_id (f r) = tw_id r" and "\<And>r. (f r)\<lparr>tw_current_leaf_id := LeafNull\<rparr> = f (r\<lparr>tw_current_leaf_id := LeafNull\<rparr>)"
  shows "changes tid (\<lambda>v. v\<lparr>tv_row := map_option f (tv_row v)\<rparr>) s (update_thread_rows tid f s)"
  by (simp add: changes_def thread_view_def find_update_thread_rows [OF assms(1)] option.map_comp comp_def assms(2)
      update_rows_tables)

lemma changes_checkpoint:
  assumes "save_checkpoint ser now tid cid j s = Inr s'"
  shows "changes tid (\<lambda>v. v\<lparr>tv_checkpoint := (tv_checkpoint v)(cid \<mapsto> (ser j, now))\<rparr>) s s'"
proof -
  define f :: "checkpoint_row \<Rightarrow> checkpoint_row" where "f = (\<lambda>r. r\<lparr>cw_state_json := ser j, cw_created_at := now\<rparr>)"
  define new where "new = \<lparr>cw_thread_id = tid, cw_checkpoint_id = cid, cw_state_json = ser j, cw_created_at = now\<rparr>"
  have id: "checkpoint_key (f r) = checkpoint_key r" "checkpoint_key new = (tid, cid)" for r
    by (simp_all add: checkpoint_key_def f_def new_def)
  have s': "s' = s\<lparr>st_checkpoints := (if list_ex (\<lambda>r. checkpoint_key r = (tid, cid)) (st_checkpoints s)
      then map (\<lambda>r. if checkpoint_key r = (tid, cid) then f r else r) (st_checkpoints s) else st_checkpoints s @ [new])\<rparr>"
    unfolding f_def new_def using assms by (auto simp: save_checkpoint_def split: if_splits)
  have found: "find (\<lambda>c. checkpoint_key c = k) (st_checkpoints s') = (if k = (tid, cid)
      then Some (case find (\<lambda>c. checkpoint_key c = (tid, cid)) (st_checkpoints s) of None \<Rightarrow> new | Some r \<Rightarrow> f r)
      else find (\<lambda>c. checkpoint_key c = k) (st_checkpoints s))" for k
    unfolding s' using find_put [of checkpoint_key "(tid, cid)" f new k "st_checkpoints s"] id by simp
  have rest: "find_thread_row t s' = find_thread_row t s" "st_messages s' = st_messages s" "st_goals s' = st_goals s"
    "st_tools s' = st_tools s" for t by (simp_all add: s' find_thread_row_def)
  have "map_option (\<lambda>c. (cw_state_json c, cw_created_at c)) (find (\<lambda>c. checkpoint_key c = (t, x)) (st_checkpoints s'))
      = (if t = tid \<and> x = cid then Some (ser j, now)
         else map_option (\<lambda>c. (cw_state_json c, cw_created_at c)) (find (\<lambda>c. checkpoint_key c = (t, x)) (st_checkpoints s)))" for t x
    by (simp add: found f_def new_def split: option.split)
  then show ?thesis by (simp add: changes_def thread_view_def rest fun_eq_iff)
qed

subsection \<open>Every request\<close>

definition does :: "string \<Rightarrow> (thread_view \<Rightarrow> thread_view) \<Rightarrow> bool \<Rightarrow> state_store \<Rightarrow> state_store \<Rightarrow> bool" where
  "does tid g ok s s' \<longleftrightarrow> (\<exists>f. changes tid f s s' \<and> (ok \<longrightarrow> f = g))"

lemma doesI: "changes tid f s s' \<Longrightarrow> (ok \<Longrightarrow> f = g) \<Longrightarrow> does tid g ok s s'"
  by (auto simp: does_def)

lemma does_nothing: "(ok \<Longrightarrow> g = (\<lambda>v. v)) \<Longrightarrow> does tid g ok s s"
  by (rule doesI [OF changes_nothing]) simp

lemma get_thread_id: "get_thread tid s = Inr (Some t) \<Longrightarrow> tm_id t = tid"
  by (auto simp: get_thread_def with_context_def row_to_thread_def find_thread_row_def find_Some_iff
      split: option.splits sum.splits)

lemma found_thread_cases:
  obtains (unread) e where "get_thread tid (mgr_store m) = Inl e" "found_thread tid m = None"
  | (missing) "get_thread tid (mgr_store m) = Inr None" "found_thread tid m = None"
  | (found) t where "get_thread tid (mgr_store m) = Inr (Some t)" "found_thread tid m = Some t" "tm_id t = tid"
proof (cases "get_thread tid (mgr_store m)")
  case (Inl e)
  then show thesis using unread by (simp add: found_thread_def)
next
  case (Inr t)
  then show thesis using missing found get_thread_id by (cases t) (simp_all add: found_thread_def)
qed

lemma isl_map_sum [simp]: "isl (map_sum f g r) \<longleftrightarrow> isl r"
  by (cases r) simp_all

lemma persist_then_history:
  assumes "append_history ser now (pt_id t) items (persist_thread ser t None s) = (s', err)"
  shows "does (pt_id t) (\<lambda>v. add_messages (history_messages ser now items) (put_thread (persisted_thread t None) v))
    (err = None) s s'"
proof -
  obtain f where "changes (pt_id t) f (persist_thread ser t None s) s'"
    "err = None \<longrightarrow> f = add_messages (history_messages ser now items)" using changes_history [OF assms] by blast
  then show ?thesis using changes_trans [OF changes_persist] by (intro doesI) (blast, simp)
qed

lemma spawn_does:
  assumes "spawn_thread_with_history (env_ser env) (env_now env) (env_uuid env) provider cwd history persist m = (m', r)"
  shows "does (''thread-'' @ env_uuid env) (begun env m provider cwd history persist) (\<not> isl r) (mgr_store m) (mgr_store m')"
proof -
  define t where "t = spawned_thread (env_ser env) (env_now env) (env_uuid env) (mgr_cli_version m) provider cwd history persist"
  obtain s err where s: "append_history (env_ser env) (env_now env) (pt_id t) (history_items history)
      (persist_thread (env_ser env) t None (mgr_store m)) = (s, err)" by fastforce
  have "mgr_store m' = s" "\<not> isl r \<longleftrightarrow> err = None"
    using assms s by (auto simp: spawn_thread_with_history_def Let_def t_def split: option.splits)
  moreover have "pt_id t = ''thread-'' @ env_uuid env" by (simp add: t_def spawned_thread_def)
  ultimately show ?thesis
    using persist_then_history [OF s] by (simp add: begun_def [abs_def] t_def)
qed

lemma resume_does:
  assumes "resume_thread_with_history (env_ser env) (env_now env) p (env_cwd env) provider m = (m', r)"
  shows "does (rp_thread_id p) (asked env m (ResumeThread p)) (\<not> isl r) (mgr_store m) (mgr_store m')"
proof (cases "if rp_history p = None then mgr_running m (rp_thread_id p) else None")
  case (Some t)
  then have "m' = m" using assms by (simp add: resume_thread_with_history_def)
  then show ?thesis using Some by (auto simp: asked_def fun_eq_iff intro!: does_nothing)
next
  case None
  show ?thesis
  proof (cases rule: found_thread_cases [of "rp_thread_id p" m])
    case (found old)
    define t where "t = (to_protocol_thread old)\<lparr>pt_status := ProtoRunning, pt_updated_at := env_now env,
        pt_cwd := or_else (rp_cwd p) (env_cwd env)\<rparr>"
    obtain s err where s: "append_history (env_ser env) (env_now env) (pt_id t) (or_else (rp_history p) [])
        (persist_thread (env_ser env) t None (mgr_store m)) = (s, err)" by fastforce
    have "mgr_store m' = s" "\<not> isl r \<longleftrightarrow> err = None"
      using assms s found(1) None by (auto simp: resume_thread_with_history_def Let_def t_def split: option.splits)
    moreover have "pt_id t = rp_thread_id p" using found(3) by (simp add: t_def to_protocol_thread_id)
    moreover have "asked env m (ResumeThread p) = (\<lambda>v. add_messages (history_messages (env_ser env) (env_now env)
        (or_else (rp_history p) [])) (put_thread (persisted_thread t None) v))"
      using found(2) None by (simp add: asked_def fun_eq_iff t_def)
    ultimately show ?thesis using persist_then_history [OF s] by simp
  qed (use assms None in \<open>auto simp: resume_thread_with_history_def asked_def fun_eq_iff intro!: does_nothing\<close>)
qed

lemma fork_does:
  assumes "fork_thread (env_ser env) (env_now env) (env_uuid env) p (env_cwd env) m = (m', r)"
  shows "does (''thread-'' @ env_uuid env) (asked env m (ForkThread p)) (\<not> isl r) (mgr_store m) (mgr_store m')"
proof (cases rule: found_thread_cases [of "fp_thread_id p" m])
  case (found old)
  obtain m1 r1 where spawn: "spawn_thread_with_history (env_ser env) (env_now env) (env_uuid env)
      (or_else (fp_model_provider p) (tm_model_provider old)) (or_else (fp_cwd p) (env_cwd env))
      (HistoryForked [JObj [(''type'', JStr ''fork''), (''from_thread_id'', JStr (fp_thread_id p))]])
      (fp_persist_extended_history p) m = (m1, r1)" by fastforce
  then have "m' = m1" "isl r \<longleftrightarrow> isl r1"
    using assms found by (auto simp: fork_thread_def Let_def to_protocol_thread_def)
  then show ?thesis using spawn_does [OF spawn] found(2) by (simp add: asked_def [abs_def])
qed (use assms in \<open>auto simp: fork_thread_def asked_def fun_eq_iff intro!: does_nothing\<close>)

lemma name_does:
  assumes "set_thread_name (env_ser env) (env_now env) tid name m = (m', r)"
  shows "does tid (asked env m (SetName tid name)) (\<not> isl r) (mgr_store m) (mgr_store m')"
proof (cases rule: found_thread_cases [of tid m])
  case (found old)
  then show ?thesis
    using assms changes_upsert [of "old\<lparr>tm_name := Some name, tm_updated_at := env_now env\<rparr>"]
    by (intro doesI) (auto simp: set_thread_name_def Let_def asked_def fun_eq_iff)
qed (use assms in \<open>auto simp: set_thread_name_def asked_def fun_eq_iff intro!: does_nothing\<close>)

lemma goal_set_does:
  assumes "set_thread_goal (env_now env) (env_uuid env) tid objective budget m = (m', r)"
  shows "does tid (asked env m (GoalSet tid objective budget)) (\<not> isl r) (mgr_store m) (mgr_store m')"
proof (cases rule: found_thread_cases [of tid m])
  case (found old)
  define g where "g = \<lparr>tg_thread_id = tid, tg_goal_id = ''goal-'' @ env_uuid env, tg_objective = objective, tg_status = StActive,
      tg_token_budget = budget, tg_tokens_used = 0, tg_time_used_seconds = 0, tg_continuation_count = 0,
      tg_created_at = env_now env, tg_updated_at = env_now env\<rparr>"
  show ?thesis
  proof (cases "upsert_thread_goal g (mgr_store m)")
    case (Inl e)
    then have "m' = m" "isl r" using assms found(1) by (auto simp: set_thread_goal_def Let_def g_def)
    then show ?thesis by (auto intro: does_nothing)
  next
    case (Inr s)
    then have "mgr_store m' = s" using assms found(1) by (auto simp: set_thread_goal_def Let_def g_def)
    moreover have "tg_thread_id g = tid" by (simp add: g_def)
    ultimately show ?thesis
      using changes_goal(1) [OF Inr] found(2) by (intro doesI) (auto simp: asked_def fun_eq_iff row_of_goal_def g_def)
  qed
qed (use assms in \<open>auto simp: set_thread_goal_def asked_def fun_eq_iff intro!: does_nothing\<close>)

lemma usage_store:
  "fst (record_thread_goal_usage fsum tid tokens seconds now s)
     = update_goal_rows tid (\<lambda>r. r\<lparr>gw_tokens_used := sql_add fsum (gw_tokens_used r) tokens,
         gw_time_used_seconds := sql_add fsum (gw_time_used_seconds r) seconds,
         gw_updated_at := max (gw_updated_at r) now\<rparr>) s"
  "fst (record_thread_goal_continuation fsum tid now s)
     = update_goal_rows tid (\<lambda>r. r\<lparr>gw_continuation_count := sql_add fsum (gw_continuation_count r) 1,
         gw_updated_at := max (gw_updated_at r) now\<rparr>) s"
  by (simp_all add: record_thread_goal_usage_def record_thread_goal_continuation_def Let_def)

lemma progress_does:
  assumes "record_thread_goal_progress (env_fsum env) (env_now env) p m = (m', r)"
  shows "does (gpp_thread_id p) (asked env m (GoalRecordProgress p)) (\<not> isl r) (mgr_store m) (mgr_store m')"
proof (cases rule: found_thread_cases [of "gpp_thread_id p" m])
  case (found old)
  define f1 :: "goal_row \<Rightarrow> goal_row" where "f1 = (\<lambda>g. if gpp_token_delta p \<noteq> 0 \<or> gpp_time_delta_seconds p \<noteq> 0
      then g\<lparr>gw_tokens_used := sql_add (env_fsum env) (gw_tokens_used g) (gpp_token_delta p),
             gw_time_used_seconds := sql_add (env_fsum env) (gw_time_used_seconds g) (gpp_time_delta_seconds p),
             gw_updated_at := max (gw_updated_at g) (env_now env)\<rparr> else g)"
  define f2 :: "goal_row \<Rightarrow> goal_row" where "f2 = (\<lambda>g. g\<lparr>gw_continuation_count := sql_add (env_fsum env) (gw_continuation_count g) 1,
      gw_updated_at := max (gw_updated_at g) (env_now env)\<rparr>)"
  have ids: "gw_thread_id (f1 g) = gw_thread_id g" "gw_thread_id (f2 g) = gw_thread_id g" for g by (simp_all add: f1_def f2_def)
  define step1 where "step1 = (if gpp_token_delta p \<noteq> 0 \<or> gpp_time_delta_seconds p \<noteq> 0
      then record_thread_goal_usage (env_fsum env) (gpp_thread_id p) (gpp_token_delta p) (gpp_time_delta_seconds p) (env_now env) (mgr_store m)
      else (mgr_store m, get_thread_goal (gpp_thread_id p) (mgr_store m)))"
  obtain s1 r1 where s1: "step1 = (s1, r1)" by (cases step1)
  have one: "changes (gpp_thread_id p) (\<lambda>v. v\<lparr>tv_goal := map_option f1 (tv_goal v)\<rparr>) (mgr_store m) s1"
  proof (cases "gpp_token_delta p \<noteq> 0 \<or> gpp_time_delta_seconds p \<noteq> 0")
    case True
    then have "f1 = (\<lambda>r. r\<lparr>gw_tokens_used := sql_add (env_fsum env) (gw_tokens_used r) (gpp_token_delta p),
        gw_time_used_seconds := sql_add (env_fsum env) (gw_time_used_seconds r) (gpp_time_delta_seconds p),
        gw_updated_at := max (gw_updated_at r) (env_now env)\<rparr>)" by (simp add: f1_def)
    moreover have "s1 = fst (record_thread_goal_usage (env_fsum env) (gpp_thread_id p) (gpp_token_delta p)
        (gpp_time_delta_seconds p) (env_now env) (mgr_store m))" using s1 True by (simp add: step1_def)
    ultimately show ?thesis using changes_goal_rows [of f1 "gpp_thread_id p" "mgr_store m", OF ids(1)] by (simp add: usage_store(1))
  next
    case False
    then have "f1 = (\<lambda>g. g)" "s1 = mgr_store m" using s1 by (simp_all add: f1_def step1_def)
    then show ?thesis using changes_nothing by (simp add: option.map_ident)
  qed
  note two = changes_trans [OF one changes_goal_rows [of f2 "gpp_thread_id p" s1, OF ids(2)]]
  have handled: "record_thread_goal_progress (env_fsum env) (env_now env) p m =
      (case r1 of
         Inl e \<Rightarrow> (m\<lparr>mgr_store := s1\<rparr>, Inl e)
       | Inr g \<Rightarrow>
           if \<not> gpp_record_continuation p then (m\<lparr>mgr_store := s1\<rparr>, Inr (map_option to_protocol_goal g))
           else (let (s', r') = record_thread_goal_continuation (env_fsum env) (gpp_thread_id p) (env_now env) s1
                 in (m\<lparr>mgr_store := s'\<rparr>, map_sum id (map_option to_protocol_goal) r')))"
    unfolding record_thread_goal_progress_def found(1) step1_def [symmetric] s1
    by (auto simp: Let_def split: sum.split prod.split)
  have asked: "asked env m (GoalRecordProgress p) = (\<lambda>v. v\<lparr>tv_goal := map_option (progressed env p) (tv_goal v)\<rparr>)"
    by (simp add: asked_def fun_eq_iff found(2))
  show ?thesis
  proof (cases "isl r1 \<or> \<not> gpp_record_continuation p")
    case True
    then have "mgr_store m' = s1" "\<not> isl r \<Longrightarrow> \<not> gpp_record_continuation p"
      using assms handled by (auto split: sum.splits)
    moreover have "\<not> gpp_record_continuation p \<Longrightarrow> progressed env p = f1" by (simp add: progressed_def f1_def fun_eq_iff)
    ultimately show ?thesis using one unfolding asked by (intro doesI) auto
  next
    case False
    then have "mgr_store m' = update_goal_rows (gpp_thread_id p) f2 s1"
      using assms handled usage_store(2) [of "env_fsum env" "gpp_thread_id p" "env_now env" s1]
      by (auto simp: f2_def Let_def split_beta split: sum.splits)
    moreover have "progressed env p = (\<lambda>g. f2 (f1 g))" using False by (auto simp: progressed_def f1_def f2_def Let_def)
    ultimately show ?thesis using two unfolding asked by (intro doesI) (auto simp: option.map_comp comp_def)
  qed
qed (use assms in \<open>auto simp: record_thread_goal_progress_def asked_def fun_eq_iff intro!: does_nothing\<close>)

lemma archive_does:
  "does tid (asked env m (ArchiveThread tid)) ok (mgr_store m) (mgr_store (archive_thread (env_now env) tid m))"
  "does tid (asked env m (UnarchiveThread tid)) ok (mgr_store m) (mgr_store (unarchive_thread tid m))"
  using changes_thread_rows [of "\<lambda>r. r\<lparr>tw_archived := 1, tw_archived_at := Some (env_now env), tw_status := thread_status_to_str ThreadArchived\<rparr>" tid "mgr_store m"]
    changes_thread_rows [of "\<lambda>r. r\<lparr>tw_archived := 0, tw_archived_at := None\<rparr>" tid "mgr_store m"]
  by (auto simp: archive_thread_def unarchive_thread_def mark_archived_def mark_unarchived_def asked_def fun_eq_iff
      intro!: doesI)

lemma message_does:
  assumes "touch_message (env_ser env) (env_now env) tid input m = (m', err)"
  shows "does tid (asked env m (Message tid input)) (err = None) (mgr_store m) (mgr_store m')"
proof (cases rule: found_thread_cases [of tid m])
  case (found old)
  define t where "t = old\<lparr>tm_updated_at := env_now env, tm_preview := truncate_preview input, tm_status := ThreadRunning\<rparr>"
  define s1 where "s1 = upsert_thread (env_ser env) t (mgr_store m)"
  have "tm_id t = tid" using found(3) by (simp add: t_def)
  then have up: "changes tid (put_thread t) (mgr_store m) s1" using changes_upsert [of t] by (auto simp: s1_def)
  have seq: "st_message_seq s1 = st_message_seq (mgr_store m)" by (simp add: s1_def upsert_thread_def update_thread_rows_def)
  show ?thesis
  proof (cases "append_message (env_ser env) (env_now env) tid ''user'' input None s1")
    case (Inl e)
    then have "mgr_store m' = s1" "err \<noteq> None" using assms found(1) by (auto simp: touch_message_def Let_def s1_def t_def)
    then show ?thesis using up by (intro doesI) auto
  next
    case (Inr p)
    obtain s2 mid where p: "p = (s2, mid)" by (cases p)
    note app = changes_append [OF Inr [unfolded p]]
    show ?thesis
    proof (cases "save_checkpoint (env_ser env) (env_now env) tid ''latest''
        (JObj [(''reason'', JStr ''thread_message''), (''message_id'', JInt mid), (''role'', JStr ''user''),
               (''preview'', JStr (truncate_preview input)), (''updated_at'', JInt (env_now env))]) s2")
      case (Inl e)
      then have "mgr_store m' = s2" "err \<noteq> None"
        using assms found(1) Inr by (auto simp: touch_message_def Let_def s1_def t_def p)
      then show ?thesis using changes_trans [OF up app(1)] by (intro doesI) auto
    next
      case ck: (Inr s3)
      then have "mgr_store m' = s3" using assms found(1) Inr by (auto simp: touch_message_def Let_def s1_def t_def p)
      then show ?thesis
        using changes_trans [OF changes_trans [OF up app(1)] changes_checkpoint [OF ck]] found(2) app(2) seq
        by (intro doesI) (auto simp: asked_def fun_eq_iff t_def message_checkpoint_def)
    qed
  qed
qed (use assms in \<open>auto simp: touch_message_def asked_def fun_eq_iff intro!: does_nothing\<close>)

lemma does_answer:
  assumes "does tid g (\<not> isl r) s s'" and "\<And>e. r = Inl e \<Longrightarrow> isl r'"
  shows "does tid g (\<not> isl r') s s'"
  using assms by (cases r) (auto simp: does_def)

lemma answer_with_data_store: "answer_with_data de status n m = (m', r) \<Longrightarrow> m' = m"
  by (simp add: answer_with_data_def)

lemma request_does:
  assumes "handle_thread env req m = (m', r)"
  shows "case request_thread env req of
      None \<Rightarrow> m' = m | Some tid \<Rightarrow> does tid (asked env m req) (\<not> isl r) (mgr_store m) (mgr_store m')"
proof (cases req)
  case Create
  obtain m1 r1 where s: "spawn_thread_with_history (env_ser env) (env_now env) (env_uuid env) ''deepseek'' (env_cwd env)
      HistoryNew False m = (m1, r1)" by fastforce
  then have "m' = m1" "\<And>e. r1 = Inl e \<Longrightarrow> isl r"
    using assms Create by (auto simp: handle_thread_def answer_with_data_def split: sum.splits)
  then show ?thesis using does_answer [OF spawn_does [OF s]] Create by (auto simp: asked_def [abs_def])
next
  case (Start provider cwd persist)
  obtain m1 r1 where s: "spawn_thread_with_history (env_ser env) (env_now env) (env_uuid env) (or_else provider ''deepseek'')
      (or_else cwd (env_cwd env)) HistoryNew persist m = (m1, r1)" by fastforce
  then have "m' = m1" "\<And>e. r1 = Inl e \<Longrightarrow> isl r"
    using assms Start by (auto simp: handle_thread_def answer_with_data_def split: sum.splits)
  then show ?thesis using does_answer [OF spawn_does [OF s]] Start by (auto simp: asked_def [abs_def])
next
  case (ResumeThread p)
  obtain m1 r1 where s: "resume_thread_with_history (env_ser env) (env_now env) p (env_cwd env) ''deepseek'' m = (m1, r1)"
    by fastforce
  then have "m' = m1" "\<And>e. r1 = Inl e \<Longrightarrow> isl r"
    using assms ResumeThread by (auto simp: handle_thread_def answer_with_data_def split: sum.splits option.splits)
  then show ?thesis using does_answer [OF resume_does [OF s]] ResumeThread by auto
next
  case (ForkThread p)
  obtain m1 r1 where s: "fork_thread (env_ser env) (env_now env) (env_uuid env) p (env_cwd env) m = (m1, r1)" by fastforce
  then have "m' = m1" "\<And>e. r1 = Inl e \<Longrightarrow> isl r"
    using assms ForkThread by (auto simp: handle_thread_def answer_with_data_def split: sum.splits option.splits)
  then show ?thesis using does_answer [OF fork_does [OF s]] ForkThread by auto
next
  case (SetName tid name)
  obtain m1 r1 where s: "set_thread_name (env_ser env) (env_now env) tid name m = (m1, r1)" by fastforce
  then show ?thesis using assms SetName name_does [OF s] by (auto simp: handle_thread_def)
next
  case (GoalSet tid objective budget)
  obtain m1 r1 where s: "set_thread_goal (env_now env) (env_uuid env) tid objective budget m = (m1, r1)" by fastforce
  then show ?thesis using assms GoalSet goal_set_does [OF s] by (auto simp: handle_thread_def)
next
  case (GoalClear tid)
  then have "mgr_store m' = fst (delete_thread_goal tid (mgr_store m))"
    using assms by (auto simp: handle_thread_def clear_thread_goal_def Let_def split_beta)
  then show ?thesis using changes_goal(2) [of tid "mgr_store m"] GoalClear by (auto simp: asked_def [abs_def] intro: doesI)
next
  case (GoalRecordProgress p)
  obtain m1 r1 where s: "record_thread_goal_progress (env_fsum env) (env_now env) p m = (m1, r1)" by fastforce
  then show ?thesis using assms GoalRecordProgress progress_does [OF s] by (auto simp: handle_thread_def)
next
  case (ArchiveThread tid)
  then show ?thesis using assms archive_does(1) by (auto simp: handle_thread_def)
next
  case (UnarchiveThread tid)
  then show ?thesis using assms archive_does(2) by (auto simp: handle_thread_def)
next
  case (Message tid input)
  obtain m1 err where s: "touch_message (env_ser env) (env_now env) tid input m = (m1, err)" by fastforce
  then have "m' = m1" "\<not> isl r \<longleftrightarrow> err = None"
    using assms Message by (auto simp: handle_thread_def Let_def split: option.splits)
  then show ?thesis using message_does [OF s] Message by simp
qed (use assms in \<open>simp_all add: handle_thread_def\<close>)

subsection \<open>Why a request fails\<close>

lemma map_sum_id [simp]:
  "map_sum id g r = Inl e \<longleftrightarrow> r = Inl e" "map_sum id g r = Inr x \<longleftrightarrow> (\<exists>y. r = Inr y \<and> x = g y)"
  by (cases r; auto)+

definition writable :: "string \<Rightarrow> state_store \<Rightarrow> bool" where
  "writable tid s \<longleftrightarrow> (case find_thread_row tid s of None \<Rightarrow> False | Some r \<Rightarrow> \<not> isl (leaf_value (tw_current_leaf_id r)))"

lemma writable_get: "get_thread tid s = Inr (Some t) \<Longrightarrow> writable tid s"
  by (auto simp: get_thread_def with_context_def row_to_thread_def writable_def split: option.splits sum.splits)

lemma writable_upsert: "\<not> isl (get_thread (tm_id t) s) \<Longrightarrow> writable (tm_id t) (upsert_thread ser t s)"
  by (auto simp: get_thread_def with_context_def row_to_thread_def writable_def find_upsert row_of_thread_def
      split: option.splits sum.splits)

lemma append_fails:
  "append_message ser now tid role content item s = Inl e \<Longrightarrow> writable tid s \<Longrightarrow> i64_max \<le> st_message_seq s"
  by (auto simp: append_message_def writable_def add_message_def Let_def split: option.splits sum.splits if_splits)

lemma append_writable:
  assumes "append_message ser now tid role content item s = Inr (s', mid)"
  shows "writable tid s'" "st_message_seq s' = st_message_seq s + 1" "thread_exists tid s'"
proof -
  obtain r parent where r: "find_thread_row tid s = Some r"
    and add: "add_message ser now tid role content item parent s = Some (s', mid)"
    using assms by (elim append_message_adds)
  note result = add_message_result [OF add]
  show "writable tid s'" using result(4) [of tid] r by (simp add: writable_def)
  show "st_message_seq s' = st_message_seq s + 1" using result(1,2) by simp
  have "find_thread_row tid s' \<noteq> None" using result(4) [of tid] r by simp
  then show "thread_exists tid s'" by (simp add: thread_exists_def find_thread_row_def find_none_list_ex)
qed

lemma history_fails:
  "append_history ser now tid items s = (s', Some e) \<Longrightarrow> writable tid s \<Longrightarrow>
   i64_max < st_message_seq s + int (length items)"
proof (induction items arbitrary: s)
  case (Cons item items)
  show ?case
  proof (cases "append_message ser now tid ''history'' (ser item) (Some item) s")
    case (Inl err)
    from append_fails [OF this Cons.prems(2)] show ?thesis by simp
  next
    case (Inr p)
    obtain s1 mid where p: "p = (s1, mid)" by (cases p)
    note w = append_writable [OF Inr [unfolded p]]
    have "append_history ser now tid items s1 = (s', Some e)" using Cons.prems(1) Inr p by simp
    from Cons.IH [OF this w(1)] w(2) show ?thesis by simp
  qed
qed simp

lemma persist_history_fails:
  assumes "append_history ser now (pt_id t) items (persist_thread ser t None s) = (s', Some e)"
    and "\<not> isl (get_thread (pt_id t) s)"
  shows "i64_max < st_message_seq s + int (length items)"
proof -
  have "writable (pt_id t) (persist_thread ser t None s)"
    using writable_upsert [of "persisted_thread t None"] assms(2) by (simp add: persist_thread_def persisted_thread_id)
  moreover have "st_message_seq (persist_thread ser t None s) = st_message_seq s"
    by (simp add: persist_thread_def upsert_thread_def update_thread_rows_def)
  ultimately show ?thesis using history_fails [OF assms(1)] by simp
qed

lemma spawn_fails:
  assumes "spawn_thread_with_history ser now uuid provider cwd history persist m = (m', Inl e)"
    and "\<not> isl (get_thread (''thread-'' @ uuid) (mgr_store m))"
  shows "ids_used_up (length (history_items history)) m"
proof -
  define t where "t = spawned_thread ser now uuid (mgr_cli_version m) provider cwd history persist"
  have id: "pt_id t = ''thread-'' @ uuid" by (simp add: t_def spawned_thread_def)
  obtain s where "append_history ser now (pt_id t) (history_items history) (persist_thread ser t None (mgr_store m)) = (s, Some e)"
    using assms(1) by (auto simp: spawn_thread_with_history_def Let_def t_def split: prod.splits option.splits)
  from persist_history_fails [OF this] assms(2) show ?thesis by (simp add: id ids_used_up_def)
qed

lemma spawned_id:
  "spawn_thread_with_history ser now uuid provider cwd history persist m = (m', Inr n) \<Longrightarrow> pt_id (nt_thread n) = ''thread-'' @ uuid"
  by (auto simp: spawn_thread_with_history_def Let_def spawned_thread_def split: prod.splits option.splits)

lemma new_never_fails:
  "spawn_thread_with_history ser now uuid provider cwd HistoryNew persist m \<noteq> (m', Inl e)"
  by (simp add: spawn_thread_with_history_def Let_def)

lemma fork_fails:
  assumes "fork_thread ser now uuid p cwd m = (m', Inl e)"
  shows "isl (get_thread (fp_thread_id p) (mgr_store m)) \<or> isl (get_thread (''thread-'' @ uuid) (mgr_store m)) \<or> ids_used_up 1 m"
proof (cases rule: found_thread_cases [of "fp_thread_id p" m])
  case (found old)
  then have "\<exists>history provider. spawn_thread_with_history ser now uuid provider (or_else (fp_cwd p) cwd) history
      (fp_persist_extended_history p) m = (m', Inl e) \<and> length (history_items history) = 1"
    using assms by (auto simp: fork_thread_def Let_def split: prod.splits)
  with spawn_fails show ?thesis by metis
qed (use assms in \<open>auto simp: fork_thread_def\<close>)

lemma forked_id:
  "fork_thread ser now uuid p cwd m = (m', Inr (Some n)) \<Longrightarrow> pt_id (nt_thread n) = ''thread-'' @ uuid"
  by (auto simp: fork_thread_def Let_def dest: spawned_id split: sum.splits option.splits prod.splits)

lemma resume_fails:
  assumes "resume_thread_with_history ser now p cwd provider m = (m', Inl e)"
  shows "isl (get_thread (rp_thread_id p) (mgr_store m)) \<or> ids_used_up (length (or_else (rp_history p) [])) m"
proof (cases rule: found_thread_cases [of "rp_thread_id p" m])
  case (found old)
  define t where "t = (to_protocol_thread old)\<lparr>pt_status := ProtoRunning, pt_updated_at := now, pt_cwd := or_else (rp_cwd p) cwd\<rparr>"
  have id: "pt_id t = rp_thread_id p" using found(3) by (simp add: t_def to_protocol_thread_id)
  obtain s where "append_history ser now (pt_id t) (or_else (rp_history p) []) (persist_thread ser t None (mgr_store m)) = (s, Some e)"
    using assms found(1) by (auto simp: resume_thread_with_history_def Let_def t_def split: prod.splits option.splits if_splits)
  from persist_history_fails [OF this] found(1) show ?thesis by (simp add: id ids_used_up_def)
qed (use assms in \<open>auto simp: resume_thread_with_history_def split: option.splits if_splits\<close>)

lemma resumed_id:
  assumes "resume_thread_with_history ser now p cwd provider m = (m', Inr (Some n))"
  shows "pt_id (nt_thread n) = (case mgr_running m (rp_thread_id p) of None \<Rightarrow> rp_thread_id p
        | Some t \<Rightarrow> if rp_history p = None then pt_id t else rp_thread_id p)"
  using assms get_thread_id [of "rp_thread_id p" "mgr_store m"]
  by (auto simp: resume_thread_with_history_def Let_def resumed_answer_def to_protocol_thread_id
      split: prod.splits option.splits sum.splits if_splits)

lemma message_fails:
  assumes "touch_message ser now tid input m = (m', Some e)"
  shows "isl (get_thread tid (mgr_store m)) \<or> ids_used_up 1 m"
proof (cases rule: found_thread_cases [of tid m])
  case (found old)
  define t where "t = old\<lparr>tm_updated_at := now, tm_preview := truncate_preview input, tm_status := ThreadRunning\<rparr>"
  have id: "tm_id t = tid" using found(3) by (simp add: t_def)
  have w: "writable tid (upsert_thread ser t (mgr_store m))" using writable_upsert [of t] found(1) by (simp add: id)
  have "append_message ser now tid ''user'' input None (upsert_thread ser t (mgr_store m)) = Inr (s, mid) \<Longrightarrow>
      save_checkpoint ser now tid ''latest'' v s \<noteq> Inl err" for s mid v err
    by (auto simp: save_checkpoint_def dest: append_writable(3))
  then obtain err where "append_message ser now tid ''user'' input None (upsert_thread ser t (mgr_store m)) = Inl err"
    using assms found(1) by (auto simp: touch_message_def Let_def t_def split: sum.splits)
  from append_fails [OF this w] show ?thesis
    by (simp add: ids_used_up_def upsert_thread_def update_thread_rows_def append_thread_name_def split: if_splits)
qed (use assms in \<open>auto simp: touch_message_def\<close>)

lemma goal_set_fails:
  assumes "set_thread_goal now uuid tid objective budget m = (m', Inl e)"
  shows "isl (get_thread tid (mgr_store m))"
proof (cases rule: found_thread_cases [of tid m])
  case (found old)
  then have "thread_exists tid (mgr_store m)"
    by (auto simp: get_thread_def thread_exists_def find_thread_row_def find_list_ex [symmetric] split: option.splits)
  then show ?thesis using assms found(1) by (auto simp: set_thread_goal_def Let_def upsert_thread_goal_def split: if_splits)
qed (use assms in \<open>auto simp: set_thread_goal_def\<close>)

lemma progress_fails:
  assumes "record_thread_goal_progress fsum now p m = (m', Inl e)"
  shows "isl (get_thread (gpp_thread_id p) (mgr_store m)) \<or> isl (get_thread_goal (gpp_thread_id p) (mgr_store m'))"
  using assms
  by (auto simp: record_thread_goal_progress_def record_thread_goal_usage_def record_thread_goal_continuation_def Let_def
      split: sum.splits option.splits if_splits)

lemma request_fails:
  assumes "handle_thread env req m = (m', Inl e)"
  shows "request_fault env m req m'"
proof (cases req)
  case Create
  then show ?thesis using assms new_never_fails
    by (auto simp: handle_thread_def answer_with_data_def dest: spawned_id split: prod.splits sum.splits)
next
  case (Start provider cwd persist)
  then show ?thesis using assms new_never_fails
    by (auto simp: handle_thread_def answer_with_data_def dest: spawned_id split: prod.splits sum.splits)
next
  case (ForkThread p)
  then show ?thesis using assms
    by (auto simp: handle_thread_def answer_with_data_def dest: forked_id fork_fails split: prod.splits sum.splits option.splits)
next
  case (ResumeThread p)
  then show ?thesis using assms
    by (auto simp: handle_thread_def answer_with_data_def dest: resumed_id resume_fails split: prod.splits sum.splits option.splits)
next
  case (ListThreads archived limit)
  then show ?thesis using assms by (cases "mgr_list_threads archived limit m") (auto simp: handle_thread_def)
next
  case (ReadThread tid)
  then show ?thesis using assms
    by (auto simp: handle_thread_def read_thread_def mgr_get_thread_goal_def persisted_thread_data_def split: sum.splits)
next
  case (SetName tid name)
  then show ?thesis using assms
    by (auto simp: handle_thread_def set_thread_name_def Let_def split: sum.splits option.splits prod.splits)
next
  case (GoalSet tid objective budget)
  obtain m1 r1 where s: "set_thread_goal (env_now env) (env_uuid env) tid objective budget m = (m1, r1)" by fastforce
  then show ?thesis using assms GoalSet goal_set_fails by (cases r1) (auto simp: handle_thread_def)
next
  case (GoalGet tid)
  then show ?thesis using assms by (cases "get_thread_goal tid (mgr_store m)") (auto simp: handle_thread_def mgr_get_thread_goal_def)
next
  case (GoalRecordProgress p)
  obtain m1 r1 where s: "record_thread_goal_progress (env_fsum env) (env_now env) p m = (m1, r1)" by fastforce
  then show ?thesis using assms GoalRecordProgress progress_fails by (cases r1) (auto simp: handle_thread_def)
next
  case (Message tid input)
  then show ?thesis using assms message_fails
    by (auto simp: handle_thread_def Let_def split: prod.splits option.splits)
qed (use assms in \<open>auto simp: handle_thread_def split: prod.splits\<close>)


text \<open>
  C15: The running copy of a thread is what the store holds of it: after any session, a manager that starts again on
  the same store reads every running thread as it was, with its name, preview, status and times.
\<close>

theorem running_threads_survive_a_restart:
  assumes "thread_session ser fsum (manager_new version s) m" and "rows_readable s"
    and "mgr_running m tid = Some t"
  shows "read_thread tid (manager_new version' (mgr_store m)) = Inr (Some t)"
proof -
  have "mirrors m"
    using assms(1)
  proof (induction rule: thread_session.induct)
    case session_start
    show ?case using assms(2) by (simp add: mirrors_def manager_new_def)
  next
    case (session_request m env req)
    then show ?case using request_mirrors by blast
  qed
  then have "shown tid (mgr_store m) = Some t" using assms(3) by (rule mirrorsD(2))
  then show ?thesis
    by (auto simp: shown_def read_thread_def manager_new_def split: sum.splits option.splits)
qed

text \<open>A message touches its thread, then appends, then saves the checkpoint.\<close>

lemma touch_message_done:
  assumes "touch_message ser now tid input m = (m', None)" and "get_thread tid (mgr_store m) = Inr (Some old)"
  obtains t s mid where "append_message ser now tid ''user'' input None (upsert_thread ser t (mgr_store m)) = Inr (s, mid)"
    and "tm_id t = tid" and "st_messages (mgr_store m') = st_messages s" and "st_threads (mgr_store m') = st_threads s"
proof -
  have tid: "tm_id old = tid"
    using assms(2) by (auto simp: get_thread_def with_context_def row_to_thread_def find_thread_row_def find_Some_iff
        split: option.splits sum.splits)
  define t where "t = old\<lparr>tm_updated_at := now, tm_preview := truncate_preview input, tm_status := ThreadRunning\<rparr>"
  obtain s mid where app: "append_message ser now tid ''user'' input None (upsert_thread ser t (mgr_store m)) = Inr (s, mid)"
    using assms by (auto simp: touch_message_def Let_def t_def split: sum.splits)
  moreover have "tm_id t = tid" using tid by (simp add: t_def)
  moreover have "st_messages (mgr_store m') = st_messages s \<and> st_threads (mgr_store m') = st_threads s"
    using assms app by (auto simp: touch_message_def Let_def t_def save_checkpoint_def split: sum.splits if_splits)
  ultimately show thesis using that by blast
qed

lemma upsert_messages:
  "st_messages (upsert_thread ser t s) = st_messages s" "leaf_of tid (upsert_thread ser t s) = leaf_of tid s"
proof -
  show "st_messages (upsert_thread ser t s) = st_messages s"
    by (simp add: upsert_thread_def update_thread_rows_def)
  show "leaf_of tid (upsert_thread ser t s) = leaf_of tid s"
    by (auto simp: leaf_of_def find_upsert row_of_thread_def split: option.split)
qed

text \<open>
  A message that is accepted for a thread is its newest: the conversation is the one before with the text at its
  end.
\<close>

theorem accepted_message_is_the_newest:
  assumes "store_reachable (env_ser env) numeric fsum (mgr_store m)"
    and "get_thread tid (mgr_store m) = Inr (Some old)"
    and "handle_thread env (Message tid input) m = (m', Inr response)" and "0 < n" and "int n < i64_max"
  shows "\<exists>row. branch_rows tid (Some (Suc n)) (mgr_store m') = branch_rows tid (Some n) (mgr_store m) @ [row]
    \<and> mw_role row = ''user'' \<and> mw_content row = input \<and> mw_created_at row = env_now env"
proof -
  have "touch_message (env_ser env) (env_now env) tid input m = (m', None)"
    using assms(3) by (auto simp: handle_thread_def Let_def split: prod.splits option.splits)
  then obtain t s mid
    where app: "append_message (env_ser env) (env_now env) tid ''user'' input None
        (upsert_thread (env_ser env) t (mgr_store m)) = Inr (s, mid)"
      and same: "st_messages (mgr_store m') = st_messages s" "st_threads (mgr_store m') = st_threads s"
    using assms(2) by (rule touch_message_done)
  have "store_ok (upsert_thread (env_ser env) t (mgr_store m))"
    by (rule store_ok_upsert [OF store_reachable_ok [OF assms(1)]])
  note branch = branch_after_append [OF this app assms(4,5)]
  have "branch_rows tid (Some (Suc n)) (mgr_store m') = branch_rows tid (Some (Suc n)) s"
    using same by (simp add: branch_rows_def find_thread_row_def)
  then show ?thesis using branch by (simp add: upsert_messages branch_rows_leaf new_row_def)
qed

section \<open>Examples\<close>

definition demo_runtime :: "string \<Rightarrow> runtime_env" where
  "demo_runtime uuid = \<lparr>env_ser = demo_ser, env_de = (\<lambda>s. None), env_fsum = demo_fsum, env_now = 20, env_uuid = uuid,
     env_cwd = ''/w''\<rparr>"

definition demo_request :: "thread_request \<Rightarrow> thread_manager \<Rightarrow> thread_manager" where
  "demo_request req m = fst (handle_thread (demo_runtime ''u'') req m)"

definition demo_started :: thread_manager where
  "demo_started = demo_request (Start None None True) (manager_new ''0'' empty_store)"

lemma demo_session: "thread_session demo_ser demo_fsum (manager_new ''0'' empty_store) demo_started"
  unfolding demo_started_def demo_request_def
  by (rule session_request [OF session_start])
    (simp_all add: demo_runtime_def manager_new_def thread_exists_def empty_store_def)

lemma demo_reachable: "store_reachable demo_ser numeric demo_fsum (mgr_store demo_started)"
  using request_reachable [of "demo_runtime ''u''" numeric "manager_new ''0'' empty_store" "Start None None True"]
  by (simp add: demo_started_def demo_request_def demo_runtime_def manager_new_def reach_empty)

theorem running_threads_survive_a_restart_witness:
  "\<exists>t. read_thread ''thread-u'' (manager_new ''1'' (mgr_store demo_started)) = Inr (Some t) \<and> pt_preview t = ''New conversation''"
proof -
  have "map_option pt_preview (mgr_running demo_started ''thread-u'') = Some ''New conversation''" by code_simp
  then obtain t where "mgr_running demo_started ''thread-u'' = Some t" "pt_preview t = ''New conversation''" by auto
  moreover have "rows_readable empty_store" by (simp add: rows_readable_def empty_store_def)
  ultimately show ?thesis using running_threads_survive_a_restart [OF demo_session] by blast
qed

theorem accepted_message_is_the_newest_witness:
  "\<exists>row. branch_rows ''thread-u'' (Some (Suc 2)) (mgr_store (demo_request (Message ''thread-u'' ''hi'') demo_started))
     = branch_rows ''thread-u'' (Some 2) (mgr_store demo_started) @ [row] \<and> mw_content row = ''hi''"
proof -
  have "case get_thread ''thread-u'' (mgr_store demo_started) of Inr (Some t) \<Rightarrow> True | _ \<Rightarrow> False" by code_simp
  then obtain old where old: "get_thread ''thread-u'' (mgr_store demo_started) = Inr (Some old)"
    by (auto split: sum.splits option.splits)
  have "case snd (handle_thread (demo_runtime ''u'') (Message ''thread-u'' ''hi'') demo_started) of Inr r \<Rightarrow> True | Inl e \<Rightarrow> False"
    by code_simp
  then obtain response where "handle_thread (demo_runtime ''u'') (Message ''thread-u'' ''hi'') demo_started
      = (demo_request (Message ''thread-u'' ''hi'') demo_started, Inr response)"
    by (cases "handle_thread (demo_runtime ''u'') (Message ''thread-u'' ''hi'') demo_started")
      (auto simp: demo_request_def split: sum.splits)
  then show ?thesis
    using accepted_message_is_the_newest [OF _ old, of "demo_runtime ''u''" demo_numeric demo_fsum "''hi''" _ response 2]
      demo_reachable [of demo_numeric]
    by (fastforce simp: demo_runtime_def i64_max_def)
qed

text \<open>
  A thread that is resumed without a running copy is written back from its protocol form, and loses what that form
  does not hold: its sandbox policy, its branch, its rollout.
\<close>

definition resume_demo :: resume_params where
  "resume_demo = \<lparr>rp_thread_id = ''t'', rp_history = None, rp_model = None, rp_model_provider = None, rp_cwd = None,
     rp_approval_policy = None, rp_sandbox = None\<rparr>"

theorem resumed_thread_loses_its_sandbox:
  "map_option (\<lambda>r. (tw_sandbox_policy r, tw_git_sha r)) (find_thread_row ''t'' demo_store)
     = Some (Some ''read-only'', Some ''abc'')
   \<and> map_option (\<lambda>r. (tw_sandbox_policy r, tw_git_sha r)) (find_thread_row ''t''
       (mgr_store (demo_request (ResumeThread resume_demo) (manager_new ''0'' demo_store)))) = Some (None, None)"
  by code_simp

text \<open>An archived thread that is restored is still shown as archived, also by its running copy.\<close>

theorem restored_thread_is_shown_as_archived:
  "let m = demo_request (UnarchiveThread ''thread-u'') (demo_request (ArchiveThread ''thread-u'') demo_started)
   in map_option pt_status (mgr_running m ''thread-u'') = Some ProtoArchived
     \<and> map_sum id (map_option pt_status) (read_thread ''thread-u'' m) = Inr (Some ProtoArchived)"
  by code_simp

text \<open>A message to a thread that does not exist is accepted, and nothing is written.\<close>

theorem message_to_no_thread_is_accepted:
  "case handle_thread (demo_runtime ''u'') (Message ''none'' ''hi'') demo_started of
     (m, Inr r) \<Rightarrow> rs_status r = ''accepted'' \<and> st_messages (mgr_store m) = []
   | (m, Inl e) \<Rightarrow> False"
  by code_simp

text \<open>A fork holds one message, the name of its parent, and none of what was said there.\<close>

definition fork_demo :: fork_params where
  "fork_demo = \<lparr>fp_thread_id = ''thread-u'', fp_model_provider = None, fp_cwd = None, fp_approval_policy = None,
     fp_sandbox = None, fp_persist_extended_history = True\<rparr>"

theorem fork_starts_without_the_messages:
  "let m = fst (handle_thread (demo_runtime ''v'') (ForkThread fork_demo)
       (demo_request (Message ''thread-u'' ''hi'') demo_started))
   in map mw_role (branch_rows ''thread-u'' None (mgr_store m)) = [''user'']
     \<and> map mw_role (branch_rows ''thread-v'' None (mgr_store m)) = [''history'']"
  by code_simp

end
