(* ===== verification/Goal_State.thy ===== *)
theory Goal_State
  imports Tool_Dispatch
begin

text \<open>
  The persistent goal of a session: \<open>crates/tui/src/goal_loop.rs\<close> (when a goal goes on),
  \<open>crates/tui/src/tools/goal.rs\<close> (the goal of the session and the three tools of the model). Instants are
  nanoseconds of one monotone clock, given to the operations that read it. The printing of JSON, the text of
  serde's errors and the prompt file \<open>prompts/continuation.md\<close> are parameters. The mutex around the goal is not
  modelled: every operation runs under it.
\<close>

section \<open>The decision\<close>

datatype goal_run_status = RunActive | RunCompleted | RunBlocked

datatype stop_reason = StopCompleted | StopBlocked | StopTokenBudget | StopTimeBudget | StopContinuationLimit

record goal_progress =
  gp_tokens_used :: u64
  gp_time_used_seconds :: u64
  gp_continuations :: u32

record goal_budget =
  gb_token_budget :: "u64 option"
  gb_time_budget_seconds :: "u64 option"

definition unbounded :: goal_budget where
  "unbounded = \<lparr>gb_token_budget = None, gb_time_budget_seconds = None\<rparr>"

definition with_token_budget :: "u64 \<Rightarrow> goal_budget" where
  "with_token_budget b = \<lparr>gb_token_budget = Some b, gb_time_budget_seconds = None\<rparr>"

datatype continuation_decision = Continue | Stop stop_reason

definition spent :: "u64 \<Rightarrow> u64 option \<Rightarrow> bool" where
  "spent used budget = (case budget of None \<Rightarrow> False | Some b \<Rightarrow> b \<le> used)"

definition decide_continuation :: "goal_run_status \<Rightarrow> goal_progress \<Rightarrow> goal_budget \<Rightarrow> continuation_decision" where
  "decide_continuation status progress budget =
     (case status of
        RunCompleted \<Rightarrow> Stop StopCompleted
      | RunBlocked \<Rightarrow> Stop StopBlocked
      | RunActive \<Rightarrow>
          if spent (gp_tokens_used progress) (gb_token_budget budget) then Stop StopTokenBudget
          else if spent (gp_time_used_seconds progress) (gb_time_budget_seconds budget) then Stop StopTimeBudget
          else Continue)"

definition is_success :: "stop_reason \<Rightarrow> bool" where
  "is_success r \<longleftrightarrow> r = StopCompleted"

section \<open>The goal of a session\<close>

datatype goal_status = GoalActive | GoalPaused | GoalComplete | GoalBlocked

fun goal_status_str :: "goal_status \<Rightarrow> string" where
  "goal_status_str GoalActive = ''active''"
| "goal_status_str GoalPaused = ''paused''"
| "goal_status_str GoalComplete = ''complete''"
| "goal_status_str GoalBlocked = ''blocked''"

lemma goal_status_str_inject [simp]: "goal_status_str s = goal_status_str t \<longleftrightarrow> s = t"
  by (cases s; cases t) simp_all

record goal_verification =
  gv_status :: string
  gv_check :: string
  gv_summary :: string

record goal_state =
  go_objective :: "string option"
  go_token_budget :: "u32 option"
  go_status :: "goal_status option"
  go_tokens_used :: u64
  go_time_used_seconds :: u64
  go_continuation_count :: u32
  go_started_at :: "int option"
  go_finished_at :: "int option"
  go_evidence :: "string option"
  go_blocker :: "string option"
  go_verification :: "goal_verification option"

definition no_goal :: goal_state where
  "no_goal = \<lparr>go_objective = None, go_token_budget = None, go_status = None, go_tokens_used = 0,
     go_time_used_seconds = 0, go_continuation_count = 0, go_started_at = None, go_finished_at = None,
     go_evidence = None, go_blocker = None, go_verification = None\<rparr>"

definition goal_is_active :: "goal_state \<Rightarrow> bool" where
  "goal_is_active g \<longleftrightarrow> go_objective g \<noteq> None \<and> go_status g = Some GoalActive"

text \<open>\<open>objective.map(str::trim).filter(|value| !value.is_empty())\<close>.\<close>

definition normalized_goal_objective :: "string option \<Rightarrow> string option" where
  "normalized_goal_objective value =
     (case value of None \<Rightarrow> None | Some s \<Rightarrow> if trim s = [] then None else Some (trim s))"

definition goal_create :: "int \<Rightarrow> string \<Rightarrow> u32 option \<Rightarrow> goal_state" where
  "goal_create now obj budget =
     no_goal\<lparr>go_objective := Some obj, go_token_budget := budget, go_status := Some GoalActive,
       go_started_at := Some now\<rparr>"

definition goal_status_set :: "int \<Rightarrow> goal_status \<Rightarrow> goal_state \<Rightarrow> goal_state" where
  "goal_status_set now status g =
     g\<lparr>go_status := Some status, go_finished_at := (if status = GoalActive then None else Some now)\<rparr>"

definition sync_from_host_status ::
  "int \<Rightarrow> string option \<Rightarrow> u32 option \<Rightarrow> goal_status \<Rightarrow> goal_state \<Rightarrow> goal_state" where
  "sync_from_host_status now objective budget status g =
     (case normalized_goal_objective objective of
        None \<Rightarrow> no_goal
      | Some obj \<Rightarrow>
          (let changed = (go_objective g \<noteq> Some obj);
               status_changed = (go_status g \<noteq> Some status);
               g' = (if changed
                     then g\<lparr>go_objective := Some obj, go_token_budget := budget, go_tokens_used := 0,
                            go_time_used_seconds := 0, go_continuation_count := 0, go_started_at := Some now,
                            go_evidence := None, go_blocker := None, go_verification := None\<rparr>
                     else if go_token_budget g \<noteq> budget then g\<lparr>go_token_budget := budget\<rparr> else g)
           in if changed \<or> status_changed \<or> go_status g' = None then goal_status_set now status g' else g'))"

definition record_usage :: "u64 \<Rightarrow> u64 \<Rightarrow> goal_state \<Rightarrow> goal_state" where
  "record_usage tokens seconds g =
     (if goal_is_active g
      then g\<lparr>go_tokens_used := sat_add (go_tokens_used g) tokens,
             go_time_used_seconds := sat_add (go_time_used_seconds g) seconds\<rparr>
      else g)"

definition record_continuation :: "goal_state \<Rightarrow> goal_state" where
  "record_continuation g =
     (if goal_is_active g then g\<lparr>go_continuation_count := sat_add (go_continuation_count g) 1\<rparr> else g)"

definition mark_complete :: "int \<Rightarrow> string \<Rightarrow> goal_verification \<Rightarrow> goal_state \<Rightarrow> string + goal_state" where
  "mark_complete now evidence verification g =
     (if go_objective g = None then Inl ''No active goal exists to complete.''
      else Inr (g\<lparr>go_status := Some GoalComplete, go_finished_at := Some now, go_evidence := Some evidence,
                  go_blocker := None, go_verification := Some verification\<rparr>))"

definition mark_blocked :: "int \<Rightarrow> string \<Rightarrow> goal_state \<Rightarrow> string + goal_state" where
  "mark_blocked now blocker g =
     (if go_objective g = None then Inl ''No active goal exists to block.''
      else Inr (g\<lparr>go_status := Some GoalBlocked, go_finished_at := Some now, go_blocker := Some blocker,
                  go_evidence := None, go_verification := None\<rparr>))"

record goal_snapshot =
  gs_objective :: "string option"
  gs_status :: string
  gs_token_budget :: "u32 option"
  gs_tokens_used :: u64
  gs_time_used_seconds :: u64
  gs_continuation_count :: u32
  gs_elapsed_seconds :: "u64 option"
  gs_evidence :: "string option"
  gs_blocker :: "string option"
  gs_verification :: "goal_verification option"

definition goal_snapshot_of :: "int \<Rightarrow> goal_state \<Rightarrow> goal_snapshot" where
  "goal_snapshot_of now g =
     \<lparr>gs_objective = go_objective g,
      gs_status = (case go_status g of None \<Rightarrow> ''none'' | Some s \<Rightarrow> goal_status_str s),
      gs_token_budget = go_token_budget g, gs_tokens_used = go_tokens_used g,
      gs_time_used_seconds = go_time_used_seconds g, gs_continuation_count = go_continuation_count g,
      gs_elapsed_seconds = map_option (\<lambda>started. of_int (max 0 (now - started) div 1000000000)) (go_started_at g),
      gs_evidence = go_evidence g, gs_blocker = go_blocker g, gs_verification = go_verification g\<rparr>"

definition snapshot_is_active :: "goal_snapshot \<Rightarrow> bool" where
  "snapshot_is_active s \<longleftrightarrow> gs_objective s \<noteq> None \<and> gs_status s = goal_status_str GoalActive"

lemma snapshot_is_active_iff [simp]: "snapshot_is_active (goal_snapshot_of now g) \<longleftrightarrow> goal_is_active g"
proof (cases "go_status g")
  case None
  then show ?thesis by (simp add: snapshot_is_active_def goal_snapshot_of_def goal_is_active_def)
next
  case (Some s)
  then show ?thesis
    by (cases s) (simp_all add: snapshot_is_active_def goal_snapshot_of_def goal_is_active_def)
qed

text \<open>\<open>#[derive(Serialize)]\<close> of the snapshot: the fields in the order of their declaration.\<close>

definition verification_to_json :: "goal_verification \<Rightarrow> json" where
  "verification_to_json v =
     JObj [(''status'', JStr (gv_status v)), (''check'', JStr (gv_check v)), (''summary'', JStr (gv_summary v))]"

definition snapshot_to_json :: "goal_snapshot \<Rightarrow> json" where
  "snapshot_to_json s =
     JObj [(''objective'', json_of_option JStr (gs_objective s)), (''status'', JStr (gs_status s)),
           (''token_budget'', json_of_option json_of_word (gs_token_budget s)),
           (''tokens_used'', json_of_word (gs_tokens_used s)),
           (''time_used_seconds'', json_of_word (gs_time_used_seconds s)),
           (''continuation_count'', json_of_word (gs_continuation_count s)),
           (''elapsed_seconds'', json_of_option json_of_word (gs_elapsed_seconds s)),
           (''evidence'', json_of_option JStr (gs_evidence s)), (''blocker'', json_of_option JStr (gs_blocker s)),
           (''completion_verification'', json_of_option verification_to_json (gs_verification s))]"

definition render_continuation_prompt ::
  "(json \<Rightarrow> string) \<Rightarrow> string \<Rightarrow> goal_snapshot \<Rightarrow> u32 \<Rightarrow> string" where
  "render_continuation_prompt pretty prompt s index =
     trim prompt @ [CHR 0x0A, CHR 0x0A] @ ''## Active Goal State'' @ [CHR 0x0A, CHR 0x0A]
       @ [CHR 0x60, CHR 0x60, CHR 0x60] @ ''json'' @ [CHR 0x0A] @ pretty (snapshot_to_json s) @ [CHR 0x0A]
       @ [CHR 0x60, CHR 0x60, CHR 0x60] @ [CHR 0x0A, CHR 0x0A]
       @ ''Continuation pass #'' @ show_nat (unat index) @ ''.'' @ [CHR 0x0A]
       @ ''If the goal is complete, first run or cite a concrete verifier/check, then call ''
       @ [CHR 0x60] @ ''update_goal'' @ [CHR 0x60] @ '' with '' @ [CHR 0x60] @ ''status: \"complete\"'' @ [CHR 0x60]
       @ '', concrete evidence, and '' @ [CHR 0x60]
       @ ''verification: {\"status\":\"passed\",\"check\":\"...\",\"summary\":\"...\"}'' @ [CHR 0x60]
       @ ''. If it is blocked, call '' @ [CHR 0x60] @ ''update_goal'' @ [CHR 0x60] @ '' with '' @ [CHR 0x60]
       @ ''status: \"blocked\"'' @ [CHR 0x60]
       @ '' and the blocker. Otherwise continue making progress toward the objective.''"

section \<open>The tools of the model\<close>

text \<open>The field of an input as trimmed text, empty when it is missing or no string.\<close>

definition trimmed_field :: "json \<Rightarrow> string \<Rightarrow> string" where
  "trimmed_field input field = (case optional_str input field of None \<Rightarrow> [] | Some s \<Rightarrow> trim s)"

definition parse_token_budget :: "json \<Rightarrow> tool_error + u32 option" where
  "parse_token_budget input =
     (case json_get ''token_budget'' input of
        None \<Rightarrow> Inr None
      | Some raw \<Rightarrow>
          if raw = JNull then Inr None
          else (case as_u64 raw of
                  None \<Rightarrow> Inl (InvalidInput ''token_budget must be a non-negative integer'')
                | Some v \<Rightarrow> if uint v < 2 ^ 32 then Inr (Some (ucast v))
                             else Inl (InvalidInput ''token_budget is too large'')))"

text \<open>
  \<open>serde_json::from_value\<close> for a struct of three strings: from an object (other fields are ignored) or from an
  array of the three values.
\<close>

fun verification_from_value :: "json \<Rightarrow> goal_verification option" where
  "verification_from_value (JArr [JStr s, JStr c, JStr t]) =
     Some \<lparr>gv_status = s, gv_check = c, gv_summary = t\<rparr>"
| "verification_from_value (JObj kvs) =
     (case (Option.bind (map_of kvs ''status'') as_str, Option.bind (map_of kvs ''check'') as_str,
            Option.bind (map_of kvs ''summary'') as_str) of
        (Some s, Some c, Some t) \<Rightarrow> Some \<lparr>gv_status = s, gv_check = c, gv_summary = t\<rparr>
      | _ \<Rightarrow> None)"
| "verification_from_value _ = None"

definition parse_completion_verification :: "(json \<Rightarrow> string) \<Rightarrow> json \<Rightarrow> tool_error + goal_verification" where
  "parse_completion_verification serde_err input =
     (case json_get ''verification'' input of
        None \<Rightarrow> Inl (InvalidInput (''verification is required when status is complete; run a verifier/check and ''
                  @ ''pass verification: {status, check, summary}''))
      | Some raw \<Rightarrow>
         (case verification_from_value raw of
            None \<Rightarrow> Inl (InvalidInput (''invalid verification: '' @ serde_err raw))
          | Some v \<Rightarrow>
              if trim (gv_status v) \<noteq> ''passed''
              then Inl (InvalidInput (''verification.status must be '' @ [CHR 0x27] @ ''passed'' @ [CHR 0x27]
                     @ '' before update_goal can mark a goal complete''))
              else if trim (gv_check v) = [] then Inl (InvalidInput ''verification.check is required'')
              else if trim (gv_summary v) = [] then Inl (InvalidInput ''verification.summary is required'')
              else Inr \<lparr>gv_status = ''passed'', gv_check = trim (gv_check v), gv_summary = trim (gv_summary v)\<rparr>))"

definition snapshot_result :: "(json \<Rightarrow> string) \<Rightarrow> int \<Rightarrow> goal_state \<Rightarrow> tool_result" where
  "snapshot_result pretty now g = result_success (pretty (snapshot_to_json (goal_snapshot_of now g)))"

definition create_goal ::
  "(json \<Rightarrow> string) \<Rightarrow> int \<Rightarrow> json \<Rightarrow> goal_state \<Rightarrow> goal_state \<times> (tool_error + tool_result)" where
  "create_goal pretty now input g =
     (case required_str input ''objective'' of
        Inl e \<Rightarrow> (g, Inl e)
      | Inr raw \<Rightarrow>
          if trim raw = [] then (g, Inl (InvalidInput ''objective cannot be empty''))
          else (case parse_token_budget input of
                  Inl e \<Rightarrow> (g, Inl e)
                | Inr budget \<Rightarrow>
                    (let g' = goal_create now (trim raw) budget in (g', Inr (snapshot_result pretty now g')))))"

definition get_goal ::
  "(json \<Rightarrow> string) \<Rightarrow> int \<Rightarrow> json \<Rightarrow> goal_state \<Rightarrow> goal_state \<times> (tool_error + tool_result)" where
  "get_goal pretty now input g = (g, Inr (snapshot_result pretty now g))"

definition update_result ::
  "(json \<Rightarrow> string) \<Rightarrow> int \<Rightarrow> goal_state \<Rightarrow> string + goal_state \<Rightarrow> goal_state \<times> (tool_error + tool_result)" where
  "update_result pretty now g r =
     (case r of Inl e \<Rightarrow> (g, Inl (InvalidInput e)) | Inr g' \<Rightarrow> (g', Inr (snapshot_result pretty now g')))"

definition update_goal ::
  "(json \<Rightarrow> string) \<Rightarrow> (json \<Rightarrow> string) \<Rightarrow> int \<Rightarrow> json \<Rightarrow> goal_state
     \<Rightarrow> goal_state \<times> (tool_error + tool_result)" where
  "update_goal pretty serde_err now input g =
     (case required_str input ''status'' of
        Inl e \<Rightarrow> (g, Inl e)
      | Inr raw \<Rightarrow>
          (let status = lowercase (trim raw)
           in if status = ''complete''
              then (let evidence = trimmed_field input ''evidence''
                    in if evidence = [] then (g, Inl (InvalidInput ''evidence is required when status is complete''))
                       else (case parse_completion_verification serde_err input of
                               Inl e \<Rightarrow> (g, Inl e)
                             | Inr v \<Rightarrow> update_result pretty now g (mark_complete now evidence v g)))
              else if status = ''blocked''
              then (let blocker = trimmed_field input ''blocker''
                    in if blocker = [] then (g, Inl (InvalidInput ''blocker is required when status is blocked''))
                       else update_result pretty now g (mark_blocked now blocker g))
              else (g, Inl (InvalidInput (''unsupported goal status '' @ [CHR 0x27] @ status @ [CHR 0x27]
                       @ ''; update_goal can only mark complete or blocked'')))))"

section \<open>What the tools can do\<close>

lemma completion_verification_passed:
  "parse_completion_verification serde_err input = Inr v \<Longrightarrow>
   gv_status v = ''passed'' \<and> gv_check v \<noteq> [] \<and> gv_summary v \<noteq> []"
  by (auto simp: parse_completion_verification_def split: option.splits if_splits)

text \<open>The three outcomes of \<^const>\<open>update_goal\<close>: nothing, a completion with its receipt, a blocker.\<close>

lemma update_goal_outcome:
  obtains (same) "fst (update_goal pretty serde_err now input g) = g"
  | (complete) ev v where "go_objective g \<noteq> None" "ev \<noteq> []" "gv_status v = ''passed''" "gv_check v \<noteq> []"
      "gv_summary v \<noteq> []" "mark_complete now ev v g = Inr (fst (update_goal pretty serde_err now input g))"
  | (blocked) b where "go_objective g \<noteq> None" "b \<noteq> []"
      "mark_blocked now b g = Inr (fst (update_goal pretty serde_err now input g))"
proof (cases "required_str input ''status''")
  case (Inl e)
  then show thesis by (intro same) (simp add: update_goal_def)
next
  case (Inr raw)
  consider (c) "lowercase (trim raw) = ''complete''" | (b) "lowercase (trim raw) = ''blocked''"
    | (other) "lowercase (trim raw) \<noteq> ''complete''" "lowercase (trim raw) \<noteq> ''blocked''"
    by blast
  then show thesis
  proof cases
    case c
    show thesis
    proof (cases "trimmed_field input ''evidence'' = [] \<or> go_objective g = None")
      case True
      then show thesis
        using Inr c
        by (intro same) (auto simp: update_goal_def Let_def update_result_def mark_complete_def split: sum.split)
    next
      case False
      show thesis
      proof (cases "parse_completion_verification serde_err input")
        case (Inl e)
        then show thesis using Inr c False by (intro same) (simp add: update_goal_def Let_def)
      next
        case v: (Inr v)
        show thesis
          using False Inr c v completion_verification_passed [OF v]
          by (intro complete [of "trimmed_field input ''evidence''" v])
            (simp_all add: update_goal_def Let_def update_result_def mark_complete_def)
      qed
    qed
  next
    case b
    show thesis
    proof (cases "trimmed_field input ''blocker'' = [] \<or> go_objective g = None")
      case True
      then show thesis
        using Inr b
        by (intro same) (auto simp: update_goal_def Let_def update_result_def mark_blocked_def split: sum.split)
    next
      case False
      then show thesis
        using Inr b
        by (intro blocked [of "trimmed_field input ''blocker''"])
          (simp_all add: update_goal_def Let_def update_result_def mark_blocked_def)
    qed
  next
    case other
    then show thesis using Inr by (intro same) (simp add: update_goal_def Let_def)
  qed
qed

lemma create_goal_outcome:
  "fst (create_goal pretty now input g) = g \<or> (\<exists>obj budget. fst (create_goal pretty now input g) = goal_create now obj budget)"
  by (auto simp: create_goal_def Let_def split: sum.split)

end
