(* ===== verification/Goal_Engine.thy ===== *)
theory Goal_Engine
  imports Goal_State
begin

text \<open>
  The goal loop of the engine (\<open>crates/tui/src/core/engine.rs\<close>, \<open>core/engine/turn_loop.rs\<close>): the goal a message
  brings from the host, the passes inside a turn, the accounting and the message that starts the next turn. An
  engine has one bounded channel of operations, which it reads between turns and also writes to; \<open>goal_step\<close> is one
  step of it. Of an operation only what touches the goal is kept. What the model calls in a turn, what a turn used
  and how it ended are labels of the step.
\<close>

definition OP_CHANNEL_CAPACITY :: nat where "OP_CHANNEL_CAPACITY = 32"
definition MAX_GOAL_CONTINUATIONS_PER_TURN :: u32 where "MAX_GOAL_CONTINUATIONS_PER_TURN = 3"

datatype goal_op =
    SendMessage "string option" "u32 option" goal_status
  | SetGoalStatus goal_status bool

datatype turn_outcome = TurnCompleted | TurnInterrupted | TurnFailed

datatype engine_phase = EngineIdle | InTurn u32 | Sending goal_op

record goal_engine =
  ge_objective :: "string option"
  ge_token_budget :: "u32 option"
  ge_status :: goal_status
  ge_goal :: goal_state
  ge_queue :: "goal_op list"
  ge_phase :: engine_phase

definition sync_goal_state_from_host ::
  "int \<Rightarrow> string option \<Rightarrow> u32 option \<Rightarrow> goal_status \<Rightarrow> goal_engine \<Rightarrow> goal_engine" where
  "sync_goal_state_from_host now obj budget status e =
     e\<lparr>ge_goal := sync_from_host_status now obj budget status (ge_goal e)\<rparr>"

definition goal_engine_new :: "int \<Rightarrow> string option \<Rightarrow> u32 option \<Rightarrow> goal_status \<Rightarrow> goal_state \<Rightarrow> goal_engine" where
  "goal_engine_new now obj budget status g =
     (let e = \<lparr>ge_objective = obj, ge_token_budget = budget, ge_status = status, ge_goal = g, ge_queue = [],
               ge_phase = EngineIdle\<rparr>
      in case normalized_goal_objective obj of
           None \<Rightarrow> e
         | Some objective \<Rightarrow> sync_goal_state_from_host now (Some objective) budget status e)"

text \<open>The part of \<open>handle_send_message\<close> that takes over the goal of the message.\<close>

definition take_goal_of_message ::
  "int \<Rightarrow> string option \<Rightarrow> u32 option \<Rightarrow> goal_status \<Rightarrow> goal_engine \<Rightarrow> goal_engine" where
  "take_goal_of_message now obj budget status e =
     (let e' = e\<lparr>ge_objective := obj, ge_token_budget := budget, ge_status := status\<rparr>
      in if normalized_goal_objective (ge_objective e) \<noteq> normalized_goal_objective obj
            \<or> ge_token_budget e \<noteq> budget \<or> ge_status e \<noteq> status
         then sync_goal_state_from_host now (normalized_goal_objective obj) budget status e' else e')"

definition handle_set_goal_status :: "int \<Rightarrow> goal_status \<Rightarrow> bool \<Rightarrow> goal_engine \<Rightarrow> goal_engine" where
  "handle_set_goal_status now status clear e =
     (if clear then sync_goal_state_from_host now None None GoalActive e
      else sync_goal_state_from_host now (go_objective (ge_goal e)) (go_token_budget (ge_goal e)) status e)"

definition goal_objective_for_prompt :: "string option \<Rightarrow> goal_state \<Rightarrow> string option" where
  "goal_objective_for_prompt configured g =
     (case go_objective g of
        Some objective \<Rightarrow> if goal_is_active g then Some objective else None
      | None \<Rightarrow> normalized_goal_objective configured)"

definition goal_snapshot_for_event :: "int \<Rightarrow> goal_engine \<Rightarrow> goal_snapshot option" where
  "goal_snapshot_for_event now e =
     (let s = goal_snapshot_of now (ge_goal e) in if gs_objective s = None then None else Some s)"

definition record_goal_usage_for_turn :: "u32 \<Rightarrow> u32 \<Rightarrow> nat \<Rightarrow> goal_engine \<Rightarrow> goal_engine" where
  "record_goal_usage_for_turn input_tokens output_tokens elapsed e =
     (let tokens = sat_add (ucast input_tokens) (ucast output_tokens);
          seconds = of_int (int elapsed div 1000000000)
      in if tokens = 0 \<and> seconds = 0 then e else e\<lparr>ge_goal := record_usage tokens seconds (ge_goal e)\<rparr>)"

text \<open>The progress and the budget both places hand to \<^const>\<open>decide_continuation\<close>: no time budget.\<close>

definition snapshot_progress :: "goal_snapshot \<Rightarrow> goal_progress" where
  "snapshot_progress s =
     \<lparr>gp_tokens_used = gs_tokens_used s, gp_time_used_seconds = gs_time_used_seconds s,
      gp_continuations = gs_continuation_count s\<rparr>"

definition snapshot_budget :: "goal_snapshot \<Rightarrow> goal_budget" where
  "snapshot_budget s =
     \<lparr>gb_token_budget = map_option ucast (gs_token_budget s), gb_time_budget_seconds = None\<rparr>"

definition goal_continuation_if_active ::
  "(json \<Rightarrow> string) \<Rightarrow> string \<Rightarrow> int \<Rightarrow> goal_engine \<Rightarrow> string option" where
  "goal_continuation_if_active pretty prompt now e =
     (let s = goal_snapshot_of now (ge_goal e)
      in if \<not> snapshot_is_active s then None
         else (case (if gs_status s = ''active'' then Some RunActive
                     else if gs_status s = ''complete'' then Some RunCompleted else None) of
                 None \<Rightarrow> None
               | Some status \<Rightarrow>
                  (case decide_continuation status (snapshot_progress s) (snapshot_budget s) of
                     Continue \<Rightarrow> Some (render_continuation_prompt pretty prompt s (gs_continuation_count s))
                   | Stop reason \<Rightarrow> None)))"

text \<open>
  The pass inside a turn: the goal and the count of passes after it, the message of the pass, and the status
  lines it sends.
\<close>

fun show_stop_reason :: "stop_reason \<Rightarrow> string" where
  "show_stop_reason StopCompleted = ''Completed''"
| "show_stop_reason StopBlocked = ''Blocked''"
| "show_stop_reason StopTokenBudget = ''TokenBudget''"
| "show_stop_reason StopTimeBudget = ''TimeBudget''"
| "show_stop_reason StopContinuationLimit = ''ContinuationLimit''"

definition show_word :: "'a::len word \<Rightarrow> string" where
  "show_word w = show_nat (unat w)"

definition stop_message :: "goal_snapshot \<Rightarrow> stop_reason \<Rightarrow> string" where
  "stop_message s reason =
     (case reason of
        StopTokenBudget \<Rightarrow>
          ''Goal token budget reached ('' @ show_word (gs_tokens_used s) @ '' / ''
            @ show_word (case gs_token_budget s of None \<Rightarrow> 0 | Some b \<Rightarrow> b) @ '' tokens); ending continuation.''
      | other \<Rightarrow> ''Goal continuation stopped: '' @ show_stop_reason other @ ''.'')"

record pass_result =
  ps_goal :: goal_state
  ps_count :: u32
  ps_message :: "string option"
  ps_events :: "string list"

definition goal_continuation_message_if_needed ::
  "(json \<Rightarrow> string) \<Rightarrow> string \<Rightarrow> bool \<Rightarrow> int \<Rightarrow> u32 \<Rightarrow> goal_state \<Rightarrow> pass_result" where
  "goal_continuation_message_if_needed pretty prompt has_update_goal now n g =
     (let s = goal_snapshot_of now g;
          none = (\<lambda>events. \<lparr>ps_goal = g, ps_count = n, ps_message = None, ps_events = events\<rparr>)
      in if \<not> has_update_goal then none []
         else if \<not> snapshot_is_active s then none []
         else if MAX_GOAL_CONTINUATIONS_PER_TURN \<le> n
         then none [''Goal remains active after '' @ show_word MAX_GOAL_CONTINUATIONS_PER_TURN
                @ '' continuation pass(es) this turn; ending turn to avoid a runaway loop.'']
         else (case decide_continuation RunActive (snapshot_progress s) (snapshot_budget s) of
                 Stop reason \<Rightarrow> none [stop_message s reason]
               | Continue \<Rightarrow>
                  (let n' = sat_add n 1; g' = record_continuation g; s' = goal_snapshot_of now g'
                   in \<lparr>ps_goal = g', ps_count = n',
                       ps_message = Some (render_continuation_prompt pretty prompt s' (gs_continuation_count s')),
                       ps_events = [''Continuing active goal ('' @ show_word n' @ ''/''
                          @ show_word MAX_GOAL_CONTINUATIONS_PER_TURN @ '' this turn, ''
                          @ show_word (gs_continuation_count s') @ '' total)'']\<rparr>)))"

section \<open>The engine loop\<close>

definition continuation_op :: goal_op where
  "continuation_op = SendMessage None None GoalActive"

definition finish_turn ::
  "(json \<Rightarrow> string) \<Rightarrow> string \<Rightarrow> int \<Rightarrow> u32 \<Rightarrow> u32 \<Rightarrow> nat \<Rightarrow> turn_outcome \<Rightarrow> goal_engine \<Rightarrow> goal_engine" where
  "finish_turn pretty prompt now input_tokens output_tokens elapsed outcome e =
     (let e' = record_goal_usage_for_turn input_tokens output_tokens elapsed e
      in e'\<lparr>ge_phase := (if outcome = TurnCompleted \<and> goal_continuation_if_active pretty prompt now e' \<noteq> None
                         then Sending continuation_op else EngineIdle)\<rparr>)"

text \<open>
  The labels: the host puts an operation into the channel; the engine receives the next one, or receives a message
  it cannot run for want of a client; it runs a message of its own (\<open>/edit\<close>, the result of a sub-agent), which
  repeats the configured goal; the model calls a goal tool; a pass inside the turn; a turn that is over; the
  continuation enters the channel.
\<close>

datatype goal_event =
    HostSends goal_op
  | Receives int
  | Rejects
  | OwnMessage int
  | CallsCreate int json
  | CallsUpdate int json
  | Passes int bool
  | EndsTurn int u32 u32 nat turn_outcome
  | Dispatches

inductive goal_step ::
  "(json \<Rightarrow> string) \<Rightarrow> (json \<Rightarrow> string) \<Rightarrow> string \<Rightarrow> goal_engine \<Rightarrow> goal_event \<Rightarrow> goal_engine \<Rightarrow> bool"
  for pretty serde_err prompt where
  host_sends: "length (ge_queue e) < OP_CHANNEL_CAPACITY \<Longrightarrow>
     goal_step pretty serde_err prompt e (HostSends op) (e\<lparr>ge_queue := ge_queue e @ [op]\<rparr>)"
| receives_message: "ge_phase e = EngineIdle \<Longrightarrow> ge_queue e = SendMessage obj budget status # q \<Longrightarrow>
     goal_step pretty serde_err prompt e (Receives now)
       ((take_goal_of_message now obj budget status e)\<lparr>ge_queue := q, ge_phase := InTurn 0\<rparr>)"
| rejects_message: "ge_phase e = EngineIdle \<Longrightarrow> ge_queue e = SendMessage obj budget status # q \<Longrightarrow>
     goal_step pretty serde_err prompt e Rejects (e\<lparr>ge_queue := q\<rparr>)"
| receives_status: "ge_phase e = EngineIdle \<Longrightarrow> ge_queue e = SetGoalStatus status clear # q \<Longrightarrow>
     goal_step pretty serde_err prompt e (Receives now) ((handle_set_goal_status now status clear e)\<lparr>ge_queue := q\<rparr>)"
| own_message: "ge_phase e = EngineIdle \<Longrightarrow>
     goal_step pretty serde_err prompt e (OwnMessage now)
       ((take_goal_of_message now (ge_objective e) (ge_token_budget e) (ge_status e) e)\<lparr>ge_phase := InTurn 0\<rparr>)"
| calls_create: "ge_phase e = InTurn n \<Longrightarrow>
     goal_step pretty serde_err prompt e (CallsCreate now input)
       (e\<lparr>ge_goal := fst (create_goal pretty now input (ge_goal e))\<rparr>)"
| calls_update: "ge_phase e = InTurn n \<Longrightarrow>
     goal_step pretty serde_err prompt e (CallsUpdate now input)
       (e\<lparr>ge_goal := fst (update_goal pretty serde_err now input (ge_goal e))\<rparr>)"
| passes: "ge_phase e = InTurn n \<Longrightarrow>
     r = goal_continuation_message_if_needed pretty prompt has_update_goal now n (ge_goal e) \<Longrightarrow>
     goal_step pretty serde_err prompt e (Passes now has_update_goal)
       (e\<lparr>ge_goal := ps_goal r, ge_phase := InTurn (ps_count r)\<rparr>)"
| ends_turn: "ge_phase e = InTurn n \<Longrightarrow>
     goal_step pretty serde_err prompt e (EndsTurn now i out elapsed outcome)
       (finish_turn pretty prompt now i out elapsed outcome e)"
| dispatches: "ge_phase e = Sending op \<Longrightarrow> length (ge_queue e) < OP_CHANNEL_CAPACITY \<Longrightarrow>
     goal_step pretty serde_err prompt e Dispatches (e\<lparr>ge_queue := ge_queue e @ [op], ge_phase := EngineIdle\<rparr>)"

inductive_cases dispatchesE: "goal_step pretty serde_err prompt e Dispatches e'"

inductive goal_run ::
  "(json \<Rightarrow> string) \<Rightarrow> (json \<Rightarrow> string) \<Rightarrow> string \<Rightarrow> goal_engine \<Rightarrow> goal_event list \<Rightarrow> goal_engine \<Rightarrow> bool"
  for pretty serde_err prompt where
  run_nil: "goal_run pretty serde_err prompt e [] e"
| run_snoc: "goal_run pretty serde_err prompt e evs e' \<Longrightarrow> goal_step pretty serde_err prompt e' ev e'' \<Longrightarrow>
     goal_run pretty serde_err prompt e (evs @ [ev]) e''"

section \<open>When a goal goes on\<close>

definition goal_spent :: "goal_state \<Rightarrow> bool" where
  "goal_spent g \<longleftrightarrow> spent (go_tokens_used g) (map_option ucast (go_token_budget g))"

lemma snapshot_decision:
  "decide_continuation RunActive (snapshot_progress (goal_snapshot_of now g)) (snapshot_budget (goal_snapshot_of now g))
     = (if goal_spent g then Stop StopTokenBudget else Continue)"
  by (simp add: decide_continuation_def snapshot_progress_def snapshot_budget_def goal_snapshot_of_def goal_spent_def
      spent_def)

lemma continuation_iff:
  "goal_continuation_if_active pretty prompt now e \<noteq> None \<longleftrightarrow> goal_is_active (ge_goal e) \<and> \<not> goal_spent (ge_goal e)"
proof (cases "goal_is_active (ge_goal e)")
  case True
  then have "gs_status (goal_snapshot_of now (ge_goal e)) = ''active''"
    by (simp add: goal_is_active_def goal_snapshot_of_def)
  then show ?thesis
    using True by (simp add: goal_continuation_if_active_def Let_def snapshot_decision)
next
  case False
  then show ?thesis by (simp add: goal_continuation_if_active_def Let_def)
qed

lemma goal_spent_nat:
  "goal_spent g \<longleftrightarrow> (case go_token_budget g of None \<Rightarrow> False | Some b \<Rightarrow> unat b \<le> unat (go_tokens_used g))"
proof -
  have "unat (ucast b :: u64) = unat b" for b :: u32
    by (simp only: flip: nat_uint_eq) (simp add: uint_up_ucast is_up)
  then show ?thesis
    by (simp add: goal_spent_def spent_def word_le_nat_alt split: option.split)
qed

text \<open>What a pass inside a turn does to the goal: nothing but count itself.\<close>

lemma pass_goal:
  "ps_goal (goal_continuation_message_if_needed pretty prompt has now n g) = g \<or>
   ps_goal (goal_continuation_message_if_needed pretty prompt has now n g) = record_continuation g"
  by (simp add: goal_continuation_message_if_needed_def Let_def snapshot_decision)

lemma record_continuation_fields [simp]:
  "go_objective (record_continuation g) = go_objective g" "go_status (record_continuation g) = go_status g"
  "go_token_budget (record_continuation g) = go_token_budget g"
  "go_tokens_used (record_continuation g) = go_tokens_used g"
  "go_evidence (record_continuation g) = go_evidence g"
  "go_verification (record_continuation g) = go_verification g"
  by (simp_all add: record_continuation_def)

lemma pass_fields [simp]:
  "go_objective (ps_goal (goal_continuation_message_if_needed pretty prompt has now n g)) = go_objective g"
  "go_status (ps_goal (goal_continuation_message_if_needed pretty prompt has now n g)) = go_status g"
  "go_token_budget (ps_goal (goal_continuation_message_if_needed pretty prompt has now n g)) = go_token_budget g"
  "go_tokens_used (ps_goal (goal_continuation_message_if_needed pretty prompt has now n g)) = go_tokens_used g"
  "go_evidence (ps_goal (goal_continuation_message_if_needed pretty prompt has now n g)) = go_evidence g"
  "go_verification (ps_goal (goal_continuation_message_if_needed pretty prompt has now n g)) = go_verification g"
  using pass_goal [of pretty prompt has now n g] by auto

lemma pass_count_bound:
  "n \<le> MAX_GOAL_CONTINUATIONS_PER_TURN \<Longrightarrow>
   ps_count (goal_continuation_message_if_needed pretty prompt has now n g) \<le> MAX_GOAL_CONTINUATIONS_PER_TURN"
  by (auto simp: goal_continuation_message_if_needed_def Let_def snapshot_decision not_le
      MAX_GOAL_CONTINUATIONS_PER_TURN_def word_le_nat_alt word_less_nat_alt unat_sat_add)

section \<open>Completion\<close>

text \<open>What makes a goal complete without the host: evidence and a verification that passed.\<close>

definition verified :: "goal_state \<Rightarrow> bool" where
  "verified g \<longleftrightarrow>
     (case (go_evidence g, go_verification g) of
        (Some ev, Some v) \<Rightarrow> ev \<noteq> [] \<and> gv_status v = ''passed'' \<and> gv_check v \<noteq> [] \<and> gv_summary v \<noteq> []
      | _ \<Rightarrow> False)"

lemma verified_same [simp]:
  "verified (g\<lparr>go_tokens_used := a\<rparr>) = verified g" "verified (g\<lparr>go_time_used_seconds := b\<rparr>) = verified g"
  "verified (g\<lparr>go_token_budget := c\<rparr>) = verified g" "verified (g\<lparr>go_continuation_count := d\<rparr>) = verified g"
  by (simp_all add: verified_def)

definition complete_is_verified :: "goal_state \<Rightarrow> bool" where
  "complete_is_verified g \<longleftrightarrow> (if go_status g = Some GoalComplete then verified g else True)"

lemma complete_no_goal [simp]: "complete_is_verified no_goal"
  by (simp add: complete_is_verified_def no_goal_def)

lemma complete_sync:
  "complete_is_verified g \<Longrightarrow> status \<noteq> GoalComplete \<Longrightarrow>
   complete_is_verified (sync_from_host_status now obj budget status g)"
  by (auto simp: complete_is_verified_def sync_from_host_status_def goal_status_set_def Let_def no_goal_def
      split: option.split)

lemma complete_create: "complete_is_verified g \<Longrightarrow> complete_is_verified (fst (create_goal pretty now input g))"
  by (simp add: complete_is_verified_def create_goal_def goal_create_def no_goal_def Let_def split: sum.split)

lemma mark_complete_fields:
  "mark_complete now ev v g = Inr g' \<Longrightarrow> go_status g' = Some GoalComplete \<and> go_evidence g' = Some ev
     \<and> go_verification g' = Some v \<and> go_token_budget g' = go_token_budget g \<and> \<not> goal_is_active g'"
  by (auto simp: mark_complete_def goal_is_active_def split: if_splits)

lemma mark_blocked_fields:
  "mark_blocked now b g = Inr g' \<Longrightarrow> go_status g' = Some GoalBlocked \<and> go_token_budget g' = go_token_budget g
     \<and> \<not> goal_is_active g'"
  by (auto simp: mark_blocked_def goal_is_active_def split: if_splits)

lemma complete_update:
  "complete_is_verified g \<Longrightarrow> complete_is_verified (fst (update_goal pretty serde_err now input g))"
  by (cases rule: update_goal_outcome [of pretty serde_err now input g])
    (auto simp: complete_is_verified_def verified_def dest!: mark_complete_fields mark_blocked_fields)

lemma complete_usage [simp]: "complete_is_verified (record_usage a b g) = complete_is_verified g"
  by (simp add: record_usage_def complete_is_verified_def)

lemma complete_pass [simp]:
  "complete_is_verified (ps_goal (goal_continuation_message_if_needed pretty prompt has now n g))
     = complete_is_verified g"
  by (simp add: complete_is_verified_def verified_def)

lemma goal_after_turn:
  "ge_goal (finish_turn pretty prompt now i out elapsed outcome e)
     = ge_goal (record_goal_usage_for_turn i out elapsed e)"
  "ge_queue (finish_turn pretty prompt now i out elapsed outcome e) = ge_queue e"
  "ge_status (finish_turn pretty prompt now i out elapsed outcome e) = ge_status e"
  by (simp_all add: finish_turn_def record_goal_usage_for_turn_def Let_def)

text \<open>Operations with which the host declares the goal complete itself.\<close>

fun op_completes :: "goal_op \<Rightarrow> bool" where
  "op_completes (SendMessage obj budget status) \<longleftrightarrow> status = GoalComplete"
| "op_completes (SetGoalStatus status clear) \<longleftrightarrow> status = GoalComplete"

fun host_completes :: "goal_event \<Rightarrow> bool" where
  "host_completes (HostSends op) = op_completes op"
| "host_completes _ = False"

definition completion_inv :: "goal_engine \<Rightarrow> bool" where
  "completion_inv e \<longleftrightarrow> complete_is_verified (ge_goal e) \<and> filter op_completes (ge_queue e) = [] \<and>
     ge_status e \<noteq> GoalComplete \<and> (case ge_phase e of Sending op \<Rightarrow> \<not> op_completes op | _ \<Rightarrow> True)"

lemma completion_inv_take:
  "completion_inv e \<Longrightarrow> status \<noteq> GoalComplete \<Longrightarrow> complete_is_verified (ge_goal (take_goal_of_message now obj budget status e))"
  by (simp add: take_goal_of_message_def sync_goal_state_from_host_def complete_sync completion_inv_def Let_def)

lemma take_goal_fields [simp]:
  "ge_queue (take_goal_of_message now obj budget status e) = ge_queue e"
  "ge_phase (take_goal_of_message now obj budget status e) = ge_phase e"
  "ge_status (take_goal_of_message now obj budget status e) = status"
  by (simp_all add: take_goal_of_message_def sync_goal_state_from_host_def Let_def)

lemma set_status_fields [simp]:
  "ge_queue (handle_set_goal_status now status clear e) = ge_queue e"
  "ge_phase (handle_set_goal_status now status clear e) = ge_phase e"
  "ge_status (handle_set_goal_status now status clear e) = ge_status e"
  by (simp_all add: handle_set_goal_status_def sync_goal_state_from_host_def)

lemma usage_fields [simp]:
  "complete_is_verified (ge_goal (record_goal_usage_for_turn i out elapsed e)) = complete_is_verified (ge_goal e)"
  "ge_queue (record_goal_usage_for_turn i out elapsed e) = ge_queue e"
  "ge_status (record_goal_usage_for_turn i out elapsed e) = ge_status e"
  by (simp_all add: record_goal_usage_for_turn_def Let_def)

lemma finish_turn_phase:
  "ge_phase (finish_turn pretty prompt now i out elapsed outcome e) = EngineIdle \<or>
   ge_phase (finish_turn pretty prompt now i out elapsed outcome e) = Sending continuation_op"
  by (simp add: finish_turn_def Let_def)

lemma completion_inv_step:
  assumes "goal_step pretty serde_err prompt e ev e'" and "\<not> host_completes ev" and "completion_inv e"
  shows "completion_inv e'"
  using assms
proof (induction rule: goal_step.induct)
  case (receives_message e obj budget status q now)
  then show ?case
    using completion_inv_take [of e status now obj budget] by (auto simp: completion_inv_def split: if_splits)
next
  case (receives_status e status clear q now)
  then have "complete_is_verified (ge_goal (handle_set_goal_status now status clear e))"
    by (auto simp: completion_inv_def handle_set_goal_status_def sync_goal_state_from_host_def complete_sync
        split: if_splits)
  then show ?case using receives_status by (auto simp: completion_inv_def split: if_splits)
next
  case (own_message e now)
  then show ?case using completion_inv_take [of e "ge_status e" now] by (auto simp: completion_inv_def)
next
  case (ends_turn e n now i out elapsed outcome)
  then show ?case
    using finish_turn_phase [of pretty prompt now i out elapsed outcome e]
    by (auto simp: completion_inv_def goal_after_turn continuation_op_def)
qed (auto simp: completion_inv_def complete_create complete_update split: if_splits)

lemma completion_inv_run:
  assumes "goal_run pretty serde_err prompt e evs e'" and "filter host_completes evs = []" and "completion_inv e"
  shows "completion_inv e'"
  using assms
proof (induction rule: goal_run.induct)
  case (run_snoc e evs e' ev e'')
  then show ?case using completion_inv_step by (auto split: if_splits)
qed simp

text \<open>
  C16: Unless the host itself declares the goal complete, a goal is complete only with evidence and the receipt of
  a verification that passed, whatever the model calls and in whatever order messages, passes and turns come.
\<close>

theorem completion_needs_a_receipt:
  assumes "goal_run pretty serde_err prompt (goal_engine_new start obj budget status no_goal) evs e"
    and "filter host_completes evs = []" and "status \<noteq> GoalComplete"
    and "go_status (ge_goal e) = Some GoalComplete"
  shows "\<exists>ev v. go_evidence (ge_goal e) = Some ev \<and> ev \<noteq> [] \<and> go_verification (ge_goal e) = Some v
    \<and> gv_status v = ''passed'' \<and> gv_check v \<noteq> [] \<and> gv_summary v \<noteq> []"
proof -
  have "completion_inv (goal_engine_new start obj budget status no_goal)"
    using assms(3)
    by (auto simp: completion_inv_def goal_engine_new_def sync_goal_state_from_host_def complete_sync Let_def
        split: option.split)
  from completion_inv_run [OF assms(1,2) this] show ?thesis
    using assms(4)
    by (auto simp: completion_inv_def complete_is_verified_def verified_def split: option.splits)
qed

section \<open>Bounds of the loop\<close>

definition passes_inv :: "goal_engine \<Rightarrow> bool" where
  "passes_inv e \<longleftrightarrow> length (ge_queue e) \<le> OP_CHANNEL_CAPACITY \<and>
     (case ge_phase e of InTurn n \<Rightarrow> n \<le> MAX_GOAL_CONTINUATIONS_PER_TURN | _ \<Rightarrow> True)"

lemma passes_inv_step:
  "goal_step pretty serde_err prompt e ev e' \<Longrightarrow> passes_inv e \<Longrightarrow> passes_inv e'"
proof (induction rule: goal_step.induct)
  case (ends_turn e n now i out elapsed outcome)
  then show ?case
    using finish_turn_phase [of pretty prompt now i out elapsed outcome e]
    by (auto simp: passes_inv_def goal_after_turn)
qed (auto simp: passes_inv_def pass_count_bound)

lemma passes_inv_run:
  "goal_run pretty serde_err prompt e evs e' \<Longrightarrow> passes_inv e \<Longrightarrow> passes_inv e'"
  by (induction rule: goal_run.induct) (auto intro: passes_inv_step)

lemma engine_new_fields [simp]:
  "ge_queue (goal_engine_new now obj budget status g) = []" "ge_phase (goal_engine_new now obj budget status g) = EngineIdle"
  by (simp_all add: goal_engine_new_def sync_goal_state_from_host_def Let_def split: option.split)

lemma passes_inv_new: "passes_inv (goal_engine_new now obj budget status g)"
  by (simp add: passes_inv_def OP_CHANNEL_CAPACITY_def)

text \<open>Runs without a message of the host, a new goal, or a turn that used no token.\<close>

fun unattended :: "goal_event \<Rightarrow> bool" where
  "unattended (HostSends op) \<longleftrightarrow> False"
| "unattended (CallsCreate now input) \<longleftrightarrow> False"
| "unattended (EndsTurn now i out elapsed outcome) \<longleftrightarrow> i \<noteq> 0 \<or> out \<noteq> 0"
| "unattended _ \<longleftrightarrow> True"

definition tokens_left :: "goal_state \<Rightarrow> nat" where
  "tokens_left g =
     (case go_token_budget g of
        Some b \<Rightarrow> if goal_is_active g then unat b - unat (go_tokens_used g) else 0
      | None \<Rightarrow> 0)"

definition sends_pending :: "goal_engine \<Rightarrow> nat" where
  "sends_pending e = (case ge_phase e of Sending op \<Rightarrow> 1 | _ \<Rightarrow> 0)"

definition budget_inv :: "goal_engine \<Rightarrow> bool" where
  "budget_inv e \<longleftrightarrow> set (ge_queue e) \<subseteq> {continuation_op} \<and>
     (goal_is_active (ge_goal e) \<longrightarrow> go_token_budget (ge_goal e) \<noteq> None) \<and>
     (case ge_phase e of Sending op \<Rightarrow> op = continuation_op | _ \<Rightarrow> True)"

lemma no_goal_inactive [simp]: "\<not> goal_is_active no_goal" "tokens_left no_goal = 0"
  by (simp_all add: goal_is_active_def no_goal_def tokens_left_def)

lemma normalized_none [simp]: "normalized_goal_objective None = None"
  by (simp add: normalized_goal_objective_def)

lemma sync_none [simp]: "sync_from_host_status now None budget status g = no_goal"
  by (simp add: sync_from_host_status_def)

text \<open>The message of a continuation leaves the goal alone or clears it.\<close>

lemma take_continuation:
  "ge_goal (take_goal_of_message now None None GoalActive e)
     = (if normalized_goal_objective (ge_objective e) = None \<and> ge_token_budget e = None \<and> ge_status e = GoalActive
        then ge_goal e else no_goal)"
  by (simp add: take_goal_of_message_def sync_goal_state_from_host_def Let_def)

lemma take_own:
  "ge_goal (take_goal_of_message now (ge_objective e) (ge_token_budget e) (ge_status e) e) = ge_goal e"
  by (simp add: take_goal_of_message_def Let_def)

lemma active_fields:
  "go_objective g = go_objective g' \<Longrightarrow> go_status g = go_status g' \<Longrightarrow> goal_is_active g = goal_is_active g'"
  by (simp add: goal_is_active_def)

lemma tokens_left_pass [simp]:
  "tokens_left (ps_goal (goal_continuation_message_if_needed pretty prompt has now n g)) = tokens_left g"
  "goal_is_active (ps_goal (goal_continuation_message_if_needed pretty prompt has now n g)) = goal_is_active g"
  by (simp_all add: tokens_left_def goal_is_active_def split: option.split)

lemma update_goal_budget:
  "fst (update_goal pretty serde_err now input g) = g \<or> \<not> goal_is_active (fst (update_goal pretty serde_err now input g))"
  by (cases rule: update_goal_outcome [of pretty serde_err now input g])
    (auto dest: mark_complete_fields mark_blocked_fields)

lemma tokens_left_inactive: "\<not> goal_is_active g \<Longrightarrow> tokens_left g = 0"
  by (simp add: tokens_left_def split: option.split)

lemma usage_budget [simp]:
  "go_token_budget (ge_goal (record_goal_usage_for_turn i out elapsed e)) = go_token_budget (ge_goal e)"
  "goal_is_active (ge_goal (record_goal_usage_for_turn i out elapsed e)) = goal_is_active (ge_goal e)"
  by (simp_all add: record_goal_usage_for_turn_def record_usage_def goal_is_active_def Let_def)

definition turn_tokens :: "u32 \<Rightarrow> u32 \<Rightarrow> u64" where
  "turn_tokens i out = sat_add (ucast i) (ucast out)"

lemma unat_ucast_up: "unat (ucast (w :: u32) :: u64) = unat w"
  by (simp only: flip: nat_uint_eq) (simp add: uint_up_ucast is_up)

lemma unat_u32_less: "unat (w :: u32) < 4294967296"
  using unsigned_less [of w, where ?'a = nat] by simp

lemma unat_turn_tokens: "unat (turn_tokens i out) = unat i + unat out"
  using unat_u32_less [of i] unat_u32_less [of out] by (simp add: turn_tokens_def unat_sat_add unat_ucast_up)

lemma sat_add_zero [simp]: "sat_add (w :: u64) 0 = w"
  using unsigned_less [of w, where ?'a = nat] by (simp add: word_unat_eq_iff unat_sat_add)

lemma record_usage_zero: "record_usage 0 0 g = g"
  by (simp add: record_usage_def)

lemma usage_goal:
  "ge_goal (record_goal_usage_for_turn i out elapsed e)
     = record_usage (turn_tokens i out) (of_int (int elapsed div 1000000000)) (ge_goal e)"
  by (simp add: record_goal_usage_for_turn_def turn_tokens_def Let_def record_usage_zero)

lemma usage_tokens:
  "goal_is_active (ge_goal e) \<Longrightarrow>
   unat (go_tokens_used (ge_goal (record_goal_usage_for_turn i out elapsed e)))
     = min (unat (go_tokens_used (ge_goal e)) + (unat i + unat out)) (2 ^ 64 - 1)"
  by (simp add: usage_goal record_usage_def unat_sat_add unat_turn_tokens)

lemma budget_below: "unat (b :: u32) \<le> 2 ^ 64 - 1"
  using unat_u32_less [of b] by simp

lemma tokens_left_usage:
  "tokens_left (ge_goal (record_goal_usage_for_turn i out elapsed e)) \<le> tokens_left (ge_goal e)"
proof (cases "go_token_budget (ge_goal e)")
  case (Some b)
  then show ?thesis using budget_below [of b] by (auto simp: tokens_left_def usage_tokens)
qed (simp add: tokens_left_def)

lemma tokens_left_less:
  assumes "goal_is_active (ge_goal e)" "0 < unat i + unat out" "go_token_budget (ge_goal e) = Some b"
    "\<not> goal_spent (ge_goal (record_goal_usage_for_turn i out elapsed e))"
  shows "0 < tokens_left (ge_goal (record_goal_usage_for_turn i out elapsed e))
    \<and> tokens_left (ge_goal (record_goal_usage_for_turn i out elapsed e)) < tokens_left (ge_goal e)"
proof -
  let ?u = "unat (go_tokens_used (ge_goal e))"
  have used: "min (?u + (unat i + unat out)) (2 ^ 64 - 1) < unat b"
    using assms(3,4) budget_below [of b] unfolding goal_spent_nat usage_budget usage_tokens [OF assms(1)]
    by (auto simp: min_def split: if_splits)
  then have "?u + (unat i + unat out) < unat b" using budget_below [of b] by simp
  then have "0 < unat b - (?u + (unat i + unat out)) \<and> unat b - (?u + (unat i + unat out)) < unat b - ?u"
    using assms(2) by arith
  moreover have "min (?u + (unat i + unat out)) (2 ^ 64 - 1) = ?u + (unat i + unat out)"
    using used budget_below [of b] by simp
  ultimately show ?thesis using assms by (simp add: tokens_left_def usage_tokens)
qed

lemma finish_turn_phase_eq:
  "ge_phase (finish_turn pretty prompt now i out elapsed outcome e)
     = (if outcome = TurnCompleted \<and> goal_is_active (ge_goal e)
           \<and> \<not> goal_spent (ge_goal (record_goal_usage_for_turn i out elapsed e))
        then Sending continuation_op else EngineIdle)"
  unfolding finish_turn_def Let_def continuation_iff by simp

lemma budget_step:
  assumes "goal_step pretty serde_err prompt e ev e'" and "unattended ev" and "budget_inv e"
  shows "budget_inv e' \<and> (if ev = Dispatches then 1 else 0) + sends_pending e' + (tokens_left (ge_goal e') - 1)
     \<le> sends_pending e + (tokens_left (ge_goal e) - 1)"
  using assms
proof (induction rule: goal_step.induct)
  case (receives_message e obj budget status q now)
  then have "SendMessage obj budget status = continuation_op" "set q \<subseteq> {continuation_op}"
    by (auto simp: budget_inv_def)
  then show ?case
    using receives_message take_continuation [of now e]
    by (auto simp: budget_inv_def continuation_op_def sends_pending_def)
next
  case (receives_status e status clear q now)
  then show ?case by (auto simp: budget_inv_def continuation_op_def)
next
  case (own_message e now)
  then show ?case by (auto simp: budget_inv_def take_own sends_pending_def)
next
  case (calls_update e n now input)
  then show ?case
    using update_goal_budget [of pretty serde_err now input "ge_goal e"]
    by (auto simp: budget_inv_def sends_pending_def tokens_left_inactive)
next
  case (ends_turn e n now i out elapsed outcome)
  define e1 where "e1 = record_goal_usage_for_turn i out elapsed e"
  have tokens: "0 < unat i + unat out" using ends_turn by (auto simp: unat_gt_0)
  have phase: "ge_phase (finish_turn pretty prompt now i out elapsed outcome e)
      = (if outcome = TurnCompleted \<and> goal_is_active (ge_goal e1) \<and> \<not> goal_spent (ge_goal e1)
         then Sending continuation_op else EngineIdle)"
    by (simp add: finish_turn_phase_eq e1_def)
  have "0 < tokens_left (ge_goal e1) \<and> tokens_left (ge_goal e1) < tokens_left (ge_goal e)"
    if "goal_is_active (ge_goal e1)" "\<not> goal_spent (ge_goal e1)"
    using that ends_turn tokens tokens_left_less [of e i out _ elapsed]
    by (auto simp: e1_def budget_inv_def)
  moreover have "go_token_budget (ge_goal e1) = go_token_budget (ge_goal e)"
    "goal_is_active (ge_goal e1) = goal_is_active (ge_goal e)"
    by (simp_all add: e1_def)
  ultimately show ?case
    using ends_turn phase tokens_left_usage [of i out elapsed e]
    by (auto simp: budget_inv_def goal_after_turn sends_pending_def simp flip: e1_def)
next
  case (passes e n r has_update_goal now)
  then show ?case by (auto simp: budget_inv_def sends_pending_def)
next
  case (dispatches e op)
  then show ?case by (auto simp: budget_inv_def sends_pending_def)
qed (auto simp: budget_inv_def sends_pending_def)

lemma budget_run:
  assumes "goal_run pretty serde_err prompt e evs e'" and "list_all unattended evs" and "budget_inv e"
  shows "budget_inv e' \<and> length (filter ((=) Dispatches) evs) + sends_pending e' + (tokens_left (ge_goal e') - 1)
     \<le> sends_pending e + (tokens_left (ge_goal e) - 1)"
  using assms
proof (induction rule: goal_run.induct)
  case (run_snoc e evs e' ev e'')
  then show ?case
    using budget_step [OF run_snoc.hyps(2)] by (auto split: if_splits)
qed simp

text \<open>
  C23: A goal with a token budget ends: left alone, and with a token used in every turn, it starts fewer turns of
  its own than tokens are left of its budget, and none when none is left.
\<close>

theorem budgeted_goal_ends:
  assumes "goal_run pretty serde_err prompt e evs e'" and "list_all unattended evs"
    and "ge_queue e = []" and "ge_phase e = InTurn n" and "go_token_budget (ge_goal e) = Some b"
  shows "length (filter ((=) Dispatches) evs) \<le> unat b - unat (go_tokens_used (ge_goal e)) - 1"
proof -
  have "budget_inv e" using assms(3-5) by (simp add: budget_inv_def)
  from budget_run [OF assms(1,2) this] have "length (filter ((=) Dispatches) evs) \<le> tokens_left (ge_goal e) - 1"
    using assms(4) by (simp add: sends_pending_def)
  also have "\<dots> \<le> unat b - unat (go_tokens_used (ge_goal e)) - 1"
    using assms(5) by (simp add: tokens_left_def)
  finally show ?thesis .
qed

section \<open>Runs of the loop\<close>

text \<open>A goal made by the model in one turn of its own, with the tools answering nothing.\<close>

definition demo_text :: "json \<Rightarrow> string" where
  "demo_text v = []"

definition demo_create :: json where
  "demo_create = JObj [(''objective'', JStr ''ship it''), (''token_budget'', JInt 5)]"

definition demo_complete :: json where
  "demo_complete = JObj [(''status'', JStr '' Complete ''), (''evidence'', JStr ''tests pass''),
     (''verification'', JArr [JStr ''passed'', JStr ''cargo test'', JStr ''ok''])]"

definition demo_start :: goal_engine where
  "demo_start = goal_engine_new 0 None None GoalActive no_goal"

definition demo_working :: goal_engine where
  "demo_working = demo_start\<lparr>ge_goal := goal_create 2 ''ship it'' (Some 5), ge_phase := InTurn 0\<rparr>"

lemma demo_start_fields [simp]:
  "ge_objective demo_start = None" "ge_token_budget demo_start = None" "ge_status demo_start = GoalActive"
  "ge_goal demo_start = no_goal" "ge_queue demo_start = []" "ge_phase demo_start = EngineIdle"
  by (simp_all add: demo_start_def goal_engine_new_def)

lemma demo_created: "fst (create_goal demo_text 2 demo_create no_goal) = goal_create 2 ''ship it'' (Some 5)"
  by code_simp

lemma demo_completed:
  "fst (update_goal demo_text demo_text 3 demo_complete (goal_create 2 ''ship it'' (Some 5)))
     = (goal_create 2 ''ship it'' (Some 5))\<lparr>go_status := Some GoalComplete, go_finished_at := Some 3,
         go_evidence := Some ''tests pass'', go_blocker := None,
         go_verification := Some \<lparr>gv_status = ''passed'', gv_check = ''cargo test'', gv_summary = ''ok''\<rparr>\<rparr>"
  by code_simp

lemma run_single: "goal_step pretty serde_err prompt e ev e' \<Longrightarrow> goal_run pretty serde_err prompt e [ev] e'"
  using run_snoc [OF run_nil] by fastforce

lemma run_append:
  "goal_run pretty serde_err prompt e' evs' e'' \<Longrightarrow> goal_run pretty serde_err prompt e evs e' \<Longrightarrow>
   goal_run pretty serde_err prompt e (evs @ evs') e''"
  by (induction rule: goal_run.induct) (auto intro: run_snoc simp flip: append_assoc)

lemma run_step:
  "goal_step pretty serde_err prompt e ev e' \<Longrightarrow> goal_run pretty serde_err prompt e' evs e'' \<Longrightarrow>
   goal_run pretty serde_err prompt e (ev # evs) e''"
  using run_append run_single by fastforce

lemma demo_working_step:
  "goal_run demo_text demo_text prompt demo_start [OwnMessage 0, CallsCreate 2 demo_create] demo_working"
proof (intro run_step)
  show "goal_step demo_text demo_text prompt demo_start (OwnMessage 0)
      (take_goal_of_message 0 (ge_objective demo_start) (ge_token_budget demo_start) (ge_status demo_start) demo_start
        \<lparr>ge_phase := InTurn 0\<rparr>)"
    by (rule own_message) simp
  have "demo_start\<lparr>ge_phase := InTurn 0, ge_goal := fst (create_goal demo_text 2 demo_create no_goal)\<rparr> = demo_working"
    by (simp add: demo_created demo_working_def)
  then show "goal_step demo_text demo_text prompt
      (take_goal_of_message 0 (ge_objective demo_start) (ge_token_budget demo_start) (ge_status demo_start) demo_start
        \<lparr>ge_phase := InTurn 0\<rparr>) (CallsCreate 2 demo_create) demo_working"
    using calls_create [of "demo_start\<lparr>ge_phase := InTurn 0\<rparr>" 0 demo_text demo_text prompt 2 demo_create]
    by (simp add: take_goal_of_message_def demo_start_def goal_engine_new_def)
qed (rule run_nil)

lemma demo_completes:
  "goal_run demo_text demo_text [] (goal_engine_new 0 None None GoalActive no_goal)
     [OwnMessage 0, CallsCreate 2 demo_create, CallsUpdate 3 demo_complete]
     (demo_working\<lparr>ge_goal := fst (update_goal demo_text demo_text 3 demo_complete (ge_goal demo_working))\<rparr>)"
  using run_snoc [OF demo_working_step calls_update [of demo_working 0 demo_text demo_text "[]" 3 demo_complete]]
  by (simp add: demo_start_def demo_working_def)

theorem completion_needs_a_receipt_witness:
  "\<exists>ev v. go_evidence (fst (update_goal demo_text demo_text 3 demo_complete (goal_create 2 ''ship it'' (Some 5)))) = Some ev
    \<and> ev \<noteq> [] \<and> go_verification (fst (update_goal demo_text demo_text 3 demo_complete (goal_create 2 ''ship it'' (Some 5)))) = Some v
    \<and> gv_status v = ''passed'' \<and> gv_check v \<noteq> [] \<and> gv_summary v \<noteq> []"
  using completion_needs_a_receipt [OF demo_completes] by (simp add: demo_working_def demo_completed)

lemma demo_active: "goal_is_active (ge_goal demo_working)"
  by (simp add: demo_working_def goal_create_def goal_is_active_def)

lemma demo_fields [simp]:
  "go_token_budget (ge_goal demo_working) = Some 5" "go_tokens_used (ge_goal demo_working) = 0"
  by (simp_all add: demo_working_def goal_create_def no_goal_def)

lemma demo_loop:
  "goal_run demo_text demo_text [] demo_working [EndsTurn 3 1 1 0 TurnCompleted, Dispatches, Receives 4]
     ((take_goal_of_message 4 None None GoalActive
         ((finish_turn demo_text [] 3 1 1 0 TurnCompleted demo_working)
            \<lparr>ge_queue := [continuation_op], ge_phase := EngineIdle\<rparr>))\<lparr>ge_queue := [], ge_phase := InTurn 0\<rparr>)"
proof (intro run_step)
  let ?e = "finish_turn demo_text [] 3 1 1 0 TurnCompleted demo_working"
  have sending: "ge_phase ?e = Sending continuation_op"
    by (simp add: finish_turn_phase_eq goal_spent_nat usage_tokens demo_active)
  have queue: "ge_queue ?e = []" by (simp add: goal_after_turn demo_working_def)
  show "goal_step demo_text demo_text [] demo_working (EndsTurn 3 1 1 0 TurnCompleted) ?e"
    by (rule ends_turn) (simp add: demo_working_def)
  show "goal_step demo_text demo_text [] ?e Dispatches (?e\<lparr>ge_queue := [continuation_op], ge_phase := EngineIdle\<rparr>)"
    using dispatches [OF sending] queue by (simp add: OP_CHANNEL_CAPACITY_def)
  show "goal_step demo_text demo_text [] (?e\<lparr>ge_queue := [continuation_op], ge_phase := EngineIdle\<rparr>) (Receives 4)
      ((take_goal_of_message 4 None None GoalActive (?e\<lparr>ge_queue := [continuation_op], ge_phase := EngineIdle\<rparr>))
        \<lparr>ge_queue := [], ge_phase := InTurn 0\<rparr>)"
    by (rule receives_message) (simp_all add: continuation_op_def)
qed (rule run_nil)

theorem budgeted_goal_ends_witness:
  "length (filter ((=) Dispatches) [EndsTurn 3 1 1 0 TurnCompleted, Dispatches, Receives 4])
     \<le> unat (5 :: u32) - unat (go_tokens_used (ge_goal demo_working)) - 1"
  by (rule budgeted_goal_ends [OF demo_loop, where n = 0]) (simp_all add: demo_working_def goal_create_def)

section \<open>What a continuation does\<close>

text \<open>
  The message of a continuation keeps the goal exactly when the host has configured nothing; a goal that came
  with a message of the host is cleared by its first continuation.
\<close>

theorem continuation_keeps_only_a_goal_of_the_model:
  "ge_goal (take_goal_of_message now None None GoalActive (take_goal_of_message earlier obj budget status e))
     = (if normalized_goal_objective obj = None \<and> budget = None \<and> status = GoalActive
        then ge_goal (take_goal_of_message earlier obj budget status e) else no_goal)"
proof -
  have "ge_objective (take_goal_of_message earlier obj budget status e) = obj"
    "ge_token_budget (take_goal_of_message earlier obj budget status e) = budget"
    by (simp_all add: take_goal_of_message_def sync_goal_state_from_host_def Let_def)
  then show ?thesis by (simp add: take_continuation)
qed

text \<open>The engine writes a continuation into a channel that is full.\<close>

definition writes_to_full_channel :: "goal_engine \<Rightarrow> bool" where
  "writes_to_full_channel e \<longleftrightarrow>
     (case ge_phase e of Sending op \<Rightarrow> length (ge_queue e) = OP_CHANNEL_CAPACITY | _ \<Rightarrow> False)"

text \<open>
  In every reachable state the engine has a next step, except when it writes a continuation into a channel that
  is full: it is the only reader of that channel, so it waits for ever.
\<close>

theorem engine_goes_on_unless_its_channel_is_full:
  assumes "goal_run pretty serde_err prompt (goal_engine_new start obj budget status g) evs e"
  shows "(\<exists>ev e'. goal_step pretty serde_err prompt e ev e') \<longleftrightarrow> \<not> writes_to_full_channel e"
proof
  assume "\<exists>ev e'. goal_step pretty serde_err prompt e ev e'"
  then show "\<not> writes_to_full_channel e"
    by (auto elim!: goal_step.cases simp: writes_to_full_channel_def split: engine_phase.splits)
next
  assume ok: "\<not> writes_to_full_channel e"
  have inv: "passes_inv e" by (rule passes_inv_run [OF assms passes_inv_new])
  show "\<exists>ev e'. goal_step pretty serde_err prompt e ev e'"
  proof (cases "ge_phase e")
    case EngineIdle
    then show ?thesis by (meson own_message)
  next
    case (InTurn n)
    then show ?thesis by (meson ends_turn)
  next
    case (Sending op)
    then have "length (ge_queue e) < OP_CHANNEL_CAPACITY"
      using ok inv by (auto simp: writes_to_full_channel_def passes_inv_def)
    with Sending show ?thesis by (meson dispatches)
  qed
qed

theorem engine_goes_on_unless_its_channel_is_full_witness:
  "\<exists>ev e'. goal_step demo_text demo_text [] demo_working ev e'"
  using engine_goes_on_unless_its_channel_is_full
      [OF demo_working_step [of "[]", unfolded demo_start_def]]
  by (simp add: writes_to_full_channel_def demo_working_def)

lemma host_fills_the_channel:
  "length (ge_queue e) + n \<le> OP_CHANNEL_CAPACITY \<Longrightarrow>
   goal_run pretty serde_err prompt e (replicate n (HostSends op)) (e\<lparr>ge_queue := ge_queue e @ replicate n op\<rparr>)"
proof (induction n)
  case (Suc n)
  then have "goal_run pretty serde_err prompt e (replicate n (HostSends op) @ [HostSends op])
      (e\<lparr>ge_queue := (ge_queue e @ replicate n op) @ [op]\<rparr>)"
    using run_snoc [OF Suc.IH host_sends [of "e\<lparr>ge_queue := ge_queue e @ replicate n op\<rparr>"]] by simp
  then show ?case by (simp add: replicate_append_same)
qed (simp add: run_nil)

text \<open>
  The full channel can be reached: the host sends operations while a turn with a goal is running, and the turn
  ends.
\<close>

theorem full_channel_is_reachable:
  "\<exists>evs e. goal_run demo_text demo_text [] (goal_engine_new 0 None None GoalActive no_goal) evs e \<and> writes_to_full_channel e"
proof -
  let ?ops = "replicate OP_CHANNEL_CAPACITY (SetGoalStatus GoalPaused False)"
  let ?full = "demo_working\<lparr>ge_queue := ?ops\<rparr>"
  let ?done = "finish_turn demo_text [] 3 1 1 0 TurnCompleted ?full"
  have queue: "ge_queue demo_working = []" by (simp add: demo_working_def)
  have "goal_run demo_text demo_text [] demo_start
      ([OwnMessage 0, CallsCreate 2 demo_create] @ replicate OP_CHANNEL_CAPACITY (HostSends (SetGoalStatus GoalPaused False))) ?full"
    using run_append [OF host_fills_the_channel [of demo_working OP_CHANNEL_CAPACITY demo_text demo_text "[]"]
        demo_working_step] queue
    by simp
  moreover have "goal_step demo_text demo_text [] ?full (EndsTurn 3 1 1 0 TurnCompleted) ?done"
    by (rule ends_turn) (simp add: demo_working_def)
  moreover have "writes_to_full_channel ?done"
    using demo_active
    by (simp add: writes_to_full_channel_def finish_turn_phase_eq goal_spent_nat usage_tokens goal_after_turn)
  ultimately show ?thesis using run_snoc unfolding demo_start_def by blast
qed

section \<open>Boundaries of the goal\<close>

text \<open>A goal that is paused or already complete can be completed again by the model: only an objective is asked for.\<close>

theorem paused_goal_can_be_completed:
  "go_status (fst (update_goal demo_text demo_text 3 demo_complete
     (sync_from_host_status 2 (Some ''ship it'') None GoalPaused no_goal))) = Some GoalComplete"
  by code_simp

text \<open>A complete goal that the host resumes is active with the evidence and the receipt of its completion.\<close>

theorem resumed_goal_keeps_its_receipt:
  "goal_is_active (sync_from_host_status now (Some obj) budget GoalActive g) \<and>
   go_verification (sync_from_host_status now (Some obj) budget GoalActive g) = go_verification g"
  if "go_objective g = Some obj" and "trim obj = obj" and "obj \<noteq> []"
  using that by (simp add: sync_from_host_status_def normalized_goal_objective_def goal_is_active_def Let_def goal_status_set_def)

text \<open>
  Between turns and within a turn the goal goes on exactly while it is active and its token budget is not spent;
  the time it has used plays no part.
\<close>

theorem goal_goes_on_while_tokens_are_left:
  "goal_continuation_if_active pretty prompt now e \<noteq> None \<longleftrightarrow>
     goal_is_active (ge_goal e) \<and>
     (case go_token_budget (ge_goal e) of None \<Rightarrow> True | Some b \<Rightarrow> unat (go_tokens_used (ge_goal e)) < unat b)"
  unfolding continuation_iff goal_spent_nat by (auto split: option.split)

end
