(* ===== verification/Goal_Projection.thy ===== *)
theory Goal_Projection
  imports Thread_Runtime Goal_Engine
begin

text \<open>
  \<open>crates/tui/src/tools/goal.rs\<close>: the goal of a stored thread as the engine's snapshot
  (\<open>GoalSnapshot::from_thread_goal\<close>), and what becomes of a goal on the way from the store to the decision to go on.
\<close>

fun thread_goal_status_as_goal_status :: "protocol_goal_status \<Rightarrow> goal_status" where
  "thread_goal_status_as_goal_status ProtoGoalActive = GoalActive"
| "thread_goal_status_as_goal_status ProtoGoalPaused = GoalPaused"
| "thread_goal_status_as_goal_status ProtoGoalComplete = GoalComplete"
| "thread_goal_status_as_goal_status ProtoGoalBlocked = GoalBlocked"
| "thread_goal_status_as_goal_status ProtoGoalUsageLimited = GoalBlocked"
| "thread_goal_status_as_goal_status ProtoGoalBudgetLimited = GoalBlocked"

text \<open>\<open>u32::try_from\<close> and \<open>u64::try_from\<close> of a number that is not negative.\<close>

definition try_word :: "int \<Rightarrow> 'a::len word option" where
  "try_word v = (if v \<le> uint (- 1 :: 'a word) then Some (word_of_int v) else None)"

definition from_thread_goal :: "thread_goal \<Rightarrow> goal_snapshot" where
  "from_thread_goal g =
     \<lparr>gs_objective = Some (pg_objective g),
      gs_status = goal_status_str (thread_goal_status_as_goal_status (pg_status g)),
      gs_token_budget = Option.bind (pg_token_budget g) (\<lambda>v. try_word (max v 0)),
      gs_tokens_used = or_else (try_word (max (pg_tokens_used g) 0)) (- 1),
      gs_time_used_seconds = or_else (try_word (max (pg_time_used_seconds g) 0)) (- 1),
      gs_continuation_count = or_else (try_word (max (pg_continuation_count g) 0)) (- 1),
      gs_elapsed_seconds = None, gs_evidence = None, gs_blocker = None, gs_verification = None\<rparr>"

lemma uint_minus_one: "uint (- 1 :: 'a::len word) = 2 ^ LENGTH('a) - 1"
  by (simp add: unsigned_minus_1_eq_mask mask_eq_exp_minus_1)

lemma try_word_or_max:
  "0 \<le> v \<Longrightarrow> uint (or_else (try_word v) (- 1) :: 'a::len word) = min v (2 ^ LENGTH('a) - 1)"
  by (auto simp: try_word_def or_else_def uint_minus_one uint_word_of_int min_def)

lemma try_word_value: "try_word v = Some (w :: 'a::len word) \<Longrightarrow> 0 \<le> v \<Longrightarrow> uint w = v"
  by (auto simp: try_word_def uint_minus_one uint_word_of_int split: if_splits)

text \<open>
  The engine goes on with the goal of a stored thread exactly when it is active there and its budget is not
  spent, for every budget and count of the store that is not negative and fits 32 bits.
\<close>

theorem stored_goal_goes_on_within_its_budget:
  assumes "pg_token_budget g = Some budget" and "0 \<le> budget" and "budget < 2 ^ 32"
  shows "snapshot_is_active (from_thread_goal g)
        \<and> decide_continuation RunActive (snapshot_progress (from_thread_goal g)) (snapshot_budget (from_thread_goal g)) = Continue
     \<longleftrightarrow> pg_status g = ProtoGoalActive \<and> max (pg_tokens_used g) 0 < budget"
proof -
  have "try_word budget = Some (word_of_int budget :: u32)"
    using assms(3) by (simp add: try_word_def uint_minus_one)
  then have budget: "gs_token_budget (from_thread_goal g) = Some (word_of_int budget)"
    using assms(1,2) by (simp add: from_thread_goal_def)
  have same: "uint (ucast (word_of_int budget :: u32) :: u64) = budget"
    using assms(2,3) by (simp add: uint_up_ucast is_up uint_word_of_int)
  have tokens: "uint (gs_tokens_used (from_thread_goal g)) = min (max (pg_tokens_used g) 0) (2 ^ 64 - 1)"
    using try_word_or_max [of "max (pg_tokens_used g) 0", where 'a = 64] by (simp add: from_thread_goal_def)
  have "decide_continuation RunActive (snapshot_progress (from_thread_goal g)) (snapshot_budget (from_thread_goal g)) = Continue
      \<longleftrightarrow> max (pg_tokens_used g) 0 < budget"
    using assms(3) same tokens budget
    by (auto simp: decide_continuation_def snapshot_progress_def snapshot_budget_def spent_def word_le_def)
  moreover have "snapshot_is_active (from_thread_goal g) \<longleftrightarrow> pg_status g = ProtoGoalActive"
    by (cases "pg_status g") (simp_all add: snapshot_is_active_def from_thread_goal_def)
  ultimately show ?thesis by blast
qed

definition large_goal :: "int \<Rightarrow> thread_goal" where
  "large_goal budget =
     \<lparr>pg_thread_id = ''t'', pg_goal_id = ''goal-1'', pg_objective = ''ship'', pg_status = ProtoGoalActive,
      pg_token_budget = Some budget, pg_tokens_used = 10, pg_time_used_seconds = 0, pg_continuation_count = 0,
      pg_created_at = 0, pg_updated_at = 0\<rparr>"

theorem stored_goal_goes_on_within_its_budget_witness:
  "snapshot_is_active (from_thread_goal (large_goal 20))"
  using stored_goal_goes_on_within_its_budget [of "large_goal 20" 20] by (simp add: large_goal_def)

text \<open>A budget that does not fit is no budget: the goal goes on whatever it has used.\<close>

theorem large_budget_is_no_budget:
  "gs_token_budget (from_thread_goal ((large_goal (2 ^ 32))\<lparr>pg_tokens_used := used\<rparr>)) = None
   \<and> decide_continuation RunActive (snapshot_progress (from_thread_goal ((large_goal (2 ^ 32))\<lparr>pg_tokens_used := used\<rparr>)))
       (snapshot_budget (from_thread_goal ((large_goal (2 ^ 32))\<lparr>pg_tokens_used := used\<rparr>))) = Continue"
proof -
  have "gs_token_budget (from_thread_goal ((large_goal (2 ^ 32))\<lparr>pg_tokens_used := used\<rparr>)) = None"
    by (simp add: from_thread_goal_def large_goal_def try_word_def uint_minus_one)
  then show ?thesis by (simp add: decide_continuation_def snapshot_budget_def spent_def)
qed

end
