(* ===== verification/Tool_Invocation.thy ===== *)
theory Tool_Invocation
  imports Exec_Policy Tool_Dispatch
begin

text \<open>
  \<open>Runtime::invoke_tool\<close> (\<open>crates/core/src/lib.rs\<close>): the policy decides on a call, then a call that needs no approval
  is dispatched. It joins \<^const>\<open>check\<close> and \<^const>\<open>dispatch_check\<close> to the answer of the client and to the events the
  hooks see. The reading of JSON text is \<open>de\<close>, the debug text of an error \<open>debug\<close>, the fresh identifiers are \<open>ids\<close>, and
  \<open>run\<close> is what the handler does with an invocation: an answer after some milliseconds, or none. The wait for the lock is
  that of \<open>Tool_Dispatch\<close>.
\<close>

section \<open>Event frames\<close>

datatype review_decision =
    ReviewApproved
  | ReviewApprovedAmendment
  | ReviewApprovedForSession
  | ReviewNetworkAmendment string network_rule_action
  | ReviewDenied
  | ReviewAbort

record user_input_option =
  uo_label :: string
  uo_description :: string

record user_input_question =
  uq_header :: string
  uq_id :: string
  uq_question :: string
  uq_options :: "user_input_option list"
  uq_allow_free_text :: bool
  uq_multi_select :: bool

record user_input_request =
  ur_call_id :: string
  ur_turn_id :: string
  ur_request_id :: string
  ur_questions :: "user_input_question list"

record approval_request =
  aq_call_id :: string
  aq_approval_id :: string
  aq_turn_id :: string
  aq_command :: string
  aq_cwd :: string
  aq_reason :: string
  aq_matched_rule :: "string option"
  aq_execpolicy_amendment :: "string list"
  aq_network_amendments :: "network_policy_amendment list"
  aq_decisions :: "review_decision list"

datatype tool_frame =
    FrameToolCallStart string string json
  | FrameToolCallResult string string json
  | FrameExecApprovalRequest approval_request
  | FrameUserInputRequest user_input_request
  | FrameError string string

text \<open>The derived serialisation of the frames: the tag first, then the fields in order, absent options left out.\<close>

definition strings_json :: "string list \<Rightarrow> json" where
  "strings_json xs = JArr (map JStr xs)"

definition optional_field :: "string \<Rightarrow> json option \<Rightarrow> (string \<times> json) list" where
  "optional_field k v = (case v of None \<Rightarrow> [] | Some j \<Rightarrow> [(k, j)])"

fun rule_action_json :: "network_rule_action \<Rightarrow> json" where
  "rule_action_json NetworkAllow = JStr ''allow''"
| "rule_action_json NetworkDeny = JStr ''deny''"

definition network_amendment_json :: "network_policy_amendment \<Rightarrow> json" where
  "network_amendment_json a =
     JObj [(''host'', JStr (amend_host a)), (''action'', rule_action_json (amend_action a))]"

fun review_decision_json :: "review_decision \<Rightarrow> json" where
  "review_decision_json ReviewApproved = JObj [(''type'', JStr ''approved'')]"
| "review_decision_json ReviewApprovedAmendment = JObj [(''type'', JStr ''approved_execpolicy_amendment'')]"
| "review_decision_json ReviewApprovedForSession = JObj [(''type'', JStr ''approved_for_session'')]"
| "review_decision_json (ReviewNetworkAmendment host action) =
     JObj [(''type'', JStr ''network_policy_amendment''), (''host'', JStr host), (''action'', rule_action_json action)]"
| "review_decision_json ReviewDenied = JObj [(''type'', JStr ''denied'')]"
| "review_decision_json ReviewAbort = JObj [(''type'', JStr ''abort'')]"

definition approval_request_json :: "approval_request \<Rightarrow> json" where
  "approval_request_json r =
     JObj ([(''call_id'', JStr (aq_call_id r)), (''approval_id'', JStr (aq_approval_id r)),
            (''turn_id'', JStr (aq_turn_id r)), (''command'', JStr (aq_command r)), (''cwd'', JStr (aq_cwd r)),
            (''reason'', JStr (aq_reason r))]
       @ optional_field ''matched_rule'' (map_option JStr (aq_matched_rule r))
       @ [(''proposed_execpolicy_amendment'', strings_json (aq_execpolicy_amendment r)),
          (''proposed_network_policy_amendments'', JArr (map network_amendment_json (aq_network_amendments r))),
          (''additional_permissions'', JArr []),
          (''available_decisions'', JArr (map review_decision_json (aq_decisions r)))])"

definition user_input_option_json :: "user_input_option \<Rightarrow> json" where
  "user_input_option_json x = JObj [(''label'', JStr (uo_label x)), (''description'', JStr (uo_description x))]"

definition user_input_question_json :: "user_input_question \<Rightarrow> json" where
  "user_input_question_json q =
     JObj [(''header'', JStr (uq_header q)), (''id'', JStr (uq_id q)), (''question'', JStr (uq_question q)),
           (''options'', JArr (map user_input_option_json (uq_options q))),
           (''allow_free_text'', JBool (uq_allow_free_text q)), (''multi_select'', JBool (uq_multi_select q))]"

definition user_input_request_json :: "user_input_request \<Rightarrow> json" where
  "user_input_request_json r =
     JObj [(''call_id'', JStr (ur_call_id r)), (''turn_id'', JStr (ur_turn_id r)),
           (''request_id'', JStr (ur_request_id r)),
           (''questions'', JArr (map user_input_question_json (ur_questions r)))]"

fun event_frame_payload :: "tool_frame \<Rightarrow> json" where
  "event_frame_payload (FrameToolCallStart rid name args) =
     JObj [(''event'', JStr ''tool_call_start''), (''response_id'', JStr rid), (''tool_name'', JStr name),
           (''arguments'', args)]"
| "event_frame_payload (FrameToolCallResult rid name output) =
     JObj [(''event'', JStr ''tool_call_result''), (''response_id'', JStr rid), (''tool_name'', JStr name),
           (''output'', output)]"
| "event_frame_payload (FrameExecApprovalRequest r) =
     JObj [(''event'', JStr ''exec_approval_request''), (''request'', approval_request_json r)]"
| "event_frame_payload (FrameUserInputRequest r) =
     JObj [(''event'', JStr ''user_input_request''), (''request'', user_input_request_json r)]"
| "event_frame_payload (FrameError rid message) =
     JObj [(''event'', JStr ''error''), (''response_id'', JStr rid), (''message'', JStr message)]"

fun tool_payload_value :: "tool_payload \<Rightarrow> json" where
  "tool_payload_value (FunctionPayload arguments) = JObj [(''type'', JStr ''function''), (''arguments'', JStr arguments)]"
| "tool_payload_value (CustomPayload input) = JObj [(''type'', JStr ''custom''), (''input'', JStr input)]"
| "tool_payload_value (LocalShellPayload p) =
     JObj [(''type'', JStr ''local_shell''),
           (''params'', JObj ([(''command'', JStr (sp_command p))] @ optional_field ''cwd'' (map_option JStr (sp_cwd p))
              @ optional_field ''timeout_ms'' (map_option json_of_word (sp_timeout_ms p))))]"
| "tool_payload_value (McpPayload server tool raw call_id) =
     JObj ([(''type'', JStr ''mcp''), (''server'', JStr server), (''tool'', JStr tool), (''raw_arguments'', raw)]
       @ optional_field ''raw_tool_call_id'' (map_option JStr call_id))"

fun tool_output_value :: "tool_output \<Rightarrow> json" where
  "tool_output_value (FunctionOutput body success) =
     JObj ([(''type'', JStr ''function'')] @ optional_field ''body'' body @ [(''success'', JBool success)])"
| "tool_output_value (McpOutput result) = JObj [(''type'', JStr ''mcp''), (''result'', result)]"

section \<open>The decision\<close>

definition permission_path_for_call :: "(string \<Rightarrow> json option) \<Rightarrow> tool_call \<Rightarrow> string option" where
  "permission_path_for_call de call =
     (case tc_payload call of
        FunctionPayload arguments \<Rightarrow> Option.bind (Option.bind (de arguments) (json_get ''path'')) as_str
      | McpPayload server tool raw call_id \<Rightarrow> Option.bind (json_get ''path'' raw) as_str
      | _ \<Rightarrow> None)"

text \<open>The context \<open>invoke_tool\<close> hands to the policy.\<close>

definition call_context :: "(string \<Rightarrow> json option) \<Rightarrow> tool_call \<Rightarrow> ask_for_approval \<Rightarrow> string \<Rightarrow> exec_policy_context" where
  "call_context de call mode cwd =
     (case execution_subject call cwd of (command, policy_cwd, kind) \<Rightarrow>
        \<lparr>ctx_command = command, ctx_cwd = policy_cwd,
         ctx_tool = Some (case tc_payload call of LocalShellPayload p \<Rightarrow> ''exec_shell'' | _ \<Rightarrow> tc_name call),
         ctx_path = permission_path_for_call de call, ctx_ask_for_approval = mode, ctx_sandbox_mode = None\<rparr>)"

definition amendment_prefixes :: "exec_policy_amendment option \<Rightarrow> string list" where
  "amendment_prefixes a = (case a of None \<Rightarrow> [] | Some x \<Rightarrow> amend_prefixes x)"

fun approval_requirement_payload :: "exec_approval_requirement \<Rightarrow> json" where
  "approval_requirement_payload (Skip bypass amendment) =
     JObj [(''type'', JStr ''skip''), (''bypass_sandbox'', JBool bypass),
           (''reason'', JStr (requirement_reason (Skip bypass amendment))),
           (''proposed_execpolicy_amendment'', strings_json (amendment_prefixes amendment))]"
| "approval_requirement_payload (exec_approval_requirement.NeedsApproval reason amendment network) =
     JObj [(''type'', JStr ''needs_approval''), (''reason'', JStr reason),
           (''proposed_execpolicy_amendment'', strings_json (amendment_prefixes amendment)),
           (''proposed_network_policy_amendments'', JArr (map network_amendment_json network))]"
| "approval_requirement_payload (Forbidden reason) =
     JObj [(''type'', JStr ''forbidden''), (''reason'', JStr reason)]"

definition policy_precheck_payload :: "exec_policy_decision \<Rightarrow> string \<Rightarrow> string \<Rightarrow> string \<Rightarrow> json" where
  "policy_precheck_payload d command cwd kind =
     JObj [(''execution_kind'', JStr kind), (''command'', JStr command), (''cwd'', JStr cwd),
           (''allow'', JBool (dec_allow d)), (''requires_approval'', JBool (dec_requires_approval d)),
           (''matched_rule'', json_of_option JStr (dec_matched_rule d)),
           (''phase'', JStr (requirement_phase (dec_requirement d))), (''reason'', JStr (decision_reason d)),
           (''requirement'', approval_requirement_payload (dec_requirement d))]"

definition approval_request_frame ::
  "exec_approval_requirement \<Rightarrow> string option \<Rightarrow> string \<Rightarrow> string \<Rightarrow> string \<Rightarrow> string \<Rightarrow> string \<Rightarrow> tool_frame option" where
  "approval_request_frame requirement matched call_id approval_id turn_id command cwd =
     (case requirement of
        exec_approval_requirement.NeedsApproval reason amendment network \<Rightarrow>
          Some (FrameExecApprovalRequest
            \<lparr>aq_call_id = call_id, aq_approval_id = approval_id, aq_turn_id = turn_id, aq_command = command,
             aq_cwd = cwd, aq_reason = reason, aq_matched_rule = matched,
             aq_execpolicy_amendment = amendment_prefixes amendment, aq_network_amendments = network,
             aq_decisions = [ReviewApproved, ReviewApprovedForSession, ReviewDenied, ReviewAbort]
               @ (if amendment_prefixes amendment \<noteq> [] then [ReviewApprovedAmendment] else [])
               @ map (\<lambda>a. ReviewNetworkAmendment (amend_host a) (amend_action a)) network\<rparr>)
      | _ \<Rightarrow> None)"

section \<open>Questions to the user\<close>

text \<open>\<open>serde_json::from_value\<close> for a struct: from an object by name or from an array by position.\<close>

definition struct_values :: "string list \<Rightarrow> json \<Rightarrow> json option list option" where
  "struct_values names v =
     (case v of
        JObj kvs \<Rightarrow> Some (map (map_of kvs) names)
      | JArr vs \<Rightarrow>
          if length vs \<le> length names then Some (map Some vs @ replicate (length names - length vs) None) else None
      | _ \<Rightarrow> None)"

fun defaulted_bool :: "json option \<Rightarrow> bool option" where
  "defaulted_bool None = Some False"
| "defaulted_bool (Some (JBool b)) = Some b"
| "defaulted_bool (Some v) = None"

definition option_from_value :: "json \<Rightarrow> user_input_option option" where
  "option_from_value v =
     (case struct_values [''label'', ''description''] v of
        Some [Some (JStr l), Some (JStr d)] \<Rightarrow> Some \<lparr>uo_label = l, uo_description = d\<rparr>
      | _ \<Rightarrow> None)"

definition question_from_value :: "json \<Rightarrow> user_input_question option" where
  "question_from_value v =
     (case struct_values [''header'', ''id'', ''question'', ''options'', ''allow_free_text'', ''multi_select''] v of
        Some [Some (JStr h), Some (JStr i), Some (JStr q), Some (JArr os), free, multi] \<Rightarrow>
          (case (those (map option_from_value os), defaulted_bool free, defaulted_bool multi) of
             (Some options, Some f, Some m) \<Rightarrow>
               Some \<lparr>uq_header = h, uq_id = i, uq_question = q, uq_options = options, uq_allow_free_text = f,
                     uq_multi_select = m\<rparr>
           | _ \<Rightarrow> None)
      | _ \<Rightarrow> None)"

definition user_input_request_frame ::
  "(string \<Rightarrow> json option) \<Rightarrow> string \<Rightarrow> string \<Rightarrow> string \<Rightarrow> string \<Rightarrow> tool_frame option" where
  "user_input_request_frame de call_id turn_id request_id arguments =
     (case Option.bind (Option.bind (de arguments) (json_get ''questions'')) as_array of
        None \<Rightarrow> None
      | Some vs \<Rightarrow>
          map_option (\<lambda>qs. FrameUserInputRequest
              \<lparr>ur_call_id = call_id, ur_turn_id = turn_id, ur_request_id = request_id, ur_questions = qs\<rparr>)
            (those (map question_from_value vs)))"

section \<open>The call\<close>

datatype hook_event =
    HookToolLifecycle string string string json
  | HookApprovalLifecycle string string "string option"
  | HookFrame tool_frame

record invocation_ids =
  id_response :: string
  id_call :: string
  id_approval :: string
  id_request :: string
  id_dispatch :: string

text \<open>What comes of a call: the events sent to the hooks in order, the invocation a handler was given, and the answer,
  which is missing when the handler never returns.\<close>

record invocation_outcome =
  io_hooks :: "hook_event list"
  io_handled :: "tool_invocation option"
  io_answer :: "json option"

definition dispatch ::
  "tool_registry \<Rightarrow> string \<Rightarrow> tool_call \<Rightarrow> bool \<Rightarrow> (tool_invocation \<Rightarrow> (nat \<times> (function_call_error + tool_output)) option)
     \<Rightarrow> tool_invocation option \<times> (function_call_error + tool_output) option" where
  "dispatch reg uuid call allow_mutating run =
     (case dispatch_check reg uuid call allow_mutating of
        Inl e \<Rightarrow> (None, Some (Inl e))
      | Inr (configured, invocation) \<Rightarrow>
          (Some invocation, execute_with_timeout (tsp_timeout_ms (cs_spec configured)) (ti_name invocation) (run invocation)))"

definition REQUEST_USER_INPUT_TOOL_NAME :: string where
  "REQUEST_USER_INPUT_TOOL_NAME = ''request_user_input''"

definition answer_json :: "bool \<Rightarrow> string \<Rightarrow> string \<Rightarrow> string \<Rightarrow> (string \<times> json) list \<Rightarrow> tool_frame list \<Rightarrow> json" where
  "answer_json ok status kind rid extra frames =
     JObj ([(''ok'', JBool ok), (''status'', JStr status), (''execution_kind'', JStr kind), (''response_id'', JStr rid)]
       @ extra @ [(''events'', JArr (map event_frame_payload frames))])"

definition denied_outcome :: "invocation_ids \<Rightarrow> string \<Rightarrow> string \<Rightarrow> json \<Rightarrow> string \<Rightarrow> hook_event list \<Rightarrow> invocation_outcome" where
  "denied_outcome ids rid kind precheck reason hooks =
     (let frame = FrameError rid reason
      in \<lparr>io_hooks = hooks @ [HookApprovalLifecycle (''approval-'' @ id_approval ids) ''denied'' (Some reason),
            HookFrame frame],
          io_handled = None,
          io_answer = Some (answer_json False ''denied'' kind rid
            [(''precheck'', precheck), (''error'', JStr reason)] [frame])\<rparr>)"

definition approval_outcome ::
  "string \<Rightarrow> string \<Rightarrow> string \<Rightarrow> json \<Rightarrow> string \<Rightarrow> tool_frame option \<Rightarrow> hook_event list \<Rightarrow> invocation_outcome" where
  "approval_outcome approval_id rid kind precheck reason frame hooks =
     \<lparr>io_hooks = hooks @ [HookApprovalLifecycle approval_id ''requested'' (Some reason)]
        @ map HookFrame (case frame of None \<Rightarrow> [] | Some f \<Rightarrow> [f]),
      io_handled = None,
      io_answer = Some (answer_json False ''approval_required'' kind rid
        [(''approval_id'', JStr approval_id), (''precheck'', precheck), (''error'', JStr reason)]
        (case frame of None \<Rightarrow> [] | Some f \<Rightarrow> [f]))\<rparr>"

definition user_input_outcome ::
  "string \<Rightarrow> string \<Rightarrow> string \<Rightarrow> json \<Rightarrow> tool_frame option \<Rightarrow> hook_event list \<Rightarrow> invocation_outcome" where
  "user_input_outcome request_id rid kind precheck frame hooks =
     \<lparr>io_hooks = hooks @ map HookFrame (case frame of None \<Rightarrow> [] | Some f \<Rightarrow> [f]),
      io_handled = None,
      io_answer = Some (answer_json False ''user_input_required'' kind rid
        [(''request_id'', JStr request_id), (''precheck'', precheck)]
        (case frame of None \<Rightarrow> [] | Some f \<Rightarrow> [f]))\<rparr>"

definition dispatch_outcome ::
  "(function_call_error \<Rightarrow> string) \<Rightarrow> tool_call \<Rightarrow> string \<Rightarrow> string \<Rightarrow> string \<Rightarrow> json
     \<Rightarrow> tool_invocation option \<times> (function_call_error + tool_output) option \<Rightarrow> hook_event list \<Rightarrow> invocation_outcome" where
  "dispatch_outcome debug call call_id rid kind precheck result hooks =
     (let start = FrameToolCallStart rid (tc_name call) (tool_payload_value (tc_payload call));
          hooks' = hooks @ [HookFrame start, HookToolLifecycle rid (tc_name call) ''dispatching''
            (JObj [(''call_id'', JStr call_id), (''execution_kind'', JStr kind)])]
      in case result of
           (handled, None) \<Rightarrow> \<lparr>io_hooks = hooks', io_handled = handled, io_answer = None\<rparr>
         | (handled, Some (Inr output)) \<Rightarrow>
             (let frame = FrameToolCallResult rid (tc_name call) (tool_output_value output)
              in \<lparr>io_hooks = hooks' @ [HookFrame frame,
                    HookToolLifecycle rid (tc_name call) ''completed'' (JObj [(''ok'', JBool True)])],
                  io_handled = handled,
                  io_answer = Some (answer_json True ''completed'' kind rid
                    [(''precheck'', precheck), (''output'', tool_output_value output)] [start, frame])\<rparr>)
         | (handled, Some (Inl err)) \<Rightarrow>
             (let frame = FrameError rid (debug err)
              in \<lparr>io_hooks = hooks' @ [HookFrame frame,
                    HookToolLifecycle rid (tc_name call) ''failed'' (JObj [(''error'', JStr (debug err))])],
                  io_handled = handled,
                  io_answer = Some (answer_json False ''failed'' kind rid
                    [(''precheck'', precheck), (''error'', JStr (debug err))] [start, frame])\<rparr>))"

definition invoke_tool ::
  "(string \<Rightarrow> json option) \<Rightarrow> (function_call_error \<Rightarrow> string) \<Rightarrow> exec_policy_engine \<Rightarrow> tool_registry
     \<Rightarrow> (tool_invocation \<Rightarrow> (nat \<times> (function_call_error + tool_output)) option) \<Rightarrow> invocation_ids
     \<Rightarrow> tool_call \<Rightarrow> ask_for_approval \<Rightarrow> string \<Rightarrow> invocation_outcome" where
  "invoke_tool de debug engine reg run ids call mode cwd =
     (case execution_subject call cwd of (command, policy_cwd, kind) \<Rightarrow>
       let d = check engine (call_context de call mode cwd);
           precheck = policy_precheck_payload d command policy_cwd kind;
           rid = ''tool-'' @ id_response ids;
           call_id = (case tc_raw_id call of Some i \<Rightarrow> i | None \<Rightarrow> ''tool-call-'' @ id_call ids);
           hooks = [HookToolLifecycle rid (tc_name call) ''precheck'' precheck]
       in if \<not> dec_allow d then denied_outcome ids rid kind precheck (decision_reason d) hooks
          else if dec_requires_approval d
          then (let approval_id = ''approval-'' @ id_approval ids
                in approval_outcome approval_id rid kind precheck (decision_reason d)
                     (approval_request_frame (dec_requirement d) (dec_matched_rule d) call_id approval_id rid command policy_cwd)
                     hooks)
          else if tc_name call = REQUEST_USER_INPUT_TOOL_NAME
          then (let request_id = ''user-input-'' @ id_request ids;
                    arguments = (case tc_payload call of FunctionPayload a \<Rightarrow> a | _ \<Rightarrow> [])
                in user_input_outcome request_id rid kind precheck
                     (user_input_request_frame de call_id rid request_id arguments) hooks)
          else dispatch_outcome debug call call_id rid kind precheck (dispatch reg (id_dispatch ids) call True run) hooks)"

section \<open>What the policy lets through\<close>

lemma dispatch_handled:
  "fst (dispatch reg uuid call allow run) = Some invocation \<longleftrightarrow>
     (\<exists>configured. dispatch_check reg uuid call allow = Inr (configured, invocation))"
  by (auto simp: dispatch_def split: sum.split)

lemma dispatch_check_fields:
  "dispatch_check reg uuid call allow = Inr (configured, invocation) \<Longrightarrow>
     ti_payload invocation = tc_payload call \<and> ti_name invocation = tc_name call"
  by (auto simp: dispatch_check_def Let_def split: option.splits if_splits)

text \<open>The five ways a call can go.\<close>

lemma invoke_cases:
  obtains (denied) kind precheck reason hooks where "\<not> dec_allow (check engine (call_context de call mode cwd))"
      "invoke_tool de debug engine reg run ids call mode cwd = denied_outcome ids (''tool-'' @ id_response ids) kind precheck reason
         [HookToolLifecycle (''tool-'' @ id_response ids) (tc_name call) ''precheck'' precheck]"
  | (approval) aid kind precheck reason frame where "dec_requires_approval (check engine (call_context de call mode cwd))"
      "invoke_tool de debug engine reg run ids call mode cwd = approval_outcome aid (''tool-'' @ id_response ids) kind precheck reason frame
         [HookToolLifecycle (''tool-'' @ id_response ids) (tc_name call) ''precheck'' precheck]"
  | (asks) qid kind precheck frame where "tc_name call = REQUEST_USER_INPUT_TOOL_NAME"
      "invoke_tool de debug engine reg run ids call mode cwd = user_input_outcome qid (''tool-'' @ id_response ids) kind precheck frame
         [HookToolLifecycle (''tool-'' @ id_response ids) (tc_name call) ''precheck'' precheck]"
  | (dispatched) call_id kind precheck where "runs_unasked (check engine (call_context de call mode cwd))"
      "tc_name call \<noteq> REQUEST_USER_INPUT_TOOL_NAME"
      "invoke_tool de debug engine reg run ids call mode cwd = dispatch_outcome debug call call_id (''tool-'' @ id_response ids) kind precheck
         (dispatch reg (id_dispatch ids) call True run)
         [HookToolLifecycle (''tool-'' @ id_response ids) (tc_name call) ''precheck'' precheck]"
  by (cases "execution_subject call cwd"; cases "dec_allow (check engine (call_context de call mode cwd))";
      cases "dec_requires_approval (check engine (call_context de call mode cwd))";
      cases "tc_name call = REQUEST_USER_INPUT_TOOL_NAME")
    (simp_all add: invoke_tool_def Let_def runs_unasked_def)

lemma outcome_handled:
  "io_handled (denied_outcome ids rid kind precheck reason hooks) = None"
  "io_handled (approval_outcome aid rid kind precheck reason frame hooks) = None"
  "io_handled (user_input_outcome qid rid kind precheck frame hooks) = None"
  "io_handled (dispatch_outcome debug call call_id rid kind precheck result hooks) = fst result"
  by (simp_all add: denied_outcome_def approval_outcome_def user_input_outcome_def dispatch_outcome_def Let_def
      split: prod.split option.split sum.split)

lemma unasked_not_denied: "runs_unasked (check e ctx) \<Longrightarrow> denied_rule e (ctx_command ctx) = None"
  by (cases e ctx rule: check_cases) (simp_all add: runs_unasked_def forbidden_decision_def)

lemma denied_rule_None_words:
  assumes "denied_rule e c = None" and "rule \<in> effective_denied e" and "split_whitespace rule \<noteq> []"
    and "seg \<in> set (c # command_segments c)"
  shows "\<not> prefix (map lowercase (split_whitespace rule)) (map lowercase (split_whitespace seg))"
  using denied_rule_SomeI [OF assms(2), of c] assms(1,3,4) by (auto simp: deny_rule_hits_words)


section \<open>What the answer tells\<close>

fun hook_frames :: "hook_event list \<Rightarrow> tool_frame list" where
  "hook_frames [] = []"
| "hook_frames (HookFrame f # hs) = f # hook_frames hs"
| "hook_frames (_ # hs) = hook_frames hs"

lemma hook_frames_append [simp]: "hook_frames (xs @ ys) = hook_frames xs @ hook_frames ys"
  by (induction xs rule: hook_frames.induct) simp_all

lemma hook_frames_frames [simp]: "hook_frames (map HookFrame fs) = fs"
  by (induction fs) simp_all

lemma answer_get:
  "json_get ''ok'' (answer_json ok status kind rid extra frames) = Some (JBool ok)"
  "json_get ''status'' (answer_json ok status kind rid extra frames) = Some (JStr status)"
  by (simp_all add: answer_json_def)

lemma answer_events:
  "map_of extra ''events'' = None \<Longrightarrow>
   json_get ''events'' (answer_json ok status kind rid extra frames) = Some (JArr (map event_frame_payload frames))"
  by (simp add: answer_json_def map_add_def)

text \<open>The client is given this answer: its status, whether it is ok, and one field more. The frames it lists are those
  the hooks saw, in order.\<close>

definition answered :: "string \<Rightarrow> bool \<Rightarrow> string \<times> json \<Rightarrow> invocation_outcome \<Rightarrow> bool" where
  "answered status ok field out =
     (case io_answer out of
        None \<Rightarrow> False
      | Some answer \<Rightarrow>
          json_get ''status'' answer = Some (JStr status) \<and> json_get ''ok'' answer = Some (JBool ok) \<and>
          json_get (fst field) answer = Some (snd field) \<and>
          json_get ''events'' answer = Some (JArr (map event_frame_payload (hook_frames (io_hooks out)))))"

definition answered_error :: "string \<Rightarrow> string \<Rightarrow> invocation_outcome \<Rightarrow> bool" where
  "answered_error status message = answered status False (''error'', JStr message)"

definition answered_output :: "tool_output \<Rightarrow> invocation_outcome \<Rightarrow> bool" where
  "answered_output output = answered ''completed'' True (''output'', tool_output_value output)"

lemmas answered_defs = answered_error_def answered_output_def answered_def answer_get answer_events

lemma denied_answered:
  "answered_error ''denied'' reason (denied_outcome ids rid kind precheck reason [HookToolLifecycle rid' name phase payload])"
  "answered_error ''approval_required'' reason
     (approval_outcome aid rid kind precheck reason frame [HookToolLifecycle rid' name phase payload])"
  "answered ''user_input_required'' False (''request_id'', JStr qid)
     (user_input_outcome qid rid kind precheck frame [HookToolLifecycle rid' name phase payload])"
  by (simp_all add: denied_outcome_def approval_outcome_def user_input_outcome_def answered_defs Let_def answer_json_def
      split: option.split)

lemma dispatch_answered:
  "answered_error ''failed'' (debug e)
     (dispatch_outcome debug call call_id rid kind precheck (handled, Some (Inl e)) [HookToolLifecycle rid' name phase payload])"
  "answered_output output
     (dispatch_outcome debug call call_id rid kind precheck (handled, Some (Inr output)) [HookToolLifecycle rid' name phase payload])"
  "io_answer (dispatch_outcome debug call call_id rid kind precheck (handled, None) hooks) = None"
  by (simp_all add: dispatch_outcome_def answered_defs Let_def answer_json_def)

text \<open>
  C28: The answer says what became of the call. A call that the policy refuses, or for which a person is asked, is
  given to no handler; one that no handler takes, or whose handler fails or is over its time limit, is answered as failed
  with that error; one whose handler returns in time is answered as completed, with that handler's output.
  Only a handler without a limit that never returns leaves the call unanswered.
\<close>

theorem answer_tells_what_happened:
  "let d = check engine (call_context de call mode cwd);
       out = invoke_tool de debug engine reg run ids call mode cwd
   in if \<not> dec_allow d then io_handled out = None \<and> answered_error ''denied'' (decision_reason d) out
      else if dec_requires_approval d
      then io_handled out = None \<and> answered_error ''approval_required'' (decision_reason d) out
      else if tc_name call = REQUEST_USER_INPUT_TOOL_NAME
      then io_handled out = None
        \<and> answered ''user_input_required'' False (''request_id'', JStr (''user-input-'' @ id_request ids)) out
      else (case dispatch_check reg (id_dispatch ids) call True of
          Inl e \<Rightarrow> io_handled out = None \<and> answered_error ''failed'' (debug e) out
        | Inr (configured, invocation) \<Rightarrow> io_handled out = Some invocation \<and>
            (case (tsp_timeout_ms (cs_spec configured), run invocation) of
               (None, None) \<Rightarrow> io_answer out = None
             | (None, Some (t, Inl e)) \<Rightarrow> answered_error ''failed'' (debug e) out
             | (None, Some (t, Inr output)) \<Rightarrow> answered_output output out
             | (Some limit, None) \<Rightarrow> answered_error ''failed'' (debug (TimedOut (tc_name call) limit)) out
             | (Some limit, Some (t, result)) \<Rightarrow>
                 if unat limit < t then answered_error ''failed'' (debug (TimedOut (tc_name call) limit)) out
                 else (case result of
                     Inl e \<Rightarrow> answered_error ''failed'' (debug e) out
                   | Inr output \<Rightarrow> answered_output output out)))"
proof -
  obtain command policy_cwd kind where subject: "execution_subject call cwd = (command, policy_cwd, kind)"
    by (cases "execution_subject call cwd")
  show ?thesis
  proof (cases "dispatch_check reg (id_dispatch ids) call True")
    case (Inl e)
    then show ?thesis
      by (simp add: Let_def invoke_tool_def subject denied_answered dispatch_answered outcome_handled dispatch_def)
  next
    case (Inr ci)
    obtain configured invocation where ci: "ci = (configured, invocation)" by (cases ci)
    have "ti_name invocation = tc_name call" using dispatch_check_fields Inr ci by blast
    then show ?thesis
      by (simp add: Let_def invoke_tool_def subject denied_answered dispatch_answered outcome_handled dispatch_def Inr ci
          execute_with_timeout_def split: option.split prod.split sum.split)
  qed
qed

section \<open>Examples\<close>

definition demo_ids :: invocation_ids where
  "demo_ids = \<lparr>id_response = ''a'', id_call = ''b'', id_approval = ''c'', id_request = ''d'', id_dispatch = ''e''\<rparr>"

definition shell_registry :: tool_registry where
  "shell_registry = register (demo_tool ''exec_shell'' False) demo_handler registry_default"

definition demo_invoke :: "exec_policy_engine \<Rightarrow> tool_call \<Rightarrow> invocation_outcome" where
  "demo_invoke engine call = invoke_tool (\<lambda>s. None) (\<lambda>e. []) engine shell_registry
     (\<lambda>i. Some (1, Inr (FunctionOutput None True))) demo_ids call OnFailure ''/w''"

definition shell_call :: "tool_payload \<Rightarrow> tool_call" where
  "shell_call payload = \<lparr>tc_name = ''exec_shell'', tc_payload = payload, tc_source = Direct, tc_raw_id = None\<rparr>"

definition no_rm :: exec_policy_engine where
  "no_rm = engine_new [] [''rm'']"

text \<open>Without typed rules and with nothing denied, the mode decides.\<close>

lemma no_typed_rules [simp]:
  "matching_ask_rule (engine_new trusted deny) ctx = None" "segment_deny (engine_new trusted deny) ctx segs = None"
proof -
  show none: "matching_ask_rule (engine_new trusted deny) ctx = None" for ctx
    by (simp add: matching_ask_rule_def layered_ask_rules_def max_by_key_def engine_new_def)
  show "segment_deny (engine_new trusted deny) ctx segs = None"
    by (induction segs) (simp_all add: none)
qed

lemma untyped_check:
  "ctx_ask_for_approval ctx = OnFailure \<Longrightarrow> denied_rule (engine_new trusted deny) (ctx_command ctx) = None \<Longrightarrow>
   runs_unasked (check (engine_new trusted deny) ctx)"
  by (simp add: check_def mode_decision_unasked Let_def)

lemma no_rm_check:
  "ctx_ask_for_approval ctx = OnFailure \<Longrightarrow> \<not> deny_rule_hits (ctx_command ctx) ''rm'' \<Longrightarrow> runs_unasked (check no_rm ctx)"
  unfolding no_rm_def by (rule untyped_check) (simp_all add: denied_rule_def resolve_prefixes_def engine_new_def)

lemma no_rm_unasked: "runs_unasked (check no_rm (call_context de (shell_call (FunctionPayload args)) OnFailure cwd))"
proof (rule no_rm_check)
  show "\<not> deny_rule_hits (ctx_command (call_context de (shell_call (FunctionPayload args)) OnFailure cwd)) ''rm''"
    by (simp add: call_context_def execution_subject_def shell_call_def) code_simp
qed (simp add: call_context_def execution_subject_def shell_call_def)

lemma shell_handled:
  "io_handled (demo_invoke no_rm (shell_call (FunctionPayload args)))
     = Some \<lparr>ti_call_id = ''tool-call-e'', ti_name = ''exec_shell'', ti_payload = FunctionPayload args, ti_source = Direct\<rparr>"
  unfolding demo_invoke_def
proof (cases rule: invoke_cases [where engine = no_rm and de = "\<lambda>s. None" and call = "shell_call (FunctionPayload args)"
    and mode = OnFailure and cwd = "''/w''" and debug = "\<lambda>e. []" and reg = shell_registry
    and run = "\<lambda>i. Some (1, Inr (FunctionOutput None True))" and ids = demo_ids])
  case (dispatched call_id kind precheck)
  show "io_handled (invoke_tool (\<lambda>s. None) (\<lambda>e. []) no_rm shell_registry (\<lambda>i. Some (1, Inr (FunctionOutput None True)))
      demo_ids (shell_call (FunctionPayload args)) OnFailure ''/w'')
     = Some \<lparr>ti_call_id = ''tool-call-e'', ti_name = ''exec_shell'', ti_payload = FunctionPayload args, ti_source = Direct\<rparr>"
    unfolding dispatched(3) outcome_handled dispatch_handled
    by (simp add: dispatch_check_def shell_registry_def register_def shell_call_def demo_tool_def demo_handler_def
        registry_default_def default_matches_kind_def demo_ids_def)
qed (use no_rm_unasked in \<open>simp_all add: runs_unasked_def shell_call_def REQUEST_USER_INPUT_TOOL_NAME_def\<close>)


text \<open>
  The policy sees the command of a shell payload only. The same command in the arguments of a function call of that
  tool is not compared with the denied prefixes, and its handler is given it.
\<close>

theorem function_call_hides_its_command:
  "io_handled (demo_invoke no_rm (shell_call (FunctionPayload ''{command: rm -rf /}''))) \<noteq> None
   \<and> io_handled (demo_invoke no_rm (shell_call (LocalShellPayload
       \<lparr>sp_command = ''rm -rf /'', sp_cwd = None, sp_timeout_ms = None\<rparr>))) = None"
proof -
  have "deny_rule_hits ''rm -rf /'' ''rm''" by code_simp
  then have "\<not> dec_allow (check no_rm (call_context de (shell_call (LocalShellPayload
      \<lparr>sp_command = ''rm -rf /'', sp_cwd = None, sp_timeout_ms = None\<rparr>)) OnFailure cwd))" for de cwd
    by (simp add: check_def denied_rule_def resolve_prefixes_def no_rm_def engine_new_def call_context_def
        execution_subject_def shell_call_def forbidden_decision_def)
  then have "io_handled (demo_invoke no_rm (shell_call (LocalShellPayload
       \<lparr>sp_command = ''rm -rf /'', sp_cwd = None, sp_timeout_ms = None\<rparr>))) = None"
    by (simp add: demo_invoke_def invoke_tool_def Let_def outcome_handled split: prod.split)
  then show ?thesis by (simp add: shell_handled)
qed

text \<open>A call without an identifier gets two: one is announced to the hooks, the handler is given the other.\<close>

theorem announced_call_id_is_not_the_handlers:
  "map_option ti_call_id (io_handled (demo_invoke no_rm (shell_call (FunctionPayload [])))) = Some ''tool-call-e''
   \<and> list_ex (\<lambda>h. case h of HookToolLifecycle rid name phase payload \<Rightarrow>
         phase = ''dispatching'' \<and> json_get ''call_id'' payload = Some (JStr ''tool-call-b'') | _ \<Rightarrow> False)
       (io_hooks (demo_invoke no_rm (shell_call (FunctionPayload []))))"
proof -
  have "dec_allow (check no_rm (call_context (\<lambda>s. None) (shell_call (FunctionPayload [])) OnFailure ''/w''))"
    "\<not> dec_requires_approval (check no_rm (call_context (\<lambda>s. None) (shell_call (FunctionPayload [])) OnFailure ''/w''))"
    using no_rm_unasked [of "\<lambda>s. None" "[]"] by (simp_all add: runs_unasked_def)
  moreover have "tc_name (shell_call p) \<noteq> REQUEST_USER_INPUT_TOOL_NAME" "tc_raw_id (shell_call p) = None" for p
    by (simp_all add: shell_call_def REQUEST_USER_INPUT_TOOL_NAME_def)
  ultimately show ?thesis
    unfolding shell_handled
    by (simp add: demo_invoke_def invoke_tool_def Let_def dispatch_outcome_def demo_ids_def split: prod.split option.split sum.split)
qed

text \<open>
  Questions that cannot be read are dropped: the client is told that input is required and given no question.
\<close>

theorem unreadable_question_is_dropped:
  "io_answer (demo_invoke (engine_new [] []) \<lparr>tc_name = ''request_user_input'', tc_payload = FunctionPayload ''?'',
     tc_source = Direct, tc_raw_id = None\<rparr>) \<noteq> None
   \<and> map_option (json_get ''status'') (io_answer (demo_invoke (engine_new [] []) \<lparr>tc_name = ''request_user_input'',
       tc_payload = FunctionPayload ''?'', tc_source = Direct, tc_raw_id = None\<rparr>)) = Some (Some (JStr ''user_input_required''))
   \<and> map_option (json_get ''events'') (io_answer (demo_invoke (engine_new [] []) \<lparr>tc_name = ''request_user_input'',
       tc_payload = FunctionPayload ''?'', tc_source = Direct, tc_raw_id = None\<rparr>)) = Some (Some (JArr []))"
proof -
  let ?call = "\<lparr>tc_name = ''request_user_input'', tc_payload = FunctionPayload ''?'', tc_source = Direct, tc_raw_id = None\<rparr>"
  have "runs_unasked (check (engine_new [] []) (call_context (\<lambda>s. None) ?call OnFailure ''/w''))"
    by (rule untyped_check) (simp_all add: denied_rule_def resolve_prefixes_def engine_new_def call_context_def
        execution_subject_def)
  then show ?thesis
    by (simp add: demo_invoke_def invoke_tool_def Let_def runs_unasked_def REQUEST_USER_INPUT_TOOL_NAME_def
        user_input_outcome_def user_input_request_frame_def answer_json_def split: prod.split)
qed

end
