(* ===== verification/Worker_Profile.thy ===== *)
theory Worker_Profile
  imports Word_Saturate Tool_Dispatch
begin

text \<open>
  What a worker may do. \<open>crates/tui/src/worker_profile.rs\<close>: permissions, shell policy, tool scope and depth budget,
  and the profile of a child as the meet of its parent's and of what it asks for. \<open>crates/tui/src/tools/subagent/mod.rs\<close>:
  the types of sub-agents, the spawning of a child from the runtime of its parent, and the gate every tool call of a
  sub-agent passes. Of a runtime only what bounds its children is kept; models and providers are texts.
\<close>

section \<open>Profiles\<close>

definition DEFAULT_SPAWN_DEPTH :: u32 where "DEFAULT_SPAWN_DEPTH = 3"
definition MAX_SPAWN_DEPTH_CEILING :: u32 where "MAX_SPAWN_DEPTH_CEILING = 8"

record permission_set =
  pm_write :: bool
  pm_network :: bool

definition permissions_full :: permission_set where
  "permissions_full = \<lparr>pm_write = True, pm_network = True\<rparr>"

definition permissions_read_only :: permission_set where
  "permissions_read_only = \<lparr>pm_write = False, pm_network = False\<rparr>"

definition intersect :: "permission_set \<Rightarrow> permission_set \<Rightarrow> permission_set" where
  "intersect p q = \<lparr>pm_write = (pm_write p \<and> pm_write q), pm_network = (pm_network p \<and> pm_network q)\<rparr>"

text \<open>The order of the shell policies is that of their declaration.\<close>

datatype shell_policy = NoShell | ReadOnlyShell | FullShell

fun shell_ord :: "shell_policy \<Rightarrow> nat" where
  "shell_ord NoShell = 0"
| "shell_ord ReadOnlyShell = 1"
| "shell_ord FullShell = 2"

lemma shell_ord_inj: "shell_ord a = shell_ord b \<Longrightarrow> a = b"
  by (cases a; cases b) simp_all

instantiation shell_policy :: linorder
begin

definition "less_eq_shell_policy a b \<longleftrightarrow> shell_ord a \<le> shell_ord b"
definition "less_shell_policy a b \<longleftrightarrow> shell_ord a < shell_ord b"

instance
  by standard (auto simp: less_eq_shell_policy_def less_shell_policy_def dest: shell_ord_inj)

end

definition from_legacy_allow_shell :: "bool \<Rightarrow> shell_policy" where
  "from_legacy_allow_shell allow = (if allow then FullShell else NoShell)"

definition allows_shell :: "shell_policy \<Rightarrow> bool" where
  "allows_shell p \<longleftrightarrow> p \<noteq> NoShell"

definition min_with :: "shell_policy \<Rightarrow> shell_policy \<Rightarrow> shell_policy" where
  "min_with a b = (if a \<le> b then a else b)"

datatype tool_scope = ScopeInherit | ScopeExplicit "string list"

datatype model_route = RouteInherit | RouteFaster | RouteAuto | RouteFixed string

datatype sub_agent_type = General | Explore | Plan | Review | Implementer | Verifier | Custom

record worker_profile =
  wp_role :: sub_agent_type
  wp_permissions :: permission_set
  wp_shell :: shell_policy
  wp_tools :: tool_scope
  wp_model :: model_route
  wp_provider :: "string option"
  wp_max_spawn_depth :: u32
  wp_background :: bool

fun role_posture :: "sub_agent_type \<Rightarrow> permission_set \<times> shell_policy" where
  "role_posture Explore = (permissions_read_only, ReadOnlyShell)"
| "role_posture Review = (permissions_read_only, ReadOnlyShell)"
| "role_posture Plan = (permissions_read_only, NoShell)"
| "role_posture Verifier = (permissions_read_only, FullShell)"
| "role_posture Implementer = (permissions_full, FullShell)"
| "role_posture General = (permissions_full, FullShell)"
| "role_posture Custom = (permissions_read_only, NoShell)"

definition for_role :: "sub_agent_type \<Rightarrow> worker_profile" where
  "for_role role =
     \<lparr>wp_role = role, wp_permissions = fst (role_posture role), wp_shell = snd (role_posture role),
      wp_tools = ScopeInherit, wp_model = RouteInherit, wp_provider = None,
      wp_max_spawn_depth = DEFAULT_SPAWN_DEPTH, wp_background = True\<rparr>"

definition profile_default :: worker_profile where
  "profile_default = for_role General"

fun child_tools :: "tool_scope \<Rightarrow> tool_scope \<Rightarrow> tool_scope" where
  "child_tools (ScopeExplicit parent) (ScopeExplicit child) = ScopeExplicit (filter (\<lambda>n. n \<in> set parent) child)"
| "child_tools (ScopeExplicit parent) ScopeInherit = ScopeExplicit parent"
| "child_tools ScopeInherit child = child"

definition derive_child :: "worker_profile \<Rightarrow> worker_profile \<Rightarrow> worker_profile" where
  "derive_child p requested =
     \<lparr>wp_role = wp_role requested, wp_permissions = intersect (wp_permissions p) (wp_permissions requested),
      wp_shell = min_with (wp_shell p) (wp_shell requested), wp_tools = child_tools (wp_tools p) (wp_tools requested),
      wp_model = wp_model requested,
      wp_provider = (case wp_provider requested of Some x \<Rightarrow> Some x | None \<Rightarrow> wp_provider p),
      wp_max_spawn_depth = min (min (wp_max_spawn_depth requested) (sat_sub (wp_max_spawn_depth p) 1)) MAX_SPAWN_DEPTH_CEILING,
      wp_background = wp_background requested\<rparr>"

definition can_spawn_child :: "worker_profile \<Rightarrow> bool" where
  "can_spawn_child p \<longleftrightarrow> 0 < wp_max_spawn_depth p"

section \<open>Sub-agents\<close>

definition sub_agent_type_from_str :: "string \<Rightarrow> sub_agent_type option" where
  "sub_agent_type_from_str s =
     (let w = lowercase s
      in if w \<in> {''general'', ''general-purpose'', ''general_purpose'', ''worker'', ''default''} then Some General
         else if w \<in> {''explore'', ''exploration'', ''explorer''} then Some Explore
         else if w \<in> {''plan'', ''planning'', ''planner'', ''awaiter''} then Some Plan
         else if w \<in> {''review'', ''code-review'', ''code_review'', ''reviewer''} then Some Review
         else if w \<in> {''implementer'', ''implement'', ''implementation'', ''builder''} then Some Implementer
         else if w \<in> {''verifier'', ''verify'', ''verification'', ''validator'', ''tester''} then Some Verifier
         else if w = ''custom'' then Some Custom else None)"

fun sub_agent_type_str :: "sub_agent_type \<Rightarrow> string" where
  "sub_agent_type_str General = ''general''"
| "sub_agent_type_str Explore = ''explore''"
| "sub_agent_type_str Plan = ''plan''"
| "sub_agent_type_str Review = ''review''"
| "sub_agent_type_str Implementer = ''implementer''"
| "sub_agent_type_str Verifier = ''verifier''"
| "sub_agent_type_str Custom = ''custom''"

lemma sub_agent_type_round_trip: "sub_agent_type_from_str (sub_agent_type_str t) = Some t"
  by (cases t) (simp_all only: sub_agent_type_str.simps, code_simp+)

record agent_runtime =
  ar_auto_approve :: bool
  ar_allow_shell :: bool
  ar_profile :: worker_profile
  ar_spawn_depth :: u32
  ar_max_spawn_depth :: u32

definition runtime_new :: "bool \<Rightarrow> bool \<Rightarrow> u32 \<Rightarrow> agent_runtime" where
  "runtime_new auto_approve allow_shell max_depth =
     \<lparr>ar_auto_approve = auto_approve, ar_allow_shell = allow_shell, ar_profile = for_role General, ar_spawn_depth = 0,
      ar_max_spawn_depth = max_depth\<rparr>"

definition child_runtime :: "agent_runtime \<Rightarrow> agent_runtime" where
  "child_runtime rt = rt\<lparr>ar_spawn_depth := ar_spawn_depth rt + 1\<rparr>"

definition would_exceed_depth :: "agent_runtime \<Rightarrow> bool" where
  "would_exceed_depth rt \<longleftrightarrow> ar_max_spawn_depth rt < ar_spawn_depth rt + 1"

definition clamp_child_max_spawn_depth :: "u32 \<Rightarrow> u32 \<Rightarrow> u32" where
  "clamp_child_max_spawn_depth depth requested = min (sat_add depth requested) MAX_SPAWN_DEPTH_CEILING"

definition worker_tool_scope :: "string list option \<Rightarrow> tool_scope" where
  "worker_tool_scope tools = (case tools of None \<Rightarrow> ScopeInherit | Some ts \<Rightarrow> ScopeExplicit ts)"

definition worker_profile_for_spawn ::
  "string \<Rightarrow> agent_runtime \<Rightarrow> sub_agent_type \<Rightarrow> string list option \<Rightarrow> string \<Rightarrow> model_route option \<Rightarrow> worker_profile" where
  "worker_profile_for_spawn provider rt ty tools model route =
     derive_child (ar_profile rt)
       ((for_role ty)\<lparr>wp_tools := worker_tool_scope tools,
          wp_model := (case route of Some r \<Rightarrow> r | None \<Rightarrow> RouteFixed model), wp_provider := Some provider,
          wp_max_spawn_depth := sat_sub (ar_max_spawn_depth rt) (ar_spawn_depth rt), wp_background := True\<rparr>)"

text \<open>The names of an explicit list, trimmed, without blanks and repetitions.\<close>

fun deduped :: "string list \<Rightarrow> string list \<Rightarrow> string list" where
  "deduped acc [] = acc"
| "deduped acc (t # ts) =
     (let name = trim t in deduped (if name \<noteq> [] \<and> name \<notin> set acc then acc @ [name] else acc) ts)"

definition build_allowed_tools :: "sub_agent_type \<Rightarrow> string list option \<Rightarrow> string + string list option" where
  "build_allowed_tools ty explicit =
     (case explicit of
        Some tools \<Rightarrow>
          if ty = Custom \<and> deduped [] tools = []
          then Inl ''Custom sub-agent requires a non-empty allowed_tools list'' else Inr (Some (deduped [] tools))
      | None \<Rightarrow>
          if ty = Custom then Inl ''Custom sub-agent requires a non-empty allowed_tools list'' else Inr None)"

text \<open>
  The part of a spawn request that bounds the child; \<open>sq_max_depth\<close> is at most the ceiling when it is read. A spawn can
  also be refused for a rate limit, a name or worktree in use, a model or the number of agents, which is not modelled.
\<close>

record spawn_request =
  sq_type :: sub_agent_type
  sq_allowed_tools :: "string list option"
  sq_max_depth :: "u32 option"
  sq_route :: "model_route option"

record sub_agent_registry =
  sr_allowed_tools :: "string list option"
  sr_auto_approve :: bool
  sr_agent_type :: sub_agent_type
  sr_profile :: worker_profile
  sr_can_spawn_child :: bool

definition registry_for :: "agent_runtime \<Rightarrow> sub_agent_type \<Rightarrow> string list option \<Rightarrow> sub_agent_registry" where
  "registry_for rt ty tools =
     \<lparr>sr_allowed_tools = tools, sr_auto_approve = ar_auto_approve rt, sr_agent_type = ty, sr_profile = ar_profile rt,
      sr_can_spawn_child = (\<not> would_exceed_depth rt)\<rparr>"

definition depth_error :: "agent_runtime \<Rightarrow> string" where
  "depth_error rt =
     ''Sub-agent depth limit reached (current depth '' @ show_nat (unat (ar_spawn_depth rt)) @ '', max ''
       @ show_nat (unat (ar_max_spawn_depth rt)) @ ''). Increase via [subagents] max_depth in config.toml.''"

definition spawn_child ::
  "string \<Rightarrow> string \<Rightarrow> spawn_request \<Rightarrow> agent_runtime \<Rightarrow> string + (agent_runtime \<times> sub_agent_registry)" where
  "spawn_child provider model req rt =
     (if would_exceed_depth rt then Inl (depth_error rt)
      else (let child = child_runtime rt;
                child = (case sq_max_depth req of
                           None \<Rightarrow> child
                         | Some d \<Rightarrow> child\<lparr>ar_max_spawn_depth := clamp_child_max_spawn_depth (ar_spawn_depth child) d\<rparr>)
            in case build_allowed_tools (sq_type req) (sq_allowed_tools req) of
                 Inl e \<Rightarrow> Inl e
               | Inr tools \<Rightarrow>
                  (let child = child\<lparr>ar_profile := worker_profile_for_spawn provider child (sq_type req) tools model (sq_route req)\<rparr>
                   in Inr (child, registry_for child (sq_type req) tools))))"

section \<open>The gate of a tool call\<close>

text \<open>\<open>tools\<close> gives the approval requirement of every registered tool.\<close>

definition role_posture_permits :: "sub_agent_type \<Rightarrow> approval_requirement \<Rightarrow> bool" where
  "role_posture_permits ty approval \<longleftrightarrow>
     ty = Custom \<or>
     (case approval of
        Auto \<Rightarrow> True
      | Suggest \<Rightarrow> pm_write (wp_permissions (for_role ty))
      | Required \<Rightarrow> wp_shell (for_role ty) = FullShell)"

definition role_can_delegate_writes :: "sub_agent_type \<Rightarrow> bool" where
  "role_can_delegate_writes ty \<longleftrightarrow> ty = Implementer \<or> ty = Custom"

definition posture_permits_tool :: "(string \<rightharpoonup> approval_requirement) \<Rightarrow> sub_agent_registry \<Rightarrow> string \<Rightarrow> bool" where
  "posture_permits_tool tools r name \<longleftrightarrow>
     name = ''agent'' \<or>
     (case tools name of
        None \<Rightarrow> True
      | Some Auto \<Rightarrow> True
      | Some Suggest \<Rightarrow> pm_write (wp_permissions (sr_profile r)) \<and> role_posture_permits (sr_agent_type r) Suggest
      | Some Required \<Rightarrow> wp_shell (sr_profile r) = FullShell \<and> role_posture_permits (sr_agent_type r) Required)"

definition is_tool_allowed :: "sub_agent_registry \<Rightarrow> string \<Rightarrow> bool" where
  "is_tool_allowed r name \<longleftrightarrow>
     (if name = ''agent'' \<and> \<not> sr_can_spawn_child r then False
      else case sr_allowed_tools r of None \<Rightarrow> True | Some list \<Rightarrow> name \<in> set list)"

definition tools_for_model :: "(string \<rightharpoonup> approval_requirement) \<Rightarrow> string list \<Rightarrow> sub_agent_registry \<Rightarrow> string list" where
  "tools_for_model tools api_tools r =
     filter (posture_permits_tool tools r)
       (filter (\<lambda>name. name \<noteq> ''agent'' \<or> sr_can_spawn_child r)
         (case sr_allowed_tools r of None \<Rightarrow> api_tools | Some list \<Rightarrow> filter (\<lambda>name. name \<in> set list) api_tools))"

definition unavailable_allowed_tools :: "(string \<rightharpoonup> approval_requirement) \<Rightarrow> sub_agent_registry \<Rightarrow> string list" where
  "unavailable_allowed_tools tools r =
     (case sr_allowed_tools r of None \<Rightarrow> [] | Some list \<Rightarrow> filter (\<lambda>name. tools name = None) list)"

datatype gate_error =
    GateNotAllowed string
  | GatePosture string sub_agent_type
  | GateNotRegistered string
  | GateNotDelegated string sub_agent_type
  | GateNeedsApproval string
  | GateTakesTerminal

definition reject_subagent_terminal_takeover :: "string \<Rightarrow> json \<Rightarrow> bool" where
  "reject_subagent_terminal_takeover name input \<longleftrightarrow>
     name = ''exec_shell'' \<and> Option.bind (json_get ''interactive'' input) as_bool = Some True"

text \<open>\<open>execute\<close> up to the call of the registry: the error, or None when the tool is run.\<close>

definition sub_execute ::
  "(string \<rightharpoonup> approval_requirement) \<Rightarrow> sub_agent_registry \<Rightarrow> string \<Rightarrow> json \<Rightarrow> gate_error option" where
  "sub_execute tools r name input =
     (if \<not> is_tool_allowed r name then Some (GateNotAllowed name)
      else if \<not> posture_permits_tool tools r name then Some (GatePosture name (sr_agent_type r))
      else case (if sr_auto_approve r then None
                 else case tools name of
                        None \<Rightarrow> Some (GateNotRegistered name)
                      | Some Auto \<Rightarrow> None
                      | Some Suggest \<Rightarrow>
                          if \<not> pm_write (wp_permissions (sr_profile r)) \<or> \<not> role_can_delegate_writes (sr_agent_type r)
                          then Some (GateNotDelegated name (sr_agent_type r)) else None
                      | Some Required \<Rightarrow> Some (GateNeedsApproval name)) of
             Some e \<Rightarrow> Some e
           | None \<Rightarrow> if reject_subagent_terminal_takeover name input then Some GateTakesTerminal else None)"

section \<open>The order of the profiles\<close>

text \<open>What a tool scope lets through, and when one profile may do no more than another.\<close>

fun in_scope :: "tool_scope \<Rightarrow> string \<Rightarrow> bool" where
  "in_scope ScopeInherit name \<longleftrightarrow> True"
| "in_scope (ScopeExplicit names) name \<longleftrightarrow> name \<in> set names"

definition permissions_le :: "permission_set \<Rightarrow> permission_set \<Rightarrow> bool" where
  "permissions_le p q \<longleftrightarrow> pm_write p \<le> pm_write q \<and> pm_network p \<le> pm_network q"

definition profile_le :: "worker_profile \<Rightarrow> worker_profile \<Rightarrow> bool" where
  "profile_le p q \<longleftrightarrow> permissions_le (wp_permissions p) (wp_permissions q) \<and> wp_shell p \<le> wp_shell q
     \<and> in_scope (wp_tools p) \<le> in_scope (wp_tools q)"

lemma profile_le_refl [simp]: "profile_le p p"
  by (simp add: profile_le_def permissions_le_def)

lemma profile_le_trans: "profile_le p q \<Longrightarrow> profile_le q r \<Longrightarrow> profile_le p r"
  by (auto simp: profile_le_def permissions_le_def intro: order_trans)

lemma child_tools_scope: "in_scope (child_tools p c) name \<longleftrightarrow> in_scope p name \<and> in_scope c name"
  by (cases p; cases c) auto

lemma min_with_min: "min_with a b = min a b"
  by (simp add: min_with_def min_def)

text \<open>
  C27: The profile of a child is the greatest one that does no more than its parent's and no more than it asks for, in
  permissions, shell and tools; its depth budget is below its parent's unless that is zero.
\<close>

theorem child_profile_is_the_meet:
  "(profile_le q (derive_child p requested) \<longleftrightarrow> profile_le q p \<and> profile_le q requested)
   \<and> unat (wp_max_spawn_depth (derive_child p requested))
       = min (min (unat (wp_max_spawn_depth requested)) (unat (wp_max_spawn_depth p) - 1)) 8"
proof
  show "profile_le q (derive_child p requested) \<longleftrightarrow> profile_le q p \<and> profile_le q requested"
    by (auto simp: profile_le_def permissions_le_def derive_child_def intersect_def min_with_min child_tools_scope le_fun_def)
  show "unat (wp_max_spawn_depth (derive_child p requested))
       = min (min (unat (wp_max_spawn_depth requested)) (unat (wp_max_spawn_depth p) - 1)) 8"
    by (simp add: derive_child_def MAX_SPAWN_DEPTH_CEILING_def min_def word_le_nat_alt unat_sat_sub)
qed

lemma derive_child_le: "profile_le (derive_child p requested) p"
  by (auto simp: profile_le_def permissions_le_def derive_child_def intersect_def min_with_min child_tools_scope le_fun_def)

section \<open>Chains of workers\<close>

text \<open>A worker with its gate, and the workers below it.\<close>

inductive descends :: "agent_runtime \<Rightarrow> agent_runtime \<Rightarrow> sub_agent_registry \<Rightarrow> bool" where
  descends_child: "spawn_child provider model req rt = Inr (child, r) \<Longrightarrow> descends rt child r"
| descends_further: "descends rt rt' r' \<Longrightarrow> spawn_child provider model req rt' = Inr (child, r) \<Longrightarrow> descends rt child r"

lemma spawn_result:
  assumes "spawn_child provider model req rt = Inr (child, r)"
  shows "\<not> would_exceed_depth rt" "ar_spawn_depth child = ar_spawn_depth rt + 1"
    "profile_le (ar_profile child) (ar_profile rt)" "sr_profile r = ar_profile child"
    "ar_max_spawn_depth child = ar_max_spawn_depth rt \<or> ar_max_spawn_depth child \<le> MAX_SPAWN_DEPTH_CEILING"
    "ar_auto_approve child = ar_auto_approve rt" "sr_auto_approve r = ar_auto_approve rt"
proof -
  have exceed: "\<not> would_exceed_depth rt" using assms by (auto simp: spawn_child_def split: if_splits)
  then show "\<not> would_exceed_depth rt" .
  obtain tools where child: "child = (let c = child_runtime rt;
        c = (case sq_max_depth req of None \<Rightarrow> c
             | Some d \<Rightarrow> c\<lparr>ar_max_spawn_depth := clamp_child_max_spawn_depth (ar_spawn_depth c) d\<rparr>)
      in c\<lparr>ar_profile := worker_profile_for_spawn provider c (sq_type req) tools model (sq_route req)\<rparr>)"
    and r: "r = registry_for child (sq_type req) tools"
    using assms exceed by (auto simp: spawn_child_def Let_def split: sum.splits)
  show "ar_spawn_depth child = ar_spawn_depth rt + 1" "ar_auto_approve child = ar_auto_approve rt"
    "profile_le (ar_profile child) (ar_profile rt)"
    by (simp_all add: child child_runtime_def worker_profile_for_spawn_def derive_child_le Let_def split: option.split)
  show "ar_max_spawn_depth child = ar_max_spawn_depth rt \<or> ar_max_spawn_depth child \<le> MAX_SPAWN_DEPTH_CEILING"
    by (simp add: child child_runtime_def clamp_child_max_spawn_depth_def Let_def split: option.split)
  show "sr_profile r = ar_profile child" "sr_auto_approve r = ar_auto_approve rt"
    by (simp_all add: r registry_for_def child child_runtime_def Let_def split: option.split)
qed

lemma descends_profile: "descends rt child r \<Longrightarrow> profile_le (sr_profile r) (ar_profile rt) \<and> sr_profile r = ar_profile child"
proof (induction rule: descends.induct)
  case (descends_child provider model req rt child r)
  then show ?case using spawn_result by simp
next
  case (descends_further rt rt' r' provider model req child r)
  then show ?case using spawn_result [OF descends_further.hyps(2)] profile_le_trans by metis
qed

lemma executed_posture:
  "sub_execute tools r name input = None \<Longrightarrow> is_tool_allowed r name \<and> posture_permits_tool tools r name"
  by (auto simp: sub_execute_def split: if_splits)

text \<open>
  C12: A sub-agent writes only if every worker above it may write, and runs a shell only if every worker above it has the
  full shell, whatever each was asked for on the way down and whether or not the session approves by itself.
\<close>

theorem no_worker_escalates:
  assumes "descends rt child r" and "sub_execute tools r name input = None" and "name \<noteq> ''agent''"
  shows "(tools name = Some Suggest \<longrightarrow> pm_write (wp_permissions (ar_profile rt)) \<and> pm_write (wp_permissions (ar_profile child)))
    \<and> (tools name = Some Required \<longrightarrow> wp_shell (ar_profile rt) = FullShell \<and> wp_shell (ar_profile child) = FullShell)"
proof -
  have le: "profile_le (ar_profile child) (ar_profile rt)" "sr_profile r = ar_profile child"
    using descends_profile [OF assms(1)] by auto
  have "posture_permits_tool tools r name" using executed_posture [OF assms(2)] by simp
  then have may_write: "tools name = Some Suggest \<Longrightarrow> pm_write (wp_permissions (ar_profile child))"
    and shell: "tools name = Some Required \<Longrightarrow> wp_shell (ar_profile child) = FullShell"
    using assms(3) le(2) by (simp_all add: posture_permits_tool_def)
  have top: "FullShell \<le> s \<Longrightarrow> s = FullShell" for s
    by (cases s) (simp_all add: less_eq_shell_policy_def)
  show ?thesis
    using le(1) may_write shell top [of "wp_shell (ar_profile rt)"] by (auto simp: profile_le_def permissions_le_def)
qed

text \<open>The depth of a worker stays below the limit it was spawned under.\<close>

lemma spawn_depth_bound:
  assumes "spawn_child provider model req rt = Inr (child, r)" and "ar_max_spawn_depth rt \<le> MAX_SPAWN_DEPTH_CEILING"
    and "ar_spawn_depth rt \<le> MAX_SPAWN_DEPTH_CEILING"
  shows "ar_max_spawn_depth child \<le> MAX_SPAWN_DEPTH_CEILING \<and> ar_spawn_depth child \<le> MAX_SPAWN_DEPTH_CEILING
    \<and> unat (ar_spawn_depth child) = unat (ar_spawn_depth rt) + 1"
proof -
  note result = spawn_result [OF assms(1)]
  have "unat (ar_spawn_depth rt) \<le> 8" using assms(3) by (simp add: MAX_SPAWN_DEPTH_CEILING_def word_le_nat_alt)
  then have next_depth: "unat (ar_spawn_depth rt + 1) = unat (ar_spawn_depth rt) + 1"
    by (simp add: unat_word_ariths)
  have "ar_spawn_depth rt + 1 \<le> ar_max_spawn_depth rt" using result(1) by (simp add: would_exceed_depth_def not_less)
  then show ?thesis using result(2,5) assms(2) next_depth by auto
qed

text \<open>A worker some levels below another.\<close>

inductive level :: "agent_runtime \<Rightarrow> nat \<Rightarrow> agent_runtime \<Rightarrow> bool" where
  level_root: "level rt 0 rt"
| level_child: "level rt n rt' \<Longrightarrow> spawn_child provider model req rt' = Inr (child, r) \<Longrightarrow> level rt (Suc n) child"

lemma level_depth:
  "level rt n child \<Longrightarrow> ar_spawn_depth rt = 0 \<Longrightarrow> ar_max_spawn_depth rt \<le> MAX_SPAWN_DEPTH_CEILING \<Longrightarrow>
   ar_max_spawn_depth child \<le> MAX_SPAWN_DEPTH_CEILING \<and> ar_spawn_depth child \<le> MAX_SPAWN_DEPTH_CEILING
   \<and> unat (ar_spawn_depth child) = n"
proof (induction rule: level.induct)
  case (level_child rt n rt' provider model req child r)
  then show ?case using spawn_depth_bound [OF level_child.hyps(2)] by simp
qed simp

text \<open>
  Below a session whose limit is within the ceiling no worker is deeper than the ceiling, and depths are counted
  without wrapping: a worker n levels down has depth n.
\<close>

theorem workers_stay_within_the_ceiling:
  assumes "level (runtime_new auto_approve allow_shell max_depth) n child" and "max_depth \<le> MAX_SPAWN_DEPTH_CEILING"
  shows "n \<le> 8 \<and> unat (ar_spawn_depth child) = n"
  using level_depth [OF assms(1)] assms(2) by (simp add: runtime_new_def MAX_SPAWN_DEPTH_CEILING_def word_le_nat_alt)

section \<open>Examples\<close>

text \<open>A registry of five tools, and a session of the default depth that approves by itself.\<close>

definition demo_tools :: "string \<rightharpoonup> approval_requirement" where
  "demo_tools = [''read_file'' \<mapsto> Auto, ''git_status'' \<mapsto> Auto, ''write_file'' \<mapsto> Suggest, ''exec_shell'' \<mapsto> Required, ''agent'' \<mapsto> Auto]"

definition demo_session :: agent_runtime where
  "demo_session = runtime_new True True DEFAULT_SPAWN_DEPTH"

definition demo_spawn :: "sub_agent_type \<Rightarrow> string list option \<Rightarrow> u32 option \<Rightarrow> spawn_request" where
  "demo_spawn ty tools depth = \<lparr>sq_type = ty, sq_allowed_tools = tools, sq_max_depth = depth, sq_route = None\<rparr>"

definition demo_child :: "spawn_request \<Rightarrow> agent_runtime \<Rightarrow> agent_runtime" where
  "demo_child req rt = fst (projr (spawn_child ''deepseek'' ''deepseek-chat'' req rt))"

definition demo_registry :: "spawn_request \<Rightarrow> agent_runtime \<Rightarrow> sub_agent_registry" where
  "demo_registry req rt = snd (projr (spawn_child ''deepseek'' ''deepseek-chat'' req rt))"

lemma demo_spawned:
  "spawn_child ''deepseek'' ''deepseek-chat'' (demo_spawn Implementer None None) demo_session
   = Inr (demo_child (demo_spawn Implementer None None) demo_session, demo_registry (demo_spawn Implementer None None) demo_session)"
  by code_simp

text \<open>An implementer of the session, and one below it, may write.\<close>

lemma demo_spawned_twice:
  "spawn_child ''deepseek'' ''deepseek-chat'' (demo_spawn Implementer None None)
     (demo_child (demo_spawn Implementer None None) demo_session)
   = Inr (demo_child (demo_spawn Implementer None None) (demo_child (demo_spawn Implementer None None) demo_session),
          demo_registry (demo_spawn Implementer None None) (demo_child (demo_spawn Implementer None None) demo_session))"
  by code_simp

theorem no_worker_escalates_witness:
  "pm_write (wp_permissions (ar_profile demo_session))
   \<and> pm_write (wp_permissions (ar_profile
       (demo_child (demo_spawn Implementer None None) (demo_child (demo_spawn Implementer None None) demo_session))))"
proof -
  have run: "sub_execute demo_tools
      (demo_registry (demo_spawn Implementer None None) (demo_child (demo_spawn Implementer None None) demo_session))
      ''write_file'' (JObj []) = None" "demo_tools ''write_file'' = Some Suggest" by code_simp+
  show ?thesis
    using no_worker_escalates [OF descends_further [OF descends_child [OF demo_spawned] demo_spawned_twice] run(1)] run(2) by simp
qed

theorem workers_stay_within_the_ceiling_witness:
  "unat (ar_spawn_depth
     (demo_child (demo_spawn Implementer None None) (demo_child (demo_spawn Implementer None None) demo_session))) = Suc (Suc 0)"
proof -
  have limit: "DEFAULT_SPAWN_DEPTH \<le> MAX_SPAWN_DEPTH_CEILING" by code_simp
  have below: "level (runtime_new True True DEFAULT_SPAWN_DEPTH) (Suc (Suc 0))
      (demo_child (demo_spawn Implementer None None) (demo_child (demo_spawn Implementer None None) demo_session))"
    using level_child [OF level_child [OF level_root demo_spawned] demo_spawned_twice] by (simp add: demo_session_def)
  show ?thesis using workers_stay_within_the_ceiling [OF below limit] by simp
qed

section \<open>What the bounds do not bound\<close>

text \<open>
  The depth a model asks for replaces the limit of the session, up to the ceiling: below a session that allows one level
  of workers, a child spawned with a depth of seven can spawn again, though the budget of its profile is zero, which no
  spawn consults.
\<close>

theorem model_can_raise_the_depth:
  "ar_max_spawn_depth (demo_child (demo_spawn General None (Some 7)) (runtime_new True True 1)) = 8
   \<and> \<not> can_spawn_child (ar_profile (demo_child (demo_spawn General None None) (runtime_new True True 1)))
   \<and> would_exceed_depth (demo_child (demo_spawn General None None) (runtime_new True True 1))
   \<and> \<not> would_exceed_depth (demo_child (demo_spawn General None (Some 7)) (runtime_new True True 1))"
  by code_simp

text \<open>
  The tools of a profile are narrowed from parent to child, but the gate looks only at the list the child was given: a
  child without a list, below a worker that was given only \<open>read_file\<close>, runs \<open>git_status\<close>.
\<close>

theorem tool_scope_is_not_enforced:
  "let parent = demo_child (demo_spawn Review (Some [''read_file'', ''agent'']) None) demo_session;
       parent_gate = demo_registry (demo_spawn Review (Some [''read_file'', ''agent'']) None) demo_session;
       gate = demo_registry (demo_spawn Review None None) parent
   in sub_execute demo_tools parent_gate ''git_status'' (JObj []) = Some (GateNotAllowed ''git_status'')
      \<and> sub_execute demo_tools gate ''git_status'' (JObj []) = None
      \<and> \<not> in_scope (wp_tools (sr_profile gate)) ''git_status''"
  by code_simp

text \<open>
  A custom worker with an explicit list is documented to write by it, and its role posture lets everything through; but
  its profile is the read-only one of the custom role, so no write of it passes the gate.
\<close>

theorem custom_role_never_writes:
  "role_posture_permits Custom Suggest
   \<and> sub_execute demo_tools (demo_registry (demo_spawn Custom (Some [''write_file'']) None) demo_session) ''write_file'' (JObj [])
       = Some (GatePosture ''write_file'' Custom)"
  by code_simp

end
