(* ===== verification/Compaction_Plan.thy ===== *)
theory Compaction_Plan
  imports Json_Value
begin

text \<open>
  \<open>crates/tui/src/compaction.rs\<close>, first half: which messages of a conversation are kept when it is compacted, the
  repair of tool calls and their results, the token estimates and the decision to compact. Of \<open>crates/tui/src/models.rs\<close>
  the messages and their blocks. The path regex, the workspace on disk and the text of JSON are given by an
  environment; sets of indices are sets, so the order in which the code walks them does not show.
\<close>

section \<open>Messages\<close>

record tool_caller =
  tca_type :: string
  tca_tool_id :: "string option"

datatype content_block =
    TextBlock string "string option"
  | ImageBlock string
  | ThinkingBlock string "string option"
  | ToolUseBlock string string json "tool_caller option"
  | ToolResultBlock string string "bool option" "json list option"
  | ServerToolUseBlock string string json
  | ToolSearchResultBlock string json
  | CodeExecutionResultBlock string json

record chat_message =
  cm_role :: string
  cm_content :: "content_block list"

record system_block =
  sb_type :: string
  sb_text :: string
  sb_cache :: "string option"

datatype system_prompt = SystemText string | SystemBlocks "system_block list"

record compaction_config =
  cc_enabled :: bool
  cc_token_threshold :: nat
  cc_model :: string
  cc_cache_summary :: bool

definition KEEP_RECENT_MESSAGES :: nat where "KEEP_RECENT_MESSAGES = 4"
definition RECENT_WORKING_SET_WINDOW :: nat where "RECENT_WORKING_SET_WINDOW = 12"
definition MAX_WORKING_SET_PATHS :: nat where "MAX_WORKING_SET_PATHS = 24"
definition MIN_SUMMARIZE_MESSAGES :: nat where "MIN_SUMMARIZE_MESSAGES = 6"
definition IMAGE_TOKEN_ESTIMATE :: nat where "IMAGE_TOKEN_ESTIMATE = 1000"

section \<open>Paths a message mentions\<close>

text \<open>
  \<open>ce_ser\<close> is the text of a JSON value, \<open>ce_captures\<close> the groups \<open>path\<close> or \<open>root\<close> of the matches of \<open>path_regex\<close> in a
  text, \<open>ce_exists\<close> whether a relative path exists below the workspace.
\<close>

record compaction_env =
  ce_ser :: "json \<Rightarrow> string"
  ce_captures :: "string \<Rightarrow> string list"
  ce_workspace :: "string option"
  ce_exists :: "string \<Rightarrow> bool"

text \<open>
  \<open>Path::strip_prefix\<close> with an absolute base, as the workspace is: components are compared, repeated slashes and dots
  are skipped.
\<close>

function skip_seps :: "string \<Rightarrow> string" where
  "skip_seps s =
     (if prefix ''/'' s then skip_seps (tl s)
      else if s = ''.'' then [] else if prefix ''./'' s then skip_seps (drop 2 s) else s)"
  by pat_completeness auto
termination
  by (relation "measure length") (auto simp: prefix_def)

declare skip_seps.simps [simp del]

fun strip_components :: "string list \<Rightarrow> string \<Rightarrow> string option" where
  "strip_components [] s = Some (rev (skip_seps (rev (skip_seps s))))"
| "strip_components (c # cs) s =
     (let s = skip_seps s; w = takeWhile (\<lambda>x. x \<noteq> CHR ''/'') s
      in if w = c then strip_components cs (drop (length w) s) else None)"

definition path_strip_prefix :: "string \<Rightarrow> string \<Rightarrow> string option" where
  "path_strip_prefix base path =
     (if prefix ''/'' base \<and> prefix ''/'' path
      then strip_components (filter (\<lambda>c. c \<noteq> [] \<and> c \<noteq> ''.'') (split_on (CHR ''/'') base)) path
      else None)"

function trim_start_dot_slash :: "string \<Rightarrow> string" where
  "trim_start_dot_slash s = (if prefix ''./'' s then trim_start_dot_slash (drop 2 s) else s)"
  by pat_completeness auto
termination
  by (relation "measure length") (auto simp: prefix_def)

declare trim_start_dot_slash.simps [simp del]

definition looks_repo_relative :: "string \<Rightarrow> bool" where
  "looks_repo_relative path \<longleftrightarrow>
     path \<in> {''Cargo.toml'', ''Cargo.lock'', ''README.md'', ''CHANGELOG.md'', ''AGENTS.md'', ''config.example.toml''}
     \<or> prefix ''src/'' path \<or> prefix ''tests/'' path \<or> prefix ''docs/'' path \<or> prefix ''examples/'' path
     \<or> prefix ''benches/'' path \<or> prefix ''crates/'' path \<or> prefix ''.github/'' path \<or> sublist ''/'' path"

definition normalize_path_candidate :: "compaction_env \<Rightarrow> string \<Rightarrow> string option" where
  "normalize_path_candidate env candidate =
     (if candidate = [] then None
      else let cleaned = map (\<lambda>c. if c = CHR 0x5C then CHR ''/'' else c) candidate
        in case (if prefix ''/'' cleaned
                 then Option.bind (ce_workspace env) (\<lambda>ws. path_strip_prefix ws cleaned) else Some cleaned) of
             None \<Rightarrow> None
           | Some path \<Rightarrow>
              (let rel = trim_start_dot_slash path
               in if rel = [] \<or> sublist ''..'' rel then None
                  else if ce_workspace env \<noteq> None \<and> ce_exists env rel \<or> looks_repo_relative rel then Some rel else None))"

definition extract_paths_from_text :: "compaction_env \<Rightarrow> string \<Rightarrow> string list" where
  "extract_paths_from_text env text = List.map_filter (normalize_path_candidate env) (ce_captures env text)"

definition extract_paths_from_tool_input :: "compaction_env \<Rightarrow> json \<Rightarrow> string list" where
  "extract_paths_from_tool_input env input =
     List.map_filter (\<lambda>key. Option.bind (Option.bind (json_get key input) as_str) (normalize_path_candidate env))
       [''path'', ''file'', ''target'', ''cwd'']
     @ concat (map (\<lambda>key.
         (case Option.bind (json_get key input) as_array of
            None \<Rightarrow> []
          | Some vals \<Rightarrow> List.map_filter (\<lambda>v. Option.bind (as_str v) (normalize_path_candidate env)) vals))
       [''paths'', ''files'', ''targets''])"

fun block_paths :: "compaction_env \<Rightarrow> content_block \<Rightarrow> string list" where
  "block_paths env (TextBlock text cache) = extract_paths_from_text env text"
| "block_paths env (ToolResultBlock tid content err blocks) = extract_paths_from_text env content"
| "block_paths env (ToolUseBlock tid name input caller) = extract_paths_from_tool_input env input"
| "block_paths env b = []"

definition extract_paths_from_message :: "compaction_env \<Rightarrow> chat_message \<Rightarrow> string list" where
  "extract_paths_from_message env msg = concat (map (block_paths env) (cm_content msg))"

text \<open>New paths are taken in order until there are 24.\<close>

fun take_paths :: "string list \<Rightarrow> string list \<Rightarrow> string list" where
  "take_paths paths [] = paths"
| "take_paths paths (c # cs) =
     (if c \<in> set paths then take_paths paths cs
      else if MAX_WORKING_SET_PATHS \<le> length (paths @ [c]) then paths @ [c] else take_paths (paths @ [c]) cs)"

definition derive_working_set_paths :: "compaction_env \<Rightarrow> chat_message list \<Rightarrow> nat list \<Rightarrow> string list" where
  "derive_working_set_paths env msgs seeds =
     take_paths [] (concat (map (extract_paths_from_message env)
       (map (\<lambda>i. msgs ! i) (rev (sort (filter (\<lambda>i. i < length msgs) seeds)))
        @ take RECENT_WORKING_SET_WINDOW (rev msgs))))"

section \<open>Which messages are pinned\<close>

fun block_text :: "compaction_env \<Rightarrow> content_block \<Rightarrow> string" where
  "block_text env (TextBlock text cache) = text @ [CHR 0x0A]"
| "block_text env (ToolUseBlock tid name input caller) = ''[tool_use:'' @ name @ ''] '' @ ce_ser env input @ [CHR 0x0A]"
| "block_text env (ToolResultBlock tid content err blocks) = content @ [CHR 0x0A]"
| "block_text env b = []"

definition message_text :: "compaction_env \<Rightarrow> chat_message \<Rightarrow> string" where
  "message_text env msg = concat (map (block_text env) (cm_content msg))"

fun is_text_block :: "content_block \<Rightarrow> bool" where
  "is_text_block (TextBlock text cache) \<longleftrightarrow> True"
| "is_text_block b \<longleftrightarrow> False"

definition is_user_text_query :: "chat_message \<Rightarrow> bool" where
  "is_user_text_query msg \<longleftrightarrow> cm_role msg = ''user'' \<and> list_ex is_text_block (cm_content msg)"

definition should_pin_message :: "string \<Rightarrow> string list \<Rightarrow> bool" where
  "should_pin_message text paths \<longleftrightarrow>
     list_ex (\<lambda>p. sublist p text) paths
     \<or> list_ex (\<lambda>m. sublist m (lowercase text))
         [''error:'', ''error '', ''failed'', ''panic'', ''traceback'', ''stack trace'', ''assertion failed'', ''test failed'']
     \<or> list_ex (\<lambda>m. sublist m (lowercase text))
         [''diff --git'', ''+++ b/'', ''--- a/'', ''*** begin patch'', ''*** update file:'', ''*** add file:'',
          ''*** delete file:'', [CHR 0x60, CHR 0x60, CHR 0x60] @ ''diff'', ''apply_patch'']"

text \<open>The indices of the last call and the last result with an id.\<close>

fun note_call :: "nat \<Rightarrow> content_block \<Rightarrow> (string \<rightharpoonup> nat) \<Rightarrow> (string \<rightharpoonup> nat)" where
  "note_call idx (ToolUseBlock tid name input caller) m = m(tid \<mapsto> idx)"
| "note_call idx b m = m"

fun note_result :: "nat \<Rightarrow> content_block \<Rightarrow> (string \<rightharpoonup> nat) \<Rightarrow> (string \<rightharpoonup> nat)" where
  "note_result idx (ToolResultBlock tid content err blocks) m = m(tid \<mapsto> idx)"
| "note_result idx b m = m"

definition call_id_to_idx :: "chat_message list \<Rightarrow> (string \<rightharpoonup> nat)" where
  "call_id_to_idx msgs = fold (\<lambda>(idx, msg). fold (note_call idx) (cm_content msg)) (List.enumerate 0 msgs) Map.empty"

definition result_id_to_idx :: "chat_message list \<Rightarrow> (string \<rightharpoonup> nat)" where
  "result_id_to_idx msgs = fold (\<lambda>(idx, msg). fold (note_result idx) (cm_content msg)) (List.enumerate 0 msgs) Map.empty"

text \<open>The counterpart a block needs: none, or the index of one, which may be missing.\<close>

fun block_needs :: "(string \<rightharpoonup> nat) \<Rightarrow> (string \<rightharpoonup> nat) \<Rightarrow> content_block \<Rightarrow> nat option option" where
  "block_needs calls results (ToolResultBlock tid content err blocks) = Some (calls tid)"
| "block_needs calls results (ToolUseBlock tid name input caller) = Some (results tid)"
| "block_needs calls results b = None"

definition message_needs :: "chat_message list \<Rightarrow> nat \<Rightarrow> nat option list" where
  "message_needs msgs idx =
     List.map_filter (block_needs (call_id_to_idx msgs) (result_id_to_idx msgs)) (cm_content (msgs ! idx))"

text \<open>
  One round of \<open>enforce_tool_call_pairs\<close>, from the needs of every message: the pinned indices, those removed for good,
  and whether anything changed.
\<close>

definition pair_round :: "nat \<Rightarrow> (nat \<Rightarrow> nat option list) \<Rightarrow> nat set \<times> nat set \<Rightarrow> (nat set \<times> nat set) \<times> bool" where
  "pair_round n needs s =
     (case s of (pinned, removed) \<Rightarrow>
       let snapshot = filter (\<lambda>i. i \<in> pinned) [0..<n];
           to_add = concat (map (\<lambda>i. List.map_filter
             (\<lambda>t. case t of Some j \<Rightarrow> if j \<in> removed then None else Some j | None \<Rightarrow> None) (needs i)) snapshot);
           to_remove = concat (map (\<lambda>i. List.map_filter
             (\<lambda>t. case t of Some j \<Rightarrow> if j \<in> removed then Some i else None | None \<Rightarrow> Some i) (needs i)) snapshot);
           added = filter (\<lambda>j. j \<notin> set to_remove \<and> j \<notin> pinned) to_add;
           dropped = filter (\<lambda>i. i \<in> pinned \<union> set added) to_remove
       in ((pinned \<union> set added - set dropped, removed \<union> set dropped), added \<noteq> [] \<or> dropped \<noteq> []))"

fun pair_loop :: "nat \<Rightarrow> nat \<Rightarrow> (nat \<Rightarrow> nat option list) \<Rightarrow> nat set \<times> nat set \<Rightarrow> nat set \<times> bool" where
  "pair_loop 0 n needs s = (fst s, False)"
| "pair_loop (Suc k) n needs s =
     (case pair_round n needs s of (s', changed) \<Rightarrow> if changed then pair_loop k n needs s' else (fst s', True))"

text \<open>The pinned indices, and whether the rounds came to an end before their limit; if not, the code warns.\<close>

definition enforce_tool_call_pairs :: "chat_message list \<Rightarrow> nat set \<Rightarrow> nat set \<times> bool" where
  "enforce_tool_call_pairs msgs pinned =
     (if pinned = {} then ({}, True)
      else pair_loop (max (length msgs) 10) (length msgs) (message_needs msgs) (pinned, {}))"

record compaction_plan =
  cp_pinned :: "nat set"
  cp_summarize :: "nat list"

definition pinned_before_pairs ::
  "compaction_env \<Rightarrow> chat_message list \<Rightarrow> nat \<Rightarrow> nat list option \<Rightarrow> string list option \<Rightarrow> nat set" where
  "pinned_before_pairs env msgs keep pins paths =
     (let n = length msgs; recent = set [n - keep..<n];
          working = derive_working_set_paths env msgs (case pins of None \<Rightarrow> [] | Some ps \<Rightarrow> ps)
            @ (case paths of None \<Rightarrow> [] | Some xs \<Rightarrow> List.map_filter (normalize_path_candidate env) xs)
      in recent \<union> set (filter (\<lambda>i. i \<notin> recent \<and> should_pin_message (message_text env (msgs ! i)) working) [0..<n])
         \<union> (case pins of None \<Rightarrow> {} | Some ps \<Rightarrow> set (filter (\<lambda>i. i < n) ps)))"

text \<open>A user text query is kept if there is one.\<close>

definition keep_user_query :: "chat_message list \<Rightarrow> nat set \<Rightarrow> nat set" where
  "keep_user_query msgs pinned =
     (let n = length msgs
      in if list_ex (\<lambda>i. i \<in> pinned \<and> is_user_text_query (msgs ! i)) [0..<n] then pinned
         else case find (\<lambda>i. is_user_text_query (msgs ! i)) (rev [0..<n]) of
                None \<Rightarrow> pinned
              | Some i \<Rightarrow> insert i pinned)"

definition plan_compaction ::
  "compaction_env \<Rightarrow> chat_message list \<Rightarrow> nat \<Rightarrow> nat list option \<Rightarrow> string list option \<Rightarrow> compaction_plan" where
  "plan_compaction env msgs keep pins paths =
     (if msgs = [] then \<lparr>cp_pinned = {}, cp_summarize = []\<rparr>
      else let pinned = keep_user_query msgs (fst (enforce_tool_call_pairs msgs (pinned_before_pairs env msgs keep pins paths)))
        in \<lparr>cp_pinned = pinned, cp_summarize = filter (\<lambda>i. i \<notin> pinned) [0..<length msgs]\<rparr>)"

section \<open>Token estimates\<close>

fun block_tokens :: "(json \<Rightarrow> string) \<Rightarrow> bool \<Rightarrow> content_block \<Rightarrow> nat" where
  "block_tokens ser thinking (TextBlock text cache) = length text div 4"
| "block_tokens ser thinking (ThinkingBlock text sig) = (if thinking then length text div 4 else 0)"
| "block_tokens ser thinking (ToolUseBlock tid name input caller) = length (ser input) div 4"
| "block_tokens ser thinking (ToolResultBlock tid content err blocks) = length content div 4"
| "block_tokens ser thinking (ImageBlock url) = IMAGE_TOKEN_ESTIMATE"
| "block_tokens ser thinking b = 0"

definition estimate_tokens_for_message :: "(json \<Rightarrow> string) \<Rightarrow> chat_message \<Rightarrow> bool \<Rightarrow> nat" where
  "estimate_tokens_for_message ser msg thinking = sum_list (map (block_tokens ser thinking) (cm_content msg))"

fun is_tool_use :: "content_block \<Rightarrow> bool" where
  "is_tool_use (ToolUseBlock tid name input caller) \<longleftrightarrow> True"
| "is_tool_use b \<longleftrightarrow> False"

definition message_has_tool_use :: "chat_message \<Rightarrow> bool" where
  "message_has_tool_use msg \<longleftrightarrow> list_ex is_tool_use (cm_content msg)"

definition estimate_tokens :: "(json \<Rightarrow> string) \<Rightarrow> chat_message list \<Rightarrow> nat" where
  "estimate_tokens ser msgs = sum_list (map (\<lambda>m. estimate_tokens_for_message ser m (message_has_tool_use m)) msgs)"

definition div_ceil :: "nat \<Rightarrow> nat \<Rightarrow> nat" where
  "div_ceil a b = (a + b - 1) div b"

definition estimate_text_tokens_conservative :: "string \<Rightarrow> nat" where
  "estimate_text_tokens_conservative text = div_ceil (length text) 3"

fun estimate_system_tokens_conservative :: "system_prompt option \<Rightarrow> nat" where
  "estimate_system_tokens_conservative None = 0"
| "estimate_system_tokens_conservative (Some (SystemText text)) = estimate_text_tokens_conservative text"
| "estimate_system_tokens_conservative (Some (SystemBlocks bs)) =
     sum_list (map (\<lambda>b. estimate_text_tokens_conservative (sb_text b)) bs)"

definition estimate_input_tokens_conservative :: "(json \<Rightarrow> string) \<Rightarrow> chat_message list \<Rightarrow> system_prompt option \<Rightarrow> nat" where
  "estimate_input_tokens_conservative ser msgs system =
     div_ceil (estimate_tokens ser msgs * 3) 2 + estimate_system_tokens_conservative system + (length msgs * 12 + 48)"

definition should_compact ::
  "compaction_env \<Rightarrow> chat_message list \<Rightarrow> compaction_config \<Rightarrow> nat list option \<Rightarrow> string list option \<Rightarrow> bool" where
  "should_compact env msgs config pins paths =
     (if \<not> cc_enabled config then False
      else let plan = plan_compaction env msgs KEEP_RECENT_MESSAGES pins paths;
               tokens = (\<lambda>i. estimate_tokens_for_message (ce_ser env) (msgs ! i) False);
               pinned_tokens = sum_list (map tokens (filter (\<lambda>i. i \<in> cp_pinned plan) [0..<length msgs]));
               token_estimate = sum_list (map tokens (cp_summarize plan));
               message_count = length (cp_summarize plan);
               effective = cc_token_threshold config - pinned_tokens
        in if effective = 0 then MIN_SUMMARIZE_MESSAGES \<le> message_count
           else if message_count < MIN_SUMMARIZE_MESSAGES then False
           else effective < token_estimate)"

section \<open>The rounds on sets\<close>

text \<open>What one round removes and adds, on the set of the needs of every message.\<close>

definition drops :: "(nat \<Rightarrow> nat option set) \<Rightarrow> nat set \<Rightarrow> nat set \<Rightarrow> nat \<Rightarrow> bool" where
  "drops N P D i \<longleftrightarrow> i \<in> P \<and> (None \<in> N i \<or> (\<exists>j. Some j \<in> N i \<and> j \<in> D))"

definition wants :: "(nat \<Rightarrow> nat option set) \<Rightarrow> nat set \<Rightarrow> nat set \<Rightarrow> nat \<Rightarrow> bool" where
  "wants N P D j \<longleftrightarrow> j \<notin> D \<and> (\<exists>i \<in> P. Some j \<in> N i)"

definition next_pins :: "(nat \<Rightarrow> nat option set) \<Rightarrow> nat set \<times> nat set \<Rightarrow> nat set \<times> nat set" where
  "next_pins N s = (case s of (P, D) \<Rightarrow>
     ({i. (i \<in> P \<or> wants N P D i) \<and> \<not> drops N P D i}, D \<union> {i. drops N P D i}))"

lemma removal_test:
  "(\<exists>t \<in> T. (case t of Some j \<Rightarrow> if j \<in> D then Some i else None | None \<Rightarrow> Some i) = Some k)
     \<longleftrightarrow> k = i \<and> (None \<in> T \<or> (\<exists>j. Some j \<in> T \<and> j \<in> D))"
proof -
  have "(case t of Some j \<Rightarrow> if j \<in> D then Some i else None | None \<Rightarrow> Some i) = Some k
      \<longleftrightarrow> k = i \<and> (t = None \<or> (\<exists>j. t = Some j \<and> j \<in> D))" for t
    by (cases t) auto
  then show ?thesis by auto
qed

lemma addition_test:
  "(\<exists>t \<in> T. (case t of Some j \<Rightarrow> if j \<in> D then None else Some j | None \<Rightarrow> None) = Some k) \<longleftrightarrow> Some k \<in> T \<and> k \<notin> D"
proof -
  have "(case t of Some j \<Rightarrow> if j \<in> D then None else Some j | None \<Rightarrow> None) = Some k \<longleftrightarrow> t = Some k \<and> k \<notin> D" for t
    by (cases t) auto
  then show ?thesis by auto
qed

lemma in_map_filter: "y \<in> set (List.map_filter f xs) \<longleftrightarrow> (\<exists>x \<in> set xs. f x = Some y)"
  by (induction xs) (auto simp: map_filter_simps split: option.split)

lemma round_lists:
  assumes "P \<subseteq> {..<n}"
  shows "set (concat (map (\<lambda>i. List.map_filter
             (\<lambda>t. case t of Some j \<Rightarrow> if j \<in> D then Some i else None | None \<Rightarrow> Some i) (needs i)) (filter (\<lambda>i. i \<in> P) [0..<n])))
     = {i. drops (set \<circ> needs) P D i}"
    "set (concat (map (\<lambda>i. List.map_filter
             (\<lambda>t. case t of Some j \<Rightarrow> if j \<in> D then None else Some j | None \<Rightarrow> None) (needs i)) (filter (\<lambda>i. i \<in> P) [0..<n])))
     = {j. wants (set \<circ> needs) P D j}"
  using assms
  by (auto simp: set_eq_iff in_map_filter removal_test addition_test drops_def wants_def)

lemma pair_round_sets:
  assumes "P \<subseteq> {..<n}"
  shows "fst (pair_round n needs (P, D)) = next_pins (set \<circ> needs) (P, D)"
    "snd (pair_round n needs (P, D)) \<longleftrightarrow> fst (next_pins (set \<circ> needs) (P, D)) \<noteq> P"
proof -
  note lists = round_lists [OF assms, where D = D and needs = needs]
  have in_P: "drops (set \<circ> needs) P D i \<Longrightarrow> i \<in> P" for i by (simp add: drops_def)
  show "fst (pair_round n needs (P, D)) = next_pins (set \<circ> needs) (P, D)"
    unfolding pair_round_def next_pins_def Let_def prod.case fst_conv set_filter lists using in_P by auto
  show "snd (pair_round n needs (P, D)) \<longleftrightarrow> fst (next_pins (set \<circ> needs) (P, D)) \<noteq> P"
    unfolding pair_round_def next_pins_def Let_def prod.case fst_conv snd_conv filter_empty_conv set_filter lists
    using in_P by auto
qed

text \<open>Needs stay among the messages.\<close>

definition needs_within :: "nat \<Rightarrow> (nat \<Rightarrow> nat option set) \<Rightarrow> bool" where
  "needs_within n N \<longleftrightarrow> (\<forall>i j. Some j \<in> N i \<longrightarrow> j < n)"

lemma next_pins_within: "needs_within n N \<Longrightarrow> P \<subseteq> {..<n} \<Longrightarrow> fst (next_pins N (P, D)) \<subseteq> {..<n}"
  by (auto simp: needs_within_def next_pins_def wants_def)

text \<open>Every rest of rounds in which nothing changes gives pins that need nothing more.\<close>

definition settled :: "(nat \<Rightarrow> nat option set) \<Rightarrow> nat set \<Rightarrow> bool" where
  "settled N P \<longleftrightarrow> (\<forall>i \<in> P. \<forall>t \<in> N i. \<exists>j \<in> P. t = Some j)"

lemma unchanged_settled:
  assumes "fst (next_pins N (P, D)) = P"
  shows "settled N P"
proof -
  have none: "\<not> drops N P D i" if "i \<in> P" for i
    using assms that by (auto simp: next_pins_def)
  have wanted: "j \<in> P" if "wants N P D j" for j
    using assms that none by (auto simp: next_pins_def drops_def)
  show ?thesis
    unfolding settled_def
  proof (intro ballI)
    fix i t assume i: "i \<in> P" "t \<in> N i"
    show "\<exists>j \<in> P. t = Some j"
    proof (cases t)
      case (Some j)
      then have "wants N P D j" using none i by (auto simp: wants_def drops_def)
      then show ?thesis using wanted Some by blast
    qed (use none i in \<open>auto simp: drops_def\<close>)
  qed
qed

lemma pair_loop_settled:
  "needs_within n (set \<circ> needs) \<Longrightarrow> P \<subseteq> {..<n} \<Longrightarrow> pair_loop k n needs (P, D) = (Q, True) \<Longrightarrow>
   Q \<subseteq> {..<n} \<and> settled (set \<circ> needs) Q"
proof (induction k arbitrary: P D)
  case (Suc k)
  obtain P' D' where round: "next_pins (set \<circ> needs) (P, D) = (P', D')" by force
  have first: "pair_round n needs (P, D) = ((P', D'), P' \<noteq> P)"
    using pair_round_sets [OF Suc.prems(2), where D = D and needs = needs] round
    by (cases "pair_round n needs (P, D)") simp
  have within: "P' \<subseteq> {..<n}" using next_pins_within [OF Suc.prems(1,2), of D] unfolding round by simp
  show ?case
  proof (cases "P' = P")
    case True
    then show ?thesis using Suc.prems first round unchanged_settled [of "set \<circ> needs" P D] by (simp add: comp_def)
  next
    case False
    then show ?thesis using Suc.IH [OF Suc.prems(1) within] Suc.prems(3) first by simp
  qed
qed simp

section \<open>Conversations in turns\<close>

text \<open>
  The calls and the results of a conversation: a message of calls needs results that need only it, a message of results
  one message of calls, and all others need nothing.
\<close>

definition star :: "nat set \<Rightarrow> (nat \<Rightarrow> nat option set) \<Rightarrow> bool" where
  "star C N \<longleftrightarrow> (\<forall>c \<in> C. \<forall>j. Some j \<in> N c \<longrightarrow> j \<notin> C \<and> N j = {Some c})
     \<and> (\<forall>r. r \<notin> C \<longrightarrow> N r = {} \<or> N r = {None} \<or> (\<exists>c \<in> C. N r = {Some c}))"

lemma star_call: "star C N \<Longrightarrow> c \<in> C \<Longrightarrow> Some j \<in> N c \<Longrightarrow> j \<notin> C \<and> N j = {Some c}"
  unfolding star_def by blast

lemma star_result:
  assumes "star C N" and "r \<notin> C" and "t \<in> N r"
  shows "t = None \<and> N r = {None} \<or> (\<exists>c \<in> C. t = Some c \<and> N r = {Some c})"
proof -
  have "N r = {} \<or> N r = {None} \<or> (\<exists>c \<in> C. N r = {Some c})" using assms(1,2) unfolding star_def by blast
  then show ?thesis using assms(3) by auto
qed

text \<open>What holds after any number of rounds: only messages of broken calls are removed, and none of those is pinned.\<close>

definition broken :: "nat set \<Rightarrow> (nat \<Rightarrow> nat option set) \<Rightarrow> nat \<Rightarrow> bool" where
  "broken C N i \<longleftrightarrow> (if i \<in> C then None \<in> N i else N i = {None} \<or> (\<exists>c \<in> C. N i = {Some c} \<and> None \<in> N c))"

definition removal_ok :: "nat set \<Rightarrow> (nat \<Rightarrow> nat option set) \<Rightarrow> nat set \<times> nat set \<Rightarrow> bool" where
  "removal_ok C N s \<longleftrightarrow> fst s \<inter> snd s = {} \<and> (\<forall>i \<in> snd s. broken C N i)"

lemma removal_ok_next:
  assumes star: "star C N" and ok: "removal_ok C N (P, D)"
  shows "removal_ok C N (next_pins N (P, D))"
proof -
  have "broken C N i" if drop: "drops N P D i" for i
  proof (cases "i \<in> C")
    case True
    consider "None \<in> N i" | j where "Some j \<in> N i" "j \<in> D" using drop by (auto simp: drops_def)
    then show ?thesis
    proof cases
      case 2
      have "j \<notin> C" "N j = {Some i}" using star_call [OF star True 2(1)] by auto
      moreover have "broken C N j" using ok 2(2) by (simp add: removal_ok_def)
      ultimately show ?thesis using True by (simp add: broken_def)
    qed (use True in \<open>simp add: broken_def\<close>)
  next
    case False
    obtain t where t: "t \<in> N i" "t = None \<or> (\<exists>j. t = Some j \<and> j \<in> D)" using drop by (auto simp: drops_def)
    from star_result [OF star False t(1)] show ?thesis
    proof
      assume "\<exists>c \<in> C. t = Some c \<and> N i = {Some c}"
      then obtain c where c: "c \<in> C" "t = Some c" "N i = {Some c}" by blast
      then have "broken C N c" using ok t(2) by (simp add: removal_ok_def)
      then show ?thesis using c(1,3) False by (auto simp: broken_def)
    qed (use False in \<open>simp add: broken_def\<close>)
  qed
  moreover have "fst (next_pins N (P, D)) \<inter> snd (next_pins N (P, D)) = {}"
    using ok by (auto simp: removal_ok_def next_pins_def wants_def)
  ultimately show ?thesis
    using ok by (auto simp: removal_ok_def next_pins_def)
qed

text \<open>A pin is added only for its counterpart.\<close>

lemma wants_star:
  assumes star: "star C N" and "wants N P D j"
  shows "if j \<in> C then \<exists>r \<in> P. r \<notin> C \<and> N r = {Some j} else \<exists>c \<in> P. c \<in> C \<and> Some j \<in> N c \<and> N j = {Some c}"
proof -
  obtain i where i: "i \<in> P" "Some j \<in> N i" using assms(2) by (auto simp: wants_def)
  show ?thesis
  proof (cases "i \<in> C")
    case True
    then show ?thesis using star_call [OF star True i(2)] i by auto
  next
    case False
    then show ?thesis using star_result [OF star False i(2)] i by auto
  qed
qed

lemma no_lone_result:
  assumes "star C N" and "r \<notin> C" and "N r = {None}"
  shows "r \<notin> fst (next_pins N (P, D))"
  using wants_star [OF assms(1), of P D r] assms(2,3) by (auto simp: next_pins_def drops_def)

text \<open>A broken call is gone after two rounds, its results after three.\<close>

definition untouched :: "(nat \<Rightarrow> nat option set) \<Rightarrow> nat \<Rightarrow> nat set \<Rightarrow> bool" where
  "untouched N c P \<longleftrightarrow> c \<notin> P \<and> (\<forall>r \<in> P. N r \<noteq> {Some c})"

lemma untouched_stays:
  assumes star: "star C N" and "c \<in> C" and "untouched N c P"
  shows "untouched N c (fst (next_pins N (P, D)))"
proof -
  have "\<not> wants N P D c" using wants_star [OF star, of P D c] assms(2,3) by (auto simp: untouched_def)
  moreover have "N r \<noteq> {Some c}" if "wants N P D r" for r
  proof (cases "r \<in> C")
    case True
    then show ?thesis using star_call [OF star True, of c] assms(2) by auto
  next
    case False
    then show ?thesis using wants_star [OF star that] assms(3) by (auto simp: untouched_def)
  qed
  ultimately show ?thesis using assms(3) by (auto simp: untouched_def next_pins_def)
qed

lemma removed_call:
  assumes star: "star C N" and "removal_ok C N (P, D)" and "c \<in> C" and "c \<in> D"
  shows "c \<in> snd (next_pins N (P, D)) \<and> untouched N c (fst (next_pins N (P, D)))"
proof -
  have c: "c \<notin> P" using assms(2,4) by (auto simp: removal_ok_def)
  have "N r \<noteq> {Some c}" if r: "r \<in> P \<or> wants N P D r" "\<not> drops N P D r" for r
  proof
    assume N: "N r = {Some c}"
    then have "r \<notin> P" using r(2) assms(4) by (auto simp: drops_def)
    then have wants: "wants N P D r" using r(1) by simp
    show False
    proof (cases "r \<in> C")
      case True
      then show ?thesis using star_call [OF star True, of c] N assms(3) by auto
    next
      case False
      then show ?thesis using wants_star [OF star wants] N c by auto
    qed
  qed
  then show ?thesis using c assms(4) by (auto simp: untouched_def next_pins_def wants_def)
qed

lemma broken_call_removed:
  assumes star: "star C N" and "c \<in> C" and "None \<in> N c" and s1: "next_pins N (P, {}) = (P1, D1)"
    and s2: "next_pins N (P1, D1) = (P2, D2)" and s3: "next_pins N (P2, D2) = (P3, D3)"
  shows "untouched N c P3"
proof -
  have ok1: "removal_ok C N (P1, D1)" using removal_ok_next [OF star, of P "{}"] s1 by (simp add: removal_ok_def)
  have ok2: "removal_ok C N (P2, D2)" using removal_ok_next [OF star ok1] s2 by simp
  have gone: "c \<in> D2 \<Longrightarrow> untouched N c P3" using removed_call [OF star ok2 assms(2)] s3 by simp
  consider "c \<in> P" | "c \<notin> P" "c \<in> P1" | "c \<notin> P" "c \<notin> P1" by blast
  then show ?thesis
  proof cases
    case 1
    then have "c \<in> D1" using s1 assms(3) by (auto simp: next_pins_def drops_def)
    then show ?thesis using removed_call [OF star ok1 assms(2)] s2 gone by simp
  next
    case 2
    then have "c \<in> D2" using s2 assms(3) by (auto simp: next_pins_def drops_def)
    then show ?thesis by (rule gone)
  next
    case 3
    have "N r \<noteq> {Some c}" if "r \<in> P" for r
      using that 3 s1 assms(2) by (auto simp: next_pins_def wants_def drops_def)
    then have "untouched N c P" using 3 by (simp add: untouched_def)
    then show ?thesis
      using untouched_stays [OF star assms(2), of P "{}"] untouched_stays [OF star assms(2), of P1 D1]
        untouched_stays [OF star assms(2), of P2 D2] s1 s2 s3 by simp
  qed
qed

text \<open>After three rounds nothing more is removed and nothing more is needed.\<close>

lemma kept_call:
  assumes star: "star C N" and "removal_ok C N (P, D)" and "c \<in> C" and "None \<notin> N c"
  shows "\<not> drops N P D c" and "c \<notin> D"
proof -
  have intact: "\<not> broken C N c" using assms(3,4) by (simp add: broken_def)
  then show "c \<notin> D" using assms(2) by (auto simp: removal_ok_def)
  have "j \<notin> D" if "Some j \<in> N c" for j
  proof
    assume "j \<in> D"
    then have "broken C N j" using assms(2) by (simp add: removal_ok_def)
    then show False using star_call [OF star assms(3) that] assms(4) by (simp add: broken_def)
  qed
  then show "\<not> drops N P D c" using assms(4) by (auto simp: drops_def)
qed

lemma kept_result:
  assumes star: "star C N" and "removal_ok C N (P, D)" and "c \<in> C" and "None \<notin> N c" and "r \<notin> C" and "N r = {Some c}"
  shows "\<not> drops N P D r" and "r \<notin> D"
  using kept_call [OF assms(1-4)] assms by (auto simp: drops_def removal_ok_def broken_def)

lemma result_keeps_its_call:
  assumes star: "star C N" and ok: "removal_ok C N (P, D)" and c: "c \<in> C" "None \<notin> N c"
    and r: "r \<in> fst (next_pins N (P, D))" "r \<notin> C" "N r = {Some c}"
  shows "c \<in> fst (next_pins N (P, D))"
proof (cases "r \<in> P")
  case True
  then have "wants N P D c" using kept_call(2) [OF star ok c] r(3) by (auto simp: wants_def)
  then show ?thesis using kept_call(1) [OF star ok c] by (simp add: next_pins_def)
next
  case False
  then have "wants N P D r" using r(1) by (simp add: next_pins_def)
  from wants_star [OF star this] have "c \<in> P" using r(2,3) by auto
  then show ?thesis using kept_call(1) [OF star ok c] by (simp add: next_pins_def)
qed

lemma call_keeps_its_results:
  assumes star: "star C N" and ok: "removal_ok C N (P, D)" and c: "c \<in> C" "None \<notin> N c"
    and "c \<in> P" "Some r \<in> N c"
  shows "r \<in> fst (next_pins N (P, D))"
proof -
  have r: "r \<notin> C" "N r = {Some c}" using star_call [OF star c(1) assms(6)] by auto
  then have "wants N P D r" using kept_result(2) [OF star ok c r] assms(5,6) by (auto simp: wants_def)
  then show ?thesis using kept_result(1) [OF star ok c r] by (simp add: next_pins_def)
qed

lemma late_call_has_its_results:
  assumes star: "star C N" and ok: "removal_ok C N (P, D)" and c: "c \<in> C" "None \<notin> N c"
    and s1: "next_pins N (P, D) = (P1, D1)" and s2: "next_pins N (P1, D1) = (P2, D2)"
    and "c \<in> P2" and "Some r \<in> N c"
  shows "r \<in> P2"
proof -
  have ok1: "removal_ok C N (P1, D1)" using removal_ok_next [OF star ok] s1 by simp
  have "c \<in> P1"
  proof (rule ccontr)
    assume late: "c \<notin> P1"
    then have "wants N P1 D1 c" using assms(7) s2 by (auto simp: next_pins_def)
    from wants_star [OF star this] obtain r' where "r' \<in> P1" "r' \<notin> C" "N r' = {Some c}" using c(1) by auto
    then show False using result_keeps_its_call [OF star ok c, of r'] s1 late by simp
  qed
  then show ?thesis using call_keeps_its_results [OF star ok1 c _ assms(8)] s2 by simp
qed

lemma three_rounds_settle:
  assumes star: "star C N" and s1: "next_pins N (P, {}) = (P1, D1)"
    and s2: "next_pins N (P1, D1) = (P2, D2)" and s3: "next_pins N (P2, D2) = (P3, D3)"
  shows "settled N P3"
  unfolding settled_def
proof (intro ballI)
  fix i t assume i: "i \<in> P3" "t \<in> N i"
  have ok1: "removal_ok C N (P1, D1)" using removal_ok_next [OF star, of P "{}"] s1 by (simp add: removal_ok_def)
  have ok2: "removal_ok C N (P2, D2)" using removal_ok_next [OF star ok1] s2 by simp
  have intact: "None \<notin> N c" if "c \<in> C" "c \<in> P3 \<or> (\<exists>r \<in> P3. N r = {Some c})" for c
    using broken_call_removed [OF star that(1) _ s1 s2 s3] that(2) by (auto simp: untouched_def)
  show "\<exists>j \<in> P3. t = Some j"
  proof (cases "i \<in> C")
    case True
    then have whole: "None \<notin> N i" using intact i(1) by blast
    then obtain j where j: "t = Some j" using i(2) by (cases t) auto
    then show ?thesis using late_call_has_its_results [OF star ok1 True whole s2 s3 i(1)] i(2) by blast
  next
    case False
    from star_result [OF star False i(2)] show ?thesis
    proof
      assume "t = None \<and> N i = {None}"
      then show ?thesis using no_lone_result [OF star False, of P2 D2] s3 i(1) by simp
    next
      assume "\<exists>c \<in> C. t = Some c \<and> N i = {Some c}"
      then obtain c where c: "c \<in> C" "t = Some c" "N i = {Some c}" by blast
      then have "None \<notin> N c" using intact i(1) by blast
      then show ?thesis using result_keeps_its_call [OF star ok2 c(1) _ _ False c(3)] s3 i(1) c(2) by simp
    qed
  qed
qed

lemma settled_unchanged:
  assumes "settled N P" and "P \<inter> D = {}"
  shows "fst (next_pins N (P, D)) = P"
  using assms by (auto simp: settled_def next_pins_def wants_def drops_def; fastforce)

lemma pair_loop_star:
  assumes star: "star C (set \<circ> needs)" and within: "needs_within n (set \<circ> needs)" and "P \<subseteq> {..<n}" and "4 \<le> k"
  shows "snd (pair_loop k n needs (P, {}))"
proof -
  obtain P1 D1 where s1: "next_pins (set \<circ> needs) (P, {}) = (P1, D1)" by force
  obtain P2 D2 where s2: "next_pins (set \<circ> needs) (P1, D1) = (P2, D2)" by force
  obtain P3 D3 where s3: "next_pins (set \<circ> needs) (P2, D2) = (P3, D3)" by force
  have P1: "P1 \<subseteq> {..<n}" using next_pins_within [OF within assms(3), of "{}"] unfolding s1 by simp
  have P2: "P2 \<subseteq> {..<n}" using next_pins_within [OF within P1, of D1] unfolding s2 by simp
  have P3: "P3 \<subseteq> {..<n}" using next_pins_within [OF within P2, of D2] unfolding s3 by simp
  have ok1: "removal_ok C (set \<circ> needs) (P1, D1)" using removal_ok_next [OF star, of P "{}"] s1 by (simp add: removal_ok_def)
  have ok2: "removal_ok C (set \<circ> needs) (P2, D2)" using removal_ok_next [OF star ok1] s2 by simp
  have ok3: "removal_ok C (set \<circ> needs) (P3, D3)" using removal_ok_next [OF star ok2] s3 by simp
  have rest: "fst (next_pins (set \<circ> needs) (P3, D3)) = P3"
    using settled_unchanged [OF three_rounds_settle [OF star s1 s2 s3]] ok3 by (simp add: removal_ok_def)
  have round: "pair_round n needs (Q, D) = (next_pins (set \<circ> needs) (Q, D), fst (next_pins (set \<circ> needs) (Q, D)) \<noteq> Q)"
    if "Q \<subseteq> {..<n}" for Q D
    using pair_round_sets [OF that, where D = D and needs = needs] by (cases "pair_round n needs (Q, D)") simp
  obtain k' where k: "k = Suc (Suc (Suc (Suc k')))" using assms(4) by (auto simp: numeral_eq_Suc le_iff_add)
  show ?thesis
    unfolding k pair_loop.simps round [OF assms(3)] s1 round [OF P1] s2 round [OF P2] s3 round [OF P3] rest prod.case fst_conv
    by simp
qed

text \<open>The ids of the calls and results in a message.\<close>

fun call_id :: "content_block \<Rightarrow> string option" where
  "call_id (ToolUseBlock tid name input caller) = Some tid"
| "call_id b = None"

fun result_id :: "content_block \<Rightarrow> string option" where
  "result_id (ToolResultBlock tid content err blocks) = Some tid"
| "result_id b = None"

definition call_ids :: "chat_message \<Rightarrow> string list" where
  "call_ids msg = List.map_filter call_id (cm_content msg)"

definition result_ids :: "chat_message \<Rightarrow> string list" where
  "result_ids msg = List.map_filter result_id (cm_content msg)"

text \<open>
  A conversation as the engine writes it: call ids are not repeated, a message has calls or one result but not both,
  and a text of the user has neither.
\<close>

definition in_turns :: "chat_message list \<Rightarrow> bool" where
  "in_turns msgs \<longleftrightarrow> distinct (concat (map call_ids msgs))
     \<and> list_all (\<lambda>m. length (result_ids m) \<le> 1 \<and> (result_ids m = [] \<or> call_ids m = [])
         \<and> (is_user_text_query m \<longrightarrow> result_ids m = [] \<and> call_ids m = [])) msgs"

lemma fold_note_call:
  "fold (note_call idx) bs m tid = (if tid \<in> set (List.map_filter call_id bs) then Some idx else m tid)"
proof (induction bs arbitrary: m)
  case (Cons b bs)
  then show ?case by (cases b) (simp_all add: map_filter_simps)
qed (simp add: map_filter_simps)

lemma fold_note_result:
  "fold (note_result idx) bs m tid = (if tid \<in> set (List.map_filter result_id bs) then Some idx else m tid)"
proof (induction bs arbitrary: m)
  case (Cons b bs)
  then show ?case by (cases b) (simp_all add: map_filter_simps)
qed (simp add: map_filter_simps)

lemma id_to_idx_step:
  "call_id_to_idx (msgs @ [m]) tid = (if tid \<in> set (call_ids m) then Some (length msgs) else call_id_to_idx msgs tid)"
  "result_id_to_idx (msgs @ [m]) tid = (if tid \<in> set (result_ids m) then Some (length msgs) else result_id_to_idx msgs tid)"
  by (simp_all add: call_id_to_idx_def result_id_to_idx_def enumerate_append_eq fold_note_call fold_note_result
      call_ids_def result_ids_def)

lemma call_index:
  "call_id_to_idx msgs tid = Some j \<Longrightarrow> j < length msgs \<and> tid \<in> set (call_ids (msgs ! j))"
  "call_id_to_idx msgs tid = None \<Longrightarrow> j < length msgs \<Longrightarrow> tid \<notin> set (call_ids (msgs ! j))"
proof (induction msgs arbitrary: j rule: rev_induct)
  case (snoc m msgs)
  { case 1 then show ?case using snoc by (force simp: id_to_idx_step nth_append split: if_splits) }
  { case 2 then show ?case using snoc by (force simp: id_to_idx_step nth_append less_Suc_eq split: if_splits) }
qed (simp_all add: call_id_to_idx_def)

lemma result_index:
  "result_id_to_idx msgs tid = Some j \<Longrightarrow> j < length msgs \<and> tid \<in> set (result_ids (msgs ! j))"
proof (induction msgs arbitrary: j rule: rev_induct)
  case (snoc m msgs)
  then show ?case by (force simp: id_to_idx_step nth_append split: if_splits)
qed (simp add: result_id_to_idx_def)

lemma distinct_concat_nth:
  assumes "distinct (concat xss)" and "i < length xss" and "j < length xss" and "x \<in> set (xss ! i)" and "x \<in> set (xss ! j)"
  shows "i = j"
  using assms
proof (induction xss arbitrary: i j)
  case (Cons ys xss)
  have "x \<notin> set ys" if "k < length xss" "x \<in> set (xss ! k)" for k
    using Cons.prems(1) that nth_mem [of k xss] by fastforce
  then show ?case using Cons by (cases i; cases j) auto
qed simp

lemma call_index_unique:
  assumes "distinct (concat (map call_ids msgs))" and "i < length msgs" and "tid \<in> set (call_ids (msgs ! i))"
  shows "call_id_to_idx msgs tid = Some i"
proof (cases "call_id_to_idx msgs tid")
  case None
  then show ?thesis using call_index(2) [OF None assms(2)] assms(3) by simp
next
  case (Some j)
  then show ?thesis
    using call_index(1) [OF Some] distinct_concat_nth [OF assms(1), of i j tid] assms(2,3) by simp
qed

lemma message_needs_set:
  "set (message_needs msgs i) = call_id_to_idx msgs ` set (result_ids (msgs ! i)) \<union> result_id_to_idx msgs ` set (call_ids (msgs ! i))"
proof -
  have "set (List.map_filter (block_needs calls results) bs)
      = calls ` set (List.map_filter result_id bs) \<union> results ` set (List.map_filter call_id bs)" for calls results bs
  proof (induction bs)
    case (Cons b bs)
    then show ?case by (cases b) (auto simp: map_filter_simps)
  qed (simp add: map_filter_simps)
  then show ?thesis by (simp add: message_needs_def call_ids_def result_ids_def)
qed

lemma needs_within_messages: "needs_within n (set \<circ> message_needs msgs)" if "n = length msgs"
  using call_index(1) result_index that by (fastforce simp: needs_within_def message_needs_set)

definition call_messages :: "chat_message list \<Rightarrow> nat set" where
  "call_messages msgs = {i. i < length msgs \<and> call_ids (msgs ! i) \<noteq> []}"

text \<open>The needs of the messages of a conversation, none beyond its end.\<close>

definition needs_of :: "chat_message list \<Rightarrow> nat \<Rightarrow> nat option list" where
  "needs_of msgs i = (if i < length msgs then message_needs msgs i else [])"

lemma pair_round_cong:
  assumes "\<And>i. i < n \<Longrightarrow> f i = g i"
  shows "pair_round n f s = pair_round n g s"
proof -
  have "map (\<lambda>i. List.map_filter (h i) (f i)) (filter P [0..<n]) = map (\<lambda>i. List.map_filter (h i) (g i)) (filter P [0..<n])"
    for h :: "nat \<Rightarrow> nat option \<Rightarrow> nat option" and P
    using assms by (intro map_cong) auto
  then show ?thesis unfolding pair_round_def Let_def by (simp only:)
qed

lemma pair_loop_cong: "(\<And>i. i < n \<Longrightarrow> f i = g i) \<Longrightarrow> pair_loop k n f s = pair_loop k n g s"
proof (induction k arbitrary: s)
  case (Suc k)
  show ?case by (simp only: pair_loop.simps pair_round_cong [OF Suc.prems] Suc.IH [OF Suc.prems])
qed simp

lemma pair_loop_needs_of:
  "pair_loop k (length msgs) (message_needs msgs) s = pair_loop k (length msgs) (needs_of msgs) s"
  by (rule pair_loop_cong) (simp add: needs_of_def)

lemma needs_of_within: "needs_within (length msgs) (set \<circ> needs_of msgs)"
  using needs_within_messages [OF refl, of msgs] by (auto simp: needs_within_def needs_of_def)

lemma in_turns_nth:
  assumes "in_turns msgs" and "i < length msgs"
  shows "length (result_ids (msgs ! i)) \<le> 1" and "result_ids (msgs ! i) = [] \<or> call_ids (msgs ! i) = []"
    and "is_user_text_query (msgs ! i) \<Longrightarrow> result_ids (msgs ! i) = [] \<and> call_ids (msgs ! i) = []"
  using assms by (auto simp: in_turns_def list_all_length)

lemma in_turns_star:
  assumes turns: "in_turns msgs"
  shows "star (call_messages msgs) (set \<circ> needs_of msgs)"
  unfolding star_def
proof (intro conjI ballI allI impI)
  have calls: "distinct (concat (map call_ids msgs))" using turns by (simp add: in_turns_def)
  fix c j assume c: "c \<in> call_messages msgs" and j: "Some j \<in> (set \<circ> needs_of msgs) c"
  then have "c < length msgs" "call_ids (msgs ! c) \<noteq> []" "result_ids (msgs ! c) = []"
    using in_turns_nth(2) [OF turns, of c] by (auto simp: call_messages_def)
  then obtain tid where tid: "tid \<in> set (call_ids (msgs ! c))" "result_id_to_idx msgs tid = Some j"
    using j by (auto simp: needs_of_def message_needs_set)
  have r: "j < length msgs" "tid \<in> set (result_ids (msgs ! j))" using result_index [OF tid(2)] by auto
  then have only: "result_ids (msgs ! j) = [tid]" "call_ids (msgs ! j) = []"
    using in_turns_nth(1,2) [OF turns r(1)] by (cases "result_ids (msgs ! j)"; auto)+
  show "j \<notin> call_messages msgs" using only(2) by (simp add: call_messages_def)
  show "(set \<circ> needs_of msgs) j = {Some c}"
    using only r(1) call_index_unique [OF calls \<open>c < length msgs\<close> tid(1)] by (simp add: needs_of_def message_needs_set)
next
  fix r assume r: "r \<notin> call_messages msgs"
  show "(set \<circ> needs_of msgs) r = {} \<or> (set \<circ> needs_of msgs) r = {None}
      \<or> (\<exists>c \<in> call_messages msgs. (set \<circ> needs_of msgs) r = {Some c})"
  proof (cases "r < length msgs")
    case True
    then have no_calls: "call_ids (msgs ! r) = []" using r by (simp add: call_messages_def)
    show ?thesis
    proof (cases "result_ids (msgs ! r)")
      case Nil
      then show ?thesis using no_calls by (simp add: needs_of_def message_needs_set)
    next
      case (Cons tid rest)
      then have needs: "set (needs_of msgs r) = {call_id_to_idx msgs tid}"
        using in_turns_nth(1) [OF turns True] True no_calls by (simp add: needs_of_def message_needs_set)
      show ?thesis
      proof (cases "call_id_to_idx msgs tid")
        case (Some c)
        then have "c \<in> call_messages msgs"
          using call_index(1) [OF Some] by (cases "call_ids (msgs ! c)") (simp_all add: call_messages_def)
        moreover have "(set \<circ> needs_of msgs) r = {Some c}" using needs Some by simp
        ultimately show ?thesis by blast
      qed (use needs in simp)
    qed
  qed (simp add: needs_of_def)
qed

lemma pinned_before_pairs_within: "pinned_before_pairs env msgs keep pins paths \<subseteq> {..<length msgs}"
  by (auto simp: pinned_before_pairs_def Let_def split: option.split)

lemma enforced_loop:
  assumes "P \<subseteq> {..<length msgs}"
  shows "enforce_tool_call_pairs msgs P = pair_loop (max (length msgs) 10) (length msgs) (needs_of msgs) (P, {})"
proof (cases "P = {}")
  case True
  obtain k where k: "max (length msgs) 10 = Suc k" by (cases "max (length msgs) 10") auto
  have "pair_round (length msgs) (needs_of msgs) ({}, {}) = (({}, {}), False)" by (simp add: pair_round_def)
  then show ?thesis using True k by (simp add: enforce_tool_call_pairs_def)
qed (simp add: enforce_tool_call_pairs_def pair_loop_needs_of)

lemma enforced_pairs:
  assumes "in_turns msgs" and "P \<subseteq> {..<length msgs}"
  shows "snd (enforce_tool_call_pairs msgs P)"
    "fst (enforce_tool_call_pairs msgs P) \<subseteq> {..<length msgs}"
    "settled (set \<circ> needs_of msgs) (fst (enforce_tool_call_pairs msgs P))"
proof -
  note loop = enforced_loop [OF assms(2)]
  show ended: "snd (enforce_tool_call_pairs msgs P)"
    unfolding loop using pair_loop_star [OF in_turns_star [OF assms(1)] needs_of_within assms(2)] by simp
  then have "pair_loop (max (length msgs) 10) (length msgs) (needs_of msgs) (P, {})
      = (fst (enforce_tool_call_pairs msgs P), True)"
    unfolding loop by (simp add: prod_eq_iff)
  from pair_loop_settled [OF needs_of_within assms(2) this]
  show "fst (enforce_tool_call_pairs msgs P) \<subseteq> {..<length msgs}"
    "settled (set \<circ> needs_of msgs) (fst (enforce_tool_call_pairs msgs P))" by auto
qed

text \<open>The user query that is kept needs nothing.\<close>

lemma keep_user_query_result:
  obtains "keep_user_query msgs P = P" "(\<exists>m \<in> set msgs. is_user_text_query m) \<Longrightarrow> \<exists>i \<in> P. i < length msgs \<and> is_user_text_query (msgs ! i)"
  | i where "keep_user_query msgs P = insert i P" "i < length msgs" "is_user_text_query (msgs ! i)"
proof (cases "list_ex (\<lambda>i. i \<in> P \<and> is_user_text_query (msgs ! i)) [0..<length msgs]")
  case True
  then have "\<exists>i \<in> P. i < length msgs \<and> is_user_text_query (msgs ! i)" by (auto simp: list_ex_iff)
  then show ?thesis using that(1) True by (simp add: keep_user_query_def)
next
  case False
  show ?thesis
  proof (cases "find (\<lambda>i. is_user_text_query (msgs ! i)) (rev [0..<length msgs])")
    case None
    then have "\<not> is_user_text_query m" if "m \<in> set msgs" for m
      using that by (auto simp: find_None_iff in_set_conv_nth)
    then show ?thesis using that(1) False None by (simp add: keep_user_query_def)
  next
    case (Some i)
    then have "i < length msgs" "is_user_text_query (msgs ! i)" by (auto simp: find_Some_iff rev_nth)
    then show ?thesis using that(2) False Some by (simp add: keep_user_query_def)
  qed
qed

lemma planned_pins:
  assumes "in_turns msgs"
  shows "cp_pinned (plan_compaction env msgs keep pins paths) \<subseteq> {..<length msgs}"
    "settled (set \<circ> needs_of msgs) (cp_pinned (plan_compaction env msgs keep pins paths))"
proof -
  define P where "P = fst (enforce_tool_call_pairs msgs (pinned_before_pairs env msgs keep pins paths))"
  have P: "P \<subseteq> {..<length msgs}" "settled (set \<circ> needs_of msgs) P"
    using enforced_pairs [OF assms pinned_before_pairs_within] by (auto simp: P_def)
  have pins: "cp_pinned (plan_compaction env msgs keep pins paths) = (if msgs = [] then {} else keep_user_query msgs P)"
    by (simp add: plan_compaction_def P_def Let_def)
  have "keep_user_query msgs P \<subseteq> {..<length msgs} \<and> settled (set \<circ> needs_of msgs) (keep_user_query msgs P)"
  proof (cases rule: keep_user_query_result [where msgs = msgs and P = P])
    case (2 i)
    then have "set (needs_of msgs i) = {}"
      using in_turns_nth(3) [OF assms 2(2)] by (simp add: needs_of_def message_needs_set)
    then show ?thesis using 2 P by (auto simp: settled_def)
  qed (use P in simp)
  then show "cp_pinned (plan_compaction env msgs keep pins paths) \<subseteq> {..<length msgs}"
    "settled (set \<circ> needs_of msgs) (cp_pinned (plan_compaction env msgs keep pins paths))"
    using pins by (auto simp: settled_def)
qed

lemma plan_kept_pairs:
  assumes "in_turns msgs" and "i \<in> cp_pinned (plan_compaction env msgs keep pins paths)"
  shows "(\<forall>tid \<in> set (result_ids (msgs ! i)). \<exists>j \<in> cp_pinned (plan_compaction env msgs keep pins paths). tid \<in> set (call_ids (msgs ! j)))
    \<and> (\<forall>tid \<in> set (call_ids (msgs ! i)). \<exists>j \<in> cp_pinned (plan_compaction env msgs keep pins paths). tid \<in> set (result_ids (msgs ! j)))"
proof -
  define P where "P = cp_pinned (plan_compaction env msgs keep pins paths)"
  have i: "i \<in> P" "i < length msgs" using subsetD [OF planned_pins(1) [OF assms(1)] assms(2)] assms(2) by (auto simp: P_def)
  have met: "\<exists>j \<in> P. t = Some j" if "t \<in> set (message_needs msgs i)" for t
    using planned_pins(2) [OF assms(1), of env keep pins paths] i that by (auto simp: settled_def needs_of_def P_def [symmetric])
  have "\<exists>j \<in> P. tid \<in> set (call_ids (msgs ! j))" if "tid \<in> set (result_ids (msgs ! i))" for tid
    using met [of "call_id_to_idx msgs tid"] call_index(1) that by (auto simp: message_needs_set)
  moreover have "\<exists>j \<in> P. tid \<in> set (result_ids (msgs ! j))" if "tid \<in> set (call_ids (msgs ! i))" for tid
    using met [of "result_id_to_idx msgs tid"] result_index that by (auto simp: message_needs_set)
  ultimately show ?thesis by (simp add: P_def)
qed

text \<open>
  C13: In a conversation in turns the plan keeps no tool result without its call and no call without its results: for
  every kept message the calls of its results and the results of its calls are in kept messages.
\<close>

theorem plan_keeps_calls_with_results:
  assumes "in_turns msgs" and "i \<in> cp_pinned (plan_compaction env msgs keep pins paths)"
  shows "(\<forall>tid \<in> set (result_ids (msgs ! i)). \<exists>j \<in> cp_pinned (plan_compaction env msgs keep pins paths). tid \<in> set (call_ids (msgs ! j)))
    \<and> (\<forall>tid \<in> set (call_ids (msgs ! i)). \<exists>j \<in> cp_pinned (plan_compaction env msgs keep pins paths). tid \<in> set (result_ids (msgs ! j)))"
  by (rule plan_kept_pairs [OF assms])

text \<open>A message of a turn that has everything it needs.\<close>

definition answered :: "chat_message list \<Rightarrow> nat \<Rightarrow> bool" where
  "answered msgs i \<longleftrightarrow> list_all (\<lambda>tid. result_id_to_idx msgs tid \<noteq> None) (call_ids (msgs ! i))"

definition complete_turn :: "chat_message list \<Rightarrow> nat \<Rightarrow> bool" where
  "complete_turn msgs i \<longleftrightarrow> answered msgs i
     \<and> list_all (\<lambda>tid. case call_id_to_idx msgs tid of None \<Rightarrow> False | Some c \<Rightarrow> answered msgs c) (result_ids (msgs ! i))"

lemma complete_not_broken:
  assumes turns: "in_turns msgs" and "i < length msgs" and "complete_turn msgs i"
  shows "\<not> broken (call_messages msgs) (set \<circ> needs_of msgs) i"
proof -
  have none: "None \<notin> set (needs_of msgs c)" if "c \<in> call_messages msgs" "answered msgs c" for c
  proof -
    have "result_ids (msgs ! c) = []" "c < length msgs"
      using in_turns_nth(2) [OF turns, of c] that(1) by (auto simp: call_messages_def)
    then show ?thesis using that(2) by (auto simp: needs_of_def message_needs_set answered_def list_all_iff)
  qed
  show ?thesis
  proof (cases "i \<in> call_messages msgs")
    case True
    then show ?thesis using none [OF True] assms(3) by (simp add: broken_def complete_turn_def)
  next
    case False
    then have no_calls: "call_ids (msgs ! i) = []" using assms(2) by (simp add: call_messages_def)
    show ?thesis
    proof
      assume "broken (call_messages msgs) (set \<circ> needs_of msgs) i"
      then obtain t where t: "set (needs_of msgs i) = {t}"
        "t = None \<or> (\<exists>c \<in> call_messages msgs. t = Some c \<and> None \<in> set (needs_of msgs c))"
        using False by (auto simp: broken_def)
      then have "t \<in> call_id_to_idx msgs ` set (result_ids (msgs ! i))"
        using no_calls assms(2) by (simp add: needs_of_def message_needs_set)
      then obtain c where "t = Some c" "answered msgs c"
        using assms(3) by (auto simp: complete_turn_def list_all_iff split: option.splits)
      then show False using t(2) none by auto
    qed
  qed
qed

lemma drops_broken:
  assumes star: "star C N" and ok: "removal_ok C N (P, D)" and "drops N P D i"
  shows "broken C N i"
  using removal_ok_next [OF star ok] assms(3) by (auto simp: removal_ok_def next_pins_def)

lemma pair_loop_keeps:
  "star C (set \<circ> needs) \<Longrightarrow> removal_ok C (set \<circ> needs) (P, D) \<Longrightarrow> needs_within n (set \<circ> needs) \<Longrightarrow> P \<subseteq> {..<n} \<Longrightarrow>
   i \<in> P \<Longrightarrow> \<not> broken C (set \<circ> needs) i \<Longrightarrow> i \<in> fst (pair_loop k n needs (P, D))"
proof (induction k arbitrary: P D)
  case (Suc k)
  obtain P' D' where round: "next_pins (set \<circ> needs) (P, D) = (P', D')" by force
  have first: "pair_round n needs (P, D) = ((P', D'), P' \<noteq> P)"
    using pair_round_sets [OF Suc.prems(4), where D = D and needs = needs] round
    by (cases "pair_round n needs (P, D)") simp
  have stays: "i \<in> P'"
    using drops_broken [OF Suc.prems(1,2), of i] Suc.prems(5,6) round by (auto simp: next_pins_def comp_def)
  have within: "P' \<subseteq> {..<n}" using next_pins_within [OF Suc.prems(3,4), of D] unfolding round by simp
  have "removal_ok C (set \<circ> needs) (P', D')" using removal_ok_next [OF Suc.prems(1,2)] unfolding round .
  from Suc.IH [OF Suc.prems(1) this Suc.prems(3) within stays Suc.prems(6)] show ?case
    using first stays Suc.prems(5) by (cases "P' = P") simp_all
qed simp

lemma enforced_keeps:
  assumes "in_turns msgs" and "P \<subseteq> {..<length msgs}" and "i \<in> P" and "complete_turn msgs i"
  shows "i \<in> fst (enforce_tool_call_pairs msgs P)"
  unfolding enforced_loop [OF assms(2)]
  using pair_loop_keeps [OF in_turns_star [OF assms(1)] _ needs_of_within assms(2,3)]
    complete_not_broken [OF assms(1) _ assms(4)] assms(2,3) by (auto simp: removal_ok_def)

text \<open>
  C38: The plan of a conversation in turns keeps every complete turn of the recent messages and of the external pins, and
  a text of the user if there is one; what it does not keep is summarised, in order, each message once.
\<close>

theorem plan_keeps_what_is_asked:
  assumes "in_turns msgs" and "msgs \<noteq> []"
  shows "(\<forall>i < length msgs. (length msgs - keep \<le> i \<or> (\<exists>ps. pins = Some ps \<and> i \<in> set ps)) \<and> complete_turn msgs i
        \<longrightarrow> i \<in> cp_pinned (plan_compaction env msgs keep pins paths))
    \<and> ((\<exists>m \<in> set msgs. is_user_text_query m) \<longrightarrow>
        (\<exists>i \<in> cp_pinned (plan_compaction env msgs keep pins paths). is_user_text_query (msgs ! i)))
    \<and> set (cp_summarize (plan_compaction env msgs keep pins paths)) = {..<length msgs} - cp_pinned (plan_compaction env msgs keep pins paths)
    \<and> sorted (cp_summarize (plan_compaction env msgs keep pins paths)) \<and> distinct (cp_summarize (plan_compaction env msgs keep pins paths))"
proof -
  define P where "P = fst (enforce_tool_call_pairs msgs (pinned_before_pairs env msgs keep pins paths))"
  have plan: "cp_pinned (plan_compaction env msgs keep pins paths) = keep_user_query msgs P"
    "cp_summarize (plan_compaction env msgs keep pins paths) = filter (\<lambda>i. i \<notin> keep_user_query msgs P) [0..<length msgs]"
    using assms(2) by (simp_all add: plan_compaction_def P_def Let_def)
  have more: "P \<subseteq> keep_user_query msgs P"
    by (cases rule: keep_user_query_result [where msgs = msgs and P = P]) auto
  have first: "i \<in> pinned_before_pairs env msgs keep pins paths"
    if "i < length msgs" "length msgs - keep \<le> i \<or> (\<exists>ps. pins = Some ps \<and> i \<in> set ps)" for i
    using that by (auto simp: pinned_before_pairs_def Let_def)
  have "i \<in> keep_user_query msgs P"
    if "i < length msgs" "length msgs - keep \<le> i \<or> (\<exists>ps. pins = Some ps \<and> i \<in> set ps)" "complete_turn msgs i" for i
    using enforced_keeps [OF assms(1) pinned_before_pairs_within first [OF that(1,2)] that(3)] more by (auto simp: P_def)
  moreover have "\<exists>i \<in> keep_user_query msgs P. is_user_text_query (msgs ! i)" if "\<exists>m \<in> set msgs. is_user_text_query m"
    using that by (cases rule: keep_user_query_result [where msgs = msgs and P = P]) auto
  ultimately show ?thesis by (auto simp: plan sorted_wrt_filter)
qed

section \<open>When to compact\<close>

lemma pair_loop_within:
  "needs_within n (set \<circ> needs) \<Longrightarrow> P \<subseteq> {..<n} \<Longrightarrow> fst (pair_loop k n needs (P, D)) \<subseteq> {..<n}"
proof (induction k arbitrary: P D)
  case (Suc k)
  obtain P' D' where round: "next_pins (set \<circ> needs) (P, D) = (P', D')" by force
  have first: "pair_round n needs (P, D) = ((P', D'), P' \<noteq> P)"
    using pair_round_sets [OF Suc.prems(2), where D = D and needs = needs] round
    by (cases "pair_round n needs (P, D)") simp
  have "P' \<subseteq> {..<n}" using next_pins_within [OF Suc.prems(1,2), of D] unfolding round by simp
  then show ?case using Suc.IH [OF Suc.prems(1)] Suc.prems(2) first by simp
qed simp

lemma plan_within: "cp_pinned (plan_compaction env msgs keep pins paths) \<subseteq> {..<length msgs}"
proof -
  define P where "P = fst (enforce_tool_call_pairs msgs (pinned_before_pairs env msgs keep pins paths))"
  have "P \<subseteq> {..<length msgs}"
    unfolding P_def enforced_loop [OF pinned_before_pairs_within]
    by (rule pair_loop_within [OF needs_of_within pinned_before_pairs_within])
  moreover have "keep_user_query msgs P \<subseteq> P \<union> {..<length msgs}"
    by (cases rule: keep_user_query_result [where msgs = msgs and P = P]) auto
  ultimately show ?thesis by (auto simp: plan_compaction_def P_def [symmetric] Let_def)
qed

lemma sum_list_filter_split:
  "sum_list (map f (filter P xs)) + sum_list (map f (filter (\<lambda>x. \<not> P x) xs)) = (sum_list (map f xs) :: nat)"
  by (induction xs) auto

text \<open>
  A conversation is compacted exactly when compaction is on, the plan leaves at least six messages to summarise, and
  the estimate of the whole conversation is over the threshold or that of what is kept reaches it already.
\<close>

theorem compaction_goes_by_the_whole:
  "should_compact env msgs config pins paths \<longleftrightarrow>
     cc_enabled config \<and> 6 \<le> length (cp_summarize (plan_compaction env msgs KEEP_RECENT_MESSAGES pins paths))
     \<and> (cc_token_threshold config < sum_list (map (\<lambda>m. estimate_tokens_for_message (ce_ser env) m False) msgs)
        \<or> cc_token_threshold config
            \<le> (\<Sum>i \<in> cp_pinned (plan_compaction env msgs KEEP_RECENT_MESSAGES pins paths).
                 estimate_tokens_for_message (ce_ser env) (msgs ! i) False))"
proof -
  define plan where "plan = plan_compaction env msgs KEEP_RECENT_MESSAGES pins paths"
  define tokens where "tokens = (\<lambda>i. estimate_tokens_for_message (ce_ser env) (msgs ! i) False)"
  define kept where "kept = sum_list (map tokens (filter (\<lambda>i. i \<in> cp_pinned plan) [0..<length msgs]))"
  have left: "cp_summarize plan = filter (\<lambda>i. i \<notin> cp_pinned plan) [0..<length msgs]"
    by (simp add: plan_def plan_compaction_def Let_def)
  have "set (filter (\<lambda>i. i \<in> cp_pinned plan) [0..<length msgs]) = cp_pinned plan"
    using plan_within [of env msgs KEEP_RECENT_MESSAGES pins paths] by (auto simp: plan_def)
  then have sum: "kept = (\<Sum>i \<in> cp_pinned plan. tokens i)"
    by (simp add: kept_def flip: sum.distinct_set_conv_list)
  have "map tokens [0..<length msgs] = map (\<lambda>m. estimate_tokens_for_message (ce_ser env) m False) msgs"
    by (rule nth_equalityI) (simp_all add: tokens_def)
  then have total: "kept + sum_list (map tokens (cp_summarize plan))
      = sum_list (map (\<lambda>m. estimate_tokens_for_message (ce_ser env) m False) msgs)"
    using sum_list_filter_split [of tokens "\<lambda>i. i \<in> cp_pinned plan" "[0..<length msgs]"] by (simp add: kept_def left)
  have "should_compact env msgs config pins paths \<longleftrightarrow> cc_enabled config \<and>
      (if cc_token_threshold config - kept = 0 then MIN_SUMMARIZE_MESSAGES \<le> length (cp_summarize plan)
       else \<not> length (cp_summarize plan) < MIN_SUMMARIZE_MESSAGES
         \<and> cc_token_threshold config - kept < sum_list (map tokens (cp_summarize plan)))"
    by (simp add: should_compact_def plan_def tokens_def kept_def Let_def)
  also have "\<dots> \<longleftrightarrow> cc_enabled config \<and> 6 \<le> length (cp_summarize plan)
      \<and> (cc_token_threshold config < sum_list (map (\<lambda>m. estimate_tokens_for_message (ce_ser env) m False) msgs)
         \<or> cc_token_threshold config \<le> kept)"
    unfolding total [symmetric] MIN_SUMMARIZE_MESSAGES_def by (auto simp: not_less)
  finally show ?thesis by (simp add: sum plan_def tokens_def)
qed

section \<open>Examples\<close>

definition demo_env :: compaction_env where
  "demo_env = \<lparr>ce_ser = (\<lambda>j. ''{}''), ce_captures = (\<lambda>t. []), ce_workspace = None, ce_exists = (\<lambda>p. False)\<rparr>"

definition says :: "string \<Rightarrow> string \<Rightarrow> chat_message" where
  "says role text = \<lparr>cm_role = role, cm_content = [TextBlock text None]\<rparr>"

definition calls_tool :: "string \<Rightarrow> chat_message" where
  "calls_tool tid = \<lparr>cm_role = ''assistant'', cm_content = [ToolUseBlock tid ''read_file'' (JObj []) None]\<rparr>"

definition gives_result :: "string \<Rightarrow> string \<Rightarrow> chat_message" where
  "gives_result tid text = \<lparr>cm_role = ''user'', cm_content = [ToolResultBlock tid text None None]\<rparr>"

definition demo_messages :: "chat_message list" where
  "demo_messages = [says ''user'' ''hello'', calls_tool ''a'', gives_result ''a'' ''error: no such file'',
     says ''assistant'' ''ok'', calls_tool ''b'', gives_result ''b'' ''text'', says ''assistant'' ''one'', says ''assistant'' ''two'']"

lemma demo_kept: "cp_pinned (plan_compaction demo_env demo_messages KEEP_RECENT_MESSAGES None None) = {0, 1, 2, 4, 5, 6, 7}"
  by code_simp

lemma demo_in_turns: "in_turns demo_messages"
  by code_simp

theorem plan_keeps_calls_with_results_witness:
  "\<exists>j \<in> {0, 1, 2, 4, 5, 6, 7::nat}. ''a'' \<in> set (call_ids (demo_messages ! j))"
proof -
  have "2 \<in> cp_pinned (plan_compaction demo_env demo_messages KEEP_RECENT_MESSAGES None None)" by (simp add: demo_kept)
  moreover have "''a'' \<in> set (result_ids (demo_messages ! 2))" by code_simp
  ultimately show ?thesis
    using plan_keeps_calls_with_results [OF demo_in_turns, of 2 demo_env KEEP_RECENT_MESSAGES None None] by (simp add: demo_kept)
qed

theorem plan_keeps_what_is_asked_witness:
  "7 \<in> {0, 1, 2, 4, 5, 6, 7::nat} \<and> (\<exists>i \<in> {0, 1, 2, 4, 5, 6, 7::nat}. is_user_text_query (demo_messages ! i))"
proof -
  have facts: "demo_messages \<noteq> []" "7 < length demo_messages" "length demo_messages - KEEP_RECENT_MESSAGES \<le> 7"
    "complete_turn demo_messages 7" "\<exists>m \<in> set demo_messages. is_user_text_query m"
    by code_simp+
  then show ?thesis
    using plan_keeps_what_is_asked [OF demo_in_turns facts(1), of KEEP_RECENT_MESSAGES None demo_env None] demo_kept
    by (metis (no_types, lifting))
qed

section \<open>Where pairs break\<close>

text \<open>
  The user text that is added last is not checked: a message of the user with a text and a result is kept without the call.
\<close>

theorem added_user_text_can_lack_its_call:
  "let msgs = [calls_tool ''a'', \<lparr>cm_role = ''user'', cm_content = [ToolResultBlock ''a'' ''done'' None None, TextBlock ''go on'' None]\<rparr>,
       says ''assistant'' ''1'', says ''assistant'' ''2'', says ''assistant'' ''3'', says ''assistant'' ''4'']
   in cp_pinned (plan_compaction demo_env msgs KEEP_RECENT_MESSAGES None None) = {1, 2, 3, 4, 5}"
  by code_simp

text \<open>
  An id that is used again (some providers number the calls of every turn from zero) stands for its last call and last
  result only: the first result is kept, for its error, without the call it answers.
\<close>

theorem repeated_ids_break_the_pairs:
  "let msgs = [calls_tool ''call_0'', gives_result ''call_0'' ''error: no such file'', says ''user'' ''again'',
       says ''assistant'' ''trying'', calls_tool ''call_0'', gives_result ''call_0'' ''text'']
   in cp_pinned (plan_compaction demo_env msgs KEEP_RECENT_MESSAGES None None) = {1, 2, 3, 4, 5}"
  by code_simp

text \<open>
  The rounds are limited by the number of messages, but a pin can first be added and then removed in two rounds of its
  own: a chain of messages that each hold a result and a call, the last without its result, is not settled in time.
\<close>

definition link :: "string \<Rightarrow> string \<Rightarrow> chat_message" where
  "link a b = \<lparr>cm_role = ''assistant'',
     cm_content = [ToolResultBlock a ''text'' None None, ToolUseBlock b ''read_file'' (JObj []) None]\<rparr>"

definition chain :: "chat_message list" where
  "chain = [calls_tool ''a'', link ''a'' ''b'', link ''b'' ''c'', link ''c'' ''d'', link ''d'' ''e'', link ''e'' ''f'',
     link ''f'' ''g'', says ''user'' ''1'', says ''user'' ''2'', says ''user'' ''3'', says ''user'' ''4'']"

definition chain_needs :: "nat \<Rightarrow> nat option list" where
  "chain_needs i = [[Some 1], [Some 0, Some 2], [Some 1, Some 3], [Some 2, Some 4], [Some 3, Some 5], [Some 4, Some 6],
     [Some 5, None], [], [], [], []] ! i"

lemma chain_indices:
  "call_id_to_idx chain = [''a'' \<mapsto> 0, ''b'' \<mapsto> 1, ''c'' \<mapsto> 2, ''d'' \<mapsto> 3, ''e'' \<mapsto> 4, ''f'' \<mapsto> 5, ''g'' \<mapsto> 6]"
  "result_id_to_idx chain = [''a'' \<mapsto> 1, ''b'' \<mapsto> 2, ''c'' \<mapsto> 3, ''d'' \<mapsto> 4, ''e'' \<mapsto> 5, ''f'' \<mapsto> 6]"
  by (simp_all add: call_id_to_idx_def result_id_to_idx_def chain_def calls_tool_def link_def says_def enumerate_simps eval_nat_numeral)

lemma chain_message_needs: "i < 11 \<Longrightarrow> message_needs chain i = chain_needs i"
proof -
  have "\<forall>i \<in> set [0..<11]. message_needs chain i = chain_needs i"
    unfolding message_needs_def chain_indices
    by (simp add: chain_needs_def chain_def calls_tool_def link_def says_def map_filter_simps upt_rec)
  then show "i < 11 \<Longrightarrow> message_needs chain i = chain_needs i" by simp
qed

lemma chain_need_set:
  assumes "i < 11"
  shows "set (chain_needs i) = (if i = 0 then {Some 1} else if i < 6 then {Some (i - 1), Some (i + 1)}
     else if i = 6 then {Some 5, None} else {})"
proof -
  have "\<forall>i \<in> set [0..<11]. set (chain_needs i) = (if i = 0 then {Some 1} else if i < 6 then {Some (i - 1), Some (i + 1)}
     else if i = 6 then {Some 5, None} else {})"
    by (simp add: chain_needs_def upt_rec eval_nat_numeral)
  then show ?thesis using assms by simp
qed

text \<open>The pins spread over the chain, one link in a round, and are then taken back one by one.\<close>

lemma chain_round:
  assumes "pinned \<subseteq> {..<11}" and "\<And>i. drops (set \<circ> chain_needs) pinned removed i \<longleftrightarrow> i \<in> gone"
    and "\<And>j. wants (set \<circ> chain_needs) pinned removed j \<Longrightarrow> j \<in> pinned \<union> new" and "\<And>j. j \<in> new \<Longrightarrow> wants (set \<circ> chain_needs) pinned removed j"
    and "gone \<union> new \<noteq> {}" and "gone \<subseteq> pinned" and "new \<inter> pinned = {}"
  shows "pair_round 11 chain_needs (pinned, removed) = ((pinned \<union> new - gone, removed \<union> gone), True)"
proof -
  have "next_pins (set \<circ> chain_needs) (pinned, removed) = (pinned \<union> new - gone, removed \<union> gone)"
    unfolding next_pins_def prod.case using assms(2-4) by auto
  moreover have "pinned \<union> new - gone \<noteq> pinned" using assms(5-7) by auto
  ultimately show ?thesis
    using pair_round_sets [OF assms(1), where needs = chain_needs and D = removed] by (simp add: prod_eq_iff)
qed

lemma chain_forward:
  assumes "k < 6"
  shows "pair_round 11 chain_needs ({..k} \<union> {7..10}, {}) = (({..Suc k} \<union> {7..10}, {}), True)"
proof -
  have "pair_round 11 chain_needs ({..k} \<union> {7..10}, {}) = ((({..k} \<union> {7..10}) \<union> {Suc k} - {}, {} \<union> {}), True)"
  proof (rule chain_round)
    show "drops (set \<circ> chain_needs) ({..k} \<union> {7..10}) {} i \<longleftrightarrow> i \<in> {}" for i
      using assms by (auto simp: drops_def chain_need_set split: if_splits)
    show "j \<in> ({..k} \<union> {7..10}) \<union> {Suc k}" if "wants (set \<circ> chain_needs) ({..k} \<union> {7..10}) {} j" for j
      using that assms by (auto simp: wants_def chain_need_set split: if_splits)
    show "wants (set \<circ> chain_needs) ({..k} \<union> {7..10}) {} j" if "j \<in> {Suc k}" for j
      unfolding wants_def using that assms by (intro conjI bexI [of _ k]) (auto simp: chain_need_set)
  qed (use assms in auto)
  then show ?thesis by (simp add: atMost_Suc)
qed

lemma chain_backward:
  assumes "0 < k" and "k \<le> 6"
  shows "pair_round 11 chain_needs ({..k} \<union> {7..10}, {Suc k..6}) = (({..k - 1} \<union> {7..10}, {k..6}), True)"
proof -
  have "pair_round 11 chain_needs ({..k} \<union> {7..10}, {Suc k..6})
      = ((({..k} \<union> {7..10}) \<union> {} - {k}, {Suc k..6} \<union> {k}), True)"
  proof (rule chain_round)
    show "drops (set \<circ> chain_needs) ({..k} \<union> {7..10}) {Suc k..6} i \<longleftrightarrow> i \<in> {k}" for i
      using assms by (auto simp: drops_def chain_need_set split: if_splits)
    show "j \<in> ({..k} \<union> {7..10}) \<union> {}" if "wants (set \<circ> chain_needs) ({..k} \<union> {7..10}) {Suc k..6} j" for j
      using that assms by (auto simp: wants_def chain_need_set split: if_splits)
  qed (use assms in auto)
  moreover have "({..k} \<union> {7..10}) \<union> {} - {k} = {..k - 1} \<union> {7..10}" "{Suc k..6} \<union> {k} = {k..6}" using assms by auto
  ultimately show ?thesis by simp
qed

lemma chain_forward_loop:
  "k + j \<le> 6 \<Longrightarrow> pair_loop (j + m) 11 chain_needs ({..k} \<union> {7..10}, {}) = pair_loop m 11 chain_needs ({..k + j} \<union> {7..10}, {})"
proof (induction j arbitrary: k)
  case (Suc j)
  then show ?case using Suc.IH [of "Suc k"] chain_forward [of k] by simp
qed simp

lemma chain_backward_loop:
  "j < k \<Longrightarrow> k \<le> 6 \<Longrightarrow> pair_loop (j + m) 11 chain_needs ({..k} \<union> {7..10}, {Suc k..6})
     = pair_loop m 11 chain_needs ({..k - j} \<union> {7..10}, {Suc (k - j)..6})"
proof (induction j arbitrary: k)
  case (Suc j)
  then show ?case using Suc.IH [of "k - 1"] chain_backward [of k] by simp
qed simp

theorem rounds_can_stop_too_early:
  "enforce_tool_call_pairs chain ({0} \<union> {7..10}) = ({0, 1} \<union> {7..10}, False)"
proof -
  have "enforce_tool_call_pairs chain ({0} \<union> {7..10}) = pair_loop 11 11 chain_needs ({..0} \<union> {7..10}, {})"
  proof -
    have "length chain = 11" "max 11 10 = (11::nat)" by (simp_all add: chain_def)
    moreover have "pair_loop 11 11 (message_needs chain) s = pair_loop 11 11 chain_needs s" for s
      by (rule pair_loop_cong) (rule chain_message_needs)
    ultimately show ?thesis by (simp add: enforce_tool_call_pairs_def atMost_0)
  qed
  also have "\<dots> = pair_loop 5 11 chain_needs ({..6} \<union> {7..10}, {Suc 6..6})"
    using chain_forward_loop [of 0 6 5] by simp
  also have "\<dots> = pair_loop 0 11 chain_needs ({..1} \<union> {7..10}, {Suc 1..6})"
    using chain_backward_loop [of 5 6 0] by simp
  also have "\<dots> = ({0, 1} \<union> {7..10}, False)" by auto
  finally show ?thesis .
qed

end
