(* ===== verification/Compaction_Run.thy ===== *)
theory Compaction_Run
  imports Compaction_Plan
begin

text \<open>
  \<open>crates/tui/src/compaction.rs\<close>, second half: old tool results are shortened first; if that is not enough the rest of
  the conversation is summarised by the model, with retries. The answers of the model are a function of the number of
  the request and the request, the context window of a model and the text of the anchors file are parameters.
  Of \<open>crates/tui/src/error_taxonomy.rs\<close> the categories of error messages.
\<close>

section \<open>Error categories\<close>

datatype error_category =
    NetworkError | AuthenticationError | AuthorizationError | RateLimitError | TimeoutError
  | InvalidInputError | ParseError | ToolFailure | StateError | InternalError

definition mentions :: "string list \<Rightarrow> string \<Rightarrow> bool" where
  "mentions words text \<longleftrightarrow> list_ex (\<lambda>w. sublist w text) words"

definition classify_error_message :: "string \<Rightarrow> error_category" where
  "classify_error_message message =
     (let lower = lowercase message
      in if mentions [''maximum context length'', ''context length'', ''context_length'', ''prompt is too long''] lower
            \<or> sublist ''requested'' lower \<and> sublist ''tokens'' lower \<and> sublist ''maximum'' lower
            \<or> sublist ''context window'' lower then InvalidInputError
         else if mentions [''rate limit'', ''too many requests'', ''429'', ''quota''] lower then RateLimitError
         else if mentions [''timeout'', ''timed out''] lower then TimeoutError
         else if mentions [''authentication'', ''auth failed'', ''auth error'', ''unauthorized'', ''api key'', ''invalid key'',
              ''invalid token'', ''bearer token''] lower then AuthenticationError
         else if mentions [''authorization'', ''permission'', ''forbidden'', ''denied''] lower then AuthorizationError
         else if mentions [''network'', ''connection'', ''dns'', ''stream read error'', ''error decoding response body'',
              ''chunk decode error'', ''body decode'', ''temporarily unavailable'', '' 502 '', '' 503 '', '' 504 ''] lower
            \<or> list_ex (\<lambda>c. prefix (c @ '' '') lower \<or> suffix ('' '' @ c) lower \<or> lower = c) [''502'', ''503'', ''504'']
         then NetworkError
         else if mentions [''parse'', ''syntax'', ''malformed''] lower then ParseError
         else if mentions [''not found'', ''unavailable'', ''not available''] lower then StateError
         else if sublist ''tool'' lower then ToolFailure else InternalError)"

definition is_transient_error :: "string \<Rightarrow> bool" where
  "is_transient_error message \<longleftrightarrow> classify_error_message message \<in> {NetworkError, RateLimitError, TimeoutError}"

section \<open>Pruning of tool results\<close>

definition SUMMARY_TEXT_SNIPPET_CHARS :: nat where "SUMMARY_TEXT_SNIPPET_CHARS = 800"
definition SUMMARY_TOOL_RESULT_SNIPPET_CHARS :: nat where "SUMMARY_TOOL_RESULT_SNIPPET_CHARS = 240"
definition SUMMARY_INPUT_MAX_CHARS :: nat where "SUMMARY_INPUT_MAX_CHARS = 24000"
definition SUMMARY_INPUT_HEAD_CHARS :: nat where "SUMMARY_INPUT_HEAD_CHARS = 14000"
definition SUMMARY_INPUT_TAIL_CHARS :: nat where "SUMMARY_INPUT_TAIL_CHARS = 6000"
definition LARGE_CONTEXT_SUMMARY_TEXT_SNIPPET_CHARS :: nat where "LARGE_CONTEXT_SUMMARY_TEXT_SNIPPET_CHARS = 2000"
definition LARGE_CONTEXT_SUMMARY_TOOL_RESULT_SNIPPET_CHARS :: nat where "LARGE_CONTEXT_SUMMARY_TOOL_RESULT_SNIPPET_CHARS = 4000"
definition LARGE_CONTEXT_SUMMARY_INPUT_MAX_CHARS :: nat where "LARGE_CONTEXT_SUMMARY_INPUT_MAX_CHARS = 120000"
definition LARGE_CONTEXT_SUMMARY_INPUT_HEAD_CHARS :: nat where "LARGE_CONTEXT_SUMMARY_INPUT_HEAD_CHARS = 72000"
definition LARGE_CONTEXT_SUMMARY_INPUT_TAIL_CHARS :: nat where "LARGE_CONTEXT_SUMMARY_INPUT_TAIL_CHARS = 36000"
definition TOOL_PRUNE_STOP_CHECK_BYTES :: nat where "TOOL_PRUNE_STOP_CHECK_BYTES = 16 * 1024"
definition LARGE_CONTEXT_SUMMARY_MAX_TOKENS :: u32 where "LARGE_CONTEXT_SUMMARY_MAX_TOKENS = 2048"
definition LARGE_CONTEXT_WINDOW_TOKENS :: u32 where "LARGE_CONTEXT_WINDOW_TOKENS = 500000"
definition CACHE_ALIGNED_SUMMARY_CONTEXT_BUDGET_PERCENT :: nat where "CACHE_ALIGNED_SUMMARY_CONTEXT_BUDGET_PERCENT = 85"

definition truncate_chars :: "string \<Rightarrow> nat \<Rightarrow> string" where
  "truncate_chars text n = take n text"

definition tail_chars :: "string \<Rightarrow> nat \<Rightarrow> string" where
  "tail_chars text n = (if n = 0 then [] else if length text \<le> n then text else drop (length text - n) text)"

record tool_use_info =
  tui_name :: string
  tui_key :: string
  tui_args_preview :: string

definition tool_use_key :: "(json \<Rightarrow> string) \<Rightarrow> string \<Rightarrow> json \<Rightarrow> string" where
  "tool_use_key ser name input = name @ '':'' @ ser input"

definition tool_args_preview :: "(json \<Rightarrow> string) \<Rightarrow> json \<Rightarrow> string" where
  "tool_args_preview ser input = truncate_chars (ser input) 120"

fun note_tool_use :: "(json \<Rightarrow> string) \<Rightarrow> content_block \<Rightarrow> (string \<rightharpoonup> tool_use_info) \<Rightarrow> (string \<rightharpoonup> tool_use_info)" where
  "note_tool_use ser (ToolUseBlock tid name input caller) m =
     m(tid \<mapsto> \<lparr>tui_name = name, tui_key = tool_use_key ser name input, tui_args_preview = tool_args_preview ser input\<rparr>)"
| "note_tool_use ser b m = m"

definition collect_tool_uses :: "(json \<Rightarrow> string) \<Rightarrow> chat_message list \<Rightarrow> (string \<rightharpoonup> tool_use_info)" where
  "collect_tool_uses ser msgs = fold (\<lambda>msg. fold (note_tool_use ser) (cm_content msg)) msgs Map.empty"

record prune_candidate =
  pc_message :: nat
  pc_block :: nat
  pc_key :: string
  pc_tool_name :: string
  pc_args_preview :: string
  pc_original_len :: nat

fun block_candidate :: "(string \<rightharpoonup> tool_use_info) \<Rightarrow> nat \<Rightarrow> nat \<times> content_block \<Rightarrow> prune_candidate option" where
  "block_candidate uses mi (bi, ToolResultBlock tid content err blocks) =
     map_option (\<lambda>info. \<lparr>pc_message = mi, pc_block = bi, pc_key = tui_key info, pc_tool_name = tui_name info,
         pc_args_preview = tui_args_preview info, pc_original_len = length content\<rparr>) (uses tid)"
| "block_candidate uses mi (bi, b) = None"

definition prune_candidates :: "(string \<rightharpoonup> tool_use_info) \<Rightarrow> chat_message list \<Rightarrow> prune_candidate list" where
  "prune_candidates uses msgs =
     concat (map (\<lambda>(mi, msg). List.map_filter (block_candidate uses mi) (List.enumerate 0 (cm_content msg)))
       (List.enumerate 0 msgs))"

definition prune_summary :: "prune_candidate \<Rightarrow> string" where
  "prune_summary c =
     ''['' @ pc_tool_name c @ ''] tool result pruned ('' @ show_nat (pc_original_len c) @ '' bytes; args: ''
       @ pc_args_preview c @ '')''"

text \<open>A candidate that stays: the latest of several with its key, a short one, or one its summary would not shorten.\<close>

definition stays_full :: "prune_candidate list \<Rightarrow> prune_candidate \<Rightarrow> bool" where
  "stays_full cands c \<longleftrightarrow>
     (let same = filter (\<lambda>d. pc_key d = pc_key c) cands
      in 1 < length same \<and> pc_message (last same) = pc_message c
         \<or> length same \<le> 1 \<and> pc_original_len c \<le> SUMMARY_TOOL_RESULT_SNIPPET_CHARS
         \<or> pc_original_len c \<le> length (prune_summary c))"

fun shorten_block :: "string \<Rightarrow> content_block \<Rightarrow> content_block" where
  "shorten_block summary (ToolResultBlock tid content err blocks) = ToolResultBlock tid summary err None"
| "shorten_block summary b = b"

fun result_length :: "content_block \<Rightarrow> nat" where
  "result_length (ToolResultBlock tid content err blocks) = length content"
| "result_length b = 0"

definition prune_block :: "prune_candidate \<Rightarrow> chat_message list \<Rightarrow> chat_message list" where
  "prune_block c msgs =
     (let msg = msgs ! pc_message c
      in msgs[pc_message c := msg\<lparr>cm_content :=
           (cm_content msg)[pc_block c := shorten_block (prune_summary c) (cm_content msg ! pc_block c)]\<rparr>])"

text \<open>\<open>stop\<close> is the closure \<open>should_stop\<close> with the variables it captures.\<close>

fun prune_loop ::
  "('s \<Rightarrow> chat_message list \<Rightarrow> nat \<Rightarrow> bool \<times> 's) \<Rightarrow> prune_candidate list \<Rightarrow> prune_candidate list
     \<Rightarrow> chat_message list \<Rightarrow> nat \<Rightarrow> 's \<Rightarrow> chat_message list \<times> nat \<times> 's" where
  "prune_loop stop cands [] msgs saved s = (msgs, saved, s)"
| "prune_loop stop cands (c # cs) msgs saved s =
     (if stays_full cands c then prune_loop stop cands cs msgs saved s
      else let saved' = saved + (result_length (cm_content (msgs ! pc_message c) ! pc_block c) - length (prune_summary c));
               msgs' = prune_block c msgs
           in case stop s msgs' saved' of
                (True, s') \<Rightarrow> (msgs', saved', s')
              | (False, s') \<Rightarrow> prune_loop stop cands cs msgs' saved' s')"

definition prune_tool_results_until ::
  "(json \<Rightarrow> string) \<Rightarrow> ('s \<Rightarrow> chat_message list \<Rightarrow> nat \<Rightarrow> bool \<times> 's) \<Rightarrow> chat_message list \<Rightarrow> nat \<Rightarrow> 's
     \<Rightarrow> chat_message list \<times> nat \<times> 's" where
  "prune_tool_results_until ser stop msgs protected s =
     (let cutoff = length msgs - protected
      in if cutoff = 0 then (msgs, 0, s)
         else let cands = prune_candidates (collect_tool_uses ser msgs) (take cutoff msgs)
              in prune_loop stop cands (rev cands) msgs 0 s)"

section \<open>The request for a summary\<close>

record summary_input_limits =
  sl_text_snippet_chars :: nat
  sl_tool_result_snippet_chars :: nat
  sl_input_max_chars :: nat
  sl_input_head_chars :: nat
  sl_input_tail_chars :: nat
  sl_max_tokens :: u32
  sl_word_limit :: nat

text \<open>\<open>window\<close> is \<open>context_window_for_model\<close>, which asks tables and the downloaded catalog.\<close>

definition summary_input_limits_for_model :: "(string \<Rightarrow> u32 option) \<Rightarrow> string \<Rightarrow> summary_input_limits" where
  "summary_input_limits_for_model window model =
     (if (case window model of None \<Rightarrow> False | Some w \<Rightarrow> LARGE_CONTEXT_WINDOW_TOKENS \<le> w)
      then \<lparr>sl_text_snippet_chars = LARGE_CONTEXT_SUMMARY_TEXT_SNIPPET_CHARS,
            sl_tool_result_snippet_chars = LARGE_CONTEXT_SUMMARY_TOOL_RESULT_SNIPPET_CHARS,
            sl_input_max_chars = LARGE_CONTEXT_SUMMARY_INPUT_MAX_CHARS,
            sl_input_head_chars = LARGE_CONTEXT_SUMMARY_INPUT_HEAD_CHARS,
            sl_input_tail_chars = LARGE_CONTEXT_SUMMARY_INPUT_TAIL_CHARS,
            sl_max_tokens = LARGE_CONTEXT_SUMMARY_MAX_TOKENS, sl_word_limit = 900\<rparr>
      else \<lparr>sl_text_snippet_chars = SUMMARY_TEXT_SNIPPET_CHARS,
            sl_tool_result_snippet_chars = SUMMARY_TOOL_RESULT_SNIPPET_CHARS,
            sl_input_max_chars = SUMMARY_INPUT_MAX_CHARS, sl_input_head_chars = SUMMARY_INPUT_HEAD_CHARS,
            sl_input_tail_chars = SUMMARY_INPUT_TAIL_CHARS, sl_max_tokens = 1024, sl_word_limit = 500\<rparr>)"

text \<open>The fields of a request that are set; the temperature is 0.3, the stream is off.\<close>

record message_request =
  mr_model :: string
  mr_messages :: "chat_message list"
  mr_max_tokens :: u32
  mr_system :: "system_prompt option"

definition should_use_cache_aligned_summary ::
  "(json \<Rightarrow> string) \<Rightarrow> (string \<Rightarrow> u32 option) \<Rightarrow> string \<Rightarrow> chat_message list \<Rightarrow> bool" where
  "should_use_cache_aligned_summary ser window model msgs \<longleftrightarrow>
     (case window model of
        None \<Rightarrow> False
      | Some w \<Rightarrow> \<not> w < LARGE_CONTEXT_WINDOW_TOKENS
          \<and> estimate_tokens ser msgs + 512 \<le> unat w * CACHE_ALIGNED_SUMMARY_CONTEXT_BUDGET_PERCENT div 100)"

definition summary_instruction :: "nat \<Rightarrow> string" where
  "summary_instruction word_limit =
     ''Summarize the conversation above in a concise but comprehensive way. ''
     @ ''Preserve key information, decisions made, exact file paths, commands, ''
     @ ''errors, and tool-result facts needed to continue the work. ''
     @ ''Tool outputs may be abbreviated only when they are repetitive. ''
     @ ''Keep it under '' @ show_nat word_limit @ '' words.''"

definition build_cache_aligned_summary_request :: "string \<Rightarrow> chat_message list \<Rightarrow> summary_input_limits \<Rightarrow> message_request" where
  "build_cache_aligned_summary_request model msgs limits =
     \<lparr>mr_model = model,
      mr_messages = msgs @ [\<lparr>cm_role = ''user'', cm_content = [TextBlock (summary_instruction (sl_word_limit limits)) None]\<rparr>],
      mr_max_tokens = sl_max_tokens limits, mr_system = None\<rparr>"

definition NL :: string where "NL = [CHR 0x0A]"

fun transcript_block :: "summary_input_limits \<Rightarrow> string \<Rightarrow> content_block \<Rightarrow> string" where
  "transcript_block limits role (TextBlock text cache) =
     role @ '': '' @ truncate_chars text (sl_text_snippet_chars limits) @ NL @ NL"
| "transcript_block limits role (ToolUseBlock tid name input caller) = role @ '': [Used tool: '' @ name @ '']'' @ NL @ NL"
| "transcript_block limits role (ToolResultBlock tid content err blocks) =
     ''Tool result: '' @ truncate_chars content (sl_tool_result_snippet_chars limits) @ NL @ NL"
| "transcript_block limits role b = []"

definition transcript :: "summary_input_limits \<Rightarrow> chat_message list \<Rightarrow> string" where
  "transcript limits msgs =
     concat (map (\<lambda>msg. concat (map (transcript_block limits (if cm_role msg = ''user'' then ''User'' else ''Assistant''))
       (cm_content msg))) msgs)"

definition clip_transcript :: "summary_input_limits \<Rightarrow> string \<Rightarrow> string" where
  "clip_transcript limits text =
     (if sl_input_max_chars limits < length text
      then let head = truncate_chars text (sl_input_head_chars limits); tail = tail_chars text (sl_input_tail_chars limits)
        in head @ NL @ NL @ ''[... '' @ show_nat (length text - length head - length tail)
           @ '' characters omitted before summary ...]'' @ NL @ NL @ tail
      else text)"

definition build_formatted_summary_request :: "string \<Rightarrow> chat_message list \<Rightarrow> summary_input_limits \<Rightarrow> message_request" where
  "build_formatted_summary_request model msgs limits =
     \<lparr>mr_model = model,
      mr_messages = [\<lparr>cm_role = ''user'', cm_content = [TextBlock (summary_instruction (sl_word_limit limits)
        @ NL @ NL @ ''---'' @ NL @ NL @ clip_transcript limits (transcript limits msgs)) None]\<rparr>],
      mr_max_tokens = sl_max_tokens limits,
      mr_system = Some (SystemText ''You are a helpful assistant that creates concise conversation summaries.'')\<rparr>"

type_synonym model_client = "nat \<Rightarrow> message_request \<Rightarrow> string + content_block list"

fun block_said :: "content_block \<Rightarrow> string option" where
  "block_said (TextBlock text cache) = Some text"
| "block_said b = None"

definition summary_text :: "content_block list \<Rightarrow> string" where
  "summary_text content = join_with NL (List.map_filter block_said content)"

text \<open>The summary or the error, and the number of the next request.\<close>

definition create_summary ::
  "(json \<Rightarrow> string) \<Rightarrow> (string \<Rightarrow> u32 option) \<Rightarrow> model_client \<Rightarrow> nat \<Rightarrow> chat_message list \<Rightarrow> string
     \<Rightarrow> (string + string) \<times> nat" where
  "create_summary ser window client k msgs model =
     (let limits = summary_input_limits_for_model window model;
          aligned = should_use_cache_aligned_summary ser window model msgs;
          request = (if aligned then build_cache_aligned_summary_request model msgs limits
                     else build_formatted_summary_request model msgs limits)
      in case client k request of
           Inr content \<Rightarrow> (Inr (summary_text content), k + 1)
         | Inl e \<Rightarrow>
             if aligned
             then (case client (k + 1) (build_formatted_summary_request model msgs limits) of
                     Inr content \<Rightarrow> (Inr (summary_text content), k + 2)
                   | Inl e' \<Rightarrow> (Inl e', k + 2))
             else (Inl e, k + 1))"

section \<open>The summary block\<close>

definition first_path :: "(string \<times> json) list \<Rightarrow> string option" where
  "first_path kvs =
     (case filter (\<lambda>p. sublist ''/'' p \<or> sublist [CHR 0x5C] p \<or> sublist ''.'' p) (List.map_filter (\<lambda>kv. as_str (snd kv)) kvs) of
        [] \<Rightarrow> None
      | p # ps \<Rightarrow> Some p)"

definition extract_path_from_input :: "json \<Rightarrow> string option" where
  "extract_path_from_input input =
     (case List.map_filter (\<lambda>key. Option.bind (json_get key input) as_str) [''path'', ''file'', ''file_path'', ''filename''] of
        p # ps \<Rightarrow> Some p
      | [] \<Rightarrow> (case input of JObj kvs \<Rightarrow> first_path kvs | _ \<Rightarrow> None))"

definition push_new :: "string list \<Rightarrow> string \<Rightarrow> string list" where
  "push_new xs x = (if x \<in> set xs then xs else xs @ [x])"

fun note_context :: "content_block \<Rightarrow> string list \<times> string list \<times> string list \<Rightarrow> string list \<times> string list \<times> string list" where
  "note_context (ToolUseBlock tid name input caller) (files, tools, tasks) =
     (case extract_path_from_input input of None \<Rightarrow> files | Some p \<Rightarrow> push_new files p, tools @ [name], tasks)"
| "note_context (TextBlock text cache) (files, tools, tasks) =
     (files, tools, if mentions [''TODO'', ''task'', ''need to''] text then push_new tasks (truncate_chars text 200) else tasks)"
| "note_context b (files, tools, tasks) = (files, tools, tasks)"

definition extract_workflow_context :: "string option \<Rightarrow> chat_message list \<Rightarrow> string" where
  "extract_workflow_context workspace msgs =
     (case fold note_context (concat (map cm_content msgs)) ([], [], []) of (files, tools, tasks) \<Rightarrow>
       let shown = (\<lambda>file. case workspace of None \<Rightarrow> file
                     | Some ws \<Rightarrow> (case path_strip_prefix ws file of None \<Rightarrow> file | Some r \<Rightarrow> r));
           context =
             (if files \<noteq> [] then ''**Files Modified/Read:**'' @ NL
                @ concat (map (\<lambda>file. ''- '' @ [CHR 0x60] @ shown file @ [CHR 0x60] @ NL) files) @ NL else [])
             @ (if tools \<noteq> [] then ''**Tools Used:** '' @ join_with '', '' tools @ NL @ NL else [])
             @ (if tasks \<noteq> [] then ''**Tasks/TODOs Identified:**'' @ NL @ concat (map (\<lambda>t. ''- '' @ t @ NL) tasks) @ NL else [])
       in if context = []
          then ''No specific workflow context detected. Continue assisting the user with their current task.'' @ NL
          else context)"

text \<open>\<open>str::split\<close> at a text, and the anchors of the user from the text of their file, none when it cannot be read.\<close>

function split_text :: "string \<Rightarrow> string \<Rightarrow> string \<Rightarrow> string list" where
  "split_text sep acc s =
     (case s of
        [] \<Rightarrow> [acc]
      | c # cs \<Rightarrow> if prefix sep s \<and> sep \<noteq> [] then acc # split_text sep [] (drop (length sep) s)
                  else split_text sep (acc @ [c]) cs)"
  by pat_completeness auto
termination
  by (relation "measure (\<lambda>(sep, acc, s). length s)") auto

declare split_text.simps [simp del]

definition read_workspace_anchors :: "string option \<Rightarrow> string list" where
  "read_workspace_anchors file =
     (case file of
        None \<Rightarrow> []
      | Some content \<Rightarrow> filter (\<lambda>a. a \<noteq> []) (map trim (split_text (NL @ ''---'' @ NL) [] content)))"

definition anchor_summary_section :: "string option \<Rightarrow> string" where
  "anchor_summary_section file =
     (let anchors = read_workspace_anchors file
      in if anchors = [] then []
         else ''## Pinned Facts (User Anchors)'' @ NL @ NL
           @ ''The following facts were explicitly anchored by the user with '' @ [CHR 0x60] @ ''/anchor'' @ [CHR 0x60]
           @ ''. Preserve them across compaction cycles.'' @ NL @ NL
           @ concat (map (\<lambda>a. ''- '' @ a @ NL) anchors) @ NL @ ''---'' @ NL @ NL)"

text \<open>The headings have a symbol each, in UTF-8.\<close>

definition summary_block :: "compaction_config \<Rightarrow> string \<Rightarrow> string \<Rightarrow> string \<Rightarrow> system_block" where
  "summary_block config anchors summary context =
     \<lparr>sb_type = ''text'',
      sb_text = anchors
        @ ''## '' @ [CHR 0xF0, CHR 0x9F, CHR 0x93, CHR 0x8B] @ '' Conversation Summary (Auto-Generated)'' @ NL @ NL
        @ summary @ NL @ NL @ ''---'' @ NL @ NL
        @ ''## '' @ [CHR 0xF0, CHR 0x9F, CHR 0x94, CHR 0x8D] @ '' Workflow Context'' @ NL @ NL
        @ context @ NL @ NL @ ''---'' @ NL @ NL
        @ ''## '' @ [CHR 0xF0, CHR 0x9F, CHR 0x92, CHR 0xA1] @ '' What to Do Next'' @ NL @ NL
        @ ''You have just resumed from a context compaction. The conversation above was summarized to save space. ''
        @ ''Review the summary and workflow context, then continue helping the user with their task. ''
        @ ''If you need more details about the summarized portion, ask the user to clarify.'' @ NL @ NL
        @ ''---'' @ NL @ NL @ ''Pinned messages follow:'',
      sb_cache = (if cc_cache_summary config then Some ''ephemeral'' else None)\<rparr>"

section \<open>Compaction\<close>

text \<open>What surrounds a compaction: the environment of the plan, the context windows, the anchors file, the model, and
  what the caller pins.\<close>

record compaction_setting =
  cs_env :: compaction_env
  cs_window :: "string \<Rightarrow> u32 option"
  cs_anchors :: "string option"
  cs_client :: model_client
  cs_pins :: "nat list option"
  cs_paths :: "string list option"

definition compact_messages ::
  "compaction_setting \<Rightarrow> compaction_config \<Rightarrow> nat \<Rightarrow> chat_message list
     \<Rightarrow> (string + chat_message list \<times> system_prompt option \<times> chat_message list) \<times> nat" where
  "compact_messages st config k msgs =
     (if msgs = [] then (Inr ([], None, []), k)
      else let plan = plan_compaction (cs_env st) msgs KEEP_RECENT_MESSAGES (cs_pins st) (cs_paths st)
        in if cp_summarize plan = [] then (Inr (msgs, None, []), k)
           else let to_summarize = map (\<lambda>i. msgs ! i) (cp_summarize plan)
             in case create_summary (ce_ser (cs_env st)) (cs_window st) (cs_client st) k to_summarize (cc_model config) of
                  (Inl e, k') \<Rightarrow> (Inl e, k')
                | (Inr summary, k') \<Rightarrow>
                    (Inr (map snd (filter (\<lambda>(i, m). i \<in> cp_pinned plan) (List.enumerate 0 msgs)),
                          Some (SystemBlocks [summary_block config (anchor_summary_section (cs_anchors st)) summary
                            (extract_workflow_context (ce_workspace (cs_env st)) to_summarize)]),
                          to_summarize), k'))"

record compaction_result =
  cr_messages :: "chat_message list"
  cr_summary_prompt :: "system_prompt option"
  cr_removed_messages :: "chat_message list"
  cr_retries_used :: nat

definition MAX_RETRIES :: nat where "MAX_RETRIES = 3"

text \<open>The attempts from one number on; the waits between them are not modelled.\<close>

fun compaction_attempts ::
  "(nat \<Rightarrow> (string + chat_message list \<times> system_prompt option \<times> chat_message list) \<times> nat)
     \<Rightarrow> nat \<Rightarrow> nat \<Rightarrow> nat \<Rightarrow> string option \<Rightarrow> (string + compaction_result) \<times> nat" where
  "compaction_attempts run 0 attempt k last_error =
     (Inl (case last_error of Some e \<Rightarrow> e | None \<Rightarrow> ''Compaction failed after 3 retries''), k)"
| "compaction_attempts run (Suc left) attempt k last_error =
     (case run k of
        (Inr (msgs, prompt, removed), k') \<Rightarrow>
          (Inr \<lparr>cr_messages = msgs, cr_summary_prompt = prompt, cr_removed_messages = removed, cr_retries_used = attempt\<rparr>, k')
      | (Inl e, k') \<Rightarrow>
          if is_transient_error e then compaction_attempts run left (attempt + 1) k' (Some e) else (Inl e, k'))"

text \<open>The closure of the pruning: the bytes from which it looks again, and whether the threshold is cleared.\<close>

definition prune_check ::
  "compaction_setting \<Rightarrow> compaction_config \<Rightarrow> bool \<Rightarrow> nat \<times> bool \<Rightarrow> chat_message list \<Rightarrow> nat \<Rightarrow> bool \<times> (nat \<times> bool)" where
  "prune_check st config over s msgs saved =
     (if \<not> over \<or> saved < fst s then (False, s)
      else let cleared = \<not> should_compact (cs_env st) msgs config (cs_pins st) (cs_paths st)
           in (cleared, (saved + TOOL_PRUNE_STOP_CHECK_BYTES, cleared)))"

definition compact_messages_safe ::
  "compaction_setting \<Rightarrow> compaction_config \<Rightarrow> nat \<Rightarrow> chat_message list \<Rightarrow> (string + compaction_result) \<times> nat" where
  "compact_messages_safe st config k msgs =
     (let over = should_compact (cs_env st) msgs config (cs_pins st) (cs_paths st)
      in case prune_tool_results_until (ce_ser (cs_env st)) (prune_check st config over) msgs KEEP_RECENT_MESSAGES (0, False) of
           (pruned, saved, (check_at, cleared)) \<Rightarrow>
             let cleared = (if over \<and> 0 < saved \<and> \<not> cleared
                          then \<not> should_compact (cs_env st) pruned config (cs_pins st) (cs_paths st) else cleared)
             in if 0 < saved \<and> over \<and> cleared
                then (Inr \<lparr>cr_messages = pruned, cr_summary_prompt = None, cr_removed_messages = [], cr_retries_used = 0\<rparr>, k)
                else compaction_attempts (\<lambda>k. compact_messages st config k (if 0 < saved then pruned else msgs)) MAX_RETRIES 0 k None)"

fun merge_system_prompts :: "system_prompt option \<Rightarrow> system_prompt option \<Rightarrow> system_prompt option" where
  "merge_system_prompts None None = None"
| "merge_system_prompts (Some orig) None = Some orig"
| "merge_system_prompts None (Some summary) = Some summary"
| "merge_system_prompts (Some (SystemText text)) (Some (SystemBlocks bs)) =
     Some (SystemBlocks (\<lparr>sb_type = ''text'', sb_text = text, sb_cache = None\<rparr> # bs))"
| "merge_system_prompts (Some (SystemBlocks as)) (Some (SystemBlocks bs)) = Some (SystemBlocks (as @ bs))"
| "merge_system_prompts (Some orig) (Some (SystemText text)) =
     Some (SystemBlocks ((case orig of
         SystemText t \<Rightarrow> [\<lparr>sb_type = ''text'', sb_text = t, sb_cache = None\<rparr>]
       | SystemBlocks bs \<Rightarrow> bs) @ [\<lparr>sb_type = ''text'', sb_text = text, sb_cache = None\<rparr>]))"

section \<open>What pruning keeps\<close>

text \<open>A block after pruning: the same, or a tool result with a shorter text in its place.\<close>

definition pruned_block :: "content_block \<Rightarrow> content_block \<Rightarrow> bool" where
  "pruned_block b b' \<longleftrightarrow> b' = b \<or> (\<exists>summary. b' = shorten_block summary b \<and> result_length b' < result_length b)"

definition pruned_message :: "chat_message \<Rightarrow> chat_message \<Rightarrow> bool" where
  "pruned_message m m' \<longleftrightarrow> cm_role m' = cm_role m \<and> list_all2 pruned_block (cm_content m) (cm_content m')"

lemma pruned_block_refl [simp]: "pruned_block b b"
  by (simp add: pruned_block_def)

lemma pruned_message_refl [simp]: "pruned_message m m"
  by (simp add: pruned_message_def list.rel_refl)

definition result_bytes :: "chat_message list \<Rightarrow> nat" where
  "result_bytes msgs = sum_list (map (\<lambda>m. sum_list (map result_length (cm_content m))) msgs)"

text \<open>A candidate that names a result of its length, in a conversation.\<close>

fun is_result :: "content_block \<Rightarrow> bool" where
  "is_result (ToolResultBlock tid content err blocks) \<longleftrightarrow> True"
| "is_result b \<longleftrightarrow> False"

definition names_result :: "chat_message list \<Rightarrow> prune_candidate \<Rightarrow> bool" where
  "names_result msgs c \<longleftrightarrow> pc_message c < length msgs \<and> pc_block c < length (cm_content (msgs ! pc_message c))
     \<and> is_result (cm_content (msgs ! pc_message c) ! pc_block c)
     \<and> result_length (cm_content (msgs ! pc_message c) ! pc_block c) = pc_original_len c"

abbreviation place :: "prune_candidate \<Rightarrow> nat \<times> nat" where
  "place c \<equiv> (pc_message c, pc_block c)"

lemma shorten_result:
  "is_result b \<Longrightarrow> result_length (shorten_block s b) = length s \<and> is_result (shorten_block s b)"
  by (cases b) simp_all

lemma prune_block_nth:
  assumes "names_result msgs c" and "i < length msgs"
  shows "prune_block c msgs ! i = (if i = pc_message c then (msgs ! i)\<lparr>cm_content :=
      (cm_content (msgs ! i))[pc_block c := shorten_block (prune_summary c) (cm_content (msgs ! i) ! pc_block c)]\<rparr> else msgs ! i)"
  using assms by (simp add: prune_block_def names_result_def Let_def nth_list_update)

lemma length_prune_block [simp]: "length (prune_block c msgs) = length msgs"
  by (simp add: prune_block_def Let_def)

lemma names_result_after:
  assumes "names_result msgs c" and "names_result msgs d" and "place d \<noteq> place c"
  shows "names_result (prune_block c msgs) d"
proof -
  have d: "pc_message d < length msgs" using assms(2) by (simp add: names_result_def)
  show ?thesis
    using assms by (auto simp: names_result_def prune_block_nth [OF assms(1) d] nth_list_update)
qed

lemma prune_block_bytes:
  assumes "names_result msgs c" and "length (prune_summary c) \<le> pc_original_len c"
  shows "result_bytes (prune_block c msgs) + (pc_original_len c - length (prune_summary c)) = result_bytes msgs"
proof -
  have sum_update: "sum_list (xs[i := y]) + x = sum_list xs + y" if "i < length xs" "xs ! i = x" for xs :: "nat list" and i x y
    using that elem_le_sum_list [of i xs] by (simp add: sum_list_update)
  define m where "m = msgs ! pc_message c"
  define bs where "bs = cm_content m"
  have at: "pc_message c < length msgs" "pc_block c < length bs" "is_result (bs ! pc_block c)"
    "result_length (bs ! pc_block c) = pc_original_len c"
    using assms(1) by (auto simp: names_result_def m_def bs_def)
  define new where "new = bs[pc_block c := shorten_block (prune_summary c) (bs ! pc_block c)]"
  have "sum_list (map result_length new) + pc_original_len c = sum_list (map result_length bs) + length (prune_summary c)"
    using sum_update [of "pc_block c" "map result_length bs" "pc_original_len c" "length (prune_summary c)"] at
      shorten_result [OF at(3)] by (simp add: new_def map_update)
  moreover have "result_bytes (prune_block c msgs) + sum_list (map result_length bs)
      = result_bytes msgs + sum_list (map result_length new)"
    using sum_update [of "pc_message c" "map (\<lambda>m. sum_list (map result_length (cm_content m))) msgs"
        "sum_list (map result_length bs)" "sum_list (map result_length new)"] at(1)
    by (simp add: result_bytes_def prune_block_def Let_def map_update m_def [symmetric] bs_def [symmetric] new_def [symmetric])
  ultimately show ?thesis using assms(2) by simp
qed

text \<open>Two conversations that differ in results at some places only, each shortened once.\<close>

definition differs_at :: "(nat \<times> nat) set \<Rightarrow> chat_message list \<Rightarrow> chat_message list \<Rightarrow> bool" where
  "differs_at S msgs msgs' \<longleftrightarrow> length msgs' = length msgs
     \<and> (\<forall>i < length msgs. cm_role (msgs' ! i) = cm_role (msgs ! i) \<and> length (cm_content (msgs' ! i)) = length (cm_content (msgs ! i))
         \<and> (\<forall>j < length (cm_content (msgs ! i)). if (i, j) \<in> S then pruned_block (cm_content (msgs ! i) ! j) (cm_content (msgs' ! i) ! j)
              else cm_content (msgs' ! i) ! j = cm_content (msgs ! i) ! j))"

lemma differs_at_refl: "differs_at {} msgs msgs"
  by (simp add: differs_at_def)

lemma differs_at_more: "differs_at S msgs msgs' \<Longrightarrow> S \<subseteq> T \<Longrightarrow> differs_at T msgs msgs'"
  unfolding differs_at_def using pruned_block_refl by (metis subsetD)

lemma differs_at_step:
  assumes "differs_at {p} msgs now" and "differs_at S now msgs'" and "p \<notin> S"
  shows "differs_at (insert p S) msgs msgs'"
proof -
  have "if (i, j) \<in> insert p S then pruned_block (cm_content (msgs ! i) ! j) (cm_content (msgs' ! i) ! j)
      else cm_content (msgs' ! i) ! j = cm_content (msgs ! i) ! j"
    if "i < length msgs" "j < length (cm_content (msgs ! i))" for i j
  proof -
    have now: "if (i, j) = p then pruned_block (cm_content (msgs ! i) ! j) (cm_content (now ! i) ! j)
        else cm_content (now ! i) ! j = cm_content (msgs ! i) ! j"
      using assms(1) that by (auto simp: differs_at_def)
    have after: "if (i, j) \<in> S then pruned_block (cm_content (now ! i) ! j) (cm_content (msgs' ! i) ! j)
        else cm_content (msgs' ! i) ! j = cm_content (now ! i) ! j"
      using assms(1,2) that by (auto simp: differs_at_def)
    show ?thesis using now after assms(3) by (cases "(i, j) = p"; cases "(i, j) \<in> S") simp_all
  qed
  then show ?thesis using assms(1,2) by (auto simp: differs_at_def)
qed

lemma prune_block_differs:
  assumes "names_result msgs c" and "length (prune_summary c) < pc_original_len c"
  shows "differs_at {place c} msgs (prune_block c msgs)"
proof -
  have "pruned_block b (shorten_block (prune_summary c) b)" if "is_result b" "result_length b = pc_original_len c" for b
    using that assms(2) shorten_result [of b "prune_summary c"] by (auto simp: pruned_block_def)
  then show ?thesis
    using assms(1) by (auto simp: differs_at_def prune_block_nth [OF assms(1)] nth_list_update names_result_def)
qed

lemma prune_loop_result:
  assumes "prune_loop stop cands cs msgs saved s = (msgs', saved', s')"
    and "list_all (names_result msgs) cs" and "distinct (map place cs)"
  shows "differs_at (place ` {c \<in> set cs. \<not> stays_full cands c}) msgs msgs'
     \<and> saved' + result_bytes msgs' = saved + result_bytes msgs"
  using assms
proof (induction cs arbitrary: msgs saved s)
  case (Cons c cs)
  show ?case
  proof (cases "stays_full cands c")
    case True
    then have "{d \<in> set (c # cs). \<not> stays_full cands d} = {d \<in> set cs. \<not> stays_full cands d}" by auto
    then show ?thesis using Cons.IH [of msgs saved s] Cons.prems True by simp
  next
    case False
    have c: "names_result msgs c" using Cons.prems(2) by simp
    have shorter: "length (prune_summary c) < pc_original_len c" using False by (simp add: stays_full_def Let_def)
    define now where "now = prune_block c msgs"
    define gain where "gain = saved + (pc_original_len c - length (prune_summary c))"
    have bytes: "gain + result_bytes now = saved + result_bytes msgs"
      using prune_block_bytes [OF c] shorter by (simp add: gain_def now_def)
    have rest: "list_all (names_result now) cs" "distinct (map place cs)"
      using Cons.prems(2,3) names_result_after [OF c] by (auto simp: list_all_iff now_def image_iff)
    have places: "place ` {d \<in> set (c # cs). \<not> stays_full cands d} = insert (place c) (place ` {d \<in> set cs. \<not> stays_full cands d})"
      using False by auto
    have fresh: "place c \<notin> place ` {d \<in> set cs. \<not> stays_full cands d}" using Cons.prems(3) by auto
    have first: "differs_at {place c} msgs now" using prune_block_differs [OF c shorter] by (simp add: now_def)
    have "(msgs', saved') = (now, gain) \<or> (\<exists>s. prune_loop stop cands cs now gain s = (msgs', saved', s'))"
      using Cons.prems(1) False c by (auto simp: Let_def now_def gain_def names_result_def split: prod.splits bool.splits)
    then show ?thesis
    proof
      assume "(msgs', saved') = (now, gain)"
      then show ?thesis using differs_at_more [OF first] bytes unfolding places by auto
    next
      assume "\<exists>s. prune_loop stop cands cs now gain s = (msgs', saved', s')"
      then show ?thesis
        using Cons.IH [OF _ rest, of gain] differs_at_step [OF first _ fresh] bytes unfolding places by auto
    qed
  qed
qed (simp add: differs_at_refl)

text \<open>The candidates name results, each place once.\<close>

lemma block_candidate_Some:
  "block_candidate uses mi (bi, b) = Some c \<Longrightarrow>
     pc_message c = mi \<and> pc_block c = bi \<and> is_result b \<and> result_length b = pc_original_len c"
  by (cases b) auto

lemma candidate_names:
  assumes "c \<in> set (prune_candidates uses msgs)"
  shows "names_result msgs c"
proof -
  from assms obtain mi bi where "mi < length msgs" "bi < length (cm_content (msgs ! mi))"
    "block_candidate uses mi (bi, cm_content (msgs ! mi) ! bi) = Some c"
    by (auto simp: prune_candidates_def in_map_filter in_set_enumerate_eq)
  then show ?thesis using block_candidate_Some by (fastforce simp: names_result_def)
qed

lemma candidate_places_message:
  "sorted_wrt (<) (map pc_block (List.map_filter (block_candidate uses mi) (List.enumerate n bs)))
   \<and> (\<forall>c \<in> set (List.map_filter (block_candidate uses mi) (List.enumerate n bs)). pc_message c = mi \<and> n \<le> pc_block c)"
proof (induction bs arbitrary: n)
  case (Cons b bs)
  show ?case
  proof (cases "block_candidate uses mi (n, b)")
    case (Some c)
    then show ?thesis
      using Cons.IH [of "Suc n"] block_candidate_Some [OF Some] by (fastforce simp: map_filter_simps)
  qed (use Cons.IH [of "Suc n"] in \<open>fastforce simp: map_filter_simps\<close>)
qed (simp add: map_filter_simps)

lemma candidate_places: "distinct (map place (prune_candidates uses msgs))"
proof -
  have "distinct (map place (concat (map (\<lambda>(mi, msg). List.map_filter (block_candidate uses mi) (List.enumerate 0 (cm_content msg)))
       (List.enumerate n msgs))))
    \<and> (\<forall>c \<in> set (concat (map (\<lambda>(mi, msg). List.map_filter (block_candidate uses mi) (List.enumerate 0 (cm_content msg)))
       (List.enumerate n msgs))). n \<le> pc_message c)" for n
  proof (induction msgs arbitrary: n)
    case (Cons m msgs)
    have "distinct (map place (List.map_filter (block_candidate uses n) (List.enumerate 0 (cm_content m))))"
      using candidate_places_message [of uses n 0 "cm_content m"]
      by (auto simp: distinct_map strict_sorted_iff inj_on_def)
    then show ?case
      using Cons.IH [of "Suc n"] candidate_places_message [of uses n 0 "cm_content m"] by fastforce
  qed simp
  then show ?thesis by (simp add: prune_candidates_def)
qed

lemma names_result_take: "names_result (take n msgs) c \<Longrightarrow> names_result msgs c"
  by (auto simp: names_result_def)

lemma prune_differs:
  assumes "prune_tool_results_until ser stop msgs protected s = (msgs', saved, s')"
  defines "cands \<equiv> prune_candidates (collect_tool_uses ser msgs) (take (length msgs - protected) msgs)"
  shows "differs_at (place ` {c \<in> set cands. \<not> stays_full cands c}) msgs msgs' \<and> saved + result_bytes msgs' = result_bytes msgs"
proof (cases "length msgs - protected = 0")
  case True
  then show ?thesis
    using assms(1) differs_at_more [OF differs_at_refl] by (simp add: prune_tool_results_until_def)
next
  case False
  have run: "prune_loop stop cands (rev cands) msgs 0 s = (msgs', saved, s')"
    using assms(1) unfolding prune_tool_results_until_def Let_def if_not_P [OF False] cands_def [symmetric] .
  have "names_result msgs c" if "c \<in> set cands" for c
    using that unfolding cands_def by (rule names_result_take [OF candidate_names])
  then have "list_all (names_result msgs) (rev cands)" by (simp add: list_all_iff)
  moreover have "distinct (map place (rev cands))"
    unfolding rev_map [symmetric] cands_def by (simp add: candidate_places)
  ultimately show ?thesis using prune_loop_result [OF run] by simp
qed

lemma differs_pruned: "differs_at S msgs msgs' \<Longrightarrow> list_all2 pruned_message msgs msgs'"
  unfolding differs_at_def list_all2_conv_all_nth pruned_message_def using pruned_block_refl by metis

lemma differs_same:
  assumes "differs_at S msgs msgs'" and "i < length msgs" and "i \<notin> fst ` S"
  shows "msgs' ! i = msgs ! i"
proof -
  have "cm_content (msgs' ! i) ! j = cm_content (msgs ! i) ! j" if "j < length (cm_content (msgs ! i))" for j
  proof -
    have "(i, j) \<notin> S" using assms(3) by force
    then show ?thesis using assms(1,2) that by (auto simp: differs_at_def)
  qed
  then have "cm_content (msgs' ! i) = cm_content (msgs ! i)"
    using assms(1,2) by (intro nth_equalityI) (auto simp: differs_at_def)
  then show ?thesis using assms(1,2) by (auto simp: differs_at_def)
qed

lemma pruning_relation:
  assumes "prune_tool_results_until ser stop msgs protected s = (msgs', saved, s')"
  shows "list_all2 pruned_message msgs msgs'"
  using differs_pruned prune_differs [OF assms] by blast

text \<open>
  C40: Pruning keeps every message and the order of the blocks, changes nothing but results, which it replaces by shorter
  texts, leaves the protected last messages alone, and saves exactly the bytes it reports, wherever it is stopped.
\<close>

theorem pruning_only_shortens_old_results:
  assumes "prune_tool_results_until ser stop msgs protected s = (msgs', saved, s')"
  shows "list_all2 pruned_message msgs msgs' \<and> drop (length msgs - protected) msgs' = drop (length msgs - protected) msgs
    \<and> saved + result_bytes msgs' = result_bytes msgs"
proof -
  define cands where "cands = prune_candidates (collect_tool_uses ser msgs) (take (length msgs - protected) msgs)"
  have diff: "differs_at (place ` {c \<in> set cands. \<not> stays_full cands c}) msgs msgs'" "saved + result_bytes msgs' = result_bytes msgs"
    using prune_differs [OF assms] by (auto simp: cands_def)
  have old: "i < length msgs - protected" if "i \<in> fst ` place ` {c \<in> set cands. \<not> stays_full cands c}" for i
  proof -
    from that obtain c where "c \<in> set cands" "i = pc_message c" by auto
    then show ?thesis using candidate_names by (fastforce simp: cands_def names_result_def)
  qed
  have len: "length msgs' = length msgs" using diff(1) by (simp add: differs_at_def)
  have "msgs' ! i = msgs ! i" if "length msgs - protected \<le> i" "i < length msgs" for i
    using differs_same [OF diff(1) that(2)] old [of i] that(1) by linarith
  then have "drop (length msgs - protected) msgs' = drop (length msgs - protected) msgs"
    by (intro nth_equalityI) (simp_all add: len)
  then show ?thesis using differs_pruned [OF diff(1)] diff(2) by simp
qed

text \<open>Pruning keeps a conversation in turns.\<close>

lemma pruned_block_ids:
  "pruned_block b b' \<Longrightarrow> call_id b' = call_id b \<and> result_id b' = result_id b \<and> is_text_block b' = is_text_block b"
  by (cases b) (auto simp: pruned_block_def)

lemma pruned_message_ids:
  assumes "pruned_message m m'"
  shows "call_ids m' = call_ids m \<and> result_ids m' = result_ids m \<and> is_user_text_query m' = is_user_text_query m"
proof -
  have ids: "list_all2 pruned_block bs bs' \<Longrightarrow> List.map_filter call_id bs' = List.map_filter call_id bs
      \<and> List.map_filter result_id bs' = List.map_filter result_id bs \<and> list_ex is_text_block bs' = list_ex is_text_block bs" for bs bs'
    by (induction rule: list_all2_induct) (auto simp: map_filter_simps dest!: pruned_block_ids cong: option.case_cong)
  show ?thesis
    using assms ids [of "cm_content m" "cm_content m'"]
    by (auto simp: pruned_message_def call_ids_def result_ids_def is_user_text_query_def)
qed

lemma pruned_in_turns:
  assumes "list_all2 pruned_message msgs msgs'"
  shows "in_turns msgs' \<longleftrightarrow> in_turns msgs"
proof -
  from assms have "map call_ids msgs' = map call_ids msgs \<and> (list_all P msgs' \<longleftrightarrow> list_all P msgs)"
    if "\<And>m m'. pruned_message m m' \<Longrightarrow> P m' = P m" for P
    using that by (induction rule: list_all2_induct) (simp_all add: pruned_message_ids)
  then show ?thesis by (simp add: in_turns_def pruned_message_ids)
qed

section \<open>What a compaction returns\<close>

lemma create_summary_requests:
  assumes "create_summary ser window client k msgs model = (res, k')"
  shows "k < k' \<and> k' \<le> k + 2 \<and> (\<forall>e. res = Inl e \<longrightarrow> (\<exists>req. client (k' - 1) req = Inl e))"
  using assms by (auto simp: create_summary_def Let_def split: sum.splits if_splits)

lemma kept_messages: "map snd (filter (\<lambda>(i, m). i \<in> K) (List.enumerate 0 msgs)) = nths msgs K"
  by (simp add: nths_def enumerate_eq_zip zip_commute [of msgs] filter_map comp_def case_prod_unfold)

lemma left_messages:
  assumes "K \<subseteq> {..<length msgs}"
  shows "map (\<lambda>i. msgs ! i) (filter (\<lambda>i. i \<notin> K) [0..<length msgs]) = nths msgs (- K)"
proof (induction msgs rule: rev_induct)
  case (snoc m msgs)
  have "map (\<lambda>i. (msgs @ [m]) ! i) (filter (\<lambda>i. i \<notin> K) [0..<length msgs]) = map (\<lambda>i. msgs ! i) (filter (\<lambda>i. i \<notin> K) [0..<length msgs])"
    by (simp add: nth_append)
  then show ?case using snoc by (simp add: nths_append nths_singleton)
qed simp

lemma compact_messages_result:
  assumes "compact_messages st config k msgs = (res, k')"
  shows "k' \<le> k + 2 \<and> (\<forall>e. res = Inl e \<longrightarrow> k < k' \<and> (\<exists>req. cs_client st (k' - 1) req = Inl e))
    \<and> (\<forall>kept prompt removed. res = Inr (kept, prompt, removed) \<longrightarrow>
         prompt = None \<and> kept = msgs \<and> removed = []
         \<or> prompt \<noteq> None \<and> kept = nths msgs (cp_pinned (plan_compaction (cs_env st) msgs KEEP_RECENT_MESSAGES (cs_pins st) (cs_paths st)))
           \<and> removed = nths msgs (- cp_pinned (plan_compaction (cs_env st) msgs KEEP_RECENT_MESSAGES (cs_pins st) (cs_paths st))))"
proof -
  define plan where "plan = plan_compaction (cs_env st) msgs KEEP_RECENT_MESSAGES (cs_pins st) (cs_paths st)"
  have left: "cp_summarize plan = filter (\<lambda>i. i \<notin> cp_pinned plan) [0..<length msgs]"
    by (simp add: plan_def plan_compaction_def Let_def)
  have "cp_pinned plan \<subseteq> {..<length msgs}" using plan_within by (simp add: plan_def)
  from left_messages [OF this] have rest: "map (\<lambda>i. msgs ! i) (cp_summarize plan) = nths msgs (- cp_pinned plan)" by (simp add: left)
  show ?thesis
  proof (cases "msgs = [] \<or> cp_summarize plan = []")
    case True
    then show ?thesis
      using assms unfolding compact_messages_def Let_def plan_def [symmetric] by (auto split: if_splits)
  next
    case False
    obtain summary k1 where made: "create_summary (ce_ser (cs_env st)) (cs_window st) (cs_client st) k
        (map (\<lambda>i. msgs ! i) (cp_summarize plan)) (cc_model config) = (summary, k1)" by force
    from create_summary_requests [OF made] show ?thesis
      using assms False unfolding compact_messages_def Let_def plan_def [symmetric] made
      by (auto simp: rest kept_messages split: sum.splits)
  qed
qed

text \<open>Attempts one after the other that all fail, with their errors.\<close>

fun failing_attempts ::
  "(nat \<Rightarrow> (string + chat_message list \<times> system_prompt option \<times> chat_message list) \<times> nat) \<Rightarrow> nat \<Rightarrow> string list \<Rightarrow> nat \<Rightarrow> bool" where
  "failing_attempts run k [] k' \<longleftrightarrow> k' = k"
| "failing_attempts run k (e # es) k' \<longleftrightarrow> (\<exists>k1. run k = (Inl e, k1) \<and> failing_attempts run k1 es k')"

lemma attempts_give_up:
  assumes "compaction_attempts run left attempt k last_error = (Inl e, k')" and "left \<noteq> 0"
  shows "\<exists>es. failing_attempts run k es k' \<and> es \<noteq> [] \<and> last es = e \<and> length es \<le> left
    \<and> list_all is_transient_error (butlast es) \<and> (is_transient_error e \<longrightarrow> length es = left)"
  using assms
proof (induction left arbitrary: attempt k last_error)
  case (Suc left)
  obtain out k1 where run: "run k = (out, k1)" by force
  then obtain e1 where e1: "out = Inl e1" using Suc.prems(1) by (cases out) auto
  show ?case
  proof (cases "is_transient_error e1 \<and> left \<noteq> 0")
    case True
    then have "compaction_attempts run left (attempt + 1) k1 (Some e1) = (Inl e, k')" using Suc.prems(1) run e1 by simp
    from Suc.IH [OF this] True obtain es where "failing_attempts run k1 es k'" "es \<noteq> []" "last es = e" "length es \<le> left"
      "list_all is_transient_error (butlast es)" "is_transient_error e \<longrightarrow> length es = left" by blast
    then show ?thesis using True run e1 by (intro exI [of _ "e1 # es"]) simp
  next
    case False
    then have "e = e1" "k' = k1" "is_transient_error e1 \<longrightarrow> left = 0"
      using Suc.prems(1) run e1 by (cases left; auto split: if_splits)+
    then show ?thesis using run e1 by (intro exI [of _ "[e1]"]) auto
  qed
qed simp

lemma attempts_result:
  assumes "\<And>k res k'. run k = (res, k') \<Longrightarrow> k' \<le> k + 2 \<and> (\<forall>e. res = Inl e \<longrightarrow> k < k' \<and> failed k' e)"
    and "compaction_attempts run left attempt k last_error = (res, k')" and "left \<noteq> 0"
  shows "k' \<le> k + 2 * left \<and> (\<forall>e. res = Inl e \<longrightarrow> k < k' \<and> failed k' e \<and> (is_transient_error e \<longrightarrow> k + left \<le> k'))
    \<and> (\<forall>r. res = Inr r \<longrightarrow> cr_retries_used r < attempt + left
         \<and> (\<exists>j. fst (run j) = Inr (cr_messages r, cr_summary_prompt r, cr_removed_messages r)))"
  using assms(2,3)
proof (induction left arbitrary: attempt k last_error)
  case (Suc left)
  obtain out k1 where run: "run k = (out, k1)" by force
  note now = assms(1) [OF run]
  show ?case
  proof (cases out)
    case (Inr t)
    then show ?thesis
      using Suc.prems(1) run now by (cases t) (auto intro!: exI [of _ k])
  next
    case (Inl e)
    show ?thesis
    proof (cases "is_transient_error e \<and> left \<noteq> 0")
      case True
      then have "compaction_attempts run left (attempt + 1) k1 (Some e) = (res, k')" using Suc.prems(1) run Inl by simp
      from Suc.IH [OF this] True have
        "k' \<le> k1 + 2 * left" "\<And>e. res = Inl e \<Longrightarrow> k1 < k' \<and> failed k' e \<and> (is_transient_error e \<longrightarrow> k1 + left \<le> k')"
        "\<And>r. res = Inr r \<Longrightarrow> cr_retries_used r < attempt + 1 + left
           \<and> (\<exists>j. fst (run j) = Inr (cr_messages r, cr_summary_prompt r, cr_removed_messages r))"
        by blast+
      moreover have "k < k1" "k1 \<le> k + 2" using now Inl by auto
      ultimately show ?thesis by (intro conjI allI impI; fastforce)
    next
      case False
      then show ?thesis using Suc.prems(1) run now Inl by (cases left) (auto split: if_splits)
    qed
  qed
qed simp

lemma safe_result:
  assumes "compact_messages_safe st config k msgs = (res, k')"
  obtains pruned where "list_all2 pruned_message msgs pruned" "k' = k"
      "res = Inr \<lparr>cr_messages = pruned, cr_summary_prompt = None, cr_removed_messages = [], cr_retries_used = 0\<rparr>"
  | pruned where "list_all2 pruned_message msgs pruned"
      "compaction_attempts (\<lambda>k. compact_messages st config k pruned) MAX_RETRIES 0 k None = (res, k')"
proof -
  define over where "over = should_compact (cs_env st) msgs config (cs_pins st) (cs_paths st)"
  obtain pruned saved check_at cleared where prune: "prune_tool_results_until (ce_ser (cs_env st)) (prune_check st config over) msgs
      KEEP_RECENT_MESSAGES (0, False) = (pruned, saved, (check_at, cleared))" by (metis prod.exhaust)
  have pruned: "list_all2 pruned_message msgs pruned" using pruning_relation [OF prune] .
  have same: "list_all2 pruned_message msgs msgs" by (simp add: list.rel_refl)
  define enough where "enough \<longleftrightarrow> 0 < saved \<and> over \<and> (if over \<and> 0 < saved \<and> \<not> cleared
      then \<not> should_compact (cs_env st) pruned config (cs_pins st) (cs_paths st) else cleared)"
  have out: "(if enough then (Inr \<lparr>cr_messages = pruned, cr_summary_prompt = None, cr_removed_messages = [], cr_retries_used = 0\<rparr>, k)
      else compaction_attempts (\<lambda>k. compact_messages st config k (if 0 < saved then pruned else msgs)) MAX_RETRIES 0 k None) = (res, k')"
    using assms unfolding compact_messages_safe_def Let_def over_def [symmetric] prune prod.case enough_def .
  consider "enough" | "\<not> enough" "0 < saved" | "\<not> enough" "saved = 0" by blast
  then show ?thesis
  proof cases
    case 1
    then show ?thesis using out that(1) [OF pruned] by simp
  next
    case 2
    then show ?thesis using out that(2) [OF pruned] by simp
  next
    case 3
    then show ?thesis using out that(2) [OF same] by simp
  qed
qed

lemma sent_pairs:
  assumes "in_turns msgs" and "m \<in> set (nths msgs (cp_pinned (plan_compaction env msgs keep pins paths)))"
  shows "(\<forall>tid \<in> set (result_ids m). \<exists>m' \<in> set (nths msgs (cp_pinned (plan_compaction env msgs keep pins paths))).
        tid \<in> set (call_ids m'))
    \<and> (\<forall>tid \<in> set (call_ids m). \<exists>m' \<in> set (nths msgs (cp_pinned (plan_compaction env msgs keep pins paths))).
        tid \<in> set (result_ids m'))"
proof -
  let ?K = "cp_pinned (plan_compaction env msgs keep pins paths)"
  obtain i where i: "i \<in> ?K" "m = msgs ! i" using assms(2) by (auto simp: set_nths)
  have "msgs ! j \<in> set (nths msgs ?K)" if "j \<in> ?K" for j
    using that plan_within [of env msgs keep pins paths] by (auto simp: set_nths)
  then show ?thesis using plan_kept_pairs [OF assms(1) i(1)] unfolding i(2) by blast
qed

text \<open>
  C14: A compaction that succeeds returns the conversation with old results shortened, or a summary and a part of that
  conversation with all the rest as removed messages, in order. In a conversation in turns the part that is sent on has
  no result without its call and no call without its results. It takes at most three attempts and six requests.
\<close>

theorem compaction_splits_the_conversation:
  assumes "compact_messages_safe st config k msgs = (Inr r, k')"
  shows "k' \<le> k + 6 \<and> cr_retries_used r < 3
    \<and> (\<exists>pruned. list_all2 pruned_message msgs pruned
        \<and> (if cr_summary_prompt r = None then cr_messages r = pruned \<and> cr_removed_messages r = []
           else (\<exists>K. cr_messages r = nths pruned K \<and> cr_removed_messages r = nths pruned (- K))
             \<and> (in_turns msgs \<longrightarrow> (\<forall>m \<in> set (cr_messages r).
                 (\<forall>tid \<in> set (result_ids m). \<exists>m' \<in> set (cr_messages r). tid \<in> set (call_ids m'))
                 \<and> (\<forall>tid \<in> set (call_ids m). \<exists>m' \<in> set (cr_messages r). tid \<in> set (result_ids m'))))))"
proof (cases rule: safe_result [OF assms])
  case (1 pruned)
  then show ?thesis by auto
next
  case (2 pruned)
  define K where "K = cp_pinned (plan_compaction (cs_env st) pruned KEEP_RECENT_MESSAGES (cs_pins st) (cs_paths st))"
  have run: "k' \<le> k + 2 \<and> (\<forall>e. res = Inl e \<longrightarrow> k < k' \<and> (\<exists>req. cs_client st (k' - 1) req = Inl e))"
    if "compact_messages st config k pruned = (res, k')" for k res k'
    using compact_messages_result [OF that] by blast
  note all = attempts_result [where failed = "\<lambda>k' e. \<exists>req. cs_client st (k' - 1) req = Inl e", OF run 2(2)]
  then have bounds: "k' \<le> k + 6" "cr_retries_used r < 3" by (simp_all add: MAX_RETRIES_def)
  obtain j where "fst (compact_messages st config j pruned) = Inr (cr_messages r, cr_summary_prompt r, cr_removed_messages r)"
    using all by (auto simp: MAX_RETRIES_def)
  then obtain j' where "compact_messages st config j pruned = (Inr (cr_messages r, cr_summary_prompt r, cr_removed_messages r), j')"
    by (metis prod.collapse)
  from compact_messages_result [OF this] consider
      "cr_summary_prompt r = None" "cr_messages r = pruned" "cr_removed_messages r = []"
    | "cr_summary_prompt r \<noteq> None" "cr_messages r = nths pruned K" "cr_removed_messages r = nths pruned (- K)"
    unfolding K_def by blast
  then show ?thesis
  proof cases
    case 1
    then show ?thesis using bounds 2(1) by auto
  next
    case parts: 2
    have "in_turns pruned" if "in_turns msgs" using that pruned_in_turns [OF 2(1)] by simp
    from sent_pairs [OF this] have pairs: "(\<forall>tid \<in> set (result_ids m). \<exists>m' \<in> set (nths pruned K). tid \<in> set (call_ids m'))
        \<and> (\<forall>tid \<in> set (call_ids m). \<exists>m' \<in> set (nths pruned K). tid \<in> set (result_ids m'))"
      if "in_turns msgs" "m \<in> set (nths pruned K)" for m
      using that unfolding K_def by blast
    then show ?thesis using bounds 2(1) parts by auto
  qed
qed

text \<open>
  C39: A compaction that fails made up to three attempts on the pruned conversation, all of them failed, the later ones
  only after transient errors; it reports the error of the last attempt, which is that of the last request, and reports
  a transient error only after exactly three attempts.
\<close>

theorem compaction_gives_up_after_three_attempts:
  assumes "compact_messages_safe st config k msgs = (Inl e, k')"
  shows "k < k' \<and> k' \<le> k + 6 \<and> (\<exists>request. cs_client st (k' - 1) request = Inl e)
    \<and> (\<exists>pruned es. list_all2 pruned_message msgs pruned
         \<and> failing_attempts (\<lambda>k. compact_messages st config k pruned) k es k' \<and> es \<noteq> [] \<and> last es = e
         \<and> length es \<le> 3 \<and> list_all is_transient_error (butlast es) \<and> (is_transient_error e \<longrightarrow> length es = 3))"
proof (cases rule: safe_result [OF assms])
  case (2 pruned)
  have run: "k' \<le> k + 2 \<and> (\<forall>e. res = Inl e \<longrightarrow> k < k' \<and> (\<exists>req. cs_client st (k' - 1) req = Inl e))"
    if "compact_messages st config k pruned = (res, k')" for k res k'
    using compact_messages_result [OF that] by blast
  have "k < k' \<and> k' \<le> k + 6 \<and> (\<exists>request. cs_client st (k' - 1) request = Inl e)"
    using attempts_result [where failed = "\<lambda>k' e. \<exists>req. cs_client st (k' - 1) req = Inl e", OF run 2(2)]
    by (simp add: MAX_RETRIES_def)
  moreover have "\<exists>es. failing_attempts (\<lambda>k. compact_messages st config k pruned) k es k' \<and> es \<noteq> [] \<and> last es = e
      \<and> length es \<le> 3 \<and> list_all is_transient_error (butlast es) \<and> (is_transient_error e \<longrightarrow> length es = 3)"
    using attempts_give_up [OF 2(2)] by (simp add: MAX_RETRIES_def)
  ultimately show ?thesis using 2(1) by blast
qed simp

section \<open>Merging prompts\<close>

fun prompt_texts :: "system_prompt option \<Rightarrow> string list" where
  "prompt_texts None = []"
| "prompt_texts (Some (SystemText text)) = [text]"
| "prompt_texts (Some (SystemBlocks bs)) = map sb_text bs"

lemma merge_keeps_texts: "prompt_texts (merge_system_prompts original summary) = prompt_texts original @ prompt_texts summary"
  by (cases "(original, summary)" rule: merge_system_prompts.cases) (simp_all split: system_prompt.split)

section \<open>Examples\<close>

definition demo_setting :: "model_client \<Rightarrow> compaction_setting" where
  "demo_setting client = \<lparr>cs_env = demo_env, cs_window = (\<lambda>model. None), cs_anchors = None, cs_client = client,
     cs_pins = None, cs_paths = None\<rparr>"

definition demo_config :: compaction_config where
  "demo_config = \<lparr>cc_enabled = False, cc_token_threshold = 100, cc_model = ''demo'', cc_cache_summary = False\<rparr>"

definition long_talk :: "chat_message list" where
  "long_talk = [calls_tool ''a'', gives_result ''a'' (replicate 300 (CHR ''x''))]"

theorem pruning_only_shortens_old_results_witness:
  "fst (snd (prune_tool_results_until (\<lambda>j. ''{}'') (\<lambda>s ms b. (False, s)) long_talk 0 ())) = 248
   \<and> result_bytes (fst (prune_tool_results_until (\<lambda>j. ''{}'') (\<lambda>s ms b. (False, s)) long_talk 0 ())) = 52"
proof -
  define out where "out = prune_tool_results_until (\<lambda>j. ''{}'') (\<lambda>s ms b. (False, s)) long_talk 0 ()"
  have "out = (fst out, fst (snd out), snd (snd out))" by (simp only: prod.collapse)
  from pruning_only_shortens_old_results [OF this [unfolded out_def]]
  have "fst (snd out) + result_bytes (fst out) = result_bytes long_talk" by (simp add: out_def)
  moreover have "result_bytes long_talk = 300" by code_simp
  moreover have "fst (snd out) = 248" unfolding out_def by code_simp
  ultimately show ?thesis by (simp add: out_def)
qed

definition demo_answers :: model_client where
  "demo_answers k request = Inr [TextBlock ''a summary'' None]"

definition demo_outage :: model_client where
  "demo_outage k request = Inl ''connection reset''"

lemma demo_whole_plan:
  "plan_compaction demo_env demo_messages KEEP_RECENT_MESSAGES None None
   = \<lparr>cp_pinned = {0, 1, 2, 4, 5, 6, 7}, cp_summarize = [3]\<rparr>"
proof -
  have "cp_summarize (plan_compaction demo_env demo_messages KEEP_RECENT_MESSAGES None None)
      = filter (\<lambda>i. i \<notin> {0, 1, 2, 4, 5, 6, 7}) [0..<length demo_messages]"
    unfolding demo_kept [symmetric] by (simp add: plan_compaction_def Let_def)
  also have "\<dots> = [3]" by code_simp
  finally show ?thesis using demo_kept by simp
qed

lemma demo_prune:
  fixes s :: "nat \<times> bool"
  shows "prune_tool_results_until (ce_ser demo_env) stop demo_messages KEEP_RECENT_MESSAGES s = (demo_messages, 0, s)"
  by code_simp

lemma demo_compact:
  "compact_messages_safe (demo_setting client) demo_config k demo_messages
   = compaction_attempts (\<lambda>k. compact_messages (demo_setting client) demo_config k demo_messages) MAX_RETRIES 0 k None"
  by (simp add: compact_messages_safe_def should_compact_def demo_config_def demo_setting_def demo_prune Let_def)

lemma demo_attempt:
  "fst (compact_messages (demo_setting demo_answers) demo_config k demo_messages)
     = Inr (nths demo_messages {0, 1, 2, 4, 5, 6, 7}, Some (SystemBlocks [summary_block demo_config [] ''a summary''
         (extract_workflow_context None [demo_messages ! 3])]), [demo_messages ! 3])"
  "snd (compact_messages (demo_setting demo_answers) demo_config k demo_messages) = k + 1"
  "compact_messages (demo_setting demo_outage) demo_config k demo_messages = (Inl ''connection reset'', k + 1)"
proof -
  have some: "demo_messages \<noteq> []" by (simp add: demo_messages_def)
  have whole: "plan_compaction (cs_env (demo_setting client)) demo_messages KEEP_RECENT_MESSAGES (cs_pins (demo_setting client))
      (cs_paths (demo_setting client)) = \<lparr>cp_pinned = {0, 1, 2, 4, 5, 6, 7}, cp_summarize = [3]\<rparr>" for client
    using demo_whole_plan by (simp add: demo_setting_def)
  have small: "should_use_cache_aligned_summary ser (\<lambda>model. None) model msgs = False" for ser model msgs
    by (simp add: should_use_cache_aligned_summary_def)
  have said: "summary_text [TextBlock ''a summary'' None] = ''a summary''"
    by (simp add: summary_text_def map_filter_simps)
  show "fst (compact_messages (demo_setting demo_answers) demo_config k demo_messages)
     = Inr (nths demo_messages {0, 1, 2, 4, 5, 6, 7}, Some (SystemBlocks [summary_block demo_config [] ''a summary''
         (extract_workflow_context None [demo_messages ! 3])]), [demo_messages ! 3])"
    "snd (compact_messages (demo_setting demo_answers) demo_config k demo_messages) = k + 1"
    "compact_messages (demo_setting demo_outage) demo_config k demo_messages = (Inl ''connection reset'', k + 1)"
    unfolding compact_messages_def Let_def whole kept_messages
    by (simp_all add: some create_summary_def Let_def demo_setting_def demo_answers_def demo_outage_def small said
        anchor_summary_section_def read_workspace_anchors_def demo_env_def)
qed

theorem compaction_splits_the_conversation_witness:
  "\<exists>r. compact_messages_safe (demo_setting demo_answers) demo_config 0 demo_messages = (Inr r, 1) \<and> cr_retries_used r < 3
     \<and> (\<forall>m \<in> set (cr_messages r). \<forall>tid \<in> set (call_ids m). \<exists>m' \<in> set (cr_messages r). tid \<in> set (result_ids m'))"
proof -
  obtain r where r: "compact_messages_safe (demo_setting demo_answers) demo_config 0 demo_messages = (Inr r, 1)"
    "cr_summary_prompt r \<noteq> None"
    using demo_attempt(1,2) [of 0]
    by (cases "compact_messages (demo_setting demo_answers) demo_config 0 demo_messages")
      (auto simp: demo_compact MAX_RETRIES_def eval_nat_numeral)
  then show ?thesis using compaction_splits_the_conversation [OF r(1)] demo_in_turns by auto
qed

theorem compaction_gives_up_after_three_attempts_witness:
  "\<exists>k' pruned. compact_messages_safe (demo_setting demo_outage) demo_config 0 demo_messages = (Inl ''connection reset'', k')
     \<and> (\<exists>es. failing_attempts (\<lambda>k. compact_messages (demo_setting demo_outage) demo_config k pruned) 0 es k' \<and> length es = 3)"
proof -
  have passing: "is_transient_error ''connection reset''" by code_simp
  then obtain k' where k': "compact_messages_safe (demo_setting demo_outage) demo_config 0 demo_messages = (Inl ''connection reset'', k')"
    by (auto simp: demo_compact MAX_RETRIES_def eval_nat_numeral demo_attempt(3))
  then show ?thesis using compaction_gives_up_after_three_attempts [OF k'] passing by blast
qed

end
