(* ===== verification/Spec2Isabelle.thy ===== *)
theory Spec2Isabelle
  imports Exec_Policy Command_Safety Network_Policy Job_Manager Fleet_Scheduler Tool_Dispatch Patch_Write
    Workflow_Select Workflow_Replay Workflow_Models Store_Migration Goal_Projection
    Tool_Invocation Worker_Profile Compaction_Run
begin

text \<open>
  CodeWhale is a coding agent written in Rust. A model proposes shell commands, file edits and network
  calls; the agent decides which of them run, remembers the jobs it started, and drives a fleet of
  workers through a shared ledger. This library models the parts that take those decisions and keep
  that state.

  \<^bold>\<open>Prelude.\<close> \<open>Rust_Std\<close> holds the functions of the Rust standard library the code calls (trimming,
  splitting, prefix tests, ASCII case), on strings of ASCII characters. \<open>Word_Saturate\<close> holds
  saturating arithmetic on machine words, \<open>Ordered_Map\<close> the contract of \<open>BTreeMap\<close> (locale
  \<open>ordered_map\<close>) and its model, the sorted association list. \<open>Json_Value\<close> is \<open>serde_json::Value\<close> with
  its accessors; the text format is a pair of functions with a round trip, \<open>json_codec\<close>, or \<open>bounded_codec\<close> where
  values nest below the 128 levels \<open>serde_json\<close> reads (the rows of jobs).

  \<^bold>\<open>Execution policy.\<close> \<open>Bash_Arity\<close> (\<open>crates/execpolicy/src/bash_arity.rs\<close>) reduces a command to the
  words that identify it; \<open>Workspace_Path\<close> and \<open>Exec_Policy\<close> (\<open>crates/execpolicy/src/lib.rs\<close>)
  normalise paths and decide commands against layered rulesets. \<open>check\<close> is the whole function of the
  code, its parts named \<open>denied_rule\<close>, \<open>trusted_rule\<close>, \<open>segment_deny\<close>, \<open>mode_requirement\<close>. The
  properties state what a denial and a typed rule guarantee, which decisions run a command unasked (so that a trusted
  prefix never carries over a chain), and exactly which paths normalise, and to what; lemmas that adding a ruleset never
  widens what is allowed.

  \<^bold>\<open>Command safety.\<close> \<open>Command_Safety\<close> (\<open>crates/tui/src/command_safety.rs\<close>): the analysis that grades a
  command line before the policy sees it, its detection of deletions, chaining and substitution, the list of
  commands that may run in parallel (a partial function that unwraps shells, shown to return), and the allow-rule
  matcher, which is compared with the one of \<open>Bash_Arity\<close>.

  \<^bold>\<open>Network policy.\<close> \<open>Network_Policy\<close> (\<open>crates/tui/src/network_policy.rs\<close>): host lists, IPv4 ranges,
  the session cache and the audit log. The cache is used through the locale \<open>session_cache\<close>; URL
  parsing is a parameter. The properties relate \<open>evaluate\<close> to the last answer of the user.

  \<^bold>\<open>Jobs.\<close> \<open>Job_Manager\<close> (\<open>crates/core/src/lib.rs\<close> and the jobs statements of
  \<open>crates/state/src/lib.rs\<close>): the manager in memory, the table on disk, and the steps of a runtime
  as an inductive relation in which any write may fail. The table is used through the locale
  \<open>keyed_store\<close>. The properties are the invariant of reachable runtimes in memory and in the table, recovery after
  a restart, and the bound on retries over any operations of a job.

  \<^bold>\<open>Fleet.\<close> \<open>Fleet_Types\<close> (\<open>crates/protocol/src/fleet.rs\<close>) are the records on the wire;
  \<open>Fleet_Ledger\<close> (\<open>crates/tui/src/fleet/ledger.rs\<close>) replays an append-only file into the state of the
  fleet. A replayed log and a log with a rank are locales, interpreted on \<open>apply_record\<close>; the file
  refines the list of its records. \<open>Fleet_Scheduler\<close> (\<open>crates/tui/src/fleet/scheduler.rs\<close>) runs on
  that list: an operation is a function from a disk to a result and a disk, a disk may stop answering
  after any number of operations, and the rules \<open>valid_*\<close>, one per construct, give the states an
  operation can end or fail in. The launch loop is a total function, by the number of queued tasks.

  \<^bold>\<open>Tools.\<close> \<open>Tool_Dispatch\<close> (\<open>crates/tools/src/lib.rs\<close>): input helpers, the registry, the checks of a call, and
  the lock that lets parallel tools overlap and serial tools run alone, as an inductive step relation over the
  queue of the lock. The properties are exclusion and that waiting calls can be served. \<open>Tool_Invocation\<close>
  (\<open>Runtime::invoke_tool\<close> of \<open>crates/core/src/lib.rs\<close>) joins the policy, the registry and the answer to the client:
  only calls the policy lets run unasked reach a handler, and the answer tells, in every case, which way a call went and
  with what error or output.

  \<^bold>\<open>Sub-agents.\<close> \<open>Worker_Profile\<close> (\<open>crates/tui/src/worker_profile.rs\<close>, \<open>tools/subagent/mod.rs\<close>): the profile of a
  worker, the spawning of a child from its parent's, and the gate every tool call of a sub-agent passes. The profile of a
  child is a meet, so no worker does what one above it may not; what the gate does not bound is stated too.

  \<^bold>\<open>Patches.\<close> The tool \<open>apply_patch\<close> (\<open>crates/tui/src/tools/apply_patch.rs\<close>) in three theories. \<open>Patch_Text\<close> reads
  unified diffs and plans (\<open>parse_unified_diff_files\<close>, \<open>preflight_apply_patch_plan\<close>) and reads back what a diff
  prints. \<open>Patch_Hunks\<close> places hunks (\<open>apply_hunk\<close>, with the fuzz and the offset of earlier hunks) and
  reassembles lines. \<open>Patch_Write\<close> builds the pending writes and carries them out on a file system in which any
  operation may fail, with the rollback (\<open>apply_pending_writes\<close>), up to \<open>execute\<close>. Reading uses the helpers of
  \<open>Tool_Dispatch\<close>. The properties go from a hunk (nearest match) over a file (a diff turns the old lines into the
  new) to the tool: a diff text changes exactly its file, a failure restores every file, and the preflight names
  every file that can change.

  \<^bold>\<open>Workflows.\<close> The crate \<open>crates/whaleflow\<close> in seven theories. \<open>Workflow_Plan\<close> (\<open>lib.rs\<close>) compiles phases and
  tasks into an ordered plan (\<open>from_config\<close>, the depth-first \<open>visit_phase\<close>, the write scopes). \<open>Workflow_Tree\<close> holds
  the nodes of a workflow, their validation and the count of agents with the fleet limits; \<open>Workflow_Exec\<close> the
  deterministic executor, a nested recursion that ends because an expansion uses up the nodes generated for it;
  \<open>Workflow_Run\<close> a whole run, with the locale \<open>run_invariant\<close> of what every primitive keeps and its interpretations
  (totals, stop, step budget). \<open>Workflow_Select\<close> takes candidates from results: tournament, Pareto frontier, promotion
  gate. \<open>Workflow_Replay\<close> (\<open>replay.rs\<close>) replays a recorded trace, with the locale \<open>replay_invariant\<close>;
  \<open>Workflow_Models\<close> (\<open>model_policy.rs\<close>) resolves models and repairs JSON. The properties: a plan respects its
  dependencies, and a configuration with a cycle is refused, for that cycle unless an earlier check fails; an admitted
  workflow without expansions stays within the agents counted; nothing runs after a stop; a successful replay rests on
  its trace, node by node (\<open>visits\<close>, \<open>rests_on\<close>); the frontier is what no candidate dominates.

  \<^bold>\<open>Threads.\<close> The database of threads (\<open>crates/state/src/lib.rs\<close>) in three theories. \<open>Thread_Store\<close> has the tables
  as lists of records, the operations on threads and goals, and the session index, a log that follows the table.
  \<open>Message_Tree\<close> has the tree of messages with its recursive query, branches, checkpoints and dynamic tools, and the
  relation \<open>store_step\<close> of every operation; the properties are its references and keys, that a conversation is read
  back, and that a fork keeps the other branches. \<open>Store_Migration\<close> is the step from the flat messages of the first
  schema. \<open>Thread_Runtime\<close> (\<open>crates/core/src/lib.rs\<close>) is the manager with its running threads and every thread
  request with its answer: a request changes only its own thread, as asked (\<open>thread_view\<close>, \<open>asked\<close>), and the running
  threads mirror the store.

  \<^bold>\<open>Goals.\<close> \<open>Goal_State\<close> (\<open>crates/tui/src/tools/goal.rs\<close>, \<open>goal_loop.rs\<close>) is the goal of a session with its tools and the
  decision to go on; \<open>Goal_Engine\<close> (\<open>core/engine.rs\<close>, \<open>core/engine/turn_loop.rs\<close>) what the engine does with it, as a
  step relation over the bounded channel of operations that the engine reads and also writes. The properties: a goal is
  complete only with a verification that passed, a goal with a budget ends when every turn uses a token, and the engine goes on unless it writes
  into its own full channel. \<open>Goal_Projection\<close> relates the goal of a stored thread to the decision.

  \<^bold>\<open>Bounds.\<close> Only the replay takes a bound, on nested expansions: recorded nodes can expand without end. The bound is enough
  when \<open>visits\<close>, which follows the control records alone, is not \<open>None\<close>; one level is when recorded nodes hold no
  expansion; and a larger bound changes no result. The round limit of the hunk reader is the
  code's own, as are the channel of 32 operations, the three passes of a goal in a turn and the limits of the lists of
  the store (500 messages, 100 checkpoints, 50 threads). Machine integers keep their width: 8, 32 and 64 bit words, with
  saturation where the code saturates. Signed 64 bit clocks are integers with their range stated
  (\<open>in_i64\<close>); instants of the scheduler are integers in nanoseconds. Lengths and counters of type
  \<open>usize\<close> are natural numbers.

  \<^bold>\<open>Not modelled.\<close> Characters beyond ASCII; derived serialisation code; the parser of URLs, the
  random identifiers, the clock, the messages of the operating system and the resolution of paths, which are
  parameters; symbolic links; the terminal interface, the model clients, the other tools and the servers,
  whose code is mostly input and output around the components above; the authoring of workflows in JavaScript and
  Starlark, whose interpreters are third party. The hash of a leaf's inputs and the JSON parser of model output are
  parameters, as are the conversion of text to integer columns and the floats of overflowing sums in SQLite, whose
  query planner, locking and disk errors are left out. Of the engine only the goal loop is modelled, of sub-agents
  only what bounds them: not their loop, mailboxes, token budgets and records.
\<close>

end
